(* ===== verification/Prelude.thy ===== *)
theory Prelude
  imports Main "HOL-Library.Word" "HOL-Library.List_Lexorder" "HOL-Library.Char_ord"
begin

text \<open>
  Shared material of the development: names for the types that occur in every component
  (raw identifiers as byte lists, hexadecimal identifiers as strings, time stamps), the ways
  a C++ operation can fail, the ordered map that models \<^verbatim>\<open>std::map\<close>, and generic lemmas
  on lists and runs of operations.  Nothing here models code of the repository by itself; the
  standard library's containers are modelled because the components are built on them.
\<close>

named_theorems inv_simps \<open>definitions of the invariants of the components\<close>
named_theorems om_laws \<open>laws of the ordered map\<close>

section \<open>Types\<close>

type_synonym byte = "8 word"
type_synonym bytes = "byte list"

text \<open>\<^verbatim>\<open>DhtAddress\<close> is the hexadecimal form of an identifier, \<^verbatim>\<open>DhtAddressRaw\<close> its bytes.\<close>

type_synonym DhtAddress = string
type_synonym DhtAddressRaw = bytes

text \<open>Points in time and durations, in milliseconds.\<close>

type_synonym millis = int

text \<open>
  What a C++ operation can do instead of returning: throw (with the kind of exception), or
  read outside of a container, which the language leaves undefined.
\<close>

datatype cpp_error =
    RuntimeError string
  | LogicError string
  | InvalidArgument string
  | OutOfRange
  | BadOptionalAccess
  | NonHexInput
  | UndefinedBehaviour

section \<open>Ordered maps\<close>

text \<open>
  \<^verbatim>\<open>std::map\<close> iterates in ascending key order, and several operations of the repository
  depend on that order.  It is modelled by an association list; \<open>om_ok\<close> says that the keys
  are strictly ascending.
\<close>

type_synonym ('k, 'v) omap = "('k \<times> 'v) list"

definition om_ok :: "('k::linorder, 'v) omap \<Rightarrow> bool" where
  "om_ok m \<longleftrightarrow> sorted_wrt (<) (map fst m)"

definition om_find :: "('k, 'v) omap \<Rightarrow> 'k \<Rightarrow> 'v option" where
  "om_find m k = map_of m k"

definition om_contains :: "('k, 'v) omap \<Rightarrow> 'k \<Rightarrow> bool" where
  "om_contains m k \<longleftrightarrow> map_of m k \<noteq> None"

fun om_put :: "('k::linorder) \<Rightarrow> 'v \<Rightarrow> ('k, 'v) omap \<Rightarrow> ('k, 'v) omap" where
  "om_put k v [] = [(k, v)]"
| "om_put k v ((k', v') # m) =
     (if k < k' then (k, v) # (k', v') # m
      else if k = k' then (k, v) # m
      else (k', v') # om_put k v m)"

text \<open>\<^verbatim>\<open>emplace\<close> keeps the value of a key that is already there.\<close>

definition om_emplace :: "('k::linorder) \<Rightarrow> 'v \<Rightarrow> ('k, 'v) omap \<Rightarrow> ('k, 'v) omap" where
  "om_emplace k v m = (if om_contains m k then m else om_put k v m)"

definition om_erase :: "'k \<Rightarrow> ('k, 'v) omap \<Rightarrow> ('k, 'v) omap" where
  "om_erase k m = filter (\<lambda>(k', _). k' \<noteq> k) m"

definition om_adjust :: "('v \<Rightarrow> 'v) \<Rightarrow> 'k \<Rightarrow> ('k, 'v) omap \<Rightarrow> ('k, 'v) omap" where
  "om_adjust f k m = map (\<lambda>(k', v). (k', if k' = k then f v else v)) m"

definition om_keys :: "('k, 'v) omap \<Rightarrow> 'k list" where
  "om_keys m = map fst m"

definition om_values :: "('k, 'v) omap \<Rightarrow> 'v list" where
  "om_values m = map snd m"

lemma om_ok_Nil [simp, om_laws]: "om_ok []"
  by (simp add: om_ok_def)

lemma om_ok_Cons: "om_ok ((k, v) # m) \<longleftrightarrow> (\<forall>k' \<in> fst ` set m. k < k') \<and> om_ok m"
  by (auto simp: om_ok_def)

lemma om_ok_distinct: "om_ok m \<Longrightarrow> distinct (map fst m)"
  by (simp add: om_ok_def strict_sorted_iff)

lemma om_keys_put: "fst ` set (om_put k v m) = insert k (fst ` set m)"
  by (induction k v m rule: om_put.induct) auto

lemma om_find_put [simp, om_laws]:
  "om_find (om_put k v m) k' = (if k' = k then Some v else om_find m k')"
  by (induction k v m rule: om_put.induct) (auto simp: om_find_def)

lemma om_ok_put [simp, om_laws]: "om_ok m \<Longrightarrow> om_ok (om_put k v m)"
proof (induction k v m rule: om_put.induct)
  case (2 k v k' v' m)
  then show ?case
    by (cases k k' rule: linorder_cases) (auto simp: om_ok_Cons om_keys_put image_iff)
qed (simp add: om_ok_Cons)

lemma map_of_erase: "map_of (om_erase k m) k' = (if k' = k then None else map_of m k')"
  by (induction m) (auto simp: om_erase_def)

lemma om_find_erase [simp, om_laws]:
  "om_find (om_erase k m) k' = (if k' = k then None else om_find m k')"
  by (simp add: om_find_def map_of_erase)

lemma om_erase_absent: "om_find m k = None \<Longrightarrow> om_erase k m = m"
  by (induction m) (auto simp: om_erase_def om_find_def split: if_splits)

lemma om_erase_put: "om_erase k (om_put k v m) = om_erase k m"
  by (induction k v m rule: om_put.induct) (auto simp: om_erase_def)

lemma dom_om_find_erase: "dom (om_find (om_erase k m)) = dom (om_find m) - {k}"
  by (auto simp: dom_def)

lemma om_ok_erase [simp, om_laws]: "om_ok m \<Longrightarrow> om_ok (om_erase k m)"
  by (induction m) (auto simp: om_erase_def om_ok_Cons)

lemma map_of_adjust: "map_of (om_adjust f k m) k' = (if k' = k then map_option f (map_of m k') else map_of m k')"
  by (induction m) (auto simp: om_adjust_def)

lemma om_find_adjust [simp, om_laws]:
  "om_find (om_adjust f k m) k' = (if k' = k then map_option f (om_find m k') else om_find m k')"
  by (simp add: om_find_def map_of_adjust)

lemma om_keys_adjust [simp]: "map fst (om_adjust f k m) = map fst m"
  by (auto simp: om_adjust_def)

lemma om_ok_adjust [simp, om_laws]: "om_ok m \<Longrightarrow> om_ok (om_adjust f k m)"
  by (simp add: om_ok_def)

lemma om_contains_iff: "om_contains m k \<longleftrightarrow> k \<in> fst ` set m"
  by (simp add: om_contains_def map_of_eq_None_iff)

lemma om_contains_find: "om_contains m k \<longleftrightarrow> om_find m k \<noteq> None"
  by (simp add: om_contains_def om_find_def)

lemma om_find_None_iff: "om_find m k = None \<longleftrightarrow> k \<notin> fst ` set m"
  by (simp add: om_find_def map_of_eq_None_iff)

lemma om_find_in_set: "om_find m k = Some v \<Longrightarrow> (k, v) \<in> set m"
  by (simp add: om_find_def map_of_SomeD)

lemma om_find_set_iff: "om_ok m \<Longrightarrow> om_find m k = Some v \<longleftrightarrow> (k, v) \<in> set m"
  by (simp add: om_find_def om_ok_distinct)

lemma set_om_values: "om_ok m \<Longrightarrow> set (om_values m) = ran (om_find m)"
  by (force simp: om_values_def ran_def om_find_set_iff)

lemma set_om_keys: "set (om_keys m) = dom (om_find m)"
  unfolding om_find_def [abs_def] om_keys_def by (simp add: dom_map_of_conv_image_fst)

lemma om_size_put: "om_ok m \<Longrightarrow> length (om_put k v m) = (if om_contains m k then length m else Suc (length m))"
proof (induction k v m rule: om_put.induct)
  case (2 k v k' v' m)
  then show ?case
    by (auto simp: om_contains_iff om_ok_Cons image_iff dest: less_asym)
qed (simp add: om_contains_def)

lemma om_size_erase: "om_ok m \<Longrightarrow> length (om_erase k m) = (if om_contains m k then length m - 1 else length m)"
proof (induction m)
  case (Cons a m)
  obtain k' v where a: "a = (k', v)" by force
  have *: "length (om_erase k m) = length m" if "k \<notin> fst ` set m"
    using that by (induction m) (auto simp: om_erase_def)
  show ?case
  proof (cases "k' = k")
    case True
    with Cons.prems a have "k \<notin> fst ` set m" by (auto simp: om_ok_Cons)
    with True a * show ?thesis by (simp add: om_erase_def om_contains_def)
  next
    case False
    with Cons a show ?thesis
      by (cases m) (auto simp: om_ok_Cons om_erase_def om_contains_iff split: if_splits)
  qed
qed (simp add: om_erase_def)

lemma om_emplace_find [simp, om_laws]:
  "om_find (om_emplace k v m) k' =
     (if k' = k then Some (case om_find m k of Some w \<Rightarrow> w | None \<Rightarrow> v) else om_find m k')"
  by (auto simp: om_emplace_def om_contains_find split: option.splits)

lemma om_ok_emplace [simp, om_laws]: "om_ok m \<Longrightarrow> om_ok (om_emplace k v m)"
  by (simp add: om_emplace_def)

section \<open>Runs of operations\<close>

text \<open>
  The interface every stateful component offers to its clients: operations take a state to a
  state and keep an invariant.  A client may then call any number of them, in any order.
\<close>

locale op_machine =
  fixes step :: "'s \<Rightarrow> 'op \<Rightarrow> 's"
    and inv :: "'s \<Rightarrow> bool"
    and ok :: "'op \<Rightarrow> bool"
  assumes step_inv: "inv s \<Longrightarrow> ok op \<Longrightarrow> inv (step s op)"
begin

lemma run_inv: "inv s \<Longrightarrow> list_all ok ops \<Longrightarrow> inv (foldl step s ops)"
  by (induction ops arbitrary: s) (auto simp: step_inv)

text \<open>A relation that every operation respects relates the start and the end of a run.\<close>

lemma run_rel:
  assumes "\<And>s. R s s" "\<And>s t u. R s t \<Longrightarrow> R t u \<Longrightarrow> R s u"
    and "\<And>s op. inv s \<Longrightarrow> ok op \<Longrightarrow> R s (step s op)"
    and "inv s" "list_all ok ops"
  shows "R s (foldl step s ops)"
  using assms(4,5)
proof (induction ops arbitrary: s)
  case (Cons op ops)
  then have "R s (step s op)" "R (step s op) (foldl step (step s op) ops)"
    using assms(3) step_inv by auto
  then show ?case using assms(2) by simp
qed (simp add: assms(1))

end

section \<open>Decimal numerals\<close>

text \<open>\<^verbatim>\<open>std::to_string\<close> on integers.\<close>

fun nat_to_string :: "nat \<Rightarrow> string" where
  "nat_to_string n = (if n < 10 then [char_of (48 + n)] else nat_to_string (n div 10) @ [char_of (48 + n mod 10)])"

declare nat_to_string.simps [simp del]

definition to_string :: "int \<Rightarrow> string" where
  "to_string i = (if i < 0 then CHR ''-'' # nat_to_string (nat (- i)) else nat_to_string (nat i))"

lemma nat_to_string_digits: "c \<in> set (nat_to_string n) \<Longrightarrow> 48 \<le> (of_char c :: nat) \<and> (of_char c :: nat) < 58"
proof (induction n rule: nat_to_string.induct)
  case (1 n)
  have "n mod 10 < 10" by simp
  then show ?case using 1 by (subst (asm) (2) nat_to_string.simps) (auto simp: of_char_of split: if_splits)
qed

definition digits_value :: "string \<Rightarrow> nat" where
  "digits_value s = foldl (\<lambda>n c. 10 * n + (of_char c - 48)) 0 s"

lemma digits_value_snoc: "digits_value (s @ [c]) = 10 * digits_value s + (of_char c - 48)"
  by (simp add: digits_value_def)

lemma nat_to_string_value: "digits_value (nat_to_string n) = n"
proof (induction n rule: nat_to_string.induct)
  case (1 n)
  show ?case
  proof (cases "n < 10")
    case True
    then show ?thesis by (subst nat_to_string.simps) (simp add: digits_value_def of_char_of)
  next
    case False
    have "(of_char (char_of (48 + n mod 10) :: char) :: nat) = 48 + n mod 10"
      by (simp add: of_char_of)
    then show ?thesis using False 1 by (subst nat_to_string.simps) (simp add: digits_value_snoc)
  qed
qed

lemma nat_to_string_inject [simp]: "nat_to_string m = nat_to_string n \<longleftrightarrow> m = n"
  by (metis nat_to_string_value)

section \<open>Lists\<close>

lemma sorted_wrt_take: "sorted_wrt P xs \<Longrightarrow> sorted_wrt P (take n xs)"
  by (metis append_take_drop_id sorted_wrt_append)

lemma sorted_wrt_drop: "sorted_wrt P xs \<Longrightarrow> sorted_wrt P (drop n xs)"
  by (metis append_take_drop_id sorted_wrt_append)

lemma sorted_wrt_butlast: "sorted_wrt P xs \<Longrightarrow> sorted_wrt P (butlast xs)"
  by (simp add: butlast_conv_take sorted_wrt_take)

lemma last_greatest: "sorted_wrt P xs \<Longrightarrow> x \<in> set (butlast xs) \<Longrightarrow> P x (last xs)"
  by (induction xs) (auto split: if_splits)

lemma distinct_butlast_last: "distinct xs \<Longrightarrow> xs \<noteq> [] \<Longrightarrow> last xs \<notin> set (butlast xs)"
  by (metis append_butlast_last_id distinct_append disjoint_iff list.set_intros(1))

lemma nth_update_if: "k < length xs \<Longrightarrow> xs[i := v] ! k = (if k = i then v else xs ! k)"
  by (simp add: nth_list_update_neq)

lemma append_sep_eq:
  "a \<notin> set xs \<Longrightarrow> a \<notin> set ys \<Longrightarrow> xs @ a # us = ys @ a # vs \<longleftrightarrow> xs = ys \<and> us = vs"
proof (induction xs arbitrary: ys)
  case Nil
  then show ?case by (cases ys) auto
next
  case (Cons x xs)
  then show ?case by (cases ys) auto
qed

end
