(* ===== verification/Peer_Distance.thy ===== *)
theory Peer_Distance
  imports Prelude
begin

unbundle bit_operations_syntax

text \<open>
  The distance between two raw identifiers (\<^verbatim>\<open>getPeerDistance.cppm\<close>).  The code folds the
  XOR of the bytes into a \<^verbatim>\<open>double\<close>, so for 20-byte identifiers the low bits are lost.  The
  first section models the IEEE-754 binary64 values that occur (integers), with rounding to
  nearest, ties to even; the second one translates the fold; the rest shows that the rounded
  distance never contradicts the exact XOR metric of Kademlia.
\<close>

section \<open>Integers in binary64\<close>

fun nbits :: "nat \<Rightarrow> nat" where
  "nbits n = (if n = 0 then 0 else Suc (nbits (n div 2)))"

declare nbits.simps [simp del]

text \<open>
  \<open>rnd n\<close> is the binary64 value nearest to the natural number \<open>n\<close>: 53 significant bits,
  ties to the even significand.  Overflow (above \<open>2 ^ 1024\<close>) is out of the range of the
  identifiers and not modelled.
\<close>

definition rnd :: "nat \<Rightarrow> nat" where
  "rnd n =
     (let e = nbits n - 53;
          q = n div 2 ^ e;
          r = n mod 2 ^ e
      in if e = 0 then n
         else if 2 * r < 2 ^ e \<or> (2 * r = 2 ^ e \<and> even q) then q * 2 ^ e
         else (q + 1) * 2 ^ e)"

definition fl :: "int \<Rightarrow> int" where
  "fl x = sgn x * int (rnd (nat \<bar>x\<bar>))"

lemma nbits_0 [simp]: "nbits 0 = 0"
  by (simp add: nbits.simps)

lemma nbits_upper: "n < 2 ^ nbits n"
proof (induction n rule: nbits.induct)
  case (1 n)
  show ?case
  proof (cases "n = 0")
    case False
    with 1 have "n div 2 < 2 ^ nbits (n div 2)" by simp
    then have "n < 2 * 2 ^ nbits (n div 2)" by linarith
    with False show ?thesis by (subst nbits.simps) simp
  qed simp
qed

lemma nbits_lower: "n > 0 \<Longrightarrow> 2 ^ (nbits n - 1) \<le> n"
proof (induction n rule: nbits.induct)
  case (1 n)
  show ?case
  proof (cases "n div 2 = 0")
    case True
    with "1.prems" show ?thesis by (subst nbits.simps) simp
  next
    case False
    with 1 have IH: "2 ^ (nbits (n div 2) - 1) \<le> n div 2" by simp
    from False obtain m where m: "nbits (n div 2) = Suc m" by (simp add: nbits.simps [of "n div 2"])
    with IH have "2 * 2 ^ m \<le> n" by simp
    with "1.prems" m show ?thesis by (subst nbits.simps) simp
  qed
qed

lemma nbits_mono: "m \<le> n \<Longrightarrow> nbits m \<le> nbits n"
proof (rule ccontr)
  assume le: "m \<le> n" and "\<not> nbits m \<le> nbits n"
  then have lt: "nbits n \<le> nbits m - 1" and pos: "m > 0" by (auto intro: Nat.gr0I)
  have "n < 2 ^ nbits n" by (rule nbits_upper)
  also have "\<dots> \<le> 2 ^ (nbits m - 1)" using lt by simp
  also have "\<dots> \<le> m" using pos by (rule nbits_lower)
  finally show False using le by simp
qed

lemma nbits_le_iff: "nbits n \<le> k \<longleftrightarrow> n < 2 ^ k"
proof
  assume "nbits n \<le> k"
  then show "n < 2 ^ k" by (meson nbits_upper less_le_trans one_le_numeral power_increasing)
next
  assume n: "n < 2 ^ k"
  show "nbits n \<le> k"
  proof (rule ccontr)
    assume "\<not> nbits n \<le> k"
    then have "k \<le> nbits n - 1" "n > 0" by (auto intro: Nat.gr0I)
    then have "2 ^ k \<le> n" by (meson le_trans nbits_lower one_le_numeral power_increasing)
    with n show False by simp
  qed
qed

lemma rnd_small: "n < 2 ^ 53 \<Longrightarrow> rnd n = n"
  using nbits_le_iff [of n 53] by (simp add: rnd_def)

text \<open>The two neighbours between which \<open>rnd n\<close> chooses.\<close>

lemma rnd_ge_floor: "n div 2 ^ (nbits n - 53) * 2 ^ (nbits n - 53) \<le> rnd n"
  by (auto simp: rnd_def Let_def)

lemma rnd_le_ceil: "nbits n > 53 \<Longrightarrow> rnd n \<le> (n div 2 ^ (nbits n - 53) + 1) * 2 ^ (nbits n - 53)"
  by (auto simp: rnd_def Let_def)

lemma rnd_pow2_lower: "n > 0 \<Longrightarrow> 2 ^ (nbits n - 1) \<le> rnd n"
proof (cases "nbits n \<le> 53")
  case True
  assume "n > 0"
  with True show ?thesis using nbits_lower [of n] by (simp add: rnd_def)
next
  case False
  assume n: "n > 0"
  let ?e = "nbits n - 53"
  have split: "nbits n - 1 = 52 + ?e" using False by simp
  have "2 ^ (52 + ?e) \<le> n" using nbits_lower [OF n] by (simp only: split)
  then have "2 ^ 52 * 2 ^ ?e div 2 ^ ?e \<le> n div 2 ^ ?e" unfolding power_add by (rule div_le_mono)
  then have "2 ^ 52 \<le> n div 2 ^ ?e" by simp
  then have "2 ^ 52 * 2 ^ ?e \<le> n div 2 ^ ?e * 2 ^ ?e" by (rule mult_le_mono1)
  also have "\<dots> \<le> rnd n" by (rule rnd_ge_floor)
  finally show ?thesis unfolding split power_add .
qed

lemma rnd_pow2_upper: "rnd n \<le> 2 ^ nbits n"
proof (cases "nbits n \<le> 53")
  case True
  then show ?thesis using nbits_upper [of n] by (simp add: rnd_def less_imp_le)
next
  case False
  let ?e = "nbits n - 53"
  have "nbits n = 53 + ?e" using False by simp
  then have "n < 2 ^ 53 * 2 ^ ?e" using nbits_upper [of n] by (metis power_add)
  then have "n div 2 ^ ?e < 2 ^ 53" by (simp add: less_mult_imp_div_less)
  then have "(n div 2 ^ ?e + 1) * 2 ^ ?e \<le> 2 ^ 53 * 2 ^ ?e" by (intro mult_le_mono1) simp
  also have "\<dots> = 2 ^ nbits n" using False by (metis \<open>nbits n = 53 + ?e\<close> power_add)
  finally show ?thesis using rnd_le_ceil [of n] False by linarith
qed

theorem rnd_mono: "m \<le> n \<Longrightarrow> rnd m \<le> rnd n"
proof -
  assume le: "m \<le> n"
  show ?thesis
  proof (cases "nbits m = nbits n")
    case False
    then have lt: "nbits m \<le> nbits n - 1" and "n > 0"
      using nbits_mono [OF le] by (auto intro: Nat.gr0I)
    have "rnd m \<le> 2 ^ nbits m" by (rule rnd_pow2_upper)
    also have "\<dots> \<le> 2 ^ (nbits n - 1)" using lt by simp
    also have "\<dots> \<le> rnd n" using \<open>n > 0\<close> by (rule rnd_pow2_lower)
    finally show ?thesis .
  next
    case same: True
    let ?e = "nbits n - 53"
    show ?thesis
    proof (cases "m div 2 ^ ?e = n div 2 ^ ?e")
      case True
      then have "m mod 2 ^ ?e \<le> n mod 2 ^ ?e"
        using le by (metis div_mult_mod_eq nat_add_left_cancel_le)
      with True same le show ?thesis by (auto simp: rnd_def Let_def)
    next
      case False
      then have q: "m div 2 ^ ?e + 1 \<le> n div 2 ^ ?e"
        using div_le_mono [OF le, of "2 ^ ?e"] by simp
      show ?thesis
      proof (cases "?e = 0")
        case True
        with same le show ?thesis by (simp add: rnd_def)
      next
        case False
        then have "rnd m \<le> (m div 2 ^ ?e + 1) * 2 ^ ?e"
          using rnd_le_ceil [of m] same by simp
        also have "\<dots> \<le> n div 2 ^ ?e * 2 ^ ?e" using q by (rule mult_le_mono1)
        also have "\<dots> \<le> rnd n" by (rule rnd_ge_floor)
        finally show ?thesis .
      qed
    qed
  qed
qed

lemma rnd_pos: "n > 0 \<Longrightarrow> rnd n > 0"
  using rnd_pow2_lower [of n] by (metis gr0I le_zero_eq power_not_zero zero_neq_numeral)

lemma rnd_0 [simp]: "rnd 0 = 0"
  by (simp add: rnd_def)

lemma fl_mono: "x \<le> y \<Longrightarrow> fl x \<le> fl y"
proof -
  assume le: "x \<le> y"
  consider "0 \<le> x" | "x < 0" "0 \<le> y" | "y < 0" using le by linarith
  then show ?thesis
  proof cases
    case 1
    then show ?thesis using le rnd_mono [of "nat x" "nat y"] by (auto simp: fl_def sgn_if)
  next
    case 2
    then show ?thesis by (auto simp: fl_def sgn_if)
  next
    case 3
    then show ?thesis using le rnd_mono [of "nat (- y)" "nat (- x)"] by (auto simp: fl_def sgn_if)
  qed
qed

lemma fl_0 [simp]: "fl 0 = 0"
  by (simp add: fl_def)

lemma fl_nonneg: "0 \<le> x \<Longrightarrow> 0 \<le> fl x"
  using fl_mono [of 0 x] by simp

lemma fl_pos: "0 < x \<Longrightarrow> 0 < fl x"
  by (simp add: fl_def rnd_pos)

lemma fl_neg: "x < 0 \<Longrightarrow> fl x < 0"
  by (simp add: fl_def rnd_pos)

text \<open>Rounding never changes the sign, so comparing by a difference is comparing.\<close>

lemma fl_diff_sign [simp]: "fl (x - y) < 0 \<longleftrightarrow> x < y" "0 < fl (x - y) \<longleftrightarrow> y < x"
  using fl_neg [of "x - y"] fl_pos [of "x - y"] fl_nonneg [of "x - y"] fl_mono [of "x - y" 0]
  by (fastforce, fastforce)

lemma fl_small: "\<bar>x\<bar> < 2 ^ 53 \<Longrightarrow> fl x = x"
  by (simp add: fl_def rnd_small nat_less_iff sgn_mult_abs)

text \<open>How \<open>fl\<close> is evaluated: the common case of an exact integer first.\<close>

lemma fl_code [code]:
  "fl x = (if \<bar>x\<bar> < 9007199254740992 then x else sgn x * int (rnd (nat \<bar>x\<bar>)))"
  using fl_small [of x] by (simp add: fl_def)

section \<open>getPeerDistance\<close>

text \<open>
  The two loops of the source: over the common prefix the XOR of the bytes is folded in, over
  the rest of the longer identifier the constant 255.
\<close>

fun getPeerDistance_loop :: "int \<Rightarrow> DhtAddressRaw \<Rightarrow> DhtAddressRaw \<Rightarrow> int" where
  "getPeerDistance_loop distance (a # first) (b # second) =
     getPeerDistance_loop (fl (fl (distance * 256) + uint (a XOR b))) first second"
| "getPeerDistance_loop distance (a # first) [] =
     getPeerDistance_loop (fl (fl (distance * 256) + 255)) first []"
| "getPeerDistance_loop distance [] (b # second) =
     getPeerDistance_loop (fl (fl (distance * 256) + 255)) [] second"
| "getPeerDistance_loop distance [] [] = distance"

definition getPeerDistance :: "DhtAddressRaw \<Rightarrow> DhtAddressRaw \<Rightarrow> int" where
  "getPeerDistance first second = getPeerDistance_loop 0 first second"

section \<open>The exact metric\<close>

text \<open>The bytes that are folded, and the exact (unrounded) value of a byte sequence.\<close>

fun xor_bytes :: "DhtAddressRaw \<Rightarrow> DhtAddressRaw \<Rightarrow> int list" where
  "xor_bytes (a # as) (b # bs) = uint (a XOR b) # xor_bytes as bs"
| "xor_bytes (a # as) [] = 255 # xor_bytes as []"
| "xor_bytes [] (b # bs) = 255 # xor_bytes [] bs"
| "xor_bytes [] [] = []"

definition exact_distance :: "DhtAddressRaw \<Rightarrow> DhtAddressRaw \<Rightarrow> int" where
  "exact_distance a b = foldl (\<lambda>d u. d * 256 + u) 0 (xor_bytes a b)"

definition fl_step :: "int \<Rightarrow> int \<Rightarrow> int" where
  "fl_step d u = fl (fl (d * 256) + u)"

lemma getPeerDistance_fold: "getPeerDistance_loop d a b = foldl fl_step d (xor_bytes a b)"
  by (induction d a b rule: getPeerDistance_loop.induct) (auto simp: fl_step_def)

lemma byte_range: "0 \<le> uint (x :: byte)" "uint (x :: byte) \<le> 255"
  using uint_lt2p [of x] by simp_all

lemma xor_bytes_range: "u \<in> set (xor_bytes a b) \<Longrightarrow> 0 \<le> u \<and> u \<le> 255"
  by (induction a b rule: xor_bytes.induct) (auto simp: byte_range simp del: uint_ge_0)

lemma length_xor_bytes: "length (xor_bytes a b) = max (length a) (length b)"
  by (induction a b rule: xor_bytes.induct) auto

lemma xor_bytes_commute: "xor_bytes a b = xor_bytes b a"
  by (induction a b rule: xor_bytes.induct) (auto simp: xor.commute)

lemma fl_step_mono: "d \<le> d' \<Longrightarrow> u \<le> u' \<Longrightarrow> fl_step d u \<le> fl_step d' u'"
  unfolding fl_step_def by (intro fl_mono add_mono) auto

lemma fold_fl_mono:
  "length us = length vs \<Longrightarrow> list_all2 (\<le>) us vs \<Longrightarrow> d \<le> d' \<Longrightarrow> foldl fl_step d us \<le> foldl fl_step d' vs"
  by (induction us vs arbitrary: d d' rule: list_induct2) (auto simp: fl_step_mono)

lemma fl_step_nonneg: "0 \<le> d \<Longrightarrow> 0 \<le> u \<Longrightarrow> 0 \<le> fl_step d u"
  using fl_step_mono [of 0 d 0 u] by (simp add: fl_step_def)

text \<open>
  Folding is monotone for the lexicographic order, too: a larger accumulator stays at least as
  large whatever bytes follow.  Accumulators are values of the rounding itself, for which
  multiplication by 256 is exact.
\<close>

lemma nbits_shift: "n > 0 \<Longrightarrow> nbits (2 ^ k * n) = nbits n + k"
proof (induction k)
  case (Suc k)
  have "2 ^ Suc k * n \<noteq> 0" "2 ^ Suc k * n div 2 = 2 ^ k * n" using Suc.prems by simp_all
  then show ?case using Suc by (subst nbits.simps) simp
qed simp

lemma rnd_shift: "rnd (2 ^ k * rnd n) = 2 ^ k * rnd n"
proof (cases "n = 0")
  case False
  then have pos: "rnd n > 0" by (simp add: rnd_pos)
  show ?thesis
  proof (cases "nbits (2 ^ k * rnd n) \<le> 53")
    case True
    then show ?thesis by (simp add: rnd_def)
  next
    case False
    let ?e = "nbits (2 ^ k * rnd n) - 53"
    have "2 ^ ?e dvd 2 ^ k * rnd n"
    proof (cases "nbits n \<le> 53")
      case True
      then have "rnd n = n" by (simp add: rnd_def)
      then have "?e \<le> k" using nbits_shift [OF pos, of k] True by simp
      then show ?thesis by (simp add: dvd_mult2 le_imp_power_dvd)
    next
      case big: False
      let ?d = "nbits n - 53"
      have dvd: "2 ^ ?d dvd rnd n" using big by (auto simp: rnd_def Let_def)
      have top: "rnd n \<le> 2 ^ nbits n" by (rule rnd_pow2_upper)
      show ?thesis
      proof (cases "rnd n = 2 ^ nbits n")
        case True
        have "?e \<le> k + nbits n"
          using nbits_shift [OF pos, of k] nbits_le_iff [of "rnd n" "Suc (nbits n)"] True by simp
        then have "2 ^ ?e dvd (2::nat) ^ (k + nbits n)" by (rule le_imp_power_dvd)
        then show ?thesis using True by (simp add: power_add)
      next
        case False
        then have "nbits (rnd n) \<le> nbits n" using top nbits_le_iff by auto
        then have "?e \<le> k + ?d" using nbits_shift [OF pos, of k] big by simp
        then have "2 ^ ?e dvd (2::nat) ^ (k + ?d)" by (rule le_imp_power_dvd)
        also have "\<dots> dvd 2 ^ k * rnd n" using dvd by (simp add: power_add)
        finally show ?thesis .
      qed
    qed
    then show ?thesis by (simp add: rnd_def Let_def)
  qed
qed simp

lemma rnd_idem [simp]: "rnd (rnd n) = rnd n"
  using rnd_shift [of 0 n] by simp

lemma fl_idem [simp]: "fl (fl x) = fl x"
  by (auto simp: fl_def abs_mult sgn_mult rnd_pos sgn_if)

lemma fl_256: "fl (fl x * 256) = fl x * 256"
proof -
  have "rnd (2 ^ 8 * rnd n) = 2 ^ 8 * rnd n" for n by (rule rnd_shift)
  then have *: "rnd (rnd n * 256) = rnd n * 256" for n by (simp add: mult.commute)
  show ?thesis
    by (auto simp: fl_def abs_mult sgn_mult sgn_if nat_mult_distrib * rnd_pos)
qed

lemma fl_step_less:
  assumes "fl d = d" "fl d' = d'" "d < d'" "0 \<le> u'" "u \<le> 255"
  shows "fl_step d u \<le> fl_step d' u'"
proof -
  have eq: "fl (d * 256) = d * 256" "fl (d' * 256) = d' * 256"
    using fl_256 [of d] fl_256 [of d'] assms(1,2) by simp_all
  have "d * 256 + u \<le> d' * 256 + u'" using assms(3-5) by linarith
  then show ?thesis unfolding fl_step_def eq by (rule fl_mono)
qed

lemma fl_fl_step [simp]: "fl (fl_step d u) = fl_step d u"
  by (simp add: fl_step_def)

text \<open>
  Once the accumulator has left the range of exact integers, the remaining bytes are below
  half a unit in the last place and have no effect.
\<close>

lemma rnd_absorbs:
  assumes d: "rnd d = d" "2 ^ 53 \<le> d" and u: "u < 256"
  shows "rnd (d * 256 + u) = d * 256"
proof -
  let ?n = "d * 256 + u"
  let ?e = "nbits ?n - 53"
  have pos: "d > 0" using d(2) by (rule less_le_trans [rotated]) simp
  have big: "nbits d \<ge> 54" using d(2) nbits_le_iff [of d 53] by linarith
  have "d + 1 \<le> 2 ^ nbits d" using nbits_upper [of d] by simp
  then have "?n < 2 ^ nbits d * 256" using u by linarith
  then have "?n < 2 ^ (nbits d + 8)" by (simp add: power_add)
  moreover have "nbits (d * 256) = nbits d + 8" using nbits_shift [OF pos, of 8] by (simp add: mult.commute)
  moreover have "nbits (d * 256) \<le> nbits ?n" by (rule nbits_mono) simp
  ultimately have nb: "nbits ?n = nbits d + 8" using nbits_le_iff [of ?n "nbits d + 8"] by linarith
  have e: "?e = (nbits d - 53) + 8" "?e \<ge> 9" using nb big by simp_all
  have "2 ^ (nbits d - 53) dvd rnd d" using big by (auto simp: rnd_def Let_def)
  then have "2 ^ (nbits d - 53) dvd d" by (simp add: d)
  then have "2 ^ (nbits d - 53) * 2 ^ 8 dvd d * 2 ^ 8" by (rule mult_dvd_mono) simp
  then have dvd: "2 ^ ?e dvd d * 256" unfolding e(1) power_add by simp
  have "(2::nat) ^ 9 \<le> 2 ^ ?e" using e(2) by (rule power_increasing) simp
  then have small: "2 * u < 2 ^ ?e" "u < 2 ^ ?e" using u by simp_all
  have "?n div 2 ^ ?e * 2 ^ ?e = d * 256" "?n mod 2 ^ ?e = u"
    using dvd small by (auto simp: div_plus_div_distrib_dvd_left mod_add_left_eq [symmetric] elim!: dvdE)
  moreover have "?e \<noteq> 0" using e(2) by simp
  ultimately show ?thesis using small(1) unfolding rnd_def Let_def by simp
qed

lemma fl_step_absorbs:
  assumes "fl d = d" "2 ^ 53 \<le> d" "0 \<le> u" "u \<le> 255"
  shows "fl_step d u = d * 256"
proof -
  have d0: "0 < d" using assms(2) by (rule less_le_trans [rotated]) simp
  have "rnd (nat d) = nat d" using assms(1) d0 by (simp add: fl_def)
  moreover have "2 ^ 53 \<le> nat d" using assms(2) by (simp add: le_nat_iff)
  ultimately have "rnd (nat d * 256 + nat u) = nat d * 256"
    using assms(3,4) by (intro rnd_absorbs) auto
  then have "fl (d * 256 + u) = d * 256"
    using d0 assms(3) by (simp add: fl_def nat_add_distrib nat_mult_distrib)
  then show ?thesis using fl_256 [of d] assms(1) by (simp add: fl_step_def)
qed

lemma fold_fl_absorbs:
  "fl d = d \<Longrightarrow> 2 ^ 53 \<le> d \<Longrightarrow> (\<And>u. u \<in> set us \<Longrightarrow> 0 \<le> u \<and> u \<le> 255) \<Longrightarrow>
   foldl fl_step d us = d * 256 ^ length us"
proof (induction us arbitrary: d)
  case (Cons u us)
  have "fl_step d u = d * 256" using Cons.prems by (intro fl_step_absorbs) auto
  moreover have "fl (d * 256) = d * 256" using fl_256 [of d] Cons.prems(1) by simp
  moreover have "2 ^ 53 \<le> d * 256" using Cons.prems(2) by simp
  ultimately show ?case using Cons.IH [of "d * 256"] Cons.prems(3) by simp
qed simp

lemma fl_2_53: "2 ^ 53 \<le> x \<Longrightarrow> 2 ^ 53 \<le> fl x"
proof -
  assume "2 ^ 53 \<le> x"
  moreover have "fl (2 ^ 53) = 2 ^ 53" using rnd_shift [of 53 1] by (simp add: fl_def rnd_small)
  ultimately show ?thesis using fl_mono [of "2 ^ 53" x] by simp
qed

lemma fl_step_small: "fl (d * 256) = d * 256 \<Longrightarrow> \<not> 2 ^ 53 \<le> fl_step d u \<Longrightarrow> d * 256 + u < 2 ^ 53"
  using fl_2_53 [of "d * 256 + u"] unfolding fl_step_def by (metis linorder_not_le)

text \<open>Two different accumulators can meet only beyond the range of exact integers.\<close>

lemma fl_step_collision:
  assumes "fl d = d" "fl d' = d'" "0 \<le> d" "d < d'" "0 \<le> u'" "0 \<le> u" "u \<le> 255"
    and eq: "fl_step d u = fl_step d' u'"
  shows "2 ^ 53 \<le> fl_step d u"
proof (rule ccontr)
  assume small: "\<not> 2 ^ 53 \<le> fl_step d u"
  have ex: "fl (d * 256) = d * 256" "fl (d' * 256) = d' * 256"
    using fl_256 [of d] fl_256 [of d'] assms(1,2) by simp_all
  have "d * 256 + u < 2 ^ 53" using ex(1) small by (rule fl_step_small)
  moreover have "d' * 256 + u' < 2 ^ 53" using ex(2) small unfolding eq by (rule fl_step_small)
  ultimately have "fl_step d u = d * 256 + u" "fl_step d' u' = d' * 256 + u'"
    unfolding fl_step_def ex using assms by (auto intro!: fl_small)
  with eq assms show False by linarith
qed

lemma fl_step_exact_collision:
  assumes "fl d = d" "0 \<le> d" "0 \<le> u" "u < u'" and eq: "fl_step d u = fl_step d u'"
  shows "2 ^ 53 \<le> fl_step d u"
proof (rule ccontr)
  assume small: "\<not> 2 ^ 53 \<le> fl_step d u"
  have ex: "fl (d * 256) = d * 256" using fl_256 [of d] assms(1) by simp
  have "d * 256 + u' < 2 ^ 53" using ex small unfolding eq by (rule fl_step_small)
  then have "fl_step d u = d * 256 + u" "fl_step d u' = d * 256 + u'"
    unfolding fl_step_def ex using assms by (auto intro!: fl_small)
  with eq assms(4) show False by linarith
qed

definition byte_values :: "int list \<Rightarrow> bool" where
  "byte_values us \<longleftrightarrow> (\<forall>u \<in> set us. 0 \<le> u \<and> u \<le> 255)"

lemma byte_values_simps [simp]:
  "byte_values []" "byte_values (u # us) \<longleftrightarrow> 0 \<le> u \<and> u \<le> 255 \<and> byte_values us"
  by (auto simp: byte_values_def)

lemma byte_values_xor [simp]: "byte_values (xor_bytes a b)"
  by (simp add: byte_values_def xor_bytes_range)

lemma fold_fl_less_acc:
  assumes "length us = length vs" "byte_values us" "byte_values vs"
    and "fl d = d" "fl d' = d'" "0 \<le> d" "d < d'"
  shows "foldl fl_step d us \<le> foldl fl_step d' vs"
  using assms
proof (induction us vs arbitrary: d d' rule: list_induct2)
  case (Cons u us v vs)
  have le: "fl_step d u \<le> fl_step d' v" using Cons.prems by (intro fl_step_less) auto
  show ?case
  proof (cases "fl_step d u = fl_step d' v")
    case True
    then have "2 ^ 53 \<le> fl_step d u" using Cons.prems by (intro fl_step_collision [of d d' v u]) auto
    then show ?thesis
      using Cons.hyps Cons.prems(1,2) True fold_fl_absorbs [of "fl_step d u" us] fold_fl_absorbs [of "fl_step d u" vs]
      by (simp add: byte_values_def)
  next
    case False
    then show ?thesis using Cons le by (simp add: fl_step_nonneg)
  qed
qed simp

lemma fold_fl_lex:
  assumes "length us = length vs" "byte_values us" "byte_values vs"
    and "fl d = d" "0 \<le> d" "(us, vs) \<in> lexord {(x, y). x < y} \<or> us = vs"
  shows "foldl fl_step d us \<le> foldl fl_step d vs"
  using assms
proof (induction us vs arbitrary: d rule: list_induct2)
  case (Cons u us v vs)
  show ?case
  proof (cases "u = v")
    case True
    then show ?thesis using Cons by (auto simp: fl_step_nonneg)
  next
    case False
    then have uv: "u < v" using Cons.prems(5) by auto
    then have le: "fl_step d u \<le> fl_step d v" by (intro fl_step_mono) auto
    show ?thesis
    proof (cases "fl_step d u = fl_step d v")
      case True
      then have "2 ^ 53 \<le> fl_step d u"
        using Cons.prems uv by (intro fl_step_exact_collision [of d u v]) auto
      then show ?thesis
        using Cons.hyps Cons.prems(1,2) True fold_fl_absorbs [of "fl_step d u" us] fold_fl_absorbs [of "fl_step d u" vs]
        by (simp add: byte_values_def)
    next
      case False
      then show ?thesis using Cons.hyps Cons.prems le
        by (auto intro!: fold_fl_less_acc simp: fl_step_nonneg)
    qed
  qed
qed simp

text \<open>The lexicographic order of byte sequences is the order of the numbers they stand for.\<close>

lemma fold_exact_bound:
  "byte_values us \<Longrightarrow> d * 256 ^ length us \<le> foldl (\<lambda>d u. d * 256 + u) d us \<and>
     foldl (\<lambda>d u. d * 256 + u) d us < (d + 1) * 256 ^ length us"
proof (induction us arbitrary: d)
  case (Cons u us)
  let ?f = "foldl (\<lambda>d u. d * 256 + u) (d * 256 + u) us"
  have IH: "(d * 256 + u) * 256 ^ length us \<le> ?f" "?f < (d * 256 + u + 1) * 256 ^ length us"
    using Cons by auto
  have "(d * 256) * 256 ^ length us \<le> (d * 256 + u) * 256 ^ length us"
    "(d * 256 + u + 1) * 256 ^ length us \<le> ((d + 1) * 256) * 256 ^ length us"
    using Cons.prems by (auto intro!: mult_right_mono)
  with IH have "(d * 256) * 256 ^ length us \<le> ?f \<and> ?f < ((d + 1) * 256) * 256 ^ length us"
    by linarith
  then show ?case by (simp only: mult.assoc power_Suc length_Cons foldl_Cons)
qed simp

lemma fold_exact_lex:
  assumes "length us = length vs" "byte_values us" "byte_values vs" "us \<noteq> vs"
    and "foldl (\<lambda>d u. d * 256 + u) d us \<le> foldl (\<lambda>d u. d * 256 + u) d vs"
  shows "(us, vs) \<in> lexord {(x, y). x < y}"
  using assms
proof (induction us vs arbitrary: d rule: list_induct2)
  case (Cons u us v vs)
  show ?case
  proof (cases "u = v")
    case True
    then show ?thesis using Cons by auto
  next
    case False
    have "\<not> v < u"
    proof
      assume "v < u"
      then have "(d * 256 + v + 1) * 256 ^ length vs \<le> (d * 256 + u) * 256 ^ length us"
        using Cons.hyps by (simp add: mult_right_mono)
      moreover have "(d * 256 + u) * 256 ^ length us \<le> foldl (\<lambda>d u. d * 256 + u) (d * 256 + u) us"
        "foldl (\<lambda>d u. d * 256 + u) (d * 256 + v) vs < (d * 256 + v + 1) * 256 ^ length vs"
        using Cons.prems fold_exact_bound by auto
      ultimately show False using Cons.prems(4) by simp
    qed
    with False show ?thesis by auto
  qed
qed simp

lemma getPeerDistance_lex:
  assumes "max (length a) (length r) = max (length b) (length r)"
    and "(xor_bytes a r, xor_bytes b r) \<in> lexord {(x, y). x < y} \<or> xor_bytes a r = xor_bytes b r"
  shows "getPeerDistance a r \<le> getPeerDistance b r"
  unfolding getPeerDistance_def getPeerDistance_fold
  using assms by (intro fold_fl_lex) (auto simp: length_xor_bytes)

lemma getPeerDistance_mono:
  assumes "max (length a) (length r) = max (length b) (length r)"
    and "exact_distance a r \<le> exact_distance b r"
  shows "getPeerDistance a r \<le> getPeerDistance b r"
  using assms
  by (intro getPeerDistance_lex) (auto simp: exact_distance_def length_xor_bytes intro: fold_exact_lex)

lemma getPeerDistance_nonneg: "0 \<le> getPeerDistance a b"
proof -
  have "0 \<le> d \<Longrightarrow> byte_values us \<Longrightarrow> 0 \<le> foldl fl_step d us" for d us
    by (induction us arbitrary: d) (auto simp: fl_step_nonneg)
  then show ?thesis by (simp add: getPeerDistance_def getPeerDistance_fold)
qed

lemma getPeerDistance_commute: "getPeerDistance a b = getPeerDistance b a"
  by (simp add: getPeerDistance_def getPeerDistance_fold xor_bytes_commute)

lemma fl_step_pos: "0 < d \<Longrightarrow> 0 \<le> u \<Longrightarrow> 0 < fl_step d u"
  unfolding fl_step_def using fl_pos [of "d * 256"] by (intro fl_pos) simp

lemma fold_fl_pos: "0 < d \<Longrightarrow> byte_values us \<Longrightarrow> 0 < foldl fl_step d us"
  by (induction us arbitrary: d) (auto simp: fl_step_pos)

lemma fold_fl_zero: "byte_values us \<Longrightarrow> foldl fl_step 0 us = 0 \<longleftrightarrow> (\<forall>u \<in> set us. u = 0)"
proof (induction us)
  case (Cons u us)
  have "fl_step 0 u = fl u" by (simp add: fl_step_def)
  then show ?case using Cons fold_fl_pos [of "fl u" us] fl_pos [of u]
    by (cases "u = 0") auto
qed simp

lemma uint_xor_zero: "uint (a XOR b) = 0 \<longleftrightarrow> a = (b :: byte)"
  by (metis uint_0_iff xor_self_eq bit.xor_left_self xor.right_neutral)

lemma xor_bytes_zero: "(\<forall>u \<in> set (xor_bytes a b). u = 0) \<longleftrightarrow> a = b"
  by (induction a b rule: xor_bytes.induct) (auto simp: uint_xor_zero simp flip: uint_0_iff)

lemma getPeerDistance_zero: "getPeerDistance a b = 0 \<longleftrightarrow> a = b"
  unfolding getPeerDistance_def getPeerDistance_fold by (simp add: fold_fl_zero xor_bytes_zero)

section \<open>The metric as an interface\<close>

text \<open>
  What the contact containers rely on: a symmetric, positive distance that is compatible with
  the lexicographic order of the XOR of the bytes.
\<close>

locale peer_metric =
  fixes dist :: "DhtAddressRaw \<Rightarrow> DhtAddressRaw \<Rightarrow> int"
  assumes dist_nonneg: "0 \<le> dist a b"
    and dist_commute: "dist a b = dist b a"
    and dist_zero: "dist a b = 0 \<longleftrightarrow> a = b"
    and dist_lex: "length a = length r \<Longrightarrow> length b = length r \<Longrightarrow>
      (xor_bytes a r, xor_bytes b r) \<in> lexord {(x, y). x < y} \<Longrightarrow> dist a r \<le> dist b r"
begin

lemma dist_self [simp]: "dist a a = 0"
  by (simp add: dist_zero)

lemma dist_closest: "dist a r \<le> dist r r \<Longrightarrow> a = r"
  using dist_nonneg [of a r] by (simp add: dist_zero)

end

interpretation gpd: peer_metric getPeerDistance
  by unfold_locales
    (auto simp: getPeerDistance_nonneg getPeerDistance_zero intro: getPeerDistance_commute getPeerDistance_lex)

end
