(* ===== verification/K_Bucket.thy ===== *)
theory K_Bucket
  imports Peer_Distance "HOL-Library.Multiset"
begin

text \<open>
  The k-bucket (\<^verbatim>\<open>KBucket.cppm\<close>): a binary tree over the bits of the identifiers whose
  leaves hold at most \<open>k\<close> contacts.  The tree node is a datatype, the loops that walk down by
  pointer are recursive functions, writing through the pointer is \<open>kb_set_leaf\<close>, and the
  emitted events are part of the result.  Contacts are held by \<^verbatim>\<open>shared_ptr\<close>; \<open>kc_ref\<close> is the
  identity of the object, which the code compares.
\<close>

section \<open>State\<close>

record kcontact =
  kc_ref :: nat
  kc_id :: DhtAddressRaw
  kc_clock :: int

datatype kb_event =
    KAdded kcontact
  | KRemoved kcontact
  | KUpdated kcontact kcontact
  | KPing "kcontact list" kcontact

datatype kb_node =
    Leaf "kcontact list" bool
  | Inner bool kb_node kb_node

record kbucket =
  localNodeId :: DhtAddressRaw
  numberOfNodesPerKBucket :: nat
  numberOfNodesToPing :: nat
  root :: kb_node

definition kb_create :: "DhtAddressRaw \<Rightarrow> nat option \<Rightarrow> nat option \<Rightarrow> kbucket" where
  "kb_create me k p =
     \<lparr>localNodeId = me,
      numberOfNodesPerKBucket = (case k of Some n \<Rightarrow> n | None \<Rightarrow> 20),
      numberOfNodesToPing = (case p of Some n \<Rightarrow> n | None \<Rightarrow> 3),
      root = Leaf [] False\<rparr>"

section \<open>Operations\<close>

definition kb_arbiter :: "kcontact \<Rightarrow> kcontact \<Rightarrow> kcontact" where
  "kb_arbiter incumbent candidate =
     (if kc_clock incumbent > kc_clock candidate then incumbent else candidate)"

text \<open>\<open>kb_goes_right\<close> is the decision of \<^verbatim>\<open>determineNode\<close>.\<close>

definition kb_goes_right :: "DhtAddressRaw \<Rightarrow> nat \<Rightarrow> bool" where
  "kb_goes_right nid bitIndex =
     (let bytesDescribedByBitIndex = drop_bit 3 bitIndex;
          bitIndexWithinByte = bitIndex mod 8
      in if bytesDescribedByBitIndex \<ge> length nid then False
         else and (nid ! bytesDescribedByBitIndex) (push_bit (7 - bitIndexWithinByte) 1) \<noteq> 0)"

fun kb_determineNode :: "kb_node \<Rightarrow> DhtAddressRaw \<Rightarrow> nat \<Rightarrow> kb_node" where
  "kb_determineNode (Inner ds l r) nid bitIndex = (if kb_goes_right nid bitIndex then r else l)"
| "kb_determineNode (Leaf cs ds) nid bitIndex = Leaf cs ds"

fun kb_indexOf :: "kcontact list \<Rightarrow> DhtAddressRaw \<Rightarrow> nat option" where
  "kb_indexOf [] nid = None"
| "kb_indexOf (c # cs) nid = (if kc_id c = nid then Some 0 else map_option Suc (kb_indexOf cs nid))"

text \<open>The descent that opens \<^verbatim>\<open>add\<close>, \<^verbatim>\<open>get\<close> and \<^verbatim>\<open>remove\<close>: the leaf for an identifier and its depth.\<close>

fun kb_find_leaf :: "kb_node \<Rightarrow> DhtAddressRaw \<Rightarrow> nat \<Rightarrow> kcontact list \<times> bool \<times> nat" where
  "kb_find_leaf (Leaf cs ds) nid bitIndex = (cs, ds, bitIndex)"
| "kb_find_leaf (Inner ds l r) nid bitIndex =
     (if kb_goes_right nid bitIndex then kb_find_leaf r nid (Suc bitIndex)
      else kb_find_leaf l nid (Suc bitIndex))"

text \<open>Writing the leaf that the descent reaches.\<close>

fun kb_set_leaf :: "kb_node \<Rightarrow> DhtAddressRaw \<Rightarrow> nat \<Rightarrow> kb_node \<Rightarrow> kb_node" where
  "kb_set_leaf (Leaf cs ds) nid bitIndex n' = n'"
| "kb_set_leaf (Inner ds l r) nid bitIndex n' =
     (if kb_goes_right nid bitIndex then Inner ds l (kb_set_leaf r nid (Suc bitIndex) n')
      else Inner ds (kb_set_leaf l nid (Suc bitIndex) n') r)"

definition kb_split :: "DhtAddressRaw \<Rightarrow> kcontact list \<Rightarrow> bool \<Rightarrow> nat \<Rightarrow> kb_node" where
  "kb_split me cs ds bitIndex =
     (let left = filter (\<lambda>c. \<not> kb_goes_right (kc_id c) bitIndex) cs;
          right = filter (\<lambda>c. kb_goes_right (kc_id c) bitIndex) cs
      in if kb_goes_right me bitIndex
         then Inner ds (Leaf left True) (Leaf right False)
         else Inner ds (Leaf left False) (Leaf right True))"

definition kb_update :: "kcontact list \<Rightarrow> nat \<Rightarrow> kcontact \<Rightarrow> kcontact list \<times> kb_event list" where
  "kb_update cs index contact =
     (let incumbent = cs ! index;
          selection = kb_arbiter incumbent contact
      in if kc_ref selection = kc_ref incumbent \<and> kc_ref incumbent \<noteq> kc_ref contact then (cs, [])
         else (take index cs @ drop (Suc index) cs @ [selection], [KUpdated incumbent selection]))"

text \<open>
  \<^verbatim>\<open>add\<close> calls itself after a split, so it is a partial function: \<open>None\<close> means that it does
  not return.
\<close>

partial_function (option) kb_add :: "kbucket \<Rightarrow> kcontact \<Rightarrow> (kbucket \<times> kb_event list) option" where
  "kb_add kb contact =
     (case kb_find_leaf (root kb) (kc_id contact) 0 of (cs, ds, bitIndex) \<Rightarrow>
        (case kb_indexOf cs (kc_id contact) of
           Some index \<Rightarrow>
             (case kb_update cs index contact of (cs', evs) \<Rightarrow>
                Some (kb\<lparr>root := kb_set_leaf (root kb) (kc_id contact) 0 (Leaf cs' ds)\<rparr>, evs))
         | None \<Rightarrow>
             (if length cs < numberOfNodesPerKBucket kb
              then Some (kb\<lparr>root := kb_set_leaf (root kb) (kc_id contact) 0 (Leaf (cs @ [contact]) ds)\<rparr>,
                         [KAdded contact])
              else if ds
              then Some (kb, [KPing (take (min (numberOfNodesToPing kb) (length cs)) cs) contact])
              else kb_add (kb\<lparr>root := kb_set_leaf (root kb) (kc_id contact) 0
                                       (kb_split (localNodeId kb) cs ds bitIndex)\<rparr>) contact)))"

definition kb_get :: "kbucket \<Rightarrow> DhtAddressRaw \<Rightarrow> kcontact option" where
  "kb_get kb nid =
     (case kb_find_leaf (root kb) nid 0 of (cs, ds, bitIndex) \<Rightarrow>
        map_option (\<lambda>index. cs ! index) (kb_indexOf cs nid))"

definition kb_remove :: "kbucket \<Rightarrow> DhtAddressRaw \<Rightarrow> kbucket \<times> kb_event list" where
  "kb_remove kb nid =
     (case kb_find_leaf (root kb) nid 0 of (cs, ds, bitIndex) \<Rightarrow>
        (case kb_indexOf cs nid of
           None \<Rightarrow> (kb, [])
         | Some index \<Rightarrow>
             (kb\<lparr>root := kb_set_leaf (root kb) nid 0 (Leaf (take index cs @ drop (Suc index) cs) ds)\<rparr>,
              [KRemoved (cs ! index)])))"

text \<open>
  \<^verbatim>\<open>closest\<close> keeps a stack of nodes (its top is the head of the list) and a single bit
  counter; it stops as soon as \<open>limit\<close> contacts are collected.
\<close>

fun kb_nodes_size :: "kb_node \<Rightarrow> nat" where
  "kb_nodes_size (Leaf cs ds) = 1"
| "kb_nodes_size (Inner ds l r) = Suc (kb_nodes_size l + kb_nodes_size r)"

function kb_closest_loop :: "DhtAddressRaw \<Rightarrow> nat \<Rightarrow> kb_node list \<Rightarrow> nat \<Rightarrow> kcontact list \<Rightarrow> kcontact list" where
  "kb_closest_loop nid limit [] bitIndex contacts = contacts"
| "kb_closest_loop nid limit (Leaf cs ds # nodes) bitIndex contacts =
     (if length contacts < limit
      then kb_closest_loop nid limit nodes bitIndex (contacts @ cs) else contacts)"
| "kb_closest_loop nid limit (Inner ds l r # nodes) bitIndex contacts =
     (if length contacts < limit
      then kb_closest_loop nid limit
             (if kb_goes_right nid bitIndex then r # l # nodes else l # r # nodes)
             (Suc bitIndex) contacts
      else contacts)"
  by pat_completeness auto
termination
  by (relation "measure (\<lambda>(nid, limit, nodes, b, cs). sum_list (map kb_nodes_size nodes))") auto

definition size_max :: nat where
  "size_max = 2 ^ 64 - 1"

definition kb_closest :: "kbucket \<Rightarrow> DhtAddressRaw \<Rightarrow> nat option \<Rightarrow> kcontact list" where
  "kb_closest kb nid n =
     (let limit = (case n of Some m \<Rightarrow> m | None \<Rightarrow> size_max);
          contacts = sort_key (\<lambda>c. getPeerDistance (kc_id c) nid)
                       (kb_closest_loop nid limit [root kb] 0 [])
      in if length contacts > limit then take limit contacts else contacts)"

function kb_count_loop :: "kb_node list \<Rightarrow> nat \<Rightarrow> nat" where
  "kb_count_loop [] n = n"
| "kb_count_loop (Leaf cs ds # nodes) n = kb_count_loop nodes (n + length cs)"
| "kb_count_loop (Inner ds l r # nodes) n = kb_count_loop (l # r # nodes) n"
  by pat_completeness auto
termination
  by (relation "measure (\<lambda>(nodes, n). sum_list (map kb_nodes_size nodes))") auto

definition kb_count :: "kbucket \<Rightarrow> nat" where
  "kb_count kb = kb_count_loop [root kb] 0"

function kb_toArray_loop :: "kb_node list \<Rightarrow> kcontact list \<Rightarrow> kcontact list" where
  "kb_toArray_loop [] result = result"
| "kb_toArray_loop (Leaf cs ds # nodes) result = kb_toArray_loop nodes (result @ cs)"
| "kb_toArray_loop (Inner ds l r # nodes) result = kb_toArray_loop (l # r # nodes) result"
  by pat_completeness auto
termination
  by (relation "measure (\<lambda>(nodes, n). sum_list (map kb_nodes_size nodes))") auto

definition kb_toArray :: "kbucket \<Rightarrow> kcontact list" where
  "kb_toArray kb = kb_toArray_loop [root kb] []"

section \<open>The tree invariant\<close>

text \<open>
  \<open>P\<close> characterises the identifiers that belong to a subtree, \<open>d\<close> is its depth and \<open>near\<close>
  says that the local node's identifier belongs to it.  Only the subtree of the local node is
  ever split, so an inner node is always near and a leaf is marked \<^verbatim>\<open>dontSplit\<close> exactly when
  it is not.
\<close>

definition kb_sub :: "(DhtAddressRaw \<Rightarrow> bool) \<Rightarrow> nat \<Rightarrow> bool \<Rightarrow> DhtAddressRaw \<Rightarrow> bool" where
  "kb_sub P d g x \<longleftrightarrow> P x \<and> kb_goes_right x d = g"

fun kb_node_inv :: "DhtAddressRaw \<Rightarrow> nat \<Rightarrow> (DhtAddressRaw \<Rightarrow> bool) \<Rightarrow> nat \<Rightarrow> bool \<Rightarrow> kb_node \<Rightarrow> bool" where
  "kb_node_inv me k P d near (Leaf cs ds) \<longleftrightarrow>
     distinct (map kc_id cs) \<and> length cs \<le> k \<and> (\<forall>c \<in> set cs. P (kc_id c)) \<and> ds = (\<not> near)"
| "kb_node_inv me k P d near (Inner ds l r) \<longleftrightarrow>
     near \<and>
     kb_node_inv me k (kb_sub P d False) (Suc d) (\<not> kb_goes_right me d) l \<and>
     kb_node_inv me k (kb_sub P d True) (Suc d) (kb_goes_right me d) r"

definition kb_inv :: "nat \<Rightarrow> kbucket \<Rightarrow> bool" where
  "kb_inv len kb \<longleftrightarrow>
     kb_node_inv (localNodeId kb) (numberOfNodesPerKBucket kb) (\<lambda>x. length x = len) 0 True (root kb)"

fun kb_elems :: "kb_node \<Rightarrow> kcontact list" where
  "kb_elems (Leaf cs ds) = cs"
| "kb_elems (Inner ds l r) = kb_elems l @ kb_elems r"

lemma kb_inv_create: "kb_inv len (kb_create me k p)"
  by (simp add: kb_inv_def kb_create_def)

lemma kb_toArray_elems: "kb_toArray kb = kb_elems (root kb)"
proof -
  have "kb_toArray_loop nodes result = result @ concat (map kb_elems nodes)" for nodes result
    by (induction nodes result rule: kb_toArray_loop.induct) auto
  then show ?thesis by (simp add: kb_toArray_def)
qed

lemma kb_count_elems: "kb_count kb = length (kb_elems (root kb))"
proof -
  have "kb_count_loop nodes n = n + length (concat (map kb_elems nodes))" for nodes n
    by (induction nodes n rule: kb_count_loop.induct) auto
  then show ?thesis by (simp add: kb_count_def)
qed

subsection \<open>Descending and writing a leaf\<close>

definition kb_path :: "(DhtAddressRaw \<Rightarrow> bool) \<Rightarrow> nat \<Rightarrow> nat \<Rightarrow> DhtAddressRaw \<Rightarrow> DhtAddressRaw \<Rightarrow> bool" where
  "kb_path P d b nid x \<longleftrightarrow> P x \<and> (\<forall>j \<in> {d..<b}. kb_goes_right x j = kb_goes_right nid j)"

lemma kb_path_same [simp]: "kb_path P d d nid = P"
  by (auto simp: kb_path_def fun_eq_iff)

lemma kb_path_Suc: "d < b \<Longrightarrow> kb_path (kb_sub P d (kb_goes_right nid d)) (Suc d) b nid = kb_path P d b nid"
proof
  fix x
  assume "d < b"
  then have "{d..<b} = insert d {Suc d..<b}" by auto
  then show "kb_path (kb_sub P d (kb_goes_right nid d)) (Suc d) b nid x = kb_path P d b nid x"
    by (auto simp: kb_path_def kb_sub_def)
qed

lemma kb_find_leaf_depth: "kb_find_leaf n nid d = (cs, ds, b) \<Longrightarrow> d \<le> b"
  by (induction n nid d rule: kb_find_leaf.induct) (auto split: if_splits)

lemma kb_find_leaf_inv:
  assumes "kb_find_leaf n nid d = (cs, ds, b)" "kb_node_inv me k P d near n"
  shows "\<exists>near'. kb_node_inv me k (kb_path P d b nid) b near' (Leaf cs ds) \<and>
           (\<forall>n'. kb_node_inv me k (kb_path P d b nid) b near' n' \<longrightarrow>
                 kb_node_inv me k P d near (kb_set_leaf n nid d n'))"
  using assms
proof (induction n nid d arbitrary: P near rule: kb_find_leaf.induct)
  case (2 i l r nid d)
  let ?g = "kb_goes_right nid d"
  let ?c = "if ?g then r else l"
  have leaf: "kb_find_leaf ?c nid (Suc d) = (cs, ds, b)" using "2.prems"(1) by (auto split: if_splits)
  then have b: "d < b" using kb_find_leaf_depth by fastforce
  have inv: "kb_node_inv me k (kb_sub P d ?g) (Suc d) (kb_goes_right me d = ?g) ?c"
    using "2.prems"(2) by (cases ?g) auto
  have "\<exists>near'. kb_node_inv me k (kb_path (kb_sub P d ?g) (Suc d) b nid) b near' (Leaf cs ds) \<and>
           (\<forall>n'. kb_node_inv me k (kb_path (kb_sub P d ?g) (Suc d) b nid) b near' n' \<longrightarrow>
                 kb_node_inv me k (kb_sub P d ?g) (Suc d) (kb_goes_right me d = ?g) (kb_set_leaf ?c nid (Suc d) n'))"
  proof (cases ?g)
    case True
    then show ?thesis using "2.IH"(1) [OF True, of "kb_sub P d True" "kb_goes_right me d"] leaf inv by simp
  next
    case False
    then show ?thesis using "2.IH"(2) [OF False, of "kb_sub P d False" "\<not> kb_goes_right me d"] leaf inv by simp
  qed
  then show ?case using "2.prems"(2) by (cases ?g) (auto simp: kb_path_Suc [OF b, of P nid, symmetric])
qed simp

text \<open>The invariant of the leaf that the descent for \<open>nid\<close> reaches at depth \<open>b\<close>.\<close>

definition kb_leaf_inv :: "nat \<Rightarrow> kbucket \<Rightarrow> DhtAddressRaw \<Rightarrow> nat \<Rightarrow> bool \<Rightarrow> kb_node \<Rightarrow> bool" where
  "kb_leaf_inv len kb nid b near n \<longleftrightarrow>
     kb_node_inv (localNodeId kb) (numberOfNodesPerKBucket kb) (kb_path (\<lambda>x. length x = len) 0 b nid) b near n"

lemma kb_inv_leaf:
  assumes "kb_inv len kb" "kb_find_leaf (root kb) nid 0 = (cs, ds, b)"
  shows "\<exists>near. kb_leaf_inv len kb nid b near (Leaf cs ds) \<and>
           (\<forall>n'. kb_leaf_inv len kb nid b near n' \<longrightarrow> kb_inv len (kb\<lparr>root := kb_set_leaf (root kb) nid 0 n'\<rparr>))"
  using kb_find_leaf_inv [OF assms(2)] assms(1) by (simp add: kb_leaf_inv_def kb_inv_def)

lemma kb_find_set_leaf:
  "kb_find_leaf n nid d = (cs, ds, b) \<Longrightarrow> kb_find_leaf (kb_set_leaf n nid d n') nid d = kb_find_leaf n' nid b"
  by (induction n nid d rule: kb_find_leaf.induct) (auto split: if_splits)

lemma kb_set_leaf_twice:
  "kb_find_leaf n nid d = (cs, ds, b) \<Longrightarrow>
   kb_set_leaf (kb_set_leaf n nid d n') nid d n'' = kb_set_leaf n nid d (kb_set_leaf n' nid b n'')"
  by (induction n nid d rule: kb_find_leaf.induct) (auto split: if_splits)

lemma kb_elems_set_leaf:
  "kb_find_leaf n nid d = (cs, ds, b) \<Longrightarrow>
   mset (kb_elems (kb_set_leaf n nid d n')) + mset cs = mset (kb_elems n) + mset (kb_elems n')"
  by (induction n nid d rule: kb_find_leaf.induct) (auto split: if_splits simp: ac_simps)

lemma kb_find_leaf_subset:
  "kb_find_leaf n nid d = (cs, ds, b) \<Longrightarrow> mset cs \<subseteq># mset (kb_elems n)"
  by (induction n nid d rule: kb_find_leaf.induct)
    (auto split: if_splits intro: subset_mset.order_trans [OF _ mset_subset_eq_add_left]
      subset_mset.order_trans [OF _ mset_subset_eq_add_right])

lemma kb_node_inv_elems: "kb_node_inv me k P d near n \<Longrightarrow> c \<in> set (kb_elems n) \<Longrightarrow> P (kc_id c)"
  by (induction me k P d near n rule: kb_node_inv.induct) (auto simp: kb_sub_def)

lemma kb_find_leaf_complete:
  assumes "kb_node_inv me k P d near n" "c \<in> set (kb_elems n)" "kb_find_leaf n (kc_id c) d = (cs, ds, b)"
  shows "c \<in> set cs"
  using assms
proof (induction n "kc_id c" d arbitrary: P near rule: kb_find_leaf.induct)
  case (2 i l r d)
  have "kb_goes_right (kc_id c) d" if "c \<in> set (kb_elems r)"
    using kb_node_inv_elems [of me k "kb_sub P d True" "Suc d"] "2.prems"(1) that by (auto simp: kb_sub_def)
  moreover have "\<not> kb_goes_right (kc_id c) d" if "c \<in> set (kb_elems l)"
    using kb_node_inv_elems [of me k "kb_sub P d False" "Suc d"] "2.prems"(1) that by (auto simp: kb_sub_def)
  ultimately show ?case using 2 by (auto split: if_splits)
qed auto

lemma kb_elems_distinct: "kb_node_inv me k P d near n \<Longrightarrow> distinct (map kc_id (kb_elems n))"
proof (induction me k P d near n rule: kb_node_inv.induct)
  case (2 me k P d near ds l r)
  have "kc_id x \<noteq> kc_id y" if "x \<in> set (kb_elems l)" "y \<in> set (kb_elems r)" for x y
    using kb_node_inv_elems [of me k "kb_sub P d False" "Suc d" _ l x]
      kb_node_inv_elems [of me k "kb_sub P d True" "Suc d" _ r y] "2.prems" that
    by (auto simp: kb_sub_def)
  with 2 show ?case by auto
qed simp

lemma kb_indexOf_Some: "kb_indexOf cs nid = Some i \<Longrightarrow> i < length cs \<and> kc_id (cs ! i) = nid"
  by (induction cs arbitrary: i) (auto split: if_splits)

lemma kb_indexOf_None: "kb_indexOf cs nid = None \<longleftrightarrow> nid \<notin> kc_id ` set cs"
  by (induction cs) auto

subsection \<open>get and remove\<close>

lemma kb_get_iff:
  assumes "kb_inv len kb"
  shows "kb_get kb nid = Some c \<longleftrightarrow> c \<in> set (kb_elems (root kb)) \<and> kc_id c = nid"
proof -
  obtain cs ds b where leaf: "kb_find_leaf (root kb) nid 0 = (cs, ds, b)" by (metis prod_cases3)
  have inv: "kb_node_inv (localNodeId kb) (numberOfNodesPerKBucket kb) (\<lambda>x. length x = len) 0 True (root kb)"
    using assms by (simp add: kb_inv_def)
  have dist: "distinct (map kc_id (kb_elems (root kb)))" using inv by (rule kb_elems_distinct)
  have sub: "set cs \<subseteq> set (kb_elems (root kb))" using kb_find_leaf_subset [OF leaf] by (metis set_mset_mono set_mset_mset)
  show ?thesis
  proof (cases "kb_indexOf cs nid")
    case None
    then have "nid \<notin> kc_id ` set cs" by (simp add: kb_indexOf_None)
    moreover have "c \<in> set cs" if "c \<in> set (kb_elems (root kb))" "kc_id c = nid"
      using kb_find_leaf_complete [OF inv that(1)] leaf that(2) by simp
    ultimately show ?thesis using leaf None by (auto simp: kb_get_def)
  next
    case (Some i)
    then have i: "i < length cs" "kc_id (cs ! i) = nid" using kb_indexOf_Some by auto
    then have "cs ! i \<in> set (kb_elems (root kb))" using sub nth_mem by blast
    then have "c = cs ! i" if "c \<in> set (kb_elems (root kb))" "kc_id c = nid"
      using dist that i(2) by (simp add: distinct_map inj_on_def)
    then show ?thesis using leaf Some i \<open>cs ! i \<in> _\<close> by (auto simp: kb_get_def)
  qed
qed

lemma mset_delete_index: "i < length cs \<Longrightarrow> mset (take i cs @ drop (Suc i) cs) = mset cs - {#cs ! i#}"
proof -
  assume i: "i < length cs"
  have "mset cs = mset (take i cs @ cs ! i # drop (Suc i) cs)" using id_take_nth_drop [OF i] by simp
  then show ?thesis by simp
qed

lemma distinct_delete_index: "distinct (map f cs) \<Longrightarrow> i < length cs \<Longrightarrow> distinct (map f (take i cs @ drop (Suc i) cs))"
proof -
  assume d: "distinct (map f cs)" and i: "i < length cs"
  have "distinct (map f (take i cs @ cs ! i # drop (Suc i) cs))" using d id_take_nth_drop [OF i] by simp
  then show ?thesis by auto
qed

lemma set_delete_index: "set (take i cs @ drop j cs) \<subseteq> set cs"
  using set_take_subset set_drop_subset by force

lemma kb_remove_inv: "kb_inv len kb \<Longrightarrow> kb_inv len (fst (kb_remove kb nid))"
proof -
  assume inv: "kb_inv len kb"
  obtain cs ds b where leaf: "kb_find_leaf (root kb) nid 0 = (cs, ds, b)" by (metis prod_cases3)
  obtain near where near: "kb_leaf_inv len kb nid b near (Leaf cs ds)"
    and set: "\<And>n'. kb_leaf_inv len kb nid b near n' \<Longrightarrow> kb_inv len (kb\<lparr>root := kb_set_leaf (root kb) nid 0 n'\<rparr>)"
    using kb_inv_leaf [OF inv leaf] by blast
  show ?thesis
  proof (cases "kb_indexOf cs nid")
    case (Some i)
    then have i: "i < length cs" using kb_indexOf_Some by auto
    have "kb_leaf_inv len kb nid b near (Leaf (take i cs @ drop (Suc i) cs) ds)"
      using near i distinct_delete_index [of kc_id cs i] set_delete_index [of i cs "Suc i"]
      by (auto simp: kb_leaf_inv_def)
    then show ?thesis using set leaf Some by (simp add: kb_remove_def)
  qed (use inv leaf in \<open>simp add: kb_remove_def\<close>)
qed

lemma kb_remove_elems:
  assumes "kb_inv len kb"
  shows "mset (kb_elems (root (fst (kb_remove kb nid)))) =
           filter_mset (\<lambda>c. kc_id c \<noteq> nid) (mset (kb_elems (root kb)))"
    and "snd (kb_remove kb nid) = (case kb_get kb nid of None \<Rightarrow> [] | Some c \<Rightarrow> [KRemoved c])"
proof -
  obtain cs ds b where leaf: "kb_find_leaf (root kb) nid 0 = (cs, ds, b)" by (metis prod_cases3)
  show "snd (kb_remove kb nid) = (case kb_get kb nid of None \<Rightarrow> [] | Some c \<Rightarrow> [KRemoved c])"
    using leaf by (auto simp: kb_remove_def kb_get_def split: option.splits)
  have dist: "distinct (map kc_id (kb_elems (root kb)))"
    using assms unfolding kb_inv_def by (rule kb_elems_distinct)
  show "mset (kb_elems (root (fst (kb_remove kb nid)))) =
           filter_mset (\<lambda>c. kc_id c \<noteq> nid) (mset (kb_elems (root kb)))"
  proof (cases "kb_indexOf cs nid")
    case None
    then have "kb_get kb nid = None" using leaf by (simp add: kb_get_def)
    then have "\<forall>c \<in> set (kb_elems (root kb)). kc_id c \<noteq> nid" using kb_get_iff [OF assms, of nid] by auto
    then have "filter (\<lambda>c. kc_id c \<noteq> nid) (kb_elems (root kb)) = kb_elems (root kb)" by (simp add: filter_id_conv)
    with None leaf show ?thesis by (simp add: kb_remove_def flip: mset_filter)
  next
    case (Some i)
    then have i: "i < length cs" "kc_id (cs ! i) = nid" using kb_indexOf_Some by auto
    let ?M = "mset (kb_elems (root kb))"
    let ?N = "mset (kb_elems (kb_set_leaf (root kb) nid 0 (Leaf (take i cs @ drop (Suc i) cs) ds)))"
    have "?N + mset cs = ?M + (mset cs - {#cs ! i#})"
      using kb_elems_set_leaf [OF leaf] mset_delete_index [OF i(1)] by simp
    moreover have "mset cs = add_mset (cs ! i) (mset cs - {#cs ! i#})" using i(1) by simp
    ultimately have "add_mset (cs ! i) ?N + (mset cs - {#cs ! i#}) = ?M + (mset cs - {#cs ! i#})"
      by (metis union_mset_add_mset_left union_mset_add_mset_right)
    then have N: "?N = ?M - {#cs ! i#}" by (metis add_mset_remove_trivial add_right_cancel)
    have mem: "cs ! i \<in> set (kb_elems (root kb))"
      using kb_find_leaf_subset [OF leaf] i(1) by (metis nth_mem set_mset_mono set_mset_mset subsetD)
    then obtain xs ys where xs: "kb_elems (root kb) = xs @ cs ! i # ys" by (metis split_list)
    have "nid \<notin> kc_id ` set (xs @ ys)" using dist i(2) unfolding xs by auto
    then have "\<forall>c \<in> set (xs @ ys). kc_id c \<noteq> nid" by blast
    then have "filter (\<lambda>c. kc_id c \<noteq> nid) (xs @ cs ! i # ys) = xs @ ys" using i(2)
      by (simp add: filter_id_conv)
    then have "filter_mset (\<lambda>c. kc_id c \<noteq> nid) ?M = mset (xs @ ys)" unfolding xs by (metis mset_filter)
    moreover have "?M - {#cs ! i#} = mset (xs @ ys)" unfolding xs by simp
    ultimately show ?thesis using N leaf Some by (simp add: kb_remove_def)
  qed
qed

subsection \<open>Splitting\<close>

lemma kb_goes_right_bit:
  "kb_goes_right nid i \<longleftrightarrow> i div 8 < length nid \<and> bit (nid ! (i div 8)) (7 - i mod 8)"
proof -
  have "(and a (push_bit n 1) \<noteq> 0) = bit a n" if "n < 8" for a :: byte and n
    using that by (simp add: bit_iff_and_push_bit_not_eq_0)
  then show ?thesis by (auto simp: kb_goes_right_def Let_def drop_bit_eq_div)
qed

lemma kb_split_inv:
  assumes "kb_node_inv me k P d True (Leaf cs ds)"
  shows "kb_node_inv me k P d True (kb_split me cs ds d)"
  using assms
  by (auto simp: kb_split_def Let_def kb_sub_def distinct_map_filter intro: le_trans [OF length_filter_le])

lemma kb_split_elems: "mset (kb_elems (kb_split me cs ds d)) = mset cs"
proof -
  have "mset (filter (\<lambda>c. \<not> Q c) cs) + mset (filter Q cs) = mset cs" for Q :: "kcontact \<Rightarrow> bool"
    by (induction cs) auto
  then show ?thesis by (simp add: kb_split_def Let_def del: mset_filter)
qed

lemma kb_split_find:
  "\<exists>cs' ds'. kb_find_leaf (kb_split me cs ds d) nid d = (cs', ds', Suc d) \<and> set cs' \<subseteq> set cs"
  by (auto simp: kb_split_def Let_def)

text \<open>All the bits of two identifiers of the same length determine them.\<close>

lemma bits_determine_id:
  assumes len: "length x = length y" and bits: "\<And>j. j < 8 * length x \<Longrightarrow> kb_goes_right x j = kb_goes_right y j"
  shows "x = y"
proof (rule nth_equalityI [OF len])
  fix i
  assume i: "i < length x"
  show "x ! i = y ! i"
  proof (rule bit_word_eqI)
    fix n
    assume n: "n < LENGTH(8)"
    define m where "m = 7 - n"
    have "m < 8" "7 - m = n" using n by (simp_all add: m_def)
    then have "(8 * i + m) div 8 = i" "7 - (8 * i + m) mod 8 = n" by simp_all
    then show "bit (x ! i) n = bit (y ! i) n"
      using bits [of "8 * i + m"] i len \<open>m < 8\<close> by (simp add: kb_goes_right_bit)
  qed
qed

subsection \<open>add\<close>

definition kb_fits :: "nat \<Rightarrow> kbucket \<Rightarrow> kcontact \<Rightarrow> bool" where
  "kb_fits len kb c \<longleftrightarrow> kb_inv len kb \<and> numberOfNodesPerKBucket kb > 0 \<and> length (kc_id c) = len"

text \<open>What \<^verbatim>\<open>add\<close> may do, seen from outside of the tree.\<close>

definition kb_add_effect :: "kbucket \<Rightarrow> kcontact \<Rightarrow> kbucket \<Rightarrow> kb_event list \<Rightarrow> bool" where
  "kb_add_effect kb c kb' evs \<longleftrightarrow>
     (case kb_get kb (kc_id c) of
        Some old \<Rightarrow>
          (let sel = kb_arbiter old c
           in if kc_ref sel = kc_ref old \<and> kc_ref old \<noteq> kc_ref c
              then evs = [] \<and> mset (kb_toArray kb') = mset (kb_toArray kb)
              else evs = [KUpdated old sel] \<and>
                   add_mset old (mset (kb_toArray kb')) = add_mset sel (mset (kb_toArray kb)))
      | None \<Rightarrow>
          (evs = [KAdded c] \<and> mset (kb_toArray kb') = add_mset c (mset (kb_toArray kb))) \<or>
          (\<exists>cs. evs = [KPing cs c] \<and> mset (kb_toArray kb') = mset (kb_toArray kb) \<and>
                length cs = min (numberOfNodesToPing kb) (numberOfNodesPerKBucket kb) \<and>
                mset cs \<subseteq># mset (kb_toArray kb)))"

lemma kb_get_leaf:
  "kb_find_leaf (root kb) nid 0 = (cs, ds, b) \<Longrightarrow> kb_get kb nid = map_option (\<lambda>i. cs ! i) (kb_indexOf cs nid)"
  by (simp add: kb_get_def)

lemma kb_arbiter_id: "kc_id old = kc_id c \<Longrightarrow> kc_id (kb_arbiter old c) = kc_id c"
  by (simp add: kb_arbiter_def)

lemma kb_update_props:
  assumes "kb_indexOf cs (kc_id c) = Some i" "kb_node_inv me k P d near (Leaf cs ds)" "kb_update cs i c = (cs', evs)"
  shows "kb_node_inv me k P d near (Leaf cs' ds)"
    and "add_mset (cs ! i) (mset cs') = add_mset (if evs = [] then cs ! i else kb_arbiter (cs ! i) c) (mset cs)"
proof -
  have i: "i < length cs" "kc_id (cs ! i) = kc_id c" using assms(1) kb_indexOf_Some by auto
  let ?rest = "take i cs @ drop (Suc i) cs"
  let ?sel = "kb_arbiter (cs ! i) c"
  have cs': "cs' = cs \<and> evs = [] \<or> cs' = ?rest @ [?sel] \<and> evs \<noteq> []"
    using assms(3) by (auto simp: kb_update_def Let_def split: if_splits)
  have cs: "cs = take i cs @ cs ! i # drop (Suc i) cs" using i(1) by (simp add: id_take_nth_drop)
  have "distinct (map kc_id (take i cs @ cs ! i # drop (Suc i) cs))" using assms(2) cs by simp
  then have d: "distinct (map kc_id (?rest @ [?sel]))"
    using kb_arbiter_id [OF i(2)] i(2) by auto
  have "P (kc_id ?sel)" using assms(2) i kb_arbiter_id [OF i(2)] by (metis kb_node_inv.simps(1) nth_mem)
  moreover have "length (?rest @ [?sel]) = length cs" using i(1) by simp
  ultimately have "kb_node_inv me k P d near (Leaf (?rest @ [?sel]) ds)"
    using assms(2) d set_take_subset [of i cs] set_drop_subset [of "Suc i" cs] by auto
  then show "kb_node_inv me k P d near (Leaf cs' ds)" using cs' assms(2) by auto
  have "add_mset (cs ! i) (mset ?rest) = mset cs" using mset_delete_index [OF i(1)] i(1) by simp
  then show "add_mset (cs ! i) (mset cs') = add_mset (if evs = [] then cs ! i else ?sel) (mset cs)"
    using cs' by (auto simp: add_mset_commute)
qed

lemma mset_exchange:
  "E + C = R + C' \<Longrightarrow> add_mset x C' = add_mset y C \<Longrightarrow> add_mset x E = add_mset y R"
proof -
  assume "E + C = R + C'" "add_mset x C' = add_mset y C"
  then have "add_mset x E + C = add_mset y R + C"
    by (metis union_mset_add_mset_left union_mset_add_mset_right)
  then show ?thesis by simp
qed

definition kb_add_ok :: "nat \<Rightarrow> kbucket \<Rightarrow> kcontact \<Rightarrow> kbucket \<Rightarrow> kb_event list \<Rightarrow> bool" where
  "kb_add_ok len kb c kb' evs \<longleftrightarrow>
     kb_add kb c = Some (kb', evs) \<and> kb_inv len kb' \<and> kb_add_effect kb c kb' evs \<and> kb' = kb\<lparr>root := root kb'\<rparr>"

text \<open>One lemma per branch of \<^verbatim>\<open>add\<close>.\<close>

lemma kb_add_update:
  assumes inv: "kb_inv len kb" and leaf: "kb_find_leaf (root kb) (kc_id c) 0 = (cs, ds, b)"
    and idx: "kb_indexOf cs (kc_id c) = Some i" and upd: "kb_update cs i c = (cs', evs)"
  shows "kb_add_ok len kb c (kb\<lparr>root := kb_set_leaf (root kb) (kc_id c) 0 (Leaf cs' ds)\<rparr>) evs"
    (is "kb_add_ok len kb c ?kb' evs")
proof -
  obtain near where near: "kb_leaf_inv len kb (kc_id c) b near (Leaf cs ds)"
    and set: "\<And>n'. kb_leaf_inv len kb (kc_id c) b near n' \<Longrightarrow> kb_inv len (kb\<lparr>root := kb_set_leaf (root kb) (kc_id c) 0 n'\<rparr>)"
    using kb_inv_leaf [OF inv leaf] by blast
  note near' = near [unfolded kb_leaf_inv_def]
  have "kb_add kb c = Some (?kb', evs)" using leaf idx upd by (simp add: kb_add.simps)
  moreover have "kb_inv len ?kb'"
    using kb_update_props(1) [OF idx near' upd] by (intro set) (simp only: kb_leaf_inv_def)
  moreover have "add_mset (cs ! i) (mset (kb_elems (root ?kb'))) =
      add_mset (if evs = [] then cs ! i else kb_arbiter (cs ! i) c) (mset (kb_elems (root kb)))"
    using kb_elems_set_leaf [OF leaf, of "Leaf cs' ds"] kb_update_props(2) [OF idx near' upd]
    by (auto intro: mset_exchange)
  then have "kb_add_effect kb c ?kb' evs"
    using upd kb_get_leaf [OF leaf] idx
    by (auto simp: kb_add_effect_def kb_toArray_elems kb_update_def Let_def split: if_splits)
  ultimately show ?thesis by (simp add: kb_add_ok_def)
qed

lemma kb_add_room:
  assumes inv: "kb_inv len kb" and leaf: "kb_find_leaf (root kb) (kc_id c) 0 = (cs, ds, b)"
    and idx: "kb_indexOf cs (kc_id c) = None" and room: "length cs < numberOfNodesPerKBucket kb"
    and len: "length (kc_id c) = len"
  shows "kb_add_ok len kb c (kb\<lparr>root := kb_set_leaf (root kb) (kc_id c) 0 (Leaf (cs @ [c]) ds)\<rparr>) [KAdded c]"
    (is "kb_add_ok len kb c ?kb' _")
proof -
  obtain near where near: "kb_leaf_inv len kb (kc_id c) b near (Leaf cs ds)"
    and set: "\<And>n'. kb_leaf_inv len kb (kc_id c) b near n' \<Longrightarrow> kb_inv len (kb\<lparr>root := kb_set_leaf (root kb) (kc_id c) 0 n'\<rparr>)"
    using kb_inv_leaf [OF inv leaf] by blast
  have "kb_add kb c = Some (?kb', [KAdded c])" using leaf idx room by (simp add: kb_add.simps)
  moreover have "kb_leaf_inv len kb (kc_id c) b near (Leaf (cs @ [c]) ds)"
    using near room idx len by (auto simp: kb_leaf_inv_def kb_indexOf_None kb_path_def)
  then have "kb_inv len ?kb'" by (rule set)
  moreover have "mset (kb_elems (root ?kb')) = add_mset c (mset (kb_elems (root kb)))"
    using kb_elems_set_leaf [OF leaf, of "Leaf (cs @ [c]) ds"] by (simp add: union_commute)
  then have "kb_add_effect kb c ?kb' [KAdded c]"
    using kb_get_leaf [OF leaf] idx by (simp add: kb_add_effect_def kb_toArray_elems)
  ultimately show ?thesis by (simp add: kb_add_ok_def)
qed

lemma kb_add_ping:
  assumes inv: "kb_inv len kb" and leaf: "kb_find_leaf (root kb) (kc_id c) 0 = (cs, True, b)"
    and idx: "kb_indexOf cs (kc_id c) = None" and full: "length cs = numberOfNodesPerKBucket kb"
  shows "kb_add_ok len kb c kb [KPing (take (min (numberOfNodesToPing kb) (length cs)) cs) c]"
    (is "kb_add_ok len kb c kb [KPing ?cs c]")
proof -
  have "kb_add kb c = Some (kb, [KPing ?cs c])" using leaf idx full by (simp add: kb_add.simps)
  moreover have "mset ?cs \<subseteq># mset (kb_elems (root kb))"
    using kb_find_leaf_subset [OF leaf]
    by (metis append_take_drop_id mset_append mset_subset_eq_add_left subset_mset.order_trans)
  then have "kb_add_effect kb c kb [KPing ?cs c]"
    using kb_get_leaf [OF leaf] idx full by (simp add: kb_add_effect_def kb_toArray_elems)
  ultimately show ?thesis using inv by (simp add: kb_add_ok_def)
qed

text \<open>
  A full leaf without the new identifier cannot sit at the depth of the whole identifier, so
  only finitely many splits are possible.
\<close>

lemma kb_full_leaf_depth:
  assumes near: "kb_leaf_inv len kb nid b near (Leaf cs ds)" and "kb_indexOf cs nid = None"
    and "cs \<noteq> []" "length nid = len"
  shows "b < 8 * len"
proof (rule ccontr)
  assume b: "\<not> b < 8 * len"
  obtain y where y: "y \<in> set cs" using assms(3) by (cases cs) auto
  then have "kb_path (\<lambda>x. length x = len) 0 b nid (kc_id y)" using near by (simp add: kb_leaf_inv_def)
  then have "kc_id y = nid" using b assms(4) by (intro bits_determine_id) (auto simp: kb_path_def)
  with assms(2) y show False unfolding kb_indexOf_None by (metis imageI)
qed

lemma kb_add_split:
  assumes inv: "kb_inv len kb" and leaf: "kb_find_leaf (root kb) (kc_id c) 0 = (cs, False, b)"
    and idx: "kb_indexOf cs (kc_id c) = None" and full: "length cs = numberOfNodesPerKBucket kb"
  defines "kb1 \<equiv> kb\<lparr>root := kb_set_leaf (root kb) (kc_id c) 0 (kb_split (localNodeId kb) cs False b)\<rparr>"
  shows "kb_inv len kb1" and "\<exists>cs1 ds1. kb_find_leaf (root kb1) (kc_id c) 0 = (cs1, ds1, Suc b)"
    and "kb_add_ok len kb1 c kb' evs \<Longrightarrow> kb_add_ok len kb c kb' evs"
proof -
  obtain near where near: "kb_leaf_inv len kb (kc_id c) b near (Leaf cs False)"
    and set: "\<And>n'. kb_leaf_inv len kb (kc_id c) b near n' \<Longrightarrow> kb_inv len (kb\<lparr>root := kb_set_leaf (root kb) (kc_id c) 0 n'\<rparr>)"
    using kb_inv_leaf [OF inv leaf] by blast
  have "near" using near by (simp add: kb_leaf_inv_def)
  then have "kb_leaf_inv len kb (kc_id c) b near (kb_split (localNodeId kb) cs False b)"
    using near kb_split_inv by (simp add: kb_leaf_inv_def del: kb_node_inv.simps)
  then show inv1: "kb_inv len kb1" unfolding kb1_def by (rule set)
  show "\<exists>cs1 ds1. kb_find_leaf (root kb1) (kc_id c) 0 = (cs1, ds1, Suc b)"
    using kb_find_set_leaf [OF leaf] kb_split_find [of "localNodeId kb" cs False b "kc_id c"]
    by (auto simp: kb1_def)
  have step: "kb_add kb c = kb_add kb1 c" using leaf idx full by (simp add: kb_add.simps [of kb] kb1_def)
  have same: "mset (kb_elems (root kb1)) = mset (kb_elems (root kb))"
    using kb_elems_set_leaf [OF leaf, of "kb_split (localNodeId kb) cs False b"] by (simp add: kb1_def kb_split_elems)
  then have "kb_get kb1 (kc_id c) = kb_get kb (kc_id c)"
    using kb_get_iff [OF inv1] kb_get_iff [OF inv] by (metis (no_types, lifting) not_Some_eq set_mset_mset)
  moreover have "numberOfNodesToPing kb1 = numberOfNodesToPing kb"
    "numberOfNodesPerKBucket kb1 = numberOfNodesPerKBucket kb" "kb1\<lparr>root := n\<rparr> = kb\<lparr>root := n\<rparr>" for n
    by (simp_all add: kb1_def)
  moreover have "mset (kb_toArray kb1) = mset (kb_toArray kb)" using same by (simp add: kb_toArray_elems)
  ultimately show "kb_add_ok len kb c kb' evs" if "kb_add_ok len kb1 c kb' evs"
    using that step by (simp only: kb_add_ok_def kb_add_effect_def)
qed

lemma kb_add_returns:
  assumes "kb_fits len kb c" "kb_find_leaf (root kb) (kc_id c) 0 = (cs, ds, b)"
  shows "\<exists>kb' evs. kb_add_ok len kb c kb' evs"
  using assms
proof (induction "8 * len - b" arbitrary: kb cs ds b rule: less_induct)
  case less
  have inv: "kb_inv len kb" and k: "numberOfNodesPerKBucket kb > 0" and len: "length (kc_id c) = len"
    using less.prems(1) by (simp_all add: kb_fits_def)
  note leaf = less.prems(2)
  obtain near where near: "kb_leaf_inv len kb (kc_id c) b near (Leaf cs ds)"
    using kb_inv_leaf [OF inv leaf] by blast
  consider (update) i where "kb_indexOf cs (kc_id c) = Some i"
    | (room) "kb_indexOf cs (kc_id c) = None" "length cs < numberOfNodesPerKBucket kb"
    | (full) "kb_indexOf cs (kc_id c) = None" "length cs = numberOfNodesPerKBucket kb"
    using near by (fastforce simp: kb_leaf_inv_def)
  then show ?case
  proof cases
    case update
    then show ?thesis using kb_add_update [OF inv leaf] by (metis surj_pair)
  next
    case room
    then show ?thesis using kb_add_room [OF inv leaf] len by blast
  next
    case full
    show ?thesis
    proof (cases ds)
      case True
      then have "kb_find_leaf (root kb) (kc_id c) 0 = (cs, True, b)" using leaf by simp
      then show ?thesis using kb_add_ping [OF inv _ full] by blast
    next
      case False
      let ?kb1 = "kb\<lparr>root := kb_set_leaf (root kb) (kc_id c) 0 (kb_split (localNodeId kb) cs False b)\<rparr>"
      have leaf': "kb_find_leaf (root kb) (kc_id c) 0 = (cs, False, b)" using leaf False by simp
      note s = kb_add_split [OF inv leaf' full]
      obtain cs1 ds1 where leaf1: "kb_find_leaf (root ?kb1) (kc_id c) 0 = (cs1, ds1, Suc b)"
        using s(2) by blast
      have "b < 8 * len" using kb_full_leaf_depth [OF near full(1)] full(2) k len by force
      moreover have "kb_fits len ?kb1 c" using s(1) k len by (simp add: kb_fits_def)
      ultimately show ?thesis using less.hyps [OF _ _ leaf1] s(3) by (metis diff_less_mono2 lessI)
    qed
  qed
qed


text \<open>A small tree with one-byte identifiers and one contact per leaf.\<close>

definition kb_example :: kbucket where
  "kb_example =
     \<lparr>localNodeId = [0], numberOfNodesPerKBucket = 1, numberOfNodesToPing = 1,
      root = Inner False
               (Leaf [\<lparr>kc_ref = 1, kc_id = [5], kc_clock = 0\<rparr>] False)
               (Leaf [\<lparr>kc_ref = 2, kc_id = [200], kc_clock = 0\<rparr>] True)\<rparr>"

lemma kb_example_inv: "kb_inv 1 kb_example"
  by code_simp


section \<open>The closest contacts\<close>

text \<open>The leaves in the order in which they ought to be visited, closest first.\<close>

fun kb_visit :: "DhtAddressRaw \<Rightarrow> nat \<Rightarrow> kb_node \<Rightarrow> kcontact list list" where
  "kb_visit nid d (Leaf cs ds) = [cs]"
| "kb_visit nid d (Inner ds l r) =
     (if kb_goes_right nid d then kb_visit nid (Suc d) r @ kb_visit nid (Suc d) l
      else kb_visit nid (Suc d) l @ kb_visit nid (Suc d) r)"

fun kb_collect :: "nat \<Rightarrow> kcontact list list \<Rightarrow> kcontact list \<Rightarrow> kcontact list" where
  "kb_collect limit [] acc = acc"
| "kb_collect limit (cs # css) acc = (if length acc < limit then kb_collect limit css (acc @ cs) else acc)"

lemma kb_collect_full: "\<not> length acc < limit \<Longrightarrow> kb_collect limit css acc = acc"
  by (cases css) auto

fun kb_is_leaf :: "kb_node \<Rightarrow> bool" where
  "kb_is_leaf (Leaf cs ds) = True"
| "kb_is_leaf (Inner ds l r) = False"

lemma kb_far_is_leaf: "kb_node_inv me k P d False n \<Longrightarrow> kb_is_leaf n"
  by (cases n) auto

lemma kb_closest_loop_leaves:
  "(\<And>n. n \<in> set rest \<Longrightarrow> kb_is_leaf n) \<Longrightarrow>
   kb_closest_loop nid limit rest b acc = kb_collect limit (map kb_elems rest) acc"
proof (induction rest arbitrary: acc)
  case (Cons n rest)
  obtain cs ds where "n = Leaf cs ds" using Cons.prems by (cases n) force+
  then show ?case using Cons by simp
qed simp

text \<open>
  The single bit counter of the loop is the depth of the only inner node on the stack, because
  inner nodes occur along the path of the local node only.
\<close>

lemma kb_closest_loop_visit:
  assumes "kb_node_inv me k P d near n" "\<And>m. m \<in> set rest \<Longrightarrow> kb_is_leaf m"
  shows "kb_closest_loop nid limit (n # rest) d acc = kb_collect limit (kb_visit nid d n @ map kb_elems rest) acc"
  using assms
proof (induction n arbitrary: P d near rest acc)
  case (Leaf cs ds)
  then show ?case by (simp add: kb_closest_loop_leaves)
next
  case (Inner ds l r)
  let ?g = "kb_goes_right nid d"
  let ?det = "if ?g then r else l" and ?oth = "if ?g then l else r"
  have invd: "kb_node_inv me k (kb_sub P d ?g) (Suc d) (kb_goes_right me d = ?g) ?det"
    and invo: "kb_node_inv me k (kb_sub P d (\<not> ?g)) (Suc d) (kb_goes_right me d \<noteq> ?g) ?oth"
    using Inner.prems(1) by (cases ?g; simp)+
  have IHd: "kb_closest_loop nid limit (?det # rest') (Suc d) acc' =
      kb_collect limit (kb_visit nid (Suc d) ?det @ map kb_elems rest') acc'"
    if "\<And>m. m \<in> set rest' \<Longrightarrow> kb_is_leaf m" for rest' acc'
    using Inner.IH(1) [of _ "Suc d" _ rest' acc'] Inner.IH(2) [of _ "Suc d" _ rest' acc'] invd that
    by (cases ?g) simp_all
  have IHo: "kb_closest_loop nid limit (?oth # rest') (Suc d) acc' =
      kb_collect limit (kb_visit nid (Suc d) ?oth @ map kb_elems rest') acc'"
    if "\<And>m. m \<in> set rest' \<Longrightarrow> kb_is_leaf m" for rest' acc'
    using Inner.IH(1) [of _ "Suc d" _ rest' acc'] Inner.IH(2) [of _ "Suc d" _ rest' acc'] invo that
    by (cases ?g) simp_all
  show ?case
  proof (cases "length acc < limit")
    case False
    then show ?thesis by (simp add: kb_collect_full)
  next
    case True
    then have "kb_closest_loop nid limit (Inner ds l r # rest) d acc =
        kb_closest_loop nid limit (?det # ?oth # rest) (Suc d) acc" by simp
    also have "\<dots> = kb_collect limit (kb_visit nid (Suc d) ?det @ kb_visit nid (Suc d) ?oth @ map kb_elems rest) acc"
    proof (cases "kb_goes_right me d = ?g")
      case near: True
      then have leaf: "kb_is_leaf ?oth" using invo by (auto intro: kb_far_is_leaf)
      have "kb_closest_loop nid limit (?det # ?oth # rest) (Suc d) acc =
          kb_collect limit (kb_visit nid (Suc d) ?det @ map kb_elems (?oth # rest)) acc"
        using Inner.prems(2) leaf by (intro IHd) (auto split: if_splits)
      then show ?thesis using leaf by (cases ?oth) auto
    next
      case far: False
      then have "kb_is_leaf ?det" using invd by (auto intro: kb_far_is_leaf)
      then obtain cs ds' where det: "?det = Leaf cs ds'" by (cases ?det) auto
      have "kb_closest_loop nid limit (?oth # rest) (Suc d) (acc @ cs) =
          kb_collect limit (kb_visit nid (Suc d) ?oth @ map kb_elems rest) (acc @ cs)"
        using Inner.prems(2) by (intro IHo) auto
      then show ?thesis using det True by simp
    qed
    also have "\<dots> = kb_collect limit (kb_visit nid d (Inner ds l r) @ map kb_elems rest) acc" by simp
    finally show ?thesis .
  qed
qed

lemma kb_visit_elems: "mset (concat (kb_visit nid d n)) = mset (kb_elems n)"
  by (induction nid d n rule: kb_visit.induct) auto

text \<open>The first bit in which two identifiers differ decides which of them is closer.\<close>

lemma uint_less_first_bit:
  fixes a b :: byte
  assumes p: "p < 8" and above: "\<And>j. p < j \<Longrightarrow> j < 8 \<Longrightarrow> bit a j = bit b j" and bits: "\<not> bit a p" "bit b p"
  shows "uint a < uint b"
proof -
  have "drop_bit (Suc p) (uint a) = drop_bit (Suc p) (uint b)"
    using above by (intro bit_eqI) (auto simp: bit_drop_bit_eq bit_uint_iff)
  moreover have "take_bit (Suc p) (uint a) = take_bit p (uint a)"
    using bits(1) by (intro bit_eqI) (auto simp: bit_take_bit_iff bit_uint_iff less_Suc_eq)
  moreover have "take_bit (Suc p) (uint b) = 2 ^ p + take_bit p (uint b)"
    using bits(2) p by (simp add: take_bit_Suc_from_most bit_uint_iff)
  moreover have "take_bit p (uint a) < 2 ^ p" "0 \<le> take_bit p (uint b)" by simp_all
  moreover have "uint c = push_bit (Suc p) (drop_bit (Suc p) (uint c)) + take_bit (Suc p) (uint c)" for c :: byte
    by (rule bits_ident [symmetric])
  ultimately show ?thesis by (metis add_strict_left_mono add_increasing2 less_le_trans order_refl add_left_mono)
qed

lemma xor_bytes_map2: "length a = length b \<Longrightarrow> xor_bytes a b = map2 (\<lambda>x y. uint (x XOR y)) a b"
  by (induction a b rule: list_induct2) auto

lemma bits_prefix_bytes:
  assumes "length x = length y" "\<And>j. j < d \<Longrightarrow> kb_goes_right x j = kb_goes_right y j"
    and i: "i < d div 8" "i < length x"
  shows "x ! i = y ! i"
proof (rule bit_word_eqI)
  fix n
  assume "n < LENGTH(8)"
  define m where "m = 7 - n"
  have m: "m < 8" "7 - m = n" using \<open>n < LENGTH(8)\<close> by (simp_all add: m_def)
  then have "(8 * i + m) div 8 = i" "7 - (8 * i + m) mod 8 = n" by simp_all
  moreover have "8 * i + m < d" using i(1) m by linarith
  ultimately show "bit (x ! i) n = bit (y ! i) n"
    using assms(2) [of "8 * i + m"] i(2) assms(1) by (simp add: kb_goes_right_bit)
qed

lemma first_bit_lex:
  assumes len: "length x = length nid" "length y = length nid" and d: "d < 8 * length nid"
    and pre: "\<And>j. j < d \<Longrightarrow> kb_goes_right x j = kb_goes_right y j"
    and bit: "kb_goes_right x d = kb_goes_right nid d" "kb_goes_right y d \<noteq> kb_goes_right nid d"
  shows "(xor_bytes x nid, xor_bytes y nid) \<in> lexord {(u, v). u < v}"
proof -
  define k p where "k = d div 8" and "p = 7 - d mod 8"
  have k: "k < length nid" and p: "p < 8" using d by (auto simp: k_def p_def)
  have "uint (x ! k XOR nid ! k) < uint (y ! k XOR nid ! k)"
  proof (rule uint_less_first_bit [OF p])
    fix j
    assume j: "p < j" "j < (8 :: nat)"
    define m where "m = 7 - j"
    have m: "m < 8" "7 - m = j" "m < d mod 8" using j by (simp_all add: m_def p_def)
    have "8 * k + m < d" unfolding k_def using m(3) by (metis add.commute add_less_cancel_right div_mult_mod_eq mult.commute)
    moreover have "(8 * k + m) div 8 = k" "7 - (8 * k + m) mod 8 = j" using m by simp_all
    ultimately have "bit (x ! k) j = bit (y ! k) j"
      using pre [of "8 * k + m"] k len by (simp add: kb_goes_right_bit)
    then show "bit (x ! k XOR nid ! k) j = bit (y ! k XOR nid ! k) j" by (simp add: bit_xor_iff)
  qed (use bit k len p in \<open>auto simp: kb_goes_right_bit k_def p_def bit_xor_iff\<close>)
  moreover have "take k (xor_bytes x nid) = take k (xor_bytes y nid)"
    using len k bits_prefix_bytes [of x y d] pre
    by (auto simp: xor_bytes_map2 list_eq_iff_nth_eq k_def)
  ultimately show ?thesis
    using len k by (auto simp: lexord_take_index_conv xor_bytes_map2)
qed

context peer_metric
begin

lemma matching_bit_is_closer:
  assumes "length x = length nid" "length y = length nid" "d < 8 * length nid"
    and "\<And>j. j < d \<Longrightarrow> kb_goes_right x j = kb_goes_right y j"
    and "kb_goes_right x d = kb_goes_right nid d" "kb_goes_right y d \<noteq> kb_goes_right nid d"
  shows "dist x nid \<le> dist y nid"
  using assms by (intro dist_lex first_bit_lex) auto

text \<open>Leaves are visited in the order of the distance of their contacts.\<close>

lemma visit_ascending:
  assumes "kb_node_inv me k P d near n" "length nid = len"
    and "\<And>x. P x \<Longrightarrow> length x = len" "\<And>x y j. P x \<Longrightarrow> P y \<Longrightarrow> j < d \<Longrightarrow> kb_goes_right x j = kb_goes_right y j"
  shows "sorted_wrt (\<lambda>as bs. \<forall>a \<in> set as. \<forall>b \<in> set bs. dist (kc_id a) nid \<le> dist (kc_id b) nid) (kb_visit nid d n)"
  using assms
proof (induction n arbitrary: P d near)
  case (Inner ds l r)
  let ?R = "\<lambda>as bs. \<forall>a \<in> set as. \<forall>b \<in> set bs. dist (kc_id a) nid \<le> dist (kc_id b) nid"
  have invl: "kb_node_inv me k (kb_sub P d False) (Suc d) (\<not> kb_goes_right me d) l"
    and invr: "kb_node_inv me k (kb_sub P d True) (Suc d) (kb_goes_right me d) r"
    using Inner.prems(1) by simp_all
  have mem: "\<exists>c. c \<in> set (kb_elems m) \<and> c = a" if "as \<in> set (kb_visit nid e m)" "a \<in> set as" for m e as a
    using kb_visit_elems [of nid e m] that by (metis UN_I set_concat set_mset_mset)
  have shared: "\<And>x y j. kb_sub P d g x \<Longrightarrow> kb_sub P d g y \<Longrightarrow> j < Suc d \<Longrightarrow> kb_goes_right x j = kb_goes_right y j" for g
    using Inner.prems(4) by (auto simp: kb_sub_def less_Suc_eq)
  have closer: "dist (kc_id a) nid \<le> dist (kc_id b) nid"
    if "P (kc_id a)" "P (kc_id b)" "kb_goes_right (kc_id a) d = kb_goes_right nid d"
      "kb_goes_right (kc_id b) d \<noteq> kb_goes_right nid d" for a b :: kcontact
  proof (rule matching_bit_is_closer [of _ nid _ d])
    have "kb_goes_right (kc_id a) d \<or> kb_goes_right (kc_id b) d" using that(3,4) by blast
    then have "d div 8 < len" using Inner.prems(3) that(1,2) kb_goes_right_bit by metis
    then show "d < 8 * length nid" using Inner.prems(2) by linarith
    show "kb_goes_right (kc_id a) j = kb_goes_right (kc_id b) j" if "j < d" for j
      using Inner.prems(4) [OF \<open>P (kc_id a)\<close> \<open>P (kc_id b)\<close> that] .
  qed (use that(1,2) Inner.prems(2,3) that(3,4) in simp_all)
  have L: "P (kc_id a) \<and> \<not> kb_goes_right (kc_id a) d" if "as \<in> set (kb_visit nid e l)" "a \<in> set as" for e as a
    using mem [OF that] kb_node_inv_elems [OF invl] by (auto simp: kb_sub_def)
  have R: "P (kc_id a) \<and> kb_goes_right (kc_id a) d" if "as \<in> set (kb_visit nid e r)" "a \<in> set as" for e as a
    using mem [OF that] kb_node_inv_elems [OF invr] by (auto simp: kb_sub_def)
  have len: "\<And>x. kb_sub P d g x \<Longrightarrow> length x = len" for g
    using Inner.prems(3) by (simp add: kb_sub_def)
  have "sorted_wrt ?R (kb_visit nid (Suc d) l)"
    by (rule Inner.IH(1) [OF invl Inner.prems(2) len shared [of False]])
  moreover have "sorted_wrt ?R (kb_visit nid (Suc d) r)"
    by (rule Inner.IH(2) [OF invr Inner.prems(2) len shared [of True]])
  ultimately show ?case using closer L R by (auto simp: sorted_wrt_append)
qed simp

end

lemma kb_collect_prefix:
  "\<exists>j. kb_collect limit css acc = acc @ concat (take j css) \<and>
       (limit \<le> length (kb_collect limit css acc) \<or> j \<ge> length css)"
proof (induction limit css acc rule: kb_collect.induct)
  case (2 limit cs css acc)
  show ?case
  proof (cases "length acc < limit")
    case True
    with 2 obtain j where "kb_collect limit css (acc @ cs) = (acc @ cs) @ concat (take j css)"
      "limit \<le> length (kb_collect limit css (acc @ cs)) \<or> j \<ge> length css" by blast
    then show ?thesis using True by (intro exI [of _ "Suc j"]) auto
  next
    case False
    then show ?thesis by (intro exI [of _ 0]) auto
  qed
qed auto

lemma sort_append_le:
  fixes as bs :: "int list"
  assumes "\<And>a b. a \<in> set as \<Longrightarrow> b \<in> set bs \<Longrightarrow> a \<le> b"
  shows "sort (as @ bs) = sort as @ sort bs"
  by (rule properties_for_sort) (use assms in \<open>auto simp: sorted_append\<close>)

lemma map_sort_key: "map f (sort_key f xs) = sort (map f xs)"
  by (rule properties_for_sort [symmetric]) auto

lemma kb_visit_map_sort:
  assumes "sorted_wrt (\<lambda>as bs. \<forall>a \<in> set as. \<forall>b \<in> set bs. (f a :: int) \<le> f b) css"
  shows "take limit (map f (sort_key f (kb_collect limit css []))) = take limit (sort (map f (concat css)))"
proof -
  obtain j where j: "kb_collect limit css [] = concat (take j css)"
    "limit \<le> length (concat (take j css)) \<or> j \<ge> length css"
    using kb_collect_prefix [of limit css "[]"] by auto
  let ?A = "map f (concat (take j css))" and ?B = "map f (concat (drop j css))"
  have split: "concat css = concat (take j css) @ concat (drop j css)"
    by (metis append_take_drop_id concat_append)
  have "sorted_wrt (\<lambda>as bs. \<forall>a \<in> set as. \<forall>b \<in> set bs. f a \<le> f b) (take j css @ drop j css)"
    using assms by simp
  then have "\<forall>as \<in> set (take j css). \<forall>bs \<in> set (drop j css). \<forall>a \<in> set as. \<forall>b \<in> set bs. f a \<le> f b"
    unfolding sorted_wrt_append by blast
  then have "a \<le> b" if "a \<in> set ?A" "b \<in> set ?B" for a b using that by auto
  then have "sort (map f (concat css)) = sort ?A @ sort ?B"
    unfolding split map_append by (rule sort_append_le)
  moreover have "limit \<le> length (sort ?A) \<or> sort ?B = []" using j(2) by auto
  ultimately have "take limit (sort (map f (concat css))) = take limit (sort ?A)"
    by (elim disjE) simp_all
  then show ?thesis by (simp add: j(1) map_sort_key)
qed

lemma kb_closest_distances:
  assumes inv: "kb_inv len kb" and len: "length nid = len"
  shows "map (\<lambda>c. getPeerDistance (kc_id c) nid) (kb_closest kb nid n) =
           take (case n of Some m \<Rightarrow> m | None \<Rightarrow> size_max)
             (sort (map (\<lambda>c. getPeerDistance (kc_id c) nid) (kb_toArray kb)))"
proof -
  let ?f = "\<lambda>c. getPeerDistance (kc_id c) nid"
  let ?limit = "case n of Some m \<Rightarrow> m | None \<Rightarrow> size_max"
  let ?css = "kb_visit nid 0 (root kb)"
  have inv0: "kb_node_inv (localNodeId kb) (numberOfNodesPerKBucket kb) (\<lambda>x. length x = len) 0 True (root kb)"
    using inv by (simp add: kb_inv_def)
  have loop: "kb_closest_loop nid ?limit [root kb] 0 [] = kb_collect ?limit ?css []"
    using kb_closest_loop_visit [OF inv0, of "[]"] by simp
  have "kb_closest kb nid n = take ?limit (sort_key ?f (kb_collect ?limit ?css []))"
    by (simp add: kb_closest_def Let_def loop)
  then have "map ?f (kb_closest kb nid n) = take ?limit (map ?f (sort_key ?f (kb_collect ?limit ?css [])))"
    by (simp add: take_map)
  also have "\<dots> = take ?limit (sort (map ?f (concat ?css)))"
    using gpd.visit_ascending [OF inv0 len] by (intro kb_visit_map_sort) simp
  also have "sort (map ?f (concat ?css)) = sort (map ?f (kb_toArray kb))"
    by (rule properties_for_sort) (simp_all add: kb_toArray_elems kb_visit_elems del: mset_concat)
  finally show ?thesis .
qed

lemma kb_closest_subset:
  assumes inv: "kb_inv len kb"
  shows "mset (kb_closest kb nid n) \<subseteq># mset (kb_toArray kb)"
proof -
  let ?limit = "case n of Some m \<Rightarrow> m | None \<Rightarrow> size_max"
  have "kb_closest_loop nid ?limit [root kb] 0 [] = kb_collect ?limit (kb_visit nid 0 (root kb)) []"
    using kb_closest_loop_visit [of "localNodeId kb" _ _ 0 True "root kb" "[]"] inv by (simp add: kb_inv_def)
  then obtain j where "kb_closest_loop nid ?limit [root kb] 0 [] = concat (take j (kb_visit nid 0 (root kb)))"
    using kb_collect_prefix [of ?limit "kb_visit nid 0 (root kb)" "[]"] by auto
  then have "mset (kb_closest_loop nid ?limit [root kb] 0 []) \<subseteq># mset (concat (kb_visit nid 0 (root kb)))"
    by (metis append_take_drop_id concat_append mset_append mset_subset_eq_add_left)
  moreover have "mset (take m (sort_key f xs)) \<subseteq># mset xs" for m and f :: "kcontact \<Rightarrow> int" and xs :: "kcontact list"
    by (metis append_take_drop_id mset_append mset_sort mset_subset_eq_add_left)
  ultimately have "mset (kb_closest kb nid n) \<subseteq># mset (concat (kb_visit nid 0 (root kb)))"
    by (auto simp: kb_closest_def Let_def intro: subset_mset.order_trans)
  then show ?thesis by (simp add: kb_toArray_elems kb_visit_elems del: mset_concat)
qed

text \<open>
  C10. \<^verbatim>\<open>closest\<close> returns the nearest contacts, nearest first: the distances of what it
  returns are the \<open>n\<close> smallest distances of all contacts in the tree, in ascending order, and
  every contact it returns is in the tree (no more often than there), although the search
  stops at the first leaves that hold enough contacts.
\<close>

theorem kb_closest_correct:
  assumes "kb_inv len kb" "length nid = len"
  shows "map (\<lambda>c. getPeerDistance (kc_id c) nid) (kb_closest kb nid n) =
           take (case n of Some m \<Rightarrow> m | None \<Rightarrow> size_max)
             (sort (map (\<lambda>c. getPeerDistance (kc_id c) nid) (kb_toArray kb))) \<and>
         mset (kb_closest kb nid n) \<subseteq># mset (kb_toArray kb)"
  using kb_closest_distances [OF assms] kb_closest_subset [OF assms(1)] by blast

theorem kb_closest_correct_witness:
  "kb_inv 1 kb_example \<and>
   map (\<lambda>c. getPeerDistance (kc_id c) [201]) (kb_closest kb_example [201] (Some 1)) = [1]"
proof -
  have "take 1 (sort (map (\<lambda>c. getPeerDistance (kc_id c) [201]) (kb_toArray kb_example))) = [1]"
    by code_simp
  then show ?thesis
    using kb_example_inv kb_closest_correct [OF kb_example_inv, of "[201]" "Some 1"] by simp
qed

text \<open>
  \<^verbatim>\<open>get\<close> finds exactly the contacts of the tree: it returns a contact for an identifier
  if and only if that contact is stored, whatever splits have happened.
\<close>

theorem kb_get_correct:
  assumes "kb_inv len kb"
  shows "kb_get kb nid = Some c \<longleftrightarrow> c \<in> set (kb_toArray kb) \<and> kc_id c = nid"
  using kb_get_iff [OF assms] by (simp add: kb_toArray_elems)

theorem kb_get_correct_witness:
  "kb_inv 1 kb_example \<and> kb_get kb_example [5] = Some \<lparr>kc_ref = 1, kc_id = [5], kc_clock = 0\<rparr>"
proof -
  have "\<lparr>kc_ref = 1, kc_id = [5], kc_clock = 0\<rparr> \<in> set (kb_toArray kb_example)" by code_simp
  then show ?thesis using kb_example_inv kb_get_correct [OF kb_example_inv] by simp
qed

text \<open>
  \<^verbatim>\<open>remove\<close> keeps the tree invariant, removes exactly the contact with the given
  identifier and announces it, and changes nothing when there is none.
\<close>

theorem kb_remove_correct:
  assumes "kb_inv len kb" "kb_remove kb nid = (kb', evs)"
  shows "kb_inv len kb' \<and>
         mset (kb_toArray kb') = filter_mset (\<lambda>c. kc_id c \<noteq> nid) (mset (kb_toArray kb)) \<and>
         evs = (case kb_get kb nid of None \<Rightarrow> [] | Some c \<Rightarrow> [KRemoved c])"
  using kb_remove_inv [OF assms(1), of nid] kb_remove_elems [OF assms(1), of nid] assms(2)
  by (simp add: kb_toArray_elems)

theorem kb_remove_correct_witness:
  "mset (kb_toArray (fst (kb_remove kb_example [5]))) =
     filter_mset (\<lambda>c. kc_id c \<noteq> [5]) (mset (kb_toArray kb_example))"
  using kb_remove_correct [OF kb_example_inv, of "[5]" "fst (kb_remove kb_example [5])" "snd (kb_remove kb_example [5])"]
  by simp

end
