(* ===== verification/Identifiers.thy ===== *)
theory Identifiers
  imports Prelude
begin

text \<open>
  Hexadecimal conversion (\<^verbatim>\<open>BinaryUtils.cppm\<close>) and the identifiers of nodes
  (\<^verbatim>\<open>Identifiers.cppm\<close>).  The conversion itself is done by Boost
  (\<^verbatim>\<open>boost::algorithm::hex_lower\<close> and \<^verbatim>\<open>unhex\<close>), which is a parameter of the model: the
  record \<open>hex_codec\<close>, with \<open>None\<close> for the exception \<^verbatim>\<open>unhex\<close> throws on input that is not
  hexadecimal.  The locale \<open>hex_laws\<close> states what Boost documents of the two functions.
\<close>

record hex_codec =
  hex_lower :: "bytes \<Rightarrow> string"
  unhex :: "string \<Rightarrow> bytes option"

section \<open>BinaryUtils\<close>

definition binaryStringToHex :: "hex_codec \<Rightarrow> bytes \<Rightarrow> bool \<Rightarrow> string" where
  "binaryStringToHex hx binaryString addPrefix =
     (let result = hex_lower hx binaryString
      in if addPrefix then ''0x'' @ result else result)"

definition hexToBinaryString :: "hex_codec \<Rightarrow> string \<Rightarrow> cpp_error + bytes" where
  "hexToBinaryString hx hex =
     (let hexString = (if take 2 hex = ''0x'' then drop 2 hex else hex)
      in if length hexString mod 2 \<noteq> 0
         then Inl (RuntimeError (''Hex string length must be even, received: 0x'' @ hexString))
         else (case unhex hx hexString of
                 None \<Rightarrow> Inl NonHexInput
               | Some result \<Rightarrow>
                   (if length hexString \<noteq> length result * 2
                    then Inl (RuntimeError (''Hex string input is likely malformed, received: 0x'' @ hexString))
                    else Inr result)))"

section \<open>Identifiers\<close>

text \<open>The fields of the protobuf message \<^verbatim>\<open>dht.PeerDescriptor\<close> that the modelled code reads.\<close>

record ConnectivityMethod =
  cm_port :: "32 word"
  cm_host :: string
  cm_tls :: bool

record PeerDescriptor =
  nodeid :: DhtAddressRaw
  region :: "32 word"
  ipaddress :: "32 word"
  websocket :: "ConnectivityMethod option"

definition kademliaIdLengthInBytes :: nat where
  "kademliaIdLengthInBytes = 20"

definition getDhtAddressFromRaw :: "hex_codec \<Rightarrow> DhtAddressRaw \<Rightarrow> DhtAddress" where
  "getDhtAddressFromRaw hx raw = binaryStringToHex hx raw False"

definition getRawFromDhtAddress :: "hex_codec \<Rightarrow> DhtAddress \<Rightarrow> cpp_error + DhtAddressRaw" where
  "getRawFromDhtAddress hx address = hexToBinaryString hx address"

definition getNodeIdFromPeerDescriptor :: "hex_codec \<Rightarrow> PeerDescriptor \<Rightarrow> DhtAddress" where
  "getNodeIdFromPeerDescriptor hx pd = getDhtAddressFromRaw hx (nodeid pd)"

definition areEqualPeerDescriptors :: "PeerDescriptor \<Rightarrow> PeerDescriptor \<Rightarrow> bool" where
  "areEqualPeerDescriptors p1 p2 \<longleftrightarrow> nodeid p1 = nodeid p2"

text \<open>The random bytes are an argument: \<open>rand i\<close> is the value of the \<open>i\<close>-th call of \<^verbatim>\<open>std::rand\<close>.\<close>

definition createRandomDhtAddress :: "hex_codec \<Rightarrow> (nat \<Rightarrow> nat) \<Rightarrow> DhtAddress" where
  "createRandomDhtAddress hx rand =
     getDhtAddressFromRaw hx (map (\<lambda>i. of_nat (rand i mod 256)) [0..<kademliaIdLengthInBytes])"

section \<open>The contract of the codec\<close>

locale hex_laws =
  fixes hx :: hex_codec
  assumes unhex_hex: "unhex hx (hex_lower hx bs) = Some bs"
    and length_hex: "length (hex_lower hx bs) = 2 * length bs"
    and hex_digits: "set (hex_lower hx bs) \<subseteq> set ''0123456789abcdef''"
begin

lemma hex_no_prefix: "take 2 (hex_lower hx bs) \<noteq> ''0x''"
proof
  assume "take 2 (hex_lower hx bs) = ''0x''"
  then have "CHR ''x'' \<in> set (take 2 (hex_lower hx bs))" by simp
  then have "CHR ''x'' \<in> set (hex_lower hx bs)" by (rule in_set_takeD)
  then show False using hex_digits [of bs] by auto
qed

lemma dash_free: "CHR ''-'' \<notin> set (getDhtAddressFromRaw hx raw)"
  using hex_digits [of raw] by (auto simp: getDhtAddressFromRaw_def binaryStringToHex_def)

lemma hex_roundtrip: "hexToBinaryString hx (binaryStringToHex hx bs p) = Inr bs"
  using hex_no_prefix [of bs]
  by (auto simp: hexToBinaryString_def binaryStringToHex_def unhex_hex length_hex Let_def)

lemma raw_roundtrip: "getRawFromDhtAddress hx (getDhtAddressFromRaw hx raw) = Inr raw"
  by (simp add: getRawFromDhtAddress_def getDhtAddressFromRaw_def hex_roundtrip)

lemma address_inject: "getDhtAddressFromRaw hx a = getDhtAddressFromRaw hx b \<longleftrightarrow> a = b"
  by (metis raw_roundtrip sum.inject(2))

lemma node_id_iff: "getNodeIdFromPeerDescriptor hx p = getNodeIdFromPeerDescriptor hx q \<longleftrightarrow> areEqualPeerDescriptors p q"
  by (simp add: getNodeIdFromPeerDescriptor_def areEqualPeerDescriptors_def address_inject)

end

section \<open>A reference codec\<close>

text \<open>A plain implementation of the two functions, which shows that the contract can be met.\<close>

definition hex_digit :: "nat \<Rightarrow> char" where
  "hex_digit n = ''0123456789abcdef'' ! (n mod 16)"

fun unhex_digit :: "char \<Rightarrow> nat option" where
  "unhex_digit c = (case filter (\<lambda>n. hex_digit n = c) [0..<16] of [] \<Rightarrow> None | n # _ \<Rightarrow> Some n)"

fun ref_hex_lower :: "bytes \<Rightarrow> string" where
  "ref_hex_lower [] = []"
| "ref_hex_lower (b # bs) = hex_digit (unat b div 16) # hex_digit (unat b) # ref_hex_lower bs"

fun ref_unhex :: "string \<Rightarrow> bytes option" where
  "ref_unhex [] = Some []"
| "ref_unhex [c] = None"
| "ref_unhex (c # d # s) =
     (case (unhex_digit c, unhex_digit d, ref_unhex s) of
        (Some m, Some n, Some bs) \<Rightarrow> Some (of_nat (16 * m + n) # bs)
      | _ \<Rightarrow> None)"

definition ref_hex :: hex_codec where
  "ref_hex = \<lparr>hex_lower = ref_hex_lower, unhex = ref_unhex\<rparr>"

lemma hex_digit_range: "hex_digit n \<in> set ''0123456789abcdef''"
  unfolding hex_digit_def by (rule nth_mem) simp

lemma unhex_hex_digit: "unhex_digit (hex_digit n) = Some (n mod 16)"
proof -
  have "\<forall>n \<in> {0..<16}. unhex_digit (hex_digit n) = Some n" by code_simp
  moreover have "hex_digit n = hex_digit (n mod 16)" by (simp add: hex_digit_def)
  ultimately show ?thesis by simp
qed

lemma ref_unhex_hex: "ref_unhex (ref_hex_lower bs) = Some bs"
proof (induction bs)
  case (Cons b bs)
  have "unat b < 2 ^ LENGTH(8)" by (rule unsigned_less)
  then have "16 * (unat b div 16 mod 16) + unat b mod 16 = unat b" by simp
  then show ?case using Cons by (simp add: unhex_hex_digit del: unhex_digit.simps)
qed simp

interpretation ref: hex_laws ref_hex
proof unfold_locales
  fix bs
  show "unhex ref_hex (hex_lower ref_hex bs) = Some bs" by (simp add: ref_hex_def ref_unhex_hex)
  show "length (hex_lower ref_hex bs) = 2 * length bs" by (induction bs) (auto simp: ref_hex_def)
  show "set (hex_lower ref_hex bs) \<subseteq> set ''0123456789abcdef''"
    by (induction bs) (use hex_digit_range in \<open>auto simp: ref_hex_def\<close>)
qed

section \<open>Properties\<close>

text \<open>
  Converting raw bytes to a hexadecimal address and back gives the same bytes, with and
  without the \<^verbatim>\<open>0x\<close> prefix, so the conversion to a \<^verbatim>\<open>DhtAddress\<close> loses nothing and two
  descriptors have the same node id exactly when their raw ids agree.
\<close>

theorem identifiers_roundtrip:
  assumes "hex_laws hx"
  shows "hexToBinaryString hx (binaryStringToHex hx bs addPrefix) = Inr bs \<and>
         getRawFromDhtAddress hx (getDhtAddressFromRaw hx bs) = Inr bs \<and>
         (getNodeIdFromPeerDescriptor hx p = getNodeIdFromPeerDescriptor hx q \<longleftrightarrow> areEqualPeerDescriptors p q)"
  using hex_laws.hex_roundtrip [OF assms] hex_laws.raw_roundtrip [OF assms] hex_laws.node_id_iff [OF assms]
  by blast

theorem identifiers_roundtrip_witness:
  "hexToBinaryString ref_hex (binaryStringToHex ref_hex [18, 255] True) = Inr [18, 255]"
  using identifiers_roundtrip [OF ref.hex_laws_axioms, of "[18, 255]" True] by blast

end
