(* ===== verification/Contact_List.thy ===== *)
theory Contact_List
  imports Identifiers
begin

text \<open>
  The contact list base class and the random sample of contacts
  (\<^verbatim>\<open>ContactList.cppm\<close>, \<^verbatim>\<open>RandomContactList.cppm\<close>), and the interface that the contact
  containers share.  The template parameter \<^verbatim>\<open>C\<close> is a type variable, its \<^verbatim>\<open>getNodeId\<close> an
  argument.  Emitted events are part of the results; the listeners are not modelled.
\<close>

datatype 'c cl_event = ContactAdded 'c | ContactRemoved 'c

section \<open>The interface of a contact container\<close>

locale contact_container =
  fixes add :: "'s \<Rightarrow> 'c \<Rightarrow> 's"
    and remove :: "'s \<Rightarrow> DhtAddress \<Rightarrow> 's"
    and lookup :: "'s \<Rightarrow> DhtAddress \<Rightarrow> 'c option"
    and ids :: "'s \<Rightarrow> DhtAddress list"
    and key :: "'c \<Rightarrow> DhtAddress"
    and ok :: "'c \<Rightarrow> bool"
    and inv :: "'s \<Rightarrow> bool"
  assumes inv_add: "inv s \<Longrightarrow> ok c \<Longrightarrow> inv (add s c)"
    and inv_remove: "inv s \<Longrightarrow> inv (remove s i)"
    and lookup_ids: "inv s \<Longrightarrow> lookup s i \<noteq> None \<longleftrightarrow> i \<in> set (ids s)"
    and lookup_key: "inv s \<Longrightarrow> lookup s i = Some c \<Longrightarrow> key c = i"
    and lookup_add: "inv s \<Longrightarrow> ok c \<Longrightarrow> lookup (add s c) i = Some d \<Longrightarrow> lookup s i = Some d \<or> d = c"
    and lookup_remove: "inv s \<Longrightarrow> lookup (remove s i) j = (if j = i then None else lookup s j)"
    and ids_distinct: "inv s \<Longrightarrow> distinct (ids s)"
begin

text \<open>Whatever is found in the container was once put there.\<close>

lemma adds_inv: "inv s \<Longrightarrow> (\<And>c. c \<in> set cs \<Longrightarrow> ok c) \<Longrightarrow> inv (foldl add s cs)"
  by (induction cs arbitrary: s) (auto simp: inv_add)

lemma adds_found:
  "inv s \<Longrightarrow> (\<And>c. c \<in> set cs \<Longrightarrow> ok c) \<Longrightarrow> lookup (foldl add s cs) i = Some d \<Longrightarrow>
   lookup s i = Some d \<or> d \<in> set cs"
proof (induction cs arbitrary: s)
  case (Cons c cs)
  then have "lookup (add s c) i = Some d \<or> d \<in> set cs" by (auto intro: inv_add)
  then show ?case using Cons.prems lookup_add [of s c i d] by auto
qed simp

lemma removed_is_gone: "inv s \<Longrightarrow> i \<notin> set (ids (remove s i))"
  using lookup_remove [of s i i] lookup_ids [OF inv_remove, of s i i] by simp

lemma same_id_same_contact: "inv s \<Longrightarrow> lookup s i = Some c \<Longrightarrow> lookup s (key c) = Some c"
  by (simp add: lookup_key)

end

section \<open>ContactList\<close>

record 'c contact_list =
  clContactsById :: "(DhtAddress, 'c) omap"
  clContactIds :: "DhtAddress list"
  clLocalNodeId :: DhtAddress
  clMaxSize :: nat

definition cl_create :: "DhtAddress \<Rightarrow> nat \<Rightarrow> 'c contact_list" where
  "cl_create me maxSize =
     \<lparr>clContactsById = [], clContactIds = [], clLocalNodeId = me, clMaxSize = maxSize\<rparr>"

definition cl_getContact :: "'c contact_list \<Rightarrow> DhtAddress \<Rightarrow> 'c option" where
  "cl_getContact s i = om_find (clContactsById s) i"

definition cl_getSize :: "'c contact_list \<Rightarrow> nat" where
  "cl_getSize s = length (clContactIds s)"

definition cl_clear :: "'c contact_list \<Rightarrow> 'c contact_list" where
  "cl_clear s = s\<lparr>clContactsById := [], clContactIds := []\<rparr>"

section \<open>RandomContactList\<close>

text \<open>\<open>admit\<close> is the outcome of \<^verbatim>\<open>roll < randomness\<close> for this call.\<close>

definition rcl_removeContact :: "'c contact_list \<Rightarrow> DhtAddress \<Rightarrow> 'c contact_list \<times> 'c cl_event list \<times> bool" where
  "rcl_removeContact s i =
     (case om_find (clContactsById s) i of
        None \<Rightarrow> (s, [], False)
      | Some removed \<Rightarrow>
          (s\<lparr>clContactIds := remove1 i (clContactIds s),
             clContactsById := om_erase i (clContactsById s)\<rparr>,
           [ContactRemoved removed], True))"

definition rcl_addContact :: "('c \<Rightarrow> DhtAddress) \<Rightarrow> bool \<Rightarrow> 'c contact_list \<Rightarrow> 'c \<Rightarrow> 'c contact_list \<times> 'c cl_event list" where
  "rcl_addContact getNodeId admit s contact =
     (if clLocalNodeId s = getNodeId contact then (s, [])
      else if om_contains (clContactsById s) (getNodeId contact) then (s, [])
      else if admit then
        (let (s1, evs) =
               (if cl_getSize s = clMaxSize s \<and> cl_getSize s > 0
                then (case rcl_removeContact s (hd (clContactIds s)) of (s', e, _) \<Rightarrow> (s', e))
                else (s, []))
         in (s1\<lparr>clContactIds := clContactIds s1 @ [getNodeId contact],
                clContactsById := om_emplace (getNodeId contact) contact (clContactsById s1)\<rparr>,
             evs @ [ContactAdded contact]))
      else (s, []))"

text \<open>\<open>contactsById.at\<close> throws when the key is missing.\<close>

fun om_at_all :: "('k, 'v) omap \<Rightarrow> 'k list \<Rightarrow> cpp_error + 'v list" where
  "om_at_all m [] = Inr []"
| "om_at_all m (k # ks) =
     (case om_find m k of
        None \<Rightarrow> Inl OutOfRange
      | Some v \<Rightarrow> (case om_at_all m ks of Inl e \<Rightarrow> Inl e | Inr vs \<Rightarrow> Inr (v # vs)))"

definition limit_count :: "nat \<Rightarrow> int option \<Rightarrow> nat" where
  "limit_count n limit = (case limit of None \<Rightarrow> n | Some l \<Rightarrow> min n (nat (max l 0)))"

definition rcl_getContacts :: "'c contact_list \<Rightarrow> int option \<Rightarrow> cpp_error + 'c list" where
  "rcl_getContacts s limit =
     om_at_all (clContactsById s) (take (limit_count (length (clContactIds s)) limit) (clContactIds s))"

lemma om_at_all_Inr:
  "(\<And>k. k \<in> set ks \<Longrightarrow> om_find m k \<noteq> None) \<Longrightarrow> om_at_all m ks = Inr (map (\<lambda>k. the (om_find m k)) ks)"
proof (induction ks)
  case (Cons k ks)
  obtain v where "om_find m k = Some v" using Cons.prems [of k] by auto
  then show ?case using Cons by simp
qed simp

definition rcl_inv :: "('c \<Rightarrow> DhtAddress) \<Rightarrow> 'c contact_list \<Rightarrow> bool" where
  "rcl_inv getNodeId s \<longleftrightarrow>
     om_ok (clContactsById s) \<and> distinct (clContactIds s) \<and>
     set (clContactIds s) = dom (om_find (clContactsById s)) \<and>
     (\<forall>i c. om_find (clContactsById s) i = Some c \<longrightarrow> getNodeId c = i) \<and>
     clLocalNodeId s \<notin> set (clContactIds s) \<and>
     (clMaxSize s > 0 \<longrightarrow> length (clContactIds s) \<le> clMaxSize s)"

lemma rcl_inv_create: "rcl_inv f (cl_create me m)"
  by (auto simp: rcl_inv_def cl_create_def om_find_def)

lemma rcl_removeContact_state:
  "rcl_inv f s \<Longrightarrow> fst (rcl_removeContact s i) =
     s\<lparr>clContactIds := remove1 i (clContactIds s), clContactsById := om_erase i (clContactsById s)\<rparr>"
proof (cases "om_find (clContactsById s) i")
  case None
  assume inv: "rcl_inv f s"
  have "om_erase i (clContactsById s) = clContactsById s" using None by (rule om_erase_absent)
  moreover have "remove1 i (clContactIds s) = clContactIds s"
    using None inv by (intro remove1_idem) (auto simp: rcl_inv_def)
  ultimately show ?thesis using None by (simp add: rcl_removeContact_def)
qed (simp add: rcl_removeContact_def)

lemma rcl_inv_remove: "rcl_inv f s \<Longrightarrow> rcl_inv f (fst (rcl_removeContact s i))"
  by (auto simp: rcl_removeContact_state rcl_inv_def dom_om_find_erase length_remove1 split: if_splits)

lemma rcl_remove_first:
  assumes "rcl_inv f s" "clContactIds s \<noteq> []"
  shows "rcl_removeContact s (hd (clContactIds s)) =
           (fst (rcl_removeContact s (hd (clContactIds s))),
            [ContactRemoved (the (om_find (clContactsById s) (hd (clContactIds s))))], True)"
proof -
  have "hd (clContactIds s) \<in> dom (om_find (clContactsById s))"
    using assms by (metis list.set_sel(1) rcl_inv_def)
  then show ?thesis by (auto simp: rcl_removeContact_def)
qed

text \<open>The state after an admitted contact, with or without eviction of the oldest one.\<close>

definition rcl_evict :: "'c contact_list \<Rightarrow> 'c contact_list" where
  "rcl_evict s = (if cl_getSize s = clMaxSize s \<and> cl_getSize s > 0
                  then fst (rcl_removeContact s (hd (clContactIds s))) else s)"

lemma rcl_add_state:
  "fst (rcl_addContact f admit s c) =
     (if clLocalNodeId s = f c \<or> om_contains (clContactsById s) (f c) \<or> \<not> admit then s
      else (rcl_evict s)\<lparr>clContactIds := clContactIds (rcl_evict s) @ [f c],
                         clContactsById := om_emplace (f c) c (clContactsById (rcl_evict s))\<rparr>)"
  by (auto simp: rcl_addContact_def rcl_evict_def split: prod.splits)

lemma rcl_evict_props:
  assumes "rcl_inv f s"
  shows "rcl_inv f (rcl_evict s)" "clLocalNodeId (rcl_evict s) = clLocalNodeId s" "clMaxSize (rcl_evict s) = clMaxSize s"
    and "clMaxSize s > 0 \<Longrightarrow> length (clContactIds (rcl_evict s)) < clMaxSize s"
    and "set (clContactIds (rcl_evict s)) \<subseteq> set (clContactIds s)"
    and "om_find (clContactsById (rcl_evict s)) i = Some d \<Longrightarrow> om_find (clContactsById s) i = Some d"
  using assms rcl_inv_remove [OF assms] set_remove1_subset
  by (auto simp: rcl_evict_def rcl_removeContact_state [OF assms] cl_getSize_def rcl_inv_def length_remove1
        split: if_splits)

lemma rcl_inv_add: "rcl_inv f s \<Longrightarrow> rcl_inv f (fst (rcl_addContact f admit s c))"
proof -
  assume inv: "rcl_inv f s"
  note e = rcl_evict_props [OF inv]
  show ?thesis
  proof (cases "clLocalNodeId s = f c \<or> om_contains (clContactsById s) (f c) \<or> \<not> admit")
    case True
    then show ?thesis using inv by (simp add: rcl_add_state)
  next
    case False
    then have "f c \<notin> set (clContactIds s)" using inv by (auto simp: rcl_inv_def om_contains_find)
    then have new: "f c \<notin> set (clContactIds (rcl_evict s))" using e(5) by blast
    then have none: "om_find (clContactsById (rcl_evict s)) (f c) = None" using e(1) by (auto simp: rcl_inv_def)
    show ?thesis unfolding rcl_add_state if_not_P [OF False]
      using False e(1-4) new none by (auto simp: rcl_inv_def dom_def Suc_le_eq)
  qed
qed

interpretation rcl: contact_container
  "\<lambda>s c. fst (rcl_addContact f admit s c)" "\<lambda>s i. fst (rcl_removeContact s i)"
  cl_getContact clContactIds f "\<lambda>_. True" "rcl_inv f" for f admit
proof unfold_locales
  fix s i j d c
  assume inv: "rcl_inv f s"
  show "rcl_inv f (fst (rcl_removeContact s i))" using inv by (rule rcl_inv_remove)
  show "rcl_inv f (fst (rcl_addContact f admit s c))" using inv by (rule rcl_inv_add)
  show "(cl_getContact s i \<noteq> None) = (i \<in> set (clContactIds s))"
    using inv by (auto simp: rcl_inv_def cl_getContact_def)
  show "distinct (clContactIds s)" using inv by (simp add: rcl_inv_def)
  show "cl_getContact (fst (rcl_removeContact s i)) j = (if j = i then None else cl_getContact s j)"
    by (simp add: rcl_removeContact_state [OF inv] cl_getContact_def)
  show "f d = i" if "cl_getContact s i = Some d"
    using that inv by (auto simp: rcl_inv_def cl_getContact_def)
  show "cl_getContact s i = Some d \<or> d = c" if "cl_getContact (fst (rcl_addContact f admit s c)) i = Some d"
    using that rcl_evict_props(6) [OF inv, of i]
    by (auto simp: rcl_add_state cl_getContact_def split: if_splits option.splits)
qed

section \<open>Properties\<close>

text \<open>
  A contact that the random contact list admits is appended as the newest entry; if the list
  was full, exactly the oldest entry is evicted, and the removal is announced before the
  addition.  The list stays duplicate-free, within its bound and consistent with its index.
\<close>

theorem rcl_add_admitted:
  assumes "rcl_inv f s" "clLocalNodeId s \<noteq> f c" "f c \<notin> set (clContactIds s)" "clMaxSize s > 0"
  shows "case rcl_addContact f True s c of (s', evs) \<Rightarrow>
           rcl_inv f s' \<and>
           clContactIds s' = (if length (clContactIds s) = clMaxSize s then tl (clContactIds s) else clContactIds s) @ [f c] \<and>
           cl_getContact s' (f c) = Some c \<and>
           evs = (if length (clContactIds s) = clMaxSize s
                  then [ContactRemoved (the (cl_getContact s (hd (clContactIds s))))] else []) @ [ContactAdded c]"
proof -
  have new: "\<not> om_contains (clContactsById s) (f c)"
    using assms(1,3) by (auto simp: rcl_inv_def om_contains_find)
  have inv': "rcl_inv f (fst (rcl_addContact f True s c))" using assms(1) by (rule rcl_inv_add)
  show ?thesis
  proof (cases "length (clContactIds s) = clMaxSize s")
    case True
    then have ne: "clContactIds s \<noteq> []" using assms(4) by auto
    have "remove1 (hd (clContactIds s)) (clContactIds s) = tl (clContactIds s)"
      using ne by (cases "clContactIds s") auto
    then show ?thesis
      using True inv' assms new rcl_remove_first [OF assms(1) ne] rcl_removeContact_state [OF assms(1)]
      by (auto simp: rcl_addContact_def cl_getSize_def cl_getContact_def om_contains_find split: prod.splits)
  next
    case False
    then show ?thesis
      using inv' assms new by (auto simp: rcl_addContact_def cl_getSize_def cl_getContact_def om_contains_find)
  qed
qed

theorem rcl_add_admitted_witness:
  "fst (rcl_addContact (\<lambda>c. c) True (fst (rcl_addContact (\<lambda>c. c) True (cl_create ''0'' 1) ''a'')) ''b'') =
     \<lparr>clContactsById = [(''b'', ''b'')], clContactIds = [''b''], clLocalNodeId = ''0'', clMaxSize = 1\<rparr> \<and>
   clContactIds (fst (rcl_addContact (\<lambda>c. c) True (cl_create ''0'' 1) ''a'')) = [''a'']"
proof -
  have "fst (rcl_addContact (\<lambda>c. c) True (fst (rcl_addContact (\<lambda>c. c) True (cl_create ''0'' 1) ''a'')) ''b'') =
     \<lparr>clContactsById = [(''b'', ''b'')], clContactIds = [''b''], clLocalNodeId = ''0'', clMaxSize = 1\<rparr>"
    by code_simp
  moreover have "clContactIds (fst (rcl_addContact (\<lambda>c. c) True (cl_create ''0'' 1) ''a'')) = [''a'']"
    using rcl_add_admitted [OF rcl_inv_create [of "\<lambda>c. c" "''0''" 1], of "''a''"]
    by (auto simp: cl_create_def split: prod.splits)
  ultimately show ?thesis by blast
qed

end
