(* ===== verification/Sorted_Contact_List.thy ===== *)
theory Sorted_Contact_List
  imports Contact_List Peer_Distance
begin

text \<open>
  The list of contacts sorted by distance (\<^verbatim>\<open>SortedContactList.cppm\<close>) and
  \<^verbatim>\<open>getClosestNodes\<close>.  Converting an identifier can throw, after the first half of an
  insertion has already happened, so \<^verbatim>\<open>addContact\<close> returns the state, the emitted events and
  an optional error.
\<close>

section \<open>State\<close>

record SortedContactListOptions =
  referenceId :: DhtAddress
  allowToContainReferenceId :: bool
  maxSize :: "nat option"
  nodeIdDistanceLimit :: "DhtAddress option"
  excludedNodeIds :: "DhtAddress set option"

record 'c scl =
  options :: SortedContactListOptions
  referenceIdRaw :: DhtAddressRaw
  contactsById :: "(DhtAddress, 'c) omap"
  contactIds :: "DhtAddress list"

definition scl_create :: "hex_codec \<Rightarrow> SortedContactListOptions \<Rightarrow> cpp_error + 'c scl" where
  "scl_create hx opts =
     (case getRawFromDhtAddress hx (referenceId opts) of
        Inl e \<Rightarrow> Inl e
      | Inr raw \<Rightarrow> Inr \<lparr>options = opts, referenceIdRaw = raw, contactsById = [], contactIds = []\<rparr>)"

section \<open>Operations\<close>

text \<open>The raw form of an identifier that is known to be well-formed.\<close>

definition scl_raw :: "hex_codec \<Rightarrow> DhtAddress \<Rightarrow> DhtAddressRaw" where
  "scl_raw hx i = (case getRawFromDhtAddress hx i of Inr raw \<Rightarrow> raw | Inl _ \<Rightarrow> [])"

definition distanceToReferenceId :: "hex_codec \<Rightarrow> 'c scl \<Rightarrow> DhtAddress \<Rightarrow> int" where
  "distanceToReferenceId hx s i = getPeerDistance (referenceIdRaw s) (scl_raw hx i)"

definition scl_compareIds :: "hex_codec \<Rightarrow> 'c scl \<Rightarrow> DhtAddress \<Rightarrow> DhtAddress \<Rightarrow> int" where
  "scl_compareIds hx s id1 id2 = fl (distanceToReferenceId hx s id1 - distanceToReferenceId hx s id2)"

text \<open>\<^verbatim>\<open>std::lower_bound\<close>: the first position whose distance is not below the new one.\<close>

definition sortedInsertionIndex :: "hex_codec \<Rightarrow> 'c scl \<Rightarrow> DhtAddress \<Rightarrow> nat" where
  "sortedInsertionIndex hx s i =
     length (takeWhile (\<lambda>existing. distanceToReferenceId hx s existing < distanceToReferenceId hx s i)
               (contactIds s))"

definition scl_insert :: "hex_codec \<Rightarrow> 'c scl \<Rightarrow> DhtAddress \<Rightarrow> DhtAddress list" where
  "scl_insert hx s i =
     take (sortedInsertionIndex hx s i) (contactIds s) @ i # drop (sortedInsertionIndex hx s i) (contactIds s)"

text \<open>
  The two insertions of \<^verbatim>\<open>addContact\<close>: \<open>scl_add_room\<close> when there is room, \<open>scl_add_full\<close>
  when the list is at its bound \<open>m\<close>.  \<open>bad\<close> is the error that converting the new
  identifier throws, if any; the first insertion throws it after the map has been extended.
\<close>

definition scl_add_room ::
  "hex_codec \<Rightarrow> 'c scl \<Rightarrow> DhtAddress \<Rightarrow> 'c \<Rightarrow> cpp_error option \<Rightarrow> 'c scl \<times> 'c cl_event list \<times> cpp_error option" where
  "scl_add_room hx s contactId contact bad =
     (let s1 = s\<lparr>contactsById := om_emplace contactId contact (contactsById s)\<rparr>
      in if bad \<noteq> None then (s1, [], bad)
         else (s1\<lparr>contactIds := scl_insert hx s1 contactId\<rparr>, [ContactAdded contact], None))"

definition scl_add_full ::
  "hex_codec \<Rightarrow> 'c scl \<Rightarrow> DhtAddress \<Rightarrow> 'c \<Rightarrow> cpp_error option \<Rightarrow> nat \<Rightarrow> 'c scl \<times> 'c cl_event list \<times> cpp_error option" where
  "scl_add_full hx s contactId contact bad m =
     (if m = 0 then (s, [], Some UndefinedBehaviour)
      else if bad \<noteq> None then (s, [], bad)
      else if scl_compareIds hx s (contactIds s ! (m - 1)) contactId > 0
      then (let removedId = last (contactIds s);
                s1 = s\<lparr>contactIds := butlast (contactIds s)\<rparr>
            in case om_find (contactsById s1) removedId of
                 None \<Rightarrow> (s1, [], Some OutOfRange)
               | Some removedContact \<Rightarrow>
                   (let s2 = s1\<lparr>contactsById := om_emplace contactId contact
                                  (om_erase removedId (contactsById s1))\<rparr>
                    in (s2\<lparr>contactIds := scl_insert hx s2 contactId\<rparr>,
                        [ContactRemoved removedContact, ContactAdded contact], None)))
      else (s, [], None))"

text \<open>
  The body of \<^verbatim>\<open>addContact\<close>: the guards in their order (a conversion that throws inside
  \<^verbatim>\<open>compareIds\<close> ends the call), then one of the two insertions.
\<close>

definition scl_addContact ::
  "hex_codec \<Rightarrow> ('c \<Rightarrow> DhtAddress) \<Rightarrow> 'c scl \<Rightarrow> 'c \<Rightarrow> 'c scl \<times> 'c cl_event list \<times> cpp_error option" where
  "scl_addContact hx getNodeId s contact =
     (let contactId = getNodeId contact;
          bad = (case getRawFromDhtAddress hx contactId of Inl e \<Rightarrow> Some e | Inr _ \<Rightarrow> None);
          badLimit = (case nodeIdDistanceLimit (options s) of
                        None \<Rightarrow> None
                      | Some l \<Rightarrow> (case getRawFromDhtAddress hx l of Inl e \<Rightarrow> Some e | Inr _ \<Rightarrow> bad))
      in if (case excludedNodeIds (options s) of None \<Rightarrow> False | Some ex \<Rightarrow> contactId \<in> ex) then (s, [], None)
         else if \<not> allowToContainReferenceId (options s) \<and> referenceId (options s) = contactId then (s, [], None)
         else if badLimit \<noteq> None then (s, [], badLimit)
         else if (case nodeIdDistanceLimit (options s) of
                    None \<Rightarrow> False | Some l \<Rightarrow> scl_compareIds hx s l contactId < 0) then (s, [], None)
         else if om_contains (contactsById s) contactId then (s, [], None)
         else (case maxSize (options s) of
                 None \<Rightarrow> scl_add_room hx s contactId contact bad
               | Some m \<Rightarrow>
                   (if length (contactIds s) < m then scl_add_room hx s contactId contact bad
                    else scl_add_full hx s contactId contact bad m)))"

fun scl_addContacts ::
  "hex_codec \<Rightarrow> ('c \<Rightarrow> DhtAddress) \<Rightarrow> 'c scl \<Rightarrow> 'c list \<Rightarrow> 'c scl \<times> 'c cl_event list \<times> cpp_error option" where
  "scl_addContacts hx getNodeId s [] = (s, [], None)"
| "scl_addContacts hx getNodeId s (c # cs) =
     (case scl_addContact hx getNodeId s c of
        (s1, evs, Some e) \<Rightarrow> (s1, evs, Some e)
      | (s1, evs, None) \<Rightarrow>
          (case scl_addContacts hx getNodeId s1 cs of (s2, evs2, err) \<Rightarrow> (s2, evs @ evs2, err)))"

definition getClosestContactId :: "'c scl \<Rightarrow> cpp_error + DhtAddress" where
  "getClosestContactId s = (case contactIds s of [] \<Rightarrow> Inl UndefinedBehaviour | i # _ \<Rightarrow> Inr i)"

definition scl_getContact :: "'c scl \<Rightarrow> DhtAddress \<Rightarrow> 'c option" where
  "scl_getContact s i = om_find (contactsById s) i"

definition scl_has :: "'c scl \<Rightarrow> DhtAddress \<Rightarrow> bool" where
  "scl_has s i = om_contains (contactsById s) i"

definition getClosestContacts :: "'c scl \<Rightarrow> int option \<Rightarrow> cpp_error + 'c list" where
  "getClosestContacts s limit =
     om_at_all (contactsById s) (take (limit_count (length (contactIds s)) limit) (contactIds s))"

definition getFurthestContacts :: "'c scl \<Rightarrow> int option \<Rightarrow> cpp_error + 'c list" where
  "getFurthestContacts s limit =
     (case getClosestContacts s None of
        Inl e \<Rightarrow> Inl e
      | Inr cs \<Rightarrow>
          (let reversed = rev cs
           in case limit of
                None \<Rightarrow> Inr reversed
              | Some _ \<Rightarrow> Inr (take (limit_count (length reversed) limit) reversed)))"

definition scl_removeContact :: "'c scl \<Rightarrow> DhtAddress \<Rightarrow> 'c scl \<times> 'c cl_event list \<times> bool" where
  "scl_removeContact s i =
     (case om_find (contactsById s) i of
        None \<Rightarrow> (s, [], False)
      | Some removed \<Rightarrow>
          (s\<lparr>contactIds := remove1 i (contactIds s), contactsById := om_erase i (contactsById s)\<rparr>,
           [ContactRemoved removed], True))"

definition getAllContactsInUndefinedOrder :: "'c scl \<Rightarrow> 'c list" where
  "getAllContactsInUndefinedOrder s = om_values (contactsById s)"

text \<open>The subtraction is on \<^verbatim>\<open>size_t\<close> and wraps around.\<close>

definition scl_getSize :: "'c scl \<Rightarrow> DhtAddress list option \<Rightarrow> nat" where
  "scl_getSize s excluded =
     (let excludedCount = (case excluded of None \<Rightarrow> 0 | Some ex \<Rightarrow> length (filter (scl_has s) ex))
      in nat ((int (length (contactIds s)) - int excludedCount) mod 2 ^ 64))"

definition scl_clear :: "'c scl \<Rightarrow> 'c scl" where
  "scl_clear s = s\<lparr>contactsById := [], contactIds := []\<rparr>"

section \<open>getClosestNodes\<close>

definition getClosestNodes ::
  "hex_codec \<Rightarrow> DhtAddress \<Rightarrow> PeerDescriptor list \<Rightarrow> nat option \<Rightarrow> DhtAddress set option \<Rightarrow> cpp_error + PeerDescriptor list" where
  "getClosestNodes hx reference contacts maxCount excluded =
     (case scl_create hx \<lparr>referenceId = reference, allowToContainReferenceId = True, maxSize = maxCount,
                          nodeIdDistanceLimit = None, excludedNodeIds = excluded\<rparr> of
        Inl e \<Rightarrow> Inl e
      | Inr list \<Rightarrow>
          (case scl_addContacts hx (getNodeIdFromPeerDescriptor hx) list contacts of
             (_, _, Some e) \<Rightarrow> Inl e
           | (list', _, None) \<Rightarrow> getClosestContacts list' None))"

section \<open>The invariant\<close>

definition scl_ok :: "hex_codec \<Rightarrow> ('c \<Rightarrow> DhtAddress) \<Rightarrow> 'c \<Rightarrow> bool" where
  "scl_ok hx getNodeId c \<longleftrightarrow> (\<exists>raw. getRawFromDhtAddress hx (getNodeId c) = Inr raw)"

text \<open>The list itself is well-configured: the limit is an address, and the bound is not 0.\<close>

definition scl_options_ok :: "hex_codec \<Rightarrow> SortedContactListOptions \<Rightarrow> bool" where
  "scl_options_ok hx opts \<longleftrightarrow>
     maxSize opts \<noteq> Some 0 \<and>
     (case nodeIdDistanceLimit opts of None \<Rightarrow> True | Some l \<Rightarrow> \<exists>raw. getRawFromDhtAddress hx l = Inr raw)"

definition scl_rejects :: "hex_codec \<Rightarrow> 'c scl \<Rightarrow> DhtAddress \<Rightarrow> bool" where
  "scl_rejects hx s contactId \<longleftrightarrow>
     (case excludedNodeIds (options s) of None \<Rightarrow> False | Some ex \<Rightarrow> contactId \<in> ex) \<or>
     (\<not> allowToContainReferenceId (options s) \<and> referenceId (options s) = contactId) \<or>
     (case nodeIdDistanceLimit (options s) of
        None \<Rightarrow> False
      | Some l \<Rightarrow> distanceToReferenceId hx s l < distanceToReferenceId hx s contactId)"

definition scl_full :: "'c scl \<Rightarrow> bool" where
  "scl_full s \<longleftrightarrow> (case maxSize (options s) of None \<Rightarrow> False | Some m \<Rightarrow> m \<le> length (contactIds s))"

definition scl_inv :: "hex_codec \<Rightarrow> ('c \<Rightarrow> DhtAddress) \<Rightarrow> 'c scl \<Rightarrow> bool" where
  "scl_inv hx getNodeId s \<longleftrightarrow>
     scl_options_ok hx (options s) \<and>
     om_ok (contactsById s) \<and> distinct (contactIds s) \<and>
     set (contactIds s) = dom (om_find (contactsById s)) \<and>
     (\<forall>i c. om_find (contactsById s) i = Some c \<longrightarrow> getNodeId c = i \<and> \<not> scl_rejects hx s i) \<and>
     sorted (map (distanceToReferenceId hx s) (contactIds s)) \<and>
     (case maxSize (options s) of None \<Rightarrow> True | Some m \<Rightarrow> length (contactIds s) \<le> m)"

lemma scl_dist_cong: "referenceIdRaw s = referenceIdRaw t \<Longrightarrow> distanceToReferenceId hx s = distanceToReferenceId hx t"
  by (simp add: distanceToReferenceId_def fun_eq_iff)

lemma scl_insert_insort: "scl_insert hx s i = insort_key (distanceToReferenceId hx s) i (contactIds s)"
proof -
  have "take (length (takeWhile (\<lambda>e. f e < f i) xs)) xs @ i # drop (length (takeWhile (\<lambda>e. f e < f i) xs)) xs
      = insort_key f i xs" for f :: "DhtAddress \<Rightarrow> int" and xs
    by (induction xs) auto
  then show ?thesis by (simp add: scl_insert_def sortedInsertionIndex_def)
qed

lemma scl_add_room_eq:
  "\<not> om_contains (contactsById s) i \<Longrightarrow>
   scl_add_room hx s i c None =
     (s\<lparr>contactsById := om_put i c (contactsById s),
        contactIds := insort_key (distanceToReferenceId hx s) i (contactIds s)\<rparr>, [ContactAdded c], None)"
  by (simp add: scl_add_room_def scl_insert_insort om_emplace_def Let_def
      scl_dist_cong [of "s\<lparr>contactsById := _\<rparr>" s])

lemma scl_add_full_eq:
  assumes inv: "scl_inv hx f s" and m: "maxSize (options s) = Some m" "\<not> length (contactIds s) < m"
    and new: "\<not> om_contains (contactsById s) i"
  shows "scl_add_full hx s i c None m =
    (if distanceToReferenceId hx s i < distanceToReferenceId hx s (last (contactIds s))
     then (s\<lparr>contactsById := om_put i c (om_erase (last (contactIds s)) (contactsById s)),
             contactIds := insort_key (distanceToReferenceId hx s) i (butlast (contactIds s))\<rparr>,
           [ContactRemoved (the (om_find (contactsById s) (last (contactIds s)))), ContactAdded c], None)
     else (s, [], None))"
proof -
  have m0: "m > 0" using inv m(1) by (auto simp: scl_inv_def scl_options_ok_def)
  have len: "length (contactIds s) = m" using inv m by (simp add: scl_inv_def)
  then have ne: "contactIds s \<noteq> []" and last: "contactIds s ! (m - 1) = last (contactIds s)"
    using m0 by (auto simp: last_conv_nth)
  obtain r where r: "om_find (contactsById s) (last (contactIds s)) = Some r"
    using inv last_in_set [OF ne] by (auto simp: scl_inv_def)
  have "\<not> om_contains (om_erase (last (contactIds s)) (contactsById s)) i"
    using new by (simp add: om_contains_find)
  then show ?thesis
    using m0 last r by (simp add: scl_add_full_def scl_compareIds_def scl_insert_insort om_emplace_def Let_def
        scl_dist_cong [of "s\<lparr>contactIds := _, contactsById := _\<rparr>" s])
qed

text \<open>What \<^verbatim>\<open>addContact\<close> does to a well-formed contact, in one equation.\<close>

lemma scl_addContact_eq:
  assumes inv: "scl_inv hx f s" and ok: "scl_ok hx f c"
  shows "scl_addContact hx f s c =
    (if scl_rejects hx s (f c) \<or> om_contains (contactsById s) (f c) then (s, [], None)
     else if \<not> scl_full s
     then (s\<lparr>contactsById := om_put (f c) c (contactsById s),
             contactIds := insort_key (distanceToReferenceId hx s) (f c) (contactIds s)\<rparr>, [ContactAdded c], None)
     else if distanceToReferenceId hx s (f c) < distanceToReferenceId hx s (last (contactIds s))
     then (s\<lparr>contactsById := om_put (f c) c (om_erase (last (contactIds s)) (contactsById s)),
             contactIds := insort_key (distanceToReferenceId hx s) (f c) (butlast (contactIds s))\<rparr>,
           [ContactRemoved (the (om_find (contactsById s) (last (contactIds s)))), ContactAdded c], None)
     else (s, [], None))"
proof -
  obtain raw where raw: "getRawFromDhtAddress hx (f c) = Inr raw" using ok by (auto simp: scl_ok_def)
  have opts: "scl_options_ok hx (options s)" using inv by (simp add: scl_inv_def)
  show ?thesis
  proof (cases "scl_rejects hx s (f c) \<or> om_contains (contactsById s) (f c)")
    case True
    then show ?thesis using raw opts
      by (auto simp: scl_addContact_def scl_rejects_def scl_compareIds_def scl_options_ok_def Let_def split: option.splits)
  next
    case False
    then have new: "\<not> om_contains (contactsById s) (f c)" by simp
    have "scl_addContact hx f s c =
        (case maxSize (options s) of
           None \<Rightarrow> scl_add_room hx s (f c) c None
         | Some m \<Rightarrow> (if length (contactIds s) < m then scl_add_room hx s (f c) c None
                     else scl_add_full hx s (f c) c None m))"
      using False raw opts
      by (auto simp: scl_addContact_def scl_rejects_def scl_compareIds_def scl_options_ok_def Let_def split: option.splits)
    then show ?thesis using False new scl_add_full_eq [OF inv _ _ new]
      by (simp add: scl_add_room_eq scl_full_def split: option.splits)
  qed
qed


lemmas scl_frame = scl_dist_cong [of "s\<lparr>contactsById := m, contactIds := xs\<rparr>" s for s m xs, simplified]

lemma scl_rejects_frame [simp]:
  "scl_rejects hx (s\<lparr>contactsById := m, contactIds := xs\<rparr>) i = scl_rejects hx s i"
  by (simp add: scl_rejects_def scl_frame split: option.splits)

lemma scl_inv_create: "scl_create hx opts = Inr s \<Longrightarrow> scl_options_ok hx opts \<Longrightarrow> scl_inv hx f s"
  by (auto simp: scl_create_def scl_inv_def om_find_def split: sum.splits option.splits)

lemma scl_no_error: "scl_inv hx f s \<Longrightarrow> scl_ok hx f c \<Longrightarrow> snd (snd (scl_addContact hx f s c)) = None"
  by (simp add: scl_addContact_eq)

lemma scl_addContact_options:
  "scl_inv hx f s \<Longrightarrow> scl_ok hx f c \<Longrightarrow>
     options (fst (scl_addContact hx f s c)) = options s \<and> referenceIdRaw (fst (scl_addContact hx f s c)) = referenceIdRaw s"
  by (simp add: scl_addContact_eq)

lemma scl_full_length:
  "scl_inv hx f s \<Longrightarrow> scl_full s \<Longrightarrow> contactIds s \<noteq> [] \<and> maxSize (options s) = Some (length (contactIds s))"
  by (auto simp: scl_inv_def scl_full_def scl_options_ok_def split: option.splits)

lemma scl_inv_insert:
  assumes inv: "scl_inv hx f s" and new: "\<not> om_contains (contactsById s) (f c)" "\<not> scl_rejects hx s (f c)"
    and room: "\<not> scl_full s"
  shows "scl_inv hx f (s\<lparr>contactsById := om_put (f c) c (contactsById s),
                          contactIds := insort_key (distanceToReferenceId hx s) (f c) (contactIds s)\<rparr>)"
proof -
  have "f c \<notin> set (contactIds s)" using inv new(1) by (auto simp: scl_inv_def om_contains_find)
  moreover have "dom (om_find (om_put (f c) c (contactsById s))) = insert (f c) (dom (om_find (contactsById s)))"
    by (auto simp: dom_def)
  ultimately show ?thesis using inv new room
    by (auto simp: scl_inv_def scl_frame scl_full_def set_insort_key distinct_insort sorted_insort_key split: option.splits)
qed

lemma scl_inv_shrink:
  assumes inv: "scl_inv hx f s" and ne: "contactIds s \<noteq> []"
  shows "scl_inv hx f (s\<lparr>contactsById := om_erase (last (contactIds s)) (contactsById s),
                          contactIds := butlast (contactIds s)\<rparr>)"
proof -
  have "set (butlast (contactIds s)) = set (contactIds s) - {last (contactIds s)}"
    using inv ne by (metis Diff_insert_absorb append_butlast_last_id distinct_butlast_last list.simps(15)
        rotate1.simps(2) scl_inv_def set_rotate1 empty_set append_Nil)
  moreover have "sorted (map (distanceToReferenceId hx s) (butlast (contactIds s)))"
    using inv by (simp add: scl_inv_def map_butlast sorted_butlast)
  ultimately show ?thesis using inv
    by (auto simp: scl_inv_def scl_frame dom_om_find_erase distinct_butlast split: option.splits if_splits)
qed

lemma scl_inv_add: "scl_inv hx f s \<Longrightarrow> scl_ok hx f c \<Longrightarrow> scl_inv hx f (fst (scl_addContact hx f s c))"
proof -
  assume inv: "scl_inv hx f s" and ok: "scl_ok hx f c"
  let ?l = "last (contactIds s)"
  let ?s1 = "s\<lparr>contactsById := om_erase ?l (contactsById s), contactIds := butlast (contactIds s)\<rparr>"
  show ?thesis
  proof (cases "scl_full s \<and> \<not> scl_rejects hx s (f c) \<and> \<not> om_contains (contactsById s) (f c)")
    case True
    then have full: "contactIds s \<noteq> []" "maxSize (options s) = Some (length (contactIds s))"
      using scl_full_length [OF inv] by auto
    have "\<not> scl_full ?s1" using full by (cases "contactIds s") (auto simp: scl_full_def)
    then have "scl_inv hx f (?s1\<lparr>contactsById := om_put (f c) c (contactsById ?s1),
        contactIds := insort_key (distanceToReferenceId hx ?s1) (f c) (contactIds ?s1)\<rparr>)"
      using True scl_inv_shrink [OF inv full(1)] by (intro scl_inv_insert) (auto simp: om_contains_find)
    then show ?thesis using True inv ok by (simp add: scl_addContact_eq scl_frame)
  next
    case False
    then show ?thesis using inv ok scl_inv_insert [OF inv] by (auto simp: scl_addContact_eq)
  qed
qed

lemma scl_removeContact_state:
  "scl_inv hx f s \<Longrightarrow> fst (scl_removeContact s i) =
     s\<lparr>contactsById := om_erase i (contactsById s), contactIds := remove1 i (contactIds s)\<rparr>"
  by (cases "om_find (contactsById s) i")
    (auto simp: scl_removeContact_def om_erase_absent scl_inv_def remove1_idem domIff)

lemma scl_inv_remove: "scl_inv hx f s \<Longrightarrow> scl_inv hx f (fst (scl_removeContact s i))"
  by (auto simp: scl_removeContact_state scl_inv_def scl_frame dom_om_find_erase length_remove1 sorted_map_remove1
      split: option.splits if_splits)

interpretation scl: contact_container
  "\<lambda>s c. fst (scl_addContact hx f s c)" "\<lambda>s i. fst (scl_removeContact s i)"
  scl_getContact contactIds f "scl_ok hx f" "scl_inv hx f" for hx f
proof unfold_locales
  fix s i j d c
  assume inv: "scl_inv hx f s"
  show "scl_inv hx f (fst (scl_addContact hx f s c))" if "scl_ok hx f c" using inv that by (rule scl_inv_add)
  show "scl_inv hx f (fst (scl_removeContact s i))" using inv by (rule scl_inv_remove)
  show "(scl_getContact s i \<noteq> None) = (i \<in> set (contactIds s))"
    using inv by (auto simp: scl_inv_def scl_getContact_def)
  show "distinct (contactIds s)" using inv by (simp add: scl_inv_def)
  show "f d = i" if "scl_getContact s i = Some d"
    using that inv by (auto simp: scl_inv_def scl_getContact_def)
  show "scl_getContact (fst (scl_removeContact s i)) j = (if j = i then None else scl_getContact s j)"
    by (simp add: scl_removeContact_state [OF inv] scl_getContact_def)
  show "scl_getContact s i = Some d \<or> d = c"
    if "scl_ok hx f c" "scl_getContact (fst (scl_addContact hx f s c)) i = Some d"
    using that by (auto simp: scl_addContact_eq [OF inv] scl_getContact_def split: if_splits)
qed

section \<open>The closest of all contacts offered\<close>

text \<open>
  \<open>scl_best s E\<close>: of the identifiers \<open>E\<close> that were offered and not rejected, the list holds
  all, or as many as its bound allows and then none of the others is closer.
\<close>

definition scl_best :: "hex_codec \<Rightarrow> 'c scl \<Rightarrow> DhtAddress set \<Rightarrow> bool" where
  "scl_best hx s E \<longleftrightarrow>
     set (contactIds s) \<subseteq> E \<and>
     (set (contactIds s) = E \<or> maxSize (options s) = Some (length (contactIds s))) \<and>
     (\<forall>y \<in> E - set (contactIds s). \<forall>z \<in> set (contactIds s).
        distanceToReferenceId hx s z \<le> distanceToReferenceId hx s y)"

lemma scl_last_furthest:
  assumes "scl_inv hx f s" "z \<in> set (contactIds s)"
  shows "distanceToReferenceId hx s z \<le> distanceToReferenceId hx s (last (contactIds s))"
proof (cases "z = last (contactIds s)")
  case False
  have ne: "contactIds s \<noteq> []" using assms(2) by auto
  have "z \<in> set (butlast (contactIds s))"
    using assms(2) False by (cases "contactIds s" rule: rev_cases) auto
  moreover have "sorted_wrt (\<lambda>x y. distanceToReferenceId hx s x \<le> distanceToReferenceId hx s y) (contactIds s)"
    using assms(1) by (simp add: scl_inv_def sorted_wrt_map)
  ultimately show ?thesis using last_greatest [of _ "contactIds s" z] by simp
qed simp

lemma scl_best_full:
  assumes inv: "scl_inv hx f s" and best: "scl_best hx s E" and full: "scl_full s"
    and new: "i \<notin> set (contactIds s)" "distanceToReferenceId hx s i < distanceToReferenceId hx s (last (contactIds s))"
  shows "scl_best hx (s\<lparr>contactsById := m, contactIds := insort_key (distanceToReferenceId hx s) i (butlast (contactIds s))\<rparr>)
           (insert i E)"
proof -
  let ?d = "distanceToReferenceId hx s" and ?l = "last (contactIds s)"
  have ne: "contactIds s \<noteq> []" and max: "maxSize (options s) = Some (length (contactIds s))"
    using scl_full_length [OF inv full] by auto
  have ids: "set (contactIds s) = insert ?l (set (butlast (contactIds s)))"
    using ne by (metis append_butlast_last_id rotate1.simps(2) set_rotate1 list.simps(15))
  have lE: "?l \<in> E" using best ne by (auto simp: scl_best_def)
  have bound: "?d z \<le> ?d ?l" if "z \<in> insert i (set (butlast (contactIds s)))" for z
    using that new(2) scl_last_furthest [OF inv, of z] by (auto dest: in_set_butlastD)
  have far: "?d ?l \<le> ?d y" if "y \<in> E" "y \<notin> set (butlast (contactIds s))" for y
    using that best ids by (cases "y = ?l") (auto simp: scl_best_def)
  have "?d z \<le> ?d y" if "y \<in> E" "y \<notin> set (butlast (contactIds s))" "z \<in> insert i (set (butlast (contactIds s)))" for y z
    using bound [OF that(3)] far [OF that(1,2)] by simp
  then show ?thesis using best ne max lE ids
    by (auto simp: scl_best_def scl_frame set_insort_key)
qed

lemma scl_best_add:
  assumes inv: "scl_inv hx f s" and ok: "scl_ok hx f c" and best: "scl_best hx s E"
  shows "scl_best hx (fst (scl_addContact hx f s c)) (if scl_rejects hx s (f c) then E else insert (f c) E)"
proof -
  have mem: "om_contains (contactsById s) (f c) \<longleftrightarrow> f c \<in> set (contactIds s)"
    using inv by (auto simp: scl_inv_def om_contains_find)
  consider (same) "scl_rejects hx s (f c) \<or> om_contains (contactsById s) (f c)"
    | (room) "\<not> scl_rejects hx s (f c)" "\<not> om_contains (contactsById s) (f c)" "\<not> scl_full s"
    | (full) "\<not> scl_rejects hx s (f c)" "\<not> om_contains (contactsById s) (f c)" "scl_full s" by blast
  then show ?thesis
  proof cases
    case same
    then show ?thesis using best mem by (auto simp: scl_addContact_eq [OF inv ok] scl_best_def insert_absorb)
  next
    case room
    then have "set (contactIds s) = E" using best by (auto simp: scl_best_def scl_full_def)
    then show ?thesis using room by (simp add: scl_addContact_eq [OF inv ok] scl_best_def scl_frame set_insort_key)
  next
    case full
    show ?thesis
    proof (cases "distanceToReferenceId hx s (f c) < distanceToReferenceId hx s (last (contactIds s))")
      case True
      then show ?thesis using full mem scl_best_full [OF inv best full(3) _ True]
        by (simp add: scl_addContact_eq [OF inv ok])
    next
      case False
      then have "distanceToReferenceId hx s z \<le> distanceToReferenceId hx s (f c)" if "z \<in> set (contactIds s)" for z
        using scl_last_furthest [OF inv that] by simp
      then show ?thesis using False full best scl_full_length [OF inv full(3)]
        by (auto simp: scl_addContact_eq [OF inv ok] scl_best_def)
    qed
  qed
qed

lemma scl_rejects_cong:
  assumes "options s = options t" "referenceIdRaw s = referenceIdRaw t"
  shows "scl_rejects hx s = scl_rejects hx t"
proof -
  have "distanceToReferenceId hx s = distanceToReferenceId hx t" using assms(2) by (rule scl_dist_cong)
  then show ?thesis by (auto simp: scl_rejects_def fun_eq_iff assms(1) split: option.splits)
qed

lemma scl_adds_best:
  assumes "scl_inv hx f s" "\<And>c. c \<in> set cs \<Longrightarrow> scl_ok hx f c" "scl_best hx s E"
  shows "\<exists>s' evs. scl_addContacts hx f s cs = (s', evs, None) \<and> scl_inv hx f s' \<and>
           options s' = options s \<and> referenceIdRaw s' = referenceIdRaw s \<and>
           scl_best hx s' (E \<union> {i \<in> f ` set cs. \<not> scl_rejects hx s i}) \<and>
           (\<forall>i d. scl_getContact s' i = Some d \<longrightarrow> scl_getContact s i = Some d \<or> d \<in> set cs)"
  using assms
proof (induction cs arbitrary: s E)
  case (Cons c cs)
  have ok: "scl_ok hx f c" using Cons.prems(2) by simp
  obtain s1 evs where add: "scl_addContact hx f s c = (s1, evs, None)"
    using scl_no_error [OF Cons.prems(1) ok] by (metis prod.collapse)
  have s1: "s1 = fst (scl_addContact hx f s c)" using add by simp
  have inv1: "scl_inv hx f s1" unfolding s1 using Cons.prems(1) ok by (rule scl_inv_add)
  have opt: "options s1 = options s" "referenceIdRaw s1 = referenceIdRaw s"
    unfolding s1 using scl_addContact_options [OF Cons.prems(1) ok] by auto
  let ?E1 = "if scl_rejects hx s (f c) then E else insert (f c) E"
  have "scl_best hx s1 ?E1" unfolding s1 using Cons.prems(1) ok Cons.prems(3) by (rule scl_best_add)
  then obtain s' evs' where IH: "scl_addContacts hx f s1 cs = (s', evs', None)" "scl_inv hx f s'"
    "options s' = options s1" "referenceIdRaw s' = referenceIdRaw s1"
    "scl_best hx s' (?E1 \<union> {i \<in> f ` set cs. \<not> scl_rejects hx s1 i})"
    "\<And>i d. scl_getContact s' i = Some d \<Longrightarrow> scl_getContact s1 i = Some d \<or> d \<in> set cs"
    using Cons.IH [OF inv1, of ?E1] Cons.prems(2) by auto
  have E: "?E1 \<union> {i \<in> f ` set cs. \<not> scl_rejects hx s1 i} = E \<union> {i \<in> f ` set (c # cs). \<not> scl_rejects hx s i}"
    using scl_rejects_cong [OF opt] by auto
  have "scl_getContact s i = Some d \<or> d = c" if "scl_getContact s1 i = Some d" for i d
    using that scl.lookup_add [OF Cons.prems(1) ok] unfolding s1 by blast
  then have src: "\<forall>i d. scl_getContact s' i = Some d \<longrightarrow> scl_getContact s i = Some d \<or> d \<in> set (c # cs)"
    using IH(6) by fastforce
  have run: "scl_addContacts hx f s (c # cs) = (s', evs @ evs', None)" using add IH(1) by simp
  show ?case using run IH(2-5) src unfolding E opt by blast
qed auto

lemma scl_closest_contacts:
  assumes "scl_inv hx f s"
  shows "getClosestContacts s limit =
           Inr (map (\<lambda>i. the (scl_getContact s i)) (take (limit_count (length (contactIds s)) limit) (contactIds s)))"
  unfolding getClosestContacts_def scl_getContact_def
  using assms by (intro om_at_all_Inr) (auto simp: scl_inv_def dest!: in_set_takeD)

text \<open>The list of contacts the identifiers stand for, and the identifiers back from it.\<close>

lemma scl_contacts_ids:
  assumes "scl_inv hx f s"
  shows "map f (map (\<lambda>i. the (scl_getContact s i)) (contactIds s)) = contactIds s"
proof -
  have "f (the (scl_getContact s i)) = i" if "i \<in> set (contactIds s)" for i
    using that assms by (auto simp: scl_inv_def scl_getContact_def)
  then show ?thesis by (simp add: map_idI)
qed

lemma scl_best_empty: "contactIds s = [] \<Longrightarrow> scl_best hx s {}"
  by (simp add: scl_best_def)

text \<open>What the client of a list sees of it: the contacts it returns, in order.\<close>

lemma scl_best_contacts:
  assumes inv: "scl_inv hx f s" and best: "scl_best hx s (f ` E)"
    and raw: "\<And>c. distanceToReferenceId hx s (f c) = dist c"
    and src: "\<And>i d. scl_getContact s i = Some d \<Longrightarrow> d \<in> U"
    and E: "E = {c \<in> U. \<not> P (f c)}"
  shows "\<exists>res. getClosestContacts s None = Inr res \<and> map f res = contactIds s \<and>
           set res \<subseteq> E \<and> sorted (map dist res) \<and> distinct (map f res) \<and>
           (f ` set res = f ` E \<or> maxSize (options s) = Some (length res)) \<and>
           (\<forall>m. maxSize (options s) = Some m \<longrightarrow> length res \<le> m) \<and>
           (\<forall>p \<in> E. f p \<notin> f ` set res \<longrightarrow> (\<forall>r \<in> set res. dist r \<le> dist p))"
proof -
  define res where "res = map (\<lambda>i. the (scl_getContact s i)) (contactIds s)"
  have run: "getClosestContacts s None = Inr res"
    using scl_closest_contacts [OF inv, of None] by (simp add: res_def limit_count_def)
  have ids: "map f res = contactIds s" unfolding res_def by (rule scl_contacts_ids [OF inv])
  have idset: "f ` set res = set (contactIds s)" unfolding ids [symmetric] by simp
  have len: "length res = length (contactIds s)" by (simp add: res_def)
  have "map dist res = map (distanceToReferenceId hx s) (contactIds s)"
    unfolding ids [symmetric] by (simp add: raw)
  then have sorted: "sorted (map dist res)" using inv by (simp add: scl_inv_def)
  have sub: "set res \<subseteq> E"
  proof
    fix r assume r: "r \<in> set res"
    then obtain i where "i \<in> set (contactIds s)" "r = the (scl_getContact s i)" by (auto simp: res_def)
    then have "r \<in> U" using inv src by (force simp: scl_inv_def scl_getContact_def)
    moreover have "f r \<in> f ` E" using r best idset by (auto simp: scl_best_def)
    ultimately show "r \<in> E" unfolding E by auto
  qed
  have far: "\<forall>p \<in> E. f p \<notin> f ` set res \<longrightarrow> (\<forall>r \<in> set res. dist r \<le> dist p)"
    using best unfolding scl_best_def idset [symmetric] raw [symmetric] by blast
  have size: "f ` set res = f ` E \<or> maxSize (options s) = Some (length res)"
    using best idset len by (auto simp: scl_best_def)
  have "distinct (map f res)" "\<forall>m. maxSize (options s) = Some m \<longrightarrow> length res \<le> m"
    using inv ids len by (auto simp: scl_inv_def)
  then show ?thesis using run ids sorted sub far size by blast
qed

section \<open>Properties\<close>

text \<open>
  \<^verbatim>\<open>getClosestNodes\<close> never fails on well-formed peer descriptors, and returns, in ascending
  order of the XOR distance to the reference address and without repeating a node, the nodes
  that were offered and are not excluded: all of them, or \<open>maxCount\<close> of them such that none of
  those left out is closer than one of those returned.
\<close>

theorem getClosestNodes_correct:
  fixes hx reference raw contacts maxCount excluded
  defines "ident \<equiv> getNodeIdFromPeerDescriptor hx"
    and "dist \<equiv> \<lambda>p. getPeerDistance raw (nodeid p)"
    and "eligible \<equiv> {p \<in> set contacts. \<not> (case excluded of None \<Rightarrow> False | Some ex \<Rightarrow> getNodeIdFromPeerDescriptor hx p \<in> ex)}"
  assumes "hex_laws hx" "getRawFromDhtAddress hx reference = Inr raw" "maxCount \<noteq> Some 0"
  shows "\<exists>res. getClosestNodes hx reference contacts maxCount excluded = Inr res \<and>
           set res \<subseteq> eligible \<and> sorted (map dist res) \<and> distinct (map ident res) \<and>
           (ident ` set res = ident ` eligible \<or> maxCount = Some (length res)) \<and>
           (\<forall>m. maxCount = Some m \<longrightarrow> length res \<le> m) \<and>
           (\<forall>p \<in> eligible. ident p \<notin> ident ` set res \<longrightarrow> (\<forall>r \<in> set res. dist r \<le> dist p))"
proof -
  let ?opts = "\<lparr>referenceId = reference, allowToContainReferenceId = True, maxSize = maxCount,
                nodeIdDistanceLimit = None, excludedNodeIds = excluded\<rparr>"
  obtain s0 :: "PeerDescriptor scl" where s0: "scl_create hx ?opts = Inr s0" "options s0 = ?opts"
    "referenceIdRaw s0 = raw" "contactIds s0 = []" "contactsById s0 = []"
    using assms(5) that [of "\<lparr>options = ?opts, referenceIdRaw = raw, contactsById = [], contactIds = []\<rparr>"]
    by (simp add: scl_create_def)
  have raw: "getRawFromDhtAddress hx (ident p) = Inr (nodeid p)" for p
    unfolding ident_def getNodeIdFromPeerDescriptor_def by (rule hex_laws.raw_roundtrip [OF assms(4)])
  have inv0: "scl_inv hx ident s0" using s0(1) assms(6) by (intro scl_inv_create) (auto simp: scl_options_ok_def)
  have rej: "scl_rejects hx s0 i \<longleftrightarrow> (case excluded of None \<Rightarrow> False | Some ex \<Rightarrow> i \<in> ex)" for i
    by (simp add: scl_rejects_def s0(2))
  obtain s evs where s: "scl_addContacts hx ident s0 contacts = (s, evs, None)" "scl_inv hx ident s"
    "options s = ?opts" "referenceIdRaw s = raw"
    "scl_best hx s {i \<in> ident ` set contacts. \<not> scl_rejects hx s0 i}"
    "\<And>i d. scl_getContact s i = Some d \<Longrightarrow> d \<in> set contacts"
    using scl_adds_best [OF inv0 _ scl_best_empty [OF s0(4)], of contacts] raw s0
    by (force simp: scl_ok_def scl_getContact_def om_find_def)
  have "{i \<in> ident ` set contacts. \<not> scl_rejects hx s0 i} = ident ` eligible"
    unfolding eligible_def rej ident_def by blast
  then have "scl_best hx s (ident ` eligible)" using s(5) by simp
  moreover have "distanceToReferenceId hx s (ident p) = dist p" for p
    by (simp add: distanceToReferenceId_def scl_raw_def raw s(4) dist_def)
  moreover have "eligible = {c \<in> set contacts. \<not> scl_rejects hx s0 (ident c)}"
    unfolding eligible_def rej ident_def by blast
  ultimately have "\<exists>res. getClosestContacts s None = Inr res \<and> map ident res = contactIds s \<and>
           set res \<subseteq> eligible \<and> sorted (map dist res) \<and> distinct (map ident res) \<and>
           (ident ` set res = ident ` eligible \<or> maxSize (options s) = Some (length res)) \<and>
           (\<forall>m. maxSize (options s) = Some m \<longrightarrow> length res \<le> m) \<and>
           (\<forall>p \<in> eligible. ident p \<notin> ident ` set res \<longrightarrow> (\<forall>r \<in> set res. dist r \<le> dist p))"
    using s(6) by (intro scl_best_contacts [OF s(2)])
  then obtain res where "getClosestContacts s None = Inr res" "set res \<subseteq> eligible" "sorted (map dist res)"
    "distinct (map ident res)" "ident ` set res = ident ` eligible \<or> maxCount = Some (length res)"
    "\<forall>m. maxCount = Some m \<longrightarrow> length res \<le> m"
    "\<forall>p \<in> eligible. ident p \<notin> ident ` set res \<longrightarrow> (\<forall>r \<in> set res. dist r \<le> dist p)"
    unfolding s(3) by auto
  moreover from this(1) have "getClosestNodes hx reference contacts maxCount excluded = Inr res"
    using s0(1) s(1) by (simp add: getClosestNodes_def ident_def)
  ultimately show ?thesis by blast
qed

text \<open>Three one-byte identifiers at distances 3, 1 and 2 from the reference, of which two are wanted.\<close>

definition scl_example_contact :: "byte \<Rightarrow> PeerDescriptor" where
  "scl_example_contact b = \<lparr>nodeid = [b], region = 0, ipaddress = 0, websocket = None\<rparr>"

theorem getClosestNodes_witness:
  "\<exists>res. getClosestNodes ref_hex ''00'' (map scl_example_contact [3, 1, 2]) (Some 2) None = Inr res \<and>
     sorted (map (\<lambda>p. getPeerDistance [0] (nodeid p)) res) \<and> length res \<le> 2 \<and>
     getClosestNodes ref_hex ''00'' (map scl_example_contact [3, 1, 2]) (Some 2) None =
       Inr (map scl_example_contact [1, 2])"
proof -
  have "getRawFromDhtAddress ref_hex ''00'' = Inr [0]" by code_simp
  moreover have "getClosestNodes ref_hex ''00'' (map scl_example_contact [3, 1, 2]) (Some 2) None =
       Inr (map scl_example_contact [1, 2])" by code_simp
  ultimately show ?thesis
    using getClosestNodes_correct [OF ref.hex_laws_axioms, of "''00''" "[0]" "Some 2" "map scl_example_contact [3, 1, 2]" None]
    by fastforce
qed

text \<open>
  C31. Adding a well-formed contact to a sorted contact list cannot fail, whatever the options:
  afterwards the identifiers are again distinct, sorted by distance, within the bound, not
  rejected by the options, and in step with the map of contacts; and the identifiers the list
  holds are again the closest of everything it was ever offered.
\<close>

theorem scl_addContact_correct:
  assumes "scl_inv hx getNodeId s" "scl_ok hx getNodeId contact" "scl_best hx s offered"
  shows "snd (snd (scl_addContact hx getNodeId s contact)) = None \<and>
         scl_inv hx getNodeId (fst (scl_addContact hx getNodeId s contact)) \<and>
         scl_best hx (fst (scl_addContact hx getNodeId s contact))
           (if scl_rejects hx s (getNodeId contact) then offered else insert (getNodeId contact) offered)"
  using scl_no_error [OF assms(1,2)] scl_inv_add [OF assms(1,2)] scl_best_add [OF assms] by blast

definition scl_example :: "PeerDescriptor scl" where
  "scl_example =
     \<lparr>options = \<lparr>referenceId = ''00'', allowToContainReferenceId = False, maxSize = Some 1,
                 nodeIdDistanceLimit = Some ''08'', excludedNodeIds = None\<rparr>,
      referenceIdRaw = [0], contactsById = [], contactIds = []\<rparr>"

theorem scl_addContact_witness:
  "scl_inv ref_hex (getNodeIdFromPeerDescriptor ref_hex)
     (fst (scl_addContact ref_hex (getNodeIdFromPeerDescriptor ref_hex) scl_example (scl_example_contact 5)))"
proof -
  have raw: "getRawFromDhtAddress ref_hex ''08'' = Inr [8]"
    "getRawFromDhtAddress ref_hex (getNodeIdFromPeerDescriptor ref_hex (scl_example_contact 5)) = Inr [5]"
    by code_simp+
  show ?thesis
    by (rule scl_addContact_correct [where offered = "{}", THEN conjunct2, THEN conjunct1])
      (simp_all add: raw scl_inv_def scl_options_ok_def scl_example_def scl_ok_def scl_best_def om_find_def [abs_def])
qed

end
