(* ===== verification/Endpoint.thy ===== *)
theory Endpoint
  imports Prelude "HOL-Library.Sublist"
begin

text \<open>
  The endpoint of a remote peer (\<^verbatim>\<open>Endpoint.cppm\<close> and its four state classes).  One mutex guards the
  whole machine; every method and event handler is one locked section that changes the state,
  followed by call-outs.  A step of the model is one locked section together with the list
  of what it does to the outside, the call-outs last.  Connections and pending connections
  are identified by numbers, as the code identifies them by address.
\<close>

section \<open>State and effects\<close>

datatype ep_kind = InitialState | ConnectingState | ConnectedState | DisconnectedState

record endpoint =
  ep_state :: ep_kind
  ep_lastConnectingSequence :: nat
  ep_buffer :: "bytes list"
  ep_pendingConnection :: "nat option"
  ep_pendingTokens :: bool
  ep_connection :: "nat option"

text \<open>What a step does to its surroundings, in order.\<close>

datatype ep_out =
    SendOn nat bytes
  | OffPending nat
  | OnConnection nat
  | OffConnection nat
  | OnPending nat
  | ClosePending nat bool
  | CloseConnection nat bool
  | EmitData bytes
  | EmitConnected
  | RemoveSelfFromContainer
  | EmitDisconnected
  | RemoveAllListeners

definition ep_create :: endpoint where
  "ep_create = \<lparr>ep_state = InitialState, ep_lastConnectingSequence = 0, ep_buffer = [],
     ep_pendingConnection = None, ep_pendingTokens = False, ep_connection = None\<rparr>"

section \<open>The connecting state\<close>

definition detachFromPendingConnection :: "endpoint \<Rightarrow> endpoint \<times> ep_out list" where
  "detachFromPendingConnection ep =
     (case ep_pendingConnection ep of
        None \<Rightarrow> (ep, [])
      | Some p \<Rightarrow> (ep\<lparr>ep_pendingTokens := False, ep_pendingConnection := None\<rparr>,
                  if ep_pendingTokens ep then [OffPending p] else []))"

definition adoptPendingConnection :: "endpoint \<Rightarrow> nat \<Rightarrow> endpoint \<times> ep_out list" where
  "adoptPendingConnection ep p =
     (case detachFromPendingConnection ep of (ep1, o1) \<Rightarrow> (ep1\<lparr>ep_pendingConnection := Some p\<rparr>, o1))"

definition isCurrentPendingConnection :: "endpoint \<Rightarrow> nat \<Rightarrow> bool" where
  "isCurrentPendingConnection ep p \<longleftrightarrow> ep_pendingConnection ep = Some p"

definition connecting_close :: "endpoint \<Rightarrow> bool \<Rightarrow> endpoint \<times> ep_out list \<times> ep_out list" where
  "connecting_close ep graceful =
     (let pendingConnection = ep_pendingConnection ep
      in case detachFromPendingConnection ep of
           (ep1, o1) \<Rightarrow>
             (ep1\<lparr>ep_buffer := []\<rparr>, o1,
              case pendingConnection of None \<Rightarrow> [] | Some p \<Rightarrow> [ClosePending p graceful]))"

text \<open>One \<^verbatim>\<open>send\<close> per buffered message.\<close>

definition flush_buffer :: "endpoint \<Rightarrow> nat \<Rightarrow> endpoint \<times> ep_out list" where
  "flush_buffer ep c = (ep\<lparr>ep_buffer := []\<rparr>, map (SendOn c) (ep_buffer ep))"

section \<open>The connected state\<close>

definition detachFromConnection :: "endpoint \<Rightarrow> endpoint \<times> ep_out list" where
  "detachFromConnection ep =
     (case ep_connection ep of
        None \<Rightarrow> (ep, [])
      | Some c \<Rightarrow> (ep\<lparr>ep_connection := None\<rparr>, [OffConnection c]))"

definition connected_enterState :: "endpoint \<Rightarrow> nat \<Rightarrow> endpoint \<times> ep_out list" where
  "connected_enterState ep c =
     (case detachFromConnection ep of (ep1, o1) \<Rightarrow> (ep1\<lparr>ep_connection := Some c\<rparr>, o1 @ [OnConnection c]))"

definition connected_close :: "endpoint \<Rightarrow> bool \<Rightarrow> endpoint \<times> ep_out list \<times> ep_out list" where
  "connected_close ep graceful =
     (let connection = ep_connection ep
      in case detachFromConnection ep of
           (ep1, o1) \<Rightarrow> (ep1, o1, case connection of None \<Rightarrow> [] | Some c \<Rightarrow> [CloseConnection c graceful]))"

section \<open>Transitions\<close>

definition enterConnectingState :: "endpoint \<Rightarrow> nat \<Rightarrow> endpoint \<times> ep_out list" where
  "enterConnectingState ep p = adoptPendingConnection (ep\<lparr>ep_state := ConnectingState\<rparr>) p"

definition enterConnectedState :: "endpoint \<Rightarrow> nat \<Rightarrow> endpoint \<times> ep_out list" where
  "enterConnectedState ep c = connected_enterState (ep\<lparr>ep_state := ConnectedState\<rparr>) c"

definition enterDisconnectedState :: "endpoint \<Rightarrow> endpoint \<times> bool" where
  "enterDisconnectedState ep =
     (if ep_state ep = DisconnectedState then (ep, False) else (ep\<lparr>ep_state := DisconnectedState\<rparr>, True))"

definition finishDisconnect :: "ep_out list" where
  "finishDisconnect = [RemoveSelfFromContainer, EmitDisconnected, RemoveAllListeners]"

text \<open>
  The methods of the four states: the new endpoint, the effects, and the deferred call-outs.  The
  endpoint dispatches on its current state.
\<close>

definition initial_changeToConnectingState :: "endpoint \<Rightarrow> nat \<Rightarrow> endpoint \<times> ep_out list \<times> ep_out list" where
  [simp]: "initial_changeToConnectingState ep p = (case enterConnectingState ep p of (ep1, o1) \<Rightarrow> (ep1, o1, []))"

definition initial_changeToConnectedState :: "endpoint \<Rightarrow> nat \<Rightarrow> endpoint \<times> ep_out list" where
  [simp]: "initial_changeToConnectedState ep c = (ep, [])"

definition initial_close :: "endpoint \<Rightarrow> bool \<Rightarrow> endpoint \<times> ep_out list \<times> ep_out list" where
  [simp]: "initial_close ep graceful = (ep, [], [])"

definition initial_send :: "endpoint \<Rightarrow> bytes \<Rightarrow> cpp_error + endpoint \<times> ep_out list" where
  [simp]: "initial_send ep data = Inl (RuntimeError ''send() called on endpoint in initial state'')"

definition connecting_changeToConnectingState :: "endpoint \<Rightarrow> nat \<Rightarrow> endpoint \<times> ep_out list \<times> ep_out list" where
  [simp]: "connecting_changeToConnectingState ep p = (case enterConnectingState ep p of (ep1, o1) \<Rightarrow> (ep1, o1, []))"

definition connecting_changeToConnectedState :: "endpoint \<Rightarrow> nat \<Rightarrow> endpoint \<times> ep_out list" where
  [simp]: "connecting_changeToConnectedState ep c =
     (case detachFromPendingConnection ep of
        (ep1, o1) \<Rightarrow>
          (case flush_buffer ep1 c of
             (ep2, o2) \<Rightarrow> (case enterConnectedState ep2 c of (ep3, o3) \<Rightarrow> (ep3, o1 @ o2 @ o3))))"

definition connecting_send :: "endpoint \<Rightarrow> bytes \<Rightarrow> cpp_error + endpoint \<times> ep_out list" where
  [simp]: "connecting_send ep data = Inr (ep\<lparr>ep_buffer := ep_buffer ep @ [data]\<rparr>, [])"

definition connected_changeToConnectingState :: "endpoint \<Rightarrow> nat \<Rightarrow> endpoint \<times> ep_out list \<times> ep_out list" where
  [simp]: "connected_changeToConnectingState ep p =
     (let oldConnection = ep_connection ep
      in case detachFromConnection ep of
           (ep1, o1) \<Rightarrow>
             (case enterConnectingState ep1 p of
                (ep2, o2) \<Rightarrow> (ep2, o1 @ o2, case oldConnection of None \<Rightarrow> [] | Some c \<Rightarrow> [CloseConnection c True])))"

definition connected_changeToConnectedState :: "endpoint \<Rightarrow> nat \<Rightarrow> endpoint \<times> ep_out list" where
  [simp]: "connected_changeToConnectedState ep c = enterConnectedState ep c"

definition connected_send :: "endpoint \<Rightarrow> bytes \<Rightarrow> cpp_error + endpoint \<times> ep_out list" where
  [simp]: "connected_send ep data =
     (case ep_connection ep of
        None \<Rightarrow> Inl (RuntimeError ''send() called on endpoint with no connection'')
      | Some c \<Rightarrow> Inr (ep, [SendOn c data]))"

definition disconnected_changeToConnectingState :: "endpoint \<Rightarrow> nat \<Rightarrow> endpoint \<times> ep_out list \<times> ep_out list" where
  [simp]: "disconnected_changeToConnectingState ep p = (ep, [], [])"

definition disconnected_changeToConnectedState :: "endpoint \<Rightarrow> nat \<Rightarrow> endpoint \<times> ep_out list" where
  [simp]: "disconnected_changeToConnectedState ep c = (ep, [])"

definition disconnected_close :: "endpoint \<Rightarrow> bool \<Rightarrow> endpoint \<times> ep_out list \<times> ep_out list" where
  [simp]: "disconnected_close ep graceful = (ep, [], [])"

definition disconnected_send :: "endpoint \<Rightarrow> bytes \<Rightarrow> cpp_error + endpoint \<times> ep_out list" where
  [simp]: "disconnected_send ep data = Inl (RuntimeError ''send() called on disconnected endpoint'')"

fun changeToConnectingState :: "ep_kind \<Rightarrow> endpoint \<Rightarrow> nat \<Rightarrow> endpoint \<times> ep_out list \<times> ep_out list" where
  "changeToConnectingState InitialState ep p = initial_changeToConnectingState ep p"
| "changeToConnectingState ConnectingState ep p = connecting_changeToConnectingState ep p"
| "changeToConnectingState ConnectedState ep p = connected_changeToConnectingState ep p"
| "changeToConnectingState DisconnectedState ep p = disconnected_changeToConnectingState ep p"

fun changeToConnectedState :: "ep_kind \<Rightarrow> endpoint \<Rightarrow> nat \<Rightarrow> endpoint \<times> ep_out list" where
  "changeToConnectedState InitialState ep c = initial_changeToConnectedState ep c"
| "changeToConnectedState ConnectingState ep c = connecting_changeToConnectedState ep c"
| "changeToConnectedState ConnectedState ep c = connected_changeToConnectedState ep c"
| "changeToConnectedState DisconnectedState ep c = disconnected_changeToConnectedState ep c"

fun state_close :: "ep_kind \<Rightarrow> endpoint \<Rightarrow> bool \<Rightarrow> endpoint \<times> ep_out list \<times> ep_out list" where
  "state_close InitialState ep graceful = initial_close ep graceful"
| "state_close ConnectingState ep graceful = connecting_close ep graceful"
| "state_close ConnectedState ep graceful = connected_close ep graceful"
| "state_close DisconnectedState ep graceful = disconnected_close ep graceful"

fun state_send :: "ep_kind \<Rightarrow> endpoint \<Rightarrow> bytes \<Rightarrow> cpp_error + endpoint \<times> ep_out list" where
  "state_send InitialState ep data = initial_send ep data"
| "state_send ConnectingState ep data = connecting_send ep data"
| "state_send ConnectedState ep data = connected_send ep data"
| "state_send DisconnectedState ep data = disconnected_send ep data"

fun state_isConnected :: "ep_kind \<Rightarrow> bool" where
  "state_isConnected InitialState = False"
| "state_isConnected ConnectingState = False"
| "state_isConnected ConnectedState = True"
| "state_isConnected DisconnectedState = False"

section \<open>Methods and event handlers of the endpoint\<close>

definition setConnecting :: "endpoint \<Rightarrow> nat \<Rightarrow> nat \<Rightarrow> endpoint \<times> ep_out list" where
  "setConnecting ep p sequenceNumber =
     (if sequenceNumber \<le> ep_lastConnectingSequence ep then (ep, [])
      else (case changeToConnectingState (ep_state ep) (ep\<lparr>ep_lastConnectingSequence := sequenceNumber\<rparr>) p of
              (ep1, o1, callout) \<Rightarrow>
                (let adopted = (ep_state ep1 = ConnectingState \<and> isCurrentPendingConnection ep1 p)
                 in (ep1, o1 @ callout @ (if adopted then [OnPending p] else [])))))"

text \<open>
  The end of \<^verbatim>\<open>registerEventHandlers\<close>, a locked section of its own: the tokens are committed if the
  pending connection is still the current one, otherwise the handlers are taken off again.
\<close>

definition commitHandlers :: "endpoint \<Rightarrow> nat \<Rightarrow> endpoint \<times> ep_out list" where
  "commitHandlers ep p =
     (if isCurrentPendingConnection ep p then (ep\<lparr>ep_pendingTokens := True\<rparr>, []) else (ep, [OffPending p]))"

definition setConnected :: "endpoint \<Rightarrow> nat \<Rightarrow> endpoint \<times> ep_out list" where
  "setConnected ep c = changeToConnectedState (ep_state ep) ep c"

definition ep_isConnected :: "endpoint \<Rightarrow> bool" where
  "ep_isConnected ep = state_isConnected (ep_state ep)"

definition ep_close :: "endpoint \<Rightarrow> bool \<Rightarrow> endpoint \<times> ep_out list" where
  "ep_close ep graceful =
     (case state_close (ep_state ep) ep graceful of
        (ep1, o1, callout) \<Rightarrow>
          (case enterDisconnectedState ep1 of
             (ep2, transitioned) \<Rightarrow> (ep2, o1 @ callout @ (if transitioned then finishDisconnect else []))))"

definition ep_send :: "endpoint \<Rightarrow> bytes \<Rightarrow> cpp_error + endpoint \<times> ep_out list" where
  "ep_send ep data = state_send (ep_state ep) ep data"

definition onPendingDisconnected :: "endpoint \<Rightarrow> nat \<Rightarrow> endpoint \<times> ep_out list" where
  "onPendingDisconnected ep p =
     (if \<not> isCurrentPendingConnection ep p then (ep, [])
      else (case detachFromPendingConnection ep of
              (ep1, o1) \<Rightarrow>
                (case enterDisconnectedState (ep1\<lparr>ep_buffer := []\<rparr>) of
                   (ep2, transitioned) \<Rightarrow> (ep2, o1 @ (if transitioned then finishDisconnect else [])))))"

definition onPendingConnected :: "endpoint \<Rightarrow> nat \<Rightarrow> nat \<Rightarrow> endpoint \<times> ep_out list" where
  "onPendingConnected ep p c =
     (if \<not> isCurrentPendingConnection ep p then (ep, [])
      else (case detachFromPendingConnection ep of
              (ep1, o1) \<Rightarrow>
                (case flush_buffer ep1 c of
                   (ep2, o2) \<Rightarrow>
                     (case enterConnectedState ep2 c of (ep3, o3) \<Rightarrow> (ep3, o1 @ o2 @ o3 @ [EmitConnected])))))"

definition onConnectionData :: "endpoint \<Rightarrow> nat \<Rightarrow> bytes \<Rightarrow> endpoint \<times> ep_out list" where
  "onConnectionData ep c data = (if ep_connection ep \<noteq> Some c then (ep, []) else (ep, [EmitData data]))"

definition onConnectionDisconnected :: "endpoint \<Rightarrow> nat \<Rightarrow> endpoint \<times> ep_out list" where
  "onConnectionDisconnected ep c =
     (if ep_connection ep \<noteq> Some c then (ep, [])
      else (case detachFromConnection ep of
              (ep1, o1) \<Rightarrow>
                (case enterDisconnectedState ep1 of
                   (ep2, transitioned) \<Rightarrow> (ep2, o1 @ (if transitioned then finishDisconnect else [])))))"

section \<open>The machine\<close>

datatype ep_event =
    SetConnecting nat nat
  | CommitHandlers nat
  | SetConnected nat
  | Close bool
  | Send bytes
  | PendingConnected nat nat
  | PendingDisconnected nat
  | ConnectionData nat bytes
  | ConnectionDisconnected nat

text \<open>
  One locked section, in any order the threads produce.  A \<^verbatim>\<open>send\<close> that throws changes nothing and
  is not accepted; the third argument collects the data of the accepted ones.
\<close>

inductive ep_step :: "endpoint \<Rightarrow> ep_event \<Rightarrow> bytes list \<Rightarrow> ep_out list \<Rightarrow> endpoint \<Rightarrow> bool" where
  step_connecting: "setConnecting ep p n = (ep', os) \<Longrightarrow> ep_step ep (SetConnecting p n) [] os ep'"
| step_commit: "commitHandlers ep p = (ep', os) \<Longrightarrow> ep_step ep (CommitHandlers p) [] os ep'"
| step_connected: "setConnected ep c = (ep', os) \<Longrightarrow> ep_step ep (SetConnected c) [] os ep'"
| step_close: "ep_close ep g = (ep', os) \<Longrightarrow> ep_step ep (Close g) [] os ep'"
| step_send: "ep_send ep d = Inr (ep', os) \<Longrightarrow> ep_step ep (Send d) [d] os ep'"
| step_send_throws: "ep_send ep d = Inl e \<Longrightarrow> ep_step ep (Send d) [] [] ep"
| step_pending_connected: "onPendingConnected ep p c = (ep', os) \<Longrightarrow> ep_step ep (PendingConnected p c) [] os ep'"
| step_pending_disconnected: "onPendingDisconnected ep p = (ep', os) \<Longrightarrow> ep_step ep (PendingDisconnected p) [] os ep'"
| step_data: "onConnectionData ep c d = (ep', os) \<Longrightarrow> ep_step ep (ConnectionData c d) [] os ep'"
| step_disconnected: "onConnectionDisconnected ep c = (ep', os) \<Longrightarrow> ep_step ep (ConnectionDisconnected c) [] os ep'"

inductive_cases ep_step_cases: "ep_step ep ev acc os ep'"

inductive ep_run :: "bytes list \<Rightarrow> ep_out list \<Rightarrow> endpoint \<Rightarrow> bool" where
  run_start: "ep_run [] [] ep_create"
| run_step: "ep_run acc os ep \<Longrightarrow> ep_step ep ev acc' os' ep' \<Longrightarrow> ep_run (acc @ acc') (os @ os') ep'"

section \<open>The invariant, and what one step does\<close>

definition ep_inv :: "endpoint \<Rightarrow> bool" where
  "ep_inv ep \<longleftrightarrow>
     (ep_pendingConnection ep \<noteq> None \<longleftrightarrow> ep_state ep = ConnectingState) \<and>
     (ep_connection ep \<noteq> None \<longleftrightarrow> ep_state ep = ConnectedState) \<and>
     (ep_buffer ep \<noteq> [] \<longrightarrow> ep_state ep = ConnectingState) \<and>
     (ep_pendingTokens ep \<longrightarrow> ep_pendingConnection ep \<noteq> None)"

definition sent :: "ep_out list \<Rightarrow> bytes list" where
  "sent os = concat (map (\<lambda>o1. case o1 of SendOn c d \<Rightarrow> [d] | _ \<Rightarrow> []) os)"

definition disconnects :: "ep_out list \<Rightarrow> nat" where
  "disconnects os = count_list os RemoveSelfFromContainer"

lemma sent_simps [simp]:
  "sent [] = []" "sent (os @ os') = sent os @ sent os'" "sent (SendOn c d # os) = d # sent os"
  "sent (map (SendOn c) ds) = ds"
  by (auto simp: sent_def comp_def concat_map_singleton [of "\<lambda>x. x", simplified])

lemma sent_other [simp]: "(\<And>c d. out \<noteq> SendOn c d) \<Longrightarrow> sent (out # os) = sent os"
  by (cases out) (auto simp: sent_def)

lemma disconnects_simps [simp]:
  "disconnects [] = 0" "disconnects (os @ os') = disconnects os + disconnects os'"
  "disconnects (out # os) = (if out = RemoveSelfFromContainer then Suc (disconnects os) else disconnects os)"
  "disconnects (map (SendOn c) ds) = 0"
  by (induction ds) (auto simp: disconnects_def)

lemmas ep_method_defs = setConnecting_def commitHandlers_def setConnected_def ep_close_def ep_send_def
  onPendingConnected_def onPendingDisconnected_def onConnectionData_def onConnectionDisconnected_def

lemmas ep_helper_defs = detachFromPendingConnection_def adoptPendingConnection_def isCurrentPendingConnection_def
  connecting_close_def flush_buffer_def detachFromConnection_def connected_enterState_def connected_close_def
  enterConnectingState_def enterConnectedState_def enterDisconnectedState_def finishDisconnect_def Let_def

text \<open>What every step keeps: the invariant, the order of the data, the single disconnection.\<close>

definition ep_step_ok :: "endpoint \<Rightarrow> bytes list \<Rightarrow> ep_out list \<Rightarrow> endpoint \<Rightarrow> bool" where
  "ep_step_ok ep acc os ep' \<longleftrightarrow>
     ep_inv ep' \<and>
     (if ep_state ep' = DisconnectedState then sent os = [] else sent os @ ep_buffer ep' = ep_buffer ep @ acc) \<and>
     (ep_state ep = DisconnectedState \<longrightarrow> ep_state ep' = DisconnectedState \<and> acc = []) \<and>
     disconnects os = (if ep_state ep \<noteq> DisconnectedState \<and> ep_state ep' = DisconnectedState then 1 else 0)"

lemma ep_step_effect:
  assumes "ep_inv ep" "ep_step ep ev acc os ep'"
  shows "ep_step_ok ep acc os ep'"
  using assms(2,1)
proof (cases rule: ep_step.cases)
  case (step_connecting p n)
  then show ?thesis using assms(1)
    by (cases "ep_state ep")
      (auto simp: ep_step_ok_def ep_inv_def ep_method_defs ep_helper_defs split: option.splits if_splits)
next
  case (step_commit p)
  then show ?thesis using assms(1) by (auto simp: ep_step_ok_def ep_inv_def ep_method_defs ep_helper_defs split: if_splits)
next
  case (step_connected c)
  then show ?thesis using assms(1)
    by (cases "ep_state ep")
      (auto simp: ep_step_ok_def ep_inv_def ep_method_defs ep_helper_defs split: option.splits if_splits)
next
  case (step_close g)
  then show ?thesis using assms(1)
    by (cases "ep_state ep")
      (auto simp: ep_step_ok_def ep_inv_def ep_method_defs ep_helper_defs split: option.splits if_splits)
next
  case (step_send d)
  then show ?thesis using assms(1)
    by (cases "ep_state ep") (auto simp: ep_step_ok_def ep_inv_def ep_send_def split: option.splits)
next
  case (step_send_throws d e)
  then show ?thesis using assms(1)
    by (cases "ep_state ep") (auto simp: ep_step_ok_def ep_inv_def)
next
  case (step_pending_connected p c)
  then show ?thesis using assms(1)
    by (auto simp: ep_step_ok_def ep_inv_def ep_method_defs ep_helper_defs split: option.splits if_splits)
next
  case (step_pending_disconnected p)
  then show ?thesis using assms(1)
    by (auto simp: ep_step_ok_def ep_inv_def ep_method_defs ep_helper_defs split: option.splits if_splits)
next
  case (step_data c d)
  then show ?thesis using assms(1)
    by (auto simp: ep_step_ok_def ep_inv_def ep_method_defs split: if_splits)
next
  case (step_disconnected c)
  then show ?thesis using assms(1)
    by (auto simp: ep_step_ok_def ep_inv_def ep_method_defs ep_helper_defs split: option.splits if_splits)
qed

lemma ep_run_ok:
  "ep_run acc os ep \<Longrightarrow>
     ep_inv ep \<and> (if ep_state ep = DisconnectedState then prefix (sent os) acc else sent os @ ep_buffer ep = acc) \<and>
     disconnects os = (if ep_state ep = DisconnectedState then 1 else 0)"
proof (induction rule: ep_run.induct)
  case run_start
  show ?case by (simp add: ep_create_def ep_inv_def)
next
  case (run_step acc os ep ev acc' os' ep')
  have ok: "ep_step_ok ep acc' os' ep'" using run_step ep_step_effect by blast
  have pre: "prefix (sent os) acc" using run_step.IH by (auto split: if_splits)
  show ?case
  proof (cases "ep_state ep' = DisconnectedState")
    case True
    then show ?thesis using ok pre run_step.IH by (auto simp: ep_step_ok_def split: if_splits)
  next
    case False
    then show ?thesis using ok run_step.IH by (auto simp: ep_step_ok_def)
  qed
qed

section \<open>Adoption of pending connections\<close>

lemma setConnecting_live:
  assumes "ep_inv ep" "ep_state ep \<noteq> DisconnectedState" "ep_lastConnectingSequence ep < n"
  shows "ep_inv (fst (setConnecting ep p n)) \<and> ep_state (fst (setConnecting ep p n)) = ConnectingState \<and>
         ep_pendingConnection (fst (setConnecting ep p n)) = Some p \<and>
         ep_lastConnectingSequence (fst (setConnecting ep p n)) = n \<and>
         ep_buffer (fst (setConnecting ep p n)) = ep_buffer ep"
  using assms
  by (cases "ep_state ep") (auto simp: ep_inv_def setConnecting_def ep_helper_defs split: option.splits)

lemma setConnecting_old: "n \<le> ep_lastConnectingSequence ep \<Longrightarrow> setConnecting ep p n = (ep, [])"
  by (simp add: setConnecting_def)

definition adopt_step :: "endpoint \<Rightarrow> nat \<times> nat \<Rightarrow> endpoint" where
  "adopt_step ep x = fst (setConnecting ep (fst x) (snd x))"

definition adopted_from :: "endpoint \<Rightarrow> (nat \<times> nat) list \<Rightarrow> bool" where
  "adopted_from ep xs \<longleftrightarrow>
     (\<exists>x \<in> set xs. ep_pendingConnection ep = Some (fst x) \<and> ep_lastConnectingSequence ep = snd x \<and>
        (\<forall>y \<in> set xs. snd y \<le> snd x))"

lemma adopt_step_newest:
  assumes "ep_inv ep" "ep_state ep \<noteq> DisconnectedState" "adopted_from ep xs"
  shows "ep_inv (adopt_step ep y) \<and> ep_state (adopt_step ep y) \<noteq> DisconnectedState \<and>
         adopted_from (adopt_step ep y) (xs @ [y])"
proof (cases "snd y \<le> ep_lastConnectingSequence ep")
  case True
  then show ?thesis using assms by (auto simp: adopt_step_def setConnecting_old adopted_from_def)
next
  case False
  then have "ep_lastConnectingSequence ep < snd y" by simp
  from setConnecting_live [OF assms(1,2) this, of "fst y"] show ?thesis
    using assms(3) False by (force simp: adopt_step_def adopted_from_def)
qed

lemma adopt_run:
  assumes "ep_inv ep" "ep_state ep \<noteq> DisconnectedState" "ep_lastConnectingSequence ep < snd x"
  shows "ep_inv (foldl adopt_step ep (x # xs)) \<and> ep_state (foldl adopt_step ep (x # xs)) \<noteq> DisconnectedState \<and>
         adopted_from (foldl adopt_step ep (x # xs)) (x # xs)"
proof (induction xs rule: rev_induct)
  case Nil
  then show ?case using setConnecting_live [OF assms, of "fst x"] by (simp add: adopt_step_def adopted_from_def)
next
  case (snoc y xs)
  then show ?case using adopt_step_newest [of "foldl adopt_step ep (x # xs)" "x # xs" y] by simp
qed

section \<open>Properties\<close>

text \<open>
  C13. Data handed to an endpoint is never reordered, merged, duplicated or lost while the endpoint lives:
  in every interleaving of its locked sections the data passed on to connections followed by the
  buffer is exactly the data accepted so far, one message each, also when the pending
  connection or the connection is replaced; after the disconnection it is a prefix of it.
\<close>

theorem endpoint_data_in_order:
  assumes "ep_run acc os ep"
  shows "if ep_state ep = DisconnectedState then prefix (sent os) acc else sent os @ ep_buffer ep = acc"
  using ep_run_ok [OF assms] by blast

definition ep_example :: endpoint where
  "ep_example = \<lparr>ep_state = ConnectedState, ep_lastConnectingSequence = 1, ep_buffer = [],
     ep_pendingConnection = None, ep_pendingTokens = False, ep_connection = Some 3\<rparr>"

lemma ep_run_example:
  "ep_run [[1], [2]] [OnPending 7, SendOn 3 [1], OnConnection 3, EmitConnected, SendOn 3 [2]] ep_example"
proof -
  let ?e1 = "ep_create\<lparr>ep_state := ConnectingState, ep_lastConnectingSequence := 1, ep_pendingConnection := Some 7\<rparr>"
  let ?e2 = "?e1\<lparr>ep_buffer := [[1]]\<rparr>"
  let ?e3 = "fst (onPendingConnected ?e2 7 3)"
  have 1: "ep_run ([] @ []) ([] @ [OnPending 7]) ?e1"
    by (rule run_step [OF run_start step_connecting [where p = 7 and n = 1]])
      (simp add: setConnecting_def ep_helper_defs ep_create_def)
  have 2: "ep_run ([] @ [[1]]) ([OnPending 7] @ []) ?e2"
    using run_step [OF 1 step_send [where d = "[1]" and ep' = ?e2 and os = "[]"]] by (simp add: ep_send_def ep_create_def)
  have 3: "ep_run ([[1]] @ []) ([OnPending 7] @ [SendOn 3 [1], OnConnection 3, EmitConnected]) ?e3"
    using run_step [OF 2 step_pending_connected [where p = 7 and c = 3]]
    by (simp add: onPendingConnected_def ep_helper_defs ep_create_def)
  have 4: "ep_run ([[1]] @ [[2]]) (([OnPending 7] @ [SendOn 3 [1], OnConnection 3, EmitConnected]) @ [SendOn 3 [2]]) ?e3"
    using run_step [OF 3 step_send [where d = "[2]" and ep' = ?e3 and os = "[SendOn 3 [2]]"]]
    by (simp add: ep_send_def onPendingConnected_def ep_helper_defs ep_create_def)
  then show ?thesis by (simp add: ep_example_def onPendingConnected_def ep_helper_defs ep_create_def)
qed

theorem endpoint_data_in_order_witness:
  "ep_run [[1], [2]] [OnPending 7, SendOn 3 [1], OnConnection 3, EmitConnected, SendOn 3 [2]] ep_example \<and>
   sent [OnPending 7, SendOn 3 [1], OnConnection 3, EmitConnected, SendOn 3 [2]] @ ep_buffer ep_example = [[1], [2]]"
  using endpoint_data_in_order [OF ep_run_example] ep_run_example by (simp add: ep_example_def)

text \<open>
  The disconnection of an endpoint happens exactly once: in every run the removal from the
  container has been performed once if the endpoint is in its disconnected state and never
  otherwise, and the disconnected state is never left.
\<close>

theorem endpoint_disconnects_once:
  assumes "ep_run acc os ep"
  shows "disconnects os = (if ep_state ep = DisconnectedState then 1 else 0) \<and>
         (ep_step ep ev acc' os' ep' \<longrightarrow> ep_state ep = DisconnectedState \<longrightarrow>
            ep_state ep' = DisconnectedState \<and> acc' = [] \<and> sent os' = [] \<and> disconnects os' = 0)"
  using ep_run_ok [OF assms] ep_step_effect [of ep ev acc' os' ep'] by (auto simp: ep_step_ok_def)

theorem endpoint_disconnects_once_witness:
  "disconnects ([] @ finishDisconnect) = (if ep_state (fst (ep_close ep_create True)) = DisconnectedState then 1 else 0)"
proof -
  have "ep_run ([] @ []) ([] @ finishDisconnect) (fst (ep_close ep_create True))"
    by (rule run_step [OF run_start step_close]) (simp add: ep_close_def ep_helper_defs ep_create_def)
  then show ?thesis by (rule endpoint_disconnects_once [THEN conjunct1])
qed

text \<open>
  The outcome of racing adoptions does not depend on the order in which the threads reach the
  endpoint: when pending connections with distinct sequence numbers are handed to a live endpoint
  in any order, it ends up connecting with the one that has the highest number.
\<close>

theorem setConnecting_order_independent:
  assumes "ep_inv ep" "ep_state ep \<noteq> DisconnectedState" "\<And>x. x \<in> set xs \<Longrightarrow> ep_lastConnectingSequence ep < snd x"
    and "(p, n) \<in> set xs" "\<And>x. x \<in> set xs \<Longrightarrow> x \<noteq> (p, n) \<Longrightarrow> snd x < n"
  shows "ep_state (foldl adopt_step ep xs) = ConnectingState \<and> ep_pendingConnection (foldl adopt_step ep xs) = Some p"
proof -
  obtain x ys where xs: "xs = x # ys" using assms(4) by (cases xs) auto
  have run: "ep_inv (foldl adopt_step ep xs)" "adopted_from (foldl adopt_step ep xs) xs"
    using adopt_run [OF assms(1,2), of x ys] assms(3) unfolding xs by auto
  then obtain z where z: "z \<in> set xs" "ep_pendingConnection (foldl adopt_step ep xs) = Some (fst z)" "n \<le> snd z"
    using assms(4) by (auto simp: adopted_from_def)
  then have "z = (p, n)" using assms(5) by (meson not_le)
  then show ?thesis using z(2) run(1) by (auto simp: ep_inv_def)
qed

theorem setConnecting_order_independent_witness:
  "ep_pendingConnection (foldl adopt_step ep_create [(7, 2), (9, 1)]) = Some 7 \<and>
   ep_pendingConnection (foldl adopt_step ep_create [(9, 1), (7, 2)]) = Some 7"
proof
  show "ep_pendingConnection (foldl adopt_step ep_create [(7, 2), (9, 1)]) = Some 7"
    by (rule setConnecting_order_independent [where n = 2, THEN conjunct2]) (auto simp: ep_create_def ep_inv_def)
  show "ep_pendingConnection (foldl adopt_step ep_create [(9, 1), (7, 2)]) = Some 7"
    by (rule setConnecting_order_independent [where n = 2, THEN conjunct2]) (auto simp: ep_create_def ep_inv_def)
qed

end
