(* ===== verification/Connection_Locks.thy ===== *)
theory Connection_Locks
  imports Prelude
begin

text \<open>
  The locks that keep connections open (\<^verbatim>\<open>ConnectionLockStates.cppm\<close>): three tables from node ids to
  sets of lock ids, and the set of connections whose remote end asked for privacy.  Every
  operation holds the mutexes of the tables it uses, so it is one atomic step.
\<close>

section \<open>One lock table\<close>

type_synonym LockID = string
type_synonym lock_table = "(DhtAddress, LockID set) omap"

definition table_add :: "lock_table \<Rightarrow> DhtAddress \<Rightarrow> LockID \<Rightarrow> lock_table" where
  "table_add t nid lockId =
     (let t1 = (if \<not> om_contains t nid then om_put nid {} t else t)
      in om_adjust (insert lockId) nid t1)"

definition table_remove :: "lock_table \<Rightarrow> DhtAddress \<Rightarrow> LockID \<Rightarrow> lock_table" where
  "table_remove t nid lockId =
     (if om_contains t nid
      then (let t1 = om_adjust (\<lambda>S. S - {lockId}) nid t
            in if om_find t1 nid = Some {} then om_erase nid t1 else t1)
      else t)"

definition table_locked :: "lock_table \<Rightarrow> DhtAddress \<Rightarrow> LockID option \<Rightarrow> bool" where
  "table_locked t nid lockId =
     (case lockId of
        None \<Rightarrow> om_contains t nid
      | Some l \<Rightarrow> (case om_find t nid of None \<Rightarrow> False | Some S \<Rightarrow> l \<in> S))"

text \<open>The contract: a table is a set of pairs, and a node is locked while it has at least one pair.\<close>

locale lock_store =
  fixes add :: "'t \<Rightarrow> 'i \<Rightarrow> 'l \<Rightarrow> 't"
    and remove :: "'t \<Rightarrow> 'i \<Rightarrow> 'l \<Rightarrow> 't"
    and locked :: "'t \<Rightarrow> 'i \<Rightarrow> bool"
    and held :: "'t \<Rightarrow> ('i \<times> 'l) set"
    and inv :: "'t \<Rightarrow> bool"
  assumes inv_add: "inv t \<Longrightarrow> inv (add t i l)"
    and inv_remove: "inv t \<Longrightarrow> inv (remove t i l)"
    and held_add: "inv t \<Longrightarrow> held (add t i l) = insert (i, l) (held t)"
    and held_remove: "inv t \<Longrightarrow> held (remove t i l) = held t - {(i, l)}"
    and locked_iff: "inv t \<Longrightarrow> locked t i \<longleftrightarrow> (\<exists>l. (i, l) \<in> held t)"
begin

text \<open>A client's history: \<open>(True, i, l)\<close> locks and \<open>(False, i, l)\<close> unlocks.\<close>

definition step :: "'t \<Rightarrow> bool \<times> 'i \<times> 'l \<Rightarrow> 't" where
  "step t op = (case op of (b, i, l) \<Rightarrow> if b then add t i l else remove t i l)"

lemma step_inv: "inv t \<Longrightarrow> inv (step t op)"
  by (auto simp: step_def inv_add inv_remove split: prod.splits)

lemma run_inv: "inv t \<Longrightarrow> inv (foldl step t ops)"
  by (induction ops arbitrary: t) (auto simp: step_inv)

lemma held_step: "inv t \<Longrightarrow> x \<in> held (step t (b, i, l)) \<longleftrightarrow> (if x = (i, l) then b else x \<in> held t)"
  by (auto simp: step_def held_add held_remove)

text \<open>A pair is held exactly when the last operation on it was a lock.\<close>

lemma held_run:
  assumes "inv t"
  shows "(i, l) \<in> held (foldl step t ops) \<longleftrightarrow>
    (case filter (\<lambda>op. snd op = (i, l)) (rev ops) of [] \<Rightarrow> (i, l) \<in> held t | op # _ \<Rightarrow> fst op)"
proof (induction ops rule: rev_induct)
  case (snoc op ops)
  obtain b j m where op: "op = (b, j, m)" by (metis prod_cases3)
  show ?case using snoc held_step [OF run_inv [OF assms], of "(i, l)" ops b j m] by (auto simp: op)
qed simp

end

definition held_locks :: "lock_table \<Rightarrow> (DhtAddress \<times> LockID) set" where
  "held_locks t = {(i, l). \<exists>S. om_find t i = Some S \<and> l \<in> S}"

definition table_inv :: "lock_table \<Rightarrow> bool" where
  "table_inv t \<longleftrightarrow> om_ok t \<and> (\<forall>i. om_find t i \<noteq> Some {})"

interpretation locks: lock_store table_add table_remove "\<lambda>t i. table_locked t i None" held_locks table_inv
proof unfold_locales
  fix t :: lock_table and i l
  assume inv: "table_inv t"
  show "table_inv (table_add t i l)"
    using inv by (auto simp: table_inv_def table_add_def om_contains_find Let_def split: if_splits)
  show "table_inv (table_remove t i l)"
    using inv by (auto simp: table_inv_def table_remove_def om_contains_find Let_def split: if_splits)
  show "held_locks (table_add t i l) = insert (i, l) (held_locks t)"
    by (auto simp: held_locks_def table_add_def om_contains_find Let_def split: if_splits)
  show "held_locks (table_remove t i l) = held_locks t - {(i, l)}"
    by (auto simp: held_locks_def table_remove_def om_contains_find Let_def split: if_splits)
  show "table_locked t i None \<longleftrightarrow> (\<exists>l. (i, l) \<in> held_locks t)"
    using inv by (auto simp: table_locked_def held_locks_def table_inv_def om_contains_find) (metis all_not_in_conv)
qed

section \<open>ConnectionLockStates\<close>

record lock_states =
  localLocks :: lock_table
  remoteLocks :: lock_table
  weakLocks :: lock_table
  remotePrivateConnections :: "DhtAddress set"

definition ls_create :: lock_states where
  "ls_create = \<lparr>localLocks = [], remoteLocks = [], weakLocks = [], remotePrivateConnections = {}\<rparr>"

definition getLocalLockedConnectionCount :: "lock_states \<Rightarrow> nat" where
  "getLocalLockedConnectionCount s = length (localLocks s)"

definition getRemoteLockedConnectionCount :: "lock_states \<Rightarrow> nat" where
  "getRemoteLockedConnectionCount s = length (remoteLocks s)"

definition getWeakLockedConnectionCount :: "lock_states \<Rightarrow> nat" where
  "getWeakLockedConnectionCount s = length (weakLocks s)"

definition isLocalLocked :: "lock_states \<Rightarrow> DhtAddress \<Rightarrow> LockID option \<Rightarrow> bool" where
  "isLocalLocked s nid lockId = table_locked (localLocks s) nid lockId"

definition isRemoteLocked :: "lock_states \<Rightarrow> DhtAddress \<Rightarrow> LockID option \<Rightarrow> bool" where
  "isRemoteLocked s nid lockId = table_locked (remoteLocks s) nid lockId"

definition isWeakLocked :: "lock_states \<Rightarrow> DhtAddress \<Rightarrow> bool" where
  "isWeakLocked s nid = table_locked (weakLocks s) nid None"

definition isLocked :: "lock_states \<Rightarrow> DhtAddress \<Rightarrow> bool" where
  "isLocked s nid \<longleftrightarrow> isLocalLocked s nid None \<or> isRemoteLocked s nid None \<or> isWeakLocked s nid"

definition addLocalLocked :: "lock_states \<Rightarrow> DhtAddress \<Rightarrow> LockID \<Rightarrow> lock_states" where
  "addLocalLocked s nid lockId = s\<lparr>localLocks := table_add (localLocks s) nid lockId\<rparr>"

definition addRemoteLocked :: "lock_states \<Rightarrow> DhtAddress \<Rightarrow> LockID \<Rightarrow> lock_states" where
  "addRemoteLocked s nid lockId = s\<lparr>remoteLocks := table_add (remoteLocks s) nid lockId\<rparr>"

definition addWeakLocked :: "lock_states \<Rightarrow> DhtAddress \<Rightarrow> LockID \<Rightarrow> lock_states" where
  "addWeakLocked s nid lockId = s\<lparr>weakLocks := table_add (weakLocks s) nid lockId\<rparr>"

definition removeLocalLocked :: "lock_states \<Rightarrow> DhtAddress \<Rightarrow> LockID \<Rightarrow> lock_states" where
  "removeLocalLocked s nid lockId = s\<lparr>localLocks := table_remove (localLocks s) nid lockId\<rparr>"

definition removeRemoteLocked :: "lock_states \<Rightarrow> DhtAddress \<Rightarrow> LockID \<Rightarrow> lock_states" where
  "removeRemoteLocked s nid lockId = s\<lparr>remoteLocks := table_remove (remoteLocks s) nid lockId\<rparr>"

definition removeWeakLocked :: "lock_states \<Rightarrow> DhtAddress \<Rightarrow> LockID \<Rightarrow> lock_states" where
  "removeWeakLocked s nid lockId = s\<lparr>weakLocks := table_remove (weakLocks s) nid lockId\<rparr>"

definition addPrivate :: "lock_states \<Rightarrow> DhtAddress \<Rightarrow> lock_states" where
  "addPrivate s nid = s\<lparr>remotePrivateConnections := insert nid (remotePrivateConnections s)\<rparr>"

definition removePrivate :: "lock_states \<Rightarrow> DhtAddress \<Rightarrow> lock_states" where
  "removePrivate s nid = s\<lparr>remotePrivateConnections := remotePrivateConnections s - {nid}\<rparr>"

definition getPrivateConnections :: "lock_states \<Rightarrow> DhtAddress set" where
  "getPrivateConnections s = remotePrivateConnections s"

definition isPrivate :: "lock_states \<Rightarrow> DhtAddress \<Rightarrow> bool" where
  "isPrivate s nid \<longleftrightarrow> nid \<in> remotePrivateConnections s"

definition clearAllLocks :: "lock_states \<Rightarrow> DhtAddress \<Rightarrow> lock_states" where
  "clearAllLocks s nid = s\<lparr>localLocks := om_erase nid (localLocks s), remoteLocks := om_erase nid (remoteLocks s),
     weakLocks := om_erase nid (weakLocks s)\<rparr>"

definition ls_clear :: "lock_states \<Rightarrow> lock_states" where
  "ls_clear s = s\<lparr>localLocks := [], remoteLocks := [], weakLocks := []\<rparr>"

definition ls_inv :: "lock_states \<Rightarrow> bool" where
  "ls_inv s \<longleftrightarrow> table_inv (localLocks s) \<and> table_inv (remoteLocks s) \<and> table_inv (weakLocks s)"

section \<open>Any sequence of lock operations\<close>

datatype lock_op =
    AddLocal DhtAddress LockID
  | AddRemote DhtAddress LockID
  | AddWeak DhtAddress LockID
  | RemoveLocal DhtAddress LockID
  | RemoveRemote DhtAddress LockID
  | RemoveWeak DhtAddress LockID
  | AddPrivate DhtAddress
  | RemovePrivate DhtAddress
  | ClearAllLocks DhtAddress
  | Clear

fun lock_step :: "lock_states \<Rightarrow> lock_op \<Rightarrow> lock_states" where
  "lock_step s (AddLocal i l) = addLocalLocked s i l"
| "lock_step s (AddRemote i l) = addRemoteLocked s i l"
| "lock_step s (AddWeak i l) = addWeakLocked s i l"
| "lock_step s (RemoveLocal i l) = removeLocalLocked s i l"
| "lock_step s (RemoveRemote i l) = removeRemoteLocked s i l"
| "lock_step s (RemoveWeak i l) = removeWeakLocked s i l"
| "lock_step s (AddPrivate i) = addPrivate s i"
| "lock_step s (RemovePrivate i) = removePrivate s i"
| "lock_step s (ClearAllLocks i) = clearAllLocks s i"
| "lock_step s Clear = ls_clear s"

lemmas lock_defs = addLocalLocked_def addRemoteLocked_def addWeakLocked_def removeLocalLocked_def
  removeRemoteLocked_def removeWeakLocked_def addPrivate_def removePrivate_def clearAllLocks_def ls_clear_def

lemma table_inv_erase: "table_inv t \<Longrightarrow> table_inv (om_erase i t)"
  by (auto simp: table_inv_def)

lemma table_inv_Nil: "table_inv []"
  by (simp add: table_inv_def om_find_def)

lemma held_erase: "held_locks (om_erase i t) = {x \<in> held_locks t. fst x \<noteq> i}"
  by (auto simp: held_locks_def split: if_splits)

lemma held_Nil: "held_locks [] = {}"
  by (simp add: held_locks_def om_find_def)

interpretation lk: op_machine lock_step ls_inv "\<lambda>_. True"
proof unfold_locales
  fix s op
  assume "ls_inv s"
  then show "ls_inv (lock_step s op)"
    by (cases op) (auto simp: ls_inv_def lock_defs locks.inv_add locks.inv_remove table_inv_erase table_inv_Nil)
qed

text \<open>The abstract lock state: all locks a node is kept open by, tagged by their kind.\<close>

datatype lock_kind = LocalLock | RemoteLock | WeakLock

definition all_locks :: "lock_states \<Rightarrow> (lock_kind \<times> DhtAddress \<times> LockID) set" where
  "all_locks s = {LocalLock} \<times> held_locks (localLocks s) \<union> {RemoteLock} \<times> held_locks (remoteLocks s) \<union>
     {WeakLock} \<times> held_locks (weakLocks s)"

fun spec_step :: "(lock_kind \<times> DhtAddress \<times> LockID) set \<Rightarrow> lock_op \<Rightarrow> (lock_kind \<times> DhtAddress \<times> LockID) set" where
  "spec_step L (AddLocal i l) = insert (LocalLock, i, l) L"
| "spec_step L (AddRemote i l) = insert (RemoteLock, i, l) L"
| "spec_step L (AddWeak i l) = insert (WeakLock, i, l) L"
| "spec_step L (RemoveLocal i l) = L - {(LocalLock, i, l)}"
| "spec_step L (RemoveRemote i l) = L - {(RemoteLock, i, l)}"
| "spec_step L (RemoveWeak i l) = L - {(WeakLock, i, l)}"
| "spec_step L (AddPrivate i) = L"
| "spec_step L (RemovePrivate i) = L"
| "spec_step L (ClearAllLocks i) = {x \<in> L. fst (snd x) \<noteq> i}"
| "spec_step L Clear = {}"

lemma lock_step_spec: "ls_inv s \<Longrightarrow> all_locks (lock_step s op) = spec_step (all_locks s) op"
  by (cases op) (auto simp: all_locks_def lock_defs ls_inv_def locks.held_add locks.held_remove held_erase held_Nil)

lemma lock_run_spec: "ls_inv s \<Longrightarrow> all_locks (foldl lock_step s ops) = foldl spec_step (all_locks s) ops"
  by (induction ops arbitrary: s) (auto simp: lock_step_spec lk.step_inv)

lemma isLocked_iff: "ls_inv s \<Longrightarrow> isLocked s i \<longleftrightarrow> (\<exists>k l. (k, i, l) \<in> all_locks s)"
  unfolding isLocked_def isLocalLocked_def isRemoteLocked_def isWeakLocked_def ls_inv_def all_locks_def
  by (auto simp: locks.locked_iff)

lemma ls_create_spec: "ls_inv ls_create \<and> all_locks ls_create = {}"
  by (simp add: ls_create_def ls_inv_def all_locks_def table_inv_Nil held_Nil)

section \<open>Properties\<close>

text \<open>
  C40. The lock tables refine one set of tagged locks: after any sequence of lock, unlock, privacy and
  clear operations a connection is reported as locked exactly when some local, remote or weak
  lock on it has been added and neither removed nor cleared since.
\<close>

theorem lock_states_refine:
  "all_locks (foldl lock_step ls_create ops) = foldl spec_step {} ops \<and>
   (isLocked (foldl lock_step ls_create ops) i \<longleftrightarrow> (\<exists>k l. (k, i, l) \<in> foldl spec_step {} ops))"
  using lock_run_spec [of ls_create ops] lk.run_inv [of ls_create ops] ls_create_spec isLocked_iff
  by (simp add: list_all_def)

text \<open>
  The numbers of locked connections count the nodes with at least one lock: a table never keeps
  an entry with an empty lock set, so an unlocked node is not counted.
\<close>

theorem locked_counts:
  fixes ops
  defines "s \<equiv> foldl lock_step ls_create ops"
  shows "getLocalLockedConnectionCount s = card (fst ` held_locks (localLocks s)) \<and>
         getRemoteLockedConnectionCount s = card (fst ` held_locks (remoteLocks s)) \<and>
         getWeakLockedConnectionCount s = card (fst ` held_locks (weakLocks s))"
proof -
  have inv: "ls_inv s" unfolding s_def using lk.run_inv ls_create_spec by (simp add: list_all_def)
  have "length t = card (fst ` held_locks t)" if "table_inv t" for t
  proof -
    have "i \<in> dom (om_find t) \<longleftrightarrow> (\<exists>l. (i, l) \<in> held_locks t)" for i
      using locks.locked_iff [OF that, of i] by (auto simp: table_locked_def om_contains_find)
    then have "fst ` held_locks t = dom (om_find t)" by (auto simp: Domain_fst [symmetric])
    also have "\<dots> = set (map fst t)" by (metis set_om_keys om_keys_def)
    finally show ?thesis using that distinct_card [of "map fst t"] by (simp add: table_inv_def om_ok_distinct)
  qed
  then show ?thesis using inv
    by (simp add: ls_inv_def getLocalLockedConnectionCount_def getRemoteLockedConnectionCount_def getWeakLockedConnectionCount_def)
qed

end
