(* ===== verification/Duplicate_Detector.thy ===== *)
theory Duplicate_Detector
  imports Prelude
begin

text \<open>
  The bounded memory of recent message ids that the connection manager and the router share
  (\<^verbatim>\<open>DuplicateDetector.cppm\<close>), and what its clients' check-then-add pattern guarantees.
\<close>

section \<open>The detector\<close>

record duplicate_detector =
  dd_values :: "string set"
  dd_queue :: "string list"
  dd_maxItemCount :: nat

definition dd_create :: "nat \<Rightarrow> duplicate_detector" where
  "dd_create n = \<lparr>dd_values = {}, dd_queue = [], dd_maxItemCount = n\<rparr>"

definition dd_add :: "duplicate_detector \<Rightarrow> string \<Rightarrow> duplicate_detector" where
  "dd_add d value =
     (let values = insert value (dd_values d);
          queue = dd_queue d @ [value]
      in if length queue > dd_maxItemCount d
         then d\<lparr>dd_values := values - {hd queue}, dd_queue := tl queue\<rparr>
         else d\<lparr>dd_values := values, dd_queue := queue\<rparr>)"

definition isMostLikelyDuplicate :: "duplicate_detector \<Rightarrow> string \<Rightarrow> bool" where
  "isMostLikelyDuplicate d value \<longleftrightarrow> value \<in> dd_values d"

definition dd_size :: "duplicate_detector \<Rightarrow> nat" where
  "dd_size d = card (dd_values d)"

definition dd_clear :: "duplicate_detector \<Rightarrow> duplicate_detector" where
  "dd_clear d = d\<lparr>dd_values := {}, dd_queue := []\<rparr>"

definition dd_inv :: "duplicate_detector \<Rightarrow> bool" where
  "dd_inv d \<longleftrightarrow> dd_values d = set (dd_queue d) \<and> distinct (dd_queue d) \<and> length (dd_queue d) \<le> dd_maxItemCount d"

section \<open>A bounded window of recent values\<close>

definition lastn :: "nat \<Rightarrow> 'a list \<Rightarrow> 'a list" where
  "lastn n xs = drop (length xs - n) xs"

lemma lastn_snoc: "lastn n (xs @ [x]) = (if n = 0 then [] else lastn (n - 1) xs @ [x])"
  by (auto simp: lastn_def Suc_diff_le diff_le_mono2)

lemma lastn_step: "0 < n \<Longrightarrow> length w \<le> n \<Longrightarrow> w = lastn n xs \<Longrightarrow>
    lastn n (xs @ [x]) = (if length w < n then w @ [x] else tl w @ [x])"
  by (auto simp: lastn_def drop_Suc tl_drop [symmetric] Suc_diff_le)

text \<open>
  The interface of a window of at most \<open>cap\<close> recent values, and the client pattern that
  handles a value only if it is not in the window.
\<close>

locale recent_window =
  fixes add :: "'s \<Rightarrow> 'v \<Rightarrow> 's"
    and contains :: "'s \<Rightarrow> 'v \<Rightarrow> bool"
    and window :: "'s \<Rightarrow> 'v list"
    and cap :: "'s \<Rightarrow> nat"
    and inv :: "'s \<Rightarrow> bool"
  assumes inv_add: "inv s \<Longrightarrow> \<not> contains s v \<Longrightarrow> inv (add s v)"
    and contains_iff: "inv s \<Longrightarrow> contains s v \<longleftrightarrow> v \<in> set (window s)"
    and window_bound: "inv s \<Longrightarrow> length (window s) \<le> cap s"
    and window_add: "inv s \<Longrightarrow> \<not> contains s v \<Longrightarrow> 0 < cap s \<Longrightarrow>
      window (add s v) = (if length (window s) < cap s then window s @ [v] else tl (window s) @ [v])"
    and cap_add: "cap (add s v) = cap s"
begin

fun accept :: "'s \<Rightarrow> 'v list \<Rightarrow> 's \<times> 'v list" where
  "accept s [] = (s, [])"
| "accept s (v # vs) =
     (if contains s v then accept s vs
      else (case accept (add s v) vs of (s', acc) \<Rightarrow> (s', v # acc)))"

lemma accept_inv: "inv s \<Longrightarrow> inv (fst (accept s vs)) \<and> cap (fst (accept s vs)) = cap s"
  by (induction s vs rule: accept.induct) (auto simp: inv_add cap_add split: prod.splits)

lemma accept_window:
  assumes "inv s" "0 < cap s" "window s = lastn (cap s) hist"
  shows "window (fst (accept s vs)) = lastn (cap s) (hist @ snd (accept s vs)) \<and>
         (\<forall>i < length (snd (accept s vs)). snd (accept s vs) ! i \<notin> set (lastn (cap s) (hist @ take i (snd (accept s vs)))))"
  using assms
proof (induction s vs arbitrary: hist rule: accept.induct)
  case (2 s v vs)
  show ?case
  proof (cases "contains s v")
    case True
    then show ?thesis using 2 by simp
  next
    case False
    have w: "window (add s v) = lastn (cap (add s v)) (hist @ [v])"
      using window_add [OF 2(3) False 2(4)] lastn_step [OF 2(4) window_bound [OF 2(3)] 2(5)]
      by (simp add: cap_add)
    obtain s' acc where run: "accept (add s v) vs = (s', acc)" by force
    have IH: "window s' = lastn (cap s) (hist @ v # acc) \<and>
        (\<forall>i < length acc. acc ! i \<notin> set (lastn (cap s) (hist @ v # take i acc)))"
      using 2(2) [OF False inv_add [OF 2(3) False] _ w] 2(4) run by (simp add: cap_add)
    have "v \<notin> set (lastn (cap s) hist)" using False contains_iff [OF 2(3)] 2(5) by simp
    then have "(v # acc) ! i \<notin> set (lastn (cap s) (hist @ take i (v # acc)))" if "i < length (v # acc)" for i
      using IH that by (cases i) auto
    then show ?thesis using False run IH by simp
  qed
qed simp

text \<open>Two acceptances of the same value are more than \<open>cap\<close> acceptances apart.\<close>

lemma accept_spaced:
  assumes "inv s" "0 < cap s" "window s = []"
    and i: "i < j" "j < length (snd (accept s vs))" "snd (accept s vs) ! i = snd (accept s vs) ! j"
  shows "cap s < j - i"
proof (rule ccontr)
  assume near: "\<not> cap s < j - i"
  let ?acc = "snd (accept s vs)"
  have "window s = lastn (cap s) []" using assms(3) by (simp add: lastn_def)
  then have "?acc ! j \<notin> set (lastn (cap s) (take j ?acc))"
    using accept_window [OF assms(1,2), of "[]" vs] i(2) by simp
  moreover have "?acc ! i \<in> set (lastn (cap s) (take j ?acc))"
  proof -
    let ?k = "i - (j - cap s)"
    have "lastn (cap s) (take j ?acc) ! ?k = ?acc ! i" "?k < length (lastn (cap s) (take j ?acc))"
      using i near by (auto simp: lastn_def min_def)
    then show ?thesis by (metis nth_mem)
  qed
  ultimately show False using i(3) by simp
qed

end

section \<open>The detector is such a window\<close>

lemma dd_inv_create: "dd_inv (dd_create n)"
  by (simp add: dd_inv_def dd_create_def)

interpretation dd: recent_window dd_add isMostLikelyDuplicate dd_queue dd_maxItemCount dd_inv
proof unfold_locales
  fix s v
  show "dd_maxItemCount (dd_add s v) = dd_maxItemCount s" by (simp add: dd_add_def Let_def)
  assume inv: "dd_inv s"
  show "isMostLikelyDuplicate s v \<longleftrightarrow> v \<in> set (dd_queue s)" "length (dd_queue s) \<le> dd_maxItemCount s"
    using inv by (auto simp: dd_inv_def isMostLikelyDuplicate_def)
  assume new: "\<not> isMostLikelyDuplicate s v"
  show "dd_inv (dd_add s v)"
    using inv new
    by (cases "dd_queue s") (auto simp: dd_inv_def dd_add_def Let_def isMostLikelyDuplicate_def)
  show "dd_queue (dd_add s v) =
      (if length (dd_queue s) < dd_maxItemCount s then dd_queue s @ [v] else tl (dd_queue s) @ [v])"
    if "0 < dd_maxItemCount s"
    using that inv by (cases "dd_queue s") (auto simp: dd_add_def dd_inv_def Let_def)
qed

section \<open>Properties\<close>

text \<open>
  A client that handles a value only when the detector does not know it, and adds it then, never
  handles the same value twice within \<open>maxItemCount\<close> handled values, whatever arrives.
\<close>

theorem handled_once_in_window:
  assumes "0 < n" "i < j" "j < length (snd (dd.accept (dd_create n) vs))"
    and "snd (dd.accept (dd_create n) vs) ! i = snd (dd.accept (dd_create n) vs) ! j"
  shows "n < j - i"
  using dd.accept_spaced [OF dd_inv_create, of n i j vs] assms by (simp add: dd_create_def)

theorem handled_once_witness:
  "snd (dd.accept (dd_create 1) [''a'', ''b'', ''b'', ''a'']) = [''a'', ''b'', ''a''] \<and> (1 :: nat) < 2 - 0"
proof -
  have run: "snd (dd.accept (dd_create 1) [''a'', ''b'', ''b'', ''a'']) = [''a'', ''b'', ''a'']"
    by (simp add: dd_create_def dd_add_def isMostLikelyDuplicate_def)
  moreover have "(1 :: nat) < 2 - 0" 
    using handled_once_in_window [of 1 0 2 "[''a'', ''b'', ''b'', ''a'']", unfolded run] by simp
  ultimately show ?thesis by blast
qed

text \<open>
  The spacing depends on the check before the addition: adding a value that is still queued
  makes the eviction of the older copy forget the value although its newer copy is in the queue.
\<close>

theorem readd_forgets:
  assumes "dd_inv d" "dd_queue d = v # rest" "length (dd_queue d) = dd_maxItemCount d"
  shows "v \<in> set (dd_queue (dd_add d v)) \<and> \<not> isMostLikelyDuplicate (dd_add d v) v"
  using assms by (auto simp: dd_add_def isMostLikelyDuplicate_def Let_def)

theorem readd_forgets_witness:
  "''a'' \<in> set (dd_queue (dd_add (dd_add (dd_create 1) ''a'') ''a'')) \<and>
   \<not> isMostLikelyDuplicate (dd_add (dd_add (dd_create 1) ''a'') ''a'') ''a''"
  by (rule readd_forgets [where rest = "[]"]) (simp_all add: dd_add_def dd_create_def dd_inv_def Let_def)

end
