(* ===== verification/Connection_Manager.thy ===== *)
theory Connection_Manager
  imports Endpoint Connection_Locks Duplicate_Detector Identifiers
begin

text \<open>
  The connection manager (\<^verbatim>\<open>ConnectionManager.cppm\<close>), the RPC handlers of its lock service
  (\<^verbatim>\<open>ConnectionLockRpcLocal.cppm\<close>) and the choice of the offerer (\<^verbatim>\<open>Offerer.cppm\<close>).
  Endpoints are shared objects: \<open>cmHeap\<close> holds every endpoint ever created, and the container maps a
  node id to an index of it.
\<close>

section \<open>Surroundings\<close>

text \<open>\<^verbatim>\<open>IPendingConnection\<close> as the manager sees it, and the parts of a \<^verbatim>\<open>Message\<close> it reads.\<close>

record pending =
  pendingId :: nat
  pendingPeer :: PeerDescriptor

record Message =
  messageId :: string
  serviceId :: string
  hasRpcMessage :: bool
  msgBody :: bytes
  sourceDescriptor :: "PeerDescriptor option"
  targetDescriptor :: PeerDescriptor

text \<open>
  Code outside of the repository and the manager's surroundings: the hex codec, MD5, the wire format
  of messages, the connector facade's local descriptor and the pending connections it creates.
\<close>

record cm_env =
  envHex :: hex_codec
  envMd5 :: "string \<Rightarrow> bytes"
  envSerialize :: "Message \<Rightarrow> bytes"
  envParse :: "bytes \<Rightarrow> Message option"
  envLocalPeerDescriptor :: PeerDescriptor
  envCreateConnection :: "PeerDescriptor \<Rightarrow> pending"

datatype cm_error =
    CannotConnectToSelf string
  | SendFailed string
  | CouldNotStart string
  | EndpointError cpp_error

abbreviation nodeIdOf :: "cm_env \<Rightarrow> PeerDescriptor \<Rightarrow> DhtAddress" where
  "nodeIdOf env pd \<equiv> getNodeIdFromPeerDescriptor (envHex env) pd"

section \<open>The offerer\<close>

datatype Offerer = LOCAL | REMOTE

text \<open>The first four bytes of the digest, little endian, as a signed 32-bit number.\<close>

definition getOfferingHash :: "(string \<Rightarrow> bytes) \<Rightarrow> string \<Rightarrow> int" where
  "getOfferingHash md5 idPair =
     sint (word_of_int (foldr (\<lambda>b acc. uint b + 256 * acc) (take 4 (md5 idPair)) 0) :: 32 word)"

definition getOfferer :: "(string \<Rightarrow> bytes) \<Rightarrow> DhtAddress \<Rightarrow> DhtAddress \<Rightarrow> Offerer" where
  "getOfferer md5 localNodeId remoteNodeId =
     (if getOfferingHash md5 (localNodeId @ '','' @ remoteNodeId) < getOfferingHash md5 (remoteNodeId @ '','' @ localNodeId)
      then LOCAL else REMOTE)"

section \<open>State\<close>

datatype cm_status = IDLE | RUNNING | STOPPING | STOPPED

record conn_manager =
  cmStatus :: cm_status
  cmAllowPrivate :: bool
  cmHeap :: "(PeerDescriptor \<times> endpoint) list"
  cmEndpoints :: "(DhtAddress, nat) omap"
  cmSequence :: nat
  cmLocks :: lock_states
  cmDuplicates :: duplicate_detector

definition DUPLICATE_DETECTOR_SIZE :: nat where
  "DUPLICATE_DETECTOR_SIZE = 10000"

definition INTERNAL_SERVICE_ID :: string where
  "INTERNAL_SERVICE_ID = ''system/connection-manager''"

definition cm_create :: "bool \<Rightarrow> conn_manager" where
  "cm_create allowPrivate =
     \<lparr>cmStatus = IDLE, cmAllowPrivate = allowPrivate, cmHeap = [], cmEndpoints = [], cmSequence = 0,
      cmLocks = ls_create, cmDuplicates = dd_create DUPLICATE_DETECTOR_SIZE\<rparr>"

datatype DisconnectMode = NORMAL | LEAVING

text \<open>What the manager does to its surroundings.\<close>

datatype cm_out =
    EndpointOut nat ep_out
  | TransportConnected PeerDescriptor
  | TransportDisconnected PeerDescriptor bool
  | TransportMessage Message
  | HandleRpcMessage Message
  | RpcLock PeerDescriptor LockID
  | RpcUnlock PeerDescriptor LockID
  | RpcGracefulDisconnect PeerDescriptor DisconnectMode
  | StartFacade
  | StopFacade
  | RemoveTransportListeners

section \<open>Incoming data\<close>

definition handleMessage :: "conn_manager \<Rightarrow> Message \<Rightarrow> conn_manager \<times> cm_out list" where
  "handleMessage cm message =
     (if \<not> hasRpcMessage message then (cm, [])
      else if isMostLikelyDuplicate (cmDuplicates cm) (messageId message) then (cm, [])
      else (let cm1 = cm\<lparr>cmDuplicates := dd_add (cmDuplicates cm) (messageId message)\<rparr>
            in if serviceId message = INTERNAL_SERVICE_ID then (cm1, [HandleRpcMessage message])
               else (cm1, [TransportMessage message])))"

definition onData :: "cm_env \<Rightarrow> conn_manager \<Rightarrow> bytes \<Rightarrow> PeerDescriptor \<Rightarrow> conn_manager \<times> cm_out list" where
  "onData env cm data peerDescriptor =
     (if cmStatus cm = STOPPED then (cm, [])
      else (case envParse env data of
              None \<Rightarrow> (cm, [])
            | Some message \<Rightarrow> handleMessage cm (message\<lparr>sourceDescriptor := Some peerDescriptor\<rparr>)))"

section \<open>Endpoints\<close>

text \<open>
  The listeners \<^verbatim>\<open>createEndpoint\<close> wires to an endpoint, and the callback that removes it: what the manager
  does for each effect of the endpoint with index \<open>i\<close>, in order.
\<close>

fun cm_apply :: "cm_env \<Rightarrow> conn_manager \<Rightarrow> nat \<Rightarrow> ep_out list \<Rightarrow> conn_manager \<times> cm_out list" where
  "cm_apply env cm i [] = (cm, [])"
| "cm_apply env cm i (x # xs) =
     (let pd = fst (cmHeap cm ! i);
          r = (case x of
                 RemoveSelfFromContainer \<Rightarrow>
                   ((if om_contains (cmEndpoints cm) (nodeIdOf env pd)
                     then cm\<lparr>cmEndpoints := om_erase (nodeIdOf env pd) (cmEndpoints cm)\<rparr> else cm),
                    [TransportDisconnected pd True])
               | EmitConnected \<Rightarrow> (cm, [TransportConnected pd])
               | EmitData data \<Rightarrow> onData env cm data pd
               | _ \<Rightarrow> (cm, [EndpointOut i x]))
      in case r of (cm1, o1) \<Rightarrow> (case cm_apply env cm1 i xs of (cm2, o2) \<Rightarrow> (cm2, o1 @ o2)))"

definition cm_set_endpoint :: "conn_manager \<Rightarrow> nat \<Rightarrow> endpoint \<Rightarrow> conn_manager" where
  "cm_set_endpoint cm i ep = cm\<lparr>cmHeap := (cmHeap cm)[i := (fst (cmHeap cm ! i), ep)]\<rparr>"

definition cm_endpoint :: "conn_manager \<Rightarrow> nat \<Rightarrow> endpoint" where
  "cm_endpoint cm i = snd (cmHeap cm ! i)"

definition cm_update :: "cm_env \<Rightarrow> conn_manager \<Rightarrow> nat \<Rightarrow> endpoint \<times> ep_out list \<Rightarrow> conn_manager \<times> cm_out list" where
  "cm_update env cm i r = cm_apply env (cm_set_endpoint cm i (fst r)) i (snd r)"

section \<open>Accepting connections\<close>

text \<open>
  The section of \<^verbatim>\<open>acceptNewConnection\<close> under the container's mutex: the tie-break decision, the
  creation of a missing endpoint and the sequence number.  \<open>None\<close> is a rejected connection.
\<close>

definition accept_decide :: "cm_env \<Rightarrow> conn_manager \<Rightarrow> pending \<Rightarrow> bool \<Rightarrow> conn_manager \<times> (nat \<times> nat) option" where
  "accept_decide env cm newConnection isLocalInitiated =
     (let peerDescriptor = pendingPeer newConnection;
          nid = nodeIdOf env peerDescriptor;
          localNodeId = nodeIdOf env (envLocalPeerDescriptor env);
          localIsOfferer = (getOfferer (envMd5 env) localNodeId nid = LOCAL);
          newConnectionWins = (isLocalInitiated = localIsOfferer)
      in case om_find (cmEndpoints cm) nid of
           Some i \<Rightarrow>
             (if \<not> newConnectionWins then (cm, None)
              else (cm\<lparr>cmSequence := cmSequence cm + 1\<rparr>, Some (i, cmSequence cm + 1)))
         | None \<Rightarrow>
             (let i = length (cmHeap cm)
              in (cm\<lparr>cmHeap := cmHeap cm @ [(peerDescriptor, ep_create)],
                     cmEndpoints := om_emplace nid i (cmEndpoints cm),
                     cmSequence := cmSequence cm + 1\<rparr>, Some (i, cmSequence cm + 1))))"

text \<open>The part after the mutex is released: \<^verbatim>\<open>setConnecting\<close> and the registration of the handlers.\<close>

definition accept_adopt :: "cm_env \<Rightarrow> conn_manager \<Rightarrow> nat \<Rightarrow> pending \<Rightarrow> nat \<Rightarrow> conn_manager \<times> cm_out list" where
  "accept_adopt env cm i newConnection sequenceNumber =
     (let r = setConnecting (cm_endpoint cm i) (pendingId newConnection) sequenceNumber
      in case cm_update env cm i r of
           (cm1, o1) \<Rightarrow>
             (if OnPending (pendingId newConnection) \<in> set (snd r)
              then (case cm_update env cm1 i (commitHandlers (cm_endpoint cm1 i) (pendingId newConnection)) of
                      (cm2, o2) \<Rightarrow> (cm2, o1 @ o2))
              else (cm1, o1)))"

definition acceptNewConnection :: "cm_env \<Rightarrow> conn_manager \<Rightarrow> pending \<Rightarrow> bool \<Rightarrow> conn_manager \<times> cm_out list \<times> bool" where
  "acceptNewConnection env cm newConnection isLocalInitiated =
     (case accept_decide env cm newConnection isLocalInitiated of
        (cm1, None) \<Rightarrow> (cm1, [], False)
      | (cm1, Some (i, n)) \<Rightarrow> (case accept_adopt env cm1 i newConnection n of (cm2, o2) \<Rightarrow> (cm2, o2, True)))"

definition onNewConnection :: "cm_env \<Rightarrow> conn_manager \<Rightarrow> pending \<Rightarrow> bool \<Rightarrow> conn_manager \<times> cm_out list \<times> bool" where
  "onNewConnection env cm connection isLocalInitiated =
     (if cmStatus cm = STOPPED then (cm, [], False)
      else acceptNewConnection env cm connection isLocalInitiated)"

section \<open>Sending\<close>

definition isOwnWebsocketServer :: "cm_env \<Rightarrow> PeerDescriptor \<Rightarrow> bool" where
  "isOwnWebsocketServer env peerDescriptor =
     (case (websocket peerDescriptor, websocket (envLocalPeerDescriptor env)) of
        (Some a, Some b) \<Rightarrow> cm_port a = cm_port b \<and> cm_host a = cm_host b
      | _ \<Rightarrow> False)"

definition isConnectionToSelf :: "cm_env \<Rightarrow> PeerDescriptor \<Rightarrow> bool" where
  "isConnectionToSelf env peerDescriptor \<longleftrightarrow>
     areEqualPeerDescriptors peerDescriptor (envLocalPeerDescriptor env) \<or> isOwnWebsocketServer env peerDescriptor"

record SendOptions =
  soConnect :: bool
  soSendIfStopped :: bool

text \<open>The last part of \<^verbatim>\<open>send\<close>: serialise with the local descriptor as the source and hand over to the endpoint.\<close>

definition send_on_endpoint :: "cm_env \<Rightarrow> conn_manager \<Rightarrow> nat \<Rightarrow> Message \<Rightarrow> conn_manager \<times> cm_out list \<times> cm_error option" where
  "send_on_endpoint env cm i message =
     (let messageWithSource = message\<lparr>sourceDescriptor := Some (envLocalPeerDescriptor env)\<rparr>;
          byteVec = envSerialize env messageWithSource
      in if byteVec = [] then (cm, [], Some (SendFailed ''send(): serialized message is empty''))
         else (case ep_send (cm_endpoint cm i) byteVec of
                 Inl e \<Rightarrow> (cm, [], Some (EndpointError e))
               | Inr r \<Rightarrow> (case cm_update env cm i r of (cm1, o1) \<Rightarrow> (cm1, o1, None))))"

definition cm_send :: "cm_env \<Rightarrow> conn_manager \<Rightarrow> Message \<Rightarrow> SendOptions \<Rightarrow> conn_manager \<times> cm_out list \<times> cm_error option" where
  "cm_send env cm message sendOptions =
     (if (cmStatus cm = STOPPED \<or> cmStatus cm = STOPPING) \<and> \<not> soSendIfStopped sendOptions then (cm, [], None)
      else if isConnectionToSelf env (targetDescriptor message)
      then (cm, [], Some (CannotConnectToSelf ''Cannot send to self''))
      else (let peerDescriptor = targetDescriptor message; nid = nodeIdOf env peerDescriptor
            in case om_find (cmEndpoints cm) nid of
                 None \<Rightarrow>
                   (if \<not> soConnect sendOptions
                    then (cm, [], Some (SendFailed ''No connection to target, connect flag is false''))
                    else (case onNewConnection env cm (envCreateConnection env peerDescriptor) True of
                            (cm1, o1, accepted) \<Rightarrow>
                              (case om_find (cmEndpoints cm1) nid of
                                 None \<Rightarrow> (cm1, o1, Some (SendFailed ''No connection to target, connection failed''))
                               | Some i \<Rightarrow>
                                   (case send_on_endpoint env cm1 i message of
                                      (cm2, o2, err) \<Rightarrow> (cm2, o1 @ o2, err)))))
               | Some i \<Rightarrow>
                   (if \<not> ep_isConnected (cm_endpoint cm i) \<and> \<not> soConnect sendOptions
                    then (cm, [], Some (SendFailed ''No connection to target, connect flag is false''))
                    else send_on_endpoint env cm i message)))"

section \<open>Views\<close>

definition getConnections :: "conn_manager \<Rightarrow> PeerDescriptor list" where
  "getConnections cm =
     map (\<lambda>i. fst (cmHeap cm ! i)) (filter (\<lambda>i. ep_isConnected (cm_endpoint cm i)) (om_values (cmEndpoints cm)))"

definition hasConnection :: "cm_env \<Rightarrow> conn_manager \<Rightarrow> DhtAddress \<Rightarrow> bool" where
  "hasConnection env cm nid \<longleftrightarrow> list_ex (\<lambda>c. nodeIdOf env c = nid) (getConnections cm)"

definition getConnectionCount :: "conn_manager \<Rightarrow> nat" where
  "getConnectionCount cm = length (getConnections cm)"

definition hasLocalLockedConnection :: "conn_manager \<Rightarrow> DhtAddress \<Rightarrow> bool" where
  "hasLocalLockedConnection cm nid = isLocalLocked (cmLocks cm) nid None"

definition hasRemoteLockedConnection :: "conn_manager \<Rightarrow> DhtAddress \<Rightarrow> bool" where
  "hasRemoteLockedConnection cm nid = isRemoteLocked (cmLocks cm) nid None"

section \<open>Locks\<close>

definition lockConnection :: "cm_env \<Rightarrow> conn_manager \<Rightarrow> PeerDescriptor \<Rightarrow> LockID \<Rightarrow> conn_manager \<times> cm_out list" where
  "lockConnection env cm target lockId =
     (if cmStatus cm = STOPPED \<or> areEqualPeerDescriptors target (envLocalPeerDescriptor env) then (cm, [])
      else (cm\<lparr>cmLocks := addLocalLocked (cmLocks cm) (nodeIdOf env target) lockId\<rparr>, [RpcLock target lockId]))"

definition unlockConnection :: "cm_env \<Rightarrow> conn_manager \<Rightarrow> PeerDescriptor \<Rightarrow> LockID \<Rightarrow> conn_manager \<times> cm_out list" where
  "unlockConnection env cm target lockId =
     (if cmStatus cm = STOPPED \<or> areEqualPeerDescriptors target (envLocalPeerDescriptor env) then (cm, [])
      else (let cm1 = cm\<lparr>cmLocks := removeLocalLocked (cmLocks cm) (nodeIdOf env target) lockId\<rparr>
            in if \<not> om_contains (cmEndpoints cm1) (nodeIdOf env target) then (cm1, [])
               else (cm1, [RpcUnlock target lockId])))"

definition weakLockConnection :: "cm_env \<Rightarrow> conn_manager \<Rightarrow> DhtAddress \<Rightarrow> LockID \<Rightarrow> conn_manager" where
  "weakLockConnection env cm nid lockId =
     (if cmStatus cm = STOPPED \<or> nid = nodeIdOf env (envLocalPeerDescriptor env) then cm
      else cm\<lparr>cmLocks := addWeakLocked (cmLocks cm) nid lockId\<rparr>)"

definition weakUnlockConnection :: "cm_env \<Rightarrow> conn_manager \<Rightarrow> DhtAddress \<Rightarrow> LockID \<Rightarrow> conn_manager" where
  "weakUnlockConnection env cm nid lockId =
     (if cmStatus cm = STOPPED \<or> nid = nodeIdOf env (envLocalPeerDescriptor env) then cm
      else cm\<lparr>cmLocks := removeWeakLocked (cmLocks cm) nid lockId\<rparr>)"

section \<open>Closing\<close>

definition closeConnection :: "cm_env \<Rightarrow> conn_manager \<Rightarrow> PeerDescriptor \<Rightarrow> bool \<Rightarrow> conn_manager \<times> cm_out list" where
  "closeConnection env cm peerDescriptor gracefulLeave =
     (let nid = nodeIdOf env peerDescriptor;
          cm1 = cm\<lparr>cmLocks := clearAllLocks (cmLocks cm) nid\<rparr>
      in case om_find (cmEndpoints cm1) nid of
           Some i \<Rightarrow> cm_update env cm1 i (ep_close (cm_endpoint cm1 i) gracefulLeave)
         | None \<Rightarrow> (cm1, [TransportDisconnected peerDescriptor False]))"

text \<open>
  \<open>answered\<close> says whether the endpoint's disconnection arrived before the two seconds were over; otherwise
  the wait throws and the endpoint is closed.
\<close>

definition gracefullyDisconnect :: "cm_env \<Rightarrow> conn_manager \<Rightarrow> PeerDescriptor \<Rightarrow> DisconnectMode \<Rightarrow> bool \<Rightarrow> conn_manager \<times> cm_out list" where
  "gracefullyDisconnect env cm target mode answered =
     (case om_find (cmEndpoints cm) (nodeIdOf env target) of
        None \<Rightarrow> (cm, [])
      | Some i \<Rightarrow>
          (if ep_isConnected (cm_endpoint cm i)
           then (if answered then (cm, [RpcGracefulDisconnect target mode])
                 else (case cm_update env cm i (ep_close (cm_endpoint cm i) True) of
                         (cm1, o1) \<Rightarrow> (cm1, RpcGracefulDisconnect target mode # o1)))
           else cm_update env cm i (ep_close (cm_endpoint cm i) True)))"

definition cm_start :: "conn_manager \<Rightarrow> conn_manager \<times> cm_out list \<times> cm_error option" where
  "cm_start cm =
     (if cmStatus cm = RUNNING \<or> cmStatus cm = STOPPED
      then (cm, [], Some (CouldNotStart ''Cannot start already started module ConnectionManager''))
      else (cm\<lparr>cmStatus := RUNNING\<rparr>, [StartFacade], None))"

fun disconnect_all :: "cm_env \<Rightarrow> conn_manager \<Rightarrow> (PeerDescriptor \<times> bool) list \<Rightarrow> conn_manager \<times> cm_out list" where
  "disconnect_all env cm [] = (cm, [])"
| "disconnect_all env cm ((target, answered) # rest) =
     (case gracefullyDisconnect env cm target LEAVING answered of
        (cm1, o1) \<Rightarrow> (case disconnect_all env cm1 rest of (cm2, o2) \<Rightarrow> (cm2, o1 @ o2)))"

definition cm_stop :: "cm_env \<Rightarrow> conn_manager \<Rightarrow> (PeerDescriptor \<Rightarrow> bool) \<Rightarrow> conn_manager \<times> cm_out list" where
  "cm_stop env cm answered =
     (if cmStatus cm = STOPPED \<or> cmStatus cm = STOPPING then (cm, [])
      else (let cm1 = cm\<lparr>cmStatus := STOPPING\<rparr>;
                targets = map (\<lambda>i. fst (cmHeap cm1 ! i)) (om_values (cmEndpoints cm1))
            in case disconnect_all env cm1 (map (\<lambda>pd. (pd, answered pd)) targets) of
                 (cm2, o2) \<Rightarrow>
                   (cm2\<lparr>cmStatus := STOPPED, cmDuplicates := dd_clear (cmDuplicates cm2), cmLocks := ls_clear (cmLocks cm2)\<rparr>,
                    o2 @ [StopFacade, RemoveTransportListeners])))"

section \<open>The lock service\<close>

definition lockRequest :: "cm_env \<Rightarrow> conn_manager \<Rightarrow> LockID \<Rightarrow> PeerDescriptor \<Rightarrow> conn_manager \<times> bool" where
  "lockRequest env cm lockId sender =
     (if areEqualPeerDescriptors sender (envLocalPeerDescriptor env) then (cm, False)
      else (cm\<lparr>cmLocks := addRemoteLocked (cmLocks cm) (nodeIdOf env sender) lockId\<rparr>, True))"

definition unlockRequest :: "cm_env \<Rightarrow> conn_manager \<Rightarrow> LockID \<Rightarrow> PeerDescriptor \<Rightarrow> conn_manager" where
  "unlockRequest env cm lockId sender =
     cm\<lparr>cmLocks := removeRemoteLocked (cmLocks cm) (nodeIdOf env sender) lockId\<rparr>"

definition gracefulDisconnect :: "cm_env \<Rightarrow> conn_manager \<Rightarrow> DisconnectMode \<Rightarrow> PeerDescriptor \<Rightarrow> conn_manager \<times> cm_out list" where
  "gracefulDisconnect env cm mode sender =
     (if mode = LEAVING then closeConnection env cm sender True else closeConnection env cm sender False)"

definition setPrivate :: "cm_env \<Rightarrow> conn_manager \<Rightarrow> bool \<Rightarrow> PeerDescriptor \<Rightarrow> conn_manager" where
  "setPrivate env cm isPrivateRequest sender =
     (let nid = nodeIdOf env sender
      in if \<not> cmAllowPrivate cm then cm
         else if isPrivateRequest then cm\<lparr>cmLocks := addPrivate (cmLocks cm) nid\<rparr>
         else cm\<lparr>cmLocks := removePrivate (cmLocks cm) nid\<rparr>)"

end
