(* ===== verification/Connection_Manager_Correct.thy ===== *)
theory Connection_Manager_Correct
  imports Connection_Manager
begin

text \<open>
  The connection manager as a machine: its invariant, which every operation keeps, the tie-break of
  simultaneous connects under all interleavings, the delivery of incoming messages, and sending.
\<close>

section \<open>The invariant\<close>

text \<open>
  The container holds exactly the endpoints that are not disconnected, each under the id of its
  peer; so a peer never has two live endpoints.
\<close>

definition cm_peer_id :: "cm_env \<Rightarrow> conn_manager \<Rightarrow> nat \<Rightarrow> DhtAddress" where
  "cm_peer_id env cm i = nodeIdOf env (fst (cmHeap cm ! i))"

definition cm_inv :: "cm_env \<Rightarrow> conn_manager \<Rightarrow> bool" where
  "cm_inv env cm \<longleftrightarrow>
     om_ok (cmEndpoints cm) \<and>
     (\<forall>nid i. om_find (cmEndpoints cm) nid = Some i \<longrightarrow> i < length (cmHeap cm) \<and> cm_peer_id env cm i = nid) \<and>
     (\<forall>i < length (cmHeap cm).
        ep_inv (cm_endpoint cm i) \<and> ep_lastConnectingSequence (cm_endpoint cm i) \<le> cmSequence cm \<and>
        (ep_state (cm_endpoint cm i) \<noteq> DisconnectedState \<longleftrightarrow>
           om_find (cmEndpoints cm) (cm_peer_id env cm i) = Some i)) \<and>
     ls_inv (cmLocks cm) \<and> dd_inv (cmDuplicates cm)"

lemma onData_frame:
  "\<exists>d. fst (onData env cm data pd) = cm\<lparr>cmDuplicates := d\<rparr> \<and> (dd_inv (cmDuplicates cm) \<longrightarrow> dd_inv d)"
proof -
  have "fst (onData env cm data pd) = cm \<or>
      (\<exists>v. \<not> isMostLikelyDuplicate (cmDuplicates cm) v \<and>
           fst (onData env cm data pd) = cm\<lparr>cmDuplicates := dd_add (cmDuplicates cm) v\<rparr>)"
    by (auto simp: onData_def handleMessage_def Let_def split: option.splits)
  then show ?thesis
  proof (elim disjE exE conjE)
    assume "fst (onData env cm data pd) = cm"
    then show ?thesis by (intro exI [of _ "cmDuplicates cm"]) simp
  qed (metis dd.inv_add)
qed

lemma cm_apply_frame:
  "\<exists>d. fst (cm_apply env cm i os) =
         cm\<lparr>cmEndpoints := (if RemoveSelfFromContainer \<in> set os then om_erase (cm_peer_id env cm i) (cmEndpoints cm)
                            else cmEndpoints cm), cmDuplicates := d\<rparr> \<and>
       (dd_inv (cmDuplicates cm) \<longrightarrow> dd_inv d)"
proof (induction os arbitrary: cm)
  case Nil
  then show ?case by (intro exI [of _ "cmDuplicates cm"]) simp
next
  case (Cons x os)
  have erase: "om_erase k (om_erase k m) = om_erase k m" for k and m :: "(DhtAddress, nat) omap"
    by (simp add: om_erase_def)
  have absent: "om_erase k m = m" if "\<not> om_contains m k" for k and m :: "(DhtAddress, nat) omap"
    using that by (simp add: om_contains_find om_erase_absent)
  have other: ?case if "fst (cm_apply env cm i (x # os)) = fst (cm_apply env cm i os)" "x \<noteq> RemoveSelfFromContainer"
    using that Cons.IH [of cm] by auto
  show ?case
  proof (cases "x = RemoveSelfFromContainer")
    case True
    let ?cm1 = "cm\<lparr>cmEndpoints := om_erase (cm_peer_id env cm i) (cmEndpoints cm)\<rparr>"
    have "fst (cm_apply env cm i (x # os)) = fst (cm_apply env ?cm1 i os)"
      using True absent [of "cmEndpoints cm"] by (simp add: cm_peer_id_def Let_def split: prod.splits)
    then show ?thesis using True Cons.IH [of ?cm1] by (auto simp: erase cm_peer_id_def)
  next
    case False
    show ?thesis
    proof (cases "\<exists>data. x = EmitData data")
      case True
      then obtain data where x: "x = EmitData data" by blast
      obtain d1 where d1: "fst (onData env cm data (fst (cmHeap cm ! i))) = cm\<lparr>cmDuplicates := d1\<rparr>"
        "dd_inv (cmDuplicates cm) \<longrightarrow> dd_inv d1" using onData_frame by blast
      have "fst (cm_apply env cm i (x # os)) = fst (cm_apply env (cm\<lparr>cmDuplicates := d1\<rparr>) i os)"
        using x d1(1) by (simp add: Let_def split: prod.splits) (metis fst_conv)
      then show ?thesis using x d1(2) Cons.IH [of "cm\<lparr>cmDuplicates := d1\<rparr>"] by (auto simp: cm_peer_id_def)
    next
      case nodata: False
      then have "fst (cm_apply env cm i (x # os)) = fst (cm_apply env cm i os)"
        using False by (cases x) (auto simp: Let_def split: prod.splits)
      then show ?thesis using other False by blast
    qed
  qed
qed

lemma cm_update_inv:
  assumes inv: "cm_inv env cm" and i: "i < length (cmHeap cm)"
    and step: "ep_step_ok (cm_endpoint cm i) acc os ep'" "ep_lastConnectingSequence ep' \<le> cmSequence cm"
  shows "cm_inv env (fst (cm_update env cm i (ep', os)))"
proof -
  let ?cm1 = "cm_set_endpoint cm i ep'"
  obtain d where d: "fst (cm_update env cm i (ep', os)) =
      ?cm1\<lparr>cmEndpoints := (if RemoveSelfFromContainer \<in> set os then om_erase (cm_peer_id env ?cm1 i) (cmEndpoints ?cm1)
                           else cmEndpoints ?cm1), cmDuplicates := d\<rparr>" "dd_inv (cmDuplicates ?cm1) \<longrightarrow> dd_inv d"
    using cm_apply_frame [of env ?cm1 i os] by (auto simp: cm_update_def)
  have peer: "cm_peer_id env ?cm1 j = cm_peer_id env cm j" for j
    using i by (cases "j = i") (auto simp: cm_peer_id_def cm_set_endpoint_def)
  have ep: "cm_endpoint ?cm1 j = (if j = i then ep' else cm_endpoint cm j)" for j
    using i by (simp add: cm_endpoint_def cm_set_endpoint_def nth_list_update)
  have rm: "RemoveSelfFromContainer \<in> set os \<longleftrightarrow>
      ep_state (cm_endpoint cm i) \<noteq> DisconnectedState \<and> ep_state ep' = DisconnectedState"
    using step(1) count_list_0_iff [of os RemoveSelfFromContainer] by (auto simp: ep_step_ok_def disconnects_def split: if_splits)
  have dis: "ep_state ep' = DisconnectedState" if "ep_state (cm_endpoint cm i) = DisconnectedState"
    using step(1) that by (simp add: ep_step_ok_def)
  have fields: "cmEndpoints ?cm1 = cmEndpoints cm" "length (cmHeap ?cm1) = length (cmHeap cm)" "cmSequence ?cm1 = cmSequence cm"
    "cmLocks ?cm1 = cmLocks cm" "cmDuplicates ?cm1 = cmDuplicates cm" by (auto simp: cm_set_endpoint_def)
  have same: "cm_peer_id env (?cm1\<lparr>cmEndpoints := e, cmDuplicates := d\<rparr>) j = cm_peer_id env cm j"
    "cm_endpoint (?cm1\<lparr>cmEndpoints := e, cmDuplicates := d\<rparr>) j = (if j = i then ep' else cm_endpoint cm j)" for j e
    using peer [of j] ep [of j] by (auto simp: cm_peer_id_def cm_endpoint_def)
  show ?thesis
    using inv i step d(2) rm dis unfolding d(1) cm_inv_def
    by (auto simp: same fields peer ep_step_ok_def)
qed

lemma ep_step_sequence:
  assumes "ep_step ep ev acc os ep'" "ep_lastConnectingSequence ep \<le> n" "\<And>p m. ev = SetConnecting p m \<Longrightarrow> m \<le> n"
  shows "ep_lastConnectingSequence ep' \<le> n"
  using assms
proof (cases rule: ep_step.cases)
  case (step_connecting p m)
  then show ?thesis using assms
    by (cases "ep_state ep") (auto simp: setConnecting_def ep_helper_defs split: option.splits if_splits)
next
  case (step_connected c)
  then show ?thesis using assms
    by (cases "ep_state ep") (auto simp: setConnected_def ep_helper_defs split: option.splits)
next
  case (step_close g)
  then show ?thesis using assms
    by (cases "ep_state ep") (auto simp: ep_close_def ep_helper_defs split: option.splits if_splits)
next
  case (step_send d)
  then show ?thesis using assms by (cases "ep_state ep") (auto simp: ep_send_def split: option.splits)
qed (auto simp: ep_method_defs ep_helper_defs split: option.splits if_splits)

lemma cm_update_step:
  assumes inv: "cm_inv env cm" and i: "i < length (cmHeap cm)"
    and step: "ep_step (cm_endpoint cm i) ev acc os ep'" and n: "\<And>p m. ev = SetConnecting p m \<Longrightarrow> m \<le> cmSequence cm"
  shows "cm_inv env (fst (cm_update env cm i (ep', os)))"
proof (rule cm_update_inv [OF inv i])
  have ep: "ep_inv (cm_endpoint cm i)" "ep_lastConnectingSequence (cm_endpoint cm i) \<le> cmSequence cm"
    using inv i by (auto simp: cm_inv_def)
  show "ep_step_ok (cm_endpoint cm i) acc os ep'" using ep(1) step by (rule ep_step_effect)
  show "ep_lastConnectingSequence ep' \<le> cmSequence cm" using step ep(2) n by (rule ep_step_sequence)
qed

lemma cm_update_result:
  assumes "cm_inv env cm" "i < length (cmHeap cm)" "\<And>ep' os. r = (ep', os) \<Longrightarrow> ep_step (cm_endpoint cm i) ev acc os ep'"
    and "\<And>p m. ev = SetConnecting p m \<Longrightarrow> m \<le> cmSequence cm"
  shows "cm_inv env (fst (cm_update env cm i r))"
  using assms cm_update_step by (metis surj_pair)

lemma cm_update_fields:
  "cmSequence (fst (cm_update env cm i r)) = cmSequence cm \<and> length (cmHeap (fst (cm_update env cm i r))) = length (cmHeap cm) \<and>
   cmStatus (fst (cm_update env cm i r)) = cmStatus cm"
  using cm_apply_frame [of env "cm_set_endpoint cm i (fst r)" i "snd r"] by (auto simp: cm_update_def cm_set_endpoint_def)

lemma cm_found: "cm_inv env cm \<Longrightarrow> om_find (cmEndpoints cm) nid = Some i \<Longrightarrow> i < length (cmHeap cm)"
  by (simp add: cm_inv_def)

lemma accept_decide_inv:
  assumes inv: "cm_inv env cm"
  shows "cm_inv env (fst (accept_decide env cm p l))"
    and "snd (accept_decide env cm p l) = Some (i, n) \<Longrightarrow>
           i < length (cmHeap (fst (accept_decide env cm p l))) \<and> n \<le> cmSequence (fst (accept_decide env cm p l))"
proof -
  let ?nid = "nodeIdOf env (pendingPeer p)"
  have "cm_inv env (fst (accept_decide env cm p l)) \<and>
    (snd (accept_decide env cm p l) = Some (i, n) \<longrightarrow>
           i < length (cmHeap (fst (accept_decide env cm p l))) \<and> n \<le> cmSequence (fst (accept_decide env cm p l)))"
  proof (cases "om_find (cmEndpoints cm) ?nid")
    case None
    let ?h = "length (cmHeap cm)"
    let ?cm = "cm\<lparr>cmHeap := cmHeap cm @ [(pendingPeer p, ep_create)], cmEndpoints := om_put ?nid ?h (cmEndpoints cm),
       cmSequence := cmSequence cm + 1\<rparr>"
    have eq: "accept_decide env cm p l = (?cm, Some (?h, cmSequence cm + 1))"
      using None by (simp add: accept_decide_def Let_def om_emplace_def om_contains_find)
    have old: "cm_peer_id env ?cm j = cm_peer_id env cm j" "cm_endpoint ?cm j = cm_endpoint cm j" if "j < ?h" for j
      using that by (auto simp: cm_peer_id_def cm_endpoint_def nth_append)
    have new: "cm_peer_id env ?cm ?h = ?nid" "cm_endpoint ?cm ?h = ep_create"
      by (auto simp: cm_peer_id_def cm_endpoint_def)
    have live: "cm_peer_id env cm j \<noteq> ?nid" if "j < ?h" "ep_state (cm_endpoint cm j) \<noteq> DisconnectedState" for j
      using inv that None by (force simp: cm_inv_def)
    have find: "om_find (cmEndpoints ?cm) k = (if k = ?nid then Some ?h else om_find (cmEndpoints cm) k)" for k by simp
    have c1: "j < length (cmHeap ?cm) \<and> cm_peer_id env ?cm j = k" if "om_find (cmEndpoints ?cm) k = Some j" for k j
      using that inv old(1) new(1) unfolding find by (force simp: cm_inv_def split: if_splits)
    have c2: "ep_inv (cm_endpoint ?cm j) \<and> ep_lastConnectingSequence (cm_endpoint ?cm j) \<le> cmSequence ?cm \<and>
        (ep_state (cm_endpoint ?cm j) \<noteq> DisconnectedState \<longleftrightarrow> om_find (cmEndpoints ?cm) (cm_peer_id env ?cm j) = Some j)"
      if j: "j < length (cmHeap ?cm)" for j
    proof (cases "j = ?h")
      case True
      then show ?thesis unfolding True new find by (simp add: ep_create_def ep_inv_def)
    next
      case False
      then have jh: "j < ?h" using j by simp
      have "ep_inv (cm_endpoint cm j)" "ep_lastConnectingSequence (cm_endpoint cm j) \<le> cmSequence cm"
        "ep_state (cm_endpoint cm j) \<noteq> DisconnectedState \<longleftrightarrow> om_find (cmEndpoints cm) (cm_peer_id env cm j) = Some j"
        using inv jh by (auto simp: cm_inv_def)
      then show ?thesis using live [OF jh] False None unfolding old [OF jh] find by auto
    qed
    have "cm_inv env ?cm" unfolding cm_inv_def using inv c1 c2 by (auto simp: cm_inv_def)
    then show ?thesis by (simp add: eq)
  next
    case (Some j)
    have "cm_inv env (cm\<lparr>cmSequence := cmSequence cm + 1\<rparr>)"
      using inv by (auto simp: cm_inv_def cm_peer_id_def cm_endpoint_def le_SucI)
    then show ?thesis using Some inv cm_found [OF inv Some] by (auto simp: accept_decide_def Let_def)
  qed
  then show "cm_inv env (fst (accept_decide env cm p l))"
    "snd (accept_decide env cm p l) = Some (i, n) \<Longrightarrow>
           i < length (cmHeap (fst (accept_decide env cm p l))) \<and> n \<le> cmSequence (fst (accept_decide env cm p l))"
    by auto
qed

lemma accept_adopt_inv:
  assumes inv: "cm_inv env cm" and i: "i < length (cmHeap cm)" "n \<le> cmSequence cm"
  shows "cm_inv env (fst (accept_adopt env cm i p n))"
proof -
  let ?r = "setConnecting (cm_endpoint cm i) (pendingId p) n"
  let ?cm1 = "fst (cm_update env cm i ?r)"
  have 1: "cm_inv env ?cm1"
    using cm_update_result [OF inv i(1), of ?r "SetConnecting (pendingId p) n" "[]"] i(2) by (auto intro: step_connecting)
  have "cm_inv env (fst (cm_update env ?cm1 i (commitHandlers (cm_endpoint ?cm1 i) (pendingId p))))"
    using cm_update_fields i(1)
    by (intro cm_update_result [OF 1, where ev = "CommitHandlers (pendingId p)" and acc = "[]"]) (auto intro: step_commit)
  then show ?thesis using 1 by (auto simp: accept_adopt_def Let_def split: prod.splits)
qed

lemma onNewConnection_inv: "cm_inv env cm \<Longrightarrow> cm_inv env (fst (onNewConnection env cm p l))"
  using accept_decide_inv [of env cm p l] accept_adopt_inv
  by (auto simp: onNewConnection_def acceptNewConnection_def split: prod.splits option.splits) (metis fst_conv snd_conv)

lemma send_on_endpoint_inv:
  assumes "cm_inv env cm" "i < length (cmHeap cm)"
  shows "cm_inv env (fst (send_on_endpoint env cm i m))"
proof (cases "ep_send (cm_endpoint cm i) (envSerialize env (m\<lparr>sourceDescriptor := Some (envLocalPeerDescriptor env)\<rparr>))")
  case (Inr r)
  let ?d = "envSerialize env (m\<lparr>sourceDescriptor := Some (envLocalPeerDescriptor env)\<rparr>)"
  from Inr have "cm_inv env (fst (cm_update env cm i r))"
    by (intro cm_update_result [OF assms, where ev = "Send ?d" and acc = "[?d]"]) (auto intro: step_send)
  then show ?thesis using Inr assms by (auto simp: send_on_endpoint_def Let_def split: prod.splits)
qed (use assms in \<open>auto simp: send_on_endpoint_def Let_def\<close>)

lemma cm_send_inv:
  assumes inv: "cm_inv env cm"
  shows "cm_inv env (fst (cm_send env cm m so))"
proof -
  let ?nc = "onNewConnection env cm (envCreateConnection env (targetDescriptor m)) True"
  have 1: "cm_inv env (fst ?nc)" by (rule onNewConnection_inv [OF inv])
  have 2: "cm_inv env (fst (send_on_endpoint env c i m))" if "cm_inv env c" "om_find (cmEndpoints c) nid = Some i" for c i nid
    using that send_on_endpoint_inv cm_found by blast
  show ?thesis using inv 1 2
    by (auto simp: cm_send_def Let_def split: prod.splits option.splits) (metis fst_conv)+
qed

lemma ep_close_inv: "cm_inv env cm \<Longrightarrow> i < length (cmHeap cm) \<Longrightarrow> cm_inv env (fst (cm_update env cm i (ep_close (cm_endpoint cm i) g)))"
  by (rule cm_update_result [where ev = "Close g" and acc = "[]"]) (auto intro: step_close)

lemma cm_locks_inv: "cm_inv env cm \<Longrightarrow> ls_inv l \<Longrightarrow> cm_inv env (cm\<lparr>cmLocks := l\<rparr>)"
  by (auto simp: cm_inv_def cm_peer_id_def cm_endpoint_def)

lemma ls_inv_ops:
  assumes "ls_inv l"
  shows "ls_inv (lock_step l op)" using assms lk.step_inv by blast

lemma closeConnection_inv:
  assumes inv: "cm_inv env cm"
  shows "cm_inv env (fst (closeConnection env cm pd g))"
proof -
  have "ls_inv (clearAllLocks (cmLocks cm) nid)" for nid
    using ls_inv_ops [of "cmLocks cm" "ClearAllLocks nid"] inv by (simp add: cm_inv_def)
  then show ?thesis using inv
    by (auto simp: closeConnection_def Let_def intro!: ep_close_inv cm_locks_inv dest: cm_found split: option.splits)
qed

lemma gracefullyDisconnect_inv: "cm_inv env cm \<Longrightarrow> cm_inv env (fst (gracefullyDisconnect env cm pd mode a))"
  using ep_close_inv [of env cm]
  by (auto simp: gracefullyDisconnect_def dest: cm_found split: option.splits prod.splits) (metis cm_found fst_conv)+

lemma disconnect_all_inv: "cm_inv env cm \<Longrightarrow> cm_inv env (fst (disconnect_all env cm ts))"
proof (induction ts arbitrary: cm)
  case (Cons t ts)
  obtain pd a where t: "t = (pd, a)" by force
  obtain cm1 o1 where g: "gracefullyDisconnect env cm pd LEAVING a = (cm1, o1)" by force
  then have "cm_inv env cm1" using gracefullyDisconnect_inv [OF Cons.prems] by (metis fst_conv)
  then show ?case using Cons.IH by (simp add: t g split: prod.splits) (metis fst_conv)
qed simp

lemma cm_stop_inv:
  assumes inv: "cm_inv env cm"
  shows "cm_inv env (fst (cm_stop env cm answered))"
proof -
  have "cm_inv env (cm\<lparr>cmStatus := s\<rparr>)" if "cm_inv env cm" for cm s
    using that by (auto simp: cm_inv_def cm_peer_id_def cm_endpoint_def)
  moreover have "cm_inv env (c\<lparr>cmStatus := STOPPED, cmDuplicates := dd_clear (cmDuplicates c), cmLocks := ls_clear (cmLocks c)\<rparr>)"
    if "cm_inv env c" for c
    using that ls_inv_ops [of "cmLocks c" Clear] by (auto simp: cm_inv_def cm_peer_id_def cm_endpoint_def dd_clear_def dd_inv_def)
  ultimately show ?thesis using inv disconnect_all_inv
    by (auto simp: cm_stop_def Let_def split: prod.splits) (metis fst_conv)
qed

section \<open>The machine\<close>

text \<open>The event handlers of the endpoint that connections trigger.\<close>

fun endpoint_event :: "endpoint \<Rightarrow> ep_event \<Rightarrow> endpoint \<times> ep_out list" where
  "endpoint_event ep (PendingConnected p c) = onPendingConnected ep p c"
| "endpoint_event ep (PendingDisconnected p) = onPendingDisconnected ep p"
| "endpoint_event ep (ConnectionData c d) = onConnectionData ep c d"
| "endpoint_event ep (ConnectionDisconnected c) = onConnectionDisconnected ep c"
| "endpoint_event ep _ = (ep, [])"

datatype cm_event =
    CmStart
  | CmStop "PeerDescriptor \<Rightarrow> bool"
  | CmSend Message SendOptions
  | CmIncoming pending
  | CmEndpoint nat ep_event
  | CmDisconnect PeerDescriptor DisconnectMode bool
  | CmLock PeerDescriptor LockID
  | CmUnlock PeerDescriptor LockID
  | CmWeakLock DhtAddress LockID
  | CmWeakUnlock DhtAddress LockID
  | CmLockRequest LockID PeerDescriptor
  | CmUnlockRequest LockID PeerDescriptor
  | CmGracefulDisconnect DisconnectMode PeerDescriptor
  | CmSetPrivate bool PeerDescriptor

fun cm_step :: "cm_env \<Rightarrow> conn_manager \<Rightarrow> cm_event \<Rightarrow> conn_manager" where
  "cm_step env cm CmStart = fst (cm_start cm)"
| "cm_step env cm (CmStop answered) = fst (cm_stop env cm answered)"
| "cm_step env cm (CmSend m so) = fst (cm_send env cm m so)"
| "cm_step env cm (CmIncoming p) = fst (onNewConnection env cm p False)"
| "cm_step env cm (CmEndpoint i ev) =
     (if i < length (cmHeap cm) then fst (cm_update env cm i (endpoint_event (cm_endpoint cm i) ev)) else cm)"
| "cm_step env cm (CmDisconnect pd mode answered) = fst (gracefullyDisconnect env cm pd mode answered)"
| "cm_step env cm (CmLock pd l) = fst (lockConnection env cm pd l)"
| "cm_step env cm (CmUnlock pd l) = fst (unlockConnection env cm pd l)"
| "cm_step env cm (CmWeakLock nid l) = weakLockConnection env cm nid l"
| "cm_step env cm (CmWeakUnlock nid l) = weakUnlockConnection env cm nid l"
| "cm_step env cm (CmLockRequest l pd) = fst (lockRequest env cm l pd)"
| "cm_step env cm (CmUnlockRequest l pd) = unlockRequest env cm l pd"
| "cm_step env cm (CmGracefulDisconnect mode pd) = fst (gracefulDisconnect env cm mode pd)"
| "cm_step env cm (CmSetPrivate b pd) = setPrivate env cm b pd"

lemma endpoint_event_inv:
  assumes "cm_inv env cm" "i < length (cmHeap cm)"
  shows "cm_inv env (fst (cm_update env cm i (endpoint_event (cm_endpoint cm i) ev)))"
proof (cases ev)
  case (PendingConnected p c)
  then show ?thesis using assms
    by (intro cm_update_result [where ev = "PendingConnected p c" and acc = "[]"]) (auto intro: step_pending_connected)
next
  case (PendingDisconnected p)
  then show ?thesis using assms
    by (intro cm_update_result [where ev = "PendingDisconnected p" and acc = "[]"]) (auto intro: step_pending_disconnected)
next
  case (ConnectionData c d)
  then show ?thesis using assms
    by (intro cm_update_result [where ev = "ConnectionData c d" and acc = "[]"]) (auto intro: step_data)
next
  case (ConnectionDisconnected c)
  then show ?thesis using assms
    by (intro cm_update_result [where ev = "ConnectionDisconnected c" and acc = "[]"]) (auto intro: step_disconnected)
qed (use assms in \<open>auto simp: cm_update_def cm_set_endpoint_def cm_endpoint_def\<close>)

lemma lock_ops_inv:
  assumes "cm_inv env cm"
  shows "cm_inv env (fst (lockConnection env cm pd l))" "cm_inv env (fst (unlockConnection env cm pd l))"
    "cm_inv env (weakLockConnection env cm nid l)" "cm_inv env (weakUnlockConnection env cm nid l)"
    "cm_inv env (fst (lockRequest env cm l pd))" "cm_inv env (unlockRequest env cm l pd)" "cm_inv env (setPrivate env cm b pd)"
proof -
  have l: "cm_inv env (cm\<lparr>cmLocks := lock_step (cmLocks cm) op\<rparr>)" for op
    using assms by (intro cm_locks_inv ls_inv_ops) (simp_all add: cm_inv_def)
  show "cm_inv env (fst (lockConnection env cm pd l))"
    using assms l [of "AddLocal _ l"] by (auto simp: lockConnection_def)
  show "cm_inv env (fst (unlockConnection env cm pd l))"
    using assms l [of "RemoveLocal _ l"] by (auto simp: unlockConnection_def Let_def)
  show "cm_inv env (weakLockConnection env cm nid l)" "cm_inv env (weakUnlockConnection env cm nid l)"
    using assms l [of "AddWeak _ l"] l [of "RemoveWeak _ l"] by (auto simp: weakLockConnection_def weakUnlockConnection_def)
  show "cm_inv env (fst (lockRequest env cm l pd))" "cm_inv env (unlockRequest env cm l pd)"
    using assms l [of "AddRemote _ l"] l [of "RemoveRemote _ l"] by (auto simp: lockRequest_def unlockRequest_def)
  show "cm_inv env (setPrivate env cm b pd)"
    using assms l [of "AddPrivate _"] l [of "RemovePrivate _"] by (auto simp: setPrivate_def Let_def)
qed

interpretation cmm: op_machine "cm_step env" "cm_inv env" "\<lambda>_. True" for env
proof unfold_locales
  fix cm op
  assume inv: "cm_inv env cm"
  have "cm_inv env (fst (cm_start cm))"
    using inv by (auto simp: cm_start_def cm_inv_def cm_peer_id_def cm_endpoint_def)
  then show "cm_inv env (cm_step env cm op)"
    by (cases op)
      (use inv in \<open>simp_all add: cm_stop_inv cm_send_inv onNewConnection_inv endpoint_event_inv gracefullyDisconnect_inv
         lock_ops_inv gracefulDisconnect_def closeConnection_inv\<close>)
qed

lemma cm_inv_create: "cm_inv env (cm_create b)"
  using ls_create_spec by (simp add: cm_inv_def cm_create_def om_find_def dd_inv_create)

section \<open>Racing accepts\<close>

text \<open>
  The two accepts of a simultaneous connect on one node, each a decision under the mutex and an
  adoption after it, as steps that the threads can interleave: \<open>True\<close> is the outgoing connection.
\<close>

datatype race_step = Decide bool | Adopt bool

record race =
  raceCm :: conn_manager
  raceLocal :: "(nat \<times> nat) option"
  raceRemote :: "(nat \<times> nat) option"

fun race_do :: "cm_env \<Rightarrow> pending \<Rightarrow> pending \<Rightarrow> race \<Rightarrow> race_step \<Rightarrow> race" where
  "race_do env out inc r (Decide True) =
     (case accept_decide env (raceCm r) out True of (cm, d) \<Rightarrow> r\<lparr>raceCm := cm, raceLocal := d\<rparr>)"
| "race_do env out inc r (Decide False) =
     (case accept_decide env (raceCm r) inc False of (cm, d) \<Rightarrow> r\<lparr>raceCm := cm, raceRemote := d\<rparr>)"
| "race_do env out inc r (Adopt True) =
     (case raceLocal r of None \<Rightarrow> r | Some (i, n) \<Rightarrow> r\<lparr>raceCm := fst (accept_adopt env (raceCm r) i out n)\<rparr>)"
| "race_do env out inc r (Adopt False) =
     (case raceRemote r of None \<Rightarrow> r | Some (i, n) \<Rightarrow> r\<lparr>raceCm := fst (accept_adopt env (raceCm r) i inc n)\<rparr>)"

definition race_run :: "cm_env \<Rightarrow> conn_manager \<Rightarrow> pending \<Rightarrow> pending \<Rightarrow> race_step list \<Rightarrow> conn_manager" where
  "race_run env cm out inc steps =
     raceCm (foldl (race_do env out inc) \<lparr>raceCm = cm, raceLocal = None, raceRemote = None\<rparr> steps)"

definition settled :: "conn_manager \<Rightarrow> DhtAddress \<Rightarrow> nat option" where
  "settled cm nid = (case om_find (cmEndpoints cm) nid of None \<Rightarrow> None | Some i \<Rightarrow> ep_pendingConnection (cm_endpoint cm i))"

lemma decide_new:
  assumes "om_find (cmEndpoints cm) (nodeIdOf env (pendingPeer p)) = None"
  shows "accept_decide env cm p l =
    (cm\<lparr>cmHeap := cmHeap cm @ [(pendingPeer p, ep_create)],
        cmEndpoints := om_put (nodeIdOf env (pendingPeer p)) (length (cmHeap cm)) (cmEndpoints cm),
        cmSequence := cmSequence cm + 1\<rparr>, Some (length (cmHeap cm), cmSequence cm + 1))"
  using assms by (simp add: accept_decide_def Let_def om_emplace_def om_contains_find)

lemma decide_old:
  assumes "om_find (cmEndpoints cm) (nodeIdOf env (pendingPeer p)) = Some i"
  shows "accept_decide env cm p l =
    (if l = (getOfferer (envMd5 env) (nodeIdOf env (envLocalPeerDescriptor env)) (nodeIdOf env (pendingPeer p)) = LOCAL)
     then (cm\<lparr>cmSequence := cmSequence cm + 1\<rparr>, Some (i, cmSequence cm + 1)) else (cm, None))"
  using assms by (simp add: accept_decide_def Let_def)

definition adopt_ep :: "endpoint \<Rightarrow> nat \<Rightarrow> nat \<Rightarrow> endpoint" where
  "adopt_ep ep p n = (if n \<le> ep_lastConnectingSequence ep then ep
     else ep\<lparr>ep_lastConnectingSequence := n, ep_state := ConnectingState, ep_pendingConnection := Some p, ep_pendingTokens := True\<rparr>)"

lemma adopt_eq:
  assumes "ep_inv (cm_endpoint cm i)" "ep_state (cm_endpoint cm i) \<in> {InitialState, ConnectingState}" "i < length (cmHeap cm)"
  shows "fst (accept_adopt env cm i p n) = cm_set_endpoint cm i (adopt_ep (cm_endpoint cm i) (pendingId p) n)"
  using assms
  by (cases "ep_state (cm_endpoint cm i)")
   (auto simp: accept_adopt_def adopt_ep_def setConnecting_def ep_helper_defs ep_inv_def cm_update_def cm_set_endpoint_def cm_endpoint_def commitHandlers_def split: option.splits prod.splits)


lemma race_settles:
  assumes new: "om_find (cmEndpoints cm) nid = None"
    and peers: "nodeIdOf env (pendingPeer out) = nid" "nodeIdOf env (pendingPeer inc) = nid"
    and steps: "steps \<in> shuffles [Decide True, Adopt True] [Decide False, Adopt False]"
  shows "settled (race_run env cm out inc steps) nid =
    Some (pendingId (if getOfferer (envMd5 env) (nodeIdOf env (envLocalPeerDescriptor env)) nid = LOCAL then out else inc))"
proof -
  let ?l = "getOfferer (envMd5 env) (nodeIdOf env (envLocalPeerDescriptor env)) nid = LOCAL"
  have inv: "ep_inv ep_create" by (simp add: ep_inv_def ep_create_def)
  have s: "steps = [Decide True, Adopt True, Decide False, Adopt False] \<or> steps = [Decide True, Decide False, Adopt True, Adopt False]
    \<or> steps = [Decide True, Decide False, Adopt False, Adopt True] \<or> steps = [Decide False, Decide True, Adopt True, Adopt False]
    \<or> steps = [Decide False, Decide True, Adopt False, Adopt True] \<or> steps = [Decide False, Adopt False, Decide True, Adopt True]"
    using steps by auto
  show ?thesis
    using s new peers
    by (elim disjE; cases ?l; simp add: race_run_def settled_def decide_new decide_old adopt_eq cm_endpoint_def cm_set_endpoint_def
      adopt_ep_def ep_create_def ep_inv_def)
qed

section \<open>Simultaneous connects\<close>

lemma offerer_antisym:
  "getOfferingHash md5 (a @ '','' @ b) \<noteq> getOfferingHash md5 (b @ '','' @ a) \<Longrightarrow>
   getOfferer md5 a b = LOCAL \<longleftrightarrow> getOfferer md5 b a = REMOTE"
  by (auto simp: getOfferer_def)

lemma offerer_tie:
  "getOfferingHash md5 (a @ '','' @ b) = getOfferingHash md5 (b @ '','' @ a) \<Longrightarrow>
   getOfferer md5 a b = REMOTE \<and> getOfferer md5 b a = REMOTE"
  by (auto simp: getOfferer_def)

section \<open>Incoming messages\<close>

fun onData_run :: "cm_env \<Rightarrow> conn_manager \<Rightarrow> (bytes \<times> PeerDescriptor) list \<Rightarrow> conn_manager \<times> cm_out list" where
  "onData_run env cm [] = (cm, [])"
| "onData_run env cm ((data, pd) # rest) =
     (case onData env cm data pd of
        (cm1, o1) \<Rightarrow> (case onData_run env cm1 rest of (cm2, o2) \<Rightarrow> (cm2, o1 @ o2)))"

definition delivered :: "cm_out list \<Rightarrow> Message list" where
  "delivered os = concat (map (\<lambda>x. case x of TransportMessage m \<Rightarrow> [m] | HandleRpcMessage m \<Rightarrow> [m] | _ \<Rightarrow> []) os)"

definition rpc_ids :: "cm_env \<Rightarrow> (bytes \<times> PeerDescriptor) list \<Rightarrow> string list" where
  "rpc_ids env ps =
     concat (map (\<lambda>(data, pd). case envParse env data of
        None \<Rightarrow> [] | Some m \<Rightarrow> if hasRpcMessage m then [messageId m] else []) ps)"

lemma onData_eq:
  assumes "cmStatus cm \<noteq> STOPPED"
  shows "onData env cm data pd =
    (case envParse env data of
       None \<Rightarrow> (cm, [])
     | Some m \<Rightarrow>
         if hasRpcMessage m \<and> \<not> isMostLikelyDuplicate (cmDuplicates cm) (messageId m)
         then (cm\<lparr>cmDuplicates := dd_add (cmDuplicates cm) (messageId m)\<rparr>,
               [(if serviceId m = INTERNAL_SERVICE_ID then HandleRpcMessage else TransportMessage) (m\<lparr>sourceDescriptor := Some pd\<rparr>)])
         else (cm, []))"
  using assms by (auto simp: onData_def handleMessage_def Let_def split: option.splits)

lemma onData_run_delivered:
  assumes "cmStatus cm \<noteq> STOPPED"
  shows "map messageId (delivered (snd (onData_run env cm ps))) = snd (dd.accept (cmDuplicates cm) (rpc_ids env ps)) \<and>
    (\<forall>m \<in> set (delivered (snd (onData_run env cm ps))).
       \<exists>data pd m0. (data, pd) \<in> set ps \<and> envParse env data = Some m0 \<and> m = m0\<lparr>sourceDescriptor := Some pd\<rparr>)"
  using assms
proof (induction ps arbitrary: cm)
  case (Cons p ps)
  obtain data pd where p: "p = (data, pd)" by force
  show ?case
  proof (cases "\<exists>m. envParse env data = Some m \<and> hasRpcMessage m \<and> \<not> isMostLikelyDuplicate (cmDuplicates cm) (messageId m)")
    case True
    then obtain m where m: "envParse env data = Some m" "hasRpcMessage m" "\<not> isMostLikelyDuplicate (cmDuplicates cm) (messageId m)"
      by blast
    let ?cm1 = "cm\<lparr>cmDuplicates := dd_add (cmDuplicates cm) (messageId m)\<rparr>"
    have "cmStatus ?cm1 \<noteq> STOPPED" using Cons.prems by simp
    note IH = Cons.IH [OF this]
    obtain x where x: "onData env cm data pd = (?cm1, [x])" "\<And>os. delivered (x # os) = m\<lparr>sourceDescriptor := Some pd\<rparr> # delivered os"
      using m onData_eq [OF Cons.prems, of env data pd] by (auto simp: delivered_def)
    have run: "delivered (snd (onData_run env cm (p # ps))) =
        m\<lparr>sourceDescriptor := Some pd\<rparr> # delivered (snd (onData_run env ?cm1 ps))"
      by (simp add: p x split: prod.splits)
    have ids: "rpc_ids env (p # ps) = messageId m # rpc_ids env ps" using m by (simp add: p rpc_ids_def)
    have acc: "snd (dd.accept (cmDuplicates cm) (messageId m # rpc_ids env ps)) =
        messageId m # snd (dd.accept (cmDuplicates ?cm1) (rpc_ids env ps))"
      using m(3) by (simp split: prod.splits)
    show ?thesis unfolding run ids acc using IH m(1) p by (auto simp del: dd.accept.simps) blast
  next
    case False
    then have "onData env cm data pd = (cm, [])"
      using onData_eq [OF Cons.prems, of env data pd] by (auto split: option.splits)
    then have run: "delivered (snd (onData_run env cm (p # ps))) = delivered (snd (onData_run env cm ps))"
      by (simp add: p split: prod.splits)
    have acc: "dd.accept (cmDuplicates cm) (rpc_ids env (p # ps)) = dd.accept (cmDuplicates cm) (rpc_ids env ps)"
      using False by (auto simp: p rpc_ids_def split: option.splits)
    show ?thesis unfolding run acc using Cons.IH [OF Cons.prems] by (meson list.set_intros(2))
  qed
qed (simp add: delivered_def rpc_ids_def)

section \<open>Sending to a peer\<close>

definition hands_over :: "conn_manager \<Rightarrow> cm_out list \<Rightarrow> nat \<Rightarrow> bytes \<Rightarrow> bool" where
  "hands_over cm os i d \<longleftrightarrow>
     (\<exists>pre. ep_buffer (cm_endpoint cm i) = pre @ [d]) \<or> (\<exists>c. EndpointOut i (SendOn c d) \<in> set os)"

lemma send_on_endpoint_hands_over:
  assumes inv: "cm_inv env cm" and i: "i < length (cmHeap cm)"
    and st: "ep_state (cm_endpoint cm i) \<in> {ConnectingState, ConnectedState}"
    and d: "envSerialize env (m\<lparr>sourceDescriptor := Some (envLocalPeerDescriptor env)\<rparr>) = d" "d \<noteq> []"
  shows "\<exists>cm' os. send_on_endpoint env cm i m = (cm', os, None) \<and> hands_over cm' os i d \<and> cmEndpoints cm' = cmEndpoints cm"
proof (cases "ep_state (cm_endpoint cm i) = ConnectedState")
  case True
  then obtain c where "ep_connection (cm_endpoint cm i) = Some c" using inv i by (auto simp: cm_inv_def ep_inv_def)
  then show ?thesis using True d
    by (auto simp: send_on_endpoint_def ep_send_def cm_update_def cm_set_endpoint_def hands_over_def)
next
  case False
  then have "ep_state (cm_endpoint cm i) = ConnectingState" using st by simp
  then show ?thesis using d i
    by (auto simp: send_on_endpoint_def ep_send_def cm_update_def cm_set_endpoint_def hands_over_def cm_endpoint_def)
qed

lemma accept_new_eq:
  assumes "cmStatus cm \<noteq> STOPPED" "om_find (cmEndpoints cm) (nodeIdOf env (pendingPeer p)) = None"
  shows "\<exists>os. onNewConnection env cm p l =
    (cm\<lparr>cmHeap := cmHeap cm @ [(pendingPeer p, adopt_ep ep_create (pendingId p) (cmSequence cm + 1))],
        cmEndpoints := om_put (nodeIdOf env (pendingPeer p)) (length (cmHeap cm)) (cmEndpoints cm),
        cmSequence := cmSequence cm + 1\<rparr>, os, True)"
proof -
  let ?cm1 = "fst (accept_decide env cm p l)"
  have inv: "ep_inv (cm_endpoint ?cm1 (length (cmHeap cm)))"
    "ep_state (cm_endpoint ?cm1 (length (cmHeap cm))) \<in> {InitialState, ConnectingState}"
    "length (cmHeap cm) < length (cmHeap ?cm1)"
    by (auto simp: decide_new [OF assms(2)] cm_endpoint_def ep_create_def ep_inv_def)
  show ?thesis using adopt_eq [OF inv, of env p "cmSequence cm + 1"] assms
    by (auto simp: onNewConnection_def acceptNewConnection_def decide_new cm_endpoint_def cm_set_endpoint_def split: prod.splits)
qed

section \<open>Properties\<close>

text \<open>
  C3. When two peers connect to each other at the same time, each of them sees its own outgoing
  connection and the other's incoming one, in any order, with the decision under the mutex and the
  adoption by the endpoint interleaved in any way.  Both peers then wait for the same physical
  connection, exactly when the two offering hashes differ.
\<close>

theorem simultaneous_connect_converges:
  fixes envA envB cmA cmB outA incA outB incB a b x y
  assumes "nodeIdOf envA (envLocalPeerDescriptor envA) = a" "nodeIdOf envB (envLocalPeerDescriptor envB) = b"
    and "nodeIdOf envA (pendingPeer outA) = b" "nodeIdOf envA (pendingPeer incA) = b"
    and "nodeIdOf envB (pendingPeer outB) = a" "nodeIdOf envB (pendingPeer incB) = a"
    and "pendingId outA = x" "pendingId incA = y" "pendingId outB = y" "pendingId incB = x" "x \<noteq> y"
    and "envMd5 envA = digest" "envMd5 envB = digest"
    and "om_find (cmEndpoints cmA) b = None" "om_find (cmEndpoints cmB) a = None"
    and "stepsA \<in> shuffles [Decide True, Adopt True] [Decide False, Adopt False]"
    and "stepsB \<in> shuffles [Decide True, Adopt True] [Decide False, Adopt False]"
  shows "settled (race_run envA cmA outA incA stepsA) b = settled (race_run envB cmB outB incB stepsB) a \<longleftrightarrow>
         getOfferingHash digest (a @ '','' @ b) \<noteq> getOfferingHash digest (b @ '','' @ a)"
proof -
  have A: "settled (race_run envA cmA outA incA stepsA) b = Some (if getOfferer digest a b = LOCAL then x else y)"
    using race_settles [of cmA b envA outA incA stepsA] assms by simp
  have B: "settled (race_run envB cmB outB incB stepsB) a = Some (if getOfferer digest b a = LOCAL then y else x)"
    using race_settles [of cmB a envB outB incB stepsB] assms by simp
  show ?thesis unfolding A B using assms(11) by (auto simp: getOfferer_def)
qed

text \<open>Two nodes with the ids 00 and 01; the digest of the first pair of ids is the smaller one.\<close>

definition ex_pd :: "byte \<Rightarrow> PeerDescriptor" where
  "ex_pd b = \<lparr>nodeid = [b], region = 0, ipaddress = 0, websocket = None\<rparr>"

definition ex_message :: "bytes \<Rightarrow> Message" where
  "ex_message d = \<lparr>messageId = ''m'', serviceId = ''s'', hasRpcMessage = True, msgBody = d,
     sourceDescriptor = None, targetDescriptor = ex_pd 1\<rparr>"

definition ex_env :: "byte \<Rightarrow> cm_env" where
  "ex_env b = \<lparr>envHex = ref_hex, envMd5 = (\<lambda>s. if s = ''00,01'' then [1, 0, 0, 0] else [2, 0, 0, 0]),
     envSerialize = msgBody, envParse = (\<lambda>d. if d = [] then None else Some (ex_message d)),
     envLocalPeerDescriptor = ex_pd b, envCreateConnection = (\<lambda>pd. \<lparr>pendingId = 7, pendingPeer = pd\<rparr>)\<rparr>"

lemma ex_ids:
  "nodeIdOf (ex_env b) (ex_pd 0) = ''00''" "nodeIdOf (ex_env b) (ex_pd 1) = ''01''"
  "envLocalPeerDescriptor (ex_env b) = ex_pd b" "envMd5 (ex_env 1) = envMd5 (ex_env 0)"
  "getOfferingHash (envMd5 (ex_env 0)) ''00,01'' = 1" "getOfferingHash (envMd5 (ex_env 0)) ''01,00'' = 2"
proof -
  show "nodeIdOf (ex_env b) (ex_pd 0) = ''00''" "nodeIdOf (ex_env b) (ex_pd 1) = ''01''"
    unfolding ex_env_def by code_simp+
  show "getOfferingHash (envMd5 (ex_env 0)) ''00,01'' = 1" "getOfferingHash (envMd5 (ex_env 0)) ''01,00'' = 2"
    by code_simp+
qed (simp_all add: ex_env_def)

theorem simultaneous_connect_witness:
  "settled (race_run (ex_env 0) (cm_create False) \<lparr>pendingId = 1, pendingPeer = ex_pd 1\<rparr> \<lparr>pendingId = 2, pendingPeer = ex_pd 1\<rparr>
      [Decide True, Decide False, Adopt False, Adopt True]) ''01'' =
   settled (race_run (ex_env 1) (cm_create False) \<lparr>pendingId = 2, pendingPeer = ex_pd 0\<rparr> \<lparr>pendingId = 1, pendingPeer = ex_pd 0\<rparr>
      [Decide True, Adopt True, Decide False, Adopt False]) ''00''"
  by (rule simultaneous_connect_converges
        [where digest = "envMd5 (ex_env 0)" and x = 1 and y = 2 and a = "''00''" and b = "''01''", THEN iffD2])
    (auto simp: ex_ids cm_create_def om_find_def)

text \<open>
  C22. In every run of the connection manager, through any sequence of sends, incoming connections, connection
  events, disconnections, lock requests, start and stop, the container maps a peer to an endpoint exactly when this
  endpoint is the peer's and is not disconnected; so every live endpoint is in it, no dead one is, and a peer never has
  two live ones.  A step here is an event with all that it makes the endpoint do: the change of the endpoint's
  state and its removal from the container, which the code runs as two sections of different mutexes, are one step.
\<close>

theorem one_live_endpoint_per_peer:
  assumes "cm = foldl (cm_step env) (cm_create b) events"
  shows "(\<forall>nid i. om_find (cmEndpoints cm) nid = Some i \<longleftrightarrow>
            i < length (cmHeap cm) \<and> cm_peer_id env cm i = nid \<and> ep_state (cm_endpoint cm i) \<noteq> DisconnectedState) \<and>
         (\<forall>i < length (cmHeap cm). \<forall>j < length (cmHeap cm).
            ep_state (cm_endpoint cm i) \<noteq> DisconnectedState \<and> ep_state (cm_endpoint cm j) \<noteq> DisconnectedState \<and>
            cm_peer_id env cm i = cm_peer_id env cm j \<longrightarrow> i = j)"
proof -
  have inv: "cm_inv env cm" unfolding assms(1) by (rule cmm.run_inv) (simp_all add: cm_inv_create list_all_def)
  then have live: "ep_state (cm_endpoint cm j) \<noteq> DisconnectedState \<longleftrightarrow>
      om_find (cmEndpoints cm) (cm_peer_id env cm j) = Some j" if "j < length (cmHeap cm)" for j
    using that by (simp add: cm_inv_def)
  have entry: "i < length (cmHeap cm) \<and> cm_peer_id env cm i = nid" if "om_find (cmEndpoints cm) nid = Some i" for nid i
    using inv that unfolding cm_inv_def by blast
  have uniq: "i = j" if "i < length (cmHeap cm)" "j < length (cmHeap cm)" "ep_state (cm_endpoint cm i) \<noteq> DisconnectedState"
      "ep_state (cm_endpoint cm j) \<noteq> DisconnectedState" "cm_peer_id env cm i = cm_peer_id env cm j" for i j
  proof -
    have "om_find (cmEndpoints cm) (cm_peer_id env cm i) = Some i" by (rule live [THEN iffD1, OF that(1) that(3)])
    moreover have "om_find (cmEndpoints cm) (cm_peer_id env cm j) = Some j" by (rule live [THEN iffD1, OF that(2) that(4)])
    ultimately have "Some i = Some j" unfolding that(5) by (rule trans [OF sym])
    then show "i = j" by (rule option.inject [THEN iffD1])
  qed
  have iff: "om_find (cmEndpoints cm) nid = Some i \<longleftrightarrow>
      i < length (cmHeap cm) \<and> cm_peer_id env cm i = nid \<and> ep_state (cm_endpoint cm i) \<noteq> DisconnectedState" for nid i
  proof
    assume o: "om_find (cmEndpoints cm) nid = Some i"
    then have e: "i < length (cmHeap cm)" "cm_peer_id env cm i = nid" using entry by blast+
    have "ep_state (cm_endpoint cm i) \<noteq> DisconnectedState" by (rule live [THEN iffD2, OF e(1)]) (simp only: e(2) o)
    then show "i < length (cmHeap cm) \<and> cm_peer_id env cm i = nid \<and> ep_state (cm_endpoint cm i) \<noteq> DisconnectedState" using e by simp
  next
    assume "i < length (cmHeap cm) \<and> cm_peer_id env cm i = nid \<and> ep_state (cm_endpoint cm i) \<noteq> DisconnectedState"
    then show "om_find (cmEndpoints cm) nid = Some i" using live [of i, THEN iffD1] by blast
  qed
  show ?thesis by (intro conjI allI impI; (rule iff)?; (elim conjE)?; (rule uniq; assumption)?)
qed

theorem one_live_endpoint_witness:
  "om_find (cmEndpoints (foldl (cm_step (ex_env 0)) (cm_create False) [CmIncoming \<lparr>pendingId = 1, pendingPeer = ex_pd 1\<rparr>]))
     (cm_peer_id (ex_env 0) (foldl (cm_step (ex_env 0)) (cm_create False) [CmIncoming \<lparr>pendingId = 1, pendingPeer = ex_pd 1\<rparr>]) 0) = Some 0"
proof -
  let ?cm = "foldl (cm_step (ex_env 0)) (cm_create False) [CmIncoming \<lparr>pendingId = 1, pendingPeer = ex_pd 1\<rparr>]"
  have "0 < length (cmHeap ?cm)" "ep_state (cm_endpoint ?cm 0) \<noteq> DisconnectedState"
    by (simp_all add: onNewConnection_def acceptNewConnection_def decide_new accept_adopt_def cm_create_def om_find_def
      setConnecting_def commitHandlers_def cm_update_def cm_set_endpoint_def cm_endpoint_def ep_create_def ep_helper_defs)
  then show ?thesis using one_live_endpoint_per_peer [of ?cm "ex_env 0" False, OF refl] by blast
qed

text \<open>
  The connection manager delivers each incoming RPC message with the descriptor of the peer on the
  connection as its source, whatever source the sender wrote, and delivers the same message id
  again only after more than 10000 other deliveries.
\<close>

theorem incoming_messages_filtered:
  fixes env cm packets
  assumes "cmStatus cm \<noteq> STOPPED" "cmDuplicates cm = dd_create DUPLICATE_DETECTOR_SIZE"
  defines "ms \<equiv> delivered (snd (onData_run env cm packets))"
  shows "(\<forall>m \<in> set ms. \<exists>data pd m0. (data, pd) \<in> set packets \<and> envParse env data = Some m0 \<and>
            m = m0\<lparr>sourceDescriptor := Some pd\<rparr>) \<and>
         (\<forall>i j. i < j \<longrightarrow> j < length ms \<longrightarrow> messageId (ms ! i) = messageId (ms ! j) \<longrightarrow> 10000 < j - i)"
proof -
  have del: "map messageId ms = snd (dd.accept (dd_create DUPLICATE_DETECTOR_SIZE) (rpc_ids env packets))"
    using onData_run_delivered [OF assms(1), of env packets] assms(2) by (simp add: ms_def)
  have "DUPLICATE_DETECTOR_SIZE < j - i" if "i < j" "j < length ms" "messageId (ms ! i) = messageId (ms ! j)" for i j
  proof -
    have "map messageId ms ! i = map messageId ms ! j" "j < length (map messageId ms)" using that by simp_all
    then show ?thesis using dd.accept_spaced [OF dd_inv_create, of DUPLICATE_DETECTOR_SIZE i j "rpc_ids env packets"] that(1)
      unfolding del by (simp add: dd_create_def DUPLICATE_DETECTOR_SIZE_def)
  qed
  then show ?thesis using onData_run_delivered [OF assms(1), of env packets]
    by (auto simp: ms_def DUPLICATE_DETECTOR_SIZE_def)
qed

theorem incoming_messages_witness:
  "delivered (snd (onData_run (ex_env 0) (cm_create False) [([5], ex_pd 1), ([6], ex_pd 1)])) =
     [(ex_message [5])\<lparr>sourceDescriptor := Some (ex_pd 1)\<rparr>] \<and>
   (\<exists>data pd m0. (data, pd) \<in> set [([5], ex_pd 1), ([6], ex_pd 1)] \<and> envParse (ex_env 0) data = Some m0 \<and>
      (ex_message [5])\<lparr>sourceDescriptor := Some (ex_pd 1)\<rparr> = m0\<lparr>sourceDescriptor := Some pd\<rparr>)"
proof
  show del: "delivered (snd (onData_run (ex_env 0) (cm_create False) [([5], ex_pd 1), ([6], ex_pd 1)])) =
     [(ex_message [5])\<lparr>sourceDescriptor := Some (ex_pd 1)\<rparr>]"
    by (simp add: onData_def handleMessage_def ex_env_def ex_message_def cm_create_def isMostLikelyDuplicate_def dd_create_def
        dd_add_def DUPLICATE_DETECTOR_SIZE_def INTERNAL_SERVICE_ID_def delivered_def)
  have "\<forall>m \<in> set (delivered (snd (onData_run (ex_env 0) (cm_create False) [([5], ex_pd 1), ([6], ex_pd 1)]))).
      \<exists>data pd m0. (data, pd) \<in> set [([5], ex_pd 1), ([6], ex_pd 1)] \<and> envParse (ex_env 0) data = Some m0 \<and>
        m = m0\<lparr>sourceDescriptor := Some pd\<rparr>"
    by (rule incoming_messages_filtered [THEN conjunct1]) (simp_all add: cm_create_def)
  from this [unfolded del] show "\<exists>data pd m0. (data, pd) \<in> set [([5], ex_pd 1), ([6], ex_pd 1)] \<and> envParse (ex_env 0) data = Some m0 \<and>
      (ex_message [5])\<lparr>sourceDescriptor := Some (ex_pd 1)\<rparr> = m0\<lparr>sourceDescriptor := Some pd\<rparr>"
    by (rule bspec) simp
qed

text \<open>
  What \<^verbatim>\<open>send\<close> does on a running manager: a message to the node itself throws and changes nothing; without
  the connect flag, a message to a peer that is not connected throws and changes nothing; with it the
  serialised message reaches the endpoint of the peer, which is created if there is none.
\<close>

theorem cm_send_outcome:
  assumes "cm_inv env cm" "cmStatus cm = RUNNING"
    and "\<And>pd. pendingPeer (envCreateConnection env pd) = pd"
    and "\<And>i. om_find (cmEndpoints cm) nid = Some i \<Longrightarrow> ep_state (cm_endpoint cm i) \<noteq> InitialState"
    and "nid = nodeIdOf env (targetDescriptor m)"
    and "d = envSerialize env (m\<lparr>sourceDescriptor := Some (envLocalPeerDescriptor env)\<rparr>)" "d \<noteq> []"
  shows "if isConnectionToSelf env (targetDescriptor m)
         then cm_send env cm m so = (cm, [], Some (CannotConnectToSelf ''Cannot send to self''))
         else if \<not> soConnect so \<and> (\<forall>i. om_find (cmEndpoints cm) nid = Some i \<longrightarrow> \<not> ep_isConnected (cm_endpoint cm i))
         then cm_send env cm m so = (cm, [], Some (SendFailed ''No connection to target, connect flag is false''))
         else (\<exists>cm' os i. cm_send env cm m so = (cm', os, None) \<and> om_find (cmEndpoints cm') nid = Some i \<and>
                 hands_over cm' os i d)"
proof -
  have run: "cm_send env cm m so =
    (if isConnectionToSelf env (targetDescriptor m) then (cm, [], Some (CannotConnectToSelf ''Cannot send to self''))
     else (case om_find (cmEndpoints cm) nid of
        None \<Rightarrow> (if \<not> soConnect so then (cm, [], Some (SendFailed ''No connection to target, connect flag is false''))
           else (case onNewConnection env cm (envCreateConnection env (targetDescriptor m)) True of
                   (cm1, o1, accepted) \<Rightarrow>
                     (case om_find (cmEndpoints cm1) nid of
                        None \<Rightarrow> (cm1, o1, Some (SendFailed ''No connection to target, connection failed''))
                      | Some i \<Rightarrow> (case send_on_endpoint env cm1 i m of (cm2, o2, err) \<Rightarrow> (cm2, o1 @ o2, err)))))
      | Some i \<Rightarrow> (if \<not> ep_isConnected (cm_endpoint cm i) \<and> \<not> soConnect so
                  then (cm, [], Some (SendFailed ''No connection to target, connect flag is false''))
                  else send_on_endpoint env cm i m)))"
    unfolding assms(5) using assms(2) by (simp add: cm_send_def Let_def)
  show ?thesis
  proof (cases "om_find (cmEndpoints cm) nid")
    case None
    let ?p = "envCreateConnection env (targetDescriptor m)"
    have none: "om_find (cmEndpoints cm) (nodeIdOf env (pendingPeer ?p)) = None" using None assms(3,5) by simp
    obtain cm1 o1 where nc: "onNewConnection env cm ?p True = (cm1, o1, True)"
      "cmHeap cm1 = cmHeap cm @ [(pendingPeer ?p, adopt_ep ep_create (pendingId ?p) (cmSequence cm + 1))]"
      "om_find (cmEndpoints cm1) nid = Some (length (cmHeap cm))"
      using accept_new_eq [OF _ none, of True] assms(2,3,5) by fastforce
    have "cm_inv env cm1" using onNewConnection_inv [OF assms(1), of ?p True] nc(1) by simp
    moreover have "ep_state (cm_endpoint cm1 (length (cmHeap cm))) = ConnectingState" "length (cmHeap cm) < length (cmHeap cm1)"
      by (simp_all add: cm_endpoint_def nc(2) adopt_ep_def ep_create_def)
    ultimately obtain cm2 o2 where s: "send_on_endpoint env cm1 (length (cmHeap cm)) m = (cm2, o2, None)"
      "hands_over cm2 o2 (length (cmHeap cm)) d" "cmEndpoints cm2 = cmEndpoints cm1"
      using send_on_endpoint_hands_over [of env cm1 "length (cmHeap cm)" m d] assms(6,7) by auto
    then show ?thesis using None nc by (auto simp: run hands_over_def)
  next
    case (Some i)
    have i: "i < length (cmHeap cm)" "ep_state (cm_endpoint cm i) \<noteq> DisconnectedState"
      using assms(1) Some by (auto simp: cm_inv_def)
    have "ep_state (cm_endpoint cm i) \<in> {ConnectingState, ConnectedState}"
      using i(2) assms(4) [OF Some] by (cases "ep_state (cm_endpoint cm i)") auto
    then obtain cm2 o2 where "send_on_endpoint env cm i m = (cm2, o2, None)" "hands_over cm2 o2 i d" "cmEndpoints cm2 = cmEndpoints cm"
      using send_on_endpoint_hands_over [OF assms(1) i(1), of m d] assms(6,7) by auto
    then show ?thesis using Some by (auto simp: run)
  qed
qed

theorem cm_send_outcome_witness:
  "\<exists>cm' os i. cm_send (ex_env 0) ((cm_create False)\<lparr>cmStatus := RUNNING\<rparr>) (ex_message [5]) \<lparr>soConnect = True, soSendIfStopped = False\<rparr> =
     (cm', os, None) \<and> om_find (cmEndpoints cm') ''01'' = Some i \<and> hands_over cm' os i [5]"
proof -
  let ?cm = "(cm_create False)\<lparr>cmStatus := RUNNING\<rparr>"
  have inv: "cm_inv (ex_env 0) ?cm"
    using ls_create_spec by (simp add: cm_inv_def cm_create_def om_find_def dd_inv_create)
  have self: "\<not> isConnectionToSelf (ex_env 0) (targetDescriptor (ex_message [5]))" by code_simp
  have prem: "cmStatus ?cm = RUNNING" "\<And>pd. pendingPeer (envCreateConnection (ex_env 0) pd) = pd"
    "\<And>i. om_find (cmEndpoints ?cm) ''01'' = Some i \<Longrightarrow> ep_state (cm_endpoint ?cm i) \<noteq> InitialState"
    "''01'' = nodeIdOf (ex_env 0) (targetDescriptor (ex_message [5]))"
    "[5] = envSerialize (ex_env 0) ((ex_message [5])\<lparr>sourceDescriptor := Some (envLocalPeerDescriptor (ex_env 0))\<rparr>)"
    using ex_ids(2) [of 0] by (simp_all add: cm_create_def om_find_def ex_message_def) (simp_all add: ex_env_def)
  show ?thesis
    using cm_send_outcome [OF inv, where nid = "''01''" and m = "ex_message [5]" and d = "[5]"
        and so = "\<lparr>soConnect = True, soSendIfStopped = False\<rparr>", OF _ _ _ _ _ _] self prem by simp
qed

text \<open>
  Between the decision under the container's mutex and the adoption by the new endpoint, the
  container already offers an endpoint in its initial state: a \<^verbatim>\<open>send\<close> of another thread to that
  peer throws in this window even though it asked to connect.
\<close>

theorem send_before_adoption_throws:
  assumes "cmStatus cm = RUNNING" "om_find (cmEndpoints cm) (nodeIdOf env (pendingPeer p)) = None"
    and "targetDescriptor m = pendingPeer p" "\<not> isConnectionToSelf env (pendingPeer p)" "soConnect so"
    and "envSerialize env (m\<lparr>sourceDescriptor := Some (envLocalPeerDescriptor env)\<rparr>) \<noteq> []"
  shows "snd (snd (cm_send env (fst (accept_decide env cm p l)) m so)) =
           Some (EndpointError (RuntimeError ''send() called on endpoint in initial state''))"
  using assms
  by (simp add: decide_new cm_send_def Let_def send_on_endpoint_def cm_endpoint_def ep_send_def ep_create_def)

theorem send_before_adoption_witness:
  "snd (snd (cm_send (ex_env 0) (fst (accept_decide (ex_env 0) ((cm_create False)\<lparr>cmStatus := RUNNING\<rparr>)
      \<lparr>pendingId = 1, pendingPeer = ex_pd 1\<rparr> False)) (ex_message [5]) \<lparr>soConnect = True, soSendIfStopped = False\<rparr>)) =
     Some (EndpointError (RuntimeError ''send() called on endpoint in initial state''))"
proof -
  have self: "\<not> isConnectionToSelf (ex_env 0) (ex_pd 1)" by code_simp
  show ?thesis
    by (rule send_before_adoption_throws)
      (use self in \<open>simp_all add: cm_create_def om_find_def ex_message_def ex_env_def\<close>)
qed

end
