(* ===== verification/Pending_Connection.thy ===== *)
theory Pending_Connection
  imports Prelude
begin

text \<open>
  A connection that is being established (\<^verbatim>\<open>PendingConnection.cppm\<close>): its flags, its methods, and the
  timer that closes it.  Error callbacks and events are collected as outputs.
\<close>

record pending_connection =
  pc_hasErrorCallback :: bool
  pc_errorCallbackCalled :: bool
  pc_replacedAsDuplicate :: bool
  pc_stopped :: bool
  pc_timerAborted :: bool

datatype pc_out =
    PcConnected nat
  | PcDisconnected bool
  | PcErrorCallback string
  | PcRemoveAllListeners

definition pc_create :: "bool \<Rightarrow> pending_connection" where
  "pc_create hasCallback =
     \<lparr>pc_hasErrorCallback = hasCallback, pc_errorCallbackCalled = False, pc_replacedAsDuplicate = False,
      pc_stopped = False, pc_timerAborted = False\<rparr>"

definition replaceAsDuplicate :: "pending_connection \<Rightarrow> pending_connection \<times> pc_out list" where
  "replaceAsDuplicate pc = (pc\<lparr>pc_replacedAsDuplicate := True\<rparr>, [])"

definition onHandshakeCompleted :: "pending_connection \<Rightarrow> nat \<Rightarrow> pending_connection \<times> pc_out list" where
  "onHandshakeCompleted pc c =
     (pc\<lparr>pc_timerAborted := True\<rparr>, if \<not> pc_replacedAsDuplicate pc then [PcConnected c] else [])"

definition pc_onError :: "pending_connection \<Rightarrow> string \<Rightarrow> pending_connection \<times> pc_out list" where
  "pc_onError pc err =
     (if pc_hasErrorCallback pc \<and> \<not> pc_errorCallbackCalled pc
      then (pc\<lparr>pc_errorCallbackCalled := True\<rparr>, [PcErrorCallback err]) else (pc, []))"

definition pc_close :: "pending_connection \<Rightarrow> bool \<Rightarrow> pending_connection \<times> pc_out list" where
  "pc_close pc graceful =
     (if pc_stopped pc then (pc, [])
      else (case (if pc_hasErrorCallback pc \<and> \<not> pc_errorCallbackCalled pc
                  then (pc\<lparr>pc_errorCallbackCalled := True\<rparr>, [PcErrorCallback ''PendingConnection closed while connecting''])
                  else (pc, [])) of
              (pc1, o1) \<Rightarrow>
                (pc1\<lparr>pc_stopped := True, pc_timerAborted := True\<rparr>,
                 o1 @ (if \<not> pc_replacedAsDuplicate pc1 then [PcDisconnected graceful] else []))))"

definition pc_destroy :: "pending_connection \<Rightarrow> pending_connection \<times> pc_out list" where
  "pc_destroy pc =
     (if pc_stopped pc then (pc, [])
      else (pc\<lparr>pc_stopped := True, pc_timerAborted := True\<rparr>, [PcRemoveAllListeners]))"

text \<open>The connect timeout fires only while its signal has not been aborted, and closes the connection.\<close>

definition connectingTimeout :: "pending_connection \<Rightarrow> pending_connection \<times> pc_out list" where
  "connectingTimeout pc = (if pc_timerAborted pc then (pc, []) else pc_close pc False)"

datatype pc_event =
    ReplaceAsDuplicate
  | HandshakeCompleted nat
  | OnError string
  | PcClose bool
  | PcDestroy
  | Timeout

fun pc_step :: "pending_connection \<Rightarrow> pc_event \<Rightarrow> pending_connection \<times> pc_out list" where
  "pc_step pc ReplaceAsDuplicate = replaceAsDuplicate pc"
| "pc_step pc (HandshakeCompleted c) = onHandshakeCompleted pc c"
| "pc_step pc (OnError e) = pc_onError pc e"
| "pc_step pc (PcClose g) = pc_close pc g"
| "pc_step pc PcDestroy = pc_destroy pc"
| "pc_step pc Timeout = connectingTimeout pc"

fun pc_run :: "pending_connection \<Rightarrow> pc_event list \<Rightarrow> pending_connection \<times> pc_out list" where
  "pc_run pc [] = (pc, [])"
| "pc_run pc (e # es) = (case pc_step pc e of (pc1, o1) \<Rightarrow> (case pc_run pc1 es of (pc2, o2) \<Rightarrow> (pc2, o1 @ o2)))"

definition is_disconnected_out :: "pc_out \<Rightarrow> bool" where
  "is_disconnected_out x = (case x of PcDisconnected _ \<Rightarrow> True | _ \<Rightarrow> False)"

definition is_error_out :: "pc_out \<Rightarrow> bool" where
  "is_error_out x = (case x of PcErrorCallback _ \<Rightarrow> True | _ \<Rightarrow> False)"

definition is_connected_out :: "pc_out \<Rightarrow> bool" where
  "is_connected_out x = (case x of PcConnected _ \<Rightarrow> True | _ \<Rightarrow> False)"

lemmas pc_defs = replaceAsDuplicate_def onHandshakeCompleted_def pc_onError_def pc_close_def pc_destroy_def
  connectingTimeout_def is_disconnected_out_def is_error_out_def is_connected_out_def

text \<open>A step spends a right: one disconnection before the stop, one error callback, none when replaced.\<close>

lemma pc_step_counts:
  assumes "pc_step pc e = (pc', os)"
  shows "length (filter is_disconnected_out os) + (if pc_stopped pc' then 0 else 1) \<le> (if pc_stopped pc then 0 else 1)"
    and "length (filter is_error_out os) + (if pc_errorCallbackCalled pc' then 0 else 1) = (if pc_errorCallbackCalled pc then 0 else 1)"
    and "pc_replacedAsDuplicate pc \<Longrightarrow> pc_replacedAsDuplicate pc' \<and> filter is_disconnected_out os = [] \<and> filter is_connected_out os = []"
  using assms by (cases e; auto simp: pc_defs split: if_splits)+

lemma pc_run_counts:
  "pc_run pc es = (pc', os) \<Longrightarrow>
     length (filter is_disconnected_out os) + (if pc_stopped pc' then 0 else 1) \<le> (if pc_stopped pc then 0 else 1) \<and>
     length (filter is_error_out os) + (if pc_errorCallbackCalled pc' then 0 else 1) = (if pc_errorCallbackCalled pc then 0 else 1) \<and>
     (pc_replacedAsDuplicate pc \<longrightarrow> filter is_disconnected_out os = [] \<and> filter is_connected_out os = [])"
proof (induction es arbitrary: pc os)
  case (Cons e es)
  obtain pc1 o1 o2 where s: "pc_step pc e = (pc1, o1)" "pc_run pc1 es = (pc', o2)" "os = o1 @ o2"
    using Cons.prems by (auto split: prod.splits)
  show ?case using pc_step_counts [OF s(1)] Cons.IH [OF s(2)] by (auto simp: s(3))
qed auto

section \<open>Properties\<close>

text \<open>
  Whatever the order of handshake, error, close, timeout, destroy and replacement events, a
  pending connection emits its disconnection at most once and calls its error callback at most once,
  and once it has been replaced as a duplicate it emits neither a connection nor a disconnection.
\<close>

theorem pending_connection_once:
  "length (filter is_disconnected_out (snd (pc_run (pc_create cb) es))) \<le> 1 \<and>
   length (filter is_error_out (snd (pc_run (pc_create cb) es))) \<le> 1 \<and>
   filter (\<lambda>x. is_disconnected_out x \<or> is_connected_out x)
     (snd (pc_run (fst (replaceAsDuplicate (fst (pc_run (pc_create cb) es)))) es')) = []"
proof -
  obtain pc os where r: "pc_run (pc_create cb) es = (pc, os)" by force
  obtain pc' os' where r': "pc_run (fst (replaceAsDuplicate pc)) es' = (pc', os')" by force
  have "pc_replacedAsDuplicate (fst (replaceAsDuplicate pc))" by (simp add: replaceAsDuplicate_def)
  then have "filter is_disconnected_out os' = []" "filter is_connected_out os' = []"
    using pc_run_counts [OF r'] by auto
  then have "filter (\<lambda>x. is_disconnected_out x \<or> is_connected_out x) os' = []"
    by (auto simp: filter_empty_conv)
  then show ?thesis using pc_run_counts [OF r] r r' by (auto simp: pc_create_def split: if_splits)
qed

end
