(* ===== verification/Map_With_Ttl.thy ===== *)
theory Map_With_Ttl
  imports Prelude
begin

text \<open>
  The map with expiring entries (\<^verbatim>\<open>MapWithTtl.cppm\<close>).  Each call reads the clock; the value it reads
  is an argument.  The contract that this map and the first-in-first-out map of the propagation
  share is the locale \<open>expiring_cache\<close>.
\<close>

section \<open>The contract of an expiring cache\<close>

datatype ('k, 'v) cache_op = CSet 'k 'v millis | CDel 'k | CGet 'k millis

locale expiring_cache =
  fixes store :: "'s \<Rightarrow> 'k \<Rightarrow> 'v \<Rightarrow> millis \<Rightarrow> 's"
    and del :: "'s \<Rightarrow> 'k \<Rightarrow> 's"
    and touch :: "'s \<Rightarrow> 'k \<Rightarrow> millis \<Rightarrow> 's"
    and lookup :: "'s \<Rightarrow> 'k \<Rightarrow> millis \<Rightarrow> 'v option"
    and ttl :: "'v \<Rightarrow> millis"
    and inv :: "'s \<Rightarrow> bool"
  assumes inv_store: "inv s \<Longrightarrow> inv (store s k v t)"
    and inv_del: "inv s \<Longrightarrow> inv (del s k)"
    and inv_touch: "inv s \<Longrightarrow> inv (touch s k t)"
    and lookup_store_same: "inv s \<Longrightarrow> lookup (store s k v t) k u = Some w \<Longrightarrow> w = v \<and> u < t + ttl v"
    and lookup_store_other: "inv s \<Longrightarrow> j \<noteq> k \<Longrightarrow> lookup (store s k v t) j u = Some w \<Longrightarrow> lookup s j u = Some w"
    and lookup_del: "inv s \<Longrightarrow> lookup (del s k) j u = (if j = k then None else lookup s j u)"
    and lookup_touch: "inv s \<Longrightarrow> lookup (touch s k t) j u = Some w \<Longrightarrow> lookup s j u = Some w"
begin

definition cstep :: "'s \<Rightarrow> ('k, 'v) cache_op \<Rightarrow> 's" where
  "cstep s op = (case op of CSet k v t \<Rightarrow> store s k v t | CDel k \<Rightarrow> del s k | CGet k t \<Rightarrow> touch s k t)"

lemma cstep_inv: "inv s \<Longrightarrow> inv (cstep s op)"
  by (auto simp: cstep_def inv_store inv_del inv_touch split: cache_op.splits)

lemma crun_inv: "inv s \<Longrightarrow> inv (foldl cstep s ops)"
  by (induction ops arbitrary: s) (auto simp: cstep_inv)

text \<open>The value a key had been given last, and when; \<open>None\<close> after a deletion.\<close>

fun last_set :: "'k \<Rightarrow> ('v \<times> millis) option \<Rightarrow> ('k, 'v) cache_op list \<Rightarrow> ('v \<times> millis) option" where
  "last_set k acc [] = acc"
| "last_set k acc (CSet j v t # ops) = last_set k (if j = k then Some (v, t) else acc) ops"
| "last_set k acc (CDel j # ops) = last_set k (if j = k then None else acc) ops"
| "last_set k acc (CGet j t # ops) = last_set k acc ops"

text \<open>Whatever the cache returns is the value set last for the key, and not expired.\<close>

lemma lookup_fresh:
  assumes "inv s" "\<And>u w. lookup s k u = Some w \<Longrightarrow> \<exists>t. acc = Some (w, t) \<and> u < t + ttl w"
    and "lookup (foldl cstep s ops) k u = Some w"
  shows "\<exists>t. last_set k acc ops = Some (w, t) \<and> u < t + ttl w"
  using assms
proof (induction ops arbitrary: s acc)
  case (Cons op ops)
  have inv: "inv (cstep s op)" using Cons.prems(1) by (rule cstep_inv)
  have run: "lookup (foldl cstep (cstep s op) ops) k u = Some w" using Cons.prems(3) by simp
  show ?case
  proof (cases op)
    case (CSet j v t)
    have "\<exists>t'. (if j = k then Some (v, t) else acc) = Some (w', t') \<and> u' < t' + ttl w'"
      if "lookup (cstep s op) k u' = Some w'" for u' w'
    proof (cases "j = k")
      case True
      then show ?thesis using that lookup_store_same [OF Cons.prems(1), of k v t u' w'] by (auto simp: CSet cstep_def)
    next
      case False
      then show ?thesis using that lookup_store_other [OF Cons.prems(1), of k j v t u' w'] Cons.prems(2)
        by (auto simp: CSet cstep_def)
    qed
    from Cons.IH [OF inv this run] show ?thesis by (simp add: CSet)
  next
    case (CDel j)
    have "\<exists>t'. (if j = k then None else acc) = Some (w', t') \<and> u' < t' + ttl w'"
      if "lookup (cstep s op) k u' = Some w'" for u' w'
      using that lookup_del [OF Cons.prems(1)] Cons.prems(2) by (auto simp: CDel cstep_def split: if_splits)
    from Cons.IH [OF inv this run] show ?thesis by (simp add: CDel)
  next
    case (CGet j t)
    have "\<exists>t'. acc = Some (w', t') \<and> u' < t' + ttl w'" if "lookup (cstep s op) k u' = Some w'" for u' w'
      using that lookup_touch [OF Cons.prems(1)] Cons.prems(2) by (auto simp: CGet cstep_def)
    from Cons.IH [OF inv this run] show ?thesis by (simp add: CGet)
  qed
qed auto

end

section \<open>MapWithTtl\<close>

type_synonym ('k, 'v) ttl_map = "('k, 'v \<times> millis) omap"

definition mt_expired :: "'v \<times> millis \<Rightarrow> millis \<Rightarrow> bool" where
  "mt_expired wrapper now \<longleftrightarrow> now \<ge> snd wrapper"

definition mt_purgeExpired :: "('k, 'v) ttl_map \<Rightarrow> millis \<Rightarrow> ('k, 'v) ttl_map" where
  "mt_purgeExpired m now = filter (\<lambda>(k, w). \<not> mt_expired w now) m"

definition mt_set :: "('v \<Rightarrow> millis) \<Rightarrow> ('k::linorder, 'v) ttl_map \<Rightarrow> 'k \<Rightarrow> 'v \<Rightarrow> millis \<Rightarrow> ('k, 'v) ttl_map" where
  "mt_set getTtl m key value now = om_put key (value, now + getTtl value) m"

definition mt_get :: "('k, 'v) ttl_map \<Rightarrow> 'k \<Rightarrow> millis \<Rightarrow> ('k, 'v) ttl_map \<times> 'v option" where
  "mt_get m key now =
     (case om_find m key of
        None \<Rightarrow> (m, None)
      | Some w \<Rightarrow> (if mt_expired w now then (om_erase key m, None) else (m, Some (fst w))))"

definition mt_has :: "('k, 'v) ttl_map \<Rightarrow> 'k \<Rightarrow> millis \<Rightarrow> ('k, 'v) ttl_map \<times> bool" where
  "mt_has m key now =
     (case om_find m key of
        None \<Rightarrow> (m, False)
      | Some w \<Rightarrow> (if mt_expired w now then (om_erase key m, False) else (m, True)))"

definition mt_remove :: "('k, 'v) ttl_map \<Rightarrow> 'k \<Rightarrow> ('k, 'v) ttl_map" where
  "mt_remove m key = om_erase key m"

definition mt_clear :: "('k, 'v) ttl_map \<Rightarrow> ('k, 'v) ttl_map" where
  "mt_clear m = []"

definition mt_size :: "('k, 'v) ttl_map \<Rightarrow> millis \<Rightarrow> ('k, 'v) ttl_map \<times> nat" where
  "mt_size m now = (let m1 = mt_purgeExpired m now in (m1, length m1))"

definition mt_values :: "('k, 'v) ttl_map \<Rightarrow> millis \<Rightarrow> ('k, 'v) ttl_map \<times> 'v list" where
  "mt_values m now = (let m1 = mt_purgeExpired m now in (m1, map (\<lambda>(k, w). fst w) m1))"

definition mt_keys :: "('k, 'v) ttl_map \<Rightarrow> millis \<Rightarrow> ('k, 'v) ttl_map \<times> 'k list" where
  "mt_keys m now = (let m1 = mt_purgeExpired m now in (m1, map fst m1))"

text \<open>\<^verbatim>\<open>forEach\<close> with a callback that changes the value; the expiry time is kept.\<close>

definition mt_forEach :: "('v \<Rightarrow> 'v) \<Rightarrow> ('k, 'v) ttl_map \<Rightarrow> millis \<Rightarrow> ('k, 'v) ttl_map" where
  "mt_forEach callback m now = map (\<lambda>(k, w). (k, callback (fst w), snd w)) (mt_purgeExpired m now)"

text \<open>Writing through the pointer that \<^verbatim>\<open>get\<close> returns.\<close>

definition mt_modify :: "('v \<Rightarrow> 'v) \<Rightarrow> ('k, 'v) ttl_map \<Rightarrow> 'k \<Rightarrow> ('k, 'v) ttl_map" where
  "mt_modify f m key = om_adjust (\<lambda>w. (f (fst w), snd w)) key m"

section \<open>What the map holds at a time\<close>

definition mt_lookup :: "('k, 'v) ttl_map \<Rightarrow> 'k \<Rightarrow> millis \<Rightarrow> 'v option" where
  "mt_lookup m key now = snd (mt_get m key now)"

lemma mt_lookup_eq:
  "mt_lookup m k now = (case om_find m k of None \<Rightarrow> None | Some w \<Rightarrow> if now \<ge> snd w then None else Some (fst w))"
  by (simp add: mt_lookup_def mt_get_def mt_expired_def split: option.splits)

lemma mt_get_frame: "fst (mt_get m k t) = m \<or> fst (mt_get m k t) = om_erase k m"
  by (simp add: mt_get_def split: option.splits)

lemma mt_has_eq: "mt_has m k t = (fst (mt_get m k t), mt_lookup m k t \<noteq> None)"
  by (simp add: mt_has_def mt_get_def mt_lookup_def split: option.splits)

lemma om_ok_filter: "om_ok m \<Longrightarrow> om_ok (filter P m)"
  unfolding om_ok_def by (induction m) auto

lemma om_find_filter:
  "om_ok m \<Longrightarrow> om_find (filter (\<lambda>(k, w). P w) m) k = (case om_find m k of None \<Rightarrow> None | Some w \<Rightarrow> if P w then Some w else None)"
proof (induction m)
  case (Cons x m)
  obtain j w where x: "x = (j, w)" by force
  have "om_find m j = None" using Cons.prems by (auto simp: x om_ok_Cons om_find_None_iff)
  moreover have "om_ok m" using Cons.prems by (simp add: x om_ok_Cons)
  ultimately show ?case using Cons.IH by (auto simp: x om_find_def split: option.splits)
qed (simp add: om_find_def)

lemma mt_purge_ok [simp]: "om_ok m \<Longrightarrow> om_ok (mt_purgeExpired m t)"
  by (simp add: mt_purgeExpired_def om_ok_filter)

lemma mt_purge_lookup: "om_ok m \<Longrightarrow> t \<le> u \<Longrightarrow> mt_lookup (mt_purgeExpired m t) k u = mt_lookup m k u"
  unfolding mt_purgeExpired_def mt_lookup_eq
  by (subst om_find_filter) (auto simp: mt_expired_def split: option.splits)

text \<open>The values at a time are exactly what can be looked up at that time.\<close>

lemma mt_lookup_Some_iff: "om_ok m \<Longrightarrow> mt_lookup m k t = Some v \<longleftrightarrow> (\<exists>e. (k, v, e) \<in> set m \<and> t < e)"
  by (auto simp: mt_lookup_eq om_find_set_iff [symmetric] split: option.splits)

lemma mt_values_lookup: "om_ok m \<Longrightarrow> set (snd (mt_values m t)) = {v. \<exists>k. mt_lookup m k t = Some v}"
  by (force simp: mt_values_def mt_purgeExpired_def mt_expired_def mt_lookup_Some_iff Let_def image_iff)

lemma mt_lookup_modify: "mt_lookup (mt_modify f m k) j t = (if j = k then map_option f (mt_lookup m j t) else mt_lookup m j t)"
  by (simp add: mt_lookup_eq mt_modify_def split: option.splits)

lemma mt_lookup_set: "mt_lookup (mt_set ttl m k v t) j u = (if j = k then (if u < t + ttl v then Some v else None) else mt_lookup m j u)"
  by (auto simp: mt_lookup_eq mt_set_def)

interpretation mt: expiring_cache "mt_set ttl" mt_remove "\<lambda>m k t. fst (mt_get m k t)" mt_lookup ttl om_ok for ttl
proof unfold_locales
  fix m :: "('b::linorder, 'a) ttl_map" and k j v t u w
  assume ok: "om_ok m"
  show "om_ok (mt_set ttl m k v t)" "om_ok (mt_remove m k)" using ok by (simp_all add: mt_set_def mt_remove_def)
  show "om_ok (fst (mt_get m k t))" using ok mt_get_frame [of m k t] by auto
  show "w = v \<and> u < t + ttl v" if "mt_lookup (mt_set ttl m k v t) k u = Some w"
    using that by (auto simp: mt_lookup_set split: if_splits)
  show "mt_lookup m j u = Some w" if "j \<noteq> k" "mt_lookup (mt_set ttl m k v t) j u = Some w"
    using that by (simp add: mt_lookup_set)
  show "mt_lookup (mt_remove m k) j u = (if j = k then None else mt_lookup m j u)"
    by (simp add: mt_lookup_eq mt_remove_def)
  show "mt_lookup m j u = Some w" if "mt_lookup (fst (mt_get m k t)) j u = Some w"
    using that mt_get_frame [of m k t] by (auto simp: mt_lookup_eq split: if_splits)
qed

section \<open>Properties\<close>

text \<open>
  Whatever a sequence of \<^verbatim>\<open>set\<close>, \<^verbatim>\<open>get\<close>, \<^verbatim>\<open>has\<close> and \<^verbatim>\<open>remove\<close> calls at whatever times did, the value that
  the map returns for a key is the one that was set last and not removed since, and its time
  to live has not passed.
\<close>

theorem map_with_ttl_fresh:
  assumes "mt_lookup (foldl (mt.cstep ttl) [] ops) k u = Some w"
  shows "\<exists>t. mt.last_set k None ops = Some (w, t) \<and> u < t + ttl w"
  by (rule mt.lookup_fresh [OF om_ok_Nil _ assms]) (simp add: mt_lookup_eq om_find_def)

theorem map_with_ttl_fresh_witness:
  "\<exists>t. mt.last_set ''k'' None [CSet ''k'' (5 :: int) 100] = Some (5, t) \<and> 104 < t + 5"
  by (rule map_with_ttl_fresh [where ttl = "\<lambda>v. v"]) (simp add: mt.cstep_def mt_set_def mt_lookup_eq om_find_def)

end
