(* ===== verification/Local_Data_Store.thy ===== *)
theory Local_Data_Store
  imports Map_With_Ttl Identifiers "HOL-Library.Signed_Division"
begin

text \<open>
  The store of DHT data entries (\<^verbatim>\<open>LocalDataStore.cppm\<close>): for each data key a map with expiring entries
  from creators to entries.  A call reads the clock several times; each reading is an argument.
\<close>

section \<open>Entries and the store\<close>

record DataEntry =
  deKey :: bytes
  deData :: bytes
  deCreator :: bytes
  deCreatedSeconds :: int
  deCreatedNanos :: int
  deTtl :: "32 word"
  deStale :: bool
  deDeleted :: bool

record data_store =
  dsMaxTtl :: "32 word"
  dsStore :: "(DhtAddress, (DhtAddress, DataEntry) ttl_map) omap"

definition ds_create :: "32 word \<Rightarrow> data_store" where
  "ds_create maxTtl = \<lparr>dsMaxTtl = maxTtl, dsStore = []\<rparr>"

text \<open>Nanoseconds are divided with truncation towards zero.\<close>

definition toMillis :: "DataEntry \<Rightarrow> int" where
  "toMillis e = deCreatedSeconds e * 1000 + (deCreatedNanos e sdiv 1000000)"

definition ds_ttl :: "32 word \<Rightarrow> DataEntry \<Rightarrow> millis" where
  "ds_ttl maxTtl e = uint (min (deTtl e) maxTtl)"

definition storeEntry ::
  "hex_codec \<Rightarrow> data_store \<Rightarrow> DataEntry \<Rightarrow> millis \<Rightarrow> millis \<Rightarrow> millis \<Rightarrow> data_store \<times> (cpp_error + bool)" where
  "storeEntry hx s dataEntry t1 t2 t3 =
     (let key = getDhtAddressFromRaw hx (deKey dataEntry);
          creatorNodeId = getDhtAddressFromRaw hx (deCreator dataEntry);
          inner = (case om_find (dsStore s) key of None \<Rightarrow> [] | Some m \<Rightarrow> m)
      in case mt_has inner creatorNodeId t1 of
           (inner1, False) \<Rightarrow>
             (s\<lparr>dsStore := om_put key (mt_set (ds_ttl (dsMaxTtl s)) inner1 creatorNodeId dataEntry t3) (dsStore s)\<rparr>, Inr True)
         | (inner1, True) \<Rightarrow>
             (case mt_get inner1 creatorNodeId t2 of
                (inner2, None) \<Rightarrow> (s\<lparr>dsStore := om_put key inner2 (dsStore s)\<rparr>, Inl UndefinedBehaviour)
              | (inner2, Some old) \<Rightarrow>
                  (if toMillis old \<ge> toMillis dataEntry
                   then (s\<lparr>dsStore := om_put key inner2 (dsStore s)\<rparr>, Inr False)
                   else (s\<lparr>dsStore := om_put key (mt_set (ds_ttl (dsMaxTtl s)) inner2 creatorNodeId dataEntry t3) (dsStore s)\<rparr>,
                         Inr True))))"

definition markAsDeleted ::
  "data_store \<Rightarrow> DhtAddress \<Rightarrow> DhtAddress \<Rightarrow> millis \<Rightarrow> millis \<Rightarrow> data_store \<times> (cpp_error + bool)" where
  "markAsDeleted s key creator t1 t2 =
     (case om_find (dsStore s) key of
        None \<Rightarrow> (s, Inr False)
      | Some inner \<Rightarrow>
          (case mt_has inner creator t1 of
             (inner1, False) \<Rightarrow> (s\<lparr>dsStore := om_put key inner1 (dsStore s)\<rparr>, Inr False)
           | (inner1, True) \<Rightarrow>
               (case mt_get inner1 creator t2 of
                  (inner2, None) \<Rightarrow> (s\<lparr>dsStore := om_put key inner2 (dsStore s)\<rparr>, Inl UndefinedBehaviour)
                | (inner2, Some _) \<Rightarrow>
                    (s\<lparr>dsStore := om_put key (mt_modify (\<lambda>e. e\<lparr>deDeleted := True\<rparr>) inner2 creator) (dsStore s)\<rparr>, Inr True))))"

text \<open>The clock is read once per inner map; \<open>now key\<close> is the reading for that key.\<close>

definition ds_values :: "data_store \<Rightarrow> DhtAddress option \<Rightarrow> (DhtAddress \<Rightarrow> millis) \<Rightarrow> data_store \<times> DataEntry list" where
  "ds_values s keyOpt now =
     (case keyOpt of
        Some key \<Rightarrow>
          (case om_find (dsStore s) key of
             None \<Rightarrow> (s, [])
           | Some inner \<Rightarrow> (case mt_values inner (now key) of
                              (inner1, vs) \<Rightarrow> (s\<lparr>dsStore := om_put key inner1 (dsStore s)\<rparr>, vs)))
      | None \<Rightarrow>
          (s\<lparr>dsStore := map (\<lambda>(k, inner). (k, fst (mt_values inner (now k)))) (dsStore s)\<rparr>,
           concat (map (\<lambda>(k, inner). snd (mt_values inner (now k))) (dsStore s))))"

definition ds_keys :: "data_store \<Rightarrow> DhtAddress list" where
  "ds_keys s = om_keys (dsStore s)"

definition setAllEntriesAsStale :: "data_store \<Rightarrow> DhtAddress \<Rightarrow> millis \<Rightarrow> data_store" where
  "setAllEntriesAsStale s key now =
     (case om_find (dsStore s) key of
        None \<Rightarrow> s
      | Some inner \<Rightarrow> s\<lparr>dsStore := om_put key (mt_forEach (\<lambda>e. e\<lparr>deStale := True\<rparr>) inner now) (dsStore s)\<rparr>)"

definition deleteEntry :: "data_store \<Rightarrow> DhtAddress \<Rightarrow> DhtAddress \<Rightarrow> millis \<Rightarrow> millis \<Rightarrow> data_store" where
  "deleteEntry s key creator t1 t2 =
     (case om_find (dsStore s) key of
        None \<Rightarrow> s
      | Some inner \<Rightarrow>
          (case mt_get inner creator t1 of
             (inner1, None) \<Rightarrow> s\<lparr>dsStore := om_put key inner1 (dsStore s)\<rparr>
           | (inner1, Some _) \<Rightarrow>
               (case mt_size (mt_remove inner1 creator) t2 of
                  (inner2, n) \<Rightarrow>
                    (if n = 0 then s\<lparr>dsStore := om_erase key (dsStore s)\<rparr>
                     else s\<lparr>dsStore := om_put key inner2 (dsStore s)\<rparr>))))"

definition ds_clear :: "data_store \<Rightarrow> data_store" where
  "ds_clear s = s\<lparr>dsStore := []\<rparr>"

section \<open>What the store holds at a time\<close>

definition ds_lookup :: "data_store \<Rightarrow> DhtAddress \<Rightarrow> DhtAddress \<Rightarrow> millis \<Rightarrow> DataEntry option" where
  "ds_lookup s key creator now = (case om_find (dsStore s) key of None \<Rightarrow> None | Some inner \<Rightarrow> mt_lookup inner creator now)"

definition ds_inv :: "data_store \<Rightarrow> bool" where
  "ds_inv s \<longleftrightarrow> om_ok (dsStore s) \<and> (\<forall>k m. om_find (dsStore s) k = Some m \<longrightarrow> om_ok m)"

lemma mt_lookup_after_get: "t \<le> u \<Longrightarrow> mt_lookup (fst (mt_get m k t)) j u = mt_lookup m j u"
  by (auto simp: mt_get_def mt_lookup_eq mt_expired_def split: option.splits)

lemma ds_lookup_put: "ds_lookup (s\<lparr>dsStore := om_put key m (dsStore s)\<rparr>) k c u = (if k = key then mt_lookup m c u else ds_lookup s k c u)"
  by (simp add: ds_lookup_def)

lemma ds_inv_put: "ds_inv s \<Longrightarrow> om_ok m \<Longrightarrow> ds_inv (s\<lparr>dsStore := om_put key m (dsStore s)\<rparr>)"
  by (simp add: ds_inv_def)

lemma om_ok_get: "om_ok m \<Longrightarrow> om_ok (fst (mt_get m k t))"
  using mt_get_frame [of m k t] by auto

lemma om_ok_mt_set: "om_ok m \<Longrightarrow> om_ok (mt_set ttl m k v t)"
  by (simp add: mt_set_def)

text \<open>What \<^verbatim>\<open>storeEntry\<close> does, in terms of the entry that was there before.\<close>

lemma storeEntry_eq:
  fixes hx e
  defines "key \<equiv> getDhtAddressFromRaw hx (deKey e)" and "cr \<equiv> getDhtAddressFromRaw hx (deCreator e)"
  assumes inv: "ds_inv s"
  shows "\<exists>m. om_ok m \<and> (\<forall>c u. max t1 t2 \<le> u \<longrightarrow> mt_lookup m c u = ds_lookup s key c u) \<and>
    storeEntry hx s e t1 t2 t3 =
      (case ds_lookup s key cr t1 of
         None \<Rightarrow> (s\<lparr>dsStore := om_put key (mt_set (ds_ttl (dsMaxTtl s)) m cr e t3) (dsStore s)\<rparr>, Inr True)
       | Some _ \<Rightarrow>
           (case ds_lookup s key cr t2 of
              None \<Rightarrow> (s\<lparr>dsStore := om_put key m (dsStore s)\<rparr>, Inl UndefinedBehaviour)
            | Some old \<Rightarrow>
                (if toMillis old \<ge> toMillis e then (s\<lparr>dsStore := om_put key m (dsStore s)\<rparr>, Inr False)
                 else (s\<lparr>dsStore := om_put key (mt_set (ds_ttl (dsMaxTtl s)) m cr e t3) (dsStore s)\<rparr>, Inr True))))"
proof -
  define inner where "inner = (case om_find (dsStore s) key of None \<Rightarrow> [] | Some m \<Rightarrow> m)"
  have ok: "om_ok inner" using inv by (auto simp: inner_def ds_inv_def split: option.splits)
  have look: "mt_lookup inner c u = ds_lookup s key c u" for c u
    by (simp add: inner_def ds_lookup_def mt_lookup_eq om_find_def split: option.splits)
  let ?m1 = "fst (mt_get inner cr t1)"
  have get2: "snd (mt_get ?m1 cr t2) = ds_lookup s key cr t2" if "ds_lookup s key cr t1 \<noteq> None"
  proof -
    have "?m1 = inner" using that look [of cr t1] by (auto simp: mt_get_def mt_lookup_def split: option.splits if_splits)
    then show ?thesis using look [of cr t2] by (simp add: mt_lookup_def)
  qed
  define m where "m = (if ds_lookup s key cr t1 = None then ?m1 else fst (mt_get ?m1 cr t2))"
  have "om_ok m" unfolding m_def using ok om_ok_get by auto
  moreover have "mt_lookup m c u = ds_lookup s key c u" if "max t1 t2 \<le> u" for c u
    using that mt_lookup_after_get [of t1 u inner cr c] mt_lookup_after_get [of t2 u ?m1 cr c] look by (auto simp: m_def)
  moreover have "storeEntry hx s e t1 t2 t3 =
      (case ds_lookup s key cr t1 of
         None \<Rightarrow> (s\<lparr>dsStore := om_put key (mt_set (ds_ttl (dsMaxTtl s)) m cr e t3) (dsStore s)\<rparr>, Inr True)
       | Some _ \<Rightarrow>
           (case ds_lookup s key cr t2 of
              None \<Rightarrow> (s\<lparr>dsStore := om_put key m (dsStore s)\<rparr>, Inl UndefinedBehaviour)
            | Some old \<Rightarrow>
                (if toMillis old \<ge> toMillis e then (s\<lparr>dsStore := om_put key m (dsStore s)\<rparr>, Inr False)
                 else (s\<lparr>dsStore := om_put key (mt_set (ds_ttl (dsMaxTtl s)) m cr e t3) (dsStore s)\<rparr>, Inr True))))"
    using get2 look [of cr t1]
    by (auto simp: storeEntry_def Let_def key_def [symmetric] cr_def [symmetric] inner_def [symmetric] mt_has_eq m_def
        split: option.splits prod.splits) (metis+)
  ultimately show ?thesis by blast
qed

lemma storeEntry_maxTtl: "dsMaxTtl (fst (storeEntry hx s e t1 t2 t3)) = dsMaxTtl s"
  by (auto simp: storeEntry_def Let_def split: prod.splits bool.splits option.splits)


lemma ds_inv_create: "ds_inv (ds_create n)"
  by (simp add: ds_inv_def ds_create_def om_find_def)

lemma storeEntry_inv:
  assumes "ds_inv s"
  shows "ds_inv (fst (storeEntry hx s e t1 t2 t3))"
proof -
  have put: "ds_inv (s\<lparr>dsStore := om_put k m (dsStore s)\<rparr>)" if "om_ok m" for k m using assms that by (rule ds_inv_put)
  show ?thesis using storeEntry_eq [OF assms, of t1 t2 hx e t3]
    by (auto split: option.splits intro!: put om_ok_mt_set)
qed

lemma storeEntry_effect:
  fixes hx e
  defines "key \<equiv> getDhtAddressFromRaw hx (deKey e)" and "cr \<equiv> getDhtAddressFromRaw hx (deCreator e)"
  assumes "ds_inv s" "t1 \<le> t2" "t2 \<le> t3" "t3 \<le> u" "ds_lookup s key cr t1 = None \<or> ds_lookup s key cr t2 \<noteq> None"
  shows "let replaced = (case ds_lookup s key cr t1 of None \<Rightarrow> True | Some old \<Rightarrow> toMillis old < toMillis e);
             s' = fst (storeEntry hx s e t1 t2 t3)
         in ds_inv s' \<and> snd (storeEntry hx s e t1 t2 t3) = Inr replaced \<and>
            ds_lookup s' key cr u =
              (if replaced then (if u < t3 + ds_ttl (dsMaxTtl s) e then Some e else None) else ds_lookup s key cr u) \<and>
            (\<forall>k c. (k, c) \<noteq> (key, cr) \<longrightarrow> ds_lookup s' k c u = ds_lookup s k c u)"
proof -
  obtain m where m: "om_ok m" "\<And>c u. max t1 t2 \<le> u \<Longrightarrow> mt_lookup m c u = ds_lookup s key c u"
    "storeEntry hx s e t1 t2 t3 =
      (case ds_lookup s key cr t1 of
         None \<Rightarrow> (s\<lparr>dsStore := om_put key (mt_set (ds_ttl (dsMaxTtl s)) m cr e t3) (dsStore s)\<rparr>, Inr True)
       | Some _ \<Rightarrow>
           (case ds_lookup s key cr t2 of
              None \<Rightarrow> (s\<lparr>dsStore := om_put key m (dsStore s)\<rparr>, Inl UndefinedBehaviour)
            | Some old \<Rightarrow>
                (if toMillis old \<ge> toMillis e then (s\<lparr>dsStore := om_put key m (dsStore s)\<rparr>, Inr False)
                 else (s\<lparr>dsStore := om_put key (mt_set (ds_ttl (dsMaxTtl s)) m cr e t3) (dsStore s)\<rparr>, Inr True))))"
    using storeEntry_eq [OF assms(3), of t1 t2 hx e t3] unfolding key_def cr_def by blast
  have same: "ds_lookup s key cr t2 = ds_lookup s key cr t1" if "ds_lookup s key cr t2 \<noteq> None"
    using that assms(4) by (auto simp: ds_lookup_def mt_lookup_eq split: option.splits if_splits)
  have look: "mt_lookup m c u = ds_lookup s key c u" for c using m(2) assms(4-6) by auto
  have set_look: "mt_lookup (mt_set ttl m cr e t3) c u =
      (if c = cr then (if u < t3 + ttl e then Some e else None) else ds_lookup s key c u)" for c ttl
    by (simp add: mt_lookup_set look)
  have inv: "ds_inv (s\<lparr>dsStore := om_put key m (dsStore s)\<rparr>)" "ds_inv (s\<lparr>dsStore := om_put key (mt_set ttl m cr e t3) (dsStore s)\<rparr>)" for ttl
    using assms(3) m(1) by (auto intro: ds_inv_put om_ok_mt_set)
  show ?thesis
  proof (cases "ds_lookup s key cr t1")
    case None
    then show ?thesis by (simp add: m(3) ds_lookup_put set_look inv)
  next
    case (Some old)
    then have "ds_lookup s key cr t2 = Some old" using assms(7) same by auto
    then show ?thesis using Some by (auto simp: m(3) ds_lookup_put set_look look inv)
  qed
qed

section \<open>Properties\<close>

text \<open>
  \<^verbatim>\<open>storeEntry\<close> keeps the newest entry of a creator: with clock readings in order, and unless the old
  entry expires during the call, it replaces the old entry exactly when there is none or it is older,
  the stored entry lives for the smaller of its own and the maximal time to live, and no
  other entry changes.
\<close>

theorem storeEntry_newest_wins:
  fixes hx e
  defines "key \<equiv> getDhtAddressFromRaw hx (deKey e)" and "cr \<equiv> getDhtAddressFromRaw hx (deCreator e)"
  assumes "ds_inv s" "t1 \<le> t2" "t2 \<le> t3" "t3 \<le> u" "ds_lookup s key cr t1 = None \<or> ds_lookup s key cr t2 \<noteq> None"
  shows "let replaced = (case ds_lookup s key cr t1 of None \<Rightarrow> True | Some old \<Rightarrow> toMillis old < toMillis e);
             s' = fst (storeEntry hx s e t1 t2 t3)
         in ds_inv s' \<and> snd (storeEntry hx s e t1 t2 t3) = Inr replaced \<and>
            ds_lookup s' key cr u =
              (if replaced then (if u < t3 + ds_ttl (dsMaxTtl s) e then Some e else None) else ds_lookup s key cr u) \<and>
            (\<forall>k c. (k, c) \<noteq> (key, cr) \<longrightarrow> ds_lookup s' k c u = ds_lookup s k c u)"
  using assms unfolding key_def cr_def by (intro storeEntry_effect)

definition ds_example :: "int \<Rightarrow> DataEntry" where
  "ds_example t = \<lparr>deKey = [1], deData = [], deCreator = [2], deCreatedSeconds = t, deCreatedNanos = 0, deTtl = 100,
     deStale = False, deDeleted = False\<rparr>"

theorem storeEntry_newest_wins_witness:
  "snd (storeEntry ref_hex (fst (storeEntry ref_hex (ds_create 50) (ds_example 1) 0 0 0)) (ds_example 2) 10 10 10) = Inr True"
proof -
  let ?s = "fst (storeEntry ref_hex (ds_create 50) (ds_example 1) 0 0 0)"
  have "ds_inv ?s" by (rule storeEntry_inv [OF ds_inv_create])
  moreover have "ds_lookup ?s (getDhtAddressFromRaw ref_hex (deKey (ds_example 2))) (getDhtAddressFromRaw ref_hex (deCreator (ds_example 2))) 10
      = Some (ds_example 1)" by code_simp
  ultimately show ?thesis
    using storeEntry_newest_wins [where s = ?s and hx = ref_hex and e = "ds_example 2" and ?t1.0 = 10 and ?t2.0 = 10 and ?t3.0 = 10 and u = 10]
    by (simp add: Let_def) (simp add: toMillis_def ds_example_def)
qed


text \<open>
  Replicas receive the same entries in different orders.  \<open>store_run\<close> stores entries one after
  another, each at its own time.
\<close>

definition store_run :: "hex_codec \<Rightarrow> data_store \<Rightarrow> (DataEntry \<times> millis) list \<Rightarrow> data_store" where
  "store_run hx s es = foldl (\<lambda>s x. fst (storeEntry hx s (fst x) (snd x) (snd x) (snd x))) s es"

text \<open>The entry is present, unexpired until \<open>u\<close>, and the newest of those stored.\<close>

definition holds_newest :: "data_store \<Rightarrow> DhtAddress \<Rightarrow> DhtAddress \<Rightarrow> (DataEntry \<times> millis) list \<Rightarrow> millis \<Rightarrow> bool" where
  "holds_newest s key cr es u \<longleftrightarrow>
     (\<exists>x \<in> set es. (\<forall>v. snd (last es) \<le> v \<longrightarrow> v \<le> u \<longrightarrow> ds_lookup s key cr v = Some (fst x)) \<and>
        (\<forall>y \<in> set es. toMillis (fst y) \<le> toMillis (fst x)))"

lemma holds_newest_step:
  assumes inv: "ds_inv s" and cur: "es = [] \<and> ds_lookup s key cr t = None \<or> es \<noteq> [] \<and> holds_newest s key cr es u \<and> snd (last es) \<le> t"
    and e: "getDhtAddressFromRaw hx (deKey e) = key" "getDhtAddressFromRaw hx (deCreator e) = cr" "t \<le> u" "u < t + ds_ttl (dsMaxTtl s) e"
  shows "holds_newest (fst (storeEntry hx s e t t t)) key cr (es @ [(e, t)]) u"
proof -
  have res: "ds_lookup (fst (storeEntry hx s e t t t)) key cr v =
      (if (case ds_lookup s key cr t of None \<Rightarrow> True | Some old \<Rightarrow> toMillis old < toMillis e)
       then Some e else ds_lookup s key cr v)" if "t \<le> v" "v \<le> u" for v
  proof -
    have "ds_lookup s key cr t = None \<or> ds_lookup s key cr t \<noteq> None" by blast
    then show ?thesis
      using storeEntry_effect [OF inv order_refl order_refl that(1), of hx e] that(2) e
      by (simp add: Let_def split: option.splits if_splits)
  qed
  show ?thesis
  proof (cases "es = []")
    case True
    then show ?thesis using cur res by (auto simp: holds_newest_def)
  next
    case False
    then obtain x where x: "x \<in> set es" "\<And>v. t \<le> v \<Longrightarrow> v \<le> u \<Longrightarrow> ds_lookup s key cr v = Some (fst x)"
      "\<And>y. y \<in> set es \<Longrightarrow> toMillis (fst y) \<le> toMillis (fst x)"
      using cur unfolding holds_newest_def by (metis order_trans)
    show ?thesis
    proof (cases "toMillis (fst x) < toMillis e")
      case True
      then show ?thesis using x res e(3) by (fastforce simp: holds_newest_def)
    next
      case False
      then show ?thesis using x res e(3) by (fastforce simp: holds_newest_def)
    qed
  qed
qed

lemma store_run_newest:
  assumes "es \<noteq> []" "sorted (map snd es)" "snd (last es) \<le> u"
    and "\<And>x. x \<in> set es \<Longrightarrow> getDhtAddressFromRaw hx (deKey (fst x)) = key \<and> getDhtAddressFromRaw hx (deCreator (fst x)) = cr \<and>
           u < snd x + ds_ttl n (fst x)"
  shows "ds_inv (store_run hx (ds_create n) es) \<and> dsMaxTtl (store_run hx (ds_create n) es) = n \<and>
         holds_newest (store_run hx (ds_create n) es) key cr es u"
  using assms
proof (induction es rule: rev_induct)
  case (snoc x es)
  let ?s = "store_run hx (ds_create n) es"
  have inv: "ds_inv ?s" "dsMaxTtl ?s = n" "es \<noteq> [] \<longrightarrow> holds_newest ?s key cr es u"
  proof (atomize (full), cases "es = []")
    case True
    then show "ds_inv ?s \<and> dsMaxTtl ?s = n \<and> (es \<noteq> [] \<longrightarrow> holds_newest ?s key cr es u)"
      by (simp add: store_run_def ds_inv_create) (simp add: ds_create_def)
  next
    case False
    have "snd (last es) \<le> snd x" using snoc.prems(2) False by (simp add: sorted_append)
    then have "snd (last es) \<le> u" using snoc.prems(3) by simp
    then show "ds_inv ?s \<and> dsMaxTtl ?s = n \<and> (es \<noteq> [] \<longrightarrow> holds_newest ?s key cr es u)"
      using snoc.IH False snoc.prems by (simp add: sorted_append)
  qed
  have ord: "es = [] \<or> snd (last es) \<le> snd x" using snoc.prems(2) by (cases "es = []") (simp_all add: sorted_append)
  have new: "es = [] \<longrightarrow> ds_lookup ?s key cr (snd x) = None"
    by (auto simp: store_run_def ds_create_def ds_lookup_def om_find_def)
  have "holds_newest (fst (storeEntry hx ?s (fst x) (snd x) (snd x) (snd x))) key cr (es @ [(fst x, snd x)]) u"
    using inv ord new snoc.prems(3) snoc.prems(4) [of x] by (intro holds_newest_step) auto
  then show ?case using inv by (simp add: store_run_def storeEntry_inv storeEntry_maxTtl)
qed simp

text \<open>
  Replication is independent of the order of arrival: two stores that receive the same entries of a
  creator, with different creation times, in any two orders hold the same entry, the newest one,
  as long as none of the entries expires.
\<close>

theorem store_order_independent:
  assumes "set es = set es'" "es \<noteq> []"
    and "sorted (map snd ts)" "length ts = length es" "map fst ts = es" "sorted (map snd ts')" "map fst ts' = es'"
    and "snd (last ts) \<le> u" "snd (last ts') \<le> u"
    and "\<And>e t. (e, t) \<in> set ts \<union> set ts' \<Longrightarrow> u < t + ds_ttl n e"
    and "\<And>e. e \<in> set es \<Longrightarrow> getDhtAddressFromRaw hx (deKey e) = key \<and> getDhtAddressFromRaw hx (deCreator e) = cr"
    and "inj_on toMillis (set es)"
  shows "ds_lookup (store_run hx (ds_create n) ts) key cr u = ds_lookup (store_run hx (ds_create n) ts') key cr u \<and>
         (\<exists>e \<in> set es. ds_lookup (store_run hx (ds_create n) ts) key cr u = Some e \<and> (\<forall>e' \<in> set es. toMillis e' \<le> toMillis e))"
proof -
  have set_ts: "fst ` set ts = set es" "fst ` set ts' = set es" using assms(1,5,7) by (metis set_map)+
  have ne: "ts \<noteq> []" "ts' \<noteq> []" using assms(1,2) set_ts by auto
  have keys: "getDhtAddressFromRaw hx (deKey (fst x)) = key \<and> getDhtAddressFromRaw hx (deCreator (fst x)) = cr \<and>
      u < snd x + ds_ttl n (fst x)" if "x \<in> set ts \<union> set ts'" for x
  proof -
    have "fst x \<in> set es" using that set_ts by blast
    then show ?thesis using that assms(10) [of "fst x" "snd x"] assms(11) by simp
  qed
  have newest_of: "\<exists>x \<in> set zs. ds_lookup (store_run hx (ds_create n) zs) key cr u = Some (fst x) \<and>
      (\<forall>y \<in> set zs. toMillis (fst y) \<le> toMillis (fst x))"
    if "zs \<noteq> []" "sorted (map snd zs)" "snd (last zs) \<le> u"
      "\<And>x. x \<in> set zs \<Longrightarrow> getDhtAddressFromRaw hx (deKey (fst x)) = key \<and> getDhtAddressFromRaw hx (deCreator (fst x)) = cr \<and>
           u < snd x + ds_ttl n (fst x)" for zs
    using store_run_newest [OF that] that(3) unfolding holds_newest_def by blast
  obtain x where x: "x \<in> set ts" "ds_lookup (store_run hx (ds_create n) ts) key cr u = Some (fst x)"
    "\<And>y. y \<in> set ts \<Longrightarrow> toMillis (fst y) \<le> toMillis (fst x)"
    using newest_of [OF ne(1) assms(3,8)] keys by blast
  obtain y where y: "y \<in> set ts'" "ds_lookup (store_run hx (ds_create n) ts') key cr u = Some (fst y)"
    "\<And>z. z \<in> set ts' \<Longrightarrow> toMillis (fst z) \<le> toMillis (fst y)"
    using newest_of [OF ne(2) assms(6,9)] keys by blast
  have X: "fst x \<in> set es" "\<And>e. e \<in> set es \<Longrightarrow> toMillis e \<le> toMillis (fst x)" using x set_ts(1) by (metis imageE imageI)+
  have Y: "fst y \<in> set es" "\<And>e. e \<in> set es \<Longrightarrow> toMillis e \<le> toMillis (fst y)" using y set_ts(2) by (metis imageE imageI)+
  have "toMillis (fst x) = toMillis (fst y)" using X Y by (simp add: order_antisym)
  then have "fst x = fst y" using X(1) Y(1) assms(12) by (simp add: inj_on_eq_iff)
  then show ?thesis using x(2) y(2) X by auto
qed

theorem store_order_independent_witness:
  "ds_lookup (store_run ref_hex (ds_create 50) [(ds_example 1, 0), (ds_example 2, 1)]) ''01'' ''02'' 10 =
   ds_lookup (store_run ref_hex (ds_create 50) [(ds_example 2, 3), (ds_example 1, 4)]) ''01'' ''02'' 10"
proof -
  have ids: "getDhtAddressFromRaw ref_hex (deKey (ds_example t)) = ''01'' \<and> getDhtAddressFromRaw ref_hex (deCreator (ds_example t)) = ''02''" for t
    unfolding ds_example_def by code_simp
  have ttl: "ds_ttl 50 (ds_example t) = 50" for t
    unfolding ds_ttl_def ds_example_def by (simp add: min_def)
  have ms: "toMillis (ds_example t) = t * 1000" for t by (simp add: toMillis_def ds_example_def)
  show ?thesis
    by (rule store_order_independent [where es = "[ds_example 1, ds_example 2]" and es' = "[ds_example 2, ds_example 1]", THEN conjunct1])
      (auto simp: ids ttl ms inj_on_def)
qed

text \<open>
  \<^verbatim>\<open>storeEntry\<close> and \<^verbatim>\<open>markAsDeleted\<close> read the clock once to ask whether an entry is there and again to
  fetch it: an entry that expires between the two readings makes them dereference a null pointer.
\<close>

theorem expiry_between_reads:
  fixes hx e
  defines "key \<equiv> getDhtAddressFromRaw hx (deKey e)" and "cr \<equiv> getDhtAddressFromRaw hx (deCreator e)"
  assumes "ds_inv s" "ds_lookup s key cr t1 \<noteq> None" "ds_lookup s key cr t2 = None"
  shows "snd (storeEntry hx s e t1 t2 t3) = Inl UndefinedBehaviour"
  using storeEntry_eq [OF assms(3), of t1 t2 hx e t3] assms(4,5) unfolding key_def cr_def by (auto split: option.splits)

theorem expiry_between_reads_witness:
  "snd (storeEntry ref_hex (fst (storeEntry ref_hex (ds_create 50) (ds_example 1) 0 0 0)) (ds_example 2) 49 50 50) =
     Inl UndefinedBehaviour"
  by (rule expiry_between_reads [OF storeEntry_inv [OF ds_inv_create]]) code_simp+

end
