(* ===== verification/Fifo_Map.thy ===== *)
theory Fifo_Map
  imports Map_With_Ttl
begin

text \<open>
  The bounded first-in-first-out map with expiring entries (\<^verbatim>\<open>FifoMapWithTTL.cppm\<close>) and the queue it
  keeps its order in (\<^verbatim>\<open>RandomAccessQueue.cppm\<close>).  The process-wide token counter is a field.
\<close>

section \<open>The queue\<close>

type_synonym 'k raqueue = "(nat, 'k) omap"

definition raq_push :: "nat \<Rightarrow> 'k raqueue \<Rightarrow> 'k \<Rightarrow> 'k raqueue" where
  "raq_push token q v = om_put token v q"

definition raq_pop :: "'k raqueue \<Rightarrow> 'k raqueue \<times> 'k option" where
  "raq_pop q = (case q of [] \<Rightarrow> (q, None) | (t, v) # _ \<Rightarrow> (om_erase t q, Some v))"

definition raq_get :: "'k raqueue \<Rightarrow> nat \<Rightarrow> 'k option" where
  "raq_get q token = om_find q token"

definition raq_remove :: "'k raqueue \<Rightarrow> nat \<Rightarrow> 'k raqueue" where
  "raq_remove q token = om_erase token q"

section \<open>The map\<close>

record 'v fifo_item =
  fiValue :: 'v
  fiToken :: nat
  fiExpiresAt :: millis

record ('k, 'v) fifo_map =
  fmItems :: "('k, 'v fifo_item) omap"
  fmQueue :: "'k raqueue"
  fmCounter :: nat
  fmTtl :: millis
  fmMaxSize :: nat

definition fm_create :: "millis \<Rightarrow> nat \<Rightarrow> nat \<Rightarrow> ('k, 'v) fifo_map" where
  "fm_create ttl maxSize counter = \<lparr>fmItems = [], fmQueue = [], fmCounter = counter, fmTtl = ttl, fmMaxSize = maxSize\<rparr>"

text \<open>
  \<^verbatim>\<open>remove\<close> erases the item and then reads its token through the erased iterator.  What that read
  yields is a parameter: \<open>rt\<close> maps the token that was stored to the token that is read.
  The second component lists the keys passed to \<^verbatim>\<open>onItemDropped\<close>.
\<close>

definition fm_remove :: "(nat \<Rightarrow> nat) \<Rightarrow> ('k, 'v) fifo_map \<Rightarrow> 'k \<Rightarrow> ('k, 'v) fifo_map \<times> 'k list" where
  "fm_remove rt m key =
     (case om_find (fmItems m) key of
        None \<Rightarrow> (m, [])
      | Some item \<Rightarrow>
          (m\<lparr>fmItems := om_erase key (fmItems m), fmQueue := raq_remove (fmQueue m) (rt (fiToken item))\<rparr>, [key]))"

definition fm_add :: "('k::linorder, 'v) fifo_map \<Rightarrow> 'k \<Rightarrow> 'v \<Rightarrow> millis \<Rightarrow> ('k, 'v) fifo_map" where
  "fm_add m key v now =
     m\<lparr>fmQueue := raq_push (fmCounter m) (fmQueue m) key,
       fmItems := om_emplace key \<lparr>fiValue = v, fiToken = fmCounter m, fiExpiresAt = now + fmTtl m\<rparr> (fmItems m),
       fmCounter := fmCounter m + 1\<rparr>"

definition fm_set ::
  "(nat \<Rightarrow> nat) \<Rightarrow> ('k::linorder, 'v) fifo_map \<Rightarrow> 'k \<Rightarrow> 'v \<Rightarrow> millis \<Rightarrow> cpp_error + ('k, 'v) fifo_map \<times> 'k list" where
  "fm_set rt m key v now =
     (if fmMaxSize m = 0 then Inr (m, [])
      else if length (fmItems m) > fmMaxSize m then Inl (LogicError ''maximum size exceeded'')
      else (case fm_remove rt m key of
              (m1, d1) \<Rightarrow>
                (if length (fmItems m1) = fmMaxSize m1
                 then (case raq_pop (fmQueue m1) of
                         (q, None) \<Rightarrow> Inl (LogicError ''assertion error: queue empty but still have items'')
                       | (q, Some keyToDel) \<Rightarrow>
                           Inr (fm_add (m1\<lparr>fmQueue := q, fmItems := om_erase keyToDel (fmItems m1)\<rparr>) key v now, d1 @ [keyToDel]))
                 else Inr (fm_add m1 key v now, d1))))"

definition fm_get :: "(nat \<Rightarrow> nat) \<Rightarrow> ('k, 'v) fifo_map \<Rightarrow> 'k \<Rightarrow> millis \<Rightarrow> ('k, 'v) fifo_map \<times> 'v option" where
  "fm_get rt m key now =
     (case om_find (fmItems m) key of
        None \<Rightarrow> (m, None)
      | Some item \<Rightarrow> (if fiExpiresAt item \<le> now then (fst (fm_remove rt m key), None) else (m, Some (fiValue item))))"

text \<open>\<^verbatim>\<open>values\<close> gets every key of a snapshot; the clock is read once per key.\<close>

fun fm_get_all :: "(nat \<Rightarrow> nat) \<Rightarrow> ('k, 'v) fifo_map \<Rightarrow> 'k list \<Rightarrow> ('k \<Rightarrow> millis) \<Rightarrow> ('k, 'v) fifo_map \<times> 'v list" where
  "fm_get_all rt m [] now = (m, [])"
| "fm_get_all rt m (k # ks) now =
     (case fm_get rt m k (now k) of
        (m1, r) \<Rightarrow>
          (case fm_get_all rt m1 ks now of
             (m2, vs) \<Rightarrow> (m2, case r of None \<Rightarrow> vs | Some v \<Rightarrow> v # vs)))"

definition fm_values :: "(nat \<Rightarrow> nat) \<Rightarrow> ('k, 'v) fifo_map \<Rightarrow> ('k \<Rightarrow> millis) \<Rightarrow> ('k, 'v) fifo_map \<times> 'v list" where
  "fm_values rt m now = fm_get_all rt m (om_keys (fmItems m)) now"

section \<open>The invariant\<close>

definition fm_inv :: "('k::linorder, 'v) fifo_map \<Rightarrow> bool" where
  "fm_inv m \<longleftrightarrow>
     om_ok (fmItems m) \<and> om_ok (fmQueue m) \<and> length (fmItems m) \<le> fmMaxSize m \<and>
     (\<forall>k item. om_find (fmItems m) k = Some item \<longrightarrow> om_find (fmQueue m) (fiToken item) = Some k) \<and>
     (\<forall>t k. om_find (fmQueue m) t = Some k \<longrightarrow> t < fmCounter m \<and> (\<exists>item. om_find (fmItems m) k = Some item \<and> fiToken item = t))"

text \<open>The keys in the order of their insertion.\<close>

definition fm_order :: "('k, 'v) fifo_map \<Rightarrow> 'k list" where
  "fm_order m = map snd (fmQueue m)"

lemma fm_inv_create: "fm_inv (fm_create ttl n c)"
  by (simp add: fm_inv_def fm_create_def om_find_def)

lemma fm_inv_item: "fm_inv m \<Longrightarrow> om_find (fmItems m) k = Some item \<Longrightarrow> om_find (fmQueue m) (fiToken item) = Some k"
  by (simp add: fm_inv_def)

lemma fm_inv_queue:
  "fm_inv m \<Longrightarrow> om_find (fmQueue m) t = Some k \<Longrightarrow> t < fmCounter m \<and> (\<exists>item. om_find (fmItems m) k = Some item \<and> fiToken item = t)"
  by (simp add: fm_inv_def)

lemma set_fm_order:
  assumes "fm_inv m"
  shows "k \<in> set (fm_order m) \<longleftrightarrow> om_find (fmItems m) k \<noteq> None"
proof -
  have "k \<in> set (fm_order m) \<longleftrightarrow> (\<exists>t. om_find (fmQueue m) t = Some k)"
    using assms by (force simp: fm_order_def fm_inv_def om_find_set_iff)
  then show ?thesis using fm_inv_item [OF assms] fm_inv_queue [OF assms] by (metis not_Some_eq)
qed

lemma distinct_fm_order:
  assumes inv: "fm_inv m"
  shows "distinct (fm_order m)"
proof -
  have "inj_on snd (set (fmQueue m))"
  proof (rule inj_onI)
    fix x y
    assume x: "x \<in> set (fmQueue m)" and y: "y \<in> set (fmQueue m)" and eq: "snd x = snd y"
    have "om_find (fmQueue m) (fst x) = Some (snd x)" "om_find (fmQueue m) (fst y) = Some (snd y)"
      using inv x y by (auto simp: fm_inv_def om_find_set_iff)
    then have "fst x = fst y" using inv eq unfolding fm_inv_def by (metis option.inject)
    then show "x = y" using eq by (simp add: prod_eq_iff)
  qed
  moreover have "distinct (fmQueue m)" 
    using inv om_ok_distinct [of "fmQueue m"] by (simp add: fm_inv_def distinct_map)
  ultimately show ?thesis by (simp add: fm_order_def distinct_map)
qed

lemma fm_order_length: "fm_inv m \<Longrightarrow> length (fm_order m) = length (fmItems m)"
proof -
  assume inv: "fm_inv m"
  have "set (fm_order m) = set (map fst (fmItems m))"
    using set_fm_order [OF inv] by (auto simp: om_find_None_iff)
  moreover have "distinct (map fst (fmItems m))" using inv by (simp add: fm_inv_def om_ok_distinct)
  ultimately show ?thesis using distinct_fm_order [OF inv] by (metis distinct_card length_map)
qed

lemma om_put_greatest: "(\<And>k. k \<in> fst ` set m \<Longrightarrow> k < t) \<Longrightarrow> om_put t v m = m @ [(t, v)]"
proof (induction m)
  case (Cons x m)
  obtain k w where x: "x = (k, w)" by force
  have "k < t" using Cons.prems x by simp
  then have "\<not> t < k" "t \<noteq> k" by auto
  then show ?case using Cons x by simp
qed simp

lemma map_snd_erase:
  assumes "om_ok q" "om_find q t = Some k" "distinct (map snd q)"
  shows "map snd (om_erase t q) = remove1 k (map snd q)"
  using assms
proof (induction q)
  case (Cons x q)
  obtain u j where x: "x = (u, j)" by force
  have ok: "om_ok q" "\<And>t'. t' \<in> fst ` set q \<Longrightarrow> u < t'" using Cons.prems(1) by (auto simp: x om_ok_Cons)
  show ?case
  proof (cases "u = t")
    case True
    then have "om_erase t q = q" using ok(2) by (intro om_erase_absent) (auto simp: om_find_None_iff)
    then show ?thesis using True Cons.prems(2) by (simp add: x om_erase_def om_find_def)
  next
    case False
    then have "om_find q t = Some k" using Cons.prems(2) by (simp add: x om_find_def)
    moreover from this have "k \<noteq> j" using Cons.prems(3) by (force simp: x dest: om_find_in_set)
    ultimately show ?thesis using Cons.IH ok Cons.prems(3) False by (simp add: x om_erase_def)
  qed
qed (simp add: om_find_def)

lemma fm_remove_step:
  assumes inv: "fm_inv m"
  shows "fm_inv (fst (fm_remove (\<lambda>t. t) m k))"
    and "fm_order (fst (fm_remove (\<lambda>t. t) m k)) = remove1 k (fm_order m)"
    and "fmItems (fst (fm_remove (\<lambda>t. t) m k)) = om_erase k (fmItems m)"
proof -
  have "fm_inv (fst (fm_remove (\<lambda>t. t) m k)) \<and> fm_order (fst (fm_remove (\<lambda>t. t) m k)) = remove1 k (fm_order m) \<and>
      fmItems (fst (fm_remove (\<lambda>t. t) m k)) = om_erase k (fmItems m)"
  proof (cases "om_find (fmItems m) k")
    case None
    then have "k \<notin> set (fm_order m)" using set_fm_order [OF inv] by simp
    then show ?thesis using None inv by (simp add: fm_remove_def om_erase_absent remove1_idem)
  next
    case (Some item)
    let ?m = "m\<lparr>fmItems := om_erase k (fmItems m), fmQueue := om_erase (fiToken item) (fmQueue m)\<rparr>"
    have q: "om_find (fmQueue m) (fiToken item) = Some k" using inv Some by (simp add: fm_inv_def)
    have uniq: "fiToken it \<noteq> fiToken item" if "om_find (fmItems m) j = Some it" "j \<noteq> k" for j it
      using fm_inv_item [OF inv that(1)] that(2) q by auto
    have uniq2: "j \<noteq> k" if "om_find (fmQueue m) t = Some j" "t \<noteq> fiToken item" for t j
      using fm_inv_queue [OF inv that(1)] that(2) Some by auto
    have "length (om_erase k (fmItems m)) \<le> fmMaxSize m"
      using inv by (auto simp: fm_inv_def om_size_erase)
    then have "fm_inv ?m" using inv uniq uniq2 by (auto simp: fm_inv_def)
    moreover have "fm_order ?m = remove1 k (fm_order m)"
      using inv q distinct_fm_order [OF inv] by (simp add: fm_order_def map_snd_erase fm_inv_def)
    ultimately show ?thesis using Some by (simp add: fm_remove_def raq_remove_def)
  qed
  then show "fm_inv (fst (fm_remove (\<lambda>t. t) m k))" "fm_order (fst (fm_remove (\<lambda>t. t) m k)) = remove1 k (fm_order m)"
    "fmItems (fst (fm_remove (\<lambda>t. t) m k)) = om_erase k (fmItems m)" by auto
qed

lemma fm_add_step:
  assumes inv: "fm_inv m" and new: "om_find (fmItems m) k = None" and room: "length (fmItems m) < fmMaxSize m"
  shows "fm_inv (fm_add m k v t)" "fm_order (fm_add m k v t) = fm_order m @ [k]"
proof -
  have top: "j < fmCounter m" if "j \<in> fst ` set (fmQueue m)" for j
    using that inv by (auto simp: fm_inv_def om_find_set_iff)
  have items: "fmItems (fm_add m k v t) = om_put k \<lparr>fiValue = v, fiToken = fmCounter m, fiExpiresAt = t + fmTtl m\<rparr> (fmItems m)"
    using new by (simp add: fm_add_def om_emplace_def om_contains_find)
  have rest: "fmQueue (fm_add m k v t) = om_put (fmCounter m) k (fmQueue m)" "fmCounter (fm_add m k v t) = fmCounter m + 1"
    "fmMaxSize (fm_add m k v t) = fmMaxSize m"
    by (simp_all add: fm_add_def raq_push_def)
  have sz: "length (fmItems (fm_add m k v t)) \<le> fmMaxSize m"
    using inv room unfolding items by (simp add: fm_inv_def om_size_put)
  have tok: "om_find (fmQueue m) (fmCounter m) = None" using top by (force simp: om_find_None_iff)
  have old: "fiToken it \<noteq> fmCounter m" if "om_find (fmItems m) j = Some it" for j it
    using fm_inv_item [OF inv that] tok by auto
  have notk: "om_find (fmQueue m) u \<noteq> Some k" for u using fm_inv_queue [OF inv, of u k] new by auto
  show "fm_inv (fm_add m k v t)"
    unfolding fm_inv_def items rest using inv sz old notk
    by (auto simp: fm_inv_def items less_Suc_eq)
  show "fm_order (fm_add m k v t) = fm_order m @ [k]"
    unfolding fm_order_def rest using om_put_greatest [of "fmQueue m" "fmCounter m" k] top by simp
qed


text \<open>What \<^verbatim>\<open>set\<close> does to the order: an old position is given up, the oldest key makes room.\<close>

definition fifo_spec :: "nat \<Rightarrow> 'k list \<Rightarrow> 'k \<Rightarrow> 'k list" where
  "fifo_spec n ks k =
     (let ks1 = remove1 k ks in (if length ks1 = n then tl ks1 else ks1) @ [k])"

lemma fm_set_step:
  assumes inv: "fm_inv m" and n: "0 < fmMaxSize m"
  shows "\<exists>m' d. fm_set (\<lambda>t. t) m k v t = Inr (m', d) \<and> fm_inv m' \<and> fmMaxSize m' = fmMaxSize m \<and> fmTtl m' = fmTtl m \<and>
    fm_order m' = fifo_spec (fmMaxSize m) (fm_order m) k \<and>
    om_find (fmItems m') k = Some \<lparr>fiValue = v, fiToken = fmCounter m, fiExpiresAt = t + fmTtl m\<rparr> \<and>
    (\<forall>j. j \<noteq> k \<longrightarrow> om_find (fmItems m') j = (if j \<in> set (fm_order m') then om_find (fmItems m) j else None))"
proof -
  let ?m1 = "fst (fm_remove (\<lambda>t. t) m k)"
  note r = fm_remove_step [OF inv, of k]
  have f: "fmMaxSize ?m1 = fmMaxSize m" "fmTtl ?m1 = fmTtl m" "fmCounter ?m1 = fmCounter m"
    by (auto simp: fm_remove_def split: option.splits)
  have new: "om_find (fmItems ?m1) k = None" using r(3) by simp
  have len: "length (fm_order ?m1) = length (fmItems ?m1)" by (rule fm_order_length [OF r(1)])
  have find_add: "om_find (fmItems (fm_add m2 k v t)) j =
      (if j = k then Some \<lparr>fiValue = v, fiToken = fmCounter m2, fiExpiresAt = t + fmTtl m2\<rparr> else om_find (fmItems m2) j)"
    if "om_find (fmItems m2) k = None" for m2 :: "('a, 'b) fifo_map" and j
    using that by (simp add: fm_add_def om_emplace_def om_contains_find)
  have small: "\<not> length (fmItems m) > fmMaxSize m" using inv by (simp add: fm_inv_def)
  have addf: "fmMaxSize (fm_add m2 k v t) = fmMaxSize m2" "fmTtl (fm_add m2 k v t) = fmTtl m2" for m2 :: "('a, 'b) fifo_map"
    by (simp_all add: fm_add_def)
  show ?thesis
  proof (cases "length (fmItems ?m1) = fmMaxSize m")
    case False
    then have room: "length (fmItems ?m1) < fmMaxSize ?m1" using r(1) f by (simp add: fm_inv_def)
    let ?m2 = "fm_add ?m1 k v t"
    note a = fm_add_step [OF r(1) new room, of v t]
    have "fm_set (\<lambda>t. t) m k v t = Inr (?m2, snd (fm_remove (\<lambda>t. t) m k))"
      using False n small f(1) by (cases "fm_remove (\<lambda>t. t) m k") (simp add: fm_set_def)
    moreover have "fm_order ?m2 = fifo_spec (fmMaxSize m) (fm_order m) k"
      using a(2) r(2) False len by (simp add: fifo_spec_def Let_def)
    moreover have "om_find (fmItems ?m2) j = (if j \<in> set (fm_order ?m2) then om_find (fmItems m) j else None)" if "j \<noteq> k" for j
      using that find_add [OF new, of j] r(3) set_fm_order [OF a(1), of j] by auto
    ultimately show ?thesis using a(1) f addf find_add [OF new, of k] by auto
  next
    case True
    then have "fm_order ?m1 \<noteq> []" using n len by auto
    then obtain t0 k0 rest where q: "fmQueue ?m1 = (t0, k0) # rest" by (cases "fmQueue ?m1") (auto simp: fm_order_def)
    have find0: "om_find (fmQueue ?m1) t0 = Some k0" by (simp add: q om_find_def)
    obtain item where item: "om_find (fmItems ?m1) k0 = Some item" "fiToken item = t0"
      using fm_inv_queue [OF r(1) find0] by blast
    let ?m2 = "fst (fm_remove (\<lambda>t. t) ?m1 k0)"
    note r2 = fm_remove_step [OF r(1), of k0]
    have m2: "?m1\<lparr>fmQueue := om_erase t0 (fmQueue ?m1), fmItems := om_erase k0 (fmItems ?m1)\<rparr> = ?m2"
      using item by (simp add: fm_remove_def raq_remove_def)
    have f2: "fmMaxSize ?m2 = fmMaxSize m" "fmTtl ?m2 = fmTtl m" "fmCounter ?m2 = fmCounter m"
      unfolding m2 [symmetric] using f by auto
    have k0: "k0 \<noteq> k" using item(1) new by auto
    have new2: "om_find (fmItems ?m2) k = None" using r2(3) new by simp
    have "length (fmItems ?m2) < fmMaxSize ?m2"
      using r2(3) True f2 r(1) item(1) n by (simp add: om_size_erase fm_inv_def om_contains_find)
    note a = fm_add_step [OF r2(1) new2 this, of v t]
    have "fm_set (\<lambda>t. t) m k v t = Inr (fm_add ?m2 k v t, snd (fm_remove (\<lambda>t. t) m k) @ [k0])"
      using True n small f(1) q unfolding m2 [symmetric] by (cases "fm_remove (\<lambda>t. t) m k") (simp add: fm_set_def raq_pop_def)
    moreover have "fm_order (fm_add ?m2 k v t) = fifo_spec (fmMaxSize m) (fm_order m) k"
    proof -
      have "fm_order ?m1 = k0 # map snd rest" by (simp add: fm_order_def q)
      then show ?thesis using a(2) r2(2) r(2) True len by (simp add: fifo_spec_def Let_def)
    qed
    moreover have "om_find (fmItems (fm_add ?m2 k v t)) j =
        (if j \<in> set (fm_order (fm_add ?m2 k v t)) then om_find (fmItems m) j else None)" if "j \<noteq> k" for j
      using that find_add [OF new2, of j] r2(3) r(3) set_fm_order [OF a(1), of j] by auto
    ultimately show ?thesis using a(1) f2 addf find_add [OF new2, of k] by auto
  qed
qed

section \<open>Reading all values\<close>

lemma fm_remove_frame: "fmTtl (fst (fm_remove rt m k)) = fmTtl m" "fmMaxSize (fst (fm_remove rt m k)) = fmMaxSize m"
  by (simp_all add: fm_remove_def split: option.splits)

lemma fm_get_frame: "fst (fm_get (\<lambda>t. t) m k t) = m \<or> fst (fm_get (\<lambda>t. t) m k t) = fst (fm_remove (\<lambda>t. t) m k)"
  by (simp add: fm_get_def split: option.splits)

definition fm_live :: "('k, 'v) fifo_map \<Rightarrow> ('k \<Rightarrow> millis) \<Rightarrow> 'k \<Rightarrow> 'v fifo_item option" where
  "fm_live m now k =
     (case om_find (fmItems m) k of None \<Rightarrow> None | Some it \<Rightarrow> if fiExpiresAt it \<le> now k then None else Some it)"

lemma fm_get_step:
  assumes "fm_inv m"
  shows "fm_inv (fst (fm_get (\<lambda>t. t) m k (now k)))"
    and "om_find (fmItems (fst (fm_get (\<lambda>t. t) m k (now k)))) j = (if j = k then fm_live m now k else om_find (fmItems m) j)"
    and "snd (fm_get (\<lambda>t. t) m k (now k)) = map_option fiValue (fm_live m now k)"
    and "fm_live m now k \<noteq> None \<Longrightarrow> fst (fm_get (\<lambda>t. t) m k (now k)) = m"
  using fm_remove_step(1,3) [OF assms, of k] assms
  by (auto simp: fm_get_def fm_live_def split: option.splits)

lemma fm_get_all_step:
  assumes "fm_inv m" "distinct ks"
  shows "fm_inv (fst (fm_get_all (\<lambda>t. t) m ks now)) \<and>
    (\<forall>k. om_find (fmItems (fst (fm_get_all (\<lambda>t. t) m ks now))) k = (if k \<in> set ks then fm_live m now k else om_find (fmItems m) k)) \<and>
    set (snd (fm_get_all (\<lambda>t. t) m ks now)) = {fiValue it | k it. k \<in> set ks \<and> fm_live m now k = Some it} \<and>
    ((\<forall>k \<in> set ks. fm_live m now k \<noteq> None) \<longrightarrow> fst (fm_get_all (\<lambda>t. t) m ks now) = m)"
  using assms
proof (induction ks arbitrary: m)
  case (Cons k ks)
  let ?m = "fst (fm_get (\<lambda>t. t) m k (now k))"
  note g = fm_get_step [OF Cons.prems(1), where k = k and now = now]
  have live: "fm_live ?m now j = fm_live m now j" if "j \<noteq> k" for j
    using that g(2) by (simp add: fm_live_def)
  have live': "fm_live ?m now j = fm_live m now j" if "j \<in> set ks" for j
    using live [of j] that Cons.prems(2) by (metis distinct.simps(2))
  note ih = Cons.IH [OF g(1)]
  have run: "fst (fm_get_all (\<lambda>t. t) m (k # ks) now) = fst (fm_get_all (\<lambda>t. t) ?m ks now)"
    "snd (fm_get_all (\<lambda>t. t) m (k # ks) now) =
       (case map_option fiValue (fm_live m now k) of None \<Rightarrow> [] | Some v \<Rightarrow> [v]) @ snd (fm_get_all (\<lambda>t. t) ?m ks now)"
    using g(3) by (auto simp: split: prod.splits option.splits)
  have dk: "distinct ks" using Cons.prems(2) by simp
  note ih = ih [OF dk]
  have "{fiValue it | j it. j \<in> set ks \<and> fm_live ?m now j = Some it} = {fiValue it | j it. j \<in> set ks \<and> fm_live m now j = Some it}"
    using live' by metis
  then have vals: "set (snd (fm_get_all (\<lambda>t. t) ?m ks now)) = {fiValue it | j it. j \<in> set ks \<and> fm_live m now j = Some it}"
    using ih by simp
  have items: "om_find (fmItems (fst (fm_get_all (\<lambda>t. t) ?m ks now))) j =
      (if j \<in> set (k # ks) then fm_live m now j else om_find (fmItems m) j)" for j
    using ih g(2) [of j] live' [of j] Cons.prems(2) by (cases "j = k") simp_all
  have same: "fst (fm_get_all (\<lambda>t. t) ?m ks now) = m" if "\<forall>j \<in> set (k # ks). fm_live m now j \<noteq> None"
    using that ih g(4) live' by simp
  have inv: "fm_inv (fst (fm_get_all (\<lambda>t. t) ?m ks now))" using ih by blast
  have "set (snd (fm_get_all (\<lambda>t. t) m (k # ks) now)) = {fiValue it | j it. j \<in> set (k # ks) \<and> fm_live m now j = Some it}"
    unfolding run(2) set_append vals by (cases "fm_live m now k") auto
  then show ?case unfolding run(1) using inv items same by blast
qed simp

lemma fm_values_step:
  assumes inv: "fm_inv m"
  shows "fm_inv (fst (fm_values (\<lambda>t. t) m now))"
    and "om_find (fmItems (fst (fm_values (\<lambda>t. t) m now))) k = fm_live m now k"
    and "set (snd (fm_values (\<lambda>t. t) m now)) = {fiValue it | k it. fm_live m now k = Some it}"
    and "(\<And>k it. om_find (fmItems m) k = Some it \<Longrightarrow> now k < fiExpiresAt it) \<Longrightarrow> fst (fm_values (\<lambda>t. t) m now) = m"
proof -
  have d: "distinct (om_keys (fmItems m))" using inv by (simp add: fm_inv_def om_ok_distinct om_keys_def)
  have dom: "fm_live m now k = None \<and> om_find (fmItems m) k = None" if "k \<notin> set (om_keys (fmItems m))" for k
    using that by (auto simp: fm_live_def set_om_keys split: option.splits)
  note g = fm_get_all_step [OF inv d, of now]
  show "fm_inv (fst (fm_values (\<lambda>t. t) m now))" using g by (simp add: fm_values_def)
  show "om_find (fmItems (fst (fm_values (\<lambda>t. t) m now))) k = fm_live m now k"
    using g dom by (simp add: fm_values_def)
  show "set (snd (fm_values (\<lambda>t. t) m now)) = {fiValue it | k it. fm_live m now k = Some it}"
    using g dom by (simp add: fm_values_def) (metis option.distinct(1))
  assume live: "\<And>k it. om_find (fmItems m) k = Some it \<Longrightarrow> now k < fiExpiresAt it"
  have "fm_live m now k \<noteq> None" if "k \<in> set (om_keys (fmItems m))" for k
    using that live [of k] by (auto simp: fm_live_def set_om_keys dom_def split: option.splits)
  then show "fst (fm_values (\<lambda>t. t) m now) = m" using g by (simp add: fm_values_def)
qed

section \<open>An expiring cache\<close>

definition fm_lookup :: "('k, 'v) fifo_map \<Rightarrow> 'k \<Rightarrow> millis \<Rightarrow> 'v option" where
  "fm_lookup m k now = snd (fm_get (\<lambda>t. t) m k now)"

definition fm_store :: "('k::linorder, 'v) fifo_map \<Rightarrow> 'k \<Rightarrow> 'v \<Rightarrow> millis \<Rightarrow> ('k, 'v) fifo_map" where
  "fm_store m k v now = (case fm_set (\<lambda>t. t) m k v now of Inr (m', _) \<Rightarrow> m' | Inl _ \<Rightarrow> m)"

lemma fm_lookup_eq:
  "fm_lookup m k now = (case om_find (fmItems m) k of None \<Rightarrow> None | Some it \<Rightarrow> if now < fiExpiresAt it then Some (fiValue it) else None)"
  by (simp add: fm_lookup_def fm_get_def split: option.splits)

lemma fm_store_empty: "fmMaxSize m = 0 \<Longrightarrow> fm_store m k v t = m"
  by (simp add: fm_store_def fm_set_def)

interpretation fifo: expiring_cache fm_store "\<lambda>m k. fst (fm_remove (\<lambda>t. t) m k)" "\<lambda>m k t. fst (fm_get (\<lambda>t. t) m k t)"
  fm_lookup "\<lambda>_. ttl" "\<lambda>m. fm_inv m \<and> fmTtl m = ttl" for ttl
proof unfold_locales
  fix m :: "('a::linorder, 'b) fifo_map" and k j v t u w
  assume inv: "fm_inv m \<and> fmTtl m = ttl"
  have set: "fm_inv (fm_store m k v t) \<and> fmTtl (fm_store m k v t) = ttl \<and>
      (0 < fmMaxSize m \<longrightarrow> om_find (fmItems (fm_store m k v t)) k = Some \<lparr>fiValue = v, fiToken = fmCounter m, fiExpiresAt = t + ttl\<rparr> \<and>
        (\<forall>j. j \<noteq> k \<longrightarrow> om_find (fmItems (fm_store m k v t)) j \<in> {None, om_find (fmItems m) j}))"
  proof (cases "fmMaxSize m = 0")
    case True
    then show ?thesis using inv by (simp add: fm_store_empty)
  next
    case False
    then show ?thesis using fm_set_step [of m k v t] inv by (auto simp: fm_store_def)
  qed
  show "fm_inv (fm_store m k v t) \<and> fmTtl (fm_store m k v t) = ttl" using set by blast
  show "fm_inv (fst (fm_remove (\<lambda>t. t) m k)) \<and> fmTtl (fst (fm_remove (\<lambda>t. t) m k)) = ttl"
    using inv fm_remove_step(1) by (auto simp: fm_remove_frame)
  show "fm_inv (fst (fm_get (\<lambda>t. t) m k t)) \<and> fmTtl (fst (fm_get (\<lambda>t. t) m k t)) = ttl"
    using inv fm_get_frame [of m k t] fm_remove_step(1) by (auto simp: fm_remove_frame)
  have empty: "om_find (fmItems m) j = None" if "fmMaxSize m = 0" for j
    using that inv by (simp add: fm_inv_def om_find_def)
  show "w = v \<and> u < t + ttl" if "fm_lookup (fm_store m k v t) k u = Some w"
    using that set empty by (cases "fmMaxSize m = 0") (auto simp: fm_lookup_eq fm_store_empty split: if_splits)
  show "fm_lookup m j u = Some w" if "j \<noteq> k" "fm_lookup (fm_store m k v t) j u = Some w"
    using that set empty by (cases "fmMaxSize m = 0") (auto simp: fm_lookup_eq fm_store_empty split: option.splits if_splits)
  show "fm_lookup (fst (fm_remove (\<lambda>t. t) m k)) j u = (if j = k then None else fm_lookup m j u)"
    using fm_remove_step(3) [of m k] inv by (simp add: fm_lookup_eq)
  show "fm_lookup m j u = Some w" if "fm_lookup (fst (fm_get (\<lambda>t. t) m k t)) j u = Some w"
    using that fm_get_frame [of m k t] fm_remove_step(3) [of m k] inv by (auto simp: fm_lookup_eq split: if_splits)
qed

section \<open>Properties\<close>

text \<open>
  \<^verbatim>\<open>set\<close> on a well-formed map never throws; it keeps the map and its queue in step and the size within the
  bound, moves the key to the end of the insertion order, drops exactly the oldest key when the map is full,
  and leaves every other entry alone (reading the erased item's token as it was stored).
\<close>

theorem fifo_set_correct:
  assumes "fm_inv m" "0 < fmMaxSize m"
  shows "\<exists>m' dropped. fm_set (\<lambda>t. t) m k v t = Inr (m', dropped) \<and> fm_inv m' \<and> fm_order m' = fifo_spec (fmMaxSize m) (fm_order m) k \<and>
    om_find (fmItems m') k = Some \<lparr>fiValue = v, fiToken = fmCounter m, fiExpiresAt = t + fmTtl m\<rparr> \<and>
    (\<forall>j. j \<noteq> k \<longrightarrow> om_find (fmItems m') j = (if j \<in> set (fm_order m') then om_find (fmItems m) j else None))"
  using fm_set_step [OF assms, of k v t] by blast

theorem fifo_set_correct_witness:
  "\<exists>m' dropped. fm_set (\<lambda>t. t) (fm_create 10 2 1 :: (int, int) fifo_map) 5 6 0 = Inr (m', dropped) \<and> fm_order m' = [5]"
proof -
  have "0 < fmMaxSize (fm_create 10 2 1 :: (int, int) fifo_map)" by (simp add: fm_create_def)
  from fifo_set_correct [OF fm_inv_create this, of 5 6 0] show ?thesis
    by (auto simp: fifo_spec_def fm_order_def fm_create_def)
qed

end
