(* ===== verification/Duplicate_Message_Detector.thy ===== *)
theory Duplicate_Message_Detector
  imports Identifiers
begin

text \<open>
  The per-publisher duplicate detector of a stream part (\<^verbatim>\<open>DuplicateMessageDetector.cppm\<close>)
  and \<^verbatim>\<open>Utils::markAndCheckDuplicate\<close>.  Message numbers are pairs of a time stamp and a sequence
  number; the code only compares them, so they are pairs of integers.
\<close>

section \<open>Number pairs\<close>

datatype NumberPair = NumberPair (np_a: int) (np_b: int)

definition compareTo :: "NumberPair \<Rightarrow> NumberPair \<Rightarrow> int" where
  "compareTo p q =
     (if np_a p > np_a q then 1
      else if np_a p < np_a q then -1
      else if np_b p > np_b q then 1
      else if np_b p < np_b q then -1
      else 0)"

definition greaterThan :: "NumberPair \<Rightarrow> NumberPair \<Rightarrow> bool" where
  "greaterThan p q \<longleftrightarrow> compareTo p q = 1"

definition equalTo :: "NumberPair \<Rightarrow> NumberPair \<Rightarrow> bool" where
  "equalTo p q \<longleftrightarrow> compareTo p q = 0"

definition greaterThanOrEqual :: "NumberPair \<Rightarrow> NumberPair \<Rightarrow> bool" where
  "greaterThanOrEqual p q \<longleftrightarrow> greaterThan p q \<or> equalTo p q"

definition np_toString :: "NumberPair \<Rightarrow> string" where
  "np_toString p = to_string (np_a p) @ ''|'' @ to_string (np_b p)"

instantiation NumberPair :: linorder
begin

definition less_NumberPair :: "NumberPair \<Rightarrow> NumberPair \<Rightarrow> bool" where
  "less_NumberPair p q \<longleftrightarrow> np_a p < np_a q \<or> np_a p = np_a q \<and> np_b p < np_b q"

definition less_eq_NumberPair :: "NumberPair \<Rightarrow> NumberPair \<Rightarrow> bool" where
  "less_eq_NumberPair p q \<longleftrightarrow> np_a p < np_a q \<or> np_a p = np_a q \<and> np_b p \<le> np_b q"

instance
  by standard (auto simp: less_NumberPair_def less_eq_NumberPair_def intro: NumberPair.expand)

end

named_theorems np_order \<open>the comparisons of the code as the order on pairs\<close>

lemma greaterThan_iff [np_order]: "greaterThan p q \<longleftrightarrow> q < p"
  by (auto simp: greaterThan_def compareTo_def less_NumberPair_def)

lemma equalTo_iff [np_order]: "equalTo p q \<longleftrightarrow> p = q"
  by (auto simp: equalTo_def compareTo_def intro: NumberPair.expand)

lemma greaterThanOrEqual_iff [np_order]: "greaterThanOrEqual p q \<longleftrightarrow> q \<le> p"
  by (auto simp: greaterThanOrEqual_def np_order)

section \<open>The detector\<close>

type_synonym gap = "NumberPair \<times> NumberPair"

datatype dmd_error =
    InvalidNumberingError
  | GapMisMatchError string

record dmd =
  maxGapCount :: nat
  gaps :: "gap list"

definition dmd_create :: "nat \<Rightarrow> dmd" where
  "dmd_create n = \<lparr>maxGapCount = n, gaps = []\<rparr>"

definition dmd_infinity :: NumberPair where
  "dmd_infinity = NumberPair (2 ^ 31 - 1) (2 ^ 31 - 1)"

definition gap_toString :: "gap \<Rightarrow> string" where
  "gap_toString g = ''('' @ np_toString (fst g) @ '', '' @ np_toString (snd g) @ '']''"

definition dmd_toString :: "dmd \<Rightarrow> string" where
  "dmd_toString d = concat (map gap_toString (gaps d))"

definition GapMisMatch :: "dmd \<Rightarrow> NumberPair option \<Rightarrow> NumberPair \<Rightarrow> dmd_error" where
  "GapMisMatch d previousNumber number = GapMisMatchError
     (''pre-condition: gap overlap in given numbers: '' @ [CHR 0x0A] @ '' previousNumber = '' @
      (case previousNumber of Some p \<Rightarrow> np_toString p | None \<Rightarrow> ''None'') @
      '' number = '' @ np_toString number @ '' state = '' @ dmd_toString d)"

definition dropLowestGapIfOverMaxGapCount :: "dmd \<Rightarrow> dmd" where
  "dropLowestGapIfOverMaxGapCount d =
     (if length (gaps d) > maxGapCount d then d\<lparr>gaps := tl (gaps d)\<rparr> else d)"

text \<open>
  In the loop \<^verbatim>\<open>lowerBound\<close> and \<^verbatim>\<open>upperBound\<close> are references into the vector.  The branch that splits a
  gap reads \<^verbatim>\<open>lowerBound\<close> after the erasure of its element and \<^verbatim>\<open>upperBound\<close> after the erasure and
  the first insertion, which invalidate them.  What these two reads yield is not determined by
  the source, so it is a parameter of the model: a function of the gaps before the branch, the
  index and the previous number.
\<close>

record stale_reads =
  lowerAfterErase :: "gap list \<Rightarrow> nat \<Rightarrow> NumberPair"
  upperAfterInsert :: "gap list \<Rightarrow> nat \<Rightarrow> NumberPair \<Rightarrow> NumberPair"

text \<open>
  Two instances: the references keep the values they were bound to (what the branch is written
  for), and the references denote the slot of the contiguous array they were bound to, which
  is what an in-place \<^verbatim>\<open>erase\<close> and \<^verbatim>\<open>insert\<close> without reallocation give.
\<close>

definition reads_bound :: stale_reads where
  "reads_bound = \<lparr>lowerAfterErase = \<lambda>gs i. fst (gs ! i), upperAfterInsert = \<lambda>gs i prev. snd (gs ! i)\<rparr>"

definition reads_slot :: stale_reads where
  "reads_slot =
     \<lparr>lowerAfterErase = \<lambda>gs i. if Suc i < length gs then fst (gs ! Suc i) else fst (gs ! i),
      upperAfterInsert = \<lambda>gs i prev. prev\<rparr>"

definition gap_split :: "stale_reads \<Rightarrow> gap list \<Rightarrow> nat \<Rightarrow> NumberPair \<Rightarrow> NumberPair \<Rightarrow> gap list" where
  "gap_split sr gs i prev number =
     take i gs @ [(lowerAfterErase sr gs i, prev), (number, upperAfterInsert sr gs i prev)] @ drop (Suc i) gs"

text \<open>The body of the loop that matches a gap, and the loop from the last gap to the first.\<close>

definition gap_fill :: "stale_reads \<Rightarrow> gap list \<Rightarrow> nat \<Rightarrow> NumberPair \<Rightarrow> NumberPair \<Rightarrow> gap list" where
  "gap_fill sr gs i prev number =
     (let lowerBound = fst (gs ! i); upperBound = snd (gs ! i)
      in if equalTo prev lowerBound
         then (if equalTo number upperBound then take i gs @ drop (Suc i) gs
               else gs[i := (number, upperBound)])
         else if equalTo number upperBound then gs[i := (lowerBound, prev)]
         else gap_split sr gs i prev number)"

fun markAndCheck_loop ::
  "stale_reads \<Rightarrow> dmd \<Rightarrow> NumberPair \<Rightarrow> NumberPair \<Rightarrow> nat \<Rightarrow> dmd \<times> (dmd_error + bool)" where
  "markAndCheck_loop sr d prev number 0 = (d, Inr False)"
| "markAndCheck_loop sr d prev number (Suc i) =
     (let lowerBound = fst (gaps d ! i); upperBound = snd (gaps d ! i)
      in if greaterThanOrEqual prev upperBound then (d, Inr False)
         else if greaterThanOrEqual prev lowerBound
         then (if greaterThan number upperBound then (d, Inl (GapMisMatch d (Some prev) number))
               else (dropLowestGapIfOverMaxGapCount (d\<lparr>gaps := gap_fill sr (gaps d) i prev number\<rparr>), Inr True))
         else if greaterThan number lowerBound then (d, Inl (GapMisMatch d (Some prev) number))
         else markAndCheck_loop sr d prev number i)"

definition markAndCheck ::
  "stale_reads \<Rightarrow> dmd \<Rightarrow> NumberPair option \<Rightarrow> NumberPair \<Rightarrow> dmd \<times> (dmd_error + bool)" where
  "markAndCheck sr d previousNumber number =
     (if (case previousNumber of Some p \<Rightarrow> greaterThanOrEqual p number | None \<Rightarrow> False)
      then (d, Inl InvalidNumberingError)
      else if gaps d = [] then (d\<lparr>gaps := [(number, dmd_infinity)]\<rparr>, Inr True)
      else (case previousNumber of
              None \<Rightarrow>
                (if greaterThan number (fst (last (gaps d)))
                 then (d\<lparr>gaps := (gaps d)[length (gaps d) - 1 := (number, snd (last (gaps d)))]\<rparr>, Inr True)
                 else (d, Inr False))
            | Some prev \<Rightarrow> markAndCheck_loop sr d prev number (length (gaps d))))"

section \<open>Detectors of all publishers\<close>

text \<open>The fields of \<^verbatim>\<open>MessageID\<close> and \<^verbatim>\<open>MessageRef\<close> that the detectors read.\<close>

record MessageID =
  mid_timestamp :: int
  mid_sequenceNumber :: int
  mid_publisherId :: bytes
  mid_messageChainId :: string

datatype MessageRef = MessageRef (mref_timestamp: int) (mref_sequenceNumber: int)

definition detectorKey :: "hex_codec \<Rightarrow> MessageID \<Rightarrow> string" where
  "detectorKey hx m = getDhtAddressFromRaw hx (mid_publisherId m) @ ''-'' @ mid_messageChainId m"

definition markAndCheckDuplicate ::
  "hex_codec \<Rightarrow> stale_reads \<Rightarrow> (string, dmd) omap \<Rightarrow> MessageID \<Rightarrow> MessageRef option \<Rightarrow>
     (string, dmd) omap \<times> (dmd_error + bool)" where
  "markAndCheckDuplicate hx sr detectors currentMessage previousMessageRef =
     (let key = detectorKey hx currentMessage;
          previousNumberPair = map_option (\<lambda>r. NumberPair (mref_timestamp r) (mref_sequenceNumber r)) previousMessageRef;
          currentNumberPair = NumberPair (mid_timestamp currentMessage) (mid_sequenceNumber currentMessage);
          d = (case om_find detectors key of Some d \<Rightarrow> d | None \<Rightarrow> dmd_create 10000)
      in case markAndCheck sr d previousNumberPair currentNumberPair of
           (d', result) \<Rightarrow> (om_put key d' detectors, result))"

section \<open>Specification: the set of unseen numbers\<close>

definition gap_set :: "gap \<Rightarrow> NumberPair set" where
  "gap_set g = {fst g<..snd g}"

definition unseen :: "dmd \<Rightarrow> NumberPair set" where
  "unseen d = (\<Union>g \<in> set (gaps d). gap_set g)"

text \<open>
  The invariants the source states in a comment: the gaps are not empty, ascending and
  disjoint, the last one extends to infinity, and there are at most \<open>maxGapCount\<close> of them.
\<close>

definition gaps_ok :: "gap list \<Rightarrow> bool" where
  "gaps_ok gs \<longleftrightarrow> sorted_wrt (\<lambda>g h. snd g < fst h) gs \<and> (\<forall>g \<in> set gs. fst g < snd g)"

definition dmd_inv :: "dmd \<Rightarrow> bool" where
  "dmd_inv d \<longleftrightarrow> gaps_ok (gaps d) \<and> (gaps d \<noteq> [] \<longrightarrow> snd (last (gaps d)) = dmd_infinity) \<and>
     0 < maxGapCount d \<and> length (gaps d) \<le> maxGapCount d"

text \<open>What is left of one gap when the numbers in \<open>(prev, number]\<close> become seen.\<close>

definition gap_rest :: "gap \<Rightarrow> NumberPair \<Rightarrow> NumberPair \<Rightarrow> gap list" where
  "gap_rest g prev number =
     (if prev = fst g then [] else [(fst g, prev)]) @ (if number = snd g then [] else [(number, snd g)])"

lemma gap_fill_bound:
  "i < length gs \<Longrightarrow>
   gap_fill reads_bound gs i prev number = take i gs @ gap_rest (gs ! i) prev number @ drop (Suc i) gs"
  by (auto simp: gap_fill_def gap_split_def reads_bound_def gap_rest_def upd_conv_take_nth_drop Let_def np_order)

lemma gaps_ok_append:
  "gaps_ok (xs @ ys) \<longleftrightarrow> gaps_ok xs \<and> gaps_ok ys \<and> (\<forall>g \<in> set xs. \<forall>h \<in> set ys. snd g < fst h)"
  by (auto simp: gaps_ok_def sorted_wrt_append)

lemma gap_rest_ok:
  assumes "fst g \<le> prev" "prev < number" "number \<le> snd g"
  shows "gaps_ok (gap_rest g prev number)"
    and "h \<in> set (gap_rest g prev number) \<Longrightarrow> fst g \<le> fst h \<and> snd h \<le> snd g"
    and "(\<Union>h \<in> set (gap_rest g prev number). gap_set h) = gap_set g - {prev<..number}"
proof -
  show "gaps_ok (gap_rest g prev number)"
    using assms by (auto simp: gap_rest_def gaps_ok_def order_less_le)
  show "fst g \<le> fst h \<and> snd h \<le> snd g" if "h \<in> set (gap_rest g prev number)"
    using assms that by (auto simp: gap_rest_def split: if_splits)
  show "(\<Union>h \<in> set (gap_rest g prev number). gap_set h) = gap_set g - {prev<..number}"
    using assms by (auto simp: gap_rest_def gap_set_def)
qed

lemma gap_rest_length: "length (gap_rest g prev number) \<le> 2"
  by (simp add: gap_rest_def)

lemma gap_rest_last: "number < snd g \<Longrightarrow> gap_rest g prev number \<noteq> [] \<and> last (gap_rest g prev number) = (number, snd g)"
  by (auto simp: gap_rest_def)

lemma gap_disjoint:
  "gaps_ok (pre @ g # post) \<Longrightarrow> h \<in> set pre \<or> h \<in> set post \<Longrightarrow> gap_set h \<inter> gap_set g = {}"
  by (fastforce simp: gaps_ok_def sorted_wrt_append gap_set_def)

lemma fill_ok:
  assumes ok: "gaps_ok gs" and i: "i < length gs"
    and b: "fst (gs ! i) \<le> prev" "prev < number" "number \<le> snd (gs ! i)"
  shows "gaps_ok (gap_fill reads_bound gs i prev number)"
    and "(\<Union>g \<in> set (gap_fill reads_bound gs i prev number). gap_set g) = (\<Union>g \<in> set gs. gap_set g) - {prev<..number}"
    and "length (gap_fill reads_bound gs i prev number) \<le> Suc (length gs)"
proof -
  let ?pre = "take i gs" and ?post = "drop (Suc i) gs" and ?g = "gs ! i"
  let ?r = "gap_rest ?g prev number"
  have gs: "gs = ?pre @ ?g # ?post" using i by (rule id_take_nth_drop)
  have gs_ok: "gaps_ok (?pre @ ?g # ?post)" using ok gs by simp
  have fill: "gap_fill reads_bound gs i prev number = ?pre @ ?r @ ?post" using i by (rule gap_fill_bound)
  note rest = gap_rest_ok [OF b]
  have "\<forall>g\<in>set ?pre. snd g < fst ?g" "\<forall>h\<in>set ?post. snd ?g < fst h"
    using gs_ok by (auto simp: gaps_ok_def sorted_wrt_append)
  then have "\<forall>g\<in>set ?pre. \<forall>h\<in>set ?r. snd g < fst h" "\<forall>g\<in>set ?r. \<forall>h\<in>set ?post. snd g < fst h"
    using rest(2) by (meson order_less_le_trans order_le_less_trans)+
  moreover have "gaps_ok ?pre" "gaps_ok ?post" "\<forall>g\<in>set ?pre. \<forall>h\<in>set ?post. snd g < fst h"
    using gs_ok by (auto simp: gaps_ok_def sorted_wrt_append)
  ultimately show "gaps_ok (gap_fill reads_bound gs i prev number)"
    unfolding fill using rest(1) by (auto simp: gaps_ok_append)
  have sub: "{prev<..number} \<subseteq> gap_set ?g" using b by (auto simp: gap_set_def)
  have out: "gap_set h - {prev<..number} = gap_set h" if "h \<in> set ?pre \<or> h \<in> set ?post" for h
    using gap_disjoint [OF gs_ok that] sub by auto
  have all: "(\<Union>g \<in> set gs. gap_set g) =
      (\<Union>g \<in> set ?pre. gap_set g) \<union> gap_set ?g \<union> (\<Union>g \<in> set ?post. gap_set g)"
    by (subst (1) gs) (simp only: set_append list.set UN_Un UN_insert Un_assoc)
  have eqs: "(\<Union>g \<in> set ?pre. gap_set g) - {prev<..number} = (\<Union>g \<in> set ?pre. gap_set g)"
    "(\<Union>g \<in> set ?post. gap_set g) - {prev<..number} = (\<Union>g \<in> set ?post. gap_set g)"
    using out by blast+
  show "(\<Union>g \<in> set (gap_fill reads_bound gs i prev number). gap_set g) = (\<Union>g \<in> set gs. gap_set g) - {prev<..number}"
    unfolding fill set_append UN_Un rest(3) all Un_Diff eqs Un_assoc ..
  show "length (gap_fill reads_bound gs i prev number) \<le> Suc (length gs)"
    unfolding fill using gap_rest_length [of ?g prev number] i by simp
qed

lemma unseen_iff: "x \<in> unseen d \<longleftrightarrow> (\<exists>j < length (gaps d). fst (gaps d ! j) < x \<and> x \<le> snd (gaps d ! j))"
  by (force simp: unseen_def gap_set_def in_set_conv_nth)

lemma gaps_ok_nth:
  assumes "gaps_ok gs"
  shows "j < k \<Longrightarrow> k < length gs \<Longrightarrow> snd (gs ! j) < fst (gs ! k)"
    and "j < length gs \<Longrightarrow> fst (gs ! j) < snd (gs ! j)"
  using assms by (auto simp: gaps_ok_def sorted_wrt_iff_nth_less)

lemma between_gaps:
  assumes ok: "gaps_ok (gaps d)" and i: "i \<le> length (gaps d)"
    and lo: "\<And>j. j < i \<Longrightarrow> snd (gaps d ! j) \<le> x" and hi: "\<And>j. i \<le> j \<Longrightarrow> j < length (gaps d) \<Longrightarrow> y \<le> fst (gaps d ! j)"
  shows "{x<..y} \<inter> unseen d = {}"
proof -
  have "\<not> (fst (gaps d ! j) < z \<and> z \<le> snd (gaps d ! j))" if "x < z" "z \<le> y" "j < length (gaps d)" for z j
    using that lo [of j] hi [of j] by (cases "j < i") (auto dest: order_less_le_trans order_le_less_trans)
  then show ?thesis by (auto simp: unseen_iff)
qed

text \<open>The result the specification asks for, from the set of unseen numbers alone.\<close>

definition spec_result :: "NumberPair set \<Rightarrow> NumberPair \<Rightarrow> NumberPair \<Rightarrow> dmd_error \<Rightarrow> dmd_error + bool" where
  "spec_result U prev number err =
     (if {prev<..number} \<subseteq> U then Inr True
      else if {prev<..number} \<inter> U = {} then Inr False
      else Inl err)"

lemma spec_dup: "{prev<..number} \<inter> U = {} \<Longrightarrow> prev < number \<Longrightarrow> spec_result U prev number e = Inr False \<and> \<not> {prev<..number} \<subseteq> U"
  unfolding spec_result_def by (metis greaterThanAtMost_iff inf.absorb1 order_refl empty_iff)

lemma spec_err:
  "x \<in> {prev<..number} \<inter> U \<Longrightarrow> y \<in> {prev<..number} - U \<Longrightarrow>
     spec_result U prev number e = Inl e \<and> \<not> {prev<..number} \<subseteq> U"
  unfolding spec_result_def by (metis DiffE empty_iff subsetD)

definition filled :: "stale_reads \<Rightarrow> dmd \<Rightarrow> nat \<Rightarrow> NumberPair \<Rightarrow> NumberPair \<Rightarrow> dmd" where
  "filled sr d i prev number = dropLowestGapIfOverMaxGapCount (d\<lparr>gaps := gap_fill sr (gaps d) i prev number\<rparr>)"

lemma loop_spec:
  assumes ok: "gaps_ok (gaps d)" and pn: "prev < number" and "i \<le> length (gaps d)"
    and above: "\<And>j. i \<le> j \<Longrightarrow> j < length (gaps d) \<Longrightarrow> number \<le> fst (gaps d ! j)"
  shows "snd (markAndCheck_loop sr d prev number i) = spec_result (unseen d) prev number (GapMisMatch d (Some prev) number) \<and>
    (if {prev<..number} \<subseteq> unseen d
     then \<exists>k < length (gaps d). fst (gaps d ! k) \<le> prev \<and> number \<le> snd (gaps d ! k) \<and>
            fst (markAndCheck_loop sr d prev number i) = filled sr d k prev number
     else fst (markAndCheck_loop sr d prev number i) = d)"
  using assms(3,4)
proof (induction i)
  case 0
  have "{prev<..number} \<inter> unseen d = {}" by (rule between_gaps [OF ok, of 0]) (use 0 in auto)
  moreover have "number \<in> {prev<..number}" using pn by simp
  ultimately have "{prev<..number} \<inter> unseen d = {}" "\<not> {prev<..number} \<subseteq> unseen d" by blast+
  then show ?case by (simp add: spec_result_def)
next
  case (Suc i)
  let ?lo = "fst (gaps d ! i)" and ?hi = "snd (gaps d ! i)"
  have i: "i < length (gaps d)" using Suc.prems(1) by simp
  have lohi: "?lo < ?hi" using gaps_ok_nth(2) [OF ok i] .
  have below: "snd (gaps d ! j) < ?lo" if "j < i" for j using gaps_ok_nth(1) [OF ok that i] .
  have upto: "snd (gaps d ! j) \<le> ?hi" if "j < Suc i" for j
    using that below [of j] lohi by (cases "j = i") auto
  have number: "number \<in> {prev<..number}" using pn by simp
  consider (over) "?hi \<le> prev" | (mis) "?lo \<le> prev" "prev < ?hi" "?hi < number"
    | (hit) "?lo \<le> prev" "number \<le> ?hi" | (mis2) "prev < ?lo" "?lo < number" | (lower) "prev < ?lo" "number \<le> ?lo"
    by (meson not_less)
  then show ?case
  proof cases
    case over
    have "{prev<..number} \<inter> unseen d = {}"
      by (rule between_gaps [OF ok Suc.prems(1)])
        (use order_trans [OF upto over] Suc.prems(2) in auto)
    then show ?thesis using over spec_dup [OF _ pn] by (simp add: np_order Let_def)
  next
    case mis
    have "{?hi<..number} \<inter> unseen d = {}"
      by (rule between_gaps [OF ok Suc.prems(1)])
        (use upto Suc.prems(2) in auto)
    then have "number \<notin> unseen d" using mis by auto
    moreover have "?hi \<in> {prev<..number} \<inter> unseen d" using i lohi mis by (auto simp: unseen_iff)
    ultimately show ?thesis using mis spec_err [of ?hi prev number "unseen d" number] number
      by (simp add: np_order Let_def not_le)
  next
    case hit
    have "{prev<..number} \<subseteq> unseen d" using hit i by (auto simp: unseen_iff intro!: exI [of _ i])
    moreover have "\<not> ?hi \<le> prev" "\<not> ?hi < number" using hit pn by auto
    ultimately show ?thesis using hit i by (auto simp: np_order spec_result_def filled_def Let_def)
  next
    case mis2
    have "?lo \<notin> unseen d"
      using below gaps_ok_nth(1) [OF ok, of i] i
      by (auto simp: unseen_iff not_le) (metis gaps_ok_nth(2) less_asym linorder_neqE_nat not_le ok order_less_trans)
    moreover have "?lo \<in> {prev<..number}" using mis2 by auto
    moreover have "min number ?hi \<in> {prev<..number} \<inter> unseen d"
      using mis2 i lohi by (auto simp: unseen_iff min_def intro!: exI [of _ i])
    moreover have "\<not> ?hi \<le> prev" "\<not> ?lo \<le> prev" using mis2 lohi by auto
    ultimately show ?thesis using mis2 spec_err [of "min number ?hi" prev number "unseen d" ?lo] by (simp add: np_order Let_def)
  next
    case lower
    then have "markAndCheck_loop sr d prev number (Suc i) = markAndCheck_loop sr d prev number i"
      using lohi by (auto simp: np_order Let_def)
    moreover have "number \<le> fst (gaps d ! j)" if "i \<le> j" "j < length (gaps d)" for j
      using that Suc.prems(2) [of j] lower by (cases "j = i") auto
    ultimately show ?thesis using Suc.IH i by simp
  qed
qed

section \<open>What one call does\<close>

lemma drop_lowest:
  assumes ok: "gaps_ok (gaps d)"
  shows "gaps_ok (gaps (dropLowestGapIfOverMaxGapCount d))"
    and "unseen (dropLowestGapIfOverMaxGapCount d) \<subseteq> unseen d"
    and "x \<in> unseen d \<Longrightarrow> x \<notin> unseen (dropLowestGapIfOverMaxGapCount d) \<Longrightarrow>
           y \<in> unseen (dropLowestGapIfOverMaxGapCount d) \<Longrightarrow> x < y"
proof -
  show "gaps_ok (gaps (dropLowestGapIfOverMaxGapCount d))"
    using ok by (cases "gaps d") (auto simp: dropLowestGapIfOverMaxGapCount_def gaps_ok_def)
  show "unseen (dropLowestGapIfOverMaxGapCount d) \<subseteq> unseen d"
    by (cases "gaps d") (auto simp: dropLowestGapIfOverMaxGapCount_def unseen_def)
  show "x < y" if "x \<in> unseen d" "x \<notin> unseen (dropLowestGapIfOverMaxGapCount d)"
    "y \<in> unseen (dropLowestGapIfOverMaxGapCount d)"
    using ok that
    by (cases "gaps d") (force simp: dropLowestGapIfOverMaxGapCount_def unseen_def gaps_ok_def gap_set_def split: if_splits)+
qed

text \<open>The relation between the unseen numbers before and after a call that accepts \<open>(prev, number]\<close>.\<close>

definition accepted :: "dmd \<Rightarrow> dmd \<Rightarrow> NumberPair \<Rightarrow> NumberPair \<Rightarrow> bool" where
  "accepted d d' prev number \<longleftrightarrow>
     unseen d' \<subseteq> unseen d - {prev<..number} \<and>
     (\<forall>x \<in> unseen d - {prev<..number} - unseen d'. \<forall>y \<in> unseen d'. x < y) \<and>
     (length (gaps d) < maxGapCount d \<longrightarrow> unseen d' = unseen d - {prev<..number})"

lemma unseen_update [simp]: "unseen (d\<lparr>gaps := gs\<rparr>) = (\<Union>g \<in> set gs. gap_set g)"
  by (simp add: unseen_def)

lemma filled_last:
  assumes "gaps_ok gs" "i < length gs" "number < snd (last gs)" "number \<le> snd (gs ! i)"
  shows "gap_fill reads_bound gs i prev number \<noteq> [] \<and>
         snd (last (gap_fill reads_bound gs i prev number)) = snd (last gs)"
proof (cases "Suc i = length gs")
  case True
  then have "last gs = gs ! i" using assms(2) by (metis diff_Suc_1 last_conv_nth length_0_conv nat.distinct(1))
  then show ?thesis using True assms(3) gap_rest_last [of number "gs ! i" prev] by (simp add: gap_fill_bound assms(2))
next
  case False
  then have "drop (Suc i) gs \<noteq> []" using assms(2) by simp
  then show ?thesis using assms(2) by (simp add: gap_fill_bound last_drop)
qed

lemma filled_inv:
  assumes inv: "dmd_inv d" and i: "i < length (gaps d)" and b: "fst (gaps d ! i) \<le> prev" "prev < number" "number \<le> snd (gaps d ! i)"
    and fin: "number < dmd_infinity"
  shows "dmd_inv (filled reads_bound d i prev number) \<and> gaps (filled reads_bound d i prev number) \<noteq> []"
    and "accepted d (filled reads_bound d i prev number) prev number"
proof -
  let ?gs = "gap_fill reads_bound (gaps d) i prev number"
  have ok: "gaps_ok (gaps d)" and ne: "gaps d \<noteq> []" and last: "snd (last (gaps d)) = dmd_infinity"
    using inv i by (auto simp: dmd_inv_def)
  note fill = fill_ok [OF ok i b]
  have L: "?gs \<noteq> []" "snd (last ?gs) = dmd_infinity"
    using filled_last [OF ok i, of number prev] fin b last by auto
  have ok': "gaps_ok (gaps (d\<lparr>gaps := ?gs\<rparr>))" using fill(1) by simp
  have shape: "gaps (filled reads_bound d i prev number) = (if maxGapCount d < length ?gs then tl ?gs else ?gs)"
    "maxGapCount (filled reads_bound d i prev number) = maxGapCount d"
    by (auto simp: filled_def dropLowestGapIfOverMaxGapCount_def)
  have "gaps_ok (gaps (filled reads_bound d i prev number))"
    unfolding filled_def by (rule drop_lowest(1) [OF ok'])
  moreover have "tl ?gs \<noteq> []" if "maxGapCount d < length ?gs"
    using that inv by (cases ?gs) (auto simp: dmd_inv_def)
  ultimately show "dmd_inv (filled reads_bound d i prev number) \<and> gaps (filled reads_bound d i prev number) \<noteq> []"
    using inv fill(3) L by (auto simp: dmd_inv_def shape last_tl)
  have U: "unseen (d\<lparr>gaps := ?gs\<rparr>) = unseen d - {prev<..number}" using fill(2) by (simp add: unseen_def)
  note dl = drop_lowest [OF ok', folded filled_def, unfolded U]
  have "unseen (filled reads_bound d i prev number) = unseen d - {prev<..number}" if "length (gaps d) < maxGapCount d"
    using that fill(3) U by (simp add: filled_def dropLowestGapIfOverMaxGapCount_def)
  then show "accepted d (filled reads_bound d i prev number) prev number"
    using dl(2,3) unfolding accepted_def by blast
qed

lemma markAndCheck_prev:
  assumes inv: "dmd_inv d" and ne: "gaps d \<noteq> []" and b: "prev < number" "number < dmd_infinity"
  shows "snd (markAndCheck sr d (Some prev) number) = spec_result (unseen d) prev number (GapMisMatch d (Some prev) number)"
    and "\<not> {prev<..number} \<subseteq> unseen d \<Longrightarrow> fst (markAndCheck sr d (Some prev) number) = d"
    and "{prev<..number} \<subseteq> unseen d \<Longrightarrow>
           dmd_inv (fst (markAndCheck reads_bound d (Some prev) number)) \<and>
           gaps (fst (markAndCheck reads_bound d (Some prev) number)) \<noteq> [] \<and>
           accepted d (fst (markAndCheck reads_bound d (Some prev) number)) prev number"
proof -
  have run: "markAndCheck sr d (Some prev) number = markAndCheck_loop sr d prev number (length (gaps d))" for sr
    using ne leD [of number prev] b(1) by (auto simp: markAndCheck_def np_order)
  have ok: "gaps_ok (gaps d)" using inv by (simp add: dmd_inv_def)
  note spec = loop_spec [OF ok b(1) order_refl]
  show "snd (markAndCheck sr d (Some prev) number) = spec_result (unseen d) prev number (GapMisMatch d (Some prev) number)"
    unfolding run using spec by simp
  show "fst (markAndCheck sr d (Some prev) number) = d" if "\<not> {prev<..number} \<subseteq> unseen d"
    unfolding run using spec that by simp
  assume "{prev<..number} \<subseteq> unseen d"
  then obtain k where "k < length (gaps d)" "fst (gaps d ! k) \<le> prev" "number \<le> snd (gaps d ! k)"
    "fst (markAndCheck reads_bound d (Some prev) number) = filled reads_bound d k prev number"
    unfolding run using spec by auto
  then show "dmd_inv (fst (markAndCheck reads_bound d (Some prev) number)) \<and>
           gaps (fst (markAndCheck reads_bound d (Some prev) number)) \<noteq> [] \<and>
           accepted d (fst (markAndCheck reads_bound d (Some prev) number)) prev number"
    using filled_inv [OF inv] b by auto
qed

lemma markAndCheck_no_prev:
  assumes inv: "dmd_inv d" and ne: "gaps d \<noteq> []" and fin: "number < dmd_infinity"
  shows "snd (markAndCheck sr d None number) = Inr (fst (last (gaps d)) < number)"
    and "dmd_inv (fst (markAndCheck sr d None number)) \<and> gaps (fst (markAndCheck sr d None number)) \<noteq> []"
    and "unseen (fst (markAndCheck sr d None number)) = unseen d - {fst (last (gaps d))<..number}"
proof -
  obtain pre lo hi where gs: "gaps d = pre @ [(lo, hi)]" using ne by (metis rev_exhaust surj_pair)
  have hi: "hi = dmd_infinity" and ok: "gaps_ok (pre @ [(lo, hi)])" using inv gs by (auto simp: dmd_inv_def)
  have run: "markAndCheck sr d None number =
      (if lo < number then (d\<lparr>gaps := pre @ [(number, hi)]\<rparr>, Inr True) else (d, Inr False))"
    by (simp add: markAndCheck_def np_order gs)
  show "snd (markAndCheck sr d None number) = Inr (fst (last (gaps d)) < number)" by (simp add: run gs)
  have "\<forall>g\<in>set pre. snd g < number" if "lo < number"
    using that ok by (auto simp: gaps_ok_append dest: order_less_trans)
  then show "dmd_inv (fst (markAndCheck sr d None number)) \<and> gaps (fst (markAndCheck sr d None number)) \<noteq> []"
    using inv ok fin hi by (auto simp: run gs dmd_inv_def gaps_ok_append) (auto simp: gaps_ok_def)
  have "gap_set g \<inter> {lo<..number} = {}" if "g \<in> set pre" for g
    using that ok by (auto simp: gaps_ok_append gap_set_def dest: order_less_trans order_le_less_trans)
  then have "unseen d - {lo<..number} = (\<Union>g\<in>set pre. gap_set g) \<union> (gap_set (lo, hi) - {lo<..number})"
    by (auto simp: unseen_def gs)
  moreover have "gap_set (lo, hi) - {lo<..number} = gap_set (number, hi)" if "lo < number"
    using that by (auto simp: gap_set_def)
  moreover have "{lo<..number} = {}" if "\<not> lo < number" using that by auto
  ultimately show "unseen (fst (markAndCheck sr d None number)) = unseen d - {fst (last (gaps d))<..number}"
    by (auto simp: run gs)
qed

lemma markAndCheck_first:
  assumes "dmd_inv d" "gaps d = []" "number < dmd_infinity"
  shows "markAndCheck sr d prev number =
           (if (case prev of Some p \<Rightarrow> number \<le> p | None \<Rightarrow> False) then (d, Inl InvalidNumberingError)
            else (d\<lparr>gaps := [(number, dmd_infinity)]\<rparr>, Inr True))"
    and "dmd_inv (d\<lparr>gaps := [(number, dmd_infinity)]\<rparr>)"
  using assms by (auto simp: markAndCheck_def np_order dmd_inv_def gaps_ok_def split: option.splits)

lemma markAndCheck_invalid: "number \<le> prev \<Longrightarrow> markAndCheck sr d (Some prev) number = (d, Inl InvalidNumberingError)"
  by (simp add: markAndCheck_def np_order)

lemma markAndCheck_inv:
  assumes inv: "dmd_inv d" and fin: "number < dmd_infinity"
  shows "dmd_inv (fst (markAndCheck reads_bound d prev number))"
proof (cases "gaps d = []")
  case True
  then show ?thesis using inv markAndCheck_first [OF inv True fin] by simp
next
  case False
  show ?thesis
  proof (cases prev)
    case None
    then show ?thesis using markAndCheck_no_prev [OF inv False fin] by simp
  next
    case (Some p)
    show ?thesis
    proof (cases "p < number")
      case True
      then show ?thesis using markAndCheck_prev(2,3) [OF inv False True fin] inv Some by metis
    next
      case False
      then show ?thesis using inv Some by (simp add: markAndCheck_invalid)
    qed
  qed
qed

text \<open>Seen numbers: once the detector has started, what is not in a gap.\<close>

definition seen_number :: "dmd \<Rightarrow> NumberPair \<Rightarrow> bool" where
  "seen_number d n \<longleftrightarrow> gaps d \<noteq> [] \<and> n \<notin> unseen d"

lemma seen_number_step:
  assumes inv: "dmd_inv d" and fin: "number < dmd_infinity" and seen: "seen_number d n"
  shows "seen_number (fst (markAndCheck reads_bound d prev number)) n"
proof -
  have ne: "gaps d \<noteq> []" and n: "n \<notin> unseen d" using seen by (auto simp: seen_number_def)
  show ?thesis
  proof (cases prev)
    case None
    then show ?thesis using markAndCheck_no_prev(2,3) [OF inv ne fin] n by (simp add: seen_number_def)
  next
    case (Some p)
    consider "\<not> p < number" | "p < number" "{p<..number} \<subseteq> unseen d" | "p < number" "\<not> {p<..number} \<subseteq> unseen d" by blast
    then show ?thesis
    proof cases
      case 1
      then show ?thesis using seen Some by (simp add: markAndCheck_invalid)
    next
      case 2
      then show ?thesis using markAndCheck_prev(3) [OF inv ne 2(1) fin 2(2)] n Some
        by (auto simp: seen_number_def accepted_def)
    next
      case 3
      then show ?thesis using markAndCheck_prev(2) [OF inv ne 3(1) fin 3(2)] seen Some by simp
    qed
  qed
qed

lemma seen_number_rejected:
  assumes inv: "dmd_inv d" and fin: "n < dmd_infinity" and seen: "seen_number d n"
  shows "snd (markAndCheck sr d prev n) \<noteq> Inr True"
proof -
  have ne: "gaps d \<noteq> []" and n: "n \<notin> unseen d" using seen by (auto simp: seen_number_def)
  show ?thesis
  proof (cases prev)
    case None
    have "\<not> fst (last (gaps d)) < n"
    proof
      assume "fst (last (gaps d)) < n"
      then have "n \<in> gap_set (last (gaps d))" using inv ne fin by (auto simp: gap_set_def dmd_inv_def)
      then show False using n ne by (auto simp: unseen_def)
    qed
    then show ?thesis using None markAndCheck_no_prev(1) [OF inv ne fin] by simp
  next
    case (Some p)
    show ?thesis
    proof (cases "p < n")
      case True
      then have "\<not> {p<..n} \<subseteq> unseen d" using n by (metis greaterThanAtMost_iff order_refl subsetD)
      then show ?thesis using markAndCheck_prev(1) [OF inv ne True fin] Some by (simp add: spec_result_def)
    next
      case False
      then show ?thesis using Some by (simp add: markAndCheck_invalid)
    qed
  qed
qed

lemma accepted_seen:
  assumes inv: "dmd_inv d" and fin: "n < dmd_infinity" and acc: "snd (markAndCheck reads_bound d prev n) = Inr True"
  shows "seen_number (fst (markAndCheck reads_bound d prev n)) n"
proof (cases "gaps d = []")
  case True
  then show ?thesis using acc markAndCheck_first(1) [OF inv True fin, of reads_bound prev]
    by (auto simp: seen_number_def unseen_def gap_set_def split: if_splits option.splits)
next
  case False
  show ?thesis
  proof (cases prev)
    case None
    then show ?thesis using acc markAndCheck_no_prev [OF inv False fin] by (simp add: seen_number_def)
  next
    case (Some p)
    then have p: "p < n" using acc markAndCheck_invalid [of n p reads_bound d] by (cases "p < n") auto
    then have "{p<..n} \<subseteq> unseen d"
      using acc Some markAndCheck_prev(1) [OF inv False p fin] by (auto simp: spec_result_def split: if_splits)
    then have "gaps (fst (markAndCheck reads_bound d prev n)) \<noteq> []"
      "accepted d (fst (markAndCheck reads_bound d prev n)) p n"
      using Some markAndCheck_prev(3) [OF inv False p fin] by auto
    then show ?thesis using p unfolding seen_number_def accepted_def by (metis DiffE greaterThanAtMost_iff order_refl subsetD)
  qed
qed

section \<open>Runs of a detector\<close>

definition dmd_step :: "dmd \<Rightarrow> NumberPair option \<times> NumberPair \<Rightarrow> dmd" where
  "dmd_step d m = fst (markAndCheck reads_bound d (fst m) (snd m))"

definition dmd_finite :: "NumberPair option \<times> NumberPair \<Rightarrow> bool" where
  "dmd_finite m \<longleftrightarrow> snd m < dmd_infinity"

interpretation dm: op_machine dmd_step dmd_inv dmd_finite
  by unfold_locales (simp add: dmd_step_def dmd_finite_def markAndCheck_inv)

lemma seen_run:
  assumes "dmd_inv d" "list_all dmd_finite ms" "seen_number d n"
  shows "seen_number (foldl dmd_step d ms) n"
  using dm.run_rel [of "\<lambda>d d'. seen_number d n \<longrightarrow> seen_number d' n" d ms] assms
  by (auto simp: dmd_step_def dmd_finite_def seen_number_step)

section \<open>Properties\<close>

text \<open>
  A message number that the detector has accepted once is never accepted again, whatever
  messages, with or without a previous reference, valid or not, arrive in between (for numbers
  below the detector's infinity, and with the split branch reading the bounds it was given).
\<close>

theorem markAndCheck_no_duplicates:
  assumes "dmd_inv d" "n < dmd_infinity" "list_all dmd_finite ms"
    and "snd (markAndCheck reads_bound d p n) = Inr True"
  shows "snd (markAndCheck reads_bound (foldl dmd_step (fst (markAndCheck reads_bound d p n)) ms) q n) \<noteq> Inr True"
proof -
  have inv: "dmd_inv (fst (markAndCheck reads_bound d p n))" using assms(1,2) by (rule markAndCheck_inv)
  show ?thesis
    using seen_run [OF inv assms(3) accepted_seen [OF assms(1,2,4)]] dm.run_inv [OF inv assms(3)] assms(2)
    by (intro seen_number_rejected)
qed

theorem markAndCheck_no_duplicates_witness:
  "snd (markAndCheck reads_bound
     (foldl dmd_step (fst (markAndCheck reads_bound (dmd_create 2) None (NumberPair 1 0)))
        [(Some (NumberPair 3 0), NumberPair 4 0)]) None (NumberPair 1 0)) \<noteq> Inr True"
  by (rule markAndCheck_no_duplicates) (code_simp | simp add: dmd_inv_def gaps_ok_def dmd_create_def)+

text \<open>Does the call fall inside a gap without touching its bounds, so that the gap is split?\<close>

definition splits_gap :: "dmd \<Rightarrow> NumberPair \<Rightarrow> NumberPair \<Rightarrow> bool" where
  "splits_gap d prev number \<longleftrightarrow> (\<exists>g \<in> set (gaps d). fst g < prev \<and> number < snd g)"

lemma unseen_le_infinity:
  assumes inv: "dmd_inv d" and x: "x \<in> unseen d"
  shows "x \<le> dmd_infinity"
proof -
  obtain g where g: "g \<in> set (gaps d)" "x \<le> snd g" using x by (auto simp: unseen_def gap_set_def)
  then obtain pre l where gs: "gaps d = pre @ [l]" by (metis empty_iff list.set(1) rev_exhaust)
  then have l: "snd l = dmd_infinity" "fst l < snd l" "\<forall>h \<in> set pre. snd h < fst l"
    using inv by (auto simp: dmd_inv_def gaps_ok_def sorted_wrt_append)
  have "snd g \<le> dmd_infinity"
  proof (cases "g = l")
    case False
    then have "g \<in> set pre" using g(1) gs by auto
    then have "snd g < fst l" using l(3) by blast
    then show ?thesis using l(1,2) by simp
  qed (use l in simp)
  then show ?thesis using g(2) by order
qed

lemma gap_fill_no_split:
  "fst (gs ! i) = prev \<or> number = snd (gs ! i) \<Longrightarrow> gap_fill sr gs i prev number = gap_fill reads_bound gs i prev number"
  by (auto simp: gap_fill_def Let_def np_order)

lemma slot_split_loses:
  assumes ok: "gaps_ok (gaps d)" and k: "k < length (gaps d)" and b: "fst (gaps d ! k) < prev" "prev < number" "number < snd (gaps d ! k)"
  shows "unseen (filled reads_slot d k prev number) \<inter> {prev<..snd (gaps d ! k)} = {}"
proof -
  let ?gs = "gaps d" let ?fill = "gap_fill reads_slot ?gs k prev number"
  have "set (gaps (filled reads_slot d k prev number)) \<subseteq> set ?fill"
    by (cases ?fill) (auto simp: filled_def dropLowestGapIfOverMaxGapCount_def)
  moreover have "gap_set g \<inter> {prev<..snd (?gs ! k)} = {}" if g: "g \<in> set ?fill" for g
  proof -
    have "?fill = take k ?gs @ [(lowerAfterErase reads_slot ?gs k, prev), (number, prev)] @ drop (Suc k) ?gs"
      using b less_imp_neq [OF b(1)] less_imp_neq [OF b(3)] by (auto simp: gap_fill_def gap_split_def Let_def np_order reads_slot_def)
    then consider "g \<in> set (take k ?gs) \<or> g \<in> set (drop (Suc k) ?gs)" | "snd g = prev" using g by auto
    then show ?thesis
    proof cases
      case 1
      have "gaps_ok (take k ?gs @ ?gs ! k # drop (Suc k) ?gs)" using ok id_take_nth_drop [OF k] by simp
      then have "gap_set g \<inter> gap_set (?gs ! k) = {}" using 1 by (rule gap_disjoint)
      then show ?thesis using b(1) by (auto simp: gap_set_def)
    qed (auto simp: gap_set_def)
  qed
  ultimately show ?thesis unfolding unseen_def by blast
qed

lemma gap_unique:
  assumes "gaps_ok gs" "g \<in> set gs" "k < length gs" "x \<in> gap_set g" "x \<in> gap_set (gs ! k)"
  shows "g = gs ! k"
proof (rule ccontr)
  assume "g \<noteq> gs ! k"
  moreover have gs: "gs = take k gs @ gs ! k # drop (Suc k) gs" using assms(3) by (rule id_take_nth_drop)
  ultimately have "g \<in> set (take k gs) \<or> g \<in> set (drop (Suc k) gs)" using assms(2) by (metis Un_iff set_ConsD set_append)
  then show False using gap_disjoint [of "take k gs" "gs ! k" "drop (Suc k) gs" g] assms gs by (metis disjoint_iff)
qed



text \<open>
  Messages that arrive in order, each naming its predecessor.
\<close>

fun in_order_results :: "stale_reads \<Rightarrow> dmd \<Rightarrow> NumberPair option \<Rightarrow> NumberPair list \<Rightarrow> (dmd_error + bool) list" where
  "in_order_results sr d prev [] = []"
| "in_order_results sr d prev (n # ns) =
     (case markAndCheck sr d prev n of (d', r) \<Rightarrow> r # in_order_results sr d' (Some n) ns)"

lemma in_order_step:
  assumes "0 < maxGapCount d" "gaps d = [(p, dmd_infinity)]" "p < n" "n < dmd_infinity"
  shows "markAndCheck sr d (Some p) n = (d\<lparr>gaps := [(n, dmd_infinity)]\<rparr>, Inr True)"
  using assms by (auto simp: markAndCheck_def np_order gap_fill_def dropLowestGapIfOverMaxGapCount_def)

lemma in_order_accepted:
  assumes "0 < maxGapCount d" "gaps d = [(p, dmd_infinity)]" "sorted_wrt (<) (p # ns)" "\<And>n. n \<in> set ns \<Longrightarrow> n < dmd_infinity"
  shows "in_order_results sr d (Some p) ns = replicate (length ns) (Inr True)"
  using assms
proof (induction ns arbitrary: d p)
  case (Cons n ns)
  then show ?case using in_order_step [of d p n sr] by auto
qed simp

text \<open>
  A publisher's messages that arrive in order, each with the reference of the one before, are all
  reported as new; no split happens on this path, so this holds whatever the invalidated references read.
\<close>

theorem in_order_all_new:
  assumes "0 < m" "sorted_wrt (<) ns" "\<And>n. n \<in> set ns \<Longrightarrow> n < dmd_infinity"
  shows "in_order_results sr (dmd_create m) None ns = replicate (length ns) (Inr True)"
proof (cases ns)
  case (Cons n rest)
  then have "in_order_results sr ((dmd_create m)\<lparr>gaps := [(n, dmd_infinity)]\<rparr>) (Some n) rest = replicate (length rest) (Inr True)"
    using assms by (intro in_order_accepted) (auto simp: dmd_create_def)
  then show ?thesis using Cons by (simp add: markAndCheck_def dmd_create_def)
qed simp

theorem in_order_all_new_witness:
  "in_order_results reads_slot (dmd_create 1) None [NumberPair 1 0, NumberPair 1 1, NumberPair 2 0] =
     replicate 3 (Inr True)"
  by (rule trans [OF in_order_all_new]) (auto simp: less_NumberPair_def dmd_infinity_def eval_nat_numeral)

text \<open>
  The detector's infinity is the largest \<^verbatim>\<open>int\<close>.  When the first message has a time stamp
  of 2147483647 or more, as every millisecond time since 1970-01-25 has, then every further
  message that names a predecessor is reported as a duplicate, and the state never changes.
\<close>

theorem large_timestamp_all_duplicates:
  assumes "dmd_infinity \<le> first" "first \<le> prev" "prev < number"
  shows "markAndCheck sr (fst (markAndCheck sr (dmd_create m) None first)) (Some prev) number =
           (fst (markAndCheck sr (dmd_create m) None first), Inr False)"
proof -
  have "\<not> number \<le> prev" "dmd_infinity \<le> prev" using assms by auto
  then show ?thesis by (simp add: markAndCheck_def dmd_create_def np_order)
qed

theorem large_timestamp_all_duplicates_witness:
  "snd (markAndCheck reads_bound (fst (markAndCheck reads_bound (dmd_create 10000) None (NumberPair 1700000000000 0)))
     (Some (NumberPair 1700000000000 0)) (NumberPair 1700000000001 0)) = Inr False"
  using large_timestamp_all_duplicates [of "NumberPair 1700000000000 0" "NumberPair 1700000000000 0" "NumberPair 1700000000001 0" reads_bound 10000]
  by (simp add: less_NumberPair_def less_eq_NumberPair_def dmd_infinity_def)

text \<open>
  The branch that splits a gap reads its bounds through references that its own erasure and
  insertion have invalidated.  When these references denote the slot of the array, as in a contiguous
  vector, one out-of-order message ends the detector's last gap before the message itself, and
  the next message of the publisher, in order and new, is reported as a duplicate.
\<close>

theorem split_aliasing_loses_infinity:
  assumes "0 < m" "first < prev" "prev < number" "number < next_number" "next_number < dmd_infinity"
  shows "let d1 = fst (markAndCheck reads_slot (dmd_create (Suc m)) None first);
             d2 = fst (markAndCheck reads_slot d1 (Some prev) number)
         in gaps d2 = [(first, prev), (number, prev)] \<and>
            snd (markAndCheck reads_slot d2 (Some number) next_number) = Inr False"
proof -
  have o: "\<not> number \<le> prev" "\<not> dmd_infinity \<le> prev" "first \<le> prev" "prev \<noteq> first" "\<not> dmd_infinity < number"
    "number \<noteq> dmd_infinity" "\<not> next_number \<le> number" "prev \<le> number"
    using assms by auto
  show ?thesis using o assms(1)
    by (simp add: markAndCheck_def dmd_create_def np_order gap_fill_def gap_split_def reads_slot_def
        dropLowestGapIfOverMaxGapCount_def Let_def)
qed

theorem split_aliasing_witness:
  "let d1 = fst (markAndCheck reads_slot (dmd_create (Suc 1)) None (NumberPair 1 0));
       d2 = fst (markAndCheck reads_slot d1 (Some (NumberPair 2 0)) (NumberPair 3 0))
   in gaps d2 = [(NumberPair 1 0, NumberPair 2 0), (NumberPair 3 0, NumberPair 2 0)] \<and>
      snd (markAndCheck reads_slot d2 (Some (NumberPair 3 0)) (NumberPair 4 0)) = Inr False"
  by (rule split_aliasing_loses_infinity) (simp_all add: less_NumberPair_def dmd_infinity_def)

section \<open>One detector per publisher and message chain\<close>

lemma detectorKey_inject:
  assumes "hex_laws hx"
  shows "detectorKey hx m = detectorKey hx m' \<longleftrightarrow>
           mid_publisherId m = mid_publisherId m' \<and> mid_messageChainId m = mid_messageChainId m'"
  using append_sep_eq [of "CHR ''-''" "getDhtAddressFromRaw hx (mid_publisherId m)" "getDhtAddressFromRaw hx (mid_publisherId m')"]
    hex_laws.dash_free [OF assms] hex_laws.address_inject [OF assms]
  by (auto simp: detectorKey_def)

text \<open>
  \<^verbatim>\<open>markAndCheckDuplicate\<close> answers from, and changes, only the detector of the message's publisher
  and chain: messages of two different publishers or chains never share a detector, because
  the hexadecimal publisher id contains no dash.
\<close>

theorem markAndCheckDuplicate_separates:
  assumes "hex_laws hx" "(mid_publisherId m, mid_messageChainId m) \<noteq> (mid_publisherId m', mid_messageChainId m')"
  shows "om_find (fst (markAndCheckDuplicate hx sr detectors m ref)) (detectorKey hx m') =
           om_find detectors (detectorKey hx m') \<and>
         snd (markAndCheckDuplicate hx sr (fst (markAndCheckDuplicate hx sr detectors m ref)) m' ref') =
           snd (markAndCheckDuplicate hx sr detectors m' ref')"
  using assms(2) detectorKey_inject [OF assms(1), of m' m]
  by (auto simp: markAndCheckDuplicate_def Let_def split: prod.splits)

theorem markAndCheckDuplicate_separates_witness:
  "let m = \<lparr>mid_timestamp = 1, mid_sequenceNumber = 0, mid_publisherId = [1], mid_messageChainId = ''a''\<rparr>;
       m' = m\<lparr>mid_publisherId := [2]\<rparr>
   in snd (markAndCheckDuplicate ref_hex reads_bound (fst (markAndCheckDuplicate ref_hex reads_bound [] m None)) m' None) =
      Inr True"
  unfolding Let_def
  by (rule trans [OF markAndCheckDuplicate_separates [THEN conjunct2, OF ref.hex_laws_axioms]])
    (simp_all add: markAndCheckDuplicate_def markAndCheck_def dmd_create_def om_find_def)

end
