(* ===== verification/Propagation.thy ===== *)
theory Propagation
  imports Fifo_Map Duplicate_Message_Detector
begin

text \<open>
  The propagation of stream messages to the neighbours of a node (\<^verbatim>\<open>Propagation.cppm\<close>) and the store of
  its unfinished tasks (\<^verbatim>\<open>PropagationTaskStore.cppm\<close>).  Sends run concurrently: every send is an
  object with a status, and its two locked sections, before and after the network call, are separate
  steps that interleave freely with each other and with the calls of the node.  The tasks that the
  code shares through pointers live in a heap; the store holds copies.
\<close>

section \<open>Message references as keys\<close>

definition messageRef_less :: "MessageRef \<Rightarrow> MessageRef \<Rightarrow> bool" where
  "messageRef_less r1 r2 \<longleftrightarrow>
     (if mref_sequenceNumber r1 \<noteq> mref_sequenceNumber r2 then mref_sequenceNumber r1 < mref_sequenceNumber r2
      else mref_timestamp r1 < mref_timestamp r2)"

instantiation MessageRef :: linorder
begin

definition less_MessageRef :: "MessageRef \<Rightarrow> MessageRef \<Rightarrow> bool" where
  "less_MessageRef r1 r2 \<longleftrightarrow> messageRef_less r1 r2"

definition less_eq_MessageRef :: "MessageRef \<Rightarrow> MessageRef \<Rightarrow> bool" where
  "less_eq_MessageRef r1 r2 \<longleftrightarrow> r1 < r2 \<or> r1 = r2"

instance
  by standard
    (auto simp: less_MessageRef_def messageRef_less_def less_eq_MessageRef_def MessageRef.expand split: if_splits intro: MessageRef.expand)

end

section \<open>The task store\<close>

text \<open>A stream message: its id, and the rest of it, which is passed on unchanged.\<close>

record StreamMessage =
  smMessageId :: MessageID
  smRest :: bytes

record PropagationTask =
  ptMessage :: StreamMessage
  ptSource :: "DhtAddress option"
  ptHandled :: "DhtAddress set"

type_synonym task_store = "(MessageRef, PropagationTask) fifo_map"

definition messageIdToMessageRef :: "MessageID \<Rightarrow> MessageRef" where
  "messageIdToMessageRef i = MessageRef (mid_timestamp i) (mid_sequenceNumber i)"

abbreviation task_ref :: "PropagationTask \<Rightarrow> MessageRef" where
  "task_ref t \<equiv> messageIdToMessageRef (smMessageId (ptMessage t))"

definition ts_create :: "millis \<Rightarrow> nat \<Rightarrow> nat \<Rightarrow> task_store" where
  "ts_create ttl maxTasks counter = fm_create ttl maxTasks counter"

text \<open>The token of an erased item is taken to be read as it was stored.\<close>

definition ts_get :: "task_store \<Rightarrow> (MessageRef \<Rightarrow> millis) \<Rightarrow> task_store \<times> PropagationTask list" where
  "ts_get s now = fm_values (\<lambda>t. t) s now"

definition ts_add :: "task_store \<Rightarrow> PropagationTask \<Rightarrow> millis \<Rightarrow> cpp_error + task_store" where
  "ts_add s task now =
     (case fm_set (\<lambda>t. t) s (task_ref task) task now of Inl e \<Rightarrow> Inl e | Inr (s', _) \<Rightarrow> Inr s')"

definition ts_remove :: "task_store \<Rightarrow> MessageRef \<Rightarrow> task_store" where
  "ts_remove s ref = fst (fm_remove (\<lambda>t. t) s ref)"

section \<open>Propagation\<close>

datatype send_status = Scheduled | InFlight | Done bool

record send =
  seTask :: nat
  seTo :: DhtAddress
  seStatus :: send_status

record propagation =
  prStore :: task_store
  prMin :: nat
  prTasks :: "PropagationTask list"
  prSends :: "send list"
  prClosed :: bool

definition DEFAULT_MAX_MESSAGES :: nat where
  "DEFAULT_MAX_MESSAGES = 150"

definition DEFAULT_TTL :: millis where
  "DEFAULT_TTL = 10 * 1000"

definition pr_create :: "nat \<Rightarrow> millis option \<Rightarrow> nat option \<Rightarrow> nat \<Rightarrow> propagation" where
  "pr_create minTargets ttl maxMessages counter =
     \<lparr>prStore = ts_create (case ttl of Some t \<Rightarrow> t | None \<Rightarrow> DEFAULT_TTL)
        (case maxMessages of Some n \<Rightarrow> n | None \<Rightarrow> DEFAULT_MAX_MESSAGES) counter,
      prMin = minTargets, prTasks = [], prSends = [], prClosed = False\<rparr>"

definition new_send :: "nat \<Rightarrow> DhtAddress \<Rightarrow> send" where
  "new_send h n = \<lparr>seTask = h, seTo = n, seStatus = Scheduled\<rparr>"

text \<open>The scope drops what is added after it has been closed.\<close>

definition scheduleSend :: "propagation \<Rightarrow> nat \<Rightarrow> DhtAddress \<Rightarrow> propagation" where
  "scheduleSend p h n = (if prClosed p then p else p\<lparr>prSends := prSends p @ [new_send h n]\<rparr>)"

definition new_task :: "StreamMessage \<Rightarrow> DhtAddress option \<Rightarrow> PropagationTask" where
  "new_task message source = \<lparr>ptMessage = message, ptSource = source, ptHandled = {}\<rparr>"

definition feedUnseenMessage ::
  "propagation \<Rightarrow> StreamMessage \<Rightarrow> DhtAddress list \<Rightarrow> DhtAddress option \<Rightarrow> millis \<Rightarrow> cpp_error + propagation" where
  "feedUnseenMessage p message targets source now =
     (let task = new_task message source; h = length (prTasks p)
      in case ts_add (prStore p) task now of
           Inl e \<Rightarrow> Inl e
         | Inr s \<Rightarrow> Inr (foldl (\<lambda>q n. scheduleSend q h n) (p\<lparr>prStore := s, prTasks := prTasks p @ [task]\<rparr>) targets))"

text \<open>
  The awaitable variant starts its sends itself, outside of the scope; it returns the index of the first
  of them.  \<open>collectResults\<close> is its answer, available once they are all done.
\<close>

definition feedUnseenMessageAndCollect ::
  "propagation \<Rightarrow> StreamMessage \<Rightarrow> DhtAddress list \<Rightarrow> DhtAddress option \<Rightarrow> millis \<Rightarrow> cpp_error + (propagation \<times> nat)" where
  "feedUnseenMessageAndCollect p message targets source now =
     (let task = new_task message source; h = length (prTasks p)
      in case ts_add (prStore p) task now of
           Inl e \<Rightarrow> Inl e
         | Inr s \<Rightarrow> Inr (p\<lparr>prStore := s, prTasks := prTasks p @ [task], prSends := prSends p @ map (new_send h) targets\<rparr>,
                         length (prSends p)))"

definition send_done :: "send \<Rightarrow> bool" where
  "send_done s \<longleftrightarrow> (case seStatus s of Done _ \<Rightarrow> True | _ \<Rightarrow> False)"

definition collectResults :: "propagation \<Rightarrow> nat \<Rightarrow> DhtAddress list \<Rightarrow> (DhtAddress list \<times> DhtAddress list) option" where
  "collectResults p first targets =
     (let results = take (length targets) (drop first (prSends p))
      in if list_all send_done results
         then Some (map fst (filter (\<lambda>(n, s). seStatus s \<noteq> Done True) (zip targets results)),
                    map fst (filter (\<lambda>(n, s). seStatus s = Done True) (zip targets results)))
         else None)"

definition onNeighborJoined :: "propagation \<Rightarrow> DhtAddress \<Rightarrow> (MessageRef \<Rightarrow> millis) \<Rightarrow> propagation" where
  "onNeighborJoined p neighborId now =
     (case ts_get (prStore p) now of
        (s, tasks) \<Rightarrow>
          foldl (\<lambda>q task. scheduleSend (q\<lparr>prTasks := prTasks q @ [task]\<rparr>) (length (prTasks q)) neighborId)
            (p\<lparr>prStore := s\<rparr>) tasks)"

definition set_send :: "propagation \<Rightarrow> nat \<Rightarrow> send_status \<Rightarrow> propagation" where
  "set_send p i st = p\<lparr>prSends := (prSends p)[i := (prSends p ! i)\<lparr>seStatus := st\<rparr>]\<rparr>"

text \<open>\<^verbatim>\<open>sendAndAwaitThenMark\<close> up to the network call, and after it; the network decides \<open>ok\<close>.\<close>

definition send_begin :: "propagation \<Rightarrow> nat \<Rightarrow> propagation" where
  "send_begin p i =
     (if i < length (prSends p) \<and> seStatus (prSends p ! i) = Scheduled
      then (let s = prSends p ! i; task = prTasks p ! seTask s
            in if seTo s \<in> ptHandled task \<or> ptSource task = Some (seTo s) then set_send p i (Done False)
               else set_send p i InFlight)
      else p)"

definition mark_handled :: "propagation \<Rightarrow> nat \<Rightarrow> DhtAddress \<Rightarrow> propagation" where
  "mark_handled p h n =
     (let task = (prTasks p ! h)\<lparr>ptHandled := insert n (ptHandled (prTasks p ! h))\<rparr>;
          q = p\<lparr>prTasks := (prTasks p)[h := task]\<rparr>
      in if prMin p \<le> card (ptHandled task) then q\<lparr>prStore := ts_remove (prStore q) (task_ref task)\<rparr> else q)"

definition send_end :: "propagation \<Rightarrow> nat \<Rightarrow> bool \<Rightarrow> propagation" where
  "send_end p i ok =
     (if i < length (prSends p) \<and> seStatus (prSends p ! i) = InFlight
      then (let s = prSends p ! i
            in if ok then set_send (mark_handled p (seTask s) (seTo s)) i (Done True) else set_send p i (Done False))
      else p)"

text \<open>\<^verbatim>\<open>stop\<close> closes the scope and waits; what it waits for are further steps of the sends.\<close>

definition pr_stop :: "propagation \<Rightarrow> propagation" where
  "pr_stop p = p\<lparr>prClosed := True\<rparr>"

datatype pr_event =
    Feed StreamMessage "DhtAddress list" "DhtAddress option" millis
  | FeedAndCollect StreamMessage "DhtAddress list" "DhtAddress option" millis
  | Joined DhtAddress "MessageRef \<Rightarrow> millis"
  | Begin nat
  | End nat bool
  | Stop

definition pr_step :: "propagation \<Rightarrow> pr_event \<Rightarrow> propagation" where
  "pr_step p e =
     (case e of
        Feed m ts src now \<Rightarrow> (case feedUnseenMessage p m ts src now of Inl _ \<Rightarrow> p | Inr q \<Rightarrow> q)
      | FeedAndCollect m ts src now \<Rightarrow> (case feedUnseenMessageAndCollect p m ts src now of Inl _ \<Rightarrow> p | Inr (q, _) \<Rightarrow> q)
      | Joined n now \<Rightarrow> onNeighborJoined p n now
      | Begin i \<Rightarrow> send_begin p i
      | End i ok \<Rightarrow> send_end p i ok
      | Stop \<Rightarrow> pr_stop p)"


section \<open>Invariant\<close>

text \<open>The stored copies are never marked: marking happens on the shared tasks.\<close>

definition store_ok :: "task_store \<Rightarrow> bool" where
  "store_ok s \<longleftrightarrow> fm_inv s \<and>
     (\<forall>k it. om_find (fmItems s) k = Some it \<longrightarrow> k = task_ref (fiValue it) \<and> ptHandled (fiValue it) = {})"

definition acked :: "propagation \<Rightarrow> nat \<Rightarrow> DhtAddress set" where
  "acked p h = {seTo s | s. s \<in> set (prSends p) \<and> seTask s = h \<and> seStatus s = Done True}"

definition pr_inv :: "propagation \<Rightarrow> bool" where
  "pr_inv p \<longleftrightarrow>
     store_ok (prStore p) \<and>
     (\<forall>s \<in> set (prSends p). seTask s < length (prTasks p)) \<and>
     (\<forall>s \<in> set (prSends p). seStatus s \<in> {InFlight, Done True} \<longrightarrow> ptSource (prTasks p ! seTask s) \<noteq> Some (seTo s)) \<and>
     (\<forall>h < length (prTasks p). ptHandled (prTasks p ! h) = acked p h)"

lemma store_ok_create: "store_ok (ts_create ttl n c)"
  using fm_inv_create [of ttl n c] by (simp add: store_ok_def ts_create_def) (simp add: fm_create_def om_find_def)

lemma store_ok_remove: "store_ok s \<Longrightarrow> store_ok (ts_remove s ref)"
  using fm_remove_step(1,3) [of s ref] by (auto simp: store_ok_def ts_remove_def split: if_splits)

lemma ts_add_step:
  assumes ok: "store_ok s" and fresh: "ptHandled task = {}"
  shows "\<exists>s'. ts_add s task now = Inr s' \<and> store_ok s' \<and> fmTtl s' = fmTtl s \<and> fmMaxSize s' = fmMaxSize s \<and>
    (0 < fmMaxSize s \<longrightarrow> (\<exists>it. om_find (fmItems s') (task_ref task) = Some it \<and> fiValue it = task \<and> fiExpiresAt it = now + fmTtl s)) \<and>
    (\<forall>k it. k \<noteq> task_ref task \<longrightarrow> om_find (fmItems s') k = Some it \<longrightarrow> om_find (fmItems s) k = Some it)"
proof (cases "fmMaxSize s = 0")
  case True
  then show ?thesis using ok by (auto simp: ts_add_def fm_set_def)
next
  case False
  have inv: "fm_inv s" using ok by (simp add: store_ok_def)
  obtain s' d where s': "fm_set (\<lambda>t. t) s (task_ref task) task now = Inr (s', d)" "fm_inv s'" "fmMaxSize s' = fmMaxSize s" "fmTtl s' = fmTtl s"
    "om_find (fmItems s') (task_ref task) = Some \<lparr>fiValue = task, fiToken = fmCounter s, fiExpiresAt = now + fmTtl s\<rparr>"
    "\<forall>j. j \<noteq> task_ref task \<longrightarrow> om_find (fmItems s') j = (if j \<in> set (fm_order s') then om_find (fmItems s) j else None)"
    using fm_set_step [OF inv, of "task_ref task" task now] False by blast
  have old: "om_find (fmItems s) k = Some it" if "k \<noteq> task_ref task" "om_find (fmItems s') k = Some it" for k it
    using that s'(6) by (auto split: if_splits)
  have "store_ok s'"
    unfolding store_ok_def using s'(2,5) old ok fresh by (metis fifo_item.select_convs(1) option.inject store_ok_def)
  then show ?thesis using s' old by (auto simp: ts_add_def)
qed

lemma ts_get_step:
  assumes "store_ok s"
  shows "store_ok (fst (ts_get s now))" "\<And>t. t \<in> set (snd (ts_get s now)) \<Longrightarrow> ptHandled t = {}"
proof -
  have inv: "fm_inv s" using assms by (simp add: store_ok_def)
  note v = fm_values_step [OF inv, of now]
  have live: "om_find (fmItems s) k = Some it" if "fm_live s now k = Some it" for k it
    using that by (auto simp: fm_live_def split: option.splits if_splits)
  show "store_ok (fst (ts_get s now))" using v(1,2) live assms unfolding store_ok_def ts_get_def by metis
  show "ptHandled t = {}" if "t \<in> set (snd (ts_get s now))" for t
    using that live assms unfolding ts_get_def v(3) store_ok_def by blast
qed

text \<open>Feeding and joining extend the heap by fresh tasks and the sends by scheduled ones.\<close>

definition pr_extend :: "propagation \<Rightarrow> task_store \<Rightarrow> PropagationTask list \<Rightarrow> (nat \<times> DhtAddress) list \<Rightarrow> propagation" where
  "pr_extend p s new xs =
     p\<lparr>prStore := s, prTasks := prTasks p @ new, prSends := prSends p @ map (\<lambda>(h, n). new_send h n) xs\<rparr>"

lemma foldl_scheduleSend:
  "foldl (\<lambda>q n. scheduleSend q h n) p ts = p\<lparr>prSends := prSends p @ (if prClosed p then [] else map (new_send h) ts)\<rparr>"
  by (induction ts arbitrary: p) (auto simp: scheduleSend_def)

lemma foldl_joined:
  "foldl (\<lambda>q task. scheduleSend (q\<lparr>prTasks := prTasks q @ [task]\<rparr>) (length (prTasks q)) n) p tasks =
     p\<lparr>prTasks := prTasks p @ tasks,
       prSends := prSends p @ (if prClosed p then [] else map (\<lambda>h. new_send h n) [length (prTasks p)..<length (prTasks p) + length tasks])\<rparr>"
proof (induction tasks arbitrary: p)
  case (Cons t tasks)
  then show ?case by (simp add: scheduleSend_def upt_conv_Cons del: upt_Suc)
qed simp

lemma feed_extends:
  "feedUnseenMessage p m ts src now =
     (case ts_add (prStore p) (new_task m src) now of Inl e \<Rightarrow> Inl e
      | Inr s \<Rightarrow> Inr (pr_extend p s [new_task m src] (if prClosed p then [] else map (Pair (length (prTasks p))) ts)))"
  by (simp add: feedUnseenMessage_def foldl_scheduleSend pr_extend_def Let_def comp_def split: sum.splits)

lemma collect_extends:
  "feedUnseenMessageAndCollect p m ts src now =
     (case ts_add (prStore p) (new_task m src) now of Inl e \<Rightarrow> Inl e
      | Inr s \<Rightarrow> Inr (pr_extend p s [new_task m src] (map (Pair (length (prTasks p))) ts), length (prSends p)))"
  by (simp add: feedUnseenMessageAndCollect_def pr_extend_def Let_def comp_def split: sum.splits)

lemma joined_extends:
  "onNeighborJoined p n now = pr_extend p (fst (ts_get (prStore p) now)) (snd (ts_get (prStore p) now))
     (if prClosed p then [] else
        map (\<lambda>h. (h, n)) [length (prTasks p)..<length (prTasks p) + length (snd (ts_get (prStore p) now))])"
  by (simp add: onNeighborJoined_def foldl_joined pr_extend_def comp_def split: prod.splits)

lemma pr_inv_extend:
  assumes inv: "pr_inv p" and s: "store_ok s" and fresh: "\<And>t. t \<in> set new \<Longrightarrow> ptHandled t = {}"
    and xs: "\<And>h n. (h, n) \<in> set xs \<Longrightarrow> length (prTasks p) \<le> h \<and> h < length (prTasks p) + length new"
  shows "pr_inv (pr_extend p s new xs)"
proof -
  let ?q = "pr_extend p s new xs"
  have sends: "set (prSends ?q) = set (prSends p) \<union> (\<lambda>(h, n). new_send h n) ` set xs" by (simp add: pr_extend_def)
  have old: "prTasks ?q ! h = prTasks p ! h" if "h < length (prTasks p)" for h
    using that by (simp add: pr_extend_def nth_append)
  have ack: "acked ?q h = acked p h" for h
    unfolding acked_def sends by (auto simp: new_send_def)
  have none: "acked p h = {}" if "length (prTasks p) \<le> h" for h
    using that inv by (force simp: acked_def pr_inv_def)
  have handled: "ptHandled (prTasks ?q ! h) = acked ?q h" if "h < length (prTasks ?q)" for h
  proof (cases "h < length (prTasks p)")
    case True
    then show ?thesis using inv by (simp add: ack old pr_inv_def)
  next
    case False
    then have "prTasks ?q ! h \<in> set new" using that by (simp add: pr_extend_def nth_append)
    then show ?thesis using False fresh none by (simp add: ack)
  qed
  have "seTask x < length (prTasks ?q)" if "x \<in> set (prSends ?q)" for x
    using that xs inv unfolding sends by (auto simp: pr_inv_def new_send_def pr_extend_def)
  moreover have "ptSource (prTasks ?q ! seTask x) \<noteq> Some (seTo x)"
    if "x \<in> set (prSends ?q)" "seStatus x \<in> {InFlight, Done True}" for x
    using that inv old [of "seTask x"] unfolding sends by (auto simp: pr_inv_def new_send_def)
  ultimately show ?thesis using s handled by (simp add: pr_inv_def) (simp add: pr_extend_def)
qed


lemma acked_nth:
  "acked p h = {seTo (prSends p ! j) | j. j < length (prSends p) \<and> seTask (prSends p ! j) = h \<and> seStatus (prSends p ! j) = Done True}"
  unfolding acked_def by (auto simp: in_set_conv_nth)

lemma acked_set_send:
  assumes i: "i < length (prSends p)" and st: "seStatus (prSends p ! i) \<noteq> Done True"
  shows "acked (set_send p i st) h =
    (if st = Done True \<and> h = seTask (prSends p ! i) then insert (seTo (prSends p ! i)) (acked p h) else acked p h)"
proof -
  let ?S = "prSends p" and ?T = "prSends (set_send p i st)"
  have len: "length ?T = length ?S" by (simp add: set_send_def)
  have nth: "?T ! j = (if j = i then (?S ! i)\<lparr>seStatus := st\<rparr> else ?S ! j)" for j
    using i by (simp add: set_send_def)
  have "x \<in> acked (set_send p i st) h \<longleftrightarrow> (st = Done True \<and> h = seTask (?S ! i) \<and> x = seTo (?S ! i)) \<or> x \<in> acked p h" for x
  proof
    assume "x \<in> acked (set_send p i st) h"
    then obtain j where j: "j < length ?S" "x = seTo (?T ! j)" "seTask (?T ! j) = h" "seStatus (?T ! j) = Done True"
      unfolding acked_nth len by blast
    then show "(st = Done True \<and> h = seTask (?S ! i) \<and> x = seTo (?S ! i)) \<or> x \<in> acked p h"
      unfolding acked_nth by (cases "j = i") (auto simp: nth)
  next
    assume "(st = Done True \<and> h = seTask (?S ! i) \<and> x = seTo (?S ! i)) \<or> x \<in> acked p h"
    then show "x \<in> acked (set_send p i st) h"
    proof
      assume "st = Done True \<and> h = seTask (?S ! i) \<and> x = seTo (?S ! i)"
      then show ?thesis unfolding acked_nth len using i nth [of i] by (intro CollectI exI [of _ i]) simp
    next
      assume "x \<in> acked p h"
      then obtain j where "j < length ?S" "x = seTo (?S ! j)" "seTask (?S ! j) = h" "seStatus (?S ! j) = Done True"
        unfolding acked_nth by blast
      then show ?thesis unfolding acked_nth len using st nth [of j] by (intro CollectI exI [of _ j]) auto
    qed
  qed
  then show ?thesis by auto
qed

lemma set_send_fields [simp]:
  "prStore (set_send p i st) = prStore p" "prTasks (set_send p i st) = prTasks p" "prMin (set_send p i st) = prMin p"
  "prClosed (set_send p i st) = prClosed p"
  by (simp_all add: set_send_def)

lemma set_send_mem:
  assumes "i < length (prSends p)" "s \<in> set (prSends (set_send p i st))"
  shows "s \<in> set (prSends p) \<or> s = (prSends p ! i)\<lparr>seStatus := st\<rparr>"
  using assms set_update_subset_insert [of "prSends p" i] by (fastforce simp: set_send_def)

text \<open>Changing the status of an unfinished send to anything but success.\<close>

lemma pr_inv_set_send:
  assumes inv: "pr_inv p" and i: "i < length (prSends p)" and st: "seStatus (prSends p ! i) \<noteq> Done True" "st \<noteq> Done True"
    and src: "st = InFlight \<Longrightarrow> ptSource (prTasks p ! seTask (prSends p ! i)) \<noteq> Some (seTo (prSends p ! i))"
  shows "pr_inv (set_send p i st)"
proof -
  have mem: "prSends p ! i \<in> set (prSends p)" using i by simp
  have "acked (set_send p i st) h = acked p h" for h using acked_set_send [OF i st(1)] st(2) by simp
  moreover have "seTask s < length (prTasks p)" if "s \<in> set (prSends (set_send p i st))" for s
    using set_send_mem [OF i that] inv mem by (auto simp: pr_inv_def)
  moreover have "ptSource (prTasks p ! seTask s) \<noteq> Some (seTo s)"
    if "s \<in> set (prSends (set_send p i st))" "seStatus s \<in> {InFlight, Done True}" for s
    using set_send_mem [OF i that(1)] that(2) inv st(2) src by (auto simp: pr_inv_def)
  ultimately show ?thesis using inv by (simp add: pr_inv_def)
qed

lemma pr_inv_begin: "pr_inv p \<Longrightarrow> pr_inv (send_begin p i)"
  unfolding send_begin_def Let_def by (auto intro!: pr_inv_set_send)

lemma mark_handled_fields:
  "prSends (mark_handled p h n) = prSends p" "prMin (mark_handled p h n) = prMin p" "prClosed (mark_handled p h n) = prClosed p"
  "prTasks (mark_handled p h n) = (prTasks p)[h := (prTasks p ! h)\<lparr>ptHandled := insert n (ptHandled (prTasks p ! h))\<rparr>]"
  "prStore (mark_handled p h n) =
     (if prMin p \<le> card (insert n (ptHandled (prTasks p ! h))) then ts_remove (prStore p) (task_ref (prTasks p ! h)) else prStore p)"
  by (simp_all add: mark_handled_def Let_def)

lemma pr_inv_success:
  assumes inv: "pr_inv p" and i: "i < length (prSends p)" and st: "seStatus (prSends p ! i) = InFlight"
  shows "pr_inv (set_send (mark_handled p (seTask (prSends p ! i)) (seTo (prSends p ! i))) i (Done True))"
proof -
  let ?s = "prSends p ! i"
  let ?m = "mark_handled p (seTask ?s) (seTo ?s)"
  let ?q = "set_send ?m i (Done True)"
  have mem: "?s \<in> set (prSends p)" using i by simp
  have h: "seTask ?s < length (prTasks p)" "ptSource (prTasks p ! seTask ?s) \<noteq> Some (seTo ?s)"
    using inv mem st by (auto simp: pr_inv_def)
  have task: "prTasks ?q ! h = (if h = seTask ?s then (prTasks p ! h)\<lparr>ptHandled := insert (seTo ?s) (ptHandled (prTasks p ! h))\<rparr> else prTasks p ! h)"
    for h using h(1) by (simp add: mark_handled_fields)
  have len: "length (prTasks ?q) = length (prTasks p)" by (simp add: mark_handled_fields)
  have i': "i < length (prSends ?m)" and s: "prSends ?m ! i = ?s" using i by (simp_all add: mark_handled_fields)
  have ack0: "acked ?m h = acked p h" for h by (simp add: acked_def mark_handled_fields)
  have ack: "acked ?q h = (if h = seTask ?s then insert (seTo ?s) (acked p h) else acked p h)" for h
    using acked_set_send [OF i', of "Done True" h] st by (simp add: ack0 s)
  have "ptHandled (prTasks ?q ! h) = acked ?q h" if "h < length (prTasks ?q)" for h
    using that inv unfolding ack task len by (auto simp: pr_inv_def)
  moreover have "seTask x < length (prTasks ?q) \<and>
      (seStatus x \<in> {InFlight, Done True} \<longrightarrow> ptSource (prTasks ?q ! seTask x) \<noteq> Some (seTo x))" if "x \<in> set (prSends ?q)" for x
  proof -
    have "x \<in> set (prSends p) \<or> x = ?s\<lparr>seStatus := Done True\<rparr>"
      using set_send_mem [OF i' that] by (simp add: mark_handled_fields)
    then show ?thesis unfolding task len using inv h by (auto simp: pr_inv_def)
  qed
  moreover have "store_ok (prStore ?q)" using inv store_ok_remove by (simp add: pr_inv_def mark_handled_fields)
  ultimately show ?thesis by (simp add: pr_inv_def)
qed

lemma pr_inv_end: "pr_inv p \<Longrightarrow> pr_inv (send_end p i ok)"
  unfolding send_end_def Let_def by (auto intro!: pr_inv_set_send pr_inv_success)

lemma new_task_fresh [simp]: "ptHandled (new_task m src) = {}" "ptSource (new_task m src) = src" "ptMessage (new_task m src) = m"
  by (simp_all add: new_task_def)

lemma pr_inv_step: "pr_inv p \<Longrightarrow> pr_inv (pr_step p e)"
proof (cases e)
  case (Feed m ts src now)
  assume inv: "pr_inv p"
  then obtain s where s: "ts_add (prStore p) (new_task m src) now = Inr s" "store_ok s"
    using ts_add_step [of "prStore p" "new_task m src" now] by (auto simp: pr_inv_def)
  then have "pr_step p e = pr_extend p s [new_task m src] (if prClosed p then [] else map (Pair (length (prTasks p))) ts)"
    by (simp add: Feed pr_step_def feed_extends)
  then show ?thesis by (simp only:) (rule pr_inv_extend [OF inv s(2)], auto split: if_splits)
next
  case (FeedAndCollect m ts src now)
  assume inv: "pr_inv p"
  then obtain s where s: "ts_add (prStore p) (new_task m src) now = Inr s" "store_ok s"
    using ts_add_step [of "prStore p" "new_task m src" now] by (auto simp: pr_inv_def)
  then have "pr_step p e = pr_extend p s [new_task m src] (map (Pair (length (prTasks p))) ts)"
    by (simp add: FeedAndCollect pr_step_def collect_extends)
  then show ?thesis by (simp only:) (rule pr_inv_extend [OF inv s(2)], auto split: if_splits)
next
  case (Joined n now)
  assume inv: "pr_inv p"
  then have "store_ok (prStore p)" by (simp add: pr_inv_def)
  note g = ts_get_step [OF this, where now = now]
  show ?thesis unfolding Joined pr_step_def pr_event.case joined_extends
    by (rule pr_inv_extend [OF inv g]) (auto split: if_splits)
qed (auto simp: pr_step_def pr_inv_begin pr_inv_end pr_stop_def, simp add: pr_inv_def acked_def)

lemma pr_inv_create: "pr_inv (pr_create n ttl mx c)"
  by (simp add: pr_inv_def pr_create_def store_ok_create)

interpretation pr: op_machine pr_step pr_inv "\<lambda>_. True"
  by unfold_locales (rule pr_inv_step)


section \<open>What the steps of a send leave alone\<close>

definition same_shape :: "propagation \<Rightarrow> propagation \<Rightarrow> bool" where
  "same_shape p q \<longleftrightarrow>
     prMin q = prMin p \<and> length (prSends q) = length (prSends p) \<and> length (prTasks q) = length (prTasks p) \<and>
     (\<forall>k < length (prSends p). seTask (prSends q ! k) = seTask (prSends p ! k) \<and> seTo (prSends q ! k) = seTo (prSends p ! k)) \<and>
     (\<forall>h. h < length (prTasks p) \<longrightarrow> ptSource (prTasks q ! h) = ptSource (prTasks p ! h) \<and> ptMessage (prTasks q ! h) = ptMessage (prTasks p ! h))"

lemma same_shape_refl: "same_shape p p"
  by (simp add: same_shape_def)

lemma same_shape_set_send: "same_shape p (set_send p i st)"
  by (auto simp: same_shape_def set_send_def nth_update_if)

lemma same_shape_begin: "same_shape p (send_begin p i)"
  by (simp add: send_begin_def Let_def same_shape_refl same_shape_set_send)

lemma same_shape_end: "same_shape p (send_end p i ok)"
  by (auto simp: send_end_def same_shape_def set_send_def mark_handled_fields Let_def nth_update_if)

lemma begin_status:
  assumes "k < length (prSends p)"
  shows "seStatus (prSends (send_begin p i) ! k) =
    (if k = i \<and> seStatus (prSends p ! k) = Scheduled
     then (if seTo (prSends p ! k) \<in> ptHandled (prTasks p ! seTask (prSends p ! k)) \<or>
              ptSource (prTasks p ! seTask (prSends p ! k)) = Some (seTo (prSends p ! k)) then Done False else InFlight)
     else seStatus (prSends p ! k))"
  using assms by (auto simp: send_begin_def Let_def set_send_def nth_update_if)

lemma end_status:
  assumes "k < length (prSends p)"
  shows "seStatus (prSends (send_end p i ok) ! k) =
    (if k = i \<and> seStatus (prSends p ! k) = InFlight then Done ok else seStatus (prSends p ! k))"
  using assms by (auto simp: send_end_def Let_def set_send_def mark_handled_fields nth_update_if)

text \<open>Every step of the node or of a send either extends the state or keeps its shape.\<close>

lemma pr_step_cases:
  assumes "pr_inv p"
  obtains (extend) s new xs where "pr_step p e = pr_extend p s new xs"
      "\<And>h n. (h, n) \<in> set xs \<Longrightarrow> length (prTasks p) \<le> h"
  | (start) i where "e = Begin i" "pr_step p e = send_begin p i"
  | (finish) i ok where "e = End i ok" "pr_step p e = send_end p i ok"
  | (stopped) "pr_step p e = p\<lparr>prClosed := True\<rparr>"
proof (cases e)
  case (Feed m ts src now)
  obtain s where "ts_add (prStore p) (new_task m src) now = Inr s"
    using ts_add_step [of "prStore p" "new_task m src" now] assms by (auto simp: pr_inv_def)
  then have "pr_step p e = pr_extend p s [new_task m src] (if prClosed p then [] else map (Pair (length (prTasks p))) ts)"
    by (simp add: Feed pr_step_def feed_extends)
  then show thesis by (rule extend) (auto split: if_splits)
next
  case (FeedAndCollect m ts src now)
  obtain s where "ts_add (prStore p) (new_task m src) now = Inr s"
    using ts_add_step [of "prStore p" "new_task m src" now] assms by (auto simp: pr_inv_def)
  then have "pr_step p e = pr_extend p s [new_task m src] (map (Pair (length (prTasks p))) ts)"
    by (simp add: FeedAndCollect pr_step_def collect_extends)
  then show thesis by (rule extend) auto
next
  case (Joined n now)
  show thesis
  proof (rule extend)
    show "pr_step p e = pr_extend p (fst (ts_get (prStore p) now)) (snd (ts_get (prStore p) now))
     (if prClosed p then [] else
        map (\<lambda>h. (h, n)) [length (prTasks p)..<length (prTasks p) + length (snd (ts_get (prStore p) now))])"
      by (simp add: Joined pr_step_def joined_extends)
  qed (auto split: if_splits)
qed (use start finish stopped in \<open>auto simp: pr_step_def pr_stop_def\<close>)

section \<open>One batch of sends\<close>

definition batch_good :: "DhtAddress option \<Rightarrow> (nat \<Rightarrow> bool) \<Rightarrow> DhtAddress \<Rightarrow> nat \<Rightarrow> bool" where
  "batch_good src ok n i \<longleftrightarrow> src \<noteq> Some n \<and> ok i"

definition batch_ok ::
  "nat \<Rightarrow> DhtAddress list \<Rightarrow> nat \<Rightarrow> DhtAddress option \<Rightarrow> (nat \<Rightarrow> bool) \<Rightarrow> propagation \<Rightarrow> bool" where
  "batch_ok first targets h src ok q \<longleftrightarrow>
     first + length targets \<le> length (prSends q) \<and> h < length (prTasks q) \<and> ptSource (prTasks q ! h) = src \<and>
     (\<forall>j < length targets. seTask (prSends q ! (first + j)) = h \<and> seTo (prSends q ! (first + j)) = targets ! j \<and>
        (\<forall>b. seStatus (prSends q ! (first + j)) = Done b \<longrightarrow> b = batch_good src ok (targets ! j) (first + j))) \<and>
     (\<forall>k < length (prSends q). seTask (prSends q ! k) = h \<longrightarrow> first \<le> k \<and> k < first + length targets)"

lemma batch_not_handled:
  assumes inv: "pr_inv q" and b: "batch_ok first targets h src ok q" and d: "distinct targets"
    and j: "j < length targets" and st: "seStatus (prSends q ! (first + j)) \<noteq> Done True"
  shows "targets ! j \<notin> ptHandled (prTasks q ! h)"
proof
  assume "targets ! j \<in> ptHandled (prTasks q ! h)"
  then have "targets ! j \<in> acked q h" using inv b by (simp add: pr_inv_def batch_ok_def)
  then obtain k where k: "k < length (prSends q)" "targets ! j = seTo (prSends q ! k)" "seTask (prSends q ! k) = h"
      "seStatus (prSends q ! k) = Done True"
    unfolding acked_nth by blast
  then have "first \<le> k \<and> k < first + length targets" using b by (simp add: batch_ok_def)
  then obtain j' where j': "k = first + j'" "j' < length targets" by (metis le_Suc_ex nat_add_left_cancel_less)
  then have "targets ! j' = targets ! j" using b k(2) by (simp add: batch_ok_def)
  then have "j' = j" using d j j'(2) by (simp add: nth_eq_iff_index_eq)
  then show False using st k(4) j'(1) by simp
qed

lemma batch_ok_shape:
  assumes b: "batch_ok first targets h src ok q" and sh: "same_shape q r"
    and st: "\<And>j c. j < length targets \<Longrightarrow> seStatus (prSends r ! (first + j)) = Done c \<Longrightarrow> c = batch_good src ok (targets ! j) (first + j)"
  shows "batch_ok first targets h src ok r"
  using b sh st by (auto simp: batch_ok_def same_shape_def)

lemma batch_ok_extend:
  assumes b: "batch_ok first targets h src ok q" and xs: "\<And>h n. (h, n) \<in> set xs \<Longrightarrow> length (prTasks q) \<le> h"
  shows "batch_ok first targets h src ok (pr_extend q s new xs)"
proof -
  let ?r = "pr_extend q s new xs"
  have old: "prSends ?r ! k = prSends q ! k" if "k < length (prSends q)" for k
    using that by (simp add: pr_extend_def nth_append)
  have h: "h < length (prTasks q)" using b by (simp add: batch_ok_def)
  have "seTask (prSends ?r ! k) \<noteq> h" if "length (prSends q) \<le> k" "k < length (prSends ?r)" for k
  proof -
    have k: "k - length (prSends q) < length xs" using that by (simp add: pr_extend_def)
    then have "seTask (prSends ?r ! k) = fst (xs ! (k - length (prSends q)))"
      using that by (simp add: pr_extend_def nth_append new_send_def split_beta)
    moreover have "length (prTasks q) \<le> fst (xs ! (k - length (prSends q)))"
      using xs [of "fst (xs ! (k - length (prSends q)))" "snd (xs ! (k - length (prSends q)))"] k by simp
    ultimately show ?thesis using h by simp
  qed
  then have only: "first \<le> k \<and> k < first + length targets" if "k < length (prSends ?r)" "seTask (prSends ?r ! k) = h" for k
    using that b old [of k] by (cases "k < length (prSends q)") (auto simp: batch_ok_def)
  have len: "first + length targets \<le> length (prSends q)" "length (prSends q) \<le> length (prSends ?r)"
    using b by (simp_all add: batch_ok_def pr_extend_def)
  have "prSends ?r ! (first + j) = prSends q ! (first + j)" if "j < length targets" for j
    using that len by (intro old) simp
  moreover have "h < length (prTasks ?r)" "prTasks ?r ! h = prTasks q ! h"
    using h by (simp_all add: pr_extend_def nth_append)
  ultimately show ?thesis using b len only unfolding batch_ok_def by simp
qed

lemma batch_ok_step:
  assumes inv: "pr_inv q" and b: "batch_ok first targets h src ok q" and d: "distinct targets"
    and e: "\<And>i c. e = End i c \<Longrightarrow> c = ok i"
  shows "batch_ok first targets h src ok (pr_step q e)"
  using inv
proof (cases rule: pr_step_cases [where e = e])
  case (extend s new xs)
  then show ?thesis using batch_ok_extend [OF b, of xs s new] by auto
next
  case (start i)
  have len: "first + j < length (prSends q)" if "j < length targets" for j using that b by (simp add: batch_ok_def)
  show ?thesis unfolding start(2)
  proof (rule batch_ok_shape [OF b same_shape_begin])
    fix j c
    assume j: "j < length targets" and c: "seStatus (prSends (send_begin q i) ! (first + j)) = Done c"
    then show "c = batch_good src ok (targets ! j) (first + j)"
      using begin_status [OF len [OF j], of i] batch_not_handled [OF inv b d j] b
      by (auto simp: batch_ok_def batch_good_def split: if_splits)
  qed
next
  case (finish i c')
  have len: "first + j < length (prSends q)" if "j < length targets" for j using that b by (simp add: batch_ok_def)
  show ?thesis unfolding finish(2)
  proof (rule batch_ok_shape [OF b same_shape_end])
    fix j c
    assume j: "j < length targets" and c: "seStatus (prSends (send_end q i c') ! (first + j)) = Done c"
    have "src \<noteq> Some (targets ! j)" if "seStatus (prSends q ! (first + j)) = InFlight"
      using that inv b j len [OF j] nth_mem [OF len [OF j]] unfolding pr_inv_def batch_ok_def by (metis insertI1)
    then show "c = batch_good src ok (targets ! j) (first + j)"
      using c end_status [OF len [OF j], of i c'] b j e [OF finish(1)]
      by (auto simp: batch_ok_def batch_good_def split: if_splits)
  qed
next
  case stopped
  then show ?thesis using b by (simp add: batch_ok_def)
qed


lemma batch_ok_start:
  assumes inv: "pr_inv p" and f: "feedUnseenMessageAndCollect p m targets src now = Inr (q, first)"
  shows "pr_inv q" "batch_ok first targets (length (prTasks p)) src ok q"
proof -
  obtain s where q: "q = pr_extend p s [new_task m src] (map (Pair (length (prTasks p))) targets)" "first = length (prSends p)"
    using f by (auto simp: collect_extends split: sum.splits)
  have "pr_step p (FeedAndCollect m targets src now) = q" using f by (simp add: pr_step_def)
  then show "pr_inv q" using pr_inv_step [OF inv] by metis
  have "seTask (prSends p ! k) \<noteq> length (prTasks p)" if "k < length (prSends p)" for k
    using inv nth_mem [OF that] unfolding pr_inv_def by (metis less_irrefl)
  then show "batch_ok first targets (length (prTasks p)) src ok q"
    by (auto simp: q batch_ok_def pr_extend_def nth_append new_send_def)
qed

lemma batch_ok_run:
  assumes "pr_inv q" "batch_ok first targets h src ok q" "distinct targets" "\<And>i c. End i c \<in> set evs \<Longrightarrow> c = ok i"
  shows "batch_ok first targets h src ok (foldl pr_step q evs)"
  using assms(1,2,4)
proof (induction evs arbitrary: q)
  case (Cons e evs)
  have "batch_ok first targets h src ok (pr_step q e)"
    using batch_ok_step [OF Cons.prems(1,2) assms(3), of e] Cons.prems(3) by auto
  then show ?case using Cons.IH [OF pr_inv_step [OF Cons.prems(1)]] Cons.prems(3) by simp
qed simp

lemma filter_zip_cong:
  assumes "length xs = length ys" "length ys = length zs" "\<And>j. j < length ys \<Longrightarrow> P (xs ! j, ys ! j) \<longleftrightarrow> Q (xs ! j, zs ! j)"
  shows "map fst (filter P (zip xs ys)) = map fst (filter Q (zip xs zs))"
  using assms
proof (induction xs ys zs rule: list_induct3)
  case (Cons x xs y ys z zs)
  have "P (x, y) \<longleftrightarrow> Q (x, z)" using Cons.prems [of 0] by simp
  moreover have "map fst (filter P (zip xs ys)) = map fst (filter Q (zip xs zs))" using Cons.IH Cons.prems [of "Suc _"] by simp
  ultimately show ?case by simp
qed simp

text \<open>The answer for one batch.\<close>

lemma collect_batch:
  assumes inv: "pr_inv p" and f: "feedUnseenMessageAndCollect p m targets src now = Inr (q, first)"
    and d: "distinct targets" and ok: "\<And>i c. End i c \<in> set evs \<Longrightarrow> c = ok i"
    and c: "collectResults (foldl pr_step q evs) first targets = Some (failed, successful)"
  shows "successful = map fst (filter (\<lambda>(n, i). src \<noteq> Some n \<and> ok i) (zip targets [first..<first + length targets])) \<and>
    failed = map fst (filter (\<lambda>(n, i). \<not> (src \<noteq> Some n \<and> ok i)) (zip targets [first..<first + length targets]))"
proof -
  let ?r = "foldl pr_step q evs"
  let ?res = "take (length targets) (drop first (prSends ?r))"
  note b0 = batch_ok_start [OF inv f]
  have b: "batch_ok first targets (length (prTasks p)) src ok ?r" by (rule batch_ok_run [OF b0 d ok])
  have "first + length targets \<le> length (prSends ?r)" using b by (simp add: batch_ok_def)
  then have len: "length ?res = length targets" by (simp add: min_def) linarith
  have all: "list_all send_done ?res" using c by (auto simp: collectResults_def Let_def split: if_splits)
  have st: "seStatus (?res ! j) = Done (batch_good src ok (targets ! j) (first + j))" if "j < length targets" for j
  proof -
    have "?res ! j = prSends ?r ! (first + j)" using that b by (simp add: batch_ok_def)
    moreover have "send_done (?res ! j)" using all that len by (metis list_all_length)
    then obtain x where "seStatus (?res ! j) = Done x" by (auto simp: send_done_def split: send_status.splits)
    ultimately show ?thesis using b that by (auto simp: batch_ok_def)
  qed
  have "successful = map fst (filter (\<lambda>(n, s). seStatus s = Done True) (zip targets ?res))"
    "failed = map fst (filter (\<lambda>(n, s). seStatus s \<noteq> Done True) (zip targets ?res))"
    using c all by (auto simp: collectResults_def Let_def)
  then show ?thesis
    using filter_zip_cong [of targets ?res "[first..<first + length targets]" "\<lambda>(n, s). seStatus s = Done True" "\<lambda>(n, i). src \<noteq> Some n \<and> ok i"]
      filter_zip_cong [of targets ?res "[first..<first + length targets]" "\<lambda>(n, s). seStatus s \<noteq> Done True" "\<lambda>(n, i). \<not> (src \<noteq> Some n \<and> ok i)"]
      len st by (simp add: batch_good_def)
qed

text \<open>Sends that run to their end one after the other.\<close>

definition runs_of :: "(nat \<Rightarrow> bool) \<Rightarrow> nat list \<Rightarrow> pr_event list" where
  "runs_of ok is = concat (map (\<lambda>i. [Begin i, End i (ok i)]) is)"

lemma status_done_run:
  assumes "k < length (prSends q)" "k \<in> set is \<or> send_done (prSends q ! k)"
  shows "send_done (prSends (foldl pr_step q (runs_of ok is)) ! k) \<and> length (prSends (foldl pr_step q (runs_of ok is))) = length (prSends q) \<and>
    (\<forall>j < length (prSends q). seTo (prSends (foldl pr_step q (runs_of ok is)) ! j) = seTo (prSends q ! j))"
  using assms
proof (induction "is" arbitrary: q)
  case (Cons i "is")
  let ?r = "send_end (send_begin q i) i (ok i)"
  have shape: "same_shape q (send_begin q i)" "same_shape (send_begin q i) ?r" by (rule same_shape_begin, rule same_shape_end)
  have k: "k < length (prSends ?r)" using Cons.prems(1) shape by (simp add: same_shape_def)
  have "send_done (prSends ?r ! k)" if "k = i \<or> send_done (prSends q ! k)"
    using that begin_status [OF Cons.prems(1), of i] end_status [of k "send_begin q i" i "ok i"] Cons.prems(1) shape
    by (auto simp: send_done_def same_shape_def split: send_status.splits)
  then have "k \<in> set is \<or> send_done (prSends ?r ! k)" using Cons.prems(2) by auto
  from Cons.IH [OF k this] show ?case using shape by (simp add: runs_of_def pr_step_def same_shape_def)
qed (simp add: runs_of_def)

section \<open>Properties\<close>

text \<open>
  C32. In every run of a node and every interleaving of its sends, a message is never sent to the neighbour it
  came from, and a task counts exactly the neighbours that have acknowledged it.
\<close>

theorem propagation_safe:
  assumes "p = foldl pr_step (pr_create minTargets ttl maxMessages counter) evs" and "s \<in> set (prSends p)"
  shows "seTask s < length (prTasks p) \<and>
    (seStatus s \<in> {InFlight, Done True} \<longrightarrow> ptSource (prTasks p ! seTask s) \<noteq> Some (seTo s)) \<and>
    ptHandled (prTasks p ! seTask s) = {seTo r | r. r \<in> set (prSends p) \<and> seTask r = seTask s \<and> seStatus r = Done True}"
proof -
  have "pr_inv p" unfolding assms(1) by (rule pr.run_inv [OF pr_inv_create]) (simp add: list_all_iff)
  then show ?thesis using assms(2) unfolding pr_inv_def acked_def by blast
qed

text \<open>
  C12. The answer of \<^verbatim>\<open>feedUnseenMessageAndCollect\<close> is determined by the outcome of each network call,
  whatever else happens meanwhile and in whatever order the sends run: with distinct targets, exactly
  the targets that are not the source and whose call succeeded are reported as successful, and the
  others as failed, both in the order of the targets.
\<close>

theorem collect_outcome:
  assumes p: "p = foldl pr_step (pr_create minTargets ttl maxMessages counter) evs0"
    and f: "feedUnseenMessageAndCollect p m targets src now = Inr (q, first)"
    and d: "distinct targets" and ok: "\<And>i c. End i c \<in> set evs \<Longrightarrow> c = ok i"
    and c: "collectResults (foldl pr_step q evs) first targets = Some (failed, successful)"
  shows "successful = map fst (filter (\<lambda>(n, i). src \<noteq> Some n \<and> ok i) (zip targets [first..<first + length targets])) \<and>
    failed = map fst (filter (\<lambda>(n, i). \<not> (src \<noteq> Some n \<and> ok i)) (zip targets [first..<first + length targets]))"
proof -
  have "pr_inv p" unfolding p by (rule pr.run_inv [OF pr_inv_create]) (simp add: list_all_iff)
  from collect_batch [OF this f d ok c] show ?thesis .
qed


text \<open>A concrete node: two targets, the second of which is the source.\<close>

definition demo_message :: "string \<Rightarrow> StreamMessage" where
  "demo_message c =
     \<lparr>smMessageId = \<lparr>mid_timestamp = 5, mid_sequenceNumber = 0, mid_publisherId = [1], mid_messageChainId = c\<rparr>, smRest = []\<rparr>"

definition demo_start :: propagation where
  "demo_start = pr_create 2 None None 1"

definition demo_events :: "pr_event list" where
  "demo_events = [Begin 0, Begin 1, End 0 True]"

lemma demo_collect:
  "\<exists>q. feedUnseenMessageAndCollect demo_start (demo_message ''c'') [''a'', ''b''] (Some ''b'') 0 = Inr (q, 0) \<and>
     collectResults (foldl pr_step q demo_events) 0 [''a'', ''b''] = Some ([''b''], [''a'']) \<and>
     prSends (foldl pr_step q demo_events) =
       [\<lparr>seTask = 0, seTo = ''a'', seStatus = Done True\<rparr>, \<lparr>seTask = 0, seTo = ''b'', seStatus = Done False\<rparr>]"
  by (simp add: feedUnseenMessageAndCollect_def demo_start_def pr_create_def ts_create_def fm_create_def ts_add_def fm_set_def fm_remove_def
      om_find_def fm_add_def raq_push_def om_emplace_def om_contains_def DEFAULT_TTL_def DEFAULT_MAX_MESSAGES_def Let_def demo_events_def
      pr_step_def send_begin_def send_end_def set_send_def new_send_def mark_handled_def new_task_def collectResults_def send_done_def)


theorem collect_outcome_witness:
  "\<exists>q. feedUnseenMessageAndCollect demo_start (demo_message ''c'') [''a'', ''b''] (Some ''b'') 0 = Inr (q, 0) \<and>
     collectResults (foldl pr_step q demo_events) 0 [''a'', ''b''] = Some ([''b''], [''a'']) \<and>
     [''a''] = map fst (filter (\<lambda>(n, i). Some ''b'' \<noteq> Some n \<and> True) (zip [''a'', ''b''] [0..<0 + length [''a'', ''b'']]))"
proof -
  have p: "demo_start = foldl pr_step (pr_create 2 None None 1) []" by (simp add: demo_start_def)
  obtain q where q: "feedUnseenMessageAndCollect demo_start (demo_message ''c'') [''a'', ''b''] (Some ''b'') 0 = Inr (q, 0)"
    "collectResults (foldl pr_step q demo_events) 0 [''a'', ''b''] = Some ([''b''], [''a''])"
    using demo_collect by blast
  have d: "distinct [''a'', ''b'']" by simp
  have e: "c = (\<lambda>_. True) i" if "End i c \<in> set demo_events" for i c using that by (simp add: demo_events_def)
  show ?thesis using q conjunct1 [OF collect_outcome [OF p q(1) d e q(2)]] by (intro exI [of _ q] conjI) assumption+
qed

theorem propagation_safe_witness:
  "\<exists>(p :: propagation) (s :: send). s \<in> set (prSends p) \<and> seStatus s = Done True \<and> ptSource (prTasks p ! seTask s) \<noteq> Some (seTo s)"
proof -
  obtain q where q: "feedUnseenMessageAndCollect demo_start (demo_message ''c'') [''a'', ''b''] (Some ''b'') 0 = Inr (q, 0)"
    "prSends (foldl pr_step q demo_events) =
       [\<lparr>seTask = 0, seTo = ''a'', seStatus = Done True\<rparr>, \<lparr>seTask = 0, seTo = ''b'', seStatus = Done False\<rparr>]"
    using demo_collect by blast
  let ?evs = "FeedAndCollect (demo_message ''c'') [''a'', ''b''] (Some ''b'') 0 # demo_events"
  have p: "foldl pr_step q demo_events = foldl pr_step (pr_create 2 None None 1) ?evs"
    using q(1) by (simp add: pr_step_def demo_start_def)
  have "\<lparr>seTask = 0, seTo = ''a'', seStatus = Done True\<rparr> \<in> set (prSends (foldl pr_step q demo_events))" by (simp add: q(2))
  from propagation_safe [OF p this] this show ?thesis
    by (intro exI [of _ "foldl pr_step q demo_events"] exI [of _ "\<lparr>seTask = 0, seTo = ''a'', seStatus = Done True\<rparr>"]) simp
qed

text \<open>
  A successful send removes the task of its message from the store exactly when the number of distinct neighbours
  that have acknowledged the task, this one included, reaches the minimum; otherwise the store does not change.
\<close>

theorem success_completes_task:
  assumes p: "p = foldl pr_step (pr_create minTargets ttl maxMessages counter) evs"
    and i: "i < length (prSends p)" "seStatus (prSends p ! i) = InFlight"
    and h: "h = seTask (prSends p ! i)" and q: "q = pr_step p (End i True)"
  shows "seStatus (prSends q ! i) = Done True \<and>
    prStore q = (if prMin p \<le> card {seTo r | r. r \<in> set (prSends q) \<and> seTask r = h \<and> seStatus r = Done True}
                 then ts_remove (prStore p) (task_ref (prTasks p ! h)) else prStore p)"
proof -
  have inv: "pr_inv p" unfolding p by (rule pr.run_inv [OF pr_inv_create]) (simp add: list_all_iff)
  let ?m = "mark_handled p h (seTo (prSends p ! i))"
  have q': "q = set_send ?m i (Done True)" using i by (simp add: q h pr_step_def send_end_def Let_def)
  have "h < length (prTasks p)" using inv i nth_mem [OF i(1)] by (auto simp: h pr_inv_def)
  then have "ptHandled (prTasks p ! h) = acked p h" using inv by (simp add: pr_inv_def)
  moreover have "acked q h = insert (seTo (prSends p ! i)) (acked p h)"
    using acked_set_send [of i ?m "Done True" h] i by (simp add: q' mark_handled_fields h) (simp add: acked_def mark_handled_fields)
  ultimately have "prStore q = (if prMin p \<le> card (acked q h) then ts_remove (prStore p) (task_ref (prTasks p ! h)) else prStore p)"
    by (simp add: q' mark_handled_fields)
  moreover have "seStatus (prSends q ! i) = Done True" using i by (simp add: q' set_send_def mark_handled_fields)
  ultimately show ?thesis unfolding acked_def by blast
qed

theorem success_completes_task_witness:
  "\<exists>p i. i < length (prSends p) \<and> seStatus (prSends p ! i) = InFlight \<and> seStatus (prSends (pr_step p (End i True)) ! i) = Done True"
proof -
  let ?p = "foldl pr_step (pr_create 2 None None 1) [Feed (demo_message ''c'') [''a''] None 0, Begin 0]"
  have "prSends ?p = [\<lparr>seTask = 0, seTo = ''a'', seStatus = InFlight\<rparr>]"
    by (simp add: feedUnseenMessage_def pr_create_def ts_create_def fm_create_def ts_add_def fm_set_def fm_remove_def scheduleSend_def
      om_find_def fm_add_def raq_push_def om_emplace_def om_contains_def DEFAULT_TTL_def DEFAULT_MAX_MESSAGES_def Let_def
      pr_step_def send_begin_def set_send_def new_send_def new_task_def)
  then have i: "0 < length (prSends ?p)" "seStatus (prSends ?p ! 0) = InFlight" by simp_all
  show ?thesis using success_completes_task [OF refl i refl refl] i by blast
qed


section \<open>Retries\<close>

text \<open>
  The states reached from one without running sends by retries alone: every unfinished send has a task of its own.
\<close>

definition retry_ok :: "task_store \<Rightarrow> propagation \<Rightarrow> bool" where
  "retry_ok S q \<longleftrightarrow> prStore q = S \<and> 2 \<le> prMin q \<and>
     (\<forall>k < length (prSends q). \<not> send_done (prSends q ! k) \<longrightarrow>
        (\<forall>j < length (prSends q). seTask (prSends q ! j) = seTask (prSends q ! k) \<longrightarrow> j = k))"

definition retry_event :: "task_store \<Rightarrow> pr_event \<Rightarrow> bool" where
  "retry_event S e \<longleftrightarrow>
     (case e of
        Feed _ _ _ _ \<Rightarrow> False
      | FeedAndCollect _ _ _ _ \<Rightarrow> False
      | Joined n now \<Rightarrow> (\<forall>(k, it) \<in> set (fmItems S). now k < fiExpiresAt it)
      | _ \<Rightarrow> True)"

lemma retry_ok_shape:
  assumes r: "retry_ok S q" and sh: "same_shape q q'" and st: "prStore q' = S"
    and fin: "\<And>k. k < length (prSends q) \<Longrightarrow> send_done (prSends q ! k) \<Longrightarrow> send_done (prSends q' ! k)"
  shows "retry_ok S q'"
  using r sh st fin unfolding retry_ok_def same_shape_def by metis

lemma retry_ok_joined:
  assumes inv: "pr_inv q" and r: "retry_ok S q" and e: "retry_event S (Joined n now)"
  shows "retry_ok S (onNeighborJoined q n now)"
proof -
  let ?q = "onNeighborJoined q n now" and ?L = "length (prTasks q)"
  have "fm_inv S" using inv r by (auto simp: pr_inv_def store_ok_def retry_ok_def)
  then have "fst (fm_values (\<lambda>t. t) S now) = S"
    using e by (intro fm_values_step(4)) (auto simp: retry_event_def dest: om_find_in_set)
  then have store: "prStore ?q = S" "prMin ?q = prMin q"
    using r by (simp_all add: joined_extends pr_extend_def retry_ok_def ts_get_def)
  obtain m where sends: "prSends ?q = prSends q @ map (\<lambda>h. new_send h n) [?L..<m]"
    by (cases "prClosed q") (force simp: joined_extends pr_extend_def comp_def)+
  have old: "seTask (prSends ?q ! k) < ?L" if "k < length (prSends q)" for k
    using that inv nth_mem [OF that] by (auto simp: sends nth_append pr_inv_def)
  have new: "seTask (prSends ?q ! k) = ?L + (k - length (prSends q))" if "length (prSends q) \<le> k" "k < length (prSends ?q)" for k
  proof -
    have "?L + (k - length (prSends q)) < m" using that by (simp add: sends)
    then have "[?L..<m] ! (k - length (prSends q)) = ?L + (k - length (prSends q))" by (rule nth_upt)
    moreover have "prSends ?q ! k = new_send ([?L..<m] ! (k - length (prSends q))) n"
      using that by (simp add: sends nth_append)
    ultimately show ?thesis by (simp only: new_send_def send.select_convs)
  qed
  have "j = k" if k: "k < length (prSends ?q)" "\<not> send_done (prSends ?q ! k)" and j: "j < length (prSends ?q)"
    "seTask (prSends ?q ! j) = seTask (prSends ?q ! k)" for j k
  proof (cases "k < length (prSends q)")
    case True
    have "j < length (prSends q)" using old [OF True] new [of j] j by (metis not_add_less1 not_less)
    then show ?thesis using True k j r by (simp add: sends nth_append retry_ok_def)
  next
    case False
    then have "length (prSends q) \<le> j" using old [of j] new [of k] j k(1) by (metis not_add_less1 not_less)
    then show ?thesis using False new [of j] new [of k] j k(1) by simp
  qed
  then show ?thesis using r store unfolding retry_ok_def by metis
qed

lemma retry_ok_end:
  assumes inv: "pr_inv q" and r: "retry_ok S q"
  shows "retry_ok S (send_end q i ok)"
proof (rule retry_ok_shape [OF r same_shape_end])
  show "send_done (prSends (send_end q i ok) ! k)" if "k < length (prSends q)" "send_done (prSends q ! k)" for k
    using end_status [OF that(1), of i ok] that(2) by (auto simp: send_done_def split: send_status.splits if_splits)
  show "prStore (send_end q i ok) = S"
  proof (cases "i < length (prSends q) \<and> seStatus (prSends q ! i) = InFlight \<and> ok")
    case True
    let ?h = "seTask (prSends q ! i)"
    have "?h < length (prTasks q)" using inv True nth_mem [of i "prSends q"] by (auto simp: pr_inv_def)
    moreover have "acked q ?h = {}"
    proof -
      have "\<not> send_done (prSends q ! i)" using True by (simp add: send_done_def)
      then have "j = i" if "j < length (prSends q)" "seTask (prSends q ! j) = ?h" for j
        using r that True unfolding retry_ok_def by blast
      then show ?thesis unfolding acked_nth using True by fastforce
    qed
    ultimately have "ptHandled (prTasks q ! ?h) = {}" using inv by (simp add: pr_inv_def)
    then show ?thesis using True r by (simp add: send_end_def Let_def mark_handled_fields retry_ok_def)
  next
    case False
    then show ?thesis using r by (auto simp: send_end_def Let_def retry_ok_def)
  qed
qed

lemma retry_ok_begin:
  assumes r: "retry_ok S q"
  shows "retry_ok S (send_begin q i)"
proof (rule retry_ok_shape [OF r same_shape_begin])
  show "prStore (send_begin q i) = S" using r by (simp add: send_begin_def Let_def retry_ok_def)
  show "send_done (prSends (send_begin q i) ! k)" if "k < length (prSends q)" "send_done (prSends q ! k)" for k
    using begin_status [OF that(1), of i] that(2) by (auto simp: send_done_def split: send_status.splits if_splits)
qed

interpretation retry: op_machine pr_step "\<lambda>q. pr_inv q \<and> retry_ok S q" "retry_event S" for S
proof unfold_locales
  fix q e
  assume q: "pr_inv q \<and> retry_ok S q" and e: "retry_event S e"
  show "pr_inv (pr_step q e) \<and> retry_ok S (pr_step q e)"
  proof
    show "pr_inv (pr_step q e)" using q pr_inv_step by blast
    show "retry_ok S (pr_step q e)"
      using q e by (cases e) (auto simp: pr_step_def retry_ok_begin retry_ok_end retry_ok_joined pr_stop_def, auto simp: retry_event_def retry_ok_def)
  qed
qed


text \<open>
  With a minimum of two or more targets, retries never complete a task: once the sends of the first propagation
  are over, no number of joining neighbours and acknowledgements takes a task out of the store before it
  expires, because each retry counts on a copy of its own and the stored copy is never marked.
\<close>

theorem retries_never_complete:
  assumes p: "p = foldl pr_step (pr_create minTargets ttl maxMessages counter) evs0"
    and quiet: "list_all send_done (prSends p)" and two: "2 \<le> prMin p"
    and evs: "list_all (retry_event (prStore p)) evs"
  shows "prStore (foldl pr_step p evs) = prStore p"
proof -
  have "pr_inv p" unfolding p by (rule pr.run_inv [OF pr_inv_create]) (simp add: list_all_iff)
  moreover have "retry_ok (prStore p) p" using quiet two by (auto simp: retry_ok_def list_all_length)
  ultimately have "retry_ok (prStore p) (foldl pr_step p evs)"
    using retry.run_inv [where s = p and S = "prStore p" and ops = evs] evs by blast
  then show ?thesis by (simp add: retry_ok_def)
qed

definition demo_fed :: propagation where
  "demo_fed = foldl pr_step (pr_create 2 None None 1) [Feed (demo_message ''c'') [] None 0]"

lemma demo_fed_state:
  "prSends demo_fed = []" "prMin demo_fed = 2" "prClosed demo_fed = False" "length (prTasks demo_fed) = 1"
  "fmItems (prStore demo_fed) =
     [(MessageRef 5 0, \<lparr>fiValue = new_task (demo_message ''c'') None, fiToken = 1, fiExpiresAt = 10000\<rparr>)]"
  by (simp_all add: demo_fed_def feedUnseenMessage_def pr_create_def ts_create_def fm_create_def ts_add_def fm_set_def fm_remove_def scheduleSend_def
      om_find_def fm_add_def raq_push_def om_emplace_def om_contains_def DEFAULT_TTL_def DEFAULT_MAX_MESSAGES_def Let_def
      pr_step_def new_task_def messageIdToMessageRef_def demo_message_def)

text \<open>Three neighbours join and acknowledge; the task is still stored.\<close>

theorem retries_never_complete_witness:
  "prStore (foldl pr_step demo_fed
     [Joined ''a'' (\<lambda>_. 1), Joined ''b'' (\<lambda>_. 1), Joined ''c'' (\<lambda>_. 1), Begin 0, End 0 True, Begin 1, End 1 True, Begin 2, End 2 True]) =
   prStore demo_fed"
  by (rule retries_never_complete [OF demo_fed_def]) (simp_all add: demo_fed_state retry_event_def)

text \<open>
  A message that was fed while there was no neighbour is sent to a neighbour that joins before it expires; this holds for
  every minimum of targets, zero included.
\<close>

theorem late_neighbor_is_sent:
  assumes p: "p = foldl pr_step (pr_create minTargets ttl maxMessages counter) evs0"
    and room: "0 < fmMaxSize (prStore p)" and opened: "\<not> prClosed p"
    and f: "feedUnseenMessage p m [] src now = Inr q" and clock: "clk (messageIdToMessageRef (smMessageId m)) < now + fmTtl (prStore p)"
  shows "\<exists>s \<in> set (drop (length (prSends p)) (prSends (onNeighborJoined q n clk))).
    seTo s = n \<and> seStatus s = Scheduled \<and> prTasks (onNeighborJoined q n clk) ! seTask s = new_task m src"
proof -
  have inv: "pr_inv p" unfolding p by (rule pr.run_inv [OF pr_inv_create]) (simp add: list_all_iff)
  then have "store_ok (prStore p)" by (simp add: pr_inv_def)
  from ts_add_step [OF this, of "new_task m src" now] obtain s it where s: "ts_add (prStore p) (new_task m src) now = Inr s" "store_ok s"
    "om_find (fmItems s) (messageIdToMessageRef (smMessageId m)) = Some it" "fiValue it = new_task m src" "fiExpiresAt it = now + fmTtl (prStore p)"
    using room by auto
  have q: "q = pr_extend p s [new_task m src] []" using f s(1) by (auto simp: feed_extends split: if_splits)
  have "fm_live s clk (messageIdToMessageRef (smMessageId m)) = Some it" using s clock by (simp add: fm_live_def)
  then have "new_task m src \<in> set (snd (ts_get s clk))"
    using s(2,4) unfolding ts_get_def by (subst fm_values_step(3)) (auto simp: store_ok_def intro!: exI [of _ it])
  then obtain j where j: "j < length (snd (ts_get s clk))" "snd (ts_get s clk) ! j = new_task m src" by (auto simp: in_set_conv_nth)
  let ?q = "onNeighborJoined q n clk" and ?L = "length (prTasks q)"
  have st: "prStore q = s" "prClosed q = False" "prSends q = prSends p" using opened by (simp_all add: q pr_extend_def)
  have "prSends ?q = prSends p @ map (\<lambda>h. new_send h n) [?L..<?L + length (snd (ts_get s clk))]"
    using st by (simp add: joined_extends pr_extend_def comp_def)
  then have "new_send (?L + j) n \<in> set (drop (length (prSends p)) (prSends ?q))" using j(1) by auto
  moreover have "prTasks ?q ! (?L + j) = new_task m src" using st j by (simp add: joined_extends pr_extend_def)
  ultimately show ?thesis by (intro bexI [of _ "new_send (?L + j) n"]) (simp_all add: new_send_def)
qed

theorem late_neighbor_is_sent_witness:
  "\<exists>q. feedUnseenMessage (pr_create 0 None None 1) (demo_message ''c'') [] None 0 = Inr q \<and>
     (\<exists>s \<in> set (prSends (onNeighborJoined q ''a'' (\<lambda>_. 1))). seTo s = ''a'')"
proof -
  let ?p = "pr_create 0 None None 1"
  have p: "?p = foldl pr_step ?p []" by simp
  have r: "0 < fmMaxSize (prStore ?p)" "\<not> prClosed ?p" "(\<lambda>_. 1) (messageIdToMessageRef (smMessageId (demo_message ''c''))) < 0 + fmTtl (prStore ?p)"
    by (simp_all add: pr_create_def ts_create_def fm_create_def DEFAULT_MAX_MESSAGES_def DEFAULT_TTL_def)
  have "store_ok (prStore ?p)" by (simp add: pr_create_def store_ok_create)
  from ts_add_step [OF this, of "new_task (demo_message ''c'') None" 0]
  obtain q where q: "feedUnseenMessage ?p (demo_message ''c'') [] None 0 = Inr q" by (auto simp: feed_extends)
  from late_neighbor_is_sent [OF p r(1,2) q r(3), of "''a''"] show ?thesis
    using q by (auto dest: in_set_dropD)
qed

text \<open>
  The store's key is the time stamp and the sequence number alone: a message of another publisher with the same two
  replaces the one that was stored, which is then not sent to neighbours that join later.
\<close>

theorem equal_reference_replaces:
  assumes p: "p = foldl pr_step (pr_create minTargets ttl maxMessages counter) evs0" and room: "0 < fmMaxSize (prStore p)"
    and f: "feedUnseenMessage p m2 targets src now = Inr q"
    and same: "mid_timestamp (smMessageId m1) = mid_timestamp (smMessageId m2)"
      "mid_sequenceNumber (smMessageId m1) = mid_sequenceNumber (smMessageId m2)"
    and other: "mid_publisherId (smMessageId m1) \<noteq> mid_publisherId (smMessageId m2)"
  shows "\<forall>task \<in> set (snd (ts_get (prStore q) clk)). ptMessage task \<noteq> m1"
proof -
  have inv: "pr_inv p" unfolding p by (rule pr.run_inv [OF pr_inv_create]) (simp add: list_all_iff)
  then have "store_ok (prStore p)" by (simp add: pr_inv_def)
  from ts_add_step [OF this, of "new_task m2 src" now] obtain s it where s: "ts_add (prStore p) (new_task m2 src) now = Inr s" "store_ok s"
    "om_find (fmItems s) (messageIdToMessageRef (smMessageId m2)) = Some it" "fiValue it = new_task m2 src"
    using room by auto
  have q: "prStore q = s" using f s(1) by (auto simp: feed_extends pr_extend_def)
  have "ptMessage (fiValue it') \<noteq> m1" if "om_find (fmItems s) k = Some it'" for k it'
  proof
    assume m1: "ptMessage (fiValue it') = m1"
    then have "k = messageIdToMessageRef (smMessageId m2)"
      using that s(2) same by (auto simp: store_ok_def messageIdToMessageRef_def)
    then show False using that s(3,4) m1 other by auto
  qed
  moreover have "fm_inv s" using s(2) by (simp add: store_ok_def)
  ultimately show ?thesis unfolding q ts_get_def fm_values_step(3) [OF \<open>fm_inv s\<close>]
    by (auto simp: fm_live_def split: option.splits if_splits)
qed

theorem equal_reference_replaces_witness:
  "\<exists>q. feedUnseenMessage demo_fed ((demo_message ''c'')\<lparr>smMessageId := (smMessageId (demo_message ''c''))\<lparr>mid_publisherId := [2]\<rparr>\<rparr>) [] None 0 = Inr q \<and>
     list_all (\<lambda>task. ptMessage task \<noteq> demo_message ''c'') (snd (ts_get (prStore q) (\<lambda>_. 1)))"
proof -
  let ?m = "(demo_message ''c'')\<lparr>smMessageId := (smMessageId (demo_message ''c''))\<lparr>mid_publisherId := [2]\<rparr>\<rparr>"
  have inv: "pr_inv demo_fed" unfolding demo_fed_def by (rule pr.run_inv [OF pr_inv_create]) (simp add: list_all_iff)
  then have "store_ok (prStore demo_fed)" by (simp add: pr_inv_def)
  from ts_add_step [OF this, of "new_task ?m None" 0]
  obtain q where q: "feedUnseenMessage demo_fed ?m [] None 0 = Inr q" by (auto simp: feed_extends)
  have "fm_inv (prStore demo_fed)" using inv by (simp add: pr_inv_def store_ok_def)
  then have r: "0 < fmMaxSize (prStore demo_fed)" by (simp add: fm_inv_def demo_fed_state)
  have "\<forall>task \<in> set (snd (ts_get (prStore q) (\<lambda>_. 1))). ptMessage task \<noteq> demo_message ''c''"
    by (rule equal_reference_replaces [OF demo_fed_def r q]) (simp_all add: demo_message_def)
  then show ?thesis using q by (auto simp: list_all_iff)
qed

end
