(* ===== verification/Node_List.thy ===== *)
theory Node_List
  imports Identifiers
begin

text \<open>
  The insertion-ordered, bounded list of remote nodes (\<^verbatim>\<open>NodeList.cppm\<close>).  Every method is one locked
  section followed by its events; an operation returns the new list and the events it emits, in order.
\<close>

section \<open>The list\<close>

text \<open>
  A \<^verbatim>\<open>shared_ptr<ContentDeliveryRpcRemote>\<close>: the descriptor it answers with, and the identity of the object.
\<close>

record RpcRemote =
  getPeerDescriptor :: PeerDescriptor
  remoteObject :: nat

datatype node_list_event = NodeAdded DhtAddress RpcRemote | NodeRemoved DhtAddress RpcRemote

record node_list =
  nlNodes :: "(DhtAddress \<times> RpcRemote) list"
  nlLimit :: nat
  nlOwnId :: DhtAddress

abbreviation remoteId :: "hex_codec \<Rightarrow> RpcRemote \<Rightarrow> DhtAddress" where
  "remoteId hx r \<equiv> getNodeIdFromPeerDescriptor hx (getPeerDescriptor r)"

definition nl_create :: "DhtAddress \<Rightarrow> nat \<Rightarrow> node_list" where
  "nl_create ownId limit = \<lparr>nlNodes = [], nlLimit = limit, nlOwnId = ownId\<rparr>"

definition nl_find :: "(DhtAddress \<times> RpcRemote) list \<Rightarrow> DhtAddress \<Rightarrow> RpcRemote option" where
  "nl_find nodes nodeId = map_option snd (find (\<lambda>entry. fst entry = nodeId) nodes)"

definition nl_assign :: "(DhtAddress \<times> RpcRemote) list \<Rightarrow> DhtAddress \<Rightarrow> RpcRemote \<Rightarrow> (DhtAddress \<times> RpcRemote) list" where
  "nl_assign nodes nodeId remote =
     takeWhile (\<lambda>entry. fst entry \<noteq> nodeId) nodes @
     (case dropWhile (\<lambda>entry. fst entry \<noteq> nodeId) nodes of [] \<Rightarrow> [] | e # es \<Rightarrow> (fst e, remote) # es)"

definition nl_erase :: "(DhtAddress \<times> RpcRemote) list \<Rightarrow> DhtAddress \<Rightarrow> (DhtAddress \<times> RpcRemote) list" where
  "nl_erase nodes nodeId =
     takeWhile (\<lambda>entry. fst entry \<noteq> nodeId) nodes @ drop 1 (dropWhile (\<lambda>entry. fst entry \<noteq> nodeId) nodes)"

definition getValuesOfIncludedKeys :: "hex_codec \<Rightarrow> (DhtAddress \<times> RpcRemote) list \<Rightarrow> DhtAddress list \<Rightarrow> bool \<Rightarrow> RpcRemote list" where
  "getValuesOfIncludedKeys hx nodes exclude wsOnly =
     filter (\<lambda>node. if wsOnly \<and> websocket (getPeerDescriptor node) = None then False
                    else remoteId hx node \<notin> set exclude) (map snd nodes)"

definition nl_add :: "hex_codec \<Rightarrow> node_list \<Rightarrow> RpcRemote \<Rightarrow> node_list \<times> node_list_event list" where
  "nl_add hx l remote =
     (let nodeId = remoteId hx remote
      in if nlOwnId l \<noteq> nodeId \<and> length (nlNodes l) < nlLimit l
         then (if nl_find (nlNodes l) nodeId \<noteq> None
               then (l\<lparr>nlNodes := nl_assign (nlNodes l) nodeId remote\<rparr>, [])
               else (l\<lparr>nlNodes := nlNodes l @ [(nodeId, remote)]\<rparr>, [NodeAdded nodeId remote]))
         else (l, []))"

definition nl_remove :: "node_list \<Rightarrow> DhtAddress \<Rightarrow> node_list \<times> node_list_event list" where
  "nl_remove l nodeId =
     (case nl_find (nlNodes l) nodeId of
        None \<Rightarrow> (l, [])
      | Some removed \<Rightarrow> (l\<lparr>nlNodes := nl_erase (nlNodes l) nodeId\<rparr>, [NodeRemoved nodeId removed]))"

definition nl_has :: "node_list \<Rightarrow> DhtAddress \<Rightarrow> bool" where
  "nl_has l nodeId \<longleftrightarrow> nl_find (nlNodes l) nodeId \<noteq> None"

fun nl_replace_loop ::
  "hex_codec \<Rightarrow> DhtAddress \<Rightarrow> nat \<Rightarrow> (DhtAddress \<times> RpcRemote) list \<Rightarrow> RpcRemote list \<Rightarrow> (DhtAddress \<times> RpcRemote) list" where
  "nl_replace_loop hx ownId limit nodes [] = nodes"
| "nl_replace_loop hx ownId limit nodes (remote # rest) =
     (let nodeId = remoteId hx remote
      in nl_replace_loop hx ownId limit
           (if ownId \<noteq> nodeId \<and> length nodes < limit \<and> nl_find nodes nodeId = None then nodes @ [(nodeId, remote)] else nodes) rest)"

definition replaceAll :: "hex_codec \<Rightarrow> node_list \<Rightarrow> RpcRemote list \<Rightarrow> node_list \<times> node_list_event list" where
  "replaceAll hx l neighbors =
     (let nodes = nl_replace_loop hx (nlOwnId l) (nlLimit l) [] (take (nlLimit l) neighbors)
      in (l\<lparr>nlNodes := nodes\<rparr>, map (\<lambda>(nodeId, remote). NodeAdded nodeId remote) nodes))"

definition getIds :: "node_list \<Rightarrow> DhtAddress list" where
  "getIds l = map fst (nlNodes l)"

definition getPeerDescriptors :: "node_list \<Rightarrow> PeerDescriptor list" where
  "getPeerDescriptors l = map (getPeerDescriptor \<circ> snd) (nlNodes l)"

definition nl_get :: "node_list \<Rightarrow> DhtAddress \<Rightarrow> RpcRemote option" where
  "nl_get l nodeId = nl_find (nlNodes l) nodeId"

definition nl_size :: "hex_codec \<Rightarrow> node_list \<Rightarrow> DhtAddress list \<Rightarrow> nat" where
  "nl_size hx l exclude = length (getValuesOfIncludedKeys hx (nlNodes l) exclude False)"

definition getRandom :: "hex_codec \<Rightarrow> nat \<Rightarrow> node_list \<Rightarrow> DhtAddress list \<Rightarrow> RpcRemote option" where
  "getRandom hx rand l exclude =
     (let values = getValuesOfIncludedKeys hx (nlNodes l) exclude False
      in if values = [] then None else Some (values ! (rand mod length values)))"

definition getFirst :: "hex_codec \<Rightarrow> node_list \<Rightarrow> DhtAddress list \<Rightarrow> bool \<Rightarrow> RpcRemote option" where
  "getFirst hx l exclude wsOnly =
     (let included = getValuesOfIncludedKeys hx (nlNodes l) exclude wsOnly
      in if included = [] then None else Some (included ! 0))"

definition getFirstAndLast :: "hex_codec \<Rightarrow> node_list \<Rightarrow> DhtAddress list \<Rightarrow> RpcRemote list" where
  "getFirstAndLast hx l exclude =
     (let included = getValuesOfIncludedKeys hx (nlNodes l) exclude False
      in if included = [] then []
         else if length included > 1 then [hd included, last included]
         else [hd included])"

definition getLast :: "hex_codec \<Rightarrow> node_list \<Rightarrow> DhtAddress list \<Rightarrow> RpcRemote option" where
  "getLast hx l exclude =
     (let included = getValuesOfIncludedKeys hx (nlNodes l) exclude False
      in if included = [] then None else Some (last included))"

definition nl_getAll :: "node_list \<Rightarrow> RpcRemote list" where
  "nl_getAll l = map snd (nlNodes l)"

fun nl_remove_all :: "node_list \<Rightarrow> DhtAddress list \<Rightarrow> node_list \<times> node_list_event list" where
  "nl_remove_all l [] = (l, [])"
| "nl_remove_all l (i # is) =
     (case nl_remove l i of (l1, es) \<Rightarrow> (case nl_remove_all l1 is of (l2, fs) \<Rightarrow> (l2, es @ fs)))"

definition nl_stop :: "hex_codec \<Rightarrow> node_list \<Rightarrow> node_list \<times> node_list_event list" where
  "nl_stop hx l = nl_remove_all l (map (remoteId hx) (nl_getAll l))"

section \<open>Invariant\<close>

definition nl_inv :: "hex_codec \<Rightarrow> node_list \<Rightarrow> bool" where
  "nl_inv hx l \<longleftrightarrow>
     distinct (getIds l) \<and> nlOwnId l \<notin> set (getIds l) \<and> length (nlNodes l) \<le> nlLimit l \<and>
     (\<forall>(nodeId, remote) \<in> set (nlNodes l). nodeId = remoteId hx remote)"

lemma nl_find_map_of: "nl_find nodes k = map_of nodes k"
  by (induction nodes) (auto simp: nl_find_def)

lemma nl_find_None: "nl_find nodes k = None \<longleftrightarrow> k \<notin> set (map fst nodes)"
  by (simp add: nl_find_map_of map_of_eq_None_iff)

lemma nl_assign_map:
  "distinct (map fst nodes) \<Longrightarrow> nl_assign nodes k r = map (\<lambda>(i, x). (i, if i = k then r else x)) nodes"
proof (induction nodes)
  case (Cons e nodes)
  have *: "map (\<lambda>(i, x). (i, if i = fst e then r else x)) nodes = nodes"
    using Cons.prems by (intro map_idI) (auto simp: image_iff)
  show ?case
  proof (cases "fst e = k")
    case True
    then show ?thesis using * by (cases e) (simp add: nl_assign_def)
  next
    case False
    then show ?thesis using Cons by (cases e) (simp add: nl_assign_def)
  qed
qed (simp add: nl_assign_def)

lemma nl_erase_filter:
  "distinct (map fst nodes) \<Longrightarrow> nl_erase nodes k = filter (\<lambda>entry. fst entry \<noteq> k) nodes"
proof (induction nodes)
  case (Cons e nodes)
  have *: "filter (\<lambda>entry. fst entry \<noteq> fst e) nodes = nodes"
    using Cons.prems by (auto simp: filter_id_conv image_iff)
  show ?case using Cons * by (cases "fst e = k") (auto simp: nl_erase_def)
qed (simp add: nl_erase_def)

lemma getIds_assign: "distinct (getIds l) \<Longrightarrow> map fst (nl_assign (nlNodes l) k r) = getIds l"
  by (simp add: nl_assign_map getIds_def comp_def split_beta)

lemma nl_size_0: "nl_size hx l [] = length (nlNodes l)"
  by (simp add: nl_size_def getValuesOfIncludedKeys_def)

lemma nl_has_iff: "nl_has l k \<longleftrightarrow> k \<in> set (getIds l)"
  by (simp add: nl_has_def nl_find_None getIds_def)

lemma getIds_add:
  assumes "nl_inv hx l"
  shows "getIds (fst (nl_add hx l r)) =
    (if nlOwnId l \<noteq> remoteId hx r \<and> length (nlNodes l) < nlLimit l \<and> remoteId hx r \<notin> set (getIds l)
     then getIds l @ [remoteId hx r] else getIds l)"
  using assms getIds_assign [of l] by (auto simp: nl_add_def Let_def nl_find_None nl_inv_def getIds_def)

lemma getIds_remove: "nl_inv hx l \<Longrightarrow> getIds (fst (nl_remove l k)) = filter (\<lambda>i. i \<noteq> k) (getIds l)"
proof (cases "nl_find (nlNodes l) k")
  case None
  then have "filter (\<lambda>i. i \<noteq> k) (getIds l) = getIds l"
    by (intro filter_True) (auto simp: nl_find_None getIds_def)
  then show ?thesis using None by (simp add: nl_remove_def)
next
  case (Some r)
  assume "nl_inv hx l"
  then show ?thesis using Some by (simp add: nl_remove_def nl_inv_def getIds_def nl_erase_filter filter_map comp_def)
qed

lemma nl_inv_add: "nl_inv hx l \<Longrightarrow> nl_inv hx (fst (nl_add hx l r))"
proof -
  assume inv: "nl_inv hx l"
  have "(\<forall>(i, x) \<in> set (nlNodes (fst (nl_add hx l r))). i = remoteId hx x) \<and>
      length (nlNodes (fst (nl_add hx l r))) \<le> nlLimit l \<and> nlLimit (fst (nl_add hx l r)) = nlLimit l \<and> nlOwnId (fst (nl_add hx l r)) = nlOwnId l"
    using inv by (auto simp: nl_add_def Let_def nl_inv_def nl_assign_map getIds_def)
  then show ?thesis using inv getIds_add [OF inv, of r] by (auto simp: nl_inv_def)
qed

lemma nl_inv_remove: "nl_inv hx l \<Longrightarrow> nl_inv hx (fst (nl_remove l k))"
proof -
  assume inv: "nl_inv hx l"
  have "set (nlNodes (fst (nl_remove l k))) \<subseteq> set (nlNodes l) \<and> nlLimit (fst (nl_remove l k)) = nlLimit l \<and> nlOwnId (fst (nl_remove l k)) = nlOwnId l"
    using inv by (auto simp: nl_remove_def nl_inv_def getIds_def nl_erase_filter split: option.splits)
  moreover have "length (nlNodes (fst (nl_remove l k))) \<le> length (nlNodes l)"
    using inv by (auto simp: nl_remove_def nl_inv_def getIds_def nl_erase_filter split: option.splits)
  ultimately show ?thesis using inv getIds_remove [OF inv, of k] by (fastforce simp: nl_inv_def)
qed

text \<open>What \<^verbatim>\<open>replaceAll\<close> keeps of the given nodes.\<close>

lemma replace_loop_inv:
  assumes "nl_inv hx \<lparr>nlNodes = nodes, nlLimit = limit, nlOwnId = own\<rparr>"
  shows "nl_inv hx \<lparr>nlNodes = nl_replace_loop hx own limit nodes rs, nlLimit = limit, nlOwnId = own\<rparr>"
  using assms
proof (induction rs arbitrary: nodes)
  case (Cons r rs)
  show ?case unfolding nl_replace_loop.simps Let_def
    by (rule Cons.IH) (use Cons.prems in \<open>auto simp: nl_inv_def getIds_def nl_find_None\<close>)
qed simp

lemma replace_loop_set:
  assumes "length nodes + length rs \<le> limit"
  shows "fst ` set (nl_replace_loop hx own limit nodes rs) = fst ` set nodes \<union> (remoteId hx ` set rs - {own})"
  using assms
proof (induction rs arbitrary: nodes)
  case (Cons r rs)
  show ?case unfolding nl_replace_loop.simps Let_def
    by (subst Cons.IH) (use Cons.prems in \<open>auto simp: nl_find_None\<close>)
qed simp

lemma getIds_replaceAll:
  "set (getIds (fst (replaceAll hx l ns))) = remoteId hx ` set (take (nlLimit l) ns) - {nlOwnId l}"
  using replace_loop_set [of "[]" "take (nlLimit l) ns" "nlLimit l"]
  by (simp add: replaceAll_def Let_def getIds_def)

lemma nl_inv_create: "nl_inv hx (nl_create own limit)"
  by (simp add: nl_inv_def nl_create_def getIds_def)

lemma nl_inv_replaceAll: "nl_inv hx (fst (replaceAll hx l ns))"
  using replace_loop_inv [of hx "[]" "nlLimit l" "nlOwnId l"] by (simp add: replaceAll_def Let_def nl_inv_def getIds_def)

lemma nl_remove_all_step:
  assumes "nl_inv hx l"
  shows "nl_inv hx (fst (nl_remove_all l is)) \<and> getIds (fst (nl_remove_all l is)) = filter (\<lambda>i. i \<notin> set is) (getIds l)"
  using assms
proof (induction "is" arbitrary: l)
  case (Cons i "is")
  have "fst (nl_remove_all l (i # is)) = fst (nl_remove_all (fst (nl_remove l i)) is)" by (simp split: prod.splits)
  moreover have "filter (\<lambda>j. j \<notin> set is) (filter (\<lambda>j. j \<noteq> i) (getIds l)) = filter (\<lambda>j. j \<notin> set (i # is)) (getIds l)"
    by (auto intro: filter_cong)
  ultimately show ?case using Cons.IH [OF nl_inv_remove [OF Cons.prems, of i]] getIds_remove [OF Cons.prems, of i] by simp
qed simp

lemma getIds_stop: "nl_inv hx l \<Longrightarrow> getIds (fst (nl_stop hx l)) = []"
proof -
  assume inv: "nl_inv hx l"
  then have "getIds l = map (remoteId hx) (nl_getAll l)"
    by (auto simp: nl_inv_def getIds_def nl_getAll_def)
  then show ?thesis using nl_remove_all_step [OF inv, of "map (remoteId hx) (nl_getAll l)"] by (simp add: nl_stop_def filter_empty_conv)
qed

section \<open>Runs and what observers see\<close>

datatype nl_op = NAdd RpcRemote | NRemove DhtAddress | NReplace "RpcRemote list" | NStop

definition nl_exec :: "hex_codec \<Rightarrow> node_list \<Rightarrow> nl_op \<Rightarrow> node_list \<times> node_list_event list" where
  "nl_exec hx l op =
     (case op of NAdd r \<Rightarrow> nl_add hx l r | NRemove i \<Rightarrow> nl_remove l i | NReplace rs \<Rightarrow> replaceAll hx l rs | NStop \<Rightarrow> nl_stop hx l)"

definition nl_run :: "hex_codec \<Rightarrow> node_list \<times> node_list_event list \<Rightarrow> nl_op \<Rightarrow> node_list \<times> node_list_event list" where
  "nl_run hx s op = (fst (nl_exec hx (fst s) op), snd s @ snd (nl_exec hx (fst s) op))"

text \<open>The ids an observer of the events takes for the members.\<close>

fun observe :: "DhtAddress set \<Rightarrow> node_list_event \<Rightarrow> DhtAddress set" where
  "observe S (NodeAdded i r) = insert i S"
| "observe S (NodeRemoved i r) = S - {i}"

lemma observe_add:
  "nl_inv hx l \<Longrightarrow> foldl observe (set (getIds l) \<union> X) (snd (nl_add hx l r)) = set (getIds (fst (nl_add hx l r))) \<union> X"
  using getIds_add [of hx l r] by (auto simp: nl_add_def Let_def nl_find_None getIds_def)

lemma observe_remove:
  "nl_inv hx l \<Longrightarrow> foldl observe (set (getIds l)) (snd (nl_remove l k)) = set (getIds (fst (nl_remove l k)))"
  using getIds_remove [of hx l k] by (auto simp: nl_remove_def nl_find_None getIds_def split: option.splits)

lemma observe_remove_all:
  assumes "nl_inv hx l"
  shows "foldl observe (set (getIds l)) (snd (nl_remove_all l is)) = set (getIds (fst (nl_remove_all l is)))"
  using assms
proof (induction "is" arbitrary: l)
  case (Cons i "is")
  then show ?case using Cons.IH [OF nl_inv_remove [OF Cons.prems, of i]] observe_remove [OF Cons.prems, of i]
    by (cases "nl_remove l i", cases "nl_remove_all (fst (nl_remove l i)) is") simp
qed simp

lemma observe_mono: "S \<subseteq> T \<Longrightarrow> foldl observe S es \<subseteq> foldl observe T es"
proof (induction es arbitrary: S T)
  case (Cons e es)
  then have "observe S e \<subseteq> observe T e" by (cases e) auto
  then show ?case using Cons.IH by simp
qed simp

lemma observe_added: "foldl observe S (map (\<lambda>(i, r). NodeAdded i r) es) = S \<union> fst ` set es"
  by (induction es arbitrary: S) auto

lemma nl_exec_step:
  assumes "nl_inv hx l"
  shows "nl_inv hx (fst (nl_exec hx l op))"
    and "set (getIds (fst (nl_exec hx l op))) \<subseteq> foldl observe (set (getIds l)) (snd (nl_exec hx l op))"
    and "\<forall>rs. op \<noteq> NReplace rs \<Longrightarrow> set (getIds (fst (nl_exec hx l op))) = foldl observe (set (getIds l)) (snd (nl_exec hx l op))"
proof -
  have "nl_inv hx (fst (nl_stop hx l))" "foldl observe (set (getIds l)) (snd (nl_stop hx l)) = set (getIds (fst (nl_stop hx l)))"
    unfolding nl_stop_def using nl_remove_all_step observe_remove_all assms by blast+
  moreover have "set (getIds (fst (replaceAll hx l rs))) \<subseteq> foldl observe (set (getIds l)) (snd (replaceAll hx l rs))" for rs
    by (auto simp: replaceAll_def Let_def observe_added getIds_def)
  ultimately show "nl_inv hx (fst (nl_exec hx l op))"
    "set (getIds (fst (nl_exec hx l op))) \<subseteq> foldl observe (set (getIds l)) (snd (nl_exec hx l op))"
    "\<forall>rs. op \<noteq> NReplace rs \<Longrightarrow> set (getIds (fst (nl_exec hx l op))) = foldl observe (set (getIds l)) (snd (nl_exec hx l op))"
    using assms nl_inv_add nl_inv_remove nl_inv_replaceAll observe_add [OF assms, of "{}"] observe_remove [OF assms]
    by (auto simp: nl_exec_def split: nl_op.splits)
qed

interpretation nl: op_machine "nl_run hx"
  "\<lambda>s. nl_inv hx (fst s) \<and> set (getIds (fst s)) \<subseteq> foldl observe {} (snd s)" "\<lambda>_. True" for hx
proof unfold_locales
  fix s op
  assume s: "nl_inv hx (fst s) \<and> set (getIds (fst s)) \<subseteq> foldl observe {} (snd s)"
  then have inv: "nl_inv hx (fst s)" by blast
  show "nl_inv hx (fst (nl_run hx s op)) \<and> set (getIds (fst (nl_run hx s op))) \<subseteq> foldl observe {} (snd (nl_run hx s op))"
    using nl_exec_step(1,2) [OF inv, of op] observe_mono [OF conjunct2 [OF s]] by (fastforce simp: nl_run_def)
qed

interpretation nlq: op_machine "nl_run hx"
  "\<lambda>s. nl_inv hx (fst s) \<and> set (getIds (fst s)) = foldl observe {} (snd s)" "\<lambda>op. \<forall>rs. op \<noteq> NReplace rs" for hx
proof unfold_locales
  fix s op
  assume s: "nl_inv hx (fst s) \<and> set (getIds (fst s)) = foldl observe {} (snd s)" and op: "\<forall>rs. op \<noteq> NReplace rs"
  then have inv: "nl_inv hx (fst s)" by blast
  show "nl_inv hx (fst (nl_run hx s op)) \<and> set (getIds (fst (nl_run hx s op))) = foldl observe {} (snd (nl_run hx s op))"
    using nl_exec_step(1,3) [OF inv] op s by (simp add: nl_run_def)
qed

section \<open>Properties\<close>

text \<open>
  In every run a node list holds each node at most once, never its owner and never more than its limit, under the
  id of the node's descriptor; whoever follows the events knows of every member, and of exactly the members
  when \<^verbatim>\<open>replaceAll\<close>, which emits no removals, is not used.
\<close>

theorem node_list_observed:
  assumes "s = foldl (nl_run hx) (nl_create own limit, []) ops"
  shows "distinct (getIds (fst s)) \<and> own \<notin> set (getIds (fst s)) \<and> length (getIds (fst s)) \<le> limit \<and>
    (\<forall>(i, r) \<in> set (nlNodes (fst s)). i = remoteId hx r) \<and>
    set (getIds (fst s)) \<subseteq> foldl observe {} (snd s) \<and>
    ((\<forall>rs. NReplace rs \<notin> set ops) \<longrightarrow> set (getIds (fst s)) = foldl observe {} (snd s))"
proof -
  have frame: "nlLimit (fst (nl_exec hx l op)) = nlLimit l \<and> nlOwnId (fst (nl_exec hx l op)) = nlOwnId l" for l op
  proof -
    have "nlLimit (fst (nl_remove_all l is)) = nlLimit l \<and> nlOwnId (fst (nl_remove_all l is)) = nlOwnId l" for l "is"
      by (induction l "is" rule: nl_remove_all.induct) (auto simp: nl_remove_def split: option.splits prod.splits)
    then show ?thesis
      by (auto simp: nl_exec_def nl_add_def nl_remove_def replaceAll_def nl_stop_def Let_def split: nl_op.splits option.splits)
  qed
  have "nlLimit (fst (foldl (nl_run hx) t ops)) = nlLimit (fst t) \<and> nlOwnId (fst (foldl (nl_run hx) t ops)) = nlOwnId (fst t)" for t
    by (induction ops arbitrary: t) (auto simp: nl_run_def frame)
  then have "nlLimit (fst s) = limit" "nlOwnId (fst s) = own" by (simp_all add: assms nl_create_def)
  moreover have "nl_inv hx (fst s) \<and> set (getIds (fst s)) \<subseteq> foldl observe {} (snd s)"
    unfolding assms by (rule nl.run_inv) (simp_all add: nl_inv_create, simp_all add: nl_create_def getIds_def list_all_iff)
  moreover have "nl_inv hx (fst s) \<and> set (getIds (fst s)) = foldl observe {} (snd s)" if "\<forall>rs. NReplace rs \<notin> set ops"
    unfolding assms
    by (rule nlq.run_inv) (use that in \<open>auto simp: nl_inv_create list_all_iff\<close>, auto simp: nl_create_def getIds_def)
  ultimately show ?thesis by (auto simp: nl_inv_def getIds_def)
qed

theorem node_list_observed_witness:
  "set (getIds (fst (foldl (nl_run ref_hex) (nl_create ''ff'' 2, []) [NRemove ''aa'']))) \<subseteq>
     foldl observe {} (snd (foldl (nl_run ref_hex) (nl_create ''ff'' 2, []) [NRemove ''aa'']))"
  using node_list_observed [OF refl, of ref_hex "''ff''" 2 "[NRemove ''aa'']"] by blast

end
