(* ===== verification/Api_Values.thy ===== *)
theory Api_Values
  imports Identifiers
begin

text \<open>
  The values the C API hands out (\<^verbatim>\<open>streamrcommon.h\<close>, \<^verbatim>\<open>streamrproxyclient.h\<close>, \<^verbatim>\<open>streamrnode.h\<close>) and the C++ objects of
  \<^verbatim>\<open>streamrproxyclient.cpp\<close> that own them: \<^verbatim>\<open>ProxyCpp\<close>, \<^verbatim>\<open>ErrorCpp\<close> and \<^verbatim>\<open>ProxyResultCpp\<close>.  The C structs hold pointers into the
  strings of the owning objects, so objects have addresses here: a path, whose extensions are the
  addresses of the parts of the object.  A pointer to a C string is the address of the object whose
  string it points into and the name of that string.
\<close>

section \<open>Error codes\<close>

definition ERROR_INVALID_ETHEREUM_ADDRESS :: string where
  "ERROR_INVALID_ETHEREUM_ADDRESS = ''INVALID_ETHEREUM_ADDRESS''"
definition ERROR_INVALID_STREAM_PART_ID :: string where
  "ERROR_INVALID_STREAM_PART_ID = ''INVALID_STREAM_PART_ID''"
definition ERROR_PROXY_CLIENT_NOT_FOUND :: string where
  "ERROR_PROXY_CLIENT_NOT_FOUND = ''PROXY_CLIENT_NOT_FOUND''"
definition ERROR_INVALID_PROXY_URL :: string where
  "ERROR_INVALID_PROXY_URL = ''INVALID_PROXY_URL''"
definition ERROR_NO_PROXIES_DEFINED :: string where
  "ERROR_NO_PROXIES_DEFINED = ''NO_PROXIES_DEFINED''"
definition ERROR_PROXY_CONNECTION_FAILED :: string where
  "ERROR_PROXY_CONNECTION_FAILED = ''PROXY_CONNECTION_FAILED''"
definition ERROR_PROXY_BROADCAST_FAILED :: string where
  "ERROR_PROXY_BROADCAST_FAILED = ''PROXY_BROADCAST_FAILED''"
definition ERROR_NODE_NOT_FOUND :: string where
  "ERROR_NODE_NOT_FOUND = ''NODE_NOT_FOUND''"
definition ERROR_NODE_NOT_STARTED :: string where
  "ERROR_NODE_NOT_STARTED = ''NODE_NOT_STARTED''"
definition ERROR_NODE_ALREADY_STARTED :: string where
  "ERROR_NODE_ALREADY_STARTED = ''NODE_ALREADY_STARTED''"
definition ERROR_NODE_STOPPED :: string where
  "ERROR_NODE_STOPPED = ''NODE_STOPPED''"
definition ERROR_INVALID_ENTRY_POINT_URL :: string where
  "ERROR_INVALID_ENTRY_POINT_URL = ''INVALID_ENTRY_POINT_URL''"
definition ERROR_SUBSCRIPTION_NOT_FOUND :: string where
  "ERROR_SUBSCRIPTION_NOT_FOUND = ''SUBSCRIPTION_NOT_FOUND''"
definition ERROR_NODE_OPERATION_FAILED :: string where
  "ERROR_NODE_OPERATION_FAILED = ''NODE_OPERATION_FAILED''"

lemmas error_codes = ERROR_INVALID_ETHEREUM_ADDRESS_def ERROR_INVALID_STREAM_PART_ID_def ERROR_PROXY_CLIENT_NOT_FOUND_def
  ERROR_INVALID_PROXY_URL_def ERROR_NO_PROXIES_DEFINED_def ERROR_PROXY_CONNECTION_FAILED_def ERROR_PROXY_BROADCAST_FAILED_def
  ERROR_NODE_NOT_FOUND_def ERROR_NODE_NOT_STARTED_def ERROR_NODE_ALREADY_STARTED_def ERROR_NODE_STOPPED_def
  ERROR_INVALID_ENTRY_POINT_URL_def ERROR_SUBSCRIPTION_NOT_FOUND_def ERROR_NODE_OPERATION_FAILED_def

section \<open>Pointers and the C structs\<close>

type_synonym addr = "nat list"

datatype cstr_name = EthereumAddressString | WebsocketUrlString | MessageString | CodeString

type_synonym cstr = "addr \<times> cstr_name"

record StreamrPeer =
  p_websocketUrl :: cstr
  p_ethereumAddress :: cstr

record StreamrError =
  e_message :: cstr
  e_code :: cstr
  e_peer :: "addr option"

text \<open>\<^verbatim>\<open>StreamrResult\<close>: the two arrays are the elements behind \<^verbatim>\<open>errors\<close> and \<^verbatim>\<open>successful\<close>.\<close>

record StreamrResult =
  r_errors :: "StreamrError list"
  r_numErrors :: nat
  r_successful :: "StreamrPeer list"
  r_numSuccessful :: nat

section \<open>ProxyCpp\<close>

record ProxyCpp =
  ethereumAddressString :: string
  websocketUrlString :: string
  pc_proxy :: StreamrPeer

text \<open>What every constructor and assignment ends with: the pointers are set to the object's own strings.\<close>

definition own_peer :: "addr \<Rightarrow> StreamrPeer" where
  "own_peer self = \<lparr>p_websocketUrl = (self, WebsocketUrlString), p_ethereumAddress = (self, EthereumAddressString)\<rparr>"

definition ProxyCpp_new :: "addr \<Rightarrow> string \<Rightarrow> string \<Rightarrow> ProxyCpp" where
  "ProxyCpp_new self ethereumAddress websocketUrl =
     \<lparr>ethereumAddressString = ethereumAddress, websocketUrlString = websocketUrl, pc_proxy = own_peer self\<rparr>"

definition ProxyCpp_copy :: "addr \<Rightarrow> ProxyCpp \<Rightarrow> ProxyCpp" where
  "ProxyCpp_copy self other =
     \<lparr>ethereumAddressString = ethereumAddressString other, websocketUrlString = websocketUrlString other, pc_proxy = own_peer self\<rparr>"

text \<open>
  Moving leaves the strings of the source valid but unspecified; \<open>mv\<close> gives their contents afterwards.  The
  result is the new object and the source.
\<close>

definition ProxyCpp_move :: "(string \<Rightarrow> string) \<Rightarrow> addr \<Rightarrow> ProxyCpp \<Rightarrow> ProxyCpp \<times> ProxyCpp" where
  "ProxyCpp_move mv self other =
     (\<lparr>ethereumAddressString = ethereumAddressString other, websocketUrlString = websocketUrlString other, pc_proxy = own_peer self\<rparr>,
      other\<lparr>ethereumAddressString := mv (ethereumAddressString other), websocketUrlString := mv (websocketUrlString other)\<rparr>)"

definition ProxyCpp_assign :: "addr \<Rightarrow> ProxyCpp \<Rightarrow> addr \<Rightarrow> ProxyCpp \<Rightarrow> ProxyCpp" where
  "ProxyCpp_assign self this otherAddr other =
     (if self = otherAddr then this
      else this\<lparr>ethereumAddressString := ethereumAddressString other, websocketUrlString := websocketUrlString other,
                pc_proxy := own_peer self\<rparr>)"

definition ProxyCpp_move_assign ::
  "(string \<Rightarrow> string) \<Rightarrow> addr \<Rightarrow> ProxyCpp \<Rightarrow> addr \<Rightarrow> ProxyCpp \<Rightarrow> ProxyCpp \<times> ProxyCpp" where
  "ProxyCpp_move_assign mv self this otherAddr other =
     (if self = otherAddr then (this, this)
      else (this\<lparr>ethereumAddressString := ethereumAddressString other, websocketUrlString := websocketUrlString other,
                 pc_proxy := own_peer self\<rparr>,
            other\<lparr>ethereumAddressString := mv (ethereumAddressString other), websocketUrlString := mv (websocketUrlString other)\<rparr>))"

section \<open>ErrorCpp\<close>

record ErrorCpp =
  messageString :: string
  codeString :: string
  proxyCpp :: "ProxyCpp option"
  ec_error :: StreamrError

text \<open>The optional proxy is a part of the error object, at the address \<open>self @ [0]\<close>.\<close>

definition own_error :: "addr \<Rightarrow> ProxyCpp option \<Rightarrow> StreamrError" where
  "own_error self p =
     \<lparr>e_message = (self, MessageString), e_code = (self, CodeString),
      e_peer = (case p of None \<Rightarrow> None | Some _ \<Rightarrow> Some (self @ [0]))\<rparr>"

definition ErrorCpp_new :: "addr \<Rightarrow> string \<Rightarrow> string \<Rightarrow> ProxyCpp option \<Rightarrow> ErrorCpp" where
  "ErrorCpp_new self message code p =
     (let q = map_option (ProxyCpp_copy (self @ [0])) p
      in \<lparr>messageString = message, codeString = code, proxyCpp = q, ec_error = own_error self q\<rparr>)"

definition ErrorCpp_copy :: "addr \<Rightarrow> ErrorCpp \<Rightarrow> ErrorCpp" where
  "ErrorCpp_copy self other =
     (let q = map_option (ProxyCpp_copy (self @ [0])) (proxyCpp other)
      in \<lparr>messageString = messageString other, codeString = codeString other, proxyCpp = q, ec_error = own_error self q\<rparr>)"

text \<open>Moving an optional moves its value and leaves the source engaged.\<close>

definition ErrorCpp_move :: "(string \<Rightarrow> string) \<Rightarrow> addr \<Rightarrow> ErrorCpp \<Rightarrow> ErrorCpp \<times> ErrorCpp" where
  "ErrorCpp_move mv self other =
     (let q = map_option (\<lambda>p. fst (ProxyCpp_move mv (self @ [0]) p)) (proxyCpp other)
      in (\<lparr>messageString = messageString other, codeString = codeString other, proxyCpp = q, ec_error = own_error self q\<rparr>,
          other\<lparr>messageString := mv (messageString other), codeString := mv (codeString other),
                proxyCpp := map_option (\<lambda>p. snd (ProxyCpp_move mv (self @ [0]) p)) (proxyCpp other)\<rparr>))"

text \<open>
  Assigning an optional assigns to the value that is there, constructs one when there is none, and
  destroys it when the source is empty.
\<close>

definition optional_assign :: "addr \<Rightarrow> ProxyCpp option \<Rightarrow> addr \<Rightarrow> ProxyCpp option \<Rightarrow> ProxyCpp option" where
  "optional_assign self this otherAddr other =
     (case other of
        None \<Rightarrow> None
      | Some q \<Rightarrow> (case this of None \<Rightarrow> Some (ProxyCpp_copy self q) | Some p \<Rightarrow> Some (ProxyCpp_assign self p otherAddr q)))"

definition ErrorCpp_assign :: "addr \<Rightarrow> ErrorCpp \<Rightarrow> addr \<Rightarrow> ErrorCpp \<Rightarrow> ErrorCpp" where
  "ErrorCpp_assign self this otherAddr other =
     (if self = otherAddr then this
      else (let q = optional_assign (self @ [0]) (proxyCpp this) (otherAddr @ [0]) (proxyCpp other)
            in this\<lparr>messageString := messageString other, codeString := codeString other, proxyCpp := q, ec_error := own_error self q\<rparr>))"

definition ErrorCpp_move_assign ::
  "(string \<Rightarrow> string) \<Rightarrow> addr \<Rightarrow> ErrorCpp \<Rightarrow> addr \<Rightarrow> ErrorCpp \<Rightarrow> ErrorCpp \<times> ErrorCpp" where
  "ErrorCpp_move_assign mv self this otherAddr other =
     (if self = otherAddr then (this, this)
      else (let q = optional_assign (self @ [0]) (proxyCpp this) (otherAddr @ [0]) (proxyCpp other)
            in (this\<lparr>messageString := messageString other, codeString := codeString other, proxyCpp := q, ec_error := own_error self q\<rparr>,
                other\<lparr>messageString := mv (messageString other), codeString := mv (codeString other),
                      proxyCpp := map_option (\<lambda>p. p\<lparr>ethereumAddressString := mv (ethereumAddressString p),
                                                     websocketUrlString := mv (websocketUrlString p)\<rparr>) (proxyCpp other)\<rparr>)))"

section \<open>ProxyResultCpp\<close>

record ProxyResultCpp =
  errorsCppVector :: "ErrorCpp list"
  successfulCppVector :: "ProxyCpp list"
  proxyResult :: StreamrResult

text \<open>
  The elements of the two vectors of owning objects are at \<open>self @ [1, i]\<close> and \<open>self @ [2, i]\<close>.  The loops copy the C structs of
  the elements into the arrays of the result.
\<close>

definition ProxyResultCpp_new :: "addr \<Rightarrow> ErrorCpp list \<Rightarrow> ProxyCpp list \<Rightarrow> ProxyResultCpp" where
  "ProxyResultCpp_new self errorsCpp successfulCpp =
     (let es = map (\<lambda>i. ErrorCpp_copy (self @ [1, i]) (errorsCpp ! i)) [0..<length errorsCpp];
          ps = map (\<lambda>i. ProxyCpp_copy (self @ [2, i]) (successfulCpp ! i)) [0..<length successfulCpp];
          ev = map ec_error es;
          sv = map pc_proxy ps
      in \<lparr>errorsCppVector = es, successfulCppVector = ps,
          proxyResult = \<lparr>r_errors = ev, r_numErrors = length ev, r_successful = sv, r_numSuccessful = length sv\<rparr>\<rparr>)"

section \<open>Reading through the pointers\<close>

text \<open>
  A client reads a string through a pointer.  \<open>None\<close> is a pointer that does not lead to a live object: the read is
  undefined.
\<close>

definition read_proxy :: "ProxyCpp \<Rightarrow> cstr_name \<Rightarrow> string option" where
  "read_proxy p f =
     (case f of EthereumAddressString \<Rightarrow> Some (ethereumAddressString p) | WebsocketUrlString \<Rightarrow> Some (websocketUrlString p) | _ \<Rightarrow> None)"

definition read_error :: "ErrorCpp \<Rightarrow> addr \<Rightarrow> cstr_name \<Rightarrow> string option" where
  "read_error e sub f =
     (if sub = [] then (case f of MessageString \<Rightarrow> Some (messageString e) | CodeString \<Rightarrow> Some (codeString e) | _ \<Rightarrow> None)
      else if sub = [0] then (case proxyCpp e of None \<Rightarrow> None | Some p \<Rightarrow> read_proxy p f)
      else None)"

definition read_result :: "addr \<Rightarrow> ProxyResultCpp \<Rightarrow> cstr \<Rightarrow> string option" where
  "read_result self r ptr =
     (case ptr of
        (a, f) \<Rightarrow>
          (if take (length self) a \<noteq> self then None
           else (case drop (length self) a of
                   k # i # sub \<Rightarrow>
                     (if k = 1 \<and> i < length (errorsCppVector r) then read_error (errorsCppVector r ! i) sub f
                      else if k = 2 \<and> i < length (successfulCppVector r) \<and> sub = [] then read_proxy (successfulCppVector r ! i) f
                      else None)
                 | _ \<Rightarrow> None)))"

definition peer_at :: "addr \<Rightarrow> ProxyResultCpp \<Rightarrow> addr \<Rightarrow> StreamrPeer option" where
  "peer_at self r a =
     (if take (length self) a \<noteq> self then None
      else (case drop (length self) a of
              [k, i, j] \<Rightarrow> (if k = 1 \<and> j = 0 \<and> i < length (errorsCppVector r) then map_option pc_proxy (proxyCpp (errorsCppVector r ! i)) else None)
            | _ \<Rightarrow> None))"

type_synonym peer_value = "string \<times> string"

record error_value =
  ev_message :: string
  ev_code :: string
  ev_peer :: "peer_value option"

definition view_peer :: "addr \<Rightarrow> ProxyResultCpp \<Rightarrow> StreamrPeer \<Rightarrow> peer_value option" where
  "view_peer self r p =
     (case (read_result self r (p_ethereumAddress p), read_result self r (p_websocketUrl p)) of
        (Some a, Some u) \<Rightarrow> Some (a, u) | _ \<Rightarrow> None)"

definition view_error :: "addr \<Rightarrow> ProxyResultCpp \<Rightarrow> StreamrError \<Rightarrow> error_value option" where
  "view_error self r e =
     (case (read_result self r (e_message e), read_result self r (e_code e)) of
        (Some m, Some c) \<Rightarrow>
          (case e_peer e of
             None \<Rightarrow> Some \<lparr>ev_message = m, ev_code = c, ev_peer = None\<rparr>
           | Some a \<Rightarrow> (case peer_at self r a of
                         None \<Rightarrow> None
                       | Some p \<Rightarrow> (case view_peer self r p of None \<Rightarrow> None
                                     | Some v \<Rightarrow> Some \<lparr>ev_message = m, ev_code = c, ev_peer = Some v\<rparr>)))
      | _ \<Rightarrow> None)"

definition proxy_value :: "ProxyCpp \<Rightarrow> peer_value" where
  "proxy_value p = (ethereumAddressString p, websocketUrlString p)"

definition error_value_of :: "ErrorCpp \<Rightarrow> error_value" where
  "error_value_of e = \<lparr>ev_message = messageString e, ev_code = codeString e, ev_peer = map_option proxy_value (proxyCpp e)\<rparr>"

section \<open>Objects point into themselves\<close>

definition proxy_at :: "addr \<Rightarrow> ProxyCpp \<Rightarrow> bool" where
  "proxy_at self p \<longleftrightarrow>
     p_websocketUrl (pc_proxy p) = (self, WebsocketUrlString) \<and> p_ethereumAddress (pc_proxy p) = (self, EthereumAddressString)"

definition error_at :: "addr \<Rightarrow> ErrorCpp \<Rightarrow> bool" where
  "error_at self e \<longleftrightarrow>
     e_message (ec_error e) = (self, MessageString) \<and> e_code (ec_error e) = (self, CodeString) \<and>
     (case proxyCpp e of None \<Rightarrow> e_peer (ec_error e) = None | Some p \<Rightarrow> e_peer (ec_error e) = Some (self @ [0]) \<and> proxy_at (self @ [0]) p)"

lemma proxy_at_own: "proxy_at self p \<longleftrightarrow> pc_proxy p = own_peer self"
  by (cases "pc_proxy p") (simp add: proxy_at_def own_peer_def)

lemma error_at_own: "error_at self e \<longleftrightarrow> ec_error e = own_error self (proxyCpp e) \<and> (\<forall>p. proxyCpp e = Some p \<longrightarrow> proxy_at (self @ [0]) p)"
  by (cases "ec_error e") (auto simp: error_at_def own_error_def split: option.splits)

lemmas proxy_ops = ProxyCpp_new_def ProxyCpp_copy_def ProxyCpp_move_def ProxyCpp_assign_def ProxyCpp_move_assign_def
lemmas error_ops = ErrorCpp_new_def ErrorCpp_copy_def ErrorCpp_move_def ErrorCpp_assign_def ErrorCpp_move_assign_def optional_assign_def

lemma proxy_objects:
  assumes "proxy_at u p" "proxy_at v q"
  shows "proxy_at s (ProxyCpp_new s ea ws) \<and> proxy_value (ProxyCpp_new s ea ws) = (ea, ws) \<and>
    proxy_at s (ProxyCpp_copy s p) \<and> proxy_value (ProxyCpp_copy s p) = proxy_value p \<and>
    proxy_at s (fst (ProxyCpp_move mv s p)) \<and> proxy_value (fst (ProxyCpp_move mv s p)) = proxy_value p \<and> proxy_at u (snd (ProxyCpp_move mv s p)) \<and>
    proxy_at v (ProxyCpp_assign v q u p) \<and> (u \<noteq> v \<longrightarrow> proxy_value (ProxyCpp_assign v q u p) = proxy_value p) \<and>
    proxy_at v (fst (ProxyCpp_move_assign mv v q u p)) \<and>
    (u \<noteq> v \<longrightarrow> proxy_value (fst (ProxyCpp_move_assign mv v q u p)) = proxy_value p \<and> proxy_at u (snd (ProxyCpp_move_assign mv v q u p))) \<and>
    ProxyCpp_assign v q v q = q \<and> ProxyCpp_move_assign mv v q v q = (q, q)"
  using assms by (simp add: proxy_at_own proxy_ops proxy_value_def)

lemma error_objects:
  assumes "error_at a e" "error_at b d"
  shows "error_at s (ErrorCpp_new s m c q) \<and> error_value_of (ErrorCpp_new s m c q) = \<lparr>ev_message = m, ev_code = c, ev_peer = map_option proxy_value q\<rparr> \<and>
    error_at s (ErrorCpp_copy s e) \<and> error_value_of (ErrorCpp_copy s e) = error_value_of e \<and>
    error_at s (fst (ErrorCpp_move mv s e)) \<and> error_value_of (fst (ErrorCpp_move mv s e)) = error_value_of e \<and> error_at a (snd (ErrorCpp_move mv s e)) \<and>
    error_at b (ErrorCpp_assign b d a e) \<and> (a \<noteq> b \<longrightarrow> error_value_of (ErrorCpp_assign b d a e) = error_value_of e) \<and>
    (a \<noteq> b \<longrightarrow> error_at b (fst (ErrorCpp_move_assign mv b d a e)) \<and> error_value_of (fst (ErrorCpp_move_assign mv b d a e)) = error_value_of e \<and>
       error_at a (snd (ErrorCpp_move_assign mv b d a e))) \<and>
    ErrorCpp_assign b d b d = d \<and> ErrorCpp_move_assign mv b d b d = (d, d)"
proof -
  have a: "ec_error e = own_error a (proxyCpp e)" "\<And>p. proxyCpp e = Some p \<Longrightarrow> proxy_at (a @ [0]) p"
    and b: "ec_error d = own_error b (proxyCpp d)" "\<And>p. proxyCpp d = Some p \<Longrightarrow> proxy_at (b @ [0]) p"
    using assms by (auto simp: error_at_own)
  have new: "error_at s (ErrorCpp_new s m c q)" "error_value_of (ErrorCpp_new s m c q) = \<lparr>ev_message = m, ev_code = c, ev_peer = map_option proxy_value q\<rparr>"
    "error_at s (ErrorCpp_copy s e)" "error_value_of (ErrorCpp_copy s e) = error_value_of e"
    by (auto simp: error_at_own proxy_at_own error_ops proxy_ops error_value_of_def proxy_value_def [abs_def] Let_def map_option.compositionality comp_def)
  have mv: "error_at s (fst (ErrorCpp_move mv s e))" "error_value_of (fst (ErrorCpp_move mv s e)) = error_value_of e" "error_at a (snd (ErrorCpp_move mv s e))"
    using a by (auto simp: error_at_own proxy_at_own error_ops proxy_ops error_value_of_def proxy_value_def [abs_def] own_error_def Let_def
        map_option.compositionality comp_def split: option.splits)
  have asg: "error_at b (ErrorCpp_assign b d a e)" "a \<noteq> b \<Longrightarrow> error_value_of (ErrorCpp_assign b d a e) = error_value_of e"
    using a b by (auto simp: error_at_own proxy_at_own error_ops proxy_ops error_value_of_def proxy_value_def Let_def split: option.splits)
  have masg: "a \<noteq> b \<Longrightarrow> error_at b (fst (ErrorCpp_move_assign mv b d a e))"
    "a \<noteq> b \<Longrightarrow> error_value_of (fst (ErrorCpp_move_assign mv b d a e)) = error_value_of e"
    "a \<noteq> b \<Longrightarrow> error_at a (snd (ErrorCpp_move_assign mv b d a e))"
    using a b by (auto simp: error_at_own proxy_at_own error_ops proxy_ops error_value_of_def proxy_value_def own_error_def Let_def split: option.splits)
  show ?thesis using new mv asg masg by (simp add: ErrorCpp_assign_def ErrorCpp_move_assign_def)
qed

lemma result_parts:
  fixes self errorsCpp successfulCpp
  defines "r \<equiv> ProxyResultCpp_new self errorsCpp successfulCpp"
  shows "map (view_error self r) (r_errors (proxyResult r)) = map (Some \<circ> error_value_of) errorsCpp"
    "map (view_peer self r) (r_successful (proxyResult r)) = map (Some \<circ> proxy_value) successfulCpp"
    "r_numErrors (proxyResult r) = length errorsCpp" "r_numSuccessful (proxyResult r) = length successfulCpp"
proof -
  have es: "errorsCppVector r = map (\<lambda>i. ErrorCpp_copy (self @ [1, i]) (errorsCpp ! i)) [0..<length errorsCpp]"
    and ps: "successfulCppVector r = map (\<lambda>i. ProxyCpp_copy (self @ [2, i]) (successfulCpp ! i)) [0..<length successfulCpp]"
    and res: "r_errors (proxyResult r) = map ec_error (errorsCppVector r)" "r_successful (proxyResult r) = map pc_proxy (successfulCppVector r)"
      "r_numErrors (proxyResult r) = length errorsCpp" "r_numSuccessful (proxyResult r) = length successfulCpp"
    by (simp_all add: r_def ProxyResultCpp_new_def Let_def)
  have e: "view_error self r (ec_error (ErrorCpp_copy (self @ [1, i]) (errorsCpp ! i))) = Some (error_value_of (errorsCpp ! i))"
    if "i < length errorsCpp" for i
    using that by (auto simp: view_error_def view_peer_def read_result_def peer_at_def es ErrorCpp_copy_def ProxyCpp_copy_def own_error_def own_peer_def
        read_error_def read_proxy_def error_value_of_def proxy_value_def Let_def split: option.splits)
  have p: "view_peer self r (pc_proxy (ProxyCpp_copy (self @ [2, i]) (successfulCpp ! i))) = Some (proxy_value (successfulCpp ! i))"
    if "i < length successfulCpp" for i
    using that by (simp add: view_peer_def read_result_def ps ProxyCpp_copy_def own_peer_def read_proxy_def proxy_value_def)
  show "map (view_error self r) (r_errors (proxyResult r)) = map (Some \<circ> error_value_of) errorsCpp"
    by (rule nth_equalityI) (simp_all add: res es e del: One_nat_def)
  show "map (view_peer self r) (r_successful (proxyResult r)) = map (Some \<circ> proxy_value) successfulCpp"
    by (rule nth_equalityI) (simp_all add: res ps p)
  show "r_numErrors (proxyResult r) = length errorsCpp" "r_numSuccessful (proxyResult r) = length successfulCpp" using res by simp_all
qed

lemma result_objects:
  fixes self es ps
  defines "r \<equiv> ProxyResultCpp_new self es ps"
  shows "length (errorsCppVector r) = length es" "length (successfulCppVector r) = length ps"
    "r_errors (proxyResult r) = map ec_error (errorsCppVector r)" "r_successful (proxyResult r) = map pc_proxy (successfulCppVector r)"
    "i < length es \<Longrightarrow> error_at (self @ [1, i]) (errorsCppVector r ! i)" "j < length ps \<Longrightarrow> proxy_at (self @ [2, j]) (successfulCppVector r ! j)"
  by (auto simp: r_def ProxyResultCpp_new_def Let_def error_at_own proxy_at_own ErrorCpp_copy_def ProxyCpp_copy_def)



end
