(* ===== verification/Stream_Part.thy ===== *)
theory Stream_Part
  imports Prelude
begin

text \<open>
  Ethereum addresses, ENS names, stream ids and stream part ids (\<^verbatim>\<open>EthereumAddress.cppm\<close>, \<^verbatim>\<open>ENSName.cppm\<close>,
  \<^verbatim>\<open>toEthereumAddressOrENSName.cppm\<close>, \<^verbatim>\<open>StreamID.cppm\<close>, \<^verbatim>\<open>partition.cppm\<close>, \<^verbatim>\<open>StreamPartID.cppm\<close>), with
  the exceptions they throw as values.  \<^verbatim>\<open>std::stoul\<close> is modelled as the standard describes it for a
  64-bit \<^verbatim>\<open>unsigned long\<close> in the C locale.
\<close>

section \<open>Standard library\<close>

definition is_space :: "char \<Rightarrow> bool" where
  "is_space c \<longleftrightarrow> of_char c = (32::nat) \<or> (9 \<le> (of_char c :: nat) \<and> of_char c \<le> (13::nat))"

definition is_digit :: "char \<Rightarrow> bool" where
  "is_digit c \<longleftrightarrow> 48 \<le> (of_char c :: nat) \<and> of_char c \<le> (57::nat)"

text \<open>\<^verbatim>\<open>std::tolower\<close> on the bytes of the ASCII range; the other bytes are left alone.\<close>

definition to_lower :: "char \<Rightarrow> char" where
  "to_lower c = (if 65 \<le> (of_char c :: nat) \<and> of_char c \<le> (90::nat) then char_of (of_char c + (32::nat)) else c)"

definition stoul_sign :: "string \<Rightarrow> bool \<times> string" where
  "stoul_sign s =
     (case s of [] \<Rightarrow> (False, s)
      | c # t \<Rightarrow> (if c = CHR ''-'' then (True, t) else if c = CHR ''+'' then (False, t) else (False, s)))"

definition stoul :: "string \<Rightarrow> cpp_error + 64 word" where
  "stoul str =
     (case stoul_sign (dropWhile is_space str) of
        (neg, s) \<Rightarrow>
          (let digits = takeWhile is_digit s; v = digits_value digits
           in if digits = [] then Inl (InvalidArgument ''stoul'')
              else if 2 ^ 64 \<le> v then Inl OutOfRange
              else Inr (if neg then - of_nat v else of_nat v)))"

text \<open>The parts of a string around the last, or the first, occurrence of a character.\<close>

definition split_last :: "char \<Rightarrow> string \<Rightarrow> (string \<times> string) option" where
  "split_last c s =
     (if c \<in> set s then Some (rev (drop 1 (dropWhile (\<lambda>x. x \<noteq> c) (rev s))), rev (takeWhile (\<lambda>x. x \<noteq> c) (rev s))) else None)"

definition split_first :: "char \<Rightarrow> string \<Rightarrow> (string \<times> string) option" where
  "split_first c s = (if c \<in> set s then Some (takeWhile (\<lambda>x. x \<noteq> c) s, dropWhile (\<lambda>x. x \<noteq> c) s) else None)"

lemma split_last_append: "c \<notin> set t \<Longrightarrow> split_last c (s @ c # t) = Some (s, t)"
proof -
  assume c: "c \<notin> set t"
  have "dropWhile (\<lambda>x. x \<noteq> c) (rev t @ c # rev s) = c # rev s" by (subst dropWhile_append2) (use c in auto)
  moreover have "takeWhile (\<lambda>x. x \<noteq> c) (rev t @ c # rev s) = rev t" by (subst takeWhile_append2) (use c in auto)
  ultimately show ?thesis by (simp add: split_last_def)
qed

lemma split_last_Some: "split_last c s = Some (a, b) \<Longrightarrow> s = a @ c # b \<and> c \<notin> set b"
proof -
  assume "split_last c s = Some (a, b)"
  then have mem: "c \<in> set s" and ab: "a = rev (drop 1 (dropWhile (\<lambda>x. x \<noteq> c) (rev s)))" "b = rev (takeWhile (\<lambda>x. x \<noteq> c) (rev s))"
    by (auto simp: split_last_def split: if_splits)
  then have "dropWhile (\<lambda>x. x \<noteq> c) (rev s) = c # drop 1 (dropWhile (\<lambda>x. x \<noteq> c) (rev s))"
    using hd_dropWhile [of "\<lambda>x. x \<noteq> c" "rev s"]
    by (cases "dropWhile (\<lambda>x. x \<noteq> c) (rev s)") (auto simp: dropWhile_eq_Nil_conv)
  then have "rev s = takeWhile (\<lambda>x. x \<noteq> c) (rev s) @ c # drop 1 (dropWhile (\<lambda>x. x \<noteq> c) (rev s))"
    by (metis takeWhile_dropWhile_id)
  then have "s = a @ c # b" unfolding ab by (metis rev.simps(2) rev_append rev_rev_ident append_assoc append_Cons append_Nil)
  moreover have "c \<notin> set b" unfolding ab by (auto dest: set_takeWhileD)
  ultimately show ?thesis ..
qed

section \<open>Addresses and names\<close>

definition is_hex :: "char \<Rightarrow> bool" where
  "is_hex c \<longleftrightarrow>
     is_digit c \<or> (97 \<le> (of_char c :: nat) \<and> of_char c \<le> (102::nat)) \<or> (65 \<le> (of_char c :: nat) \<and> of_char c \<le> (70::nat))"

definition toEthereumAddress :: "string \<Rightarrow> cpp_error + string" where
  "toEthereumAddress str =
     (if length str = 42 \<and> str ! 0 = CHR ''0'' \<and> str ! 1 = CHR ''x'' \<and> list_all is_hex (drop 2 str) then Inr str
      else Inl (RuntimeError (''not a valid Ethereum address: '' @ str)))"

definition isENSNameFormatIgnoreCase :: "string \<Rightarrow> bool" where
  "isENSNameFormatIgnoreCase str \<longleftrightarrow> CHR ''.'' \<in> set str"

definition toENSName :: "string \<Rightarrow> cpp_error + string" where
  "toENSName str =
     (if isENSNameFormatIgnoreCase str then Inr (map to_lower str)
      else Inl (RuntimeError (''not a valid ENS name: '' @ str)))"

definition toEthereumAddressOrENSName :: "string \<Rightarrow> cpp_error + string" where
  "toEthereumAddressOrENSName str = (if isENSNameFormatIgnoreCase str then toENSName str else toEthereumAddress str)"

section \<open>Stream ids\<close>

definition toStreamID :: "string \<Rightarrow> string option \<Rightarrow> cpp_error + string" where
  "toStreamID streamIdOrPath domain =
     (if streamIdOrPath = [] then Inl (RuntimeError ''stream id may not be empty'')
      else (case split_first (CHR ''/'') streamIdOrPath of
              None \<Rightarrow> Inr streamIdOrPath
            | Some (pre, path) \<Rightarrow>
                (if pre = []
                 then (case domain of
                         None \<Rightarrow> Inl (RuntimeError (''path-only format '' @ [CHR 0x22] @ streamIdOrPath @ [CHR 0x22] @
                                   '' provided without domain''))
                       | Some d \<Rightarrow> Inr (d @ streamIdOrPath))
                 else (case toEthereumAddressOrENSName pre of
                         Inl e \<Rightarrow> Inl e
                       | Inr d \<Rightarrow> Inr (d @ path)))))"

section \<open>Stream part ids\<close>

definition MAX_PARTITION_COUNT :: "32 word" where
  "MAX_PARTITION_COUNT = 100"

definition u32_to_string :: "32 word \<Rightarrow> string" where
  "u32_to_string n = nat_to_string (unat n)"

definition ensureValidStreamPartitionIndex :: "32 word option \<Rightarrow> cpp_error + unit" where
  "ensureValidStreamPartitionIndex streamPartition =
     (case streamPartition of
        None \<Rightarrow> Inl BadOptionalAccess
      | Some n \<Rightarrow> (if n \<ge> MAX_PARTITION_COUNT then Inl (InvalidArgument (''invalid streamPartition value: '' @ u32_to_string n))
                   else Inr ()))"

definition toStreamPartID :: "string \<Rightarrow> 32 word \<Rightarrow> cpp_error + string" where
  "toStreamPartID streamId streamPartition =
     (case ensureValidStreamPartitionIndex (Some streamPartition) of
        Inl e \<Rightarrow> Inl e
      | Inr _ \<Rightarrow> Inr (streamId @ ''#'' @ u32_to_string streamPartition))"

text \<open>The conversion of the \<^verbatim>\<open>unsigned long\<close> to \<^verbatim>\<open>std::optional<uint32_t>\<close> drops the upper half.\<close>

definition parseRawElements :: "string \<Rightarrow> cpp_error + (string \<times> 32 word option)" where
  "parseRawElements str =
     (case split_last (CHR ''#'') str of
        None \<Rightarrow> Inr (str, None)
      | Some (before, after) \<Rightarrow>
          (if after = [] then Inr (str, None)
           else (case stoul after of Inl e \<Rightarrow> Inl e | Inr v \<Rightarrow> Inr (before, Some (ucast v)))))"

definition sp_parse :: "string \<Rightarrow> cpp_error + string" where
  "sp_parse str =
     (case parseRawElements str of
        Inl e \<Rightarrow> Inl e
      | Inr (streamId, streamPartition) \<Rightarrow>
          (if streamPartition = None then Inl (InvalidArgument (''invalid streamPartId string: '' @ str))
           else (case toStreamID streamId None of
                   Inl e \<Rightarrow> Inl e
                 | Inr _ \<Rightarrow>
                     (case ensureValidStreamPartitionIndex streamPartition of
                        Inl e \<Rightarrow> Inl e
                      | Inr _ \<Rightarrow> Inr str))))"

definition getStreamIDAndPartition :: "string \<Rightarrow> cpp_error + (string \<times> 32 word option)" where
  "getStreamIDAndPartition streamPartId = parseRawElements streamPartId"

definition getStreamID :: "string \<Rightarrow> cpp_error + string" where
  "getStreamID streamPartId = map_sum id fst (getStreamIDAndPartition streamPartId)"

definition getStreamPartition :: "string \<Rightarrow> cpp_error + 32 word option" where
  "getStreamPartition streamPartId = map_sum id snd (getStreamIDAndPartition streamPartId)"

text \<open>The canonical form that \<^verbatim>\<open>parseStreamPartIdChecked\<close> of the C API derives from a parsed id.\<close>

definition sp_canonical :: "string \<Rightarrow> cpp_error + string" where
  "sp_canonical str =
     (case sp_parse str of
        Inl e \<Rightarrow> Inl e
      | Inr parsed \<Rightarrow>
          (case parseRawElements parsed of
             Inr (streamId, Some n) \<Rightarrow> toStreamPartID streamId n
           | Inr (_, None) \<Rightarrow> Inl BadOptionalAccess
           | Inl e \<Rightarrow> Inl e))"

section \<open>Numerals\<close>

lemma nat_to_string_is_digit: "c \<in> set (nat_to_string n) \<Longrightarrow> is_digit c"
  using nat_to_string_digits [of c n] by (simp add: is_digit_def)

lemma nat_to_string_ne [simp]: "nat_to_string n \<noteq> []"
  by (subst nat_to_string.simps) simp

lemma digit_plain: "is_digit c \<Longrightarrow> \<not> is_space c \<and> c \<noteq> CHR ''-'' \<and> c \<noteq> CHR ''+'' \<and> c \<noteq> CHR ''#''"
  by (auto simp: is_digit_def is_space_def)

lemma stoul_numeral:
  assumes n: "n < 2 ^ 64" and rest: "rest = [] \<or> \<not> is_digit (hd rest)"
  shows "stoul (nat_to_string n @ rest) = Inr (of_nat n)"
proof -
  obtain c t where ct: "nat_to_string n = c # t" by (cases "nat_to_string n") auto
  have "is_digit c" using nat_to_string_is_digit [of c n] ct by simp
  then have drop: "dropWhile is_space (nat_to_string n @ rest) = nat_to_string n @ rest"
    and sgn: "stoul_sign (nat_to_string n @ rest) = (False, nat_to_string n @ rest)"
    using digit_plain [of c] by (simp_all add: ct stoul_sign_def)
  have "takeWhile is_digit rest = []" using rest by (cases rest) auto
  then have "takeWhile is_digit (nat_to_string n @ rest) = nat_to_string n"
    using nat_to_string_is_digit by (simp add: takeWhile_append2)
  then show ?thesis using n by (simp add: stoul_def drop sgn Let_def nat_to_string_value)
qed

lemma u32_numeral: "stoul (u32_to_string n) = Inr (ucast n)" "CHR ''#'' \<notin> set (u32_to_string n)" "u32_to_string n \<noteq> []"
proof -
  have "unat n < 2 ^ LENGTH(32)" by (rule unsigned_less)
  then have "unat n < 2 ^ 64" by simp
  from stoul_numeral [OF this, of "[]"] show "stoul (u32_to_string n) = Inr (ucast n)" by (simp add: u32_to_string_def)
  show "CHR ''#'' \<notin> set (u32_to_string n)" using nat_to_string_is_digit digit_plain by (fastforce simp: u32_to_string_def)
qed (simp add: u32_to_string_def)

lemma ucast_down_up: "ucast (ucast n :: 64 word) = (n :: 32 word)"
  by (rule bit_word_eqI) (simp add: bit_simps)

lemma ucast_of_nat_64: "m < 2 ^ 64 \<Longrightarrow> (ucast (of_nat m :: 64 word) :: 32 word) = of_nat m"
  by (simp add: unsigned_of_nat take_bit_nat_eq_self)

lemma parse_canonical: "parseRawElements (sid @ ''#'' @ u32_to_string n) = Inr (sid, Some n)"
  using split_last_append [OF u32_numeral(2), of sid n] u32_numeral(1,3) [of n]
  by (simp add: parseRawElements_def ucast_down_up)

text \<open>Evaluation on concrete ids.\<close>

lemma nat_to_string_small: "n < 10 \<Longrightarrow> nat_to_string n = [char_of (48 + n)]"
  by (subst nat_to_string.simps) simp

lemma nat_to_string_large: "10 \<le> n \<Longrightarrow> nat_to_string n = nat_to_string (n div 10) @ [char_of (48 + n mod 10)]"
  by (subst nat_to_string.simps) simp

lemma digit_chars:
  "char_of (48::nat) = CHR ''0''" "char_of (49::nat) = CHR ''1''" "char_of (50::nat) = CHR ''2''" "char_of (51::nat) = CHR ''3''"
  "char_of (52::nat) = CHR ''4''" "char_of (53::nat) = CHR ''5''" "char_of (54::nat) = CHR ''6''" "char_of (55::nat) = CHR ''7''"
  "char_of (56::nat) = CHR ''8''" "char_of (57::nat) = CHR ''9''"
  by code_simp+

lemmas sp_eval = sp_canonical_def sp_parse_def parseRawElements_def split_last_def split_first_def stoul_def stoul_sign_def is_space_def is_digit_def
  digits_value_def toStreamID_def ensureValidStreamPartitionIndex_def toStreamPartID_def MAX_PARTITION_COUNT_def u32_to_string_def
  nat_to_string_small digit_chars word_le_nat_alt Let_def

section \<open>Properties\<close>

text \<open>
  The canonical form of a stream part id is stable: it is accepted again, denotes the same stream and the same partition,
  is its own canonical form, and two ids have the same canonical form exactly when they denote the same
  stream and partition.
\<close>

theorem stream_part_canonical:
  assumes "sp_canonical s = Inr c"
  shows "sp_parse c = Inr c \<and> sp_canonical c = Inr c \<and> getStreamID c = getStreamID s \<and> getStreamPartition c = getStreamPartition s \<and>
    (\<forall>s'. sp_canonical s' = Inr c \<longleftrightarrow>
       (\<exists>d. sp_canonical s' = Inr d) \<and> getStreamID s' = getStreamID s \<and> getStreamPartition s' = getStreamPartition s)"
proof -
  have char: "sp_canonical t = Inr d \<longleftrightarrow>
      (\<exists>sid n x. parseRawElements t = Inr (sid, Some n) \<and> toStreamID sid None = Inr x \<and> n < MAX_PARTITION_COUNT \<and>
        d = sid @ ''#'' @ u32_to_string n)" for t d
    by (auto simp: sp_canonical_def sp_parse_def toStreamPartID_def ensureValidStreamPartitionIndex_def split: sum.splits prod.splits option.splits if_splits)
  obtain sid n x where s: "parseRawElements s = Inr (sid, Some n)" "toStreamID sid None = Inr x" "n < MAX_PARTITION_COUNT"
      "c = sid @ ''#'' @ u32_to_string n"
    using assms unfolding char by blast
  note c = parse_canonical [of sid n, folded s(4)]
  have inj: "m = n \<and> tid = sid" if "sid @ ''#'' @ u32_to_string n = tid @ ''#'' @ u32_to_string m" for m tid
    using that parse_canonical [of sid n] parse_canonical [of tid m] by (metis old.sum.inject(2) option.inject prod.inject)
  have "sp_canonical s' = Inr c \<longleftrightarrow> (\<exists>d. sp_canonical s' = Inr d) \<and> getStreamID s' = getStreamID s \<and> getStreamPartition s' = getStreamPartition s" for s'
  proof
    assume "sp_canonical s' = Inr c"
    then show "(\<exists>d. sp_canonical s' = Inr d) \<and> getStreamID s' = getStreamID s \<and> getStreamPartition s' = getStreamPartition s"
      using s inj unfolding char by (auto simp: getStreamID_def getStreamPartition_def getStreamIDAndPartition_def)
  next
    assume "(\<exists>d. sp_canonical s' = Inr d) \<and> getStreamID s' = getStreamID s \<and> getStreamPartition s' = getStreamPartition s"
    then show "sp_canonical s' = Inr c"
      using s unfolding char by (auto simp: getStreamID_def getStreamPartition_def getStreamIDAndPartition_def)
  qed
  moreover have "sp_canonical c = Inr c" unfolding char using c s by blast
  moreover have "sp_parse c = Inr c"
    using c s by (simp add: sp_parse_def ensureValidStreamPartitionIndex_def)
  ultimately show ?thesis using c s by (simp add: getStreamID_def getStreamPartition_def getStreamIDAndPartition_def)
qed

theorem stream_part_canonical_witness:
  "sp_canonical ''abc#01'' = Inr ''abc#1'' \<and> sp_canonical ''abc#1'' = Inr ''abc#1''"
proof -
  have "sp_canonical ''abc#01'' = Inr ''abc#1''"
    by (simp add: sp_eval)
  from stream_part_canonical [OF this] this show ?thesis by blast
qed

text \<open>
  \<^verbatim>\<open>parse\<close> takes the partition modulo 2 to the 32nd and ignores what follows its digits: a partition that is out
  of range by a multiple of that is accepted as a valid one.
\<close>

theorem stream_part_truncates:
  assumes "toStreamID sid None = Inr x" "n < 100" "k * 2 ^ 32 + n < 2 ^ 64" "rest = [] \<or> \<not> is_digit (hd rest)" "CHR ''#'' \<notin> set rest"
  shows "sp_parse (sid @ ''#'' @ nat_to_string (k * 2 ^ 32 + n) @ rest) = Inr (sid @ ''#'' @ nat_to_string (k * 2 ^ 32 + n) @ rest) \<and>
    sp_canonical (sid @ ''#'' @ nat_to_string (k * 2 ^ 32 + n) @ rest) = Inr (sid @ ''#'' @ nat_to_string n)"
proof -
  let ?m = "k * 2 ^ 32 + n"
  have "CHR ''#'' \<notin> set (nat_to_string ?m @ rest)"
    using assms(5) nat_to_string_is_digit digit_plain by fastforce
  then have raw: "parseRawElements (sid @ ''#'' @ nat_to_string ?m @ rest) = Inr (sid, Some (ucast (of_nat ?m :: 64 word)))"
    using split_last_append [of "CHR ''#''" "nat_to_string ?m @ rest" sid] stoul_numeral [OF assms(3,4)]
    by (simp add: parseRawElements_def)
  have "(ucast (of_nat ?m :: 64 word) :: 32 word) = of_nat ?m" by (rule ucast_of_nat_64 [OF assms(3)])
  also have "\<dots> = of_nat n" by (simp only: word_of_nat_eq_iff) (simp add: take_bit_eq_mod)
  finally have u: "(ucast (of_nat ?m :: 64 word) :: 32 word) = of_nat n" .
  have un: "unat (of_nat n :: 32 word) = n" using assms(2) by (simp add: unat_of_nat)
  then have lt: "(of_nat n :: 32 word) < MAX_PARTITION_COUNT" using assms(2) by (simp add: word_less_nat_alt MAX_PARTITION_COUNT_def)
  have "sp_parse (sid @ ''#'' @ nat_to_string ?m @ rest) = Inr (sid @ ''#'' @ nat_to_string ?m @ rest)"
    using raw lt assms(1) unfolding u by (simp add: sp_parse_def ensureValidStreamPartitionIndex_def)
  then show ?thesis using raw lt un unfolding u
    by (simp add: sp_canonical_def toStreamPartID_def ensureValidStreamPartitionIndex_def u32_to_string_def)
qed

theorem stream_part_truncates_witness:
  "sp_parse ''abc#4294967297x'' = Inr ''abc#4294967297x'' \<and> sp_canonical ''abc#4294967297x'' = Inr ''abc#1''"
proof -
  have x: "toStreamID ''abc'' None = Inr ''abc''" by (simp add: sp_eval)
  have d: "''x'' = [] \<or> \<not> is_digit (hd ''x'')" by (simp add: is_digit_def)
  have num: "nat_to_string (1 * 2 ^ 32 + 1) = ''4294967297''" "nat_to_string 1 = ''1''"
    by (simp_all add: nat_to_string_small nat_to_string_large digit_chars)
  have "sp_parse (''abc'' @ ''#'' @ nat_to_string (1 * 2 ^ 32 + 1) @ ''x'') = Inr (''abc'' @ ''#'' @ nat_to_string (1 * 2 ^ 32 + 1) @ ''x'') \<and>
    sp_canonical (''abc'' @ ''#'' @ nat_to_string (1 * 2 ^ 32 + 1) @ ''x'') = Inr (''abc'' @ ''#'' @ nat_to_string 1)"
    by (rule stream_part_truncates [OF x _ _ d]) simp_all
  then show ?thesis unfolding num by simp
qed

end
