(* ===== verification/Lib_Api.thy ===== *)
theory Lib_Api
  imports Api_Values Stream_Part
begin

text \<open>
  The C API of the shared library, \<^verbatim>\<open>LibProxyClientApi\<close> in \<^verbatim>\<open>streamrproxyclient.cpp\<close>: the registry of results, the proxy
  clients, the network nodes, and the C functions on top of them.  Each call is a function of the state of the
  library.  Parameters are the code outside of the file: the URL parser, the hexadecimal codec, the memory
  allocator, the cryptographic primitives (record \<open>api_env\<close>), the value of \<^verbatim>\<open>rand()\<close> and of the clock, and what the
  network answers.  \<open>Inl e\<close> is an exception that leaves the call.  Building the connection manager, the proxy client and the network
  node, and starting the first two, is taken not to throw.
\<close>

section \<open>Environment\<close>

text \<open>What the code reads of \<^verbatim>\<open>ada::url_aggregator\<close>.\<close>

record ada_url =
  get_hostname :: string
  get_port :: string
  has_port :: bool
  get_protocol :: string

record api_env =
  envHex :: hex_codec
  envUrl :: "string \<Rightarrow> ada_url option"
  envAlloc :: "nat list \<Rightarrow> nat"
  envKeccak :: "string \<Rightarrow> bytes"
  envSecp :: "bytes \<Rightarrow> bytes \<Rightarrow> bytes"

datatype api_exn = InvalidUrlException string | StdException cpp_error

definition cpp_what :: "cpp_error \<Rightarrow> string" where
  "cpp_what e =
     (case e of RuntimeError m \<Rightarrow> m | LogicError m \<Rightarrow> m | InvalidArgument m \<Rightarrow> m | OutOfRange \<Rightarrow> ''stoul''
      | BadOptionalAccess \<Rightarrow> ''bad optional access'' | NonHexInput \<Rightarrow> ''std::exception'' | UndefinedBehaviour \<Rightarrow> [])"

definition is_runtime_error :: "cpp_error \<Rightarrow> bool" where
  "is_runtime_error e \<longleftrightarrow> (case e of RuntimeError _ \<Rightarrow> True | _ \<Rightarrow> False)"

definition is_invalid_argument :: "cpp_error \<Rightarrow> bool" where
  "is_invalid_argument e \<longleftrightarrow> (case e of InvalidArgument _ \<Rightarrow> True | _ \<Rightarrow> False)"

section \<open>Messages and signatures\<close>

datatype ContentType = JSON | BINARY
datatype EncryptionType = ENC_NONE | AES
datatype SignatureType = SIG_NONE | ECDSA_SECP256K1_EVM

record ApiMessageID =
  streamid :: string
  streampartition :: "32 word"
  timestamp :: int
  sequencenumber :: "32 word"
  publisherid :: bytes
  messagechainid :: string

text \<open>A message of the network; its body is a content message or one of the key exchange messages.\<close>

record ContentMessage =
  content :: string
  contenttype :: ContentType
  encryptiontype :: EncryptionType

record ApiMessage =
  messageid :: ApiMessageID
  contentmessage :: "ContentMessage option"
  signature :: "bytes option"
  signaturetype :: SignatureType

definition SIGN_MAGIC :: string where
  "SIGN_MAGIC = [CHR 0x19] @ ''Ethereum Signed Message:'' @ [CHR 0x0A]"

definition su_hash :: "api_env \<Rightarrow> string \<Rightarrow> bytes" where
  "su_hash env payload = envKeccak env (SIGN_MAGIC @ nat_to_string (length payload) @ payload)"

definition createSignature :: "api_env \<Rightarrow> string \<Rightarrow> string \<Rightarrow> cpp_error + bytes" where
  "createSignature env payload privateKeyHex =
     (let hash = su_hash env payload
      in case hexToBinaryString (envHex env) privateKeyHex of Inl e \<Rightarrow> Inl e | Inr privateKey \<Rightarrow> Inr (envSecp env hash privateKey))"

definition i32_to_string :: "32 word \<Rightarrow> string" where
  "i32_to_string w = to_string (sint w)"

definition signaturePayload :: "ApiMessageID \<Rightarrow> string \<Rightarrow> string \<Rightarrow> string" where
  "signaturePayload messageId publisherIdHex contentString =
     streamid messageId @ i32_to_string (streampartition messageId) @ to_string (timestamp messageId) @
     i32_to_string (sequencenumber messageId) @ publisherIdHex @ messagechainid messageId @ contentString"

text \<open>
  \<^verbatim>\<open>buildStreamMessage\<close>.  The content is the \<open>contentLength\<close> bytes at the pointer; \<open>now\<close> is the clock.
\<close>

definition buildStreamMessage ::
  "api_env \<Rightarrow> int \<Rightarrow> string \<Rightarrow> string \<Rightarrow> 32 word \<Rightarrow> string \<Rightarrow> string option \<Rightarrow> cpp_error + ApiMessage" where
  "buildStreamMessage env now publisherIdHex0 streamPartID sequenceNumber contentString ethereumPrivateKey =
     (let publisherIdHex = (if take 2 publisherIdHex0 = ''0x'' then publisherIdHex0 else ''0x'' @ publisherIdHex0)
      in case hexToBinaryString (envHex env) publisherIdHex of
           Inl e \<Rightarrow> Inl e
         | Inr publisherId \<Rightarrow>
             (case getStreamPartition streamPartID of
                Inl e \<Rightarrow> Inl e
              | Inr None \<Rightarrow> Inl BadOptionalAccess
              | Inr (Some part) \<Rightarrow>
                  (case getStreamID streamPartID of
                     Inl e \<Rightarrow> Inl e
                   | Inr streamId \<Rightarrow>
                       (let messageId = \<lparr>streamid = streamId, streampartition = part, timestamp = now,
                              sequencenumber = sequenceNumber, publisherid = publisherId, messagechainid = ''1''\<rparr>;
                            message = \<lparr>messageid = messageId,
                              contentmessage = Some \<lparr>content = contentString, contenttype = BINARY, encryptiontype = ENC_NONE\<rparr>,
                              signature = None, signaturetype = SIG_NONE\<rparr>
                        in case ethereumPrivateKey of
                             None \<Rightarrow> Inr message
                           | Some key \<Rightarrow>
                               (case createSignature env (signaturePayload messageId publisherIdHex contentString) key of
                                  Inl e \<Rightarrow> Inl e
                                | Inr sig \<Rightarrow> Inr (message\<lparr>signature := Some sig, signaturetype := ECDSA_SECP256K1_EVM\<rparr>))))))"

section \<open>State\<close>

record proxy_client =
  pcLocalPeer :: PeerDescriptor
  pcStreamPartId :: string
  pcSequenceNumber :: "32 word"

text \<open>A subscription's listener on the node: what the lambda of \<^verbatim>\<open>streamrNodeSubscribe\<close> captures.\<close>

record listener =
  lsToken :: nat
  lsStreamPartId :: string
  lsStreamId :: string
  lsStreamPartition :: "32 word"
  lsCallback :: nat
  lsUserData :: nat

record streamr_node =
  snOwnAddress :: string
  snSequenceNumber :: "32 word"
  snStarted :: bool
  snStopped :: bool
  snSubscriptions :: "(64 word, nat) omap"
  snPeerDescriptor :: PeerDescriptor
  snEntryPoints :: "PeerDescriptor list"
  snAcceptProxyConnections :: bool
  snListeners :: "listener list"

text \<open>What the library does to the components it drives, in order.\<close>

datatype api_effect =
    ClientStart "64 word"
  | ClientStop "64 word"
  | NodeStart "64 word" bool
  | NodeJoinOwnDht "64 word"
  | NodeStop "64 word"
  | NodeSetEntryPoints "64 word" string "PeerDescriptor list"
  | NodeJoin "64 word" string
  | NodeLeave "64 word" string
  | NodeBroadcast "64 word" ApiMessage
  | NodeSetProxies "64 word" string "PeerDescriptor list" nat string "64 word option"

record api =
  apiClients :: "(64 word, proxy_client) omap"
  apiResults :: "(nat, ProxyResultCpp) omap"
  apiNodes :: "(64 word, streamr_node) omap"
  apiLog :: "api_effect list"

definition api_new :: api where
  "api_new = \<lparr>apiClients = [], apiResults = [], apiNodes = [], apiLog = []\<rparr>"

definition log_effect :: "api_effect \<Rightarrow> api \<Rightarrow> api" where
  "log_effect e a = a\<lparr>apiLog := apiLog a @ [e]\<rparr>"

section \<open>Results\<close>

text \<open>Temporaries live at an address of their own and are copied into the result.\<close>

abbreviation tmp_addr :: addr where
  "tmp_addr \<equiv> []"

abbreviation mk_error :: "string \<Rightarrow> string \<Rightarrow> ProxyCpp option \<Rightarrow> ErrorCpp" where
  "mk_error message code p \<equiv> ErrorCpp_new tmp_addr message code p"

definition addResult :: "api_env \<Rightarrow> api \<Rightarrow> ErrorCpp list \<Rightarrow> ProxyCpp list \<Rightarrow> api \<times> nat" where
  "addResult env a errorsCpp successfulCpp =
     (let r = envAlloc env (om_keys (apiResults a))
      in (a\<lparr>apiResults := om_put r (ProxyResultCpp_new [r] errorsCpp successfulCpp) (apiResults a)\<rparr>, r))"

definition proxyClientResultDelete :: "api \<Rightarrow> nat \<Rightarrow> api" where
  "proxyClientResultDelete a r = a\<lparr>apiResults := om_erase r (apiResults a)\<rparr>"

text \<open>A call that ends with one error and returns \<open>v\<close>, and one that ends well.\<close>

definition fail_with :: "api_env \<Rightarrow> api \<Rightarrow> string \<Rightarrow> string \<Rightarrow> ProxyCpp option \<Rightarrow> 'v \<Rightarrow> cpp_error + (api \<times> nat \<times> 'v)" where
  "fail_with env a message code p v = (case addResult env a [mk_error message code p] [] of (a', r) \<Rightarrow> Inr (a', r, v))"

definition succeed_with :: "api_env \<Rightarrow> api \<Rightarrow> 'v \<Rightarrow> cpp_error + (api \<times> nat \<times> 'v)" where
  "succeed_with env a v = (case addResult env a [] [] of (a', r) \<Rightarrow> Inr (a', r, v))"

section \<open>Peer descriptors\<close>

definition createLocalPeerDescriptor :: "api_env \<Rightarrow> string \<Rightarrow> cpp_error + PeerDescriptor" where
  "createLocalPeerDescriptor env ownEthereumAddress =
     (case hexToBinaryString (envHex env) ownEthereumAddress of
        Inl e \<Rightarrow> Inl e
      | Inr nid \<Rightarrow> Inr \<lparr>nodeid = nid, region = 1, ipaddress = 0, websocket = None\<rparr>)"

definition createProxyPeerDescriptor :: "api_env \<Rightarrow> string \<Rightarrow> string \<Rightarrow> api_exn + PeerDescriptor" where
  "createProxyPeerDescriptor env proxyEthereumAddress websocketUrl =
     (case toEthereumAddress proxyEthereumAddress of
        Inl e \<Rightarrow> Inl (StdException e)
      | Inr ethereumAddress \<Rightarrow>
          (case hexToBinaryString (envHex env) ethereumAddress of
             Inl e \<Rightarrow> Inl (StdException e)
           | Inr nid \<Rightarrow>
               (case envUrl env websocketUrl of
                  None \<Rightarrow> Inl (InvalidUrlException (''Invalid websocket URL for proxy server '' @ websocketUrl))
                | Some parsedUrl \<Rightarrow>
                    (let secure = (get_protocol parsedUrl = ''wss'' \<or> get_protocol parsedUrl = ''https'');
                         port = (if has_port parsedUrl then map_sum id ucast (stoul (get_port parsedUrl))
                                 else if secure then Inr 443 else Inr 80)
                     in case port of
                          Inl e \<Rightarrow> Inl (StdException e)
                        | Inr portNumber \<Rightarrow>
                            Inr \<lparr>nodeid = nid, region = 0, ipaddress = 0,
                                 websocket = Some \<lparr>cm_port = portNumber, cm_host = get_hostname parsedUrl, cm_tls = secure\<rparr>\<rparr>))))"

text \<open>\<^verbatim>\<open>Connectivity::connectivityMethodToWebsocketUrl\<close>, and the proxy a descriptor is reported as.\<close>

definition connectivityMethodToWebsocketUrl :: "ConnectivityMethod \<Rightarrow> string" where
  "connectivityMethodToWebsocketUrl ws =
     (if cm_tls ws then ''wss://'' else ''ws://'') @ cm_host ws @ '':'' @ nat_to_string (unat (cm_port ws))"

text \<open>Reading an absent submessage of a protobuf message yields its default instance.\<close>

definition default_method :: ConnectivityMethod where
  "default_method = \<lparr>cm_port = 0, cm_host = [], cm_tls = False\<rparr>"

definition reported_proxy :: "api_env \<Rightarrow> PeerDescriptor \<Rightarrow> ProxyCpp" where
  "reported_proxy env pd =
     ProxyCpp_new tmp_addr (''0x'' @ getNodeIdFromPeerDescriptor (envHex env) pd)
       (connectivityMethodToWebsocketUrl (case websocket pd of Some ws \<Rightarrow> ws | None \<Rightarrow> default_method))"

text \<open>
  The loop shared by \<^verbatim>\<open>proxyClientConnect\<close> and \<^verbatim>\<open>parsePeerList\<close>: peers given as (ethereum address, websocket URL) are
  translated in order; the first that fails ends the call with an error about it.
\<close>

fun parse_peers :: "api_env \<Rightarrow> string \<Rightarrow> peer_value list \<Rightarrow> (cpp_error + ErrorCpp) + PeerDescriptor list" where
  "parse_peers env invalidUrlErrorCode [] = Inr []"
| "parse_peers env invalidUrlErrorCode ((ethereumAddress, websocketUrl) # peers) =
     (case createProxyPeerDescriptor env ethereumAddress websocketUrl of
        Inl (InvalidUrlException m) \<Rightarrow>
          Inl (Inr (mk_error m invalidUrlErrorCode (Some (ProxyCpp_new tmp_addr ethereumAddress websocketUrl))))
      | Inl (StdException e) \<Rightarrow>
          (if is_runtime_error e
           then Inl (Inr (mk_error (cpp_what e) ERROR_INVALID_ETHEREUM_ADDRESS (Some (ProxyCpp_new tmp_addr ethereumAddress websocketUrl))))
           else Inl (Inl e))
      | Inr pd \<Rightarrow>
          (case parse_peers env invalidUrlErrorCode peers of Inl x \<Rightarrow> Inl x | Inr pds \<Rightarrow> Inr (pd # pds)))"


section \<open>Proxy clients\<close>

text \<open>The destructor of a \<^verbatim>\<open>ProxyClientWrapper\<close> stops the client, its connection manager and its transport.\<close>

definition put_client :: "64 word \<Rightarrow> proxy_client \<Rightarrow> api \<Rightarrow> api" where
  "put_client handle c a =
     (let a1 = (if om_contains (apiClients a) handle then log_effect (ClientStop handle) a else a)
      in a1\<lparr>apiClients := om_put handle c (apiClients a1)\<rparr>)"

definition proxyClientNew :: "api_env \<Rightarrow> 64 word \<Rightarrow> api \<Rightarrow> string \<Rightarrow> string \<Rightarrow> cpp_error + (api \<times> nat \<times> 64 word)" where
  "proxyClientNew env rnd a ownEthereumAddress streamPartId =
     (case toEthereumAddress ownEthereumAddress of
        Inl e \<Rightarrow> (if is_runtime_error e then fail_with env a (cpp_what e) ERROR_INVALID_ETHEREUM_ADDRESS None 0 else Inl e)
      | Inr parsedEthereumAddress \<Rightarrow>
          (case sp_parse streamPartId of
             Inl e \<Rightarrow>
               (if is_invalid_argument e
                then fail_with env a (''Error in proxyClientNew: '' @ cpp_what e) ERROR_INVALID_STREAM_PART_ID None 0 else Inl e)
           | Inr parsedStreamPartID \<Rightarrow>
               (case createLocalPeerDescriptor env parsedEthereumAddress of
                  Inl e \<Rightarrow> Inl e
                | Inr localPeerDescriptor \<Rightarrow>
                    (let handle = rnd;
                         client = \<lparr>pcLocalPeer = localPeerDescriptor, pcStreamPartId = parsedStreamPartID, pcSequenceNumber = 1\<rparr>
                     in succeed_with env (put_client handle client (log_effect (ClientStart handle) a)) handle))))"

definition proxyClientDelete :: "api_env \<Rightarrow> api \<Rightarrow> 64 word \<Rightarrow> cpp_error + (api \<times> nat \<times> unit)" where
  "proxyClientDelete env a clientHandle =
     (let a1 = (if om_contains (apiClients a) clientHandle then log_effect (ClientStop clientHandle) a else a)
      in succeed_with env (a1\<lparr>apiClients := om_erase clientHandle (apiClients a1)\<rparr>) ())"

text \<open>
  What \<^verbatim>\<open>ProxyClient::setProxies\<close> returns: the failed peers with the message of their original exception, if they have
  one, and the connected peers.
\<close>

type_synonym connect_outcome = "(PeerDescriptor \<times> string option) list \<times> PeerDescriptor list"

definition connection_error :: "api_env \<Rightarrow> PeerDescriptor \<times> string option \<Rightarrow> ErrorCpp" where
  "connection_error env x =
     mk_error (case snd x of Some m \<Rightarrow> m | None \<Rightarrow> ''No original exception'') ERROR_PROXY_CONNECTION_FAILED (Some (reported_proxy env (fst x)))"

definition proxyClientConnect ::
  "api_env \<Rightarrow> (PeerDescriptor list \<Rightarrow> cpp_error + connect_outcome) \<Rightarrow> api \<Rightarrow> 64 word \<Rightarrow> peer_value list \<Rightarrow>
     cpp_error + (api \<times> nat \<times> 64 word)" where
  "proxyClientConnect env setProxies a clientHandle proxies =
     (if length proxies \<le> 0 then fail_with env a ''No proxies defined'' ERROR_NO_PROXIES_DEFINED None 0
      else (case om_find (apiClients a) clientHandle of
              None \<Rightarrow> fail_with env a (''Proxy client not found with handle '' @ nat_to_string (unat clientHandle))
                        ERROR_PROXY_CLIENT_NOT_FOUND None 0
            | Some client \<Rightarrow>
                (case parse_peers env ERROR_INVALID_PROXY_URL proxies of
                   Inl (Inl e) \<Rightarrow> Inl e
                 | Inl (Inr err) \<Rightarrow> (case addResult env a [err] [] of (a', r) \<Rightarrow> Inr (a', r, 0))
                 | Inr proxyPeerDescriptors \<Rightarrow>
                     (case setProxies proxyPeerDescriptors of
                        Inl e \<Rightarrow> Inl e
                      | Inr (connectionErrors, successfullyConnected) \<Rightarrow>
                          (case addResult env a (map (connection_error env) connectionErrors) (map (reported_proxy env) successfullyConnected) of
                             (a', r) \<Rightarrow> Inr (a', r, of_nat (length successfullyConnected)))))))"

definition getLocalEthereumAddress :: "api_env \<Rightarrow> proxy_client \<Rightarrow> string" where
  "getLocalEthereumAddress env client = getNodeIdFromPeerDescriptor (envHex env) (pcLocalPeer client)"

text \<open>\<^verbatim>\<open>createStreamMessage\<close>: the sequence number is taken from the client before the message is built.\<close>

definition createStreamMessage ::
  "api_env \<Rightarrow> int \<Rightarrow> proxy_client \<Rightarrow> string \<Rightarrow> string option \<Rightarrow> proxy_client \<times> (cpp_error + ApiMessage)" where
  "createStreamMessage env now client contentString ethereumPrivateKey =
     (client\<lparr>pcSequenceNumber := pcSequenceNumber client + 1\<rparr>,
      buildStreamMessage env now (getLocalEthereumAddress env client) (pcStreamPartId client) (pcSequenceNumber client)
        contentString ethereumPrivateKey)"

definition broadcast_error :: "api_env \<Rightarrow> PeerDescriptor \<Rightarrow> ErrorCpp" where
  "broadcast_error env pd = mk_error ''Failed to send message to proxy'' ERROR_PROXY_BROADCAST_FAILED (Some (reported_proxy env pd))"

definition proxyClientPublish ::
  "api_env \<Rightarrow> int \<Rightarrow> (ApiMessage \<Rightarrow> cpp_error + (PeerDescriptor list \<times> PeerDescriptor list)) \<Rightarrow> api \<Rightarrow> 64 word \<Rightarrow> string \<Rightarrow>
     string option \<Rightarrow> cpp_error + (api \<times> nat \<times> 64 word)" where
  "proxyClientPublish env now broadcast a clientHandle contentString ethereumPrivateKey =
     (case om_find (apiClients a) clientHandle of
        None \<Rightarrow> fail_with env a ''Proxy client  not found'' ERROR_PROXY_CLIENT_NOT_FOUND None 0
      | Some client \<Rightarrow>
          (case createStreamMessage env now client contentString ethereumPrivateKey of
             (client', built) \<Rightarrow>
               (let a1 = a\<lparr>apiClients := om_put clientHandle client' (apiClients a)\<rparr>
                in case built of
                     Inl e \<Rightarrow> fail_with env a1 (cpp_what e) ERROR_PROXY_BROADCAST_FAILED None 0
                   | Inr message \<Rightarrow>
                       (case broadcast message of
                          Inl e \<Rightarrow> fail_with env a1 (cpp_what e) ERROR_PROXY_BROADCAST_FAILED None 0
                        | Inr (failed, sent) \<Rightarrow>
                            (case addResult env a1 (map (broadcast_error env) failed) (map (reported_proxy env) sent) of
                               (a', r) \<Rightarrow> Inr (a', r, of_nat (length sent)))))))"

section \<open>Network nodes\<close>

definition put_node :: "64 word \<Rightarrow> streamr_node \<Rightarrow> api \<Rightarrow> api" where
  "put_node h n a = a\<lparr>apiNodes := om_put h n (apiNodes a)\<rparr>"

text \<open>\<^verbatim>\<open>StreamrNodeWrapper::stop\<close>; the second component says whether the network node was stopped.\<close>

definition sn_stop :: "streamr_node \<Rightarrow> streamr_node \<times> bool" where
  "sn_stop n = (if snStarted n \<and> \<not> snStopped n then (n\<lparr>snStopped := True\<rparr>, True) else (n, False))"

text \<open>The destructor of a wrapper that goes out of the map.\<close>

definition destroy_node :: "64 word \<Rightarrow> streamr_node \<Rightarrow> api \<Rightarrow> api" where
  "destroy_node h n a = (if snd (sn_stop n) then log_effect (NodeStop h) a else a)"

definition addSubscription :: "64 word \<Rightarrow> nat \<Rightarrow> streamr_node \<Rightarrow> streamr_node" where
  "addSubscription subscriptionHandle token n = n\<lparr>snSubscriptions := om_emplace subscriptionHandle token (snSubscriptions n)\<rparr>"

definition takeSubscription :: "64 word \<Rightarrow> streamr_node \<Rightarrow> streamr_node \<times> nat option" where
  "takeSubscription subscriptionHandle n =
     (case om_find (snSubscriptions n) subscriptionHandle of
        None \<Rightarrow> (n, None)
      | Some token \<Rightarrow> (n\<lparr>snSubscriptions := om_erase subscriptionHandle (snSubscriptions n)\<rparr>, Some token))"

definition node_not_found :: "api_env \<Rightarrow> api \<Rightarrow> 64 word \<Rightarrow> 'v \<Rightarrow> cpp_error + (api \<times> nat \<times> 'v)" where
  "node_not_found env a nodeHandle v =
     fail_with env a (''Streamr node not found with handle '' @ nat_to_string (unat nodeHandle)) ERROR_NODE_NOT_FOUND None v"

text \<open>\<^verbatim>\<open>findStreamrNode\<close>: the node, or the call ends; \<^verbatim>\<open>checkStreamrNodeRunning\<close>: the error that ends the call, if any.\<close>

definition with_node ::
  "api_env \<Rightarrow> api \<Rightarrow> 64 word \<Rightarrow> 'v \<Rightarrow> (streamr_node \<Rightarrow> cpp_error + (api \<times> nat \<times> 'v)) \<Rightarrow> cpp_error + (api \<times> nat \<times> 'v)" where
  "with_node env a nodeHandle v k =
     (case om_find (apiNodes a) nodeHandle of None \<Rightarrow> node_not_found env a nodeHandle v | Some n \<Rightarrow> k n)"

definition checkStreamrNodeRunning :: "streamr_node \<Rightarrow> (string \<times> string) option" where
  "checkStreamrNodeRunning n =
     (if \<not> snStarted n then Some (''The streamr node has not been started'', ERROR_NODE_NOT_STARTED)
      else if snStopped n then Some (''The streamr node has been stopped'', ERROR_NODE_STOPPED)
      else None)"

definition with_running_node ::
  "api_env \<Rightarrow> api \<Rightarrow> 64 word \<Rightarrow> 'v \<Rightarrow> (streamr_node \<Rightarrow> cpp_error + (api \<times> nat \<times> 'v)) \<Rightarrow> cpp_error + (api \<times> nat \<times> 'v)" where
  "with_running_node env a nodeHandle v k =
     with_node env a nodeHandle v
       (\<lambda>n. case checkStreamrNodeRunning n of Some (m, c) \<Rightarrow> fail_with env a m c None v | None \<Rightarrow> k n)"

definition parseStreamPartIdChecked ::
  "api_env \<Rightarrow> api \<Rightarrow> string \<Rightarrow> 'v \<Rightarrow> (string \<Rightarrow> cpp_error + (api \<times> nat \<times> 'v)) \<Rightarrow> cpp_error + (api \<times> nat \<times> 'v)" where
  "parseStreamPartIdChecked env a streamPartId v k =
     (case sp_canonical streamPartId of
        Inl e \<Rightarrow> (if is_invalid_argument e then fail_with env a (cpp_what e) ERROR_INVALID_STREAM_PART_ID None v else Inl e)
      | Inr parsed \<Rightarrow> k parsed)"

definition parsePeerList ::
  "api_env \<Rightarrow> api \<Rightarrow> peer_value list \<Rightarrow> string \<Rightarrow> 'v \<Rightarrow> (PeerDescriptor list \<Rightarrow> cpp_error + (api \<times> nat \<times> 'v)) \<Rightarrow>
     cpp_error + (api \<times> nat \<times> 'v)" where
  "parsePeerList env a peers invalidUrlErrorCode v k =
     (case parse_peers env invalidUrlErrorCode peers of
        Inl (Inl e) \<Rightarrow> Inl e
      | Inl (Inr err) \<Rightarrow> (case addResult env a [err] [] of (a', r) \<Rightarrow> Inr (a', r, v))
      | Inr pds \<Rightarrow> k pds)"


record node_config =
  cfgEntryPoints :: "peer_value list"
  cfgWebsocketPort :: "16 word"
  cfgWebsocketHost :: "string option"
  cfgAcceptProxyConnections :: bool

definition default_config :: node_config where
  "default_config = \<lparr>cfgEntryPoints = [], cfgWebsocketPort = 0, cfgWebsocketHost = None, cfgAcceptProxyConnections = False\<rparr>"

definition streamrNodeNew ::
  "api_env \<Rightarrow> 64 word \<Rightarrow> api \<Rightarrow> string \<Rightarrow> node_config option \<Rightarrow> cpp_error + (api \<times> nat \<times> 64 word)" where
  "streamrNodeNew env rnd a ownEthereumAddress cfg =
     (case toEthereumAddress ownEthereumAddress of
        Inl e \<Rightarrow> (if is_runtime_error e then fail_with env a (cpp_what e) ERROR_INVALID_ETHEREUM_ADDRESS None 0 else Inl e)
      | Inr parsedOwnAddress \<Rightarrow>
          (let config = (case cfg of None \<Rightarrow> default_config | Some c \<Rightarrow> c)
           in parsePeerList env a (cfgEntryPoints config) ERROR_INVALID_ENTRY_POINT_URL 0
                (\<lambda>entryPoints.
                   case createLocalPeerDescriptor env parsedOwnAddress of
                     Inl e \<Rightarrow> Inl e
                   | Inr local0 \<Rightarrow>
                       (let localPeerDescriptor =
                              (if cfgWebsocketPort config \<noteq> 0
                               then local0\<lparr>websocket := Some \<lparr>cm_port = ucast (cfgWebsocketPort config),
                                      cm_host = (case cfgWebsocketHost config of Some h \<Rightarrow> h | None \<Rightarrow> ''127.0.0.1''), cm_tls = False\<rparr>\<rparr>
                               else local0);
                            eps = (if entryPoints = [] \<and> cfgWebsocketPort config \<noteq> 0 then [localPeerDescriptor] else entryPoints);
                            handle = rnd;
                            wrapper = \<lparr>snOwnAddress = parsedOwnAddress, snSequenceNumber = 1, snStarted = False, snStopped = False,
                              snSubscriptions = [], snPeerDescriptor = localPeerDescriptor, snEntryPoints = eps,
                              snAcceptProxyConnections = cfgAcceptProxyConnections config, snListeners = []\<rparr>;
                            a1 = (case om_find (apiNodes a) handle of None \<Rightarrow> a | Some old \<Rightarrow> destroy_node handle old a)
                        in succeed_with env (put_node handle wrapper a1) handle))))"

definition streamrNodeDelete :: "api_env \<Rightarrow> api \<Rightarrow> 64 word \<Rightarrow> cpp_error + (api \<times> nat \<times> unit)" where
  "streamrNodeDelete env a nodeHandle =
     (let a1 = (case om_find (apiNodes a) nodeHandle of
                  None \<Rightarrow> a
                | Some n \<Rightarrow> destroy_node nodeHandle n (a\<lparr>apiNodes := om_erase nodeHandle (apiNodes a)\<rparr>))
      in succeed_with env a1 ())"

text \<open>
  Starting a node.  \<open>startResult\<close> and \<open>joinResult\<close> are the exceptions of the two network calls, if they throw;
  an exception of the final teardown is only logged.
\<close>

definition node_start_calls :: "cpp_error option \<Rightarrow> cpp_error option \<Rightarrow> 64 word \<Rightarrow> streamr_node \<Rightarrow> api \<Rightarrow> api \<times> cpp_error option" where
  "node_start_calls startResult joinResult h n a =
     (if snEntryPoints n = []
      then (let a1 = log_effect (NodeStart h False) a
            in case startResult of Some e \<Rightarrow> (a1, Some e) | None \<Rightarrow> (log_effect (NodeJoinOwnDht h) a1, joinResult))
      else (log_effect (NodeStart h True) a, startResult))"

definition streamrNodeStart ::
  "api_env \<Rightarrow> cpp_error option \<Rightarrow> cpp_error option \<Rightarrow> api \<Rightarrow> 64 word \<Rightarrow> cpp_error + (api \<times> nat \<times> unit)" where
  "streamrNodeStart env startResult joinResult a nodeHandle =
     with_node env a nodeHandle ()
       (\<lambda>n. if snStopped n then fail_with env a ''The streamr node has been stopped and cannot be restarted'' ERROR_NODE_STOPPED None ()
            else if snStarted n then fail_with env a ''The streamr node has already been started'' ERROR_NODE_ALREADY_STARTED None ()
            else (case node_start_calls startResult joinResult nodeHandle n a of
                    (a1, None) \<Rightarrow> succeed_with env (put_node nodeHandle (n\<lparr>snStarted := True\<rparr>) a1) ()
                  | (a1, Some e) \<Rightarrow>
                      (case sn_stop (n\<lparr>snStarted := True\<rparr>) of
                         (n1, stops) \<Rightarrow>
                           (let a2 = (if stops then log_effect (NodeStop nodeHandle) a1 else a1)
                            in fail_with env (put_node nodeHandle (n1\<lparr>snStopped := True\<rparr>) a2) (cpp_what e) ERROR_NODE_OPERATION_FAILED None ()))))"

definition streamrNodeStop :: "api_env \<Rightarrow> cpp_error option \<Rightarrow> api \<Rightarrow> 64 word \<Rightarrow> cpp_error + (api \<times> nat \<times> unit)" where
  "streamrNodeStop env stopResult a nodeHandle =
     with_node env a nodeHandle ()
       (\<lambda>n. if \<not> snStarted n then fail_with env a ''The streamr node has not been started'' ERROR_NODE_NOT_STARTED None ()
            else (case sn_stop n of
                    (n1, stops) \<Rightarrow>
                      (let a1 = put_node nodeHandle n1 (if stops then log_effect (NodeStop nodeHandle) a else a)
                       in case (if stops then stopResult else None) of
                            None \<Rightarrow> succeed_with env a1 ()
                          | Some e \<Rightarrow> fail_with env a1 (cpp_what e) ERROR_NODE_OPERATION_FAILED None ())))"

text \<open>The end of the calls that make one network call inside a \<^verbatim>\<open>try\<close>.\<close>

definition after_call :: "api_env \<Rightarrow> api \<Rightarrow> cpp_error option \<Rightarrow> cpp_error + (api \<times> nat \<times> unit)" where
  "after_call env a result =
     (case result of None \<Rightarrow> succeed_with env a () | Some e \<Rightarrow> fail_with env a (cpp_what e) ERROR_NODE_OPERATION_FAILED None ())"

definition streamrNodeJoinStreamPart ::
  "api_env \<Rightarrow> cpp_error option \<Rightarrow> api \<Rightarrow> 64 word \<Rightarrow> string \<Rightarrow> peer_value list \<Rightarrow> cpp_error + (api \<times> nat \<times> unit)" where
  "streamrNodeJoinStreamPart env joinResult a nodeHandle streamPartId streamPartEntryPoints =
     with_running_node env a nodeHandle ()
       (\<lambda>n. parseStreamPartIdChecked env a streamPartId ()
          (\<lambda>parsed. parsePeerList env a streamPartEntryPoints ERROR_INVALID_ENTRY_POINT_URL ()
             (\<lambda>entryPoints.
                let a1 = (if entryPoints \<noteq> [] then log_effect (NodeSetEntryPoints nodeHandle parsed entryPoints) a else a)
                in after_call env (log_effect (NodeJoin nodeHandle parsed) a1) joinResult)))"

definition streamrNodeLeaveStreamPart ::
  "api_env \<Rightarrow> cpp_error option \<Rightarrow> api \<Rightarrow> 64 word \<Rightarrow> string \<Rightarrow> cpp_error + (api \<times> nat \<times> unit)" where
  "streamrNodeLeaveStreamPart env leaveResult a nodeHandle streamPartId =
     with_running_node env a nodeHandle ()
       (\<lambda>n. parseStreamPartIdChecked env a streamPartId ()
          (\<lambda>parsed. after_call env (log_effect (NodeLeave nodeHandle parsed) a) leaveResult))"

definition streamrNodePublish ::
  "api_env \<Rightarrow> int \<Rightarrow> cpp_error option \<Rightarrow> api \<Rightarrow> 64 word \<Rightarrow> string \<Rightarrow> string \<Rightarrow> string option \<Rightarrow> cpp_error + (api \<times> nat \<times> unit)" where
  "streamrNodePublish env now broadcastResult a nodeHandle streamPartId contentString ethereumPrivateKey =
     with_running_node env a nodeHandle ()
       (\<lambda>n. parseStreamPartIdChecked env a streamPartId ()
          (\<lambda>parsed.
             let a1 = put_node nodeHandle (n\<lparr>snSequenceNumber := snSequenceNumber n + 1\<rparr>) a
             in case buildStreamMessage env now (snOwnAddress n) parsed (snSequenceNumber n) contentString ethereumPrivateKey of
                  Inl e \<Rightarrow> after_call env a1 (Some e)
                | Inr message \<Rightarrow> after_call env (log_effect (NodeBroadcast nodeHandle message) a1) broadcastResult))"

definition streamrNodeSubscribe ::
  "api_env \<Rightarrow> 64 word \<Rightarrow> nat \<Rightarrow> cpp_error option \<Rightarrow> api \<Rightarrow> 64 word \<Rightarrow> string \<Rightarrow> nat option \<Rightarrow> nat \<Rightarrow>
     cpp_error + (api \<times> nat \<times> 64 word)" where
  "streamrNodeSubscribe env rnd token joinResult a nodeHandle streamPartId callback userData =
     with_running_node env a nodeHandle 0
       (\<lambda>n. case callback of
              None \<Rightarrow> fail_with env a ''The message callback must not be NULL'' ERROR_NODE_OPERATION_FAILED None 0
            | Some cb \<Rightarrow>
                parseStreamPartIdChecked env a streamPartId 0
                  (\<lambda>parsed.
                     let a1 = log_effect (NodeJoin nodeHandle parsed) a
                     in case joinResult of
                          Some e \<Rightarrow> fail_with env a1 (cpp_what e) ERROR_NODE_OPERATION_FAILED None 0
                        | None \<Rightarrow>
                            (case parseRawElements parsed of
                               Inr (streamId, Some part) \<Rightarrow>
                                 (let l = \<lparr>lsToken = token, lsStreamPartId = parsed, lsStreamId = streamId, lsStreamPartition = part,
                                            lsCallback = cb, lsUserData = userData\<rparr>;
                                      n1 = addSubscription rnd token (n\<lparr>snListeners := snListeners n @ [l]\<rparr>)
                                  in succeed_with env (put_node nodeHandle n1 a1) rnd)
                             | Inr (_, None) \<Rightarrow> fail_with env a1 (cpp_what BadOptionalAccess) ERROR_NODE_OPERATION_FAILED None 0
                             | Inl e \<Rightarrow> fail_with env a1 (cpp_what e) ERROR_NODE_OPERATION_FAILED None 0)))"

definition streamrNodeUnsubscribe :: "api_env \<Rightarrow> api \<Rightarrow> 64 word \<Rightarrow> 64 word \<Rightarrow> cpp_error + (api \<times> nat \<times> unit)" where
  "streamrNodeUnsubscribe env a nodeHandle subscriptionHandle =
     with_node env a nodeHandle ()
       (\<lambda>n. case takeSubscription subscriptionHandle n of
              (_, None) \<Rightarrow> fail_with env a (''Subscription not found with handle '' @ nat_to_string (unat subscriptionHandle))
                             ERROR_SUBSCRIPTION_NOT_FOUND None ()
            | (n1, Some token) \<Rightarrow>
                succeed_with env (put_node nodeHandle (n1\<lparr>snListeners := filter (\<lambda>l. lsToken l \<noteq> token) (snListeners n1)\<rparr>) a) ())"

definition streamrNodeGetNeighborCount ::
  "api_env \<Rightarrow> (string \<Rightarrow> cpp_error + nat) \<Rightarrow> api \<Rightarrow> 64 word \<Rightarrow> string \<Rightarrow> cpp_error + (api \<times> nat \<times> 64 word)" where
  "streamrNodeGetNeighborCount env getNeighbors a nodeHandle streamPartId =
     with_running_node env a nodeHandle 0
       (\<lambda>n. parseStreamPartIdChecked env a streamPartId 0
          (\<lambda>parsed. case getNeighbors parsed of Inl e \<Rightarrow> Inl e | Inr k \<Rightarrow> succeed_with env a (of_nat k)))"

definition streamrNodeSetProxies ::
  "api_env \<Rightarrow> cpp_error option \<Rightarrow> api \<Rightarrow> 64 word \<Rightarrow> string \<Rightarrow> peer_value list \<Rightarrow> int \<Rightarrow> 64 word \<Rightarrow> cpp_error + (api \<times> nat \<times> unit)" where
  "streamrNodeSetProxies env setResult a nodeHandle streamPartId proxies direction connectionCount =
     with_running_node env a nodeHandle ()
       (\<lambda>n. parseStreamPartIdChecked env a streamPartId ()
          (\<lambda>parsed.
             if direction \<noteq> 0 \<and> direction \<noteq> 1
             then fail_with env a (''Invalid proxy direction '' @ to_string direction) ERROR_NODE_OPERATION_FAILED None ()
             else parsePeerList env a proxies ERROR_INVALID_PROXY_URL ()
                (\<lambda>pds. case toEthereumAddress (snOwnAddress n) of
                          Inl e \<Rightarrow> after_call env a (Some e)
                        | Inr address \<Rightarrow>
                            after_call env
                              (log_effect (NodeSetProxies nodeHandle parsed pds (nat direction) address
                                 (if connectionCount = 0 then None else Some connectionCount)) a) setResult)))"

text \<open>
  What a message that the node receives makes of its listeners: the calls of callbacks, with the node handle, the stream
  part id, the content and the user data.
\<close>

type_synonym callback_call = "nat \<times> 64 word \<times> string \<times> string \<times> nat"

definition listener_call :: "64 word \<Rightarrow> listener \<Rightarrow> ApiMessage \<Rightarrow> callback_call option" where
  "listener_call nodeHandle l message =
     (if streamid (messageid message) \<noteq> lsStreamId l \<or> streampartition (messageid message) \<noteq> lsStreamPartition l then None
      else (case contentmessage message of
              None \<Rightarrow> None
            | Some c \<Rightarrow> Some (lsCallback l, nodeHandle, lsStreamPartId l, content c, lsUserData l)))"

definition node_deliver :: "64 word \<Rightarrow> streamr_node \<Rightarrow> ApiMessage \<Rightarrow> callback_call list" where
  "node_deliver nodeHandle n message = List.map_filter (\<lambda>l. listener_call nodeHandle l message) (snListeners n)"

section \<open>The library and its C functions\<close>

text \<open>The global pointer \<^verbatim>\<open>libProxyClientApi\<close>.\<close>

type_synonym library = "api option"

definition streamrInitLibrary :: "library \<Rightarrow> library" where
  "streamrInitLibrary g = (case g of Some a \<Rightarrow> g | None \<Rightarrow> Some api_new)"

text \<open>
  Deleting the instance destroys its maps: the nodes first, then the results, then the clients.  The effects of the
  destructors are the second component.
\<close>

fun destroy_nodes :: "(64 word, streamr_node) omap \<Rightarrow> api_effect list" where
  "destroy_nodes [] = []"
| "destroy_nodes ((h, n) # ns) = (if snd (sn_stop n) then [NodeStop h] else []) @ destroy_nodes ns"

definition streamrCleanupLibrary :: "library \<Rightarrow> library \<times> api_effect list" where
  "streamrCleanupLibrary g =
     (case g of
        None \<Rightarrow> (None, [])
      | Some a \<Rightarrow> (None, destroy_nodes (apiNodes a) @ map ClientStop (om_keys (apiClients a))))"

definition getProxyClientApi :: "library \<Rightarrow> api" where
  "getProxyClientApi g = (case streamrInitLibrary g of Some a \<Rightarrow> a | None \<Rightarrow> api_new)"

text \<open>
  Each C function fetches the instance and forwards.  An exception passes through it to the caller; no call changes the state
  before it lets an exception out, so \<open>Inl\<close> keeps the exception only.
\<close>

definition c_call :: "(api \<Rightarrow> cpp_error + (api \<times> 'r)) \<Rightarrow> library \<Rightarrow> cpp_error + (library \<times> 'r)" where
  "c_call f g = (case f (getProxyClientApi g) of Inl e \<Rightarrow> Inl e | Inr (a, r) \<Rightarrow> Inr (Some a, r))"

definition streamrResultDelete :: "library \<Rightarrow> nat \<Rightarrow> library" where
  "streamrResultDelete g r = Some (proxyClientResultDelete (getProxyClientApi g) r)"

text \<open>The deprecated names.\<close>

definition proxyClientInitLibrary :: "library \<Rightarrow> library" where
  "proxyClientInitLibrary g = streamrInitLibrary g"

definition proxyClientCleanupLibrary :: "library \<Rightarrow> library \<times> api_effect list" where
  "proxyClientCleanupLibrary g = streamrCleanupLibrary g"

definition c_proxyClientResultDelete :: "library \<Rightarrow> nat \<Rightarrow> library" where
  "c_proxyClientResultDelete g r = streamrResultDelete g r"

definition c_proxyClientNew where
  "c_proxyClientNew env rnd own part g = c_call (\<lambda>a. proxyClientNew env rnd a own part) g"

definition c_proxyClientDelete where
  "c_proxyClientDelete env h g = c_call (\<lambda>a. proxyClientDelete env a h) g"

definition c_proxyClientConnect where
  "c_proxyClientConnect env net h proxies g = c_call (\<lambda>a. proxyClientConnect env net a h proxies) g"

definition c_proxyClientPublish where
  "c_proxyClientPublish env now net h data key g = c_call (\<lambda>a. proxyClientPublish env now net a h data key) g"

definition c_streamrNodeNew where
  "c_streamrNodeNew env rnd own cfg g = c_call (\<lambda>a. streamrNodeNew env rnd a own cfg) g"

definition c_streamrNodeDelete where
  "c_streamrNodeDelete env h g = c_call (\<lambda>a. streamrNodeDelete env a h) g"

definition c_streamrNodeStart where
  "c_streamrNodeStart env o1 o2 h g = c_call (\<lambda>a. streamrNodeStart env o1 o2 a h) g"

definition c_streamrNodeStop where
  "c_streamrNodeStop env o1 h g = c_call (\<lambda>a. streamrNodeStop env o1 a h) g"

definition c_streamrNodeJoinStreamPart where
  "c_streamrNodeJoinStreamPart env o1 h part eps g = c_call (\<lambda>a. streamrNodeJoinStreamPart env o1 a h part eps) g"

definition c_streamrNodeLeaveStreamPart where
  "c_streamrNodeLeaveStreamPart env o1 h part g = c_call (\<lambda>a. streamrNodeLeaveStreamPart env o1 a h part) g"

definition c_streamrNodePublish where
  "c_streamrNodePublish env now o1 h part data key g = c_call (\<lambda>a. streamrNodePublish env now o1 a h part data key) g"

definition c_streamrNodeSubscribe where
  "c_streamrNodeSubscribe env rnd token o1 h part cb ud g = c_call (\<lambda>a. streamrNodeSubscribe env rnd token o1 a h part cb ud) g"

definition c_streamrNodeUnsubscribe where
  "c_streamrNodeUnsubscribe env h sub g = c_call (\<lambda>a. streamrNodeUnsubscribe env a h sub) g"

definition c_streamrNodeGetNeighborCount where
  "c_streamrNodeGetNeighborCount env net h part g = c_call (\<lambda>a. streamrNodeGetNeighborCount env net a h part) g"

definition c_streamrNodeSetProxies where
  "c_streamrNodeSetProxies env o1 h part proxies dir n g = c_call (\<lambda>a. streamrNodeSetProxies env o1 a h part proxies dir n) g"

end
