(* ===== verification/Lib_Api_Correct.thy ===== *)
theory Lib_Api_Correct
  imports Lib_Api
begin

text \<open>
  Correctness of the C API: the registry of results, the life cycle of the nodes, the guards of the calls, and what
  publishing and subscribing amount to.
\<close>

section \<open>All calls as one type\<close>

datatype api_call =
    CNew "64 word" string string
  | CDelete "64 word"
  | CConnect "PeerDescriptor list \<Rightarrow> cpp_error + connect_outcome" "64 word" "peer_value list"
  | CPublish int "ApiMessage \<Rightarrow> cpp_error + (PeerDescriptor list \<times> PeerDescriptor list)" "64 word" string "string option"
  | NNew "64 word" string "node_config option"
  | NDelete "64 word"
  | NStart "cpp_error option" "cpp_error option" "64 word"
  | NStopCall "cpp_error option" "64 word"
  | NJoinCall "cpp_error option" "64 word" string "peer_value list"
  | NLeaveCall "cpp_error option" "64 word" string
  | NPublish int "cpp_error option" "64 word" string string "string option"
  | NSubscribe "64 word" nat "cpp_error option" "64 word" string "nat option" nat
  | NUnsubscribe "64 word" "64 word"
  | NNeighbors "string \<Rightarrow> cpp_error + nat" "64 word" string
  | NSetProxies "cpp_error option" "64 word" string "peer_value list" int "64 word"

text \<open>A call, its return value forgotten: the new state and the result it handed out.\<close>

definition drop_value :: "cpp_error + (api \<times> nat \<times> 'v) \<Rightarrow> cpp_error + (api \<times> nat)" where
  "drop_value x = map_sum id (\<lambda>(a, r, v). (a, r)) x"

definition api_exec :: "api_env \<Rightarrow> api_call \<Rightarrow> api \<Rightarrow> cpp_error + (api \<times> nat)" where
  "api_exec env c a =
     (case c of
        CNew rnd own part \<Rightarrow> drop_value (proxyClientNew env rnd a own part)
      | CDelete h \<Rightarrow> drop_value (proxyClientDelete env a h)
      | CConnect net h ps \<Rightarrow> drop_value (proxyClientConnect env net a h ps)
      | CPublish now net h d k \<Rightarrow> drop_value (proxyClientPublish env now net a h d k)
      | NNew rnd own cfg \<Rightarrow> drop_value (streamrNodeNew env rnd a own cfg)
      | NDelete h \<Rightarrow> drop_value (streamrNodeDelete env a h)
      | NStart o1 o2 h \<Rightarrow> drop_value (streamrNodeStart env o1 o2 a h)
      | NStopCall o1 h \<Rightarrow> drop_value (streamrNodeStop env o1 a h)
      | NJoinCall o1 h part eps \<Rightarrow> drop_value (streamrNodeJoinStreamPart env o1 a h part eps)
      | NLeaveCall o1 h part \<Rightarrow> drop_value (streamrNodeLeaveStreamPart env o1 a h part)
      | NPublish now o1 h part d k \<Rightarrow> drop_value (streamrNodePublish env now o1 a h part d k)
      | NSubscribe rnd tok o1 h part cb ud \<Rightarrow> drop_value (streamrNodeSubscribe env rnd tok o1 a h part cb ud)
      | NUnsubscribe h sub \<Rightarrow> drop_value (streamrNodeUnsubscribe env a h sub)
      | NNeighbors net h part \<Rightarrow> drop_value (streamrNodeGetNeighborCount env net a h part)
      | NSetProxies o1 h part ps dir n \<Rightarrow> drop_value (streamrNodeSetProxies env o1 a h part ps dir n))"

section \<open>Every call ends in one result\<close>

text \<open>The state a call has built just before it adds its result.\<close>

definition ends_with :: "api_env \<Rightarrow> api \<Rightarrow> cpp_error + (api \<times> nat \<times> 'v) \<Rightarrow> bool" where
  "ends_with env a x \<longleftrightarrow>
     (\<forall>a' r v. x = Inr (a', r, v) \<longrightarrow> (\<exists>b es ps. apiResults b = apiResults a \<and> addResult env b es ps = (a', r)))"

named_theorems ends \<open>calls that end in one result\<close>

lemma ends_fail [ends]: "apiResults b = apiResults a \<Longrightarrow> ends_with env a (fail_with env b m c p v)"
  by (auto simp: ends_with_def fail_with_def split: prod.splits)

lemma ends_succeed [ends]: "apiResults b = apiResults a \<Longrightarrow> ends_with env a (succeed_with env b v)"
  by (auto simp: ends_with_def succeed_with_def split: prod.splits)

lemma ends_escape [ends]: "ends_with env a (Inl e)"
  by (simp add: ends_with_def)

lemma ends_add [ends]: "apiResults b = apiResults a \<Longrightarrow> ends_with env a (case addResult env b es ps of (a', r) \<Rightarrow> Inr (a', r, v))"
  by (auto simp: ends_with_def split: prod.splits)

lemma ends_node [ends]: "(\<And>n. ends_with env a (k n)) \<Longrightarrow> ends_with env a (with_node env a h v k)"
  by (simp add: with_node_def node_not_found_def ends split: option.splits)

lemma ends_running [ends]: "(\<And>n. ends_with env a (k n)) \<Longrightarrow> ends_with env a (with_running_node env a h v k)"
  by (auto simp: with_running_node_def ends split: option.splits intro!: ends_node)

lemma ends_part [ends]: "(\<And>s. ends_with env a (k s)) \<Longrightarrow> ends_with env a (parseStreamPartIdChecked env a part v k)"
  by (simp add: parseStreamPartIdChecked_def ends split: sum.splits)

lemma ends_peers [ends]: "(\<And>s. ends_with env a (k s)) \<Longrightarrow> ends_with env a (parsePeerList env a ps c v k)"
  by (auto simp: parsePeerList_def ends split: sum.splits)

lemma ends_after [ends]: "apiResults b = apiResults a \<Longrightarrow> ends_with env a (after_call env b x)"
  by (simp add: after_call_def ends split: option.splits)

lemma results_frame [simp]:
  "apiResults (log_effect e a) = apiResults a" "apiResults (put_node h n a) = apiResults a"
  "apiResults (put_client h c a) = apiResults a" "apiResults (destroy_node h n a) = apiResults a"
  by (simp_all add: log_effect_def put_node_def put_client_def destroy_node_def Let_def)

lemma results_start [simp]: "apiResults (fst (node_start_calls o1 o2 h n a)) = apiResults a"
  by (simp add: node_start_calls_def Let_def split: option.splits)

lemma ends_if [ends]: "ends_with env a x \<Longrightarrow> ends_with env a y \<Longrightarrow> ends_with env a (if b then x else y)"
  by simp

lemma ends_client_calls [ends]:
  "ends_with env a (proxyClientNew env rnd a own part)" "ends_with env a (proxyClientDelete env a h)"
  "ends_with env a (proxyClientConnect env net a h ps)" "ends_with env a (proxyClientPublish env now net2 a h d k)"
  by (auto simp: proxyClientNew_def proxyClientDelete_def proxyClientConnect_def proxyClientPublish_def Let_def ends
      split: sum.splits option.splits prod.splits)

lemma ends_node_calls [ends]:
  "ends_with env a (streamrNodeNew env rnd a own cfg)" "ends_with env a (streamrNodeDelete env a h)"
  "ends_with env a (streamrNodeStart env o1 o2 a h)" "ends_with env a (streamrNodeStop env o1 a h)"
  "ends_with env a (streamrNodeJoinStreamPart env o1 a h part eps)" "ends_with env a (streamrNodeLeaveStreamPart env o1 a h part)"
  "ends_with env a (streamrNodePublish env now o1 a h part d k)"
  "ends_with env a (streamrNodeSubscribe env rnd tok o1 a h part cb ud)" "ends_with env a (streamrNodeUnsubscribe env a h sub)"
  "ends_with env a (streamrNodeGetNeighborCount env net a h part)" "ends_with env a (streamrNodeSetProxies env o1 a h part ps dir n)"
proof -
  show "ends_with env a (streamrNodeStart env o1 o2 a h)"
  proof -
    have "apiResults (fst (node_start_calls o1 o2 h n a)) = apiResults a" for n by simp
    then have st: "apiResults b = apiResults a" if "node_start_calls o1 o2 h n a = (b, x)" for b x n using that by (metis fst_conv)
    show ?thesis unfolding streamrNodeStart_def Let_def
      by (intro ends_node) (auto simp: ends dest!: st split: prod.splits option.splits)
  qed
qed (auto simp: streamrNodeNew_def streamrNodeDelete_def streamrNodeStop_def streamrNodeJoinStreamPart_def streamrNodeLeaveStreamPart_def
    streamrNodePublish_def streamrNodeSubscribe_def streamrNodeUnsubscribe_def streamrNodeGetNeighborCount_def streamrNodeSetProxies_def
    Let_def intro!: ends split: sum.splits option.splits prod.splits)

lemma exec_ends:
  assumes "api_exec env c a = Inr (a', r)"
  shows "\<exists>b es ps. apiResults b = apiResults a \<and> addResult env b es ps = (a', r)"
proof -
  have *: "\<exists>b es ps. apiResults b = apiResults a \<and> addResult env b es ps = (a', r)"
    if "ends_with env a x" "drop_value x = Inr (a', r)" for x :: "cpp_error + (api \<times> nat \<times> 'v)"
    using that by (cases x) (auto simp: drop_value_def ends_with_def)
  show ?thesis using assms * [OF ends_client_calls(1)] * [OF ends_client_calls(2)] * [OF ends_client_calls(3)] * [OF ends_client_calls(4)]
      * [OF ends_node_calls(1)]  * [OF ends_node_calls(2)]  * [OF ends_node_calls(3)]  * [OF ends_node_calls(4)]  * [OF ends_node_calls(5)]
      * [OF ends_node_calls(6)]  * [OF ends_node_calls(7)]  * [OF ends_node_calls(8)]  * [OF ends_node_calls(9)]  * [OF ends_node_calls(10)]
      * [OF ends_node_calls(11)]
    by (cases c) (simp_all add: api_exec_def)
qed


section \<open>The registry of results\<close>

text \<open>
  What the library relies on of the code around it: the address of a new object is not that of a live one; the port of a parsed URL
  is a number; \<^verbatim>\<open>unhex\<close> accepts both cases of the hexadecimal digits and \<^verbatim>\<open>hex_lower\<close> writes the lower case.
\<close>

definition alloc_contract :: "api_env \<Rightarrow> bool" where
  "alloc_contract env \<longleftrightarrow> (\<forall>live. envAlloc env live \<notin> set live)"

definition url_contract :: "api_env \<Rightarrow> bool" where
  "url_contract env \<longleftrightarrow> (\<forall>u url. envUrl env u = Some url \<longrightarrow> has_port url \<longrightarrow> (\<exists>p. stoul (get_port url) = Inr p))"

definition hex_contract :: "api_env \<Rightarrow> bool" where
  "hex_contract env \<longleftrightarrow>
     (\<forall>s. list_all is_hex s \<longrightarrow> even (length s) \<longrightarrow>
        (\<exists>bs. unhex (envHex env) s = Some bs \<and> length s = length bs * 2 \<and> hex_lower (envHex env) bs = map to_lower s)) \<and>
     (\<forall>bs. unhex (envHex env) (hex_lower (envHex env) bs) = Some bs)"

locale fresh_results =
  fixes env :: api_env
  assumes alloc: "alloc_contract env"
begin

lemma addResult_fresh:
  assumes "addResult env b es ps = (a', r)"
  shows "om_find (apiResults b) r = None" "om_find (apiResults a') = (om_find (apiResults b))(r \<mapsto> ProxyResultCpp_new [r] es ps)"
proof -
  have r: "r = envAlloc env (om_keys (apiResults b))" and a': "apiResults a' = om_put r (ProxyResultCpp_new [r] es ps) (apiResults b)"
    using assms by (auto simp: addResult_def Let_def)
  show "om_find (apiResults b) r = None" 
  proof -
    have "envAlloc env (om_keys (apiResults b)) \<notin> set (om_keys (apiResults b))" using alloc by (simp add: alloc_contract_def)
    then show ?thesis by (auto simp: r set_om_keys)
  qed
  show "om_find (apiResults a') = (om_find (apiResults b))(r \<mapsto> ProxyResultCpp_new [r] es ps)" by (auto simp: a')
qed

lemma exec_fresh:
  assumes "api_exec env c a = Inr (a', r)"
  shows "\<exists>es ps. om_find (apiResults a) r = None \<and> om_find (apiResults a') = (om_find (apiResults a))(r \<mapsto> ProxyResultCpp_new [r] es ps)"
proof -
  obtain b es ps where b: "apiResults b = apiResults a" "addResult env b es ps = (a', r)" using exec_ends [OF assms] by blast
  show ?thesis using addResult_fresh [OF b(2)] unfolding b(1) by blast
qed

end

text \<open>A reference environment, for which the contracts hold.\<close>

definition ref_hex_any :: hex_codec where
  "ref_hex_any = \<lparr>hex_lower = ref_hex_lower, unhex = (\<lambda>s. ref_unhex (map to_lower s))\<rparr>"

definition ref_url :: "string \<Rightarrow> ada_url option" where
  "ref_url u =
     (if take 6 u = ''wss://'' then Some \<lparr>get_hostname = drop 6 u, get_port = [], has_port = False, get_protocol = ''wss:''\<rparr>
      else if take 5 u = ''ws://'' then Some \<lparr>get_hostname = drop 5 u, get_port = [], has_port = False, get_protocol = ''ws:''\<rparr>
      else None)"

definition ref_env :: api_env where
  "ref_env = \<lparr>envHex = ref_hex_any, envUrl = ref_url, envAlloc = (\<lambda>live. Suc (sum_list live)), envKeccak = (\<lambda>s. []), envSecp = (\<lambda>h k. [])\<rparr>"

lemma ref_alloc: "alloc_contract ref_env"
proof -
  have "envAlloc ref_env live \<notin> set live" for live
  proof
    assume "envAlloc ref_env live \<in> set live"
    then have "envAlloc ref_env live \<le> sum_list live" by (rule member_le_sum_list) simp
    then show False by (simp add: ref_env_def)
  qed
  then show ?thesis by (simp add: alloc_contract_def)
qed

lemma ref_url: "url_contract ref_env"
  by (auto simp: url_contract_def ref_env_def ref_url_def split: if_splits)

lemma unhex_digit_lower: "is_hex c \<Longrightarrow> \<exists>n<16. unhex_digit (to_lower c) = Some n \<and> hex_digit n = to_lower c"
proof -
  assume "is_hex c"
  then have "of_char c \<in> set ([48..<58] @ [97..<103] @ [65..<71] :: nat list)" by (simp add: is_hex_def is_digit_def del: upt_conv_Cons_Cons upt_Suc upt_rec_numeral) linarith
  then have "c \<in> set (map char_of ([48..<58] @ [97..<103] @ [65..<71] :: nat list))"
    by (metis char_of_char image_eqI list.set_map)
  moreover have "list_all (\<lambda>c. \<exists>n\<in>set [0..<16]. unhex_digit (to_lower c) = Some n \<and> hex_digit n = to_lower c)
    (map char_of ([48..<58] @ [97..<103] @ [65..<71] :: nat list))" by code_simp
  ultimately show ?thesis by (force simp: list_all_iff simp del: unhex_digit.simps)
qed

lemma ref_unhex_any:
  "list_all is_hex s \<Longrightarrow> even (length s) \<Longrightarrow>
   \<exists>bs. ref_unhex (map to_lower s) = Some bs \<and> length s = length bs * 2 \<and> ref_hex_lower bs = map to_lower s"
proof (induction s rule: ref_unhex.induct)
  case (3 c d s)
  then obtain bs where bs: "ref_unhex (map to_lower s) = Some bs" "length s = length bs * 2" "ref_hex_lower bs = map to_lower s" by auto
  obtain m n where mn: "m < 16" "unhex_digit (to_lower c) = Some m" "hex_digit m = to_lower c"
      "n < 16" "unhex_digit (to_lower d) = Some n" "hex_digit n = to_lower d"
    using 3(2) unhex_digit_lower [of c] unhex_digit_lower [of d] by auto
  have "unat (of_nat (16 * m + n) :: 8 word) = (16 * m + n) mod 2 ^ LENGTH(8)" by (rule unat_of_nat)
  also have "\<dots> = 16 * m + n" using mn(1,4) by simp
  finally have "unat (of_nat (16 * m + n) :: 8 word) = 16 * m + n" .
  moreover have "hex_digit (16 * m + n) = hex_digit n" by (simp add: hex_digit_def)
  ultimately show ?case using bs mn
    by (simp del: unhex_digit.simps of_nat_add of_nat_mult)
qed simp_all

lemma to_lower_hex_digit: "to_lower (hex_digit n) = hex_digit n"
proof -
  have "list_all (\<lambda>c. to_lower c = c) ''0123456789abcdef''" by code_simp
  then show ?thesis using hex_digit_range [of n] unfolding list_all_iff by blast
qed

lemma to_lower_ref_hex: "map to_lower (ref_hex_lower bs) = ref_hex_lower bs"
  by (induction bs) (simp_all add: to_lower_hex_digit)

lemma ref_hex_contract: "hex_contract ref_env"
  using ref_unhex_any ref_unhex_hex to_lower_ref_hex by (simp add: hex_contract_def ref_env_def ref_hex_any_def)

interpretation ref_results: fresh_results ref_env
  by unfold_locales (rule ref_alloc)

section \<open>The life of a node\<close>

datatype node_phase = Created | Running | Stopped

definition sn_phase :: "streamr_node \<Rightarrow> node_phase" where
  "sn_phase n = (if snStopped n then Stopped else if snStarted n then Running else Created)"

text \<open>
  The order in which the library may use a network node: it is started first and once, used only while it is live, and stopped
  last and once.
\<close>

datatype trace_state = TNew | TLive | TDone | TBad

definition effect_node :: "api_effect \<Rightarrow> 64 word option" where
  "effect_node e =
     (case e of ClientStart _ \<Rightarrow> None | ClientStop _ \<Rightarrow> None | NodeStart h _ \<Rightarrow> Some h | NodeJoinOwnDht h \<Rightarrow> Some h | NodeStop h \<Rightarrow> Some h
      | NodeSetEntryPoints h _ _ \<Rightarrow> Some h | NodeJoin h _ \<Rightarrow> Some h | NodeLeave h _ \<Rightarrow> Some h | NodeBroadcast h _ \<Rightarrow> Some h
      | NodeSetProxies h _ _ _ _ _ \<Rightarrow> Some h)"

definition trace_step :: "64 word \<Rightarrow> trace_state \<Rightarrow> api_effect \<Rightarrow> trace_state" where
  "trace_step h t e =
     (if effect_node e \<noteq> Some h then t
      else (case e of
              NodeStart _ _ \<Rightarrow> (if t = TNew then TLive else TBad)
            | NodeStop _ \<Rightarrow> (if t = TLive then TDone else TBad)
            | _ \<Rightarrow> (if t = TLive then TLive else TBad)))"

definition node_trace :: "64 word \<Rightarrow> api_effect list \<Rightarrow> trace_state" where
  "node_trace h es = foldl (trace_step h) TNew es"

definition phase_trace :: "node_phase \<Rightarrow> trace_state" where
  "phase_trace p = (case p of Created \<Rightarrow> TNew | Running \<Rightarrow> TLive | Stopped \<Rightarrow> TDone)"

text \<open>
  The node at a handle and what was done to the network node behind it agree; \<open>unborn\<close> says that the handle was never given out.
\<close>

definition life_at :: "bool \<Rightarrow> streamr_node option \<Rightarrow> trace_state \<Rightarrow> bool" where
  "life_at unborn x t \<longleftrightarrow>
     (case x of None \<Rightarrow> t = TNew \<or> (\<not> unborn \<and> t = TDone) | Some n \<Rightarrow> \<not> unborn \<and> t = phase_trace (sn_phase n))"

definition life_ok :: "bool \<Rightarrow> 64 word \<Rightarrow> api \<Rightarrow> bool" where
  "life_ok u h a \<longleftrightarrow> om_ok (apiNodes a) \<and> life_at u (om_find (apiNodes a) h) (node_trace h (apiLog a))"

lemma node_trace_snoc [simp]: "node_trace h (es @ [e]) = trace_step h (node_trace h es) e"
  by (simp add: node_trace_def)

definition keeps_life :: "bool \<Rightarrow> 64 word \<Rightarrow> cpp_error + (api \<times> nat \<times> 'v) \<Rightarrow> bool" where
  "keeps_life u h x \<longleftrightarrow> (\<forall>a' r v. x = Inr (a', r, v) \<longrightarrow> life_ok u h a')"

named_theorems life \<open>steps that respect the life of every node\<close>

lemma life_add: "addResult env a es ps = (a', r) \<Longrightarrow> life_ok u h a' = life_ok u h a"
  by (auto simp: life_ok_def addResult_def Let_def)

lemma keeps_fail [life]: "life_ok u h b \<Longrightarrow> keeps_life u h (fail_with env b m c p v)"
  by (auto simp: keeps_life_def fail_with_def dest!: life_add split: prod.splits)

lemma keeps_succeed [life]: "life_ok u h b \<Longrightarrow> keeps_life u h (succeed_with env b v)"
  by (auto simp: keeps_life_def succeed_with_def dest!: life_add split: prod.splits)

lemma keeps_escape [life]: "keeps_life u h (Inl e)"
  by (simp add: keeps_life_def)

lemma keeps_add [life]: "life_ok u h b \<Longrightarrow> keeps_life u h (case addResult env b es ps of (a', r) \<Rightarrow> Inr (a', r, v))"
  by (auto simp: keeps_life_def dest!: life_add split: prod.splits)

lemma keeps_node [life]:
  "life_ok u h a \<Longrightarrow> (\<And>n. om_find (apiNodes a) k = Some n \<Longrightarrow> keeps_life u h (f n)) \<Longrightarrow> keeps_life u h (with_node env a k v f)"
  by (simp add: with_node_def node_not_found_def life split: option.splits)

lemma keeps_running [life]:
  "life_ok u h a \<Longrightarrow> (\<And>n. om_find (apiNodes a) k = Some n \<Longrightarrow> sn_phase n = Running \<Longrightarrow> keeps_life u h (f n)) \<Longrightarrow>
   keeps_life u h (with_running_node env a k v f)"
  unfolding with_running_node_def
  by (rule keeps_node) (auto simp: checkStreamrNodeRunning_def sn_phase_def life split: option.splits)

lemma keeps_part [life]: "life_ok u h a \<Longrightarrow> (\<And>s. keeps_life u h (f s)) \<Longrightarrow> keeps_life u h (parseStreamPartIdChecked env a part v f)"
  by (simp add: parseStreamPartIdChecked_def life split: sum.splits)

lemma keeps_peers [life]: "life_ok u h a \<Longrightarrow> (\<And>s. keeps_life u h (f s)) \<Longrightarrow> keeps_life u h (parsePeerList env a ps c v f)"
  by (auto simp: parsePeerList_def life split: sum.splits)

lemma keeps_after [life]: "life_ok u h b \<Longrightarrow> keeps_life u h (after_call env b x)"
  by (simp add: after_call_def life split: option.splits)

lemma life_put_client [life]: "life_ok u h a \<Longrightarrow> life_ok u h (put_client k c (log_effect (ClientStart k) a))"
  by (simp add: life_ok_def put_client_def log_effect_def node_trace_def trace_step_def effect_node_def Let_def)

lemma life_client_stop [life]: "life_ok u h a \<Longrightarrow> life_ok u h ((log_effect (ClientStop k) a)\<lparr>apiClients := cs\<rparr>)"
  by (simp add: life_ok_def log_effect_def trace_step_def effect_node_def)

lemma life_clients [life]: "life_ok u h a \<Longrightarrow> life_ok u h (a\<lparr>apiClients := cs\<rparr>)"
  by (simp add: life_ok_def)

lemma life_put_node [life]:
  assumes "life_ok u h a" "om_find (apiNodes a) k = Some n" "snStarted n' = snStarted n" "snStopped n' = snStopped n"
  shows "life_ok u h (put_node k n' a)"
  using assms by (auto simp: life_ok_def life_at_def put_node_def sn_phase_def split: option.splits)

lemma life_use [life]:
  assumes "life_ok u h a" "om_find (apiNodes a) k = Some n" "sn_phase n = Running"
    "effect_node e = Some k" "\<And>b. e \<noteq> NodeStart k b" "e \<noteq> NodeStop k"
  shows "life_ok u h (log_effect e a)"
proof (cases "h = k")
  case True
  then have live: "\<not> u" "node_trace h (apiLog a) = TLive" using assms(1,2,3) by (simp_all add: life_ok_def life_at_def phase_trace_def)
  then have "node_trace h (apiLog (log_effect e a)) = TLive"
    using live assms(4-6) True by (auto simp: log_effect_def trace_step_def effect_node_def split: api_effect.splits)
  then show ?thesis using live assms(1-3) True by (simp add: life_ok_def life_at_def log_effect_def phase_trace_def)
next
  case False
  then show ?thesis using assms(1,4) by (simp add: life_ok_def log_effect_def trace_step_def)
qed

lemma life_stop:
  assumes "life_ok u h a" "om_find (apiNodes a) k = Some n"
  shows "life_ok u h (put_node k (fst (sn_stop n)) (if snd (sn_stop n) then log_effect (NodeStop k) a else a))"
  using assms
  by (auto simp: sn_stop_def life_ok_def life_at_def put_node_def log_effect_def trace_step_def effect_node_def sn_phase_def phase_trace_def
      split: option.splits if_splits)

lemma life_destroy:
  assumes "life_ok u h a" "om_find (apiNodes a) k = Some n" "ns = om_erase k (apiNodes a)"
  shows "life_ok u h (destroy_node k n (a\<lparr>apiNodes := ns\<rparr>))"
  using assms
  by (auto simp: destroy_node_def sn_stop_def life_ok_def life_at_def log_effect_def trace_step_def effect_node_def sn_phase_def phase_trace_def
      split: option.splits if_splits)


lemma life_replace:
  assumes "life_ok u h a" "k \<noteq> h"
  shows "life_ok u h (put_node k n' (case om_find (apiNodes a) k of None \<Rightarrow> a | Some old \<Rightarrow> destroy_node k old a))"
  using assms by (auto simp: destroy_node_def life_ok_def put_node_def log_effect_def trace_step_def effect_node_def split: option.splits)

lemma life_born:
  assumes "life_ok True h a" "\<not> snStarted n'" "\<not> snStopped n'"
  shows "life_ok False h (put_node h n' (case om_find (apiNodes a) h of None \<Rightarrow> a | Some old \<Rightarrow> destroy_node h old a))"
  using assms by (auto simp: life_ok_def life_at_def put_node_def sn_phase_def phase_trace_def split: option.splits)

lemma life_start_calls:
  assumes "life_ok u h a" "om_find (apiNodes a) k = Some n" "sn_phase n = Created" "node_start_calls o1 o2 k n a = (b, x)"
  shows "life_ok u h (put_node k (n\<lparr>snStarted := True\<rparr>) b)"
    and "life_ok u h (put_node k (n\<lparr>snStarted := True, snStopped := True\<rparr>) (log_effect (NodeStop k) b))"
  using assms
  by (auto simp: node_start_calls_def life_ok_def life_at_def put_node_def log_effect_def node_trace_def trace_step_def effect_node_def
      sn_phase_def phase_trace_def Let_def split: option.splits if_splits)


lemma life_client_calls [life]:
  assumes "life_ok u h a"
  shows "keeps_life u h (proxyClientNew env rnd a own part)" "keeps_life u h (proxyClientDelete env a k)"
    "keeps_life u h (proxyClientConnect env net a k ps)" "keeps_life u h (proxyClientPublish env now net2 a k d key)"
  using assms
  by (auto simp: proxyClientNew_def proxyClientDelete_def proxyClientConnect_def proxyClientPublish_def Let_def life
      split: sum.splits option.splits prod.splits)

lemma life_new_other:
  assumes "life_ok u h a" "rnd \<noteq> h"
  shows "keeps_life u h (streamrNodeNew env rnd a own cfg)"
  using assms by (auto simp: streamrNodeNew_def Let_def intro!: life life_replace split: sum.splits)

lemma life_new_self:
  assumes "life_ok True h a" "streamrNodeNew env h a own cfg = Inr (a', r, v)"
  shows "life_ok True h a' \<or> life_ok False h a'"
proof -
  have "keeps_life True h x \<or> keeps_life False h x" if "x = streamrNodeNew env h a own cfg" for x
    using that assms(1)
    by (auto simp: streamrNodeNew_def parsePeerList_def Let_def life life_born split: sum.splits)
  then show ?thesis using assms(2) by (auto simp: keeps_life_def)
qed

lemma life_delete [life]: "life_ok u h a \<Longrightarrow> keeps_life u h (streamrNodeDelete env a k)"
  by (auto simp: streamrNodeDelete_def Let_def life life_destroy split: option.splits)

lemma life_start [life]: "life_ok u h a \<Longrightarrow> keeps_life u h (streamrNodeStart env o1 o2 a k)"
  unfolding streamrNodeStart_def
  by (rule keeps_node) (auto simp: life life_start_calls sn_phase_def sn_stop_def Let_def split: prod.splits option.splits)

lemma life_stop_call [life]:
  assumes a: "life_ok u h a"
  shows "keeps_life u h (streamrNodeStop env o1 a k)"
proof -
  have st1: "life_ok u h (put_node k n1 (log_effect (NodeStop k) a))" if "om_find (apiNodes a) k = Some n" "sn_stop n = (n1, True)" for n n1
    using life_stop [OF a that(1)] that(2) by simp
  have st0: "life_ok u h (put_node k n1 a)" if "om_find (apiNodes a) k = Some n" "sn_stop n = (n1, False)" for n n1
    using life_stop [OF a that(1)] that(2) by simp
  show ?thesis unfolding streamrNodeStop_def
    by (intro keeps_node a) (auto simp: a Let_def intro!: keeps_succeed keeps_fail st1 st0 split: prod.splits option.splits)
qed

lemma life_running_calls [life]:
  assumes a: "life_ok u h a"
  shows "keeps_life u h (streamrNodeJoinStreamPart env o1 a k part eps)" "keeps_life u h (streamrNodeLeaveStreamPart env o1 a k part)"
    "keeps_life u h (streamrNodeSetProxies env o1 a k part ps dir cnt)" "keeps_life u h (streamrNodeGetNeighborCount env net a k part)"
proof -
  have use: "life_ok u h (log_effect e b)"
    if "life_ok u h b" "om_find (apiNodes b) k = Some n" "sn_phase n = Running" "effect_node e = Some k" "\<And>x. e \<noteq> NodeStart k x" "e \<noteq> NodeStop k" for e b n
    using life_use that by blast
  have nodes: "apiNodes (log_effect e a) = apiNodes a" for e by (simp add: log_effect_def)
  show "keeps_life u h (streamrNodeJoinStreamPart env o1 a k part eps)" unfolding streamrNodeJoinStreamPart_def Let_def
    by (rule keeps_running [OF a], rule keeps_part [OF a], rule keeps_peers [OF a], rule keeps_after)
      (auto simp: nodes a effect_node_def intro!: use)
  show "keeps_life u h (streamrNodeLeaveStreamPart env o1 a k part)" unfolding streamrNodeLeaveStreamPart_def
    by (rule keeps_running [OF a], rule keeps_part [OF a], rule keeps_after) (auto simp: a effect_node_def intro!: use)
  show "keeps_life u h (streamrNodeSetProxies env o1 a k part ps dir cnt)" unfolding streamrNodeSetProxies_def
    by (rule keeps_running [OF a], rule keeps_part [OF a])
      (auto simp: a life effect_node_def split: sum.splits intro!: keeps_peers use keeps_after)
  show "keeps_life u h (streamrNodeGetNeighborCount env net a k part)" unfolding streamrNodeGetNeighborCount_def
    by (rule keeps_running [OF a], rule keeps_part [OF a]) (auto simp: a life split: sum.splits)
qed


lemma life_updating_calls [life]:
  assumes a: "life_ok u h a"
  shows "keeps_life u h (streamrNodePublish env now o1 a k part d key)"
    "keeps_life u h (streamrNodeSubscribe env rnd tok o1 a k part cb ud)" "keeps_life u h (streamrNodeUnsubscribe env a k sub)"
proof -
  have put: "life_ok u h (put_node k n' b)"
    if "life_ok u h b" "apiNodes b = apiNodes a" "om_find (apiNodes a) k = Some n" "snStarted n' = snStarted n" "snStopped n' = snStopped n" for b n n'
    using life_put_node [OF that(1) _ that(4,5)] that(2,3) by simp
  have log: "life_ok u h (log_effect e a)" "life_ok u h (log_effect e (put_node k n' a))"
    if "om_find (apiNodes a) k = Some n" "sn_phase n = Running" "snStarted n' = snStarted n" "snStopped n' = snStopped n"
      "effect_node e = Some k" "\<And>x. e \<noteq> NodeStart k x" "e \<noteq> NodeStop k" for e n n'
  proof -
    show "life_ok u h (log_effect e a)" using life_use [OF a that(1,2,5,6,7)] .
    show "life_ok u h (log_effect e (put_node k n' a))"
      by (rule life_use [OF put [OF a refl that(1,3,4)], where n = n' and k = k])
        (use that in \<open>auto simp: put_node_def sn_phase_def split: if_splits\<close>)
  qed
  show "keeps_life u h (streamrNodePublish env now o1 a k part d key)" unfolding streamrNodePublish_def Let_def
    by (rule keeps_running [OF a], rule keeps_part [OF a])
      (auto simp: a effect_node_def intro!: keeps_after put log(2) split: sum.splits)
  show "keeps_life u h (streamrNodeSubscribe env rnd tok o1 a k part cb ud)" unfolding streamrNodeSubscribe_def Let_def
    by (rule keeps_running [OF a])
      (auto simp: a log_effect_def addSubscription_def effect_node_def intro!: keeps_part keeps_fail keeps_succeed put log(1) [unfolded log_effect_def]
       split: option.splits sum.splits)
  show "keeps_life u h (streamrNodeUnsubscribe env a k sub)" unfolding streamrNodeUnsubscribe_def
    by (rule keeps_node [OF a]) (auto simp: a takeSubscription_def intro!: keeps_fail keeps_succeed put split: option.splits prod.splits)
qed


subsection \<open>Runs\<close>

fun api_run :: "api_env \<Rightarrow> api_call list \<Rightarrow> api \<Rightarrow> cpp_error + api" where
  "api_run env [] a = Inr a"
| "api_run env (c # cs) a = (case api_exec env c a of Inl e \<Rightarrow> Inl e | Inr (a', _) \<Rightarrow> api_run env cs a')"

definition new_handles :: "api_call \<Rightarrow> (64 word) list" where
  "new_handles c = (case c of NNew rnd _ _ \<Rightarrow> [rnd] | _ \<Rightarrow> [])"

lemma keeps_drop: "keeps_life u h x \<Longrightarrow> drop_value x = Inr (a', r) \<Longrightarrow> life_ok u h a'"
  by (cases x) (auto simp: keeps_life_def drop_value_def)

lemma exec_life:
  assumes "life_ok u h a" "h \<notin> set (new_handles c)" "api_exec env c a = Inr (a', r)"
  shows "life_ok u h a'"
proof (cases c)
  case (NNew rnd own cfg)
  with assms show ?thesis by (auto simp: api_exec_def new_handles_def intro: keeps_drop [OF life_new_other])
qed (use assms in \<open>auto simp: api_exec_def intro: life keeps_drop [rotated]\<close>)

lemma exec_born:
  assumes "life_ok True h a" "api_exec env c a = Inr (a', r)"
  shows "life_ok False h a'"
proof -
  have weak: "life_ok False h b" if "life_ok True h b" for b using that by (auto simp: life_ok_def life_at_def split: option.splits)
  show ?thesis
  proof (cases "h \<in> set (new_handles c)")
    case True
    then obtain own cfg where c: "c = NNew h own cfg" by (auto simp: new_handles_def split: api_call.splits)
    obtain v where "streamrNodeNew env h a own cfg = Inr (a', r, v)"
      using assms(2) by (cases "streamrNodeNew env h a own cfg") (auto simp: c api_exec_def drop_value_def)
    then show ?thesis using life_new_self [OF assms(1)] weak by blast
  next
    case False
    then show ?thesis using exec_life [OF assms(1) _ assms(2)] weak by blast
  qed
qed

lemma run_life:
  assumes "api_run env cs a = Inr b" "distinct (concat (map new_handles cs))"
    "life_ok False h a" "h \<in> set (concat (map new_handles cs)) \<Longrightarrow> life_ok True h a"
  shows "life_ok False h b"
  using assms
proof (induction cs arbitrary: a)
  case (Cons c cs)
  obtain a' r where e: "api_exec env c a = Inr (a', r)" "api_run env cs a' = Inr b"
    using Cons.prems(1) by (auto split: sum.splits)
  have f: "life_ok False h a'"
    using exec_born [OF Cons.prems(4) e(1)] exec_life [OF Cons.prems(3) _ e(1)] by fastforce
  have "life_ok True h a'" if "h \<in> set (concat (map new_handles cs))"
    by (rule exec_life [OF Cons.prems(4) _ e(1)]) (use that Cons.prems(2) in auto)
  then show ?case using Cons.IH [OF e(2) _ f] Cons.prems(2) by simp
qed simp


lemma run_new_life:
  assumes "api_run env cs api_new = Inr a" "distinct (concat (map new_handles cs))"
  shows "life_ok False h a"
proof -
  have "life_ok True h api_new" "life_ok False h api_new" by (simp_all add: life_ok_def life_at_def api_new_def node_trace_def om_find_def)
  then show ?thesis using run_life [OF assms] by blast
qed

section \<open>Properties\<close>

text \<open>
  C2. Every call of the C API that returns hands out exactly one result: its address is new, the client reads through it
  exactly the errors and peers of the call, the results handed out before are untouched, and deleting the result
  restores the registry.
\<close>

theorem every_call_hands_out_one_result:
  assumes "alloc_contract env" "api_exec env c a = Inr (a', r)"
  shows "\<exists>es ps R. om_find (apiResults a) r = None \<and> om_find (apiResults a') = (om_find (apiResults a))(r \<mapsto> R) \<and>
    map (view_error [r] R) (r_errors (proxyResult R)) = map (Some \<circ> error_value_of) es \<and>
    map (view_peer [r] R) (r_successful (proxyResult R)) = map (Some \<circ> proxy_value) ps \<and>
    om_find (apiResults (proxyClientResultDelete a' r)) = om_find (apiResults a)"
proof -
  obtain es ps where r: "om_find (apiResults a) r = None"
      "om_find (apiResults a') = (om_find (apiResults a))(r \<mapsto> ProxyResultCpp_new [r] es ps)"
    using fresh_results.exec_fresh [OF fresh_results.intro [OF assms(1)] assms(2)] by blast
  have "om_find (apiResults (proxyClientResultDelete a' r)) = om_find (apiResults a)"
    using r by (auto simp: proxyClientResultDelete_def)
  then show ?thesis using r result_parts by blast
qed

theorem every_call_hands_out_one_result_witness:
  "\<exists>es ps R. om_find (apiResults api_new) 1 = None \<and>
    om_find (apiResults (fst (addResult ref_env api_new [] []))) = (om_find (apiResults api_new))(1 \<mapsto> R) \<and>
    map (view_error [1] R) (r_errors (proxyResult R)) = map (Some \<circ> error_value_of) es \<and>
    map (view_peer [1] R) (r_successful (proxyResult R)) = map (Some \<circ> proxy_value) ps \<and>
    om_find (apiResults (proxyClientResultDelete (fst (addResult ref_env api_new [] [])) 1)) = om_find (apiResults api_new)"
proof -
  have "api_exec ref_env (NDelete 7) api_new = Inr (fst (addResult ref_env api_new [] []), 1)"
    by (simp add: api_exec_def streamrNodeDelete_def succeed_with_def drop_value_def api_new_def addResult_def ref_env_def om_keys_def om_find_def Let_def)
  from every_call_hands_out_one_result [OF ref_alloc this] show ?thesis .
qed

text \<open>
  C1. After every sequence of calls of the C API, whatever the network answers, the library has used the network node behind a handle
  correctly: it started it at most once and before anything else, used it only while it was running, stopped it at most once
  and did nothing with it afterwards; a deleted node is stopped if it was ever started, and the flags of a live node say which of
  these phases it is in.  The handles that \<^verbatim>\<open>rand()\<close> gives to new nodes must be distinct.
\<close>

theorem node_life_cycle:
  assumes "api_run env cs api_new = Inr a" "distinct (concat (map new_handles cs))"
  shows "node_trace h (apiLog a) \<noteq> TBad \<and>
    (case om_find (apiNodes a) h of
       None \<Rightarrow> node_trace h (apiLog a) \<in> {TNew, TDone}
     | Some n \<Rightarrow> node_trace h (apiLog a) = phase_trace (sn_phase n))"
proof -
  have "life_ok False h a" using run_new_life [OF assms] .
  moreover have "phase_trace p \<noteq> TBad" for p by (cases p) (simp_all add: phase_trace_def)
  ultimately show ?thesis by (auto simp: life_ok_def life_at_def split: option.splits)
qed


definition demo_address :: string where
  "demo_address = ''0x1234567890123456789012345678901234567890''"

definition demo_run :: "api_call list" where
  "demo_run = [NNew 5 demo_address None, NStart None None 5, NStopCall None 5, NDelete 5]"

lemma demo_run_ends: "\<exists>a. api_run ref_env demo_run api_new = Inr a \<and> length (apiLog a) = 3"
proof -
  have "(case api_run ref_env demo_run api_new of Inr a \<Rightarrow> length (apiLog a) = 3 | Inl e \<Rightarrow> False)" by code_simp
  then show ?thesis by (auto split: sum.splits)
qed

theorem node_life_cycle_witness:
  "\<exists>a. api_run ref_env demo_run api_new = Inr a \<and> length (apiLog a) = 3 \<and> node_trace 5 (apiLog a) \<noteq> TBad"
proof -
  obtain a where a: "api_run ref_env demo_run api_new = Inr a" "length (apiLog a) = 3" using demo_run_ends by blast
  have "distinct (concat (map new_handles demo_run))" by (simp add: demo_run_def new_handles_def)
  from node_life_cycle [OF a(1) this, of 5] a show ?thesis by blast
qed

end
