(* ===== verification/Lib_Api_Behaviour.thy ===== *)
theory Lib_Api_Behaviour
  imports Lib_Api_Correct
begin

text \<open>
  What the calls of the C API do: the guards, when a call returns and when an exception leaves it, publishing and subscribing,
  the descriptors of proxies, the handles, and the clean-up of the library.
\<close>

section \<open>Guards\<close>

text \<open>The handle and the stream part id of the calls that need a running node.\<close>

definition running_call :: "api_call \<Rightarrow> (64 word \<times> string) option" where
  "running_call c =
     (case c of NJoinCall _ h part _ \<Rightarrow> Some (h, part) | NLeaveCall _ h part \<Rightarrow> Some (h, part) | NPublish _ _ h part _ _ \<Rightarrow> Some (h, part)
      | NSubscribe _ _ _ h part _ _ \<Rightarrow> Some (h, part) | NNeighbors _ h part \<Rightarrow> Some (h, part)
      | NSetProxies _ h part _ _ _ \<Rightarrow> Some (h, part) | _ \<Rightarrow> None)"

definition running_guard :: "api \<Rightarrow> 64 word \<Rightarrow> (string \<times> string) option" where
  "running_guard a h =
     (case om_find (apiNodes a) h of
        None \<Rightarrow> Some (''Streamr node not found with handle '' @ nat_to_string (unat h), ERROR_NODE_NOT_FOUND)
      | Some n \<Rightarrow> checkStreamrNodeRunning n)"

text \<open>A call that ends with one error and changes nothing else.\<close>

definition only_error :: "api_env \<Rightarrow> api \<Rightarrow> string \<Rightarrow> string \<Rightarrow> cpp_error + (api \<times> nat)" where
  "only_error env a m c = Inr (addResult env a [mk_error m c None] [])"

lemma drop_fail: "drop_value (fail_with env a m c None v) = only_error env a m c"
  by (simp add: drop_value_def fail_with_def only_error_def split: prod.splits)

lemmas running_defs = streamrNodeJoinStreamPart_def streamrNodeLeaveStreamPart_def streamrNodePublish_def streamrNodeSubscribe_def
  streamrNodeGetNeighborCount_def streamrNodeSetProxies_def

text \<open>
  A call that needs a running node, on a handle that is not one, changes nothing but the registry of results and reports which it is: the
  handle is unknown, the node was not started, or it was stopped.  Starting a stopped or a running node and stopping one that was
  not started are refused in the same way.
\<close>

theorem calls_are_guarded:
  assumes "running_call c = Some (h, part)"
  shows "(om_find (apiNodes a) h = None \<longrightarrow>
      (\<forall>d \<in> {c, NStart o1 o2 h, NStopCall o1 h}.
         api_exec env d a = only_error env a (''Streamr node not found with handle '' @ nat_to_string (unat h)) ERROR_NODE_NOT_FOUND)) \<and>
    (om_find (apiNodes a) h = Some n \<longrightarrow> sn_phase n = Created \<longrightarrow>
      (\<forall>d \<in> {c, NStopCall o1 h}. api_exec env d a = only_error env a ''The streamr node has not been started'' ERROR_NODE_NOT_STARTED)) \<and>
    (om_find (apiNodes a) h = Some n \<longrightarrow> sn_phase n = Running \<longrightarrow>
      api_exec env (NStart o1 o2 h) a = only_error env a ''The streamr node has already been started'' ERROR_NODE_ALREADY_STARTED) \<and>
    (om_find (apiNodes a) h = Some n \<longrightarrow> snStarted n \<and> snStopped n \<longrightarrow>
      api_exec env c a = only_error env a ''The streamr node has been stopped'' ERROR_NODE_STOPPED \<and>
      api_exec env (NStart o1 o2 h) a =
        only_error env a ''The streamr node has been stopped and cannot be restarted'' ERROR_NODE_STOPPED)"
proof -
  have run: "api_exec env c a = only_error env a m code" if "running_guard a h = Some (m, code)" for m code
    using assms that
    by (cases c) (auto simp: running_call_def api_exec_def running_defs with_running_node_def with_node_def node_not_found_def running_guard_def
        drop_fail split: option.splits)
  show ?thesis
    using run
    by (auto simp: running_guard_def checkStreamrNodeRunning_def sn_phase_def api_exec_def streamrNodeStart_def streamrNodeStop_def
        with_node_def node_not_found_def drop_fail split: if_splits)
qed


theorem calls_are_guarded_witness:
  "api_exec ref_env (NLeaveCall None 5 ''x#0'') api_new =
     only_error ref_env api_new (''Streamr node not found with handle '' @ nat_to_string (unat (5 :: 64 word))) ERROR_NODE_NOT_FOUND"
proof -
  have "running_call (NLeaveCall None 5 ''x#0'') = Some (5, ''x#0'')" by (simp add: running_call_def)
  from calls_are_guarded [OF this, of api_new _ _ ref_env] show ?thesis by (simp add: api_new_def om_find_def)
qed

section \<open>Calls that return\<close>

definition returns :: "'e + 'v \<Rightarrow> bool" where
  "returns x \<longleftrightarrow> (case x of Inl _ \<Rightarrow> False | Inr _ \<Rightarrow> True)"

text \<open>A stream part id is clean when the library accepts it or rejects it with the exception it expects.\<close>

definition clean_part :: "string \<Rightarrow> bool" where
  "clean_part part \<longleftrightarrow> (case sp_canonical part of Inl e \<Rightarrow> is_invalid_argument e | Inr _ \<Rightarrow> True)"

lemma canonical_error: "sp_canonical s = Inl e \<longleftrightarrow> sp_parse s = Inl e"
  by (auto simp: sp_canonical_def sp_parse_def toStreamPartID_def ensureValidStreamPartitionIndex_def
      split: sum.splits prod.splits option.splits if_splits)

lemma clean_parse: "clean_part s \<Longrightarrow> sp_parse s = Inl e \<Longrightarrow> is_invalid_argument e"
  using canonical_error [of s e] by (auto simp: clean_part_def)

named_theorems returning \<open>calls that return\<close>

lemma returns_simps [simp]: "\<not> returns (Inl e)" "returns (Inr v)"
  by (simp_all add: returns_def)

lemma returns_ends [returning]: "returns (fail_with env a m c p v)" "returns (succeed_with env a v)" "returns (after_call env a x)"
  "returns (case addResult env a es ps of (a', r) \<Rightarrow> Inr (a', r, v))"
  by (simp_all add: fail_with_def succeed_with_def after_call_def split: prod.splits option.splits)

lemma returns_node [returning]: "(\<And>n. returns (k n)) \<Longrightarrow> returns (with_node env a h v k)"
  by (simp add: with_node_def node_not_found_def returning split: option.splits)

lemma returns_running [returning]: "(\<And>n. returns (k n)) \<Longrightarrow> returns (with_running_node env a h v k)"
  by (auto simp: with_running_node_def returning intro!: returns_node split: option.splits)

lemma returns_part [returning]: "clean_part part \<Longrightarrow> (\<And>s. returns (k s)) \<Longrightarrow> returns (parseStreamPartIdChecked env a part v k)"
  by (auto simp: parseStreamPartIdChecked_def clean_part_def returning split: sum.splits)

lemma address_bytes:
  assumes "hex_contract env" "toEthereumAddress s = Inr x"
  shows "x = s" "\<exists>bs. hexToBinaryString (envHex env) s = Inr bs \<and> hex_lower (envHex env) bs = map to_lower (drop 2 s)"
proof -
  show "x = s" using assms(2) by (simp add: toEthereumAddress_def split: if_splits)
  have s: "length s = 42" "s ! 0 = CHR ''0''" "s ! 1 = CHR ''x''" "list_all is_hex (drop 2 s)"
    using assms(2) by (auto simp: toEthereumAddress_def split: if_splits)
  then have "take 2 s = ''0x''" by (simp add: take_Suc_conv_app_nth numeral_2_eq_2)
  moreover obtain bs where "unhex (envHex env) (drop 2 s) = Some bs" "length (drop 2 s) = length bs * 2"
      "hex_lower (envHex env) bs = map to_lower (drop 2 s)"
    using assms(1) s(1,4) unfolding hex_contract_def by fastforce
  ultimately show "\<exists>bs. hexToBinaryString (envHex env) s = Inr bs \<and> hex_lower (envHex env) bs = map to_lower (drop 2 s)"
    by (simp add: hexToBinaryString_def Let_def)
qed

lemma address_error: "toEthereumAddress s = Inl e \<Longrightarrow> is_runtime_error e"
  by (auto simp: toEthereumAddress_def is_runtime_error_def split: if_splits)

lemma parse_peers_caught:
  assumes "hex_contract env" "url_contract env"
  shows "parse_peers env code ps \<noteq> Inl (Inl e)"
proof (induction ps)
  case (Cons p ps)
  obtain ad u where p: "p = (ad, u)" by (cases p)
  have port: "map_sum id f (stoul (get_port url)) \<noteq> Inl x" if "envUrl env u = Some url" "has_port url" for f :: "64 word \<Rightarrow> 32 word" and x url
    using assms(2) that unfolding url_contract_def by (metis map_sum.simps(2) sum.distinct(1))
  have "is_runtime_error x" if "createProxyPeerDescriptor env ad u = Inl (StdException x)" for x
    using that port address_error [of ad] address_bytes [OF assms(1), of ad]
    by (auto simp: createProxyPeerDescriptor_def Let_def split: sum.splits option.splits if_splits)
  then show ?case using Cons p by (auto split: sum.splits api_exn.splits)
qed simp

lemma returns_peers [returning]:
  assumes "hex_contract env" "url_contract env" "\<And>s. returns (k s)"
  shows "returns (parsePeerList env a ps c v k)"
  using parse_peers_caught [OF assms(1,2), of c ps] assms(3) by (auto simp: parsePeerList_def returning split: sum.splits)

lemma local_descriptor:
  assumes "hex_contract env" "toEthereumAddress s = Inr x"
  shows "\<exists>pd. createLocalPeerDescriptor env x = Inr pd \<and> websocket pd = None \<and>
    hexToBinaryString (envHex env) s = Inr (nodeid pd) \<and> hex_lower (envHex env) (nodeid pd) = map to_lower (drop 2 s)"
  using address_bytes [OF assms] by (auto simp: createLocalPeerDescriptor_def)


definition call_parts :: "api_call \<Rightarrow> string list" where
  "call_parts c = (case c of CNew _ _ part \<Rightarrow> [part] | _ \<Rightarrow> (case running_call c of Some (_, part) \<Rightarrow> [part] | None \<Rightarrow> []))"

text \<open>The network calls that are made outside of a \<^verbatim>\<open>try\<close>.\<close>

definition call_net_returns :: "api_call \<Rightarrow> bool" where
  "call_net_returns c \<longleftrightarrow>
     (case c of CConnect net _ _ \<Rightarrow> \<forall>pds. returns (net pds) | NNeighbors net _ _ \<Rightarrow> \<forall>part. returns (net part) | _ \<Rightarrow> True)"

lemma returns_drop [simp]: "returns (drop_value x) = returns x"
  by (cases x) (auto simp: drop_value_def)

lemma returns_not_Inl: "\<forall>s. returns (net s) \<Longrightarrow> net s \<noteq> Inl e"
  by (metis returns_simps(1))

lemma returns_client_calls:
  assumes "hex_contract env" "url_contract env"
  shows "clean_part part \<Longrightarrow> returns (proxyClientNew env rnd a own part)" "returns (proxyClientDelete env a h)"
    "(\<And>pds. returns (net pds)) \<Longrightarrow> returns (proxyClientConnect env net a h ps)" "returns (proxyClientPublish env now net2 a h d k)"
proof -
  show "returns (proxyClientNew env rnd a own part)" if "clean_part part"
    using clean_parse [OF that] address_error [of own] local_descriptor [OF assms(1), of own]
    by (auto simp: proxyClientNew_def Let_def returning split: sum.splits)
  show "returns (proxyClientConnect env net a h ps)" if "\<And>pds. returns (net pds)"
    using parse_peers_caught [OF assms, of ERROR_INVALID_PROXY_URL ps] returns_not_Inl [of net] that
    by (auto simp: proxyClientConnect_def returning split: sum.splits option.splits prod.splits)
qed (auto simp: proxyClientDelete_def proxyClientPublish_def Let_def returning split: sum.splits option.splits prod.splits)

lemma returns_node_calls:
  assumes "hex_contract env" "url_contract env"
  shows "returns (streamrNodeNew env rnd a own cfg)" "returns (streamrNodeDelete env a h)" "returns (streamrNodeStart env o1 o2 a h)"
    "returns (streamrNodeStop env o1 a h)" "returns (streamrNodeUnsubscribe env a h sub)"
    "clean_part part \<Longrightarrow> returns (streamrNodeJoinStreamPart env o1 a h part eps)"
    "clean_part part \<Longrightarrow> returns (streamrNodeLeaveStreamPart env o1 a h part)"
    "clean_part part \<Longrightarrow> returns (streamrNodePublish env now o1 a h part d k)"
    "clean_part part \<Longrightarrow> returns (streamrNodeSubscribe env rnd tok o1 a h part cb ud)"
    "clean_part part \<Longrightarrow> (\<And>s. returns (net s)) \<Longrightarrow> returns (streamrNodeGetNeighborCount env net a h part)"
    "clean_part part \<Longrightarrow> returns (streamrNodeSetProxies env o1 a h part ps dir n)"
proof -
  show "returns (streamrNodeNew env rnd a own cfg)"
    using address_error [of own] local_descriptor [OF assms(1), of own]
    by (auto simp: streamrNodeNew_def Let_def returning assms split: sum.splits intro!: returns_peers)
  show "returns (streamrNodeGetNeighborCount env net a h part)" if "clean_part part" "\<And>s. returns (net s)"
    using that(1) returns_not_Inl [of net] that(2) by (auto simp: streamrNodeGetNeighborCount_def intro!: returning split: sum.splits)
qed (auto simp: streamrNodeDelete_def streamrNodeStart_def streamrNodeStop_def streamrNodeUnsubscribe_def running_defs Let_def assms
    intro!: returning split: sum.splits option.splits prod.splits)

text \<open>
  C16. Every call of the C API returns, whatever its other arguments and the state of the library, when its stream part id is
  clean and the two network calls that are made outside of a \<^verbatim>\<open>try\<close> do not throw (nor the construction of a client or a node, which
  the model takes for granted).
\<close>

theorem calls_return:
  assumes "hex_contract env" "url_contract env" "list_all clean_part (call_parts c)" "call_net_returns c"
  shows "\<exists>a' r. api_exec env c a = Inr (a', r)"
proof -
  note r = returns_client_calls [OF assms(1,2)] returns_node_calls [OF assms(1,2)]
  have "returns (api_exec env c a)"
    using assms(3,4)
    by (cases c) (auto simp: api_exec_def call_parts_def running_call_def call_net_returns_def intro!: r)
  then show ?thesis by (cases "api_exec env c a") auto
qed

text \<open>
  A stream part id with an empty or malformed stream id, or with a partition that does not fit 64 bits, is not clean: the exception
  it raises is not the one that the library catches, and it leaves every call that takes the id on a running node.
\<close>

theorem dirty_part_escapes:
  assumes "running_call c = Some (h, part)" "om_find (apiNodes a) h = Some n" "sn_phase n = Running"
    "\<And>rnd tok o1 cb ud. c = NSubscribe rnd tok o1 h part cb ud \<Longrightarrow> cb \<noteq> None" "sp_canonical part = Inl e" "\<not> is_invalid_argument e"
  shows "api_exec env c a = Inl e \<and> c_call (\<lambda>a. api_exec env c a) (Some a) = Inl e"
proof -
  have "api_exec env c a = Inl e"
    using assms
    by (cases c) (auto simp: running_call_def api_exec_def running_defs with_running_node_def with_node_def checkStreamrNodeRunning_def sn_phase_def
        parseStreamPartIdChecked_def drop_value_def split: option.splits if_splits)
  then show ?thesis by (simp add: c_call_def getProxyClientApi_def streamrInitLibrary_def)
qed

lemma dirty_parts:
  "sp_canonical ''#1'' = Inl (RuntimeError ''stream id may not be empty'')" "\<not> clean_part ''/x#0''"
  "sp_canonical ''abc#18446744073709551616'' = Inl OutOfRange"
  by (simp_all add: sp_eval clean_part_def is_invalid_argument_def)


theorem calls_return_witness: "\<exists>a' r. api_exec ref_env (NLeaveCall None 5 ''x#0'') api_new = Inr (a', r)"
proof -
  have "list_all clean_part (call_parts (NLeaveCall None 5 ''x#0''))"
    by (simp add: call_parts_def running_call_def clean_part_def sp_eval)
  from calls_return [OF ref_hex_contract ref_url this] show ?thesis by (simp add: call_net_returns_def)
qed

text \<open>A state with one running node.\<close>

definition demo_node :: streamr_node where
  "demo_node = \<lparr>snOwnAddress = demo_address, snSequenceNumber = 1, snStarted = True, snStopped = False, snSubscriptions = [],
     snPeerDescriptor = \<lparr>nodeid = [], region = 1, ipaddress = 0, websocket = None\<rparr>, snEntryPoints = [],
     snAcceptProxyConnections = False, snListeners = []\<rparr>"

definition demo_api :: api where
  "demo_api = \<lparr>apiClients = [], apiResults = [], apiNodes = [(5, demo_node)], apiLog = []\<rparr>"

theorem dirty_part_escapes_witness:
  "api_exec ref_env (NLeaveCall None 5 ''#1'') demo_api = Inl (RuntimeError ''stream id may not be empty'')"
proof -
  have r: "running_call (NLeaveCall None 5 ''#1'') = Some (5, ''#1'')" by (simp add: running_call_def)
  have n: "om_find (apiNodes demo_api) 5 = Some demo_node" "sn_phase demo_node = Running"
    by (simp_all add: demo_api_def demo_node_def om_find_def sn_phase_def)
  have e: "\<not> is_invalid_argument (RuntimeError ''stream id may not be empty'')" by (simp add: is_invalid_argument_def)
  show ?thesis using dirty_part_escapes [OF r n _ dirty_parts(1) e, of ref_env] by simp
qed

section \<open>Publishing and subscribing\<close>

lemma canonical_raw:
  assumes "sp_canonical s = Inr p"
  shows "\<exists>sid n. parseRawElements p = Inr (sid, Some n) \<and> p = sid @ ''#'' @ u32_to_string n"
proof -
  have "\<exists>sid n. p = sid @ ''#'' @ u32_to_string n"
    using assms by (auto simp: sp_canonical_def toStreamPartID_def split: sum.splits prod.splits option.splits)
  then show ?thesis using parse_canonical by blast
qed

lemma canonical_inject: "sid @ ''#'' @ u32_to_string n = tid @ ''#'' @ u32_to_string m \<longleftrightarrow> sid = tid \<and> n = m"
  by (metis parse_canonical old.sum.inject(2) option.inject prod.inject)

lemma built_message:
  assumes "buildStreamMessage env now pub p sq d key = Inr msg" "parseRawElements p = Inr (sid, Some n)"
  shows "streamid (messageid msg) = sid" "streampartition (messageid msg) = n" "sequencenumber (messageid msg) = sq"
    "timestamp (messageid msg) = now" "\<exists>c. contentmessage msg = Some c \<and> content c = d"
  using assms
  by (auto simp: buildStreamMessage_def getStreamPartition_def getStreamID_def getStreamIDAndPartition_def Let_def split: sum.splits option.splits)

lemma subscribe_listener:
  assumes "streamrNodeSubscribe env rnd tok o1 a h s cb ud = Inr (a', r, v)" "o1 = None" "cb = Some f"
    "om_find (apiNodes a) h = Some n" "sn_phase n = Running" "sp_canonical s = Inr p" "parseRawElements p = Inr (sid, Some part)"
  shows "\<exists>n'. om_find (apiNodes a') h = Some n' \<and> snListeners n' = snListeners n @
    [\<lparr>lsToken = tok, lsStreamPartId = p, lsStreamId = sid, lsStreamPartition = part, lsCallback = f, lsUserData = ud\<rparr>]"
  using assms
  by (auto simp: streamrNodeSubscribe_def with_running_node_def with_node_def checkStreamrNodeRunning_def sn_phase_def parseStreamPartIdChecked_def
      succeed_with_def addResult_def put_node_def log_effect_def addSubscription_def Let_def split: if_splits)

text \<open>
  C11. A subscription hears exactly the messages of its stream part: when a node has subscribed to \<open>s\<close>, a message published anywhere under \<open>s'\<close>
  makes it call the callback once more, with the canonical id, the exact bytes and the user data, if both ids have the
  same canonical form, and otherwise the new subscription stays silent.
\<close>

theorem publish_reaches_subscription:
  assumes "streamrNodeSubscribe env rnd tok None a h s (Some f) ud = Inr (a', r, v)"
    "om_find (apiNodes a) h = Some n" "sn_phase n = Running" "sp_canonical s = Inr p" "sp_canonical s' = Inr p'"
    "buildStreamMessage env' now pub p' sq d key = Inr msg"
  shows "\<exists>n'. om_find (apiNodes a') h = Some n' \<and>
    node_deliver h n' msg = node_deliver h n msg @ (if p = p' then [(f, h, p, d, ud)] else [])"
proof -
  obtain sid part where p: "parseRawElements p = Inr (sid, Some part)" "p = sid @ ''#'' @ u32_to_string part"
    using canonical_raw [OF assms(4)] by blast
  obtain sid' part' where p': "parseRawElements p' = Inr (sid', Some part')" "p' = sid' @ ''#'' @ u32_to_string part'"
    using canonical_raw [OF assms(5)] by blast
  have eq: "p = p' \<longleftrightarrow> sid = sid' \<and> part = part'" unfolding p(2) p'(2) canonical_inject by blast
  obtain n' where n': "om_find (apiNodes a') h = Some n'" "snListeners n' = snListeners n @
    [\<lparr>lsToken = tok, lsStreamPartId = p, lsStreamId = sid, lsStreamPartition = part, lsCallback = f, lsUserData = ud\<rparr>]"
    using subscribe_listener [OF assms(1) refl refl assms(2,3,4) p(1)] by blast
  then show ?thesis using built_message [OF assms(6) p'(1)] unfolding eq
    by (auto simp: node_deliver_def listener_call_def List.map_filter_def)
qed


theorem publish_reaches_subscription_witness:
  "\<exists>a' r v n' msg. streamrNodeSubscribe ref_env 9 1 None demo_api 5 ''abc#01'' (Some 3) 4 = Inr (a', r, v) \<and>
     buildStreamMessage ref_env 0 demo_address ''abc#1'' 1 ''hi'' None = Inr msg \<and>
     om_find (apiNodes a') 5 = Some n' \<and> node_deliver 5 n' msg = [(3, 5, ''abc#1'', ''hi'', 4)]"
proof -
  have n: "om_find (apiNodes demo_api) 5 = Some demo_node" "sn_phase demo_node = Running" "node_deliver 5 demo_node m = []" for m
    by (simp_all add: demo_api_def demo_node_def om_find_def sn_phase_def node_deliver_def List.map_filter_def)
  have p: "sp_canonical ''abc#01'' = Inr ''abc#1''" "sp_canonical ''abc#1'' = Inr ''abc#1''" by (simp_all add: sp_eval)
  have addr: "toEthereumAddress demo_address = Inr demo_address" by code_simp
  have raw: "parseRawElements ''abc#1'' = Inr (''abc'', Some 1)" by (simp add: sp_eval)
  obtain bs where "hexToBinaryString ref_hex_any demo_address = Inr bs"
    using address_bytes(2) [OF ref_hex_contract addr] by (auto simp: ref_env_def)
  then obtain msg where m: "buildStreamMessage ref_env 0 demo_address ''abc#1'' 1 ''hi'' None = Inr msg"
    by (simp add: buildStreamMessage_def demo_address_def ref_env_def getStreamPartition_def getStreamID_def getStreamIDAndPartition_def raw)
  obtain a' r v where a': "streamrNodeSubscribe ref_env 9 1 None demo_api 5 ''abc#01'' (Some 3) 4 = Inr (a', r, v)"
    by (cases "streamrNodeSubscribe ref_env 9 1 None demo_api 5 ''abc#01'' (Some 3) 4")
      (use n p raw in \<open>auto simp: streamrNodeSubscribe_def with_running_node_def with_node_def checkStreamrNodeRunning_def sn_phase_def
         parseStreamPartIdChecked_def succeed_with_def Let_def split: prod.splits if_splits\<close>)
  show ?thesis using publish_reaches_subscription [OF a' n(1,2) p m] a' m n(3) by auto
qed

lemma lower_hex_no_prefix: "list_all is_hex s \<Longrightarrow> take 2 (map to_lower s) \<noteq> ''0x''"
proof
  assume s: "list_all is_hex s" and "take 2 (map to_lower s) = ''0x''"
  then have "CHR ''x'' \<in> set (map to_lower s)" by (metis in_set_takeD list.set_intros)
  then obtain c where "is_hex c" "to_lower c = CHR ''x''" using s by (auto simp: list_all_iff)
  then obtain n where "hex_digit n = CHR ''x''" using unhex_digit_lower by metis
  then show False using hex_digit_range [of n] by simp
qed

text \<open>
  Both publishing calls put the same message id on a message of the same publisher, but they sign it over different texts: a
  proxy client signs over its address in lower case and a node over the address as it was given, so that the signatures agree only
  on addresses written in lower case.
\<close>

theorem signed_address_differs:
  assumes "hex_contract env" "toEthereumAddress own = Inr own" "createLocalPeerDescriptor env own = Inr (pcLocalPeer client)"
    "createStreamMessage env now client d (Some key) = (client', Inr m1)"
    "buildStreamMessage env now own (pcStreamPartId client) (pcSequenceNumber client) d (Some key) = Inr m2"
  shows "messageid m1 = messageid m2 \<and>
    (\<exists>pk. signature m1 = Some (envSecp env (su_hash env (signaturePayload (messageid m1) (''0x'' @ map to_lower (drop 2 own)) d)) pk) \<and>
          signature m2 = Some (envSecp env (su_hash env (signaturePayload (messageid m1) own d)) pk)) \<and>
    (signaturePayload (messageid m1) (''0x'' @ map to_lower (drop 2 own)) d = signaturePayload (messageid m1) own d \<longleftrightarrow>
       own = ''0x'' @ map to_lower (drop 2 own))"
proof -
  let ?p = "map to_lower (drop 2 own)"
  have own: "take 2 own = ''0x''" "list_all is_hex (drop 2 own)" "length own = 42"
    using assms(2) by (auto simp: toEthereumAddress_def take_Suc_conv_app_nth numeral_2_eq_2 split: if_splits)
  have pd: "hexToBinaryString (envHex env) own = Inr (nodeid (pcLocalPeer client))" "hex_lower (envHex env) (nodeid (pcLocalPeer client)) = ?p"
    using local_descriptor [OF assms(1,2)] assms(3) by auto
  have "unhex (envHex env) ?p = Some (nodeid (pcLocalPeer client))" using assms(1) pd(2) unfolding hex_contract_def by metis
  moreover have "length ?p = length (nodeid (pcLocalPeer client)) * 2"
    using pd(1) own by (simp add: hexToBinaryString_def Let_def split: if_splits option.splits)
  ultimately have pub: "hexToBinaryString (envHex env) (''0x'' @ ?p) = Inr (nodeid (pcLocalPeer client))"
    by (simp add: hexToBinaryString_def)
  have loc: "getLocalEthereumAddress env client = ?p"
    using pd(2) by (simp add: getLocalEthereumAddress_def getNodeIdFromPeerDescriptor_def getDhtAddressFromRaw_def binaryStringToHex_def)
  have x: "take 2 ?p \<noteq> ''0x''" using lower_hex_no_prefix [OF own(2)] .
  have b1: "buildStreamMessage env now (''0x'' @ ?p) (pcStreamPartId client) (pcSequenceNumber client) d (Some key) = Inr m1"
    using assms(4) x by (simp add: createStreamMessage_def loc buildStreamMessage_def)
  have "signaturePayload i (''0x'' @ ?p) d = signaturePayload i own d \<longleftrightarrow> own = ''0x'' @ ?p" for i
    by (auto simp: signaturePayload_def)
  then show ?thesis using b1 assms(5) pub pd(1) own(1)
    by (auto simp: buildStreamMessage_def createSignature_def Let_def split: sum.splits option.splits)
qed



lemma build_returns:
  assumes "hexToBinaryString (envHex env) (if take 2 pub = ''0x'' then pub else ''0x'' @ pub) = Inr bs" "parseRawElements p = Inr (sid, Some n)"
    "hexToBinaryString (envHex env) key = Inr pk"
  shows "\<exists>m. buildStreamMessage env now pub p sq d (Some key) = Inr m"
  using assms by (auto simp: buildStreamMessage_def createSignature_def getStreamPartition_def getStreamID_def getStreamIDAndPartition_def Let_def)

definition mixed_address :: string where
  "mixed_address = ''0xABcdef7890123456789012345678901234567890''"

theorem signed_address_differs_witness:
  "\<exists>client client' m1 m2. createStreamMessage ref_env 0 client ''hi'' (Some ''01'') = (client', Inr m1) \<and>
     buildStreamMessage ref_env 0 mixed_address (pcStreamPartId client) (pcSequenceNumber client) ''hi'' (Some ''01'') = Inr m2 \<and>
     messageid m1 = messageid m2 \<and>
     signaturePayload (messageid m1) (''0x'' @ map to_lower (drop 2 mixed_address)) ''hi'' \<noteq> signaturePayload (messageid m1) mixed_address ''hi''"
proof -
  have addr: "toEthereumAddress mixed_address = Inr mixed_address" by code_simp
  obtain pd where pd: "createLocalPeerDescriptor ref_env mixed_address = Inr pd"
      "hexToBinaryString (envHex ref_env) mixed_address = Inr (nodeid pd)" "hex_lower (envHex ref_env) (nodeid pd) = map to_lower (drop 2 mixed_address)"
    using local_descriptor [OF ref_hex_contract addr] by blast
  have raw: "parseRawElements ''abc#1'' = Inr (''abc'', Some 1)" by (simp add: sp_eval)
  have "list_all (\<lambda>s. case hexToBinaryString ref_hex_any s of Inl e \<Rightarrow> False | Inr x \<Rightarrow> True) [''01'', ''0x'' @ map to_lower (drop 2 mixed_address)]" by code_simp
  then obtain k bs where k: "hexToBinaryString (envHex ref_env) ''01'' = Inr k"
      "hexToBinaryString (envHex ref_env) (''0x'' @ map to_lower (drop 2 mixed_address)) = Inr bs"
    by (auto simp: ref_env_def split: sum.splits)
  define client where "client = \<lparr>pcLocalPeer = pd, pcStreamPartId = ''abc#1'', pcSequenceNumber = 1\<rparr>"
  have own: "take 2 mixed_address = ''0x''" "take 2 (map to_lower (drop 2 mixed_address)) \<noteq> ''0x''"
      "mixed_address \<noteq> ''0x'' @ map to_lower (drop 2 mixed_address)"
    by code_simp+
  have loc: "getLocalEthereumAddress ref_env client = map to_lower (drop 2 mixed_address)"
    using pd(3) by (simp add: client_def getLocalEthereumAddress_def getNodeIdFromPeerDescriptor_def getDhtAddressFromRaw_def binaryStringToHex_def)
  obtain m1 where m1: "createStreamMessage ref_env 0 client ''hi'' (Some ''01'') = (client\<lparr>pcSequenceNumber := 2\<rparr>, Inr m1)"
    using build_returns [OF _ raw k(1), of "map to_lower (drop 2 mixed_address)" bs 0 1 "''hi''"] k(2) own(2)
    by (auto simp: createStreamMessage_def loc) (auto simp: client_def)
  obtain m2 where m2: "buildStreamMessage ref_env 0 mixed_address (pcStreamPartId client) (pcSequenceNumber client) ''hi'' (Some ''01'') = Inr m2"
    using build_returns [OF _ raw k(1), of mixed_address "nodeid pd" 0 1 "''hi''"] pd(2) own(1) by (auto simp: client_def)
  have "createLocalPeerDescriptor ref_env mixed_address = Inr (pcLocalPeer client)" using pd(1) by (simp add: client_def)
  from signed_address_differs [OF ref_hex_contract addr this m1 m2] m1 m2 own(3) show ?thesis by blast
qed

section \<open>Descriptors and handles\<close>

text \<open>
  The URL parser reports a protocol with its colon (\<^verbatim>\<open>wss:\<close>), and the code compares it with \<^verbatim>\<open>wss\<close> and \<^verbatim>\<open>https\<close>: no proxy and no entry
  point is ever contacted over TLS, and one whose URL has no port is contacted on port 80.
\<close>

theorem tls_never_recognised:
  assumes "\<forall>u url. envUrl env u = Some url \<longrightarrow> (\<exists>s. get_protocol url = s @ '':'')" "createProxyPeerDescriptor env ad u = Inr pd"
  shows "\<exists>url ws. envUrl env u = Some url \<and> websocket pd = Some ws \<and> \<not> cm_tls ws \<and> (has_port url \<or> cm_port ws = 80) \<and>
    cm_host ws = get_hostname url \<and> take 5 (connectivityMethodToWebsocketUrl ws) = ''ws://''"
proof -
  have "get_protocol url \<noteq> ''wss'' \<and> get_protocol url \<noteq> ''https''" if url: "envUrl env u = Some url" for url
  proof -
    obtain s where "get_protocol url = s @ '':''" using assms(1) url by blast
    then have "last (get_protocol url) = CHR '':''" by simp
    then show ?thesis by auto
  qed
  then have "\<exists>url port. envUrl env u = Some url \<and> websocket pd = Some \<lparr>cm_port = port, cm_host = get_hostname url, cm_tls = False\<rparr> \<and>
      (has_port url \<or> port = 80)"
    using assms(2) by (auto simp: createProxyPeerDescriptor_def Let_def split: sum.splits option.splits if_splits)
  then show ?thesis by (fastforce simp: connectivityMethodToWebsocketUrl_def)
qed

theorem tls_never_recognised_witness:
  "\<exists>pd ws. createProxyPeerDescriptor ref_env demo_address ''wss://h'' = Inr pd \<and> websocket pd = Some ws \<and> \<not> cm_tls ws \<and>
     take 5 (connectivityMethodToWebsocketUrl ws) = ''ws://''"
proof -
  have c: "\<forall>u url. envUrl ref_env u = Some url \<longrightarrow> (\<exists>s. get_protocol url = s @ '':'')"
    by (auto simp: ref_env_def ref_url_def)
  have addr: "toEthereumAddress demo_address = Inr demo_address" by code_simp
  obtain bs where "hexToBinaryString (envHex ref_env) demo_address = Inr bs" using address_bytes(2) [OF ref_hex_contract addr] by blast
  then obtain pd where pd: "createProxyPeerDescriptor ref_env demo_address ''wss://h'' = Inr pd"
    by (auto simp: createProxyPeerDescriptor_def addr ref_env_def ref_url_def)
  from tls_never_recognised [OF c pd] pd show ?thesis by blast
qed

text \<open>
  A new node gets whatever \<^verbatim>\<open>rand()\<close> returns as its handle.  When a running node has that handle, it is stopped and its handle now
  denotes the new node; the handle 0, which stands for failure, is handed out like any other.
\<close>

theorem handle_collision_replaces_node:
  assumes "hex_contract env" "toEthereumAddress own = Inr own" "om_find (apiNodes a) rnd = Some old" "sn_phase old = Running"
  shows "\<exists>a' r n'. streamrNodeNew env rnd a own None = Inr (a', r, rnd) \<and> apiLog a' = apiLog a @ [NodeStop rnd] \<and>
    om_find (apiNodes a') rnd = Some n' \<and> sn_phase n' = Created \<and> snListeners n' = []"
proof -
  obtain pd where "createLocalPeerDescriptor env own = Inr pd" using local_descriptor [OF assms(1,2)] by blast
  then show ?thesis using assms(2-4)
    by (auto simp: streamrNodeNew_def parsePeerList_def default_config_def Let_def succeed_with_def addResult_def put_node_def destroy_node_def
        sn_stop_def sn_phase_def log_effect_def split: if_splits)
qed

theorem handle_collision_replaces_node_witness:
  "\<exists>a' r n'. streamrNodeNew ref_env 5 demo_api demo_address None = Inr (a', r, 5) \<and> apiLog a' = [NodeStop 5] \<and>
     om_find (apiNodes a') 5 = Some n' \<and> sn_phase n' = Created"
proof -
  have "toEthereumAddress demo_address = Inr demo_address" by code_simp
  moreover have "om_find (apiNodes demo_api) 5 = Some demo_node" "sn_phase demo_node = Running"
    by (simp_all add: demo_api_def demo_node_def om_find_def sn_phase_def)
  ultimately show ?thesis using handle_collision_replaces_node [OF ref_hex_contract, of demo_address demo_api 5 demo_node]
    by (auto simp: demo_api_def)
qed


section \<open>Cleaning up\<close>

lemma trace_append: "node_trace h (es @ ds) = foldl (trace_step h) (node_trace h es) ds"
  by (simp add: node_trace_def)

lemma trace_other: "list_all (\<lambda>e. effect_node e \<noteq> Some h) ds \<Longrightarrow> foldl (trace_step h) t ds = t"
  by (induction ds) (simp_all add: trace_step_def)

lemma trace_destroy:
  "om_ok ns \<Longrightarrow> foldl (trace_step h) t (destroy_nodes ns) =
     (case om_find ns h of None \<Rightarrow> t | Some n \<Rightarrow> if sn_phase n = Running then trace_step h t (NodeStop h) else t)"
proof (induction ns arbitrary: t)
  case (Cons p ns)
  obtain k n where p: "p = (k, n)" by (cases p)
  have ns: "om_ok ns" "k \<notin> fst ` set ns" using Cons.prems p by (auto simp: om_ok_Cons)
  have "om_find ns k = None" using ns(2) by (simp add: om_find_None_iff)
  moreover have "om_find (p # ns) h = (if h = k then Some n else om_find ns h)" by (auto simp: p om_find_def)
  ultimately show ?case using Cons.IH [OF ns(1)]
    by (auto simp: p sn_stop_def sn_phase_def trace_step_def effect_node_def split: option.splits)
qed (simp add: om_find_def)

lemma trace_clients: "foldl (trace_step h) t (map ClientStop hs) = t"
  by (rule trace_other) (simp add: list_all_iff effect_node_def)

text \<open>
  C14. \<^verbatim>\<open>streamrCleanupLibrary\<close> after any sequence of calls leaves no network node running: each node that was ever started has been stopped exactly
  once, whatever the network answered.  Every proxy client is stopped, a second clean-up does nothing, and the next
  call of the API finds an empty library.
\<close>

theorem cleanup_stops_everything:
  assumes "api_run env cs api_new = Inr a" "distinct (concat (map new_handles cs))"
    "streamrCleanupLibrary (Some a) = (g, es)"
  shows "node_trace h (apiLog a @ es) \<in> {TNew, TDone} \<and>
    filter (\<lambda>e. effect_node e = None) es = map ClientStop (om_keys (apiClients a)) \<and>
    streamrCleanupLibrary g = (None, []) \<and> getProxyClientApi g = api_new"
proof -
  have es: "g = None" "es = destroy_nodes (apiNodes a) @ map ClientStop (om_keys (apiClients a))"
    using assms(3) by (simp_all add: streamrCleanupLibrary_def)
  have ok: "life_ok False h a" using run_new_life [OF assms(1,2)] .
  then have "foldl (trace_step h) (node_trace h (apiLog a)) (destroy_nodes (apiNodes a)) \<in> {TNew, TDone}"
    by (subst trace_destroy)
      (auto simp: life_ok_def life_at_def trace_step_def effect_node_def phase_trace_def split: option.splits node_phase.splits)
  then have "node_trace h (apiLog a @ es) \<in> {TNew, TDone}" by (simp add: es(2) trace_append trace_clients)
  moreover have "filter (\<lambda>e. effect_node e = None) (destroy_nodes ns) = []" for ns
    by (induction ns rule: destroy_nodes.induct) (simp_all add: effect_node_def)
  ultimately show ?thesis
    by (simp add: es filter_map comp_def effect_node_def streamrCleanupLibrary_def getProxyClientApi_def streamrInitLibrary_def)
qed

theorem cleanup_stops_everything_witness:
  "\<exists>a. api_run ref_env demo_run api_new = Inr a \<and> node_trace 5 (apiLog a @ snd (streamrCleanupLibrary (Some a))) \<in> {TNew, TDone}"
proof -
  obtain a where a: "api_run ref_env demo_run api_new = Inr a" using demo_run_ends by blast
  have "distinct (concat (map new_handles demo_run))" by (simp add: demo_run_def new_handles_def)
  from cleanup_stops_everything [OF a this, of "fst (streamrCleanupLibrary (Some a))"] a show ?thesis by (metis prod.collapse)
qed

end
