(* ===== verification/Cpp_Wrappers.thy ===== *)
theory Cpp_Wrappers
  imports Lib_Api_Correct
begin

text \<open>
  The C++ wrappers over the C API: \<^verbatim>\<open>StreamrProxyClient.hpp\<close> and \<^verbatim>\<open>StreamrNode.hpp\<close>.  A method is a function of the state of the library; it
  ends with a value or with an exception, and the state after it is part of the outcome in both cases.
\<close>

section \<open>Strings\<close>

text \<open>What a C function sees of a C++ string: its bytes up to the first NUL.\<close>

definition c_str :: "string \<Rightarrow> string" where
  "c_str s = takeWhile (\<lambda>c. c \<noteq> CHR 0x00) s"

lemma c_str_idem [simp]: "c_str (c_str s) = c_str s"
  by (simp add: c_str_def)

lemma c_str_id: "CHR 0x00 \<notin> set s \<Longrightarrow> c_str s = s"
  by (auto simp: c_str_def takeWhile_eq_all_conv)

section \<open>Errors and results of the proxy client\<close>

datatype StreamrProxyErrorCode =
    ErrorInvalidEthereumAddress
  | ErrorInvalidStreamPartId
  | ErrorProxyClientNotFound
  | ErrorInvalidProxyUrl
  | ErrorNoProxiesDefined
  | ErrorProxyConnectionFailed
  | ErrorProxyBroadcastFailed

text \<open>The static member \<^verbatim>\<open>name\<close> of the error structs.\<close>

primrec proxy_code_name :: "StreamrProxyErrorCode \<Rightarrow> string" where
  "proxy_code_name ErrorInvalidEthereumAddress = ERROR_INVALID_ETHEREUM_ADDRESS"
| "proxy_code_name ErrorInvalidStreamPartId = ERROR_INVALID_STREAM_PART_ID"
| "proxy_code_name ErrorProxyClientNotFound = ERROR_PROXY_CLIENT_NOT_FOUND"
| "proxy_code_name ErrorInvalidProxyUrl = ERROR_INVALID_PROXY_URL"
| "proxy_code_name ErrorNoProxiesDefined = ERROR_NO_PROXIES_DEFINED"
| "proxy_code_name ErrorProxyConnectionFailed = ERROR_PROXY_CONNECTION_FAILED"
| "proxy_code_name ErrorProxyBroadcastFailed = ERROR_PROXY_BROADCAST_FAILED"

definition proxy_getErrorCode :: "string \<Rightarrow> StreamrProxyErrorCode" where
  "proxy_getErrorCode code =
     (if code = ERROR_INVALID_ETHEREUM_ADDRESS then ErrorInvalidEthereumAddress
      else if code = ERROR_INVALID_STREAM_PART_ID then ErrorInvalidStreamPartId
      else if code = ERROR_PROXY_CLIENT_NOT_FOUND then ErrorProxyClientNotFound
      else if code = ERROR_INVALID_PROXY_URL then ErrorInvalidProxyUrl
      else if code = ERROR_NO_PROXIES_DEFINED then ErrorNoProxiesDefined
      else if code = ERROR_PROXY_CONNECTION_FAILED then ErrorProxyConnectionFailed
      else if code = ERROR_PROXY_BROADCAST_FAILED then ErrorProxyBroadcastFailed
      else ErrorInvalidProxyUrl)"

record StreamrProxyAddress =
  spa_websocketUrl :: string
  spa_ethereumAddress :: string

definition fromCProxy :: "peer_value \<Rightarrow> StreamrProxyAddress" where
  "fromCProxy proxy = \<lparr>spa_websocketUrl = c_str (snd proxy), spa_ethereumAddress = c_str (fst proxy)\<rparr>"

text \<open>The peer the C API is given for an address.\<close>

definition toCProxy :: "StreamrProxyAddress \<Rightarrow> peer_value" where
  "toCProxy proxy = (c_str (spa_ethereumAddress proxy), c_str (spa_websocketUrl proxy))"

definition no_address :: StreamrProxyAddress where
  "no_address = \<lparr>spa_websocketUrl = [], spa_ethereumAddress = []\<rparr>"

record StreamrProxyError =
  spe_message :: string
  spe_proxy :: StreamrProxyAddress
  spe_code :: StreamrProxyErrorCode

definition StreamrProxyError_of :: "error_value \<Rightarrow> StreamrProxyError" where
  "StreamrProxyError_of e =
     \<lparr>spe_message = c_str (ev_message e),
      spe_proxy = (case ev_peer e of None \<Rightarrow> no_address | Some p \<Rightarrow> fromCProxy p),
      spe_code = proxy_getErrorCode (c_str (ev_code e))\<rparr>"

record StreamrProxyResult =
  spr_successful :: "StreamrProxyAddress list"
  spr_errors :: "StreamrProxyError list"

section \<open>Errors of the node\<close>

datatype StreamrNodeErrorCode =
    NodeInvalidEthereumAddress
  | NodeInvalidStreamPartId
  | ErrorNodeNotFound
  | ErrorNodeNotStarted
  | ErrorNodeAlreadyStarted
  | ErrorNodeStopped
  | ErrorInvalidEntryPointUrl
  | ErrorSubscriptionNotFound
  | ErrorNodeOperationFailed

primrec node_code_name :: "StreamrNodeErrorCode \<Rightarrow> string" where
  "node_code_name NodeInvalidEthereumAddress = ERROR_INVALID_ETHEREUM_ADDRESS"
| "node_code_name NodeInvalidStreamPartId = ERROR_INVALID_STREAM_PART_ID"
| "node_code_name ErrorNodeNotFound = ERROR_NODE_NOT_FOUND"
| "node_code_name ErrorNodeNotStarted = ERROR_NODE_NOT_STARTED"
| "node_code_name ErrorNodeAlreadyStarted = ERROR_NODE_ALREADY_STARTED"
| "node_code_name ErrorNodeStopped = ERROR_NODE_STOPPED"
| "node_code_name ErrorInvalidEntryPointUrl = ERROR_INVALID_ENTRY_POINT_URL"
| "node_code_name ErrorSubscriptionNotFound = ERROR_SUBSCRIPTION_NOT_FOUND"
| "node_code_name ErrorNodeOperationFailed = ERROR_NODE_OPERATION_FAILED"

definition node_getErrorCode :: "string \<Rightarrow> StreamrNodeErrorCode" where
  "node_getErrorCode code =
     (if code = ERROR_INVALID_ETHEREUM_ADDRESS then NodeInvalidEthereumAddress
      else if code = ERROR_INVALID_STREAM_PART_ID then NodeInvalidStreamPartId
      else if code = ERROR_NODE_NOT_FOUND then ErrorNodeNotFound
      else if code = ERROR_NODE_NOT_STARTED then ErrorNodeNotStarted
      else if code = ERROR_NODE_ALREADY_STARTED then ErrorNodeAlreadyStarted
      else if code = ERROR_NODE_STOPPED then ErrorNodeStopped
      else if code = ERROR_INVALID_ENTRY_POINT_URL then ErrorInvalidEntryPointUrl
      else if code = ERROR_SUBSCRIPTION_NOT_FOUND then ErrorSubscriptionNotFound
      else ErrorNodeOperationFailed)"

record StreamrNodeError =
  sne_message :: string
  sne_code :: StreamrNodeErrorCode
  sne_peer :: StreamrProxyAddress

definition StreamrNodeError_of :: "error_value \<Rightarrow> StreamrNodeError" where
  "StreamrNodeError_of e =
     \<lparr>sne_message = c_str (ev_message e), sne_code = node_getErrorCode (c_str (ev_code e)),
      sne_peer = (case ev_peer e of None \<Rightarrow> no_address | Some p \<Rightarrow> fromCProxy p)\<rparr>"

section \<open>Reading a result\<close>

datatype wrapper_exn = ProxyExn StreamrProxyError | NodeExn StreamrNodeError | CppExn cpp_error

type_synonym 'v outcome = "library \<times> (wrapper_exn + 'v)"

definition lib_result :: "library \<Rightarrow> nat \<Rightarrow> ProxyResultCpp option" where
  "lib_result g r = om_find (apiResults (getProxyClientApi g)) r"

text \<open>The values behind the pointers of an array; \<open>None\<close> when a pointer is dangling.\<close>

fun read_all :: "('p \<Rightarrow> 'v option) \<Rightarrow> 'p list \<Rightarrow> 'v list option" where
  "read_all rd [] = Some []"
| "read_all rd (p # ps) = (case rd p of None \<Rightarrow> None | Some v \<Rightarrow> (case read_all rd ps of None \<Rightarrow> None | Some vs \<Rightarrow> Some (v # vs)))"

text \<open>The constructor of \<^verbatim>\<open>StreamrProxyResult\<close>, with its two loops over the arrays of the C result.\<close>

definition StreamrProxyResult_new :: "library \<Rightarrow> nat \<Rightarrow> StreamrProxyResult option" where
  "StreamrProxyResult_new g r =
     (case lib_result g r of
        None \<Rightarrow> None
      | Some R \<Rightarrow>
          (case read_all (view_peer [r] R) (take (r_numSuccessful (proxyResult R)) (r_successful (proxyResult R))) of
             None \<Rightarrow> None
           | Some ps \<Rightarrow>
               (case read_all (view_error [r] R) (take (r_numErrors (proxyResult R)) (r_errors (proxyResult R))) of
                  None \<Rightarrow> None
                | Some es \<Rightarrow> Some \<lparr>spr_successful = map fromCProxy ps, spr_errors = map StreamrProxyError_of es\<rparr>)))"

text \<open>\<^verbatim>\<open>result->errors[0]\<close>, when there is an error: \<open>Inr None\<close> when there is none, \<open>Inl\<close> when a pointer is dangling.\<close>

definition first_error :: "library \<Rightarrow> nat \<Rightarrow> cpp_error + error_value option" where
  "first_error g r =
     (case lib_result g r of
        None \<Rightarrow> Inl UndefinedBehaviour
      | Some R \<Rightarrow>
          (if r_numErrors (proxyResult R) > 0
           then (case r_errors (proxyResult R) of
                   [] \<Rightarrow> Inl UndefinedBehaviour
                 | e # _ \<Rightarrow> (case view_error [r] R e of None \<Rightarrow> Inl UndefinedBehaviour | Some v \<Rightarrow> Inr (Some v)))
           else Inr None))"

section \<open>StreamrProxyClient\<close>

record StreamrProxyClient =
  proxyClientHandle :: "64 word"
  spcEthereumPrivateKey :: string

definition StreamrProxyClient_new ::
  "api_env \<Rightarrow> 64 word \<Rightarrow> string \<Rightarrow> string \<Rightarrow> string \<Rightarrow> library \<Rightarrow> StreamrProxyClient outcome" where
  "StreamrProxyClient_new env rnd ownEthereumAddress ethereumPrivateKey streamPartId g =
     (case c_proxyClientNew env rnd (c_str ownEthereumAddress) (c_str streamPartId) g of
        Inl e \<Rightarrow> (Some (getProxyClientApi g), Inl (CppExn e))
      | Inr (g1, r, handle) \<Rightarrow>
          (case first_error g1 r of
             Inl e \<Rightarrow> (g1, Inl (CppExn e))
           | Inr (Some v) \<Rightarrow> (streamrResultDelete g1 r, Inl (ProxyExn (StreamrProxyError_of v)))
           | Inr None \<Rightarrow>
               (streamrResultDelete g1 r, Inr \<lparr>proxyClientHandle = handle, spcEthereumPrivateKey = ethereumPrivateKey\<rparr>)))"

definition StreamrProxyClient_destroy :: "api_env \<Rightarrow> StreamrProxyClient \<Rightarrow> library \<Rightarrow> unit outcome" where
  "StreamrProxyClient_destroy env this g =
     (if proxyClientHandle this \<noteq> 0
      then (case c_proxyClientDelete env (proxyClientHandle this) g of
              Inl e \<Rightarrow> (Some (getProxyClientApi g), Inl (CppExn e))
            | Inr (g1, r, _) \<Rightarrow> (streamrResultDelete g1 r, Inr ()))
      else (g, Inr ()))"

text \<open>The end of \<^verbatim>\<open>connect\<close> and \<^verbatim>\<open>publish\<close>: the result is copied and freed.\<close>

definition take_result :: "library \<Rightarrow> cpp_error + (library \<times> nat \<times> 64 word) \<Rightarrow> StreamrProxyResult outcome" where
  "take_result g x =
     (case x of
        Inl e \<Rightarrow> (Some (getProxyClientApi g), Inl (CppExn e))
      | Inr (g1, r, _) \<Rightarrow>
          (case StreamrProxyResult_new g1 r of
             None \<Rightarrow> (g1, Inl (CppExn UndefinedBehaviour))
           | Some res \<Rightarrow> (streamrResultDelete g1 r, Inr res)))"

definition spc_connect ::
  "api_env \<Rightarrow> (PeerDescriptor list \<Rightarrow> cpp_error + connect_outcome) \<Rightarrow> StreamrProxyClient \<Rightarrow> StreamrProxyAddress list \<Rightarrow> library \<Rightarrow>
     StreamrProxyResult outcome" where
  "spc_connect env net this proxies g = take_result g (c_proxyClientConnect env net (proxyClientHandle this) (map toCProxy proxies) g)"

definition spc_publish ::
  "api_env \<Rightarrow> int \<Rightarrow> (ApiMessage \<Rightarrow> cpp_error + (PeerDescriptor list \<times> PeerDescriptor list)) \<Rightarrow> StreamrProxyClient \<Rightarrow> string \<Rightarrow> library \<Rightarrow>
     StreamrProxyResult outcome" where
  "spc_publish env now net this message g =
     take_result g (c_proxyClientPublish env now net (proxyClientHandle this) message (Some (c_str (spcEthereumPrivateKey this))) g)"

text \<open>\<^verbatim>\<open>SharedLibraryWrapper\<close>: the static object of \<^verbatim>\<open>StreamrNode\<close>.  \<^verbatim>\<open>StreamrProxyClient\<close> declares one too, but nothing defines it, so that it does not exist.\<close>

definition SharedLibraryWrapper_new :: "library \<Rightarrow> library" where
  "SharedLibraryWrapper_new g = streamrInitLibrary g"

definition SharedLibraryWrapper_destroy :: "library \<Rightarrow> library \<times> api_effect list" where
  "SharedLibraryWrapper_destroy g = streamrCleanupLibrary g"

section \<open>StreamrNode\<close>

text \<open>The callbacks the node owns: the address of each and the function it holds.\<close>

record StreamrNode =
  nodeHandle :: "64 word"
  subscriptionCallbacks :: "(nat \<times> nat) list"

record StreamrNodeOptions =
  optEntryPoints :: "StreamrProxyAddress list"
  optWebsocketPort :: "16 word"
  optWebsocketHost :: string
  optAcceptProxyConnections :: bool

definition checkResult :: "library \<Rightarrow> nat option \<Rightarrow> unit outcome" where
  "checkResult g result =
     (case result of
        None \<Rightarrow> (Some (getProxyClientApi g), Inr ())
      | Some r \<Rightarrow>
          (case first_error g r of
             Inl e \<Rightarrow> (g, Inl (CppExn e))
           | Inr (Some v) \<Rightarrow> (streamrResultDelete g r, Inl (NodeExn (StreamrNodeError_of v)))
           | Inr None \<Rightarrow> (streamrResultDelete g r, Inr ())))"

text \<open>The shape of every method: call the C function, check the result, return the value.\<close>

definition checked :: "(library \<Rightarrow> cpp_error + (library \<times> nat \<times> 'v)) \<Rightarrow> library \<Rightarrow> 'v outcome" where
  "checked f g =
     (case f g of
        Inl e \<Rightarrow> (Some (getProxyClientApi g), Inl (CppExn e))
      | Inr (g1, r, v) \<Rightarrow> (case checkResult g1 (Some r) of (g2, Inl e) \<Rightarrow> (g2, Inl e) | (g2, Inr _) \<Rightarrow> (g2, Inr v)))"

definition node_config_of :: "StreamrNodeOptions \<Rightarrow> node_config" where
  "node_config_of options =
     \<lparr>cfgEntryPoints = map toCProxy (optEntryPoints options), cfgWebsocketPort = optWebsocketPort options,
      cfgWebsocketHost = (if optWebsocketHost options = [] then None else Some (c_str (optWebsocketHost options))),
      cfgAcceptProxyConnections = optAcceptProxyConnections options\<rparr>"

definition StreamrNode_new :: "api_env \<Rightarrow> 64 word \<Rightarrow> string \<Rightarrow> StreamrNodeOptions \<Rightarrow> library \<Rightarrow> StreamrNode outcome" where
  "StreamrNode_new env rnd ownEthereumAddress options g =
     (case checked (c_streamrNodeNew env rnd (c_str ownEthereumAddress) (Some (node_config_of options))) g of
        (g1, Inl e) \<Rightarrow> (g1, Inl e)
      | (g1, Inr h) \<Rightarrow> (g1, Inr \<lparr>nodeHandle = h, subscriptionCallbacks = []\<rparr>))"

definition StreamrNode_destroy :: "api_env \<Rightarrow> StreamrNode \<Rightarrow> library \<Rightarrow> unit outcome" where
  "StreamrNode_destroy env this g =
     (if nodeHandle this \<noteq> 0
      then (case c_streamrNodeDelete env (nodeHandle this) g of
              Inl e \<Rightarrow> (Some (getProxyClientApi g), Inl (CppExn e))
            | Inr (g1, r, _) \<Rightarrow> (streamrResultDelete g1 r, Inr ()))
      else (g, Inr ()))"

definition snw_start :: "api_env \<Rightarrow> cpp_error option \<Rightarrow> cpp_error option \<Rightarrow> StreamrNode \<Rightarrow> library \<Rightarrow> unit outcome" where
  "snw_start env o1 o2 this g = checked (c_streamrNodeStart env o1 o2 (nodeHandle this)) g"

definition snw_stop :: "api_env \<Rightarrow> cpp_error option \<Rightarrow> StreamrNode \<Rightarrow> library \<Rightarrow> unit outcome" where
  "snw_stop env o1 this g = checked (c_streamrNodeStop env o1 (nodeHandle this)) g"

definition snw_joinStreamPart ::
  "api_env \<Rightarrow> cpp_error option \<Rightarrow> StreamrNode \<Rightarrow> string \<Rightarrow> StreamrProxyAddress list \<Rightarrow> library \<Rightarrow> unit outcome" where
  "snw_joinStreamPart env o1 this streamPartId streamPartEntryPoints g =
     checked (c_streamrNodeJoinStreamPart env o1 (nodeHandle this) (c_str streamPartId) (map toCProxy streamPartEntryPoints)) g"

definition snw_leaveStreamPart :: "api_env \<Rightarrow> cpp_error option \<Rightarrow> StreamrNode \<Rightarrow> string \<Rightarrow> library \<Rightarrow> unit outcome" where
  "snw_leaveStreamPart env o1 this streamPartId g = checked (c_streamrNodeLeaveStreamPart env o1 (nodeHandle this) (c_str streamPartId)) g"

definition snw_publish ::
  "api_env \<Rightarrow> int \<Rightarrow> cpp_error option \<Rightarrow> StreamrNode \<Rightarrow> string \<Rightarrow> string \<Rightarrow> string \<Rightarrow> library \<Rightarrow> unit outcome" where
  "snw_publish env now o1 this streamPartId contentString ethereumPrivateKey g =
     checked (c_streamrNodePublish env now o1 (nodeHandle this) (c_str streamPartId) contentString
       (if ethereumPrivateKey = [] then None else Some (c_str ethereumPrivateKey))) g"

text \<open>
  \<^verbatim>\<open>subscribe\<close>: \<open>ownedAt\<close> is the address of the callback the method allocates; \<open>trampoline\<close> stands for \<^verbatim>\<open>messageTrampoline\<close>.  When the call throws, the
  owning pointer goes out of scope and the callback is gone.
\<close>

definition trampoline :: nat where
  "trampoline = 0"

definition snw_subscribe ::
  "api_env \<Rightarrow> 64 word \<Rightarrow> nat \<Rightarrow> cpp_error option \<Rightarrow> nat \<Rightarrow> StreamrNode \<Rightarrow> string \<Rightarrow> nat \<Rightarrow> library \<Rightarrow>
     StreamrNode \<times> (64 word) outcome" where
  "snw_subscribe env rnd token o1 ownedAt this streamPartId callback g =
     (case checked (c_streamrNodeSubscribe env rnd token o1 (nodeHandle this) (c_str streamPartId) (Some trampoline) ownedAt) g of
        (g1, Inl e) \<Rightarrow> (this, g1, Inl e)
      | (g1, Inr h) \<Rightarrow> (this\<lparr>subscriptionCallbacks := subscriptionCallbacks this @ [(ownedAt, callback)]\<rparr>, g1, Inr h))"

definition snw_unsubscribe :: "api_env \<Rightarrow> StreamrNode \<Rightarrow> 64 word \<Rightarrow> library \<Rightarrow> unit outcome" where
  "snw_unsubscribe env this subscriptionHandle g = checked (c_streamrNodeUnsubscribe env (nodeHandle this) subscriptionHandle) g"

definition snw_neighborCount ::
  "api_env \<Rightarrow> (string \<Rightarrow> cpp_error + nat) \<Rightarrow> StreamrNode \<Rightarrow> string \<Rightarrow> library \<Rightarrow> (64 word) outcome" where
  "snw_neighborCount env net this streamPartId g = checked (c_streamrNodeGetNeighborCount env net (nodeHandle this) (c_str streamPartId)) g"

definition snw_setProxies ::
  "api_env \<Rightarrow> cpp_error option \<Rightarrow> StreamrNode \<Rightarrow> string \<Rightarrow> StreamrProxyAddress list \<Rightarrow> int \<Rightarrow> 64 word \<Rightarrow> library \<Rightarrow> unit outcome" where
  "snw_setProxies env o1 this streamPartId proxies direction connectionCount g =
     checked (c_streamrNodeSetProxies env o1 (nodeHandle this) (c_str streamPartId) (map toCProxy proxies) direction connectionCount) g"

text \<open>\<^verbatim>\<open>messageTrampoline\<close>: the call of the owned function, or \<open>None\<close> when the address no longer holds one.\<close>

definition messageTrampoline :: "StreamrNode \<Rightarrow> callback_call \<Rightarrow> (nat \<times> string \<times> string) option" where
  "messageTrampoline this c =
     (case c of (_, _, streamPartId, contentString, userData) \<Rightarrow>
        map_option (\<lambda>f. (f, c_str streamPartId, contentString)) (map_of (subscriptionCallbacks this) userData))"

end
