(* ===== verification/Cpp_Wrappers_Correct.thy ===== *)
theory Cpp_Wrappers_Correct
  imports Cpp_Wrappers Lib_Api_Behaviour
begin

text \<open>
  Correctness of the C++ wrappers: they free every result, they report what the C API reported, and the callbacks that the library
  calls are alive.
\<close>

section \<open>What a C function hands out\<close>

definition registry :: "library \<Rightarrow> nat \<Rightarrow> ProxyResultCpp option" where
  "registry g = om_find (apiResults (getProxyClientApi g))"

text \<open>A C function either lets an exception through or adds one result, with the errors \<open>es\<close> and the peers \<open>ps\<close>.\<close>

definition hands_out :: "library \<Rightarrow> library \<Rightarrow> nat \<Rightarrow> ErrorCpp list \<Rightarrow> ProxyCpp list \<Rightarrow> bool" where
  "hands_out g g' r es ps \<longleftrightarrow> registry g r = None \<and> registry g' = (registry g)(r \<mapsto> ProxyResultCpp_new [r] es ps)"

definition well_behaved :: "(library \<Rightarrow> cpp_error + (library \<times> nat \<times> 'v)) \<Rightarrow> bool" where
  "well_behaved f \<longleftrightarrow> (\<forall>g g' r v. f g = Inr (g', r, v) \<longrightarrow> (\<exists>es ps. hands_out g g' r es ps))"

lemma getProxyClientApi_Some [simp]: "getProxyClientApi (Some a) = a"
  by (simp add: getProxyClientApi_def streamrInitLibrary_def)

lemma registry_delete [simp]: "registry (streamrResultDelete g r) = (registry g)(r := None)"
  by (auto simp: registry_def streamrResultDelete_def proxyClientResultDelete_def)

lemma registry_init [simp]: "registry (Some (getProxyClientApi g)) = registry g"
  by (simp add: registry_def)

lemma read_all_Some: "read_all rd ps = Some vs \<longleftrightarrow> map rd ps = map Some vs"
proof (induction ps arbitrary: vs)
  case (Cons p ps)
  then show ?case by (cases vs) (auto simp flip: Cons.IH split: option.splits)
qed auto

lemma hands_out_reads:
  assumes "hands_out g g' r es ps"
  shows "StreamrProxyResult_new g' r =
      Some \<lparr>spr_successful = map (fromCProxy \<circ> proxy_value) ps, spr_errors = map (StreamrProxyError_of \<circ> error_value_of) es\<rparr>"
    "first_error g' r = Inr (case es of [] \<Rightarrow> None | e # _ \<Rightarrow> Some (error_value_of e))"
proof -
  let ?R = "ProxyResultCpp_new [r] es ps"
  have R: "lib_result g' r = Some ?R" using assms by (simp add: hands_out_def lib_result_def registry_def)
  note parts = result_parts [where self = "[r]" and errorsCpp = es and successfulCpp = ps]
  have len: "length (r_errors (proxyResult ?R)) = length es" "length (r_successful (proxyResult ?R)) = length ps"
    using parts(1,2) by (metis length_map)+
  have rs: "read_all (view_peer [r] ?R) (r_successful (proxyResult ?R)) = Some (map proxy_value ps)"
    "read_all (view_error [r] ?R) (r_errors (proxyResult ?R)) = Some (map error_value_of es)"
    using parts(1,2) by (simp_all add: read_all_Some)
  show "StreamrProxyResult_new g' r =
      Some \<lparr>spr_successful = map (fromCProxy \<circ> proxy_value) ps, spr_errors = map (StreamrProxyError_of \<circ> error_value_of) es\<rparr>"
    using rs len parts(3,4) by (simp add: StreamrProxyResult_new_def R)
  show "first_error g' r = Inr (case es of [] \<Rightarrow> None | e # _ \<Rightarrow> Some (error_value_of e))"
  proof (cases es)
    case Nil
    then show ?thesis using parts(3) R by (simp add: first_error_def)
  next
    case (Cons e es')
    obtain x xs where x: "r_errors (proxyResult ?R) = x # xs" using len(1) Cons by (cases "r_errors (proxyResult ?R)") auto
    have "view_error [r] ?R x = Some (error_value_of e)" using parts(1) x Cons by simp
    then show ?thesis using parts(3) R x Cons by (simp add: first_error_def)
  qed
qed

section \<open>The methods\<close>

lemma checked_outcome:
  assumes "f g = Inr (g', r, v)" "hands_out g g' r es ps"
  shows "checked f g = (streamrResultDelete g' r,
    case es of [] \<Rightarrow> Inr v | e # _ \<Rightarrow> Inl (NodeExn (StreamrNodeError_of (error_value_of e))))"
  using assms hands_out_reads(2) [OF assms(2)] by (simp add: checked_def checkResult_def split: list.splits)

lemma checked_registry:
  assumes "well_behaved f"
  shows "registry (fst (checked f g)) = registry g"
proof (cases "f g")
  case (Inl e)
  then show ?thesis by (simp add: checked_def)
next
  case (Inr y)
  obtain g' r v where y: "f g = Inr (g', r, v)" using Inr by (cases y) auto
  then obtain es ps where h: "hands_out g g' r es ps" using assms unfolding well_behaved_def by blast
  then show ?thesis by (auto simp: checked_outcome [where f = f, OF y h] hands_out_def)
qed

lemma take_result_registry:
  assumes "well_behaved f"
  shows "registry (fst (take_result g (f g))) = registry g"
proof (cases "f g")
  case (Inl e)
  then show ?thesis by (simp add: take_result_def)
next
  case (Inr y)
  obtain g' r v where y: "f g = Inr (g', r, v)" using Inr by (cases y) auto
  then obtain es ps where h: "hands_out g g' r es ps" using assms unfolding well_behaved_def by blast
  then show ?thesis using hands_out_reads(1) [OF h] by (auto simp: y take_result_def hands_out_def)
qed

context fresh_results
begin

lemma c_call_behaves: "(\<And>a. ends_with env a (F a)) \<Longrightarrow> well_behaved (c_call F)"
  unfolding well_behaved_def
proof (intro allI impI)
  fix g g' r v
  assume F: "\<And>a. ends_with env a (F a)" and "c_call F g = Inr (g', r, v)"
  then obtain a' where a': "F (getProxyClientApi g) = Inr (a', r, v)" "g' = Some a'"
    by (auto simp: c_call_def split: sum.splits)
  then obtain b es ps where "apiResults b = apiResults (getProxyClientApi g)" "addResult env b es ps = (a', r)"
    using F [of "getProxyClientApi g"] unfolding ends_with_def by blast
  then show "\<exists>es ps. hands_out g g' r es ps"
    using addResult_fresh [of b es ps a' r] a'(2) by (auto simp: hands_out_def registry_def)
qed

lemma c_calls_behave:
  "well_behaved (c_proxyClientNew env rnd own part)" "well_behaved (c_proxyClientDelete env h)"
  "well_behaved (c_proxyClientConnect env net h ps)" "well_behaved (c_proxyClientPublish env now net2 h d k)"
  "well_behaved (c_streamrNodeNew env rnd own cfg)" "well_behaved (c_streamrNodeDelete env h)"
  "well_behaved (c_streamrNodeStart env o1 o2 h)" "well_behaved (c_streamrNodeStop env o1 h)"
  "well_behaved (c_streamrNodeJoinStreamPart env o1 h part eps)" "well_behaved (c_streamrNodeLeaveStreamPart env o1 h part)"
  "well_behaved (c_streamrNodePublish env now o1 h part d k)" "well_behaved (c_streamrNodeSubscribe env rnd tok o1 h part cb ud)"
  "well_behaved (c_streamrNodeUnsubscribe env h sub)" "well_behaved (c_streamrNodeGetNeighborCount env net3 h part)"
  "well_behaved (c_streamrNodeSetProxies env o1 h part ps dir n)"
  unfolding c_proxyClientNew_def [abs_def] c_proxyClientDelete_def [abs_def] c_proxyClientConnect_def [abs_def] c_proxyClientPublish_def [abs_def]
    c_streamrNodeNew_def [abs_def] c_streamrNodeDelete_def [abs_def] c_streamrNodeStart_def [abs_def] c_streamrNodeStop_def [abs_def]
    c_streamrNodeJoinStreamPart_def [abs_def] c_streamrNodeLeaveStreamPart_def [abs_def] c_streamrNodePublish_def [abs_def]
    c_streamrNodeSubscribe_def [abs_def] c_streamrNodeUnsubscribe_def [abs_def] c_streamrNodeGetNeighborCount_def [abs_def]
    c_streamrNodeSetProxies_def [abs_def]
  by (rule c_call_behaves, rule ends_client_calls ends_node_calls)+

lemma new_registry: "registry (fst (StreamrProxyClient_new env rnd own key part g)) = registry g"
proof (cases "c_proxyClientNew env rnd (c_str own) (c_str part) g")
  case (Inl e)
  then show ?thesis by (simp add: StreamrProxyClient_new_def)
next
  case (Inr y)
  obtain g' r v where y: "c_proxyClientNew env rnd (c_str own) (c_str part) g = Inr (g', r, v)" using Inr by (cases y) auto
  then obtain es ps where h: "hands_out g g' r es ps" using c_calls_behave(1) unfolding well_behaved_def by blast
  then show ?thesis using hands_out_reads(2) [OF h]
    by (auto simp: StreamrProxyClient_new_def y hands_out_def split: list.splits)
qed

lemma destroy_registry:
  assumes "well_behaved f"
  shows "registry (fst (case f g of Inl e \<Rightarrow> (Some (getProxyClientApi g), Inl (CppExn e)) | Inr (g1, r, _) \<Rightarrow> (streamrResultDelete g1 r, Inr ()))) = registry g"
proof (cases "f g")
  case (Inr y)
  obtain g' r v where y: "f g = Inr (g', r, v)" using Inr by (cases y) auto
  then obtain es ps where "hands_out g g' r es ps" using assms unfolding well_behaved_def by blast
  then show ?thesis using y by (auto simp: hands_out_def)
qed simp

lemma wrapper_registry:
  "registry (fst (StreamrProxyClient_destroy env c g)) = registry g" "registry (fst (spc_connect env net c proxies g)) = registry g"
  "registry (fst (spc_publish env now net2 c message g)) = registry g" "registry (fst (StreamrNode_new env rnd own options g)) = registry g"
  "registry (fst (StreamrNode_destroy env n g)) = registry g" "registry (fst (snw_start env o1 o2 n g)) = registry g"
  "registry (fst (snw_stop env o1 n g)) = registry g" "registry (fst (snw_joinStreamPart env o1 n part eps g)) = registry g"
  "registry (fst (snw_leaveStreamPart env o1 n part g)) = registry g" "registry (fst (snw_publish env now o1 n part message key g)) = registry g"
  "registry (fst (snd (snw_subscribe env rnd token o1 ownedAt n part callback g))) = registry g"
  "registry (fst (snw_unsubscribe env n sub g)) = registry g" "registry (fst (snw_neighborCount env net3 n part g)) = registry g"
  "registry (fst (snw_setProxies env o1 n part proxies dir cnt g)) = registry g"
proof -
  show "registry (fst (StreamrProxyClient_destroy env c g)) = registry g"
    using destroy_registry [OF c_calls_behave(2) [of "proxyClientHandle c"], of g] by (simp add: StreamrProxyClient_destroy_def split: sum.splits)
  show "registry (fst (StreamrNode_destroy env n g)) = registry g"
    using destroy_registry [OF c_calls_behave(6) [of "nodeHandle n"], of g] by (simp add: StreamrNode_destroy_def split: sum.splits)
  show "registry (fst (StreamrNode_new env rnd own options g)) = registry g"
    using checked_registry [OF c_calls_behave(5) [of rnd "c_str own" "Some (node_config_of options)"], of g]
    by (auto simp: StreamrNode_new_def split: prod.splits sum.splits)
  show "registry (fst (snd (snw_subscribe env rnd token o1 ownedAt n part callback g))) = registry g"
    using checked_registry [OF c_calls_behave(12) [of rnd token o1 "nodeHandle n" "c_str part" "Some trampoline" ownedAt], of g]
    by (auto simp: snw_subscribe_def split: prod.splits sum.splits)
qed (simp_all add: spc_connect_def spc_publish_def take_result_registry c_calls_behave snw_start_def snw_stop_def snw_joinStreamPart_def
    snw_leaveStreamPart_def snw_publish_def snw_unsubscribe_def snw_neighborCount_def snw_setProxies_def checked_registry)

end


section \<open>Properties\<close>

text \<open>
  C17. No method of the C++ wrappers, constructors and destructors included, leaks or loses a result of the C API: whether it returns or throws, it
  leaves the registry of results as it found it.
\<close>

theorem wrappers_free_results:
  assumes "alloc_contract env"
  shows "registry (fst (StreamrProxyClient_new env rnd own key part g)) = registry g \<and>
    registry (fst (StreamrProxyClient_destroy env c g)) = registry g \<and> registry (fst (spc_connect env net c proxies g)) = registry g \<and>
    registry (fst (spc_publish env now net2 c message g)) = registry g \<and> registry (fst (StreamrNode_new env rnd own options g)) = registry g \<and>
    registry (fst (StreamrNode_destroy env n g)) = registry g \<and> registry (fst (snw_start env o1 o2 n g)) = registry g \<and>
    registry (fst (snw_stop env o1 n g)) = registry g \<and> registry (fst (snw_joinStreamPart env o1 n part eps g)) = registry g \<and>
    registry (fst (snw_leaveStreamPart env o1 n part g)) = registry g \<and> registry (fst (snw_publish env now o1 n part message key g)) = registry g \<and>
    registry (fst (snd (snw_subscribe env rnd token o1 ownedAt n part callback g))) = registry g \<and>
    registry (fst (snw_unsubscribe env n sub g)) = registry g \<and> registry (fst (snw_neighborCount env net3 n part g)) = registry g \<and>
    registry (fst (snw_setProxies env o1 n part proxies dir cnt g)) = registry g"
proof -
  have f: "fresh_results env" using assms by unfold_locales
  show ?thesis by (simp add: fresh_results.wrapper_registry [OF f] fresh_results.new_registry [OF f])
qed

theorem wrappers_free_results_witness:
  "registry (fst (snw_stop ref_env None \<lparr>nodeHandle = 5, subscriptionCallbacks = []\<rparr> None)) = registry None"
  by (rule wrappers_free_results [OF ref_alloc, THEN conjunct2, THEN conjunct2, THEN conjunct2, THEN conjunct2, THEN conjunct2,
        THEN conjunct2, THEN conjunct2, THEN conjunct1])

text \<open>
  What the network answered to \<^verbatim>\<open>connect\<close> reaches the user of the C++ wrapper unchanged and in order: one address per connected proxy, one error per
  failed proxy with its message, its proxy and the code for a failed connection.
\<close>

theorem connect_reports_network:
  assumes "alloc_contract env" "om_find (apiClients a) (proxyClientHandle this) = Some client" "proxies \<noteq> []"
    "parse_peers env ERROR_INVALID_PROXY_URL (map toCProxy proxies) = Inr pds" "net pds = Inr (errs, oks)"
  shows "snd (spc_connect env net this proxies (Some a)) =
    Inr \<lparr>spr_successful = map (\<lambda>pd. fromCProxy (proxy_value (reported_proxy env pd))) oks,
         spr_errors = map (\<lambda>(pd, m). \<lparr>spe_message = c_str (case m of Some t \<Rightarrow> t | None \<Rightarrow> ''No original exception''),
           spe_proxy = fromCProxy (proxy_value (reported_proxy env pd)), spe_code = ErrorProxyConnectionFailed\<rparr>) errs\<rparr>"
proof -
  let ?es = "map (connection_error env) errs" and ?ps = "map (reported_proxy env) oks"
  obtain a' r where ar: "addResult env a ?es ?ps = (a', r)" by (cases "addResult env a ?es ?ps")
  have conn: "c_proxyClientConnect env net (proxyClientHandle this) (map toCProxy proxies) (Some a) = Inr (Some a', r, of_nat (length oks))"
    using assms(2-5) ar by (simp add: c_proxyClientConnect_def c_call_def proxyClientConnect_def)
  have f: "fresh_results env" using assms(1) by unfold_locales
  have h: "hands_out (Some a) (Some a') r ?es ?ps" using fresh_results.addResult_fresh [OF f ar] by (auto simp: hands_out_def registry_def)
  have codes: "c_str ERROR_PROXY_CONNECTION_FAILED = ERROR_PROXY_CONNECTION_FAILED" by (rule c_str_id) (simp add: error_codes)
  have conv: "StreamrProxyError_of (error_value_of (connection_error env x)) =
      \<lparr>spe_message = c_str (case snd x of Some t \<Rightarrow> t | None \<Rightarrow> ''No original exception''),
       spe_proxy = fromCProxy (proxy_value (reported_proxy env (fst x))), spe_code = ErrorProxyConnectionFailed\<rparr>" for x
    by (simp add: StreamrProxyError_of_def error_value_of_def connection_error_def ErrorCpp_new_def ProxyCpp_copy_def proxy_value_def Let_def codes)
      (simp add: proxy_getErrorCode_def error_codes)
  show ?thesis using hands_out_reads(1) [OF h]
    by (simp add: spc_connect_def take_result_def conn conv comp_def case_prod_beta)
qed

definition demo_client :: StreamrProxyClient where
  "demo_client = \<lparr>proxyClientHandle = 5, spcEthereumPrivateKey = ''01''\<rparr>"

definition demo_pd :: PeerDescriptor where
  "demo_pd = \<lparr>nodeid = [], region = 1, ipaddress = 0, websocket = None\<rparr>"

definition client_api :: api where
  "client_api = \<lparr>apiClients = [(5, \<lparr>pcLocalPeer = demo_pd, pcStreamPartId = ''abc#1'', pcSequenceNumber = 1\<rparr>)], apiResults = [], apiNodes = [], apiLog = []\<rparr>"

theorem connect_reports_network_witness:
  "\<exists>pds res. parse_peers ref_env ERROR_INVALID_PROXY_URL [(demo_address, ''ws://h'')] = Inr pds \<and>
     snd (spc_connect ref_env (\<lambda>_. Inr ([(demo_pd, None)], [demo_pd])) demo_client
       [\<lparr>spa_websocketUrl = ''ws://h'', spa_ethereumAddress = demo_address\<rparr>] (Some client_api)) = Inr res \<and>
     map spe_message (spr_errors res) = [''No original exception''] \<and> length (spr_successful res) = 1"
proof -
  have "case parse_peers ref_env ERROR_INVALID_PROXY_URL [(demo_address, ''ws://h'')] of Inl e \<Rightarrow> False | Inr x \<Rightarrow> True" by code_simp
  then obtain pds where pds: "parse_peers ref_env ERROR_INVALID_PROXY_URL [(demo_address, ''ws://h'')] = Inr pds" by (auto split: sum.splits)
  have conv: "map toCProxy [\<lparr>spa_websocketUrl = ''ws://h'', spa_ethereumAddress = demo_address\<rparr>] = [(demo_address, ''ws://h'')]"
    by (simp add: toCProxy_def c_str_def demo_address_def)
  have cl: "om_find (apiClients client_api) (proxyClientHandle demo_client) =
      Some \<lparr>pcLocalPeer = demo_pd, pcStreamPartId = ''abc#1'', pcSequenceNumber = 1\<rparr>"
    by (simp add: client_api_def demo_client_def om_find_def)
  from connect_reports_network [OF ref_alloc cl _ pds [folded conv], of "\<lambda>_. Inr ([(demo_pd, None)], [demo_pd])"] pds
  show ?thesis by (simp add: c_str_def)
qed

text \<open>
  Both wrappers recover the code of an error from its name, for every code their error type has; the error type of the node has no code for an invalid
  proxy URL, which it reports as a failed operation, and the one of the proxy client reports every unknown code as an invalid proxy URL.
\<close>

theorem error_codes_roundtrip:
  "proxy_getErrorCode (proxy_code_name pc) = pc \<and> node_getErrorCode (node_code_name nc) = nc \<and>
   (code \<notin> range proxy_code_name \<longrightarrow> proxy_getErrorCode code = ErrorInvalidProxyUrl) \<and>
   (code \<notin> range node_code_name \<longrightarrow> node_getErrorCode code = ErrorNodeOperationFailed) \<and>
   ERROR_INVALID_PROXY_URL \<notin> range node_code_name"
proof -
  have "proxy_getErrorCode (proxy_code_name pc) = pc" by (cases pc) (simp_all add: proxy_getErrorCode_def error_codes)
  moreover have "node_getErrorCode (node_code_name nc) = nc" by (cases nc) (simp_all add: node_getErrorCode_def error_codes)
  moreover have "proxy_getErrorCode code = ErrorInvalidProxyUrl" if "code \<notin> range proxy_code_name"
    using that [unfolded image_def, simplified] by (auto simp: proxy_getErrorCode_def) (metis proxy_code_name.simps)+
  moreover have "node_getErrorCode code = ErrorNodeOperationFailed" if "code \<notin> range node_code_name"
    using that [unfolded image_def, simplified] by (auto simp: node_getErrorCode_def) (metis node_code_name.simps)+
  moreover have "ERROR_INVALID_PROXY_URL \<noteq> node_code_name c" for c by (cases c) (simp_all add: error_codes)
  ultimately show ?thesis by blast
qed

theorem error_codes_roundtrip_witness:
  "node_getErrorCode ERROR_INVALID_PROXY_URL = ErrorNodeOperationFailed"
  using error_codes_roundtrip by blast

text \<open>
  A \<^verbatim>\<open>StreamrProxyClient\<close> can be copied, and every copy deletes the client of the C API: once a copy has gone out of scope, publishing with the original
  sends nothing and reports that there is no such client.
\<close>

theorem copy_deletes_original:
  assumes "alloc_contract env" "proxyClientHandle original \<noteq> 0" "copy = original"
    "StreamrProxyClient_destroy env copy g = (g', y)"
  shows "snd (spc_publish env now net original message g') =
    Inr \<lparr>spr_successful = [], spr_errors = [\<lparr>spe_message = ''Proxy client  not found'', spe_proxy = no_address, spe_code = ErrorProxyClientNotFound\<rparr>]\<rparr>"
proof -
  let ?h = "proxyClientHandle original"
  have "om_find (apiClients (getProxyClientApi g')) ?h = None"
    using assms(2-4)
    by (auto simp: StreamrProxyClient_destroy_def c_proxyClientDelete_def c_call_def proxyClientDelete_def succeed_with_def addResult_def
        streamrResultDelete_def proxyClientResultDelete_def Let_def split: prod.splits)
  moreover obtain b where b: "g' = Some b"
    using assms(2-4) by (auto simp: StreamrProxyClient_destroy_def c_proxyClientDelete_def c_call_def streamrResultDelete_def split: sum.splits prod.splits)
  ultimately have none: "om_find (apiClients b) ?h = None" by simp
  let ?e = "mk_error ''Proxy client  not found'' ERROR_PROXY_CLIENT_NOT_FOUND None"
  obtain a' r where ar: "addResult env b [?e] [] = (a', r)" by (cases "addResult env b [?e] []")
  have f: "fresh_results env" using assms(1) by unfold_locales
  have h: "hands_out (Some b) (Some a') r [?e] []" using fresh_results.addResult_fresh [OF f ar] by (auto simp: hands_out_def registry_def)
  have pub: "c_proxyClientPublish env now net ?h message (Some k) (Some b) = Inr (Some a', r, 0)" for k
    using none ar by (simp add: c_proxyClientPublish_def c_call_def proxyClientPublish_def fail_with_def)
  have e: "StreamrProxyError_of (error_value_of ?e) =
      \<lparr>spe_message = ''Proxy client  not found'', spe_proxy = no_address, spe_code = ErrorProxyClientNotFound\<rparr>"
    by (simp add: StreamrProxyError_of_def error_value_of_def ErrorCpp_new_def Let_def c_str_def error_codes proxy_getErrorCode_def)
  show ?thesis using hands_out_reads(1) [OF h] by (simp add: spc_publish_def take_result_def b pub e)
qed


theorem copy_deletes_original_witness:
  "snd (spc_publish ref_env 0 (\<lambda>_. Inr ([], [])) demo_client ''hi'' (fst (StreamrProxyClient_destroy ref_env demo_client (Some client_api)))) =
    Inr \<lparr>spr_successful = [], spr_errors = [\<lparr>spe_message = ''Proxy client  not found'', spe_proxy = no_address, spe_code = ErrorProxyClientNotFound\<rparr>]\<rparr>"
proof -
  have "proxyClientHandle demo_client \<noteq> 0" by (simp add: demo_client_def)
  from copy_deletes_original [OF ref_alloc this refl prod.collapse [symmetric]] show ?thesis .
qed

section \<open>Callbacks\<close>

definition node_listeners :: "library \<Rightarrow> 64 word \<Rightarrow> listener list" where
  "node_listeners g h = (case om_find (apiNodes (getProxyClientApi g)) h of None \<Rightarrow> [] | Some n \<Rightarrow> snListeners n)"

definition subscribed :: "api_env \<Rightarrow> api \<Rightarrow> 64 word \<Rightarrow> nat \<Rightarrow> nat \<Rightarrow> cpp_error + (api \<times> nat \<times> 'v) \<Rightarrow> bool" where
  "subscribed env a h f ud x \<longleftrightarrow>
     (\<forall>a' r v. x = Inr (a', r, v) \<longrightarrow>
        (\<exists>b es. apiResults b = apiResults a \<and> addResult env b es [] = (a', r) \<and>
           (es \<noteq> [] \<and> apiNodes a' = apiNodes a \<or>
            es = [] \<and> (\<exists>n0 n l. om_find (apiNodes a) h = Some n0 \<and> apiNodes a' = om_put h n (apiNodes a) \<and>
               snListeners n = snListeners n0 @ [l] \<and> lsCallback l = f \<and> lsUserData l = ud))))"

lemma subscribedD:
  assumes "subscribed env a h f ud x" "x = Inr (a', r, v)"
  shows "\<exists>b es. apiResults b = apiResults a \<and> addResult env b es [] = (a', r) \<and>
    (es \<noteq> [] \<and> apiNodes a' = apiNodes a \<or> es = [] \<and> (\<exists>n0 n l. om_find (apiNodes a) h = Some n0 \<and> apiNodes a' = om_put h n (apiNodes a) \<and>
      snListeners n = snListeners n0 @ [l] \<and> lsCallback l = f \<and> lsUserData l = ud))"
  using assms unfolding subscribed_def by (elim allE impE) assumption+

lemma nodes_add: "addResult env b es ps = (a', r) \<Longrightarrow> apiNodes a' = apiNodes b"
  by (auto simp: addResult_def Let_def)

lemma subscribed_fail: "apiResults b = apiResults a \<Longrightarrow> apiNodes b = apiNodes a \<Longrightarrow> subscribed env a h f ud (fail_with env b m c p v)"
  unfolding subscribed_def
proof (intro allI impI)
  fix a' r v'
  assume b: "apiResults b = apiResults a" "apiNodes b = apiNodes a" "fail_with env b m c p v = Inr (a', r, v')"
  then have add: "addResult env b [mk_error m c p] [] = (a', r)" by (simp add: fail_with_def split: prod.splits)
  then have "apiNodes a' = apiNodes a" using nodes_add b(2) by metis
  then show "\<exists>b es. apiResults b = apiResults a \<and> addResult env b es [] = (a', r) \<and>
    (es \<noteq> [] \<and> apiNodes a' = apiNodes a \<or> es = [] \<and> (\<exists>n0 n l. om_find (apiNodes a) h = Some n0 \<and> apiNodes a' = om_put h n (apiNodes a) \<and>
      snListeners n = snListeners n0 @ [l] \<and> lsCallback l = f \<and> lsUserData l = ud))"
    using b(1) add by blast
qed

lemma subscribed_succeed:
  assumes "om_find (apiNodes a) h = Some n0" "apiResults b = apiResults a" "apiNodes b = om_put h n (apiNodes a)"
    "snListeners n = snListeners n0 @ [l]" "lsCallback l = f" "lsUserData l = ud"
  shows "subscribed env a h f ud (succeed_with env b v)"
  unfolding subscribed_def
proof (intro allI impI)
  fix a' r v'
  assume "succeed_with env b v = Inr (a', r, v')"
  then have "addResult env b [] [] = (a', r)" by (simp add: succeed_with_def split: prod.splits)
  moreover from nodes_add [OF this] have "apiNodes a' = om_put h n (apiNodes a)" using assms(3) by simp
  ultimately show "\<exists>b es. apiResults b = apiResults a \<and> addResult env b es [] = (a', r) \<and>
    (es \<noteq> [] \<and> apiNodes a' = apiNodes a \<or> es = [] \<and> (\<exists>n0 n l. om_find (apiNodes a) h = Some n0 \<and> apiNodes a' = om_put h n (apiNodes a) \<and>
      snListeners n = snListeners n0 @ [l] \<and> lsCallback l = f \<and> lsUserData l = ud))"
    using assms by blast
qed

lemma subscribe_subscribed: "subscribed env a h f ud (streamrNodeSubscribe env rnd tok o1 a h s (Some f) ud)"
proof -
  have log: "apiNodes (log_effect e b) = apiNodes b" "apiResults (log_effect e b) = apiResults b" for e b by (simp_all add: log_effect_def)
  have esc: "subscribed env a h f ud (Inl e)" for e by (simp add: subscribed_def)
  have part: "subscribed env a h f ud (parseStreamPartIdChecked env a s v k)" if "\<And>p. subscribed env a h f ud (k p)" for v :: "64 word" and k
    using that by (simp add: parseStreamPartIdChecked_def esc subscribed_fail split: sum.splits)
  show ?thesis unfolding streamrNodeSubscribe_def with_running_node_def with_node_def node_not_found_def
    by (auto simp: subscribed_fail log Let_def put_node_def addSubscription_def split: option.splits sum.splits prod.splits
        intro!: part subscribed_fail subscribed_succeed)
qed

text \<open>
  The library never holds a listener whose callback is gone: \<^verbatim>\<open>subscribe\<close> either returns, and the listener it has added calls the function that the node now
  owns, or it throws, and no listener was added for the function that goes out of scope.
\<close>

theorem subscription_callbacks_alive:
  assumes "alloc_contract env" "list_all (\<lambda>l. lsUserData l \<in> fst ` set (subscriptionCallbacks this)) (node_listeners g (nodeHandle this))"
    "ownedAt \<notin> fst ` set (subscriptionCallbacks this)"
    "snw_subscribe env rnd token o1 ownedAt this streamPartId callback g = (this', g', outcome)"
  shows "list_all (\<lambda>l. lsUserData l \<in> fst ` set (subscriptionCallbacks this')) (node_listeners g' (nodeHandle this)) \<and>
    (case outcome of
       Inl e \<Rightarrow> this' = this \<and> node_listeners g' (nodeHandle this) = node_listeners g (nodeHandle this)
     | Inr _ \<Rightarrow> (\<exists>l. node_listeners g' (nodeHandle this) = node_listeners g (nodeHandle this) @ [l] \<and>
         messageTrampoline this' (lsCallback l, nodeHandle this, lsStreamPartId l, d, lsUserData l) = Some (callback, c_str (lsStreamPartId l), d)))"
proof -
  let ?f = "c_streamrNodeSubscribe env rnd token o1 (nodeHandle this) (c_str streamPartId) (Some trampoline) ownedAt"
  let ?a = "getProxyClientApi g"
  have del: "apiNodes (getProxyClientApi (streamrResultDelete (Some a') r)) = apiNodes a'" for a' r
    by (simp add: streamrResultDelete_def proxyClientResultDelete_def)
  have old: "map_of (subscriptionCallbacks this) ownedAt = None" using assms(3) by (simp add: map_of_eq_None_iff)
  show ?thesis
  proof (cases "?f g")
    case (Inl e)
    then have "this' = this" "g' = Some ?a" "outcome = Inl (CppExn e)" using assms(4) by (auto simp: snw_subscribe_def checked_def)
    then show ?thesis using assms(2) by (simp add: node_listeners_def)
  next
    case (Inr y)
    then obtain a' r v where y: "?f g = Inr (Some a', r, v)"
      and x: "streamrNodeSubscribe env rnd token o1 ?a (nodeHandle this) (c_str streamPartId) (Some trampoline) ownedAt = Inr (a', r, v)"
      by (auto simp: c_streamrNodeSubscribe_def c_call_def split: sum.splits)
    obtain b es where b: "apiResults b = apiResults ?a" "addResult env b es [] = (a', r)"
      and cases: "es \<noteq> [] \<and> apiNodes a' = apiNodes ?a \<or> es = [] \<and> (\<exists>n0 n l. om_find (apiNodes ?a) (nodeHandle this) = Some n0 \<and>
        apiNodes a' = om_put (nodeHandle this) n (apiNodes ?a) \<and> snListeners n = snListeners n0 @ [l] \<and> lsCallback l = trampoline \<and> lsUserData l = ownedAt)"
      using subscribedD [OF subscribe_subscribed x] by (elim exE conjE)
    have f: "fresh_results env" using assms(1) by unfold_locales
    have h: "hands_out g (Some a') r es []"
      using fresh_results.addResult_fresh [OF f b(2)] b(1) by (auto simp: hands_out_def registry_def)
    note out = checked_outcome [where f = "?f", OF y h]
    from cases show ?thesis
    proof
      assume "es \<noteq> [] \<and> apiNodes a' = apiNodes ?a"
      then show ?thesis using assms(2,4) out
        by (cases es) (auto simp: snw_subscribe_def del node_listeners_def)
    next
      assume es: "es = [] \<and> (\<exists>n0 n l. om_find (apiNodes ?a) (nodeHandle this) = Some n0 \<and>
        apiNodes a' = om_put (nodeHandle this) n (apiNodes ?a) \<and> snListeners n = snListeners n0 @ [l] \<and> lsCallback l = trampoline \<and> lsUserData l = ownedAt)"
      then have "this' = this\<lparr>subscriptionCallbacks := subscriptionCallbacks this @ [(ownedAt, callback)]\<rparr>" "g' = streamrResultDelete (Some a') r"
          "outcome = Inr v" using assms(4) out by (auto simp: snw_subscribe_def)
      then show ?thesis using assms(2) es old
        by (auto simp: del node_listeners_def messageTrampoline_def list_all_iff map_add_def)
    qed
  qed
qed


definition demo_node_wrapper :: StreamrNode where
  "demo_node_wrapper = \<lparr>nodeHandle = 5, subscriptionCallbacks = []\<rparr>"

theorem subscription_callbacks_alive_witness:
  "\<exists>this' g' outcome. snw_subscribe ref_env 1 2 None 9 demo_node_wrapper ''x#0'' 3 (Some demo_api) = (this', g', outcome) \<and>
     list_all (\<lambda>l. lsUserData l \<in> fst ` set (subscriptionCallbacks this')) (node_listeners g' 5)"
proof -
  have l: "list_all (\<lambda>l. lsUserData l \<in> fst ` set (subscriptionCallbacks demo_node_wrapper)) (node_listeners (Some demo_api) (nodeHandle demo_node_wrapper))"
    "9 \<notin> fst ` set (subscriptionCallbacks demo_node_wrapper)"
    by (simp_all add: node_listeners_def demo_api_def demo_node_def demo_node_wrapper_def om_find_def)
  obtain this' g' outcome where x: "snw_subscribe ref_env 1 2 None 9 demo_node_wrapper ''x#0'' 3 (Some demo_api) = (this', g', outcome)"
    by (cases "snw_subscribe ref_env 1 2 None 9 demo_node_wrapper ''x#0'' 3 (Some demo_api)") auto
  from subscription_callbacks_alive [OF ref_alloc l x] x show ?thesis by (auto simp: demo_node_wrapper_def)
qed

end
