(* ===== verification/Jni.thy ===== *)
theory Jni
  imports Cpp_Wrappers_Correct
begin

text \<open>
  The JNI layer of the Android library, \<^verbatim>\<open>ProxyClient.cpp\<close> of the Android library module.  Java strings are their modified UTF-8 bytes, which hold no NUL.  The Java virtual
  machine is a parameter as far as the code checks it: \<open>findClass\<close> says which classes \<^verbatim>\<open>FindClass\<close> finds.  A call ends with a value or with an exception
  of C++ or an undefined operation, in which case the process is lost.
\<close>

section \<open>Java objects\<close>

record j_error =
  je_class :: string
  je_message :: string

record j_address =
  ja_websocketUrl :: string
  ja_ethereumAddress :: string

record j_result =
  jr_numConnected :: "64 word"
  jr_successful :: "j_address option list"
  jr_failed :: "(j_error option \<times> j_address option) list"

definition j_package :: string where
  "j_package = ''network/streamr/proxyclient/''"

definition errorClassName :: "string \<Rightarrow> string" where
  "errorClassName code =
     j_package @
     (if code = ERROR_INVALID_ETHEREUM_ADDRESS then ''StreamrError$InvalidEthereumAddress''
      else if code = ERROR_INVALID_STREAM_PART_ID then ''StreamrError$InvalidStreamPartId''
      else if code = ERROR_INVALID_PROXY_URL then ''StreamrError$InvalidProxyUrl''
      else if code = ERROR_PROXY_CONNECTION_FAILED then ''StreamrError$ProxyConnectionFailed''
      else if code = ERROR_PROXY_BROADCAST_FAILED then ''StreamrError$ProxyBroadcastFailed''
      else ''StreamrError$UnknownError'')"

definition createStreamrError :: "(string \<Rightarrow> bool) \<Rightarrow> error_value \<Rightarrow> j_error option" where
  "createStreamrError findClass error =
     (let name = errorClassName (c_str (ev_code error))
      in if findClass name then Some \<lparr>je_class = name, je_message = c_str (ev_message error)\<rparr> else None)"

text \<open>The exception that is pending after the call, if any.\<close>

definition throwProxyClientException :: "(string \<Rightarrow> bool) \<Rightarrow> j_error \<Rightarrow> j_error option" where
  "throwProxyClientException findClass e = (if findClass (j_package @ ''ProxyClientException'') then Some e else None)"

definition handleProxyResultErrors :: "(string \<Rightarrow> bool) \<Rightarrow> library \<Rightarrow> nat \<Rightarrow> cpp_error + j_error option" where
  "handleProxyResultErrors findClass g r =
     (case first_error g r of
        Inl e \<Rightarrow> Inl e
      | Inr None \<Rightarrow> Inr None
      | Inr (Some error) \<Rightarrow>
          (case createStreamrError findClass error of None \<Rightarrow> Inr None | Some e \<Rightarrow> Inr (throwProxyClientException findClass e)))"

definition createProxyAddress :: "(string \<Rightarrow> bool) \<Rightarrow> peer_value \<Rightarrow> j_address option" where
  "createProxyAddress findClass proxy =
     (if findClass (j_package @ ''StreamrProxyAddress'')
      then Some \<lparr>ja_websocketUrl = c_str (snd proxy), ja_ethereumAddress = c_str (fst proxy)\<rparr> else None)"

text \<open>The loop over the errors; the peer of an error is dereferenced without a check.\<close>

fun failed_list :: "(string \<Rightarrow> bool) \<Rightarrow> error_value list \<Rightarrow> cpp_error + (j_error option \<times> j_address option) list" where
  "failed_list findClass [] = Inr []"
| "failed_list findClass (error # errors) =
     (case ev_peer error of
        None \<Rightarrow> Inl UndefinedBehaviour
      | Some proxy \<Rightarrow>
          (case failed_list findClass errors of
             Inl e \<Rightarrow> Inl e
           | Inr fs \<Rightarrow> Inr ((createStreamrError findClass error, createProxyAddress findClass proxy) # fs)))"

definition createProxyResult ::
  "(string \<Rightarrow> bool) \<Rightarrow> 64 word \<Rightarrow> peer_value list \<Rightarrow> error_value list \<Rightarrow> cpp_error + j_result" where
  "createProxyResult findClass numConnected successful errors =
     (case failed_list findClass errors of
        Inl e \<Rightarrow> Inl e
      | Inr fs \<Rightarrow> Inr \<lparr>jr_numConnected = numConnected, jr_successful = map (createProxyAddress findClass) successful, jr_failed = fs\<rparr>)"

text \<open>The two vectors that are copied from the arrays of the result.\<close>

definition result_values :: "library \<Rightarrow> nat \<Rightarrow> (peer_value list \<times> error_value list) option" where
  "result_values g r =
     (case lib_result g r of
        None \<Rightarrow> None
      | Some R \<Rightarrow>
          (case read_all (view_peer [r] R) (take (r_numSuccessful (proxyResult R)) (r_successful (proxyResult R))) of
             None \<Rightarrow> None
           | Some ps \<Rightarrow>
               (case read_all (view_error [r] R) (take (r_numErrors (proxyResult R)) (r_errors (proxyResult R))) of
                  None \<Rightarrow> None
                | Some es \<Rightarrow> Some (ps, es))))"

section \<open>Native methods\<close>

type_synonym 'v jni_outcome = "library \<times> (cpp_error + 'v)"

definition jni_proxyClientNew ::
  "(string \<Rightarrow> bool) \<Rightarrow> api_env \<Rightarrow> 64 word \<Rightarrow> string \<Rightarrow> string \<Rightarrow> library \<Rightarrow> (64 word \<times> j_error option) jni_outcome" where
  "jni_proxyClientNew findClass env rnd ownEthereumAddress streamPartId g =
     (case c_proxyClientNew env rnd ownEthereumAddress streamPartId g of
        Inl e \<Rightarrow> (Some (getProxyClientApi g), Inl e)
      | Inr (g1, r, clientHandle) \<Rightarrow>
          (case handleProxyResultErrors findClass g1 r of
             Inl e \<Rightarrow> (g1, Inl e)
           | Inr pending \<Rightarrow> (c_proxyClientResultDelete g1 r, Inr (clientHandle, pending))))"

definition jni_proxyClientDelete :: "api_env \<Rightarrow> 64 word \<Rightarrow> library \<Rightarrow> unit jni_outcome" where
  "jni_proxyClientDelete env handle g =
     (case c_proxyClientDelete env handle g of
        Inl e \<Rightarrow> (Some (getProxyClientApi g), Inl e)
      | Inr (g1, r, _) \<Rightarrow> (c_proxyClientResultDelete g1 r, Inr ()))"

text \<open>The end of \<^verbatim>\<open>proxyClientConnect\<close> and \<^verbatim>\<open>proxyClientPublish\<close>.\<close>

definition jni_finish :: "(string \<Rightarrow> bool) \<Rightarrow> library \<Rightarrow> cpp_error + (library \<times> nat \<times> 64 word) \<Rightarrow> j_result jni_outcome" where
  "jni_finish findClass g x =
     (case x of
        Inl e \<Rightarrow> (Some (getProxyClientApi g), Inl e)
      | Inr (g1, r, num) \<Rightarrow>
          (case result_values g1 r of
             None \<Rightarrow> (g1, Inl UndefinedBehaviour)
           | Some (successful, errors) \<Rightarrow>
               (case createProxyResult findClass num successful errors of
                  Inl e \<Rightarrow> (g1, Inl e)
                | Inr res \<Rightarrow> (c_proxyClientResultDelete g1 r, Inr res))))"

definition jni_proxyClientConnect ::
  "(string \<Rightarrow> bool) \<Rightarrow> api_env \<Rightarrow> (PeerDescriptor list \<Rightarrow> cpp_error + connect_outcome) \<Rightarrow> 64 word \<Rightarrow> j_address list \<Rightarrow> library \<Rightarrow> j_result jni_outcome" where
  "jni_proxyClientConnect findClass env net handle jProxies g =
     jni_finish findClass g (c_proxyClientConnect env net handle (map (\<lambda>p. (ja_ethereumAddress p, ja_websocketUrl p)) jProxies) g)"

definition jni_proxyClientPublish ::
  "(string \<Rightarrow> bool) \<Rightarrow> api_env \<Rightarrow> int \<Rightarrow> (ApiMessage \<Rightarrow> cpp_error + (PeerDescriptor list \<times> PeerDescriptor list)) \<Rightarrow> 64 word \<Rightarrow> string \<Rightarrow>
     string option \<Rightarrow> library \<Rightarrow> j_result jni_outcome" where
  "jni_proxyClientPublish findClass env now net handle jContent jEthereumPrivateKey g =
     jni_finish findClass g (c_proxyClientPublish env now net handle jContent jEthereumPrivateKey g)"

section \<open>Properties\<close>

lemma values_reads:
  assumes "hands_out g g' r es ps"
  shows "result_values g' r = Some (map proxy_value ps, map error_value_of es)"
proof -
  let ?R = "ProxyResultCpp_new [r] es ps"
  have R: "lib_result g' r = Some ?R" using assms by (simp add: hands_out_def lib_result_def registry_def)
  note parts = result_parts [where self = "[r]" and errorsCpp = es and successfulCpp = ps]
  have len: "length (r_errors (proxyResult ?R)) = length es" "length (r_successful (proxyResult ?R)) = length ps"
    using parts(1,2) by (metis length_map)+
  have "read_all (view_peer [r] ?R) (r_successful (proxyResult ?R)) = Some (map proxy_value ps)"
    "read_all (view_error [r] ?R) (r_errors (proxyResult ?R)) = Some (map error_value_of es)"
    using parts(1,2) by (simp_all add: read_all_Some)
  then show ?thesis using len parts(3,4) by (simp add: result_values_def R)
qed

lemma failed_list_peers:
  "list_all (\<lambda>e. ev_peer e \<noteq> None) es \<Longrightarrow>
   failed_list findClass es = Inr (map (\<lambda>e. (createStreamrError findClass e, createProxyAddress findClass (the (ev_peer e)))) es)"
  by (induction es) auto

text \<open>
  An error that concerns no peer makes the native \<^verbatim>\<open>connect\<close> and \<^verbatim>\<open>publish\<close> read through a null pointer: connecting to an empty list of proxies does so, and so do
  connecting and publishing with a handle that no client has.
\<close>

theorem jni_null_peer:
  assumes "alloc_contract env" "jProxies = [] \<or> om_find (apiClients a) handle = None"
  shows "snd (jni_proxyClientConnect findClass env net handle jProxies (Some a)) = Inl UndefinedBehaviour \<and>
    (om_find (apiClients a) handle = None \<longrightarrow>
       snd (jni_proxyClientPublish findClass env now net2 handle jContent key (Some a)) = Inl UndefinedBehaviour)"
proof -
  have f: "fresh_results env" using assms(1) by unfold_locales
  have crash: "snd (jni_finish findClass (Some a) (case fail_with env a m c None 0 of Inl e \<Rightarrow> Inl e | Inr (b, r) \<Rightarrow> Inr (Some b, r))) = Inl UndefinedBehaviour" for m c
  proof -
    obtain a' r where ar: "addResult env a [mk_error m c None] [] = (a', r)" by (cases "addResult env a [mk_error m c None] []")
    have h: "hands_out (Some a) (Some a') r [mk_error m c None] []"
      using fresh_results.addResult_fresh [OF f ar] by (auto simp: hands_out_def registry_def)
    show ?thesis using values_reads [OF h] ar
      by (simp add: jni_finish_def fail_with_def createProxyResult_def error_value_of_def ErrorCpp_new_def)
  qed
  have "\<exists>m c. proxyClientConnect env net a handle (map (\<lambda>p. (ja_ethereumAddress p, ja_websocketUrl p)) jProxies) = fail_with env a m c None 0"
    unfolding proxyClientConnect_def using assms(2) by (cases "jProxies = []") (simp, blast, simp, blast)
  then have "snd (jni_proxyClientConnect findClass env net handle jProxies (Some a)) = Inl UndefinedBehaviour"
    using crash by (auto simp: jni_proxyClientConnect_def c_proxyClientConnect_def c_call_def)
  moreover have "snd (jni_proxyClientPublish findClass env now net2 handle jContent key (Some a)) = Inl UndefinedBehaviour"
    if "om_find (apiClients a) handle = None"
    using that crash by (simp add: jni_proxyClientPublish_def c_proxyClientPublish_def c_call_def proxyClientPublish_def)
  ultimately show ?thesis by blast
qed

theorem jni_null_peer_witness:
  "snd (jni_proxyClientConnect (\<lambda>_. True) ref_env (\<lambda>_. Inr ([], [])) 5 [] (Some client_api)) = Inl UndefinedBehaviour"
  using jni_null_peer [OF ref_alloc, of "[]" client_api 5 "\<lambda>_. True" "\<lambda>_. Inr ([], [])"] by blast

text \<open>
  When the network answers, the Java caller of \<^verbatim>\<open>connect\<close> gets the number of connected proxies, their addresses, and one error per failed proxy with its
  message, its class and its address, in the order of the network's answer; the result of the C API is freed.
\<close>

theorem jni_connect_reports_network:
  assumes "alloc_contract env" "findClass = (\<lambda>_. True)" "om_find (apiClients a) handle = Some client" "jProxies \<noteq> []"
    "parse_peers env ERROR_INVALID_PROXY_URL (map (\<lambda>p. (ja_ethereumAddress p, ja_websocketUrl p)) jProxies) = Inr pds" "net pds = Inr (errs, oks)"
  shows "\<exists>g'. jni_proxyClientConnect findClass env net handle jProxies (Some a) =
      (g', Inr \<lparr>jr_numConnected = of_nat (length oks),
        jr_successful = map (\<lambda>pd. createProxyAddress findClass (proxy_value (reported_proxy env pd))) oks,
        jr_failed = map (\<lambda>(pd, m). (Some \<lparr>je_class = j_package @ ''StreamrError$ProxyConnectionFailed'',
          je_message = c_str (case m of Some t \<Rightarrow> t | None \<Rightarrow> ''No original exception'')\<rparr>,
          createProxyAddress findClass (proxy_value (reported_proxy env pd)))) errs\<rparr>) \<and> registry g' = registry (Some a)"
proof -
  let ?es = "map (connection_error env) errs" and ?ps = "map (reported_proxy env) oks"
  obtain a' r where ar: "addResult env a ?es ?ps = (a', r)" by (cases "addResult env a ?es ?ps")
  have conn: "c_proxyClientConnect env net handle (map (\<lambda>p. (ja_ethereumAddress p, ja_websocketUrl p)) jProxies) (Some a) =
      Inr (Some a', r, of_nat (length oks))"
    using assms(3-6) ar by (simp add: c_proxyClientConnect_def c_call_def proxyClientConnect_def)
  have f: "fresh_results env" using assms(1) by unfold_locales
  have h: "hands_out (Some a) (Some a') r ?es ?ps" using fresh_results.addResult_fresh [OF f ar] by (auto simp: hands_out_def registry_def)
  have peers: "list_all (\<lambda>e. ev_peer e \<noteq> None) (map error_value_of ?es)"
    by (simp add: list_all_iff error_value_of_def connection_error_def ErrorCpp_new_def Let_def)
  have codes: "c_str ERROR_PROXY_CONNECTION_FAILED = ERROR_PROXY_CONNECTION_FAILED" by (rule c_str_id) (simp add: error_codes)
  have cls: "errorClassName ERROR_PROXY_CONNECTION_FAILED = j_package @ ''StreamrError$ProxyConnectionFailed''"
    by (simp add: errorClassName_def error_codes)
  have conv: "(createStreamrError findClass (error_value_of (connection_error env x)), createProxyAddress findClass (the (ev_peer (error_value_of (connection_error env x))))) =
      (Some \<lparr>je_class = j_package @ ''StreamrError$ProxyConnectionFailed'',
        je_message = c_str (case snd x of Some t \<Rightarrow> t | None \<Rightarrow> ''No original exception'')\<rparr>,
       createProxyAddress findClass (proxy_value (reported_proxy env (fst x))))" for x
    by (simp add: assms(2) createStreamrError_def error_value_of_def connection_error_def ErrorCpp_new_def ProxyCpp_copy_def proxy_value_def codes cls Let_def)
  have "failed_list findClass (map error_value_of ?es) = Inr (map (\<lambda>(pd, m). (Some \<lparr>je_class = j_package @ ''StreamrError$ProxyConnectionFailed'',
          je_message = c_str (case m of Some t \<Rightarrow> t | None \<Rightarrow> ''No original exception'')\<rparr>,
          createProxyAddress findClass (proxy_value (reported_proxy env pd)))) errs)"
    using failed_list_peers [OF peers, of findClass] conv by (simp add: comp_def case_prod_beta)
  moreover have "registry (c_proxyClientResultDelete (Some a') r) = registry (Some a)"
    using h by (auto simp: c_proxyClientResultDelete_def hands_out_def)
  ultimately show ?thesis using values_reads [OF h]
    by (simp add: jni_proxyClientConnect_def conn jni_finish_def createProxyResult_def comp_def)
qed

theorem jni_connect_reports_network_witness:
  "\<exists>g' res. jni_proxyClientConnect (\<lambda>_. True) ref_env (\<lambda>_. Inr ([(demo_pd, None)], [demo_pd])) 5
     [\<lparr>ja_websocketUrl = ''ws://h'', ja_ethereumAddress = demo_address\<rparr>] (Some client_api) = (g', Inr res) \<and> jr_numConnected res = 1"
proof -
  let ?js = "[\<lparr>ja_websocketUrl = ''ws://h'', ja_ethereumAddress = demo_address\<rparr>]"
  have "case parse_peers ref_env ERROR_INVALID_PROXY_URL [(demo_address, ''ws://h'')] of Inl e \<Rightarrow> False | Inr x \<Rightarrow> True" by code_simp
  then obtain pds where pds: "parse_peers ref_env ERROR_INVALID_PROXY_URL (map (\<lambda>p. (ja_ethereumAddress p, ja_websocketUrl p)) ?js) = Inr pds"
    by (auto split: sum.splits)
  have cl: "om_find (apiClients client_api) 5 = Some \<lparr>pcLocalPeer = demo_pd, pcStreamPartId = ''abc#1'', pcSequenceNumber = 1\<rparr>"
    by (simp add: client_api_def om_find_def)
  from jni_connect_reports_network [OF ref_alloc refl cl _ pds, of "\<lambda>_. Inr ([(demo_pd, None)], [demo_pd])"] show ?thesis by auto
qed

end
