(* ===== verification/Plugin_Generator.thy ===== *)
theory Plugin_Generator
  imports Prelude
begin

text \<open>
  The protoc plugin of \<^verbatim>\<open>streamr-proto-rpc\<close>: \<^verbatim>\<open>StreamPrinter.hpp\<close> writes a buffer to a zero-copy stream, \<^verbatim>\<open>PluginCodeGenerator.hpp\<close> generates
  the server and the client module of a proto file.  The stream belongs to protobuf: \<open>zc_offer\<close> says what its \<open>k\<close>-th call of \<^verbatim>\<open>Next\<close>
  gives, a buffer of a size or, for \<open>None\<close>, no buffer.
\<close>

section \<open>StreamPrinter\<close>

record zc_stream =
  zc_offer :: "nat \<Rightarrow> int option"
  zc_calls :: nat
  zc_written :: string

text \<open>A buffer that \<^verbatim>\<open>Next\<close> hands out counts as written, with whatever it holds, until \<^verbatim>\<open>BackUp\<close> takes its end back.\<close>

definition zc_next :: "zc_stream \<Rightarrow> zc_stream \<times> int option" where
  "zc_next s =
     (case zc_offer s (zc_calls s) of
        None \<Rightarrow> (s\<lparr>zc_calls := zc_calls s + 1\<rparr>, None)
      | Some n \<Rightarrow> (s\<lparr>zc_calls := zc_calls s + 1, zc_written := zc_written s @ replicate (nat n) (CHR 0x00)\<rparr>, Some n))"

definition zc_memcpy :: "int \<Rightarrow> string \<Rightarrow> zc_stream \<Rightarrow> zc_stream" where
  "zc_memcpy bufferSize d s =
     (let at = length (zc_written s) - nat bufferSize
      in s\<lparr>zc_written := take at (zc_written s) @ d @ drop (at + length d) (zc_written s)\<rparr>)"

definition zc_BackUp :: "int \<Rightarrow> zc_stream \<Rightarrow> zc_stream" where
  "zc_BackUp n s = s\<lparr>zc_written := take (length (zc_written s) - nat n) (zc_written s)\<rparr>"

partial_function (option) print_loop :: "string \<Rightarrow> int \<Rightarrow> zc_stream \<Rightarrow> zc_stream option" where
  [code]: "print_loop iValue dumpIndex s =
     (if dumpIndex < int (length iValue)
      then (case zc_next s of
              (s1, None) \<Rightarrow> print_loop iValue dumpIndex s1
            | (s1, Some bufferSize) \<Rightarrow>
                (if bufferSize > 0
                 then (let dumpSize = min (int (length iValue) - dumpIndex) bufferSize;
                           s2 = zc_memcpy bufferSize (take (nat dumpSize) (drop (nat dumpIndex) iValue)) s1;
                           s3 = (if dumpSize < bufferSize then zc_BackUp (bufferSize - dumpSize) s2 else s2)
                       in print_loop iValue (dumpIndex + dumpSize) s3)
                 else print_loop iValue dumpIndex s1))
      else Some s)"

definition print :: "string \<Rightarrow> zc_stream \<Rightarrow> zc_stream option" where
  "print iValue s = print_loop iValue 0 s"

section \<open>Names\<close>

fun find_last_of :: "char list \<Rightarrow> string \<Rightarrow> nat option" where
  "find_last_of cs [] = None"
| "find_last_of cs (c # s) =
     (case find_last_of cs s of Some i \<Rightarrow> Some (i + 1) | None \<Rightarrow> (if c \<in> set cs then Some 0 else None))"

fun find_sub :: "string \<Rightarrow> string \<Rightarrow> nat option" where
  "find_sub key [] = (if key = [] then Some 0 else None)"
| "find_sub key (c # s) = (if take (length key) (c # s) = key then Some 0 else map_option Suc (find_sub key s))"

definition slashes :: "char list" where
  "slashes = [CHR ''/'', CHR 0x5C]"

text \<open>\<^verbatim>\<open>npos + 1\<close> is 0.\<close>

definition getFilenameWithoutExtension :: "string \<Rightarrow> string" where
  "getFilenameWithoutExtension filepath =
     (let lastSlash = find_last_of slashes filepath;
          filename = drop (case lastSlash of None \<Rightarrow> 0 | Some i \<Rightarrow> i + 1) filepath
      in case find_last_of [CHR ''.''] filename of None \<Rightarrow> filename | Some lastDot \<Rightarrow> take lastDot filename)"

definition getPathWithoutExtension :: "string \<Rightarrow> string" where
  "getPathWithoutExtension filepath =
     (case find_last_of [CHR ''.''] filepath of
        None \<Rightarrow> filepath
      | Some lastDot \<Rightarrow>
          (case find_last_of slashes filepath of
             Some lastSlash \<Rightarrow> (if lastDot < lastSlash then filepath else take lastDot filepath)
           | None \<Rightarrow> take lastDot filepath))"

definition to_upper :: "char \<Rightarrow> char" where
  "to_upper c = (if 97 \<le> (of_char c :: nat) \<and> of_char c \<le> (122::nat) then char_of (of_char c - (32::nat)) else c)"

definition toUpperCase :: "string \<Rightarrow> string" where
  "toUpperCase str = map to_upper str"

definition module_prefix_error :: string where
  "module_prefix_error =
     ''the streamr plugin now generates C++ module units and '' @ ''requires the module_prefix parameter, e.g. '' @
     ''--streamr_out=module_prefix=streamr.dht:<outdir>''"

text \<open>The prefix, and the error the function sets, if it sets one.\<close>

definition getModulePrefix :: "string \<Rightarrow> string \<times> string option" where
  "getModulePrefix parameter =
     (let key = ''module_prefix=''
      in case find_sub key parameter of
           None \<Rightarrow> ([], Some module_prefix_error)
         | Some pos \<Rightarrow> (takeWhile (\<lambda>c. c \<noteq> CHR '','') (drop (pos + length key) parameter), None))"

section \<open>Descriptors\<close>

record proto_method =
  me_name :: string
  me_input :: string
  me_output :: string

record proto_service =
  sv_name :: string
  sv_methods :: "proto_method list"

record proto_file =
  fd_name :: string
  fd_package :: string
  fd_services :: "proto_service list"

section \<open>The generated text\<close>

definition nl :: string where
  "nl = [CHR 0x0A]"

definition dq :: string where
  "dq = [CHR 0x22]"

text \<open>The state of the loops: the two string streams and \<^verbatim>\<open>emptyIncluded\<close>.\<close>

record gen_state =
  headerSs :: string
  sourceSs :: string
  emptyIncluded :: bool

definition empty_include :: string where
  "empty_include = ''#include <google/protobuf/empty.pb.h>'' @ nl"

definition out_source :: "string \<Rightarrow> gen_state \<Rightarrow> gen_state" where
  "out_source t g = g\<lparr>sourceSs := sourceSs g @ t\<rparr>"

text \<open>The handling of the input type, the same in both loops.\<close>

definition method_input :: "proto_method \<Rightarrow> gen_state \<Rightarrow> gen_state \<times> string" where
  "method_input m g =
     (if me_input m = ''Empty''
      then ((if \<not> emptyIncluded g then g\<lparr>headerSs := headerSs g @ empty_include, emptyIncluded := True\<rparr> else g), ''google::protobuf::Empty'')
      else (g, me_input m))"

definition method_output :: "proto_method \<Rightarrow> string" where
  "method_output m = (if me_output m = ''Empty'' then ''void'' else me_output m)"

definition server_method_text :: "proto_method \<Rightarrow> string \<Rightarrow> string" where
  "server_method_text m inputName =
     ''   virtual '' @ method_output m @ '' '' @ me_name m @ ''(const '' @ inputName @
     ''& request, const CallContextType& callContext) = 0;'' @ nl"

definition server_method :: "gen_state \<Rightarrow> proto_method \<Rightarrow> gen_state" where
  "server_method g m = (case method_input m g of (g1, inputName) \<Rightarrow> out_source (server_method_text m inputName) g1)"

definition server_service :: "gen_state \<Rightarrow> proto_service \<Rightarrow> gen_state" where
  "server_service g s =
     out_source (''}; // class '' @ sv_name s @ nl)
       (foldl server_method
          (out_source (''template <typename CallContextType>'' @ nl @ ''class '' @ sv_name s @ '' {'' @ nl @ ''public:'' @ nl @
             ''   virtual ~'' @ sv_name s @ ''() = default;'' @ nl) g)
          (sv_methods s))"

definition namespace_name :: "proto_file \<Rightarrow> string" where
  "namespace_name f = (if fd_package f = [] then ''streamr::protorpc'' else fd_package f)"

definition coroutine_comment :: string where
  "coroutine_comment =
     ''// std::coroutine_traits must be visible in every translation unit'' @ nl @
     ''// that defines OR instantiates a coroutine; it cannot arrive through'' @ nl @
     ''// an imported BMI.'' @ nl @ ''#include <coroutine> // IWYU pragma: keep'' @ nl @ nl"

definition server_header :: "proto_file \<Rightarrow> string" where
  "server_header f =
     ''// Generated by the protocol buffer streamr pluging. DO NOT EDIT!'' @ nl @
     ''// Generated from protobuf file '' @ dq @ fd_name f @ dq @ nl @ nl @ ''module;'' @ nl @ nl @ coroutine_comment @
     ''#include '' @ dq @ getPathWithoutExtension (fd_name f) @ ''.pb.h'' @ dq @ '' // NOLINT'' @ nl"

definition server_source_head :: "string \<Rightarrow> proto_file \<Rightarrow> string" where
  "server_source_head modulePrefix f =
     ''export module '' @ modulePrefix @ ''.'' @ getFilenameWithoutExtension (fd_name f) @ ''Server;'' @ nl @ nl @
     ''import streamr.utils.CoroutineHelper;'' @ nl @ nl @ ''export namespace '' @ namespace_name f @ '' {'' @ nl"

definition server_gen :: "string \<Rightarrow> proto_file \<Rightarrow> gen_state" where
  "server_gen modulePrefix f =
     out_source (''}; // namespace '' @ namespace_name f @ nl)
       (foldl server_service
          \<lparr>headerSs = server_header f, sourceSs = server_source_head modulePrefix f, emptyIncluded = False\<rparr> (fd_services f))"

definition client_method_text :: "proto_method \<Rightarrow> string \<Rightarrow> string" where
  "client_method_text m inputName =
     ''    folly::coro::Task<'' @ method_output m @ ''> '' @ me_name m @ ''('' @ inputName @
     ''&& request, CallContextType&& callContext, std::optional<std::chrono::milliseconds> timeout = std::nullopt) {'' @ nl @
     ''        return communicator.'' @
     (if method_output m = ''void'' then ''template notify<'' @ inputName @ ''>''
      else ''template request<'' @ method_output m @ '', '' @ inputName @ ''>'') @
     ''('' @ dq @ me_name m @ dq @ '', std::move(request), std::move(callContext), timeout);'' @ nl @ ''    }'' @ nl"

definition client_method :: "gen_state \<Rightarrow> proto_method \<Rightarrow> gen_state" where
  "client_method g m = (case method_input m g of (g1, inputName) \<Rightarrow> out_source (client_method_text m inputName) g1)"

definition client_service :: "gen_state \<Rightarrow> proto_service \<Rightarrow> gen_state" where
  "client_service g s =
     out_source (''}; // class '' @ sv_name s @ ''Client'' @ nl)
       (foldl client_method
          (out_source (''template <typename CallContextType>'' @ nl @ ''class '' @ sv_name s @ ''Client'' @ '' {'' @ nl @ ''private:'' @ nl @
             ''RpcCommunicator<CallContextType>& communicator;'' @ nl @ ''public:'' @ nl @
             ''    explicit '' @ sv_name s @
             ''Client(RpcCommunicator<CallContextType>& communicator) : communicator(communicator) {}'' @ nl) g)
          (sv_methods s))"

definition client_header :: "proto_file \<Rightarrow> string" where
  "client_header f =
     ''// generated by the protocol buffer streamr pluging. DO NOT EDIT!'' @ nl @
     ''// generated from protobuf file '' @ dq @ fd_name f @ dq @ nl @ nl @ ''module;'' @ nl @ nl @ coroutine_comment @
     ''#include <chrono>'' @ nl @ ''#include <optional>'' @ nl @
     ''#include '' @ dq @ getPathWithoutExtension (fd_name f) @ ''.pb.h'' @ dq @ '' // NOLINT'' @ nl @ nl"

definition client_source_head :: "string \<Rightarrow> proto_file \<Rightarrow> string" where
  "client_source_head modulePrefix f =
     ''export module '' @ modulePrefix @ ''.'' @ getFilenameWithoutExtension (fd_name f) @ ''Client;'' @ nl @ nl @
     ''import streamr.utils.CoroutineHelper;'' @ nl @ nl @ ''import streamr.protorpc.RpcCommunicator;'' @ nl @ nl @
     ''using streamr::protorpc::RpcCommunicator;'' @ nl @ nl @ ''export namespace '' @ namespace_name f @ '' {'' @ nl"

definition client_gen :: "string \<Rightarrow> proto_file \<Rightarrow> gen_state" where
  "client_gen modulePrefix f =
     out_source (''}; // namespace '' @ namespace_name f @ nl)
       (foldl client_service
          \<lparr>headerSs = client_header f, sourceSs = client_source_head modulePrefix f, emptyIncluded = False\<rparr> (fd_services f))"

section \<open>Generate\<close>

text \<open>
  The generator context: the streams of the files opened so far, in order; \<open>opens\<close> is what \<^verbatim>\<open>Open\<close> gives for a name.  \<open>None\<close> is a call that does not
  return.
\<close>

type_synonym gen_files = "(string \<times> zc_stream) list"

definition write_unit :: "(string \<Rightarrow> zc_stream) \<Rightarrow> string \<Rightarrow> gen_state \<Rightarrow> gen_files \<Rightarrow> gen_files option" where
  "write_unit opens headerFilename g files =
     (case print (headerSs g @ nl) (opens headerFilename) of
        None \<Rightarrow> None
      | Some s1 \<Rightarrow> (case print (sourceSs g @ nl) s1 of None \<Rightarrow> None | Some s2 \<Rightarrow> Some (files @ [(headerFilename, s2)])))"

record gen_result =
  gr_ok :: bool
  gr_error :: string
  gr_files :: gen_files

definition generate_unit ::
  "(string \<Rightarrow> zc_stream) \<Rightarrow> (string \<Rightarrow> proto_file \<Rightarrow> gen_state) \<Rightarrow> string \<Rightarrow> proto_file \<Rightarrow> string \<Rightarrow> gen_result \<Rightarrow> gen_result option" where
  "generate_unit opens gen suffix f parameter st =
     (case getModulePrefix parameter of
        (modulePrefix, err) \<Rightarrow>
          (let st1 = st\<lparr>gr_error := (case err of Some e \<Rightarrow> e | None \<Rightarrow> gr_error st)\<rparr>
           in if modulePrefix = [] then Some (st1\<lparr>gr_ok := False\<rparr>)
              else (case write_unit opens (getFilenameWithoutExtension (fd_name f) @ suffix) (gen modulePrefix f) (gr_files st1) of
                      None \<Rightarrow> None
                    | Some files \<Rightarrow> Some (st1\<lparr>gr_ok := True, gr_files := files\<rparr>))))"

definition GenerateServerHeader :: "(string \<Rightarrow> zc_stream) \<Rightarrow> proto_file \<Rightarrow> string \<Rightarrow> gen_result \<Rightarrow> gen_result option" where
  "GenerateServerHeader opens f parameter st = generate_unit opens server_gen ''.server.cppm'' f parameter st"

definition GenerateClientHeader :: "(string \<Rightarrow> zc_stream) \<Rightarrow> proto_file \<Rightarrow> string \<Rightarrow> gen_result \<Rightarrow> gen_result option" where
  "GenerateClientHeader opens f parameter st = generate_unit opens client_gen ''.client.cppm'' f parameter st"

definition GenerateHeader :: "(string \<Rightarrow> zc_stream) \<Rightarrow> proto_file \<Rightarrow> string \<Rightarrow> gen_result \<Rightarrow> gen_result option" where
  "GenerateHeader opens f parameter st =
     (case GenerateServerHeader opens f parameter st of
        None \<Rightarrow> None
      | Some st1 \<Rightarrow> (if gr_ok st1 then GenerateClientHeader opens f parameter st1 else Some st1))"

definition GenerateSource :: "gen_result \<Rightarrow> gen_result option" where
  "GenerateSource st = Some (st\<lparr>gr_ok := True\<rparr>)"

definition Generate :: "(string \<Rightarrow> zc_stream) \<Rightarrow> proto_file \<Rightarrow> string \<Rightarrow> string \<Rightarrow> gen_result option" where
  "Generate opens f parameter error =
     (case GenerateHeader opens f parameter \<lparr>gr_ok = False, gr_error = error, gr_files = []\<rparr> of
        None \<Rightarrow> None
      | Some st1 \<Rightarrow> (if gr_ok st1 then GenerateSource st1 else Some st1))"


section \<open>The printer writes everything\<close>

definition zc_usable :: "zc_stream \<Rightarrow> nat \<Rightarrow> bool" where
  "zc_usable s k \<longleftrightarrow> (\<exists>n. zc_offer s k = Some n \<and> 0 < n)"

lemma loop_skip:
  assumes "zc_calls s \<le> j" "\<And>k. zc_calls s \<le> k \<Longrightarrow> k < j \<Longrightarrow> \<not> zc_usable s k" "i < int (length v)"
  shows "print_loop v i s = print_loop v i (s\<lparr>zc_calls := j\<rparr>)"
  using assms
proof (induction "j - zc_calls s" arbitrary: s)
  case 0
  then have "s\<lparr>zc_calls := j\<rparr> = s" by simp
  then show ?case by simp
next
  case (Suc d)
  let ?s = "s\<lparr>zc_calls := zc_calls s + 1\<rparr>"
  have lt: "zc_calls s < j" using Suc.hyps(2) by simp
  then have "\<not> zc_usable s (zc_calls s)" using Suc.prems(2) by simp
  then have "zc_next s = (?s, None) \<or> (\<exists>n\<le>0. zc_next s = (?s, Some n))"
    by (cases "zc_offer s (zc_calls s)") (auto simp: zc_next_def zc_usable_def)
  then have "print_loop v i s = print_loop v i ?s"
    using Suc.prems(3) by (subst print_loop.simps) auto
  also have "\<dots> = print_loop v i (?s\<lparr>zc_calls := j\<rparr>)"
  proof (rule Suc.hyps(1))
    show "\<not> zc_usable ?s k" if "zc_calls ?s \<le> k" "k < j" for k using Suc.prems(2) [of k] that by (simp add: zc_usable_def)
  qed (use Suc.hyps(2) Suc.prems(3) lt in auto)
  finally show ?case by simp
qed

lemma loop_step:
  assumes "zc_offer s (zc_calls s) = Some n" "0 < n" "0 \<le> i" "i < int (length v)"
  defines "d \<equiv> min (int (length v) - i) n"
  shows "print_loop v i s = print_loop v (i + d)
    (s\<lparr>zc_calls := zc_calls s + 1, zc_written := zc_written s @ take (nat d) (drop (nat i) v)\<rparr>)"
proof -
  let ?D = "take (nat d) (drop (nat i) v)"
  let ?s1 = "s\<lparr>zc_calls := Suc (zc_calls s), zc_written := zc_written s @ replicate (nat n) (CHR 0x00)\<rparr>"
  let ?t = "?s1\<lparr>zc_written := zc_written s @ ?D\<rparr>"
  have d: "0 < d" "d \<le> n" "nat d \<le> length v - nat i" using assms(2-4) by (auto simp: d_def)
  have len: "length ?D = nat d" using d(3) by simp
  have cpy: "zc_memcpy n ?D ?s1 = ?s1\<lparr>zc_written := zc_written s @ ?D @ replicate (nat n - nat d) (CHR 0x00)\<rparr>"
    using len d by (simp add: zc_memcpy_def Let_def)
  have "d < n \<Longrightarrow> zc_BackUp (n - d) (zc_memcpy n ?D ?s1) = ?t" "\<not> d < n \<Longrightarrow> zc_memcpy n ?D ?s1 = ?t"
    unfolding cpy using len d by (auto simp: zc_BackUp_def nat_diff_distrib)
  then show ?thesis using assms(1,2,4)
    by (subst print_loop.simps) (simp add: zc_next_def d_def [symmetric] Let_def)
qed

lemma loop_total:
  assumes "\<And>k. \<exists>j\<ge>k. zc_usable s j" "0 \<le> i" "i \<le> int (length v)"
  shows "\<exists>c. print_loop v i s = Some (s\<lparr>zc_calls := c, zc_written := zc_written s @ drop (nat i) v\<rparr>)"
  using assms
proof (induction "length v - nat i" arbitrary: i s rule: less_induct)
  case less
  show ?case
  proof (cases "i < int (length v)")
    case False
    then have "print_loop v i s = Some s" by (subst print_loop.simps) simp
    moreover have "s = s\<lparr>zc_calls := zc_calls s, zc_written := zc_written s @ drop (nat i) v\<rparr>" using False less.prems by simp
    ultimately show ?thesis by metis
  next
    case True
    define j where "j = (LEAST j. zc_calls s \<le> j \<and> zc_usable s j)"
    have j: "zc_calls s \<le> j \<and> zc_usable s j" unfolding j_def by (rule LeastI_ex) (use less.prems(1) in blast)
    have nj: "\<not> zc_usable s k" if "zc_calls s \<le> k" "k < j" for k using that not_less_Least unfolding j_def by blast
    obtain n where n: "zc_offer s j = Some n" "0 < n" using j by (auto simp: zc_usable_def)
    define d where "d = min (int (length v) - i) n"
    have d: "0 < d" "i + d \<le> int (length v)" using n(2) True by (auto simp: d_def)
    let ?s = "s\<lparr>zc_calls := j + 1, zc_written := zc_written s @ take (nat d) (drop (nat i) v)\<rparr>"
    have "print_loop v i s = print_loop v i (s\<lparr>zc_calls := j\<rparr>)" by (rule loop_skip) (use j nj True in auto)
    also have "\<dots> = print_loop v (i + d) ?s"
      using loop_step [of "s\<lparr>zc_calls := j\<rparr>" n i v] n less.prems(2) True by (simp add: d_def)
    finally have step: "print_loop v i s = print_loop v (i + d) ?s" .
    have "\<exists>c. print_loop v (i + d) ?s = Some (?s\<lparr>zc_calls := c, zc_written := zc_written ?s @ drop (nat (i + d)) v\<rparr>)"
      by (rule less.hyps) (use less.prems d in \<open>auto simp: zc_usable_def\<close>)
    moreover have "take (nat d) (drop (nat i) v) @ drop (nat (i + d)) v = drop (nat i) v"
      using d less.prems(2) by (metis append_take_drop_id drop_drop nat_add_distrib add.commute less_imp_le)
    ultimately show ?thesis unfolding step by simp
  qed
qed

lemma print_total:
  assumes "\<And>k. \<exists>j\<ge>k. zc_usable s j"
  shows "\<exists>c. print v s = Some (s\<lparr>zc_calls := c, zc_written := zc_written s @ v\<rparr>)"
  using loop_total [of s 0 v] assms by (simp add: print_def)

text \<open>
  The printer ends and writes exactly the bytes it is given, in order and whatever the sizes of the buffers are, on every stream
  that keeps offering buffers, however many empty ones it offers in between.
\<close>

theorem print_writes_all:
  assumes "\<forall>k. \<exists>j\<ge>k. zc_usable s j"
  shows "\<exists>s'. print iValue s = Some s' \<and> zc_written s' = zc_written s @ iValue \<and> zc_offer s' = zc_offer s"
  using print_total [of s iValue] assms by auto

definition demo_stream :: zc_stream where
  "demo_stream = \<lparr>zc_offer = (\<lambda>k. if even k then Some 2 else None), zc_calls = 0, zc_written = ''x''\<rparr>"

lemma demo_usable: "\<forall>k. \<exists>j\<ge>k. zc_usable demo_stream j"
proof
  fix k
  have "zc_usable demo_stream (2 * k)" by (simp add: zc_usable_def demo_stream_def)
  then show "\<exists>j\<ge>k. zc_usable demo_stream j" by (intro exI [of _ "2 * k"]) simp
qed

theorem print_writes_all_witness: "\<exists>s'. print ''hello'' demo_stream = Some s' \<and> zc_written s' = ''xhello''"
  using print_writes_all [OF demo_usable, of "''hello''"] by (auto simp: demo_stream_def)

text \<open>
  The printer ignores the failure of \<^verbatim>\<open>Next\<close>: on a stream that fails from some point on, printing what is left never ends.
\<close>

theorem print_failing_stream_loops:
  assumes "iValue \<noteq> []" "\<forall>k \<ge> zc_calls s. zc_offer s k = None"
  shows "print iValue s = None"
proof -
  have no: "\<not> (i < int (length v) \<and> (\<forall>k \<ge> zc_calls t. zc_offer t k = None))" if "print_loop v i t = Some y" for v i t y
  proof (rule print_loop.raw_induct [OF _ that, where P = "\<lambda>v i t y. \<not> (i < int (length v) \<and> (\<forall>k \<ge> zc_calls t. zc_offer t k = None))"])
    fix loop v i t y
    assume IH: "\<And>v i t y. loop v i t = Some y \<Longrightarrow> \<not> (i < int (length v) \<and> (\<forall>k \<ge> zc_calls t. zc_offer t k = None))"
      and body: "(if i < int (length v)
        then (case zc_next t of
                (s1, None) \<Rightarrow> loop v i s1
              | (s1, Some bufferSize) \<Rightarrow>
                  (if bufferSize > 0
                   then (let dumpSize = min (int (length v) - i) bufferSize;
                             s2 = zc_memcpy bufferSize (take (nat dumpSize) (drop (nat i) v)) s1;
                             s3 = (if dumpSize < bufferSize then zc_BackUp (bufferSize - dumpSize) s2 else s2)
                         in loop v (i + dumpSize) s3)
                   else loop v i s1))
        else Some t) = Some y"
    show "\<not> (i < int (length v) \<and> (\<forall>k \<ge> zc_calls t. zc_offer t k = None))"
    proof
      assume a: "i < int (length v) \<and> (\<forall>k \<ge> zc_calls t. zc_offer t k = None)"
      then have "zc_next t = (t\<lparr>zc_calls := zc_calls t + 1\<rparr>, None)" by (simp add: zc_next_def)
      then have "loop v i (t\<lparr>zc_calls := zc_calls t + 1\<rparr>) = Some y" using body a by simp
      from IH [OF this] a show False by simp
    qed
  qed
  show ?thesis using assms no [of iValue 0 s] by (cases "print iValue s") (auto simp: print_def)
qed

theorem print_failing_stream_loops_witness:
  "print ''hello'' \<lparr>zc_offer = (\<lambda>k. None), zc_calls = 0, zc_written = []\<rparr> = None"
  by (rule print_failing_stream_loops) simp_all


section \<open>The generated modules\<close>

lemma find_last_of_None: "find_last_of cs s = None \<longleftrightarrow> set s \<inter> set cs = {}"
  by (induction s) (auto split: option.splits)

lemma find_last_of_append:
  "find_last_of cs (a @ b) = (case find_last_of cs b of Some i \<Rightarrow> Some (length a + i) | None \<Rightarrow> find_last_of cs a)"
  by (induction a) (auto split: option.splits)

lemma find_last_of_Some: "find_last_of cs s = Some i \<Longrightarrow> i < length s \<and> find_last_of cs (drop (i + 1) s) = None"
proof (induction s arbitrary: i)
  case (Cons c s)
  then show ?case by (cases "find_last_of cs s") (auto split: if_splits)
qed simp

lemma find_last_of_nth: "find_last_of cs s = Some i \<Longrightarrow> i < length s \<and> s ! i \<in> set cs"
proof (induction s arbitrary: i)
  case (Cons c s)
  then show ?case by (cases "find_last_of cs s") (auto split: if_splits)
qed simp

text \<open>The directory of a path, with its last slash.\<close>

definition dir_part :: "string \<Rightarrow> string" where
  "dir_part p = take (case find_last_of slashes p of None \<Rightarrow> 0 | Some i \<Rightarrow> i + 1) p"

text \<open>
  The header that a generated module includes and the file the module is written to agree for every path: the path without its extension is the
  directory followed by the file name without its extension, where a dot in a directory name is no extension.
\<close>

theorem path_is_dir_and_filename: "getPathWithoutExtension p = dir_part p @ getFilenameWithoutExtension p"
proof -
  define k where "k = (case find_last_of slashes p of None \<Rightarrow> 0 | Some i \<Rightarrow> i + 1)"
  define f where "f = drop k p"
  have p: "p = take k p @ f" by (simp add: f_def)
  have k: "k \<le> length p" using find_last_of_Some [of slashes p] by (auto simp: k_def split: option.splits)
  have dot: "find_last_of [CHR ''.''] p =
      (case find_last_of [CHR ''.''] f of Some i \<Rightarrow> Some (k + i) | None \<Rightarrow> find_last_of [CHR ''.''] (take k p))"
    using find_last_of_append [of "[CHR ''.'']" "take k p" f] k by (simp add: f_def split: option.splits)
  show ?thesis
  proof (cases "find_last_of [CHR ''.''] f")
    case (Some i)
    then show ?thesis using dot k
      by (auto simp: getPathWithoutExtension_def getFilenameWithoutExtension_def dir_part_def k_def [symmetric] f_def [symmetric] take_add
          split: option.splits) (auto simp: k_def f_def take_add)
  next
    case None
    have "i < j" if "find_last_of slashes p = Some j" "find_last_of [CHR ''.''] p = Some i" for i j
    proof -
      have "find_last_of [CHR ''.''] (take k p) = Some i" using that(2) dot None by simp
      then have "i < k" "take k p ! i = CHR ''.''" using find_last_of_nth by fastforce+
      moreover have "p ! j \<in> set slashes" using find_last_of_nth [OF that(1)] by blast
      ultimately show ?thesis using that(1) k_def by (cases "i = j") (auto simp: slashes_def)
    qed
    moreover have "k = 0" if "find_last_of slashes p = None" using that by (simp add: k_def)
    ultimately show ?thesis using None dot p
      by (auto simp: getPathWithoutExtension_def getFilenameWithoutExtension_def dir_part_def k_def [symmetric] f_def [symmetric] split: option.splits)
  qed
qed


subsection \<open>What a module should contain\<close>

definition input_name :: "proto_method \<Rightarrow> string" where
  "input_name m = (if me_input m = ''Empty'' then ''google::protobuf::Empty'' else me_input m)"

definition uses_empty :: "proto_file \<Rightarrow> bool" where
  "uses_empty f \<longleftrightarrow> (\<exists>s \<in> set (fd_services f). \<exists>m \<in> set (sv_methods s). me_input m = ''Empty'')"

definition server_service_text :: "proto_service \<Rightarrow> string" where
  "server_service_text s =
     ''template <typename CallContextType>'' @ nl @ ''class '' @ sv_name s @ '' {'' @ nl @ ''public:'' @ nl @
     ''   virtual ~'' @ sv_name s @ ''() = default;'' @ nl @ concat (map (\<lambda>m. server_method_text m (input_name m)) (sv_methods s)) @
     ''}; // class '' @ sv_name s @ nl"

definition client_service_text :: "proto_service \<Rightarrow> string" where
  "client_service_text s =
     ''template <typename CallContextType>'' @ nl @ ''class '' @ sv_name s @ ''Client'' @ '' {'' @ nl @ ''private:'' @ nl @
     ''RpcCommunicator<CallContextType>& communicator;'' @ nl @ ''public:'' @ nl @ ''    explicit '' @ sv_name s @
     ''Client(RpcCommunicator<CallContextType>& communicator) : communicator(communicator) {}'' @ nl @
     concat (map (\<lambda>m. client_method_text m (input_name m)) (sv_methods s)) @ ''}; // class '' @ sv_name s @ ''Client'' @ nl"

definition unit_text :: "string \<Rightarrow> string \<Rightarrow> (proto_service \<Rightarrow> string) \<Rightarrow> proto_file \<Rightarrow> string" where
  "unit_text header source service f =
     header @ (if uses_empty f then empty_include else []) @ nl @ source @ concat (map service (fd_services f)) @
     ''}; // namespace '' @ namespace_name f @ nl @ nl"

text \<open>The loops over methods and services, for either kind of module.\<close>

definition with_methods :: "(proto_method \<Rightarrow> string \<Rightarrow> string) \<Rightarrow> proto_method list \<Rightarrow> gen_state \<Rightarrow> gen_state" where
  "with_methods mtext ms g =
     \<lparr>headerSs = headerSs g @ (if \<not> emptyIncluded g \<and> (\<exists>m \<in> set ms. me_input m = ''Empty'') then empty_include else []),
      sourceSs = sourceSs g @ concat (map (\<lambda>m. mtext m (input_name m)) ms),
      emptyIncluded = (emptyIncluded g \<or> (\<exists>m \<in> set ms. me_input m = ''Empty''))\<rparr>"

lemma method_loop:
  assumes "\<And>g m. step g m = (case method_input m g of (g1, inputName) \<Rightarrow> out_source (mtext m inputName) g1)"
  shows "foldl step g ms = with_methods mtext ms g"
proof (induction ms arbitrary: g)
  case (Cons m ms)
  have "step g m = with_methods mtext [m] g"
    by (cases g) (auto simp: assms method_input_def out_source_def with_methods_def input_name_def)
  then show ?case using Cons by (auto simp: with_methods_def)
qed (simp add: with_methods_def)

lemma service_loop:
  assumes "\<And>g m. step g m = (case method_input m g of (g1, inputName) \<Rightarrow> out_source (mtext m inputName) g1)"
    "\<And>g s. serv g s = out_source (post s) (foldl step (out_source (pre s) g) (sv_methods s))"
  shows "foldl serv g ss =
    \<lparr>headerSs = headerSs g @ (if \<not> emptyIncluded g \<and> (\<exists>s \<in> set ss. \<exists>m \<in> set (sv_methods s). me_input m = ''Empty'') then empty_include else []),
     sourceSs = sourceSs g @ concat (map (\<lambda>s. pre s @ concat (map (\<lambda>m. mtext m (input_name m)) (sv_methods s)) @ post s) ss),
     emptyIncluded = (emptyIncluded g \<or> (\<exists>s \<in> set ss. \<exists>m \<in> set (sv_methods s). me_input m = ''Empty''))\<rparr>"
proof (induction ss arbitrary: g)
  case (Cons s ss)
  have "serv g s = with_methods (\<lambda>m i. mtext m i) (sv_methods s) (out_source (pre s) g)\<lparr>sourceSs := sourceSs g @ pre s @ concat (map (\<lambda>m. mtext m (input_name m)) (sv_methods s)) @ post s\<rparr>"
    by (simp add: assms(2) method_loop [of step mtext, OF assms(1)]) (simp add: out_source_def with_methods_def)
  then show ?case using Cons by (auto simp: with_methods_def out_source_def)
qed simp

lemma server_gen_text:
  "headerSs (server_gen p f) @ nl @ sourceSs (server_gen p f) @ nl = unit_text (server_header f) (server_source_head p f) server_service_text f"
  unfolding server_gen_def service_loop [where step = server_method and mtext = server_method_text, OF server_method_def server_service_def]
  by (simp add: out_source_def unit_text_def uses_empty_def server_service_text_def [abs_def])

lemma client_gen_text:
  "headerSs (client_gen p f) @ nl @ sourceSs (client_gen p f) @ nl = unit_text (client_header f) (client_source_head p f) client_service_text f"
  unfolding client_gen_def service_loop [where step = client_method and mtext = client_method_text, OF client_method_def client_service_def]
  by (simp add: out_source_def unit_text_def uses_empty_def client_service_text_def [abs_def])

definition fresh_stream :: "zc_stream \<Rightarrow> bool" where
  "fresh_stream s \<longleftrightarrow> zc_written s = [] \<and> (\<forall>k. \<exists>j\<ge>k. zc_usable s j)"

lemma write_unit_text:
  assumes "fresh_stream (opens name)"
  shows "\<exists>s. write_unit opens name g files = Some (files @ [(name, s)]) \<and> zc_written s = headerSs g @ nl @ sourceSs g @ nl"
proof -
  have fair: "\<And>k. \<exists>j\<ge>k. zc_usable (opens name) j" using assms by (simp add: fresh_stream_def)
  obtain c where s1: "print (headerSs g @ nl) (opens name) = Some ((opens name)\<lparr>zc_calls := c, zc_written := zc_written (opens name) @ headerSs g @ nl\<rparr>)"
    using print_total [OF fair] by blast
  let ?s = "(opens name)\<lparr>zc_calls := c, zc_written := zc_written (opens name) @ headerSs g @ nl\<rparr>"
  have "\<And>k. \<exists>j\<ge>k. zc_usable ?s j" using fair by (simp add: zc_usable_def)
  then obtain c' where "print (sourceSs g @ nl) ?s = Some (?s\<lparr>zc_calls := c', zc_written := zc_written ?s @ sourceSs g @ nl\<rparr>)"
    using print_total by blast
  then show ?thesis using s1 assms by (simp add: write_unit_def fresh_stream_def)
qed




text \<open>
  Without a module prefix the plugin fails and opens no file.  It explains the failure when the parameter is missing, but not when it is given
  with an empty value: then the error that protoc passed in is left as it was.
\<close>

theorem generate_without_prefix:
  assumes "fst (getModulePrefix parameter) = []"
  shows "Generate opens f parameter error =
    Some \<lparr>gr_ok = False, gr_error = (if find_sub ''module_prefix='' parameter = None then module_prefix_error else error), gr_files = []\<rparr>"
  using assms
  by (auto simp: Generate_def GenerateHeader_def GenerateServerHeader_def generate_unit_def getModulePrefix_def Let_def split: option.splits)

theorem generate_without_prefix_witness:
  "Generate (\<lambda>_. demo_stream) \<lparr>fd_name = ''a.proto'', fd_package = [], fd_services = []\<rparr> ''module_prefix=,x'' [] = Some \<lparr>gr_ok = False, gr_error = [], gr_files = []\<rparr>"
  using generate_without_prefix [of "''module_prefix=,x''" "\<lambda>_. demo_stream" "\<lparr>fd_name = ''a.proto'', fd_package = [], fd_services = []\<rparr>" "[]"] by (simp add: getModulePrefix_def)

end
