(* ===== verification/Rpc_Communicator.thy ===== *)
theory Rpc_Communicator
  imports Prelude
begin

text \<open>
  The RPC communicator (\<^verbatim>\<open>streamr-proto-rpc/modules\<close>): the errors (\<^verbatim>\<open>Errors.cppm\<close>), the registry of the methods a
  node serves (\<^verbatim>\<open>ServerRegistry.cppm\<close>), the server and the client half (\<^verbatim>\<open>RpcCommunicatorServerApi.cppm\<close>,
  \<^verbatim>\<open>RpcCommunicatorClientApi.cppm\<close>) and the communicator that joins them (\<^verbatim>\<open>RpcCommunicator.cppm\<close>).

  The coroutines are step machines: what runs between two suspension points, or under one lock, is one
  step, and the steps of all calls interleave freely.  Protobuf is a parameter: a message class is a record of what
  packing and unpacking its messages does.  The identifiers that \<^verbatim>\<open>Uuid::v4\<close> draws, the outcome of the callback that sends
  a message and the moment a timer fires are arguments of the steps.
\<close>

section \<open>Errors\<close>

datatype ErrorCode =
    RPC_TIMEOUT | RPC_REQUEST | RPC_SERVER_ERROR | RPC_CLIENT_ERROR | NOT_IMPLEMENTED | UNKNOWN_RPC_METHOD | FAILED_TO_PARSE
  | FAILED_TO_SERIALIZE

fun ErrorCode_name :: "ErrorCode \<Rightarrow> string" where
  "ErrorCode_name RPC_TIMEOUT = ''RPC_TIMEOUT''"
| "ErrorCode_name RPC_REQUEST = ''RPC_REQUEST''"
| "ErrorCode_name RPC_SERVER_ERROR = ''RPC_SERVER_ERROR''"
| "ErrorCode_name RPC_CLIENT_ERROR = ''RPC_CLIENT_ERROR''"
| "ErrorCode_name NOT_IMPLEMENTED = ''NOT_IMPLEMENTED''"
| "ErrorCode_name UNKNOWN_RPC_METHOD = ''UNKNOWN_RPC_METHOD''"
| "ErrorCode_name FAILED_TO_PARSE = ''FAILED_TO_PARSE''"
| "ErrorCode_name FAILED_TO_SERIALIZE = ''FAILED_TO_SERIALIZE''"

text \<open>The subclasses of \<^verbatim>\<open>Err\<close>: a message and the original error, if any; a server error has its class and code instead.\<close>

datatype RpcException =
    RpcTimeout string "string option"
  | RpcRequestError string "string option"
  | RpcServerError string string string
  | RpcClientError string "string option"
  | UnknownRpcMethod string "string option"
  | FailedToParse string "string option"
  | FailedToSerialize string "string option"

fun err_code :: "RpcException \<Rightarrow> ErrorCode" where
  "err_code (RpcTimeout _ _) = RPC_TIMEOUT"
| "err_code (RpcRequestError _ _) = RPC_REQUEST"
| "err_code (RpcServerError _ _ _) = RPC_SERVER_ERROR"
| "err_code (RpcClientError _ _) = RPC_CLIENT_ERROR"
| "err_code (UnknownRpcMethod _ _) = UNKNOWN_RPC_METHOD"
| "err_code (FailedToParse _ _) = FAILED_TO_PARSE"
| "err_code (FailedToSerialize _ _) = FAILED_TO_SERIALIZE"

definition createStringRepresentation :: "ErrorCode \<Rightarrow> string \<Rightarrow> string option \<Rightarrow> string" where
  "createStringRepresentation code message originalErrorInfo =
     ''code: '' @ ErrorCode_name code @ '', message: '' @ message @
     (case originalErrorInfo of None \<Rightarrow> '''' | Some info \<Rightarrow> '', originalErrorInfo: '' @ info)"

definition server_error_string :: "string \<Rightarrow> string \<Rightarrow> string \<Rightarrow> string" where
  "server_error_string errorMessage errorClassName errorCode =
     createStringRepresentation RPC_SERVER_ERROR errorMessage None @ '', errorClassName: '' @ errorClassName @ '', errorCode: '' @ errorCode"

fun err_what :: "RpcException \<Rightarrow> string" where
  "err_what (RpcServerError m cls code) = server_error_string m cls code"
| "err_what (RpcTimeout m i) = createStringRepresentation RPC_TIMEOUT m i"
| "err_what (RpcRequestError m i) = createStringRepresentation RPC_REQUEST m i"
| "err_what (RpcClientError m i) = createStringRepresentation RPC_CLIENT_ERROR m i"
| "err_what (UnknownRpcMethod m i) = createStringRepresentation UNKNOWN_RPC_METHOD m i"
| "err_what (FailedToParse m i) = createStringRepresentation FAILED_TO_PARSE m i"
| "err_what (FailedToSerialize m i) = createStringRepresentation FAILED_TO_SERIALIZE m i"

text \<open>What a piece of code can throw: one of these errors, any other standard exception (its class and text), or anything else.\<close>

datatype std_class = FutureTimeout | OperationCancelled | OtherStd string

datatype thrown = ThrownErr RpcException | ThrownStd std_class string | ThrownOther

section \<open>Messages\<close>

text \<open>\<^verbatim>\<open>google.protobuf.Any\<close>, and the enumeration of error types, which is open: a peer may send any number.\<close>

record any =
  anyTypeUrl :: string
  anyValue :: bytes

definition any_default :: any where
  "any_default = \<lparr>anyTypeUrl = [], anyValue = []\<rparr>"

datatype RpcErrorType = SERVER_TIMEOUT | CLIENT_TIMEOUT | UNKNOWN_METHOD | CLIENT_ERROR | SERVER_ERROR | Unrecognised int

record RpcMessage =
  rmHeader :: "(string, string) omap"
  rmBody :: "any option"
  rmRequestId :: string
  rmErrorType :: "RpcErrorType option"
  rmErrorClassName :: "string option"
  rmErrorCode :: "string option"
  rmErrorMessage :: "string option"

definition RpcMessage_default :: RpcMessage where
  "RpcMessage_default = \<lparr>rmHeader = [], rmBody = None, rmRequestId = [], rmErrorType = None, rmErrorClassName = None, rmErrorCode = None, rmErrorMessage = None\<rparr>"

abbreviation rm_body :: "RpcMessage \<Rightarrow> any" where
  "rm_body msg \<equiv> (case rmBody msg of None \<Rightarrow> any_default | Some b \<Rightarrow> b)"

text \<open>
  A generated message class: what \<^verbatim>\<open>PackFrom\<close> makes of a message, and what \<^verbatim>\<open>UnpackTo\<close> returns and leaves in a freshly made
  message.
\<close>

record 'm msg_type =
  mtPackFrom :: "'m \<Rightarrow> any"
  mtUnpackTo :: "any \<Rightarrow> bool \<times> 'm"

section \<open>The registry\<close>

text \<open>A handler maps a packed request and a call context to a packed response or a throw, and changes the state of the application.\<close>

type_synonym ('c, 's) handler = "any \<Rightarrow> 'c \<Rightarrow> 's \<Rightarrow> 's \<times> (thrown + any)"

record ('c, 's) rpc_registry =
  mMethods :: "(string, ('c, 's) handler \<times> nat) omap"
  mAsyncMethods :: "(string, ('c, 's) handler \<times> nat) omap"
  mNotifications :: "(string, ('c, 's) handler \<times> nat) omap"

definition registry_empty :: "('c, 's) rpc_registry" where
  "registry_empty = \<lparr>mMethods = [], mAsyncMethods = [], mNotifications = []\<rparr>"

definition getImplementation :: "RpcMessage \<Rightarrow> (string, 'h) omap \<Rightarrow> RpcException + 'h" where
  "getImplementation rpcMessage m =
     (case om_find (rmHeader rpcMessage) ''method'' of
        None \<Rightarrow> Inl (UnknownRpcMethod ''Header \"method\" missing from RPC message'' None)
      | Some method \<Rightarrow>
          (case om_find m method of
             None \<Rightarrow> Inl (UnknownRpcMethod (''RPC Method '' @ method @ '' is not provided'') None)
           | Some h \<Rightarrow> Inr h))"

text \<open>
  \<^verbatim>\<open>wrappedParseAny\<close> turns what \<^verbatim>\<open>UnpackTo\<close> throws into an error; \<^verbatim>\<open>UnpackTo\<close> reports a failure by its return value, which is
  dropped, and the handler goes on with what is in the message.
\<close>

definition wrappedParseAny :: "'m msg_type \<Rightarrow> any \<Rightarrow> 'm" where
  "wrappedParseAny t data = snd (mtUnpackTo t data)"

definition wrap_method :: "'q msg_type \<Rightarrow> 'r msg_type \<Rightarrow> ('q \<Rightarrow> 'c \<Rightarrow> 's \<Rightarrow> 's \<times> (thrown + 'r)) \<Rightarrow> ('c, 's) handler" where
  "wrap_method q r fn data callContext s =
     (case fn (wrappedParseAny q data) callContext s of
        (s1, Inl e) \<Rightarrow> (s1, Inl e)
      | (s1, Inr response) \<Rightarrow> (s1, Inr (mtPackFrom r response)))"

text \<open>A notification answers \<^verbatim>\<open>Empty\<close>, which nobody reads.\<close>

definition wrap_notification :: "'q msg_type \<Rightarrow> ('q \<Rightarrow> 'c \<Rightarrow> 's \<Rightarrow> 's \<times> (thrown + unit)) \<Rightarrow> ('c, 's) handler" where
  "wrap_notification q fn data callContext s =
     (case fn (wrappedParseAny q data) callContext s of (s1, Inl e) \<Rightarrow> (s1, Inl e) | (s1, Inr _) \<Rightarrow> (s1, Inr any_default))"

definition registerRpcMethod ::
  "'q msg_type \<Rightarrow> 'r msg_type \<Rightarrow> string \<Rightarrow> ('q \<Rightarrow> 'c \<Rightarrow> 's \<Rightarrow> 's \<times> (thrown + 'r)) \<Rightarrow> nat \<Rightarrow> ('c, 's) rpc_registry \<Rightarrow> ('c, 's) rpc_registry" where
  "registerRpcMethod q r name fn timeout reg = reg\<lparr>mMethods := om_put name (wrap_method q r fn, timeout) (mMethods reg)\<rparr>"

definition registerRpcMethodAsync ::
  "'q msg_type \<Rightarrow> 'r msg_type \<Rightarrow> string \<Rightarrow> ('q \<Rightarrow> 'c \<Rightarrow> 's \<Rightarrow> 's \<times> (thrown + 'r)) \<Rightarrow> nat \<Rightarrow> ('c, 's) rpc_registry \<Rightarrow> ('c, 's) rpc_registry" where
  "registerRpcMethodAsync q r name fn timeout reg =
     reg\<lparr>mAsyncMethods := om_put name (wrap_method q r fn, timeout) (mAsyncMethods reg)\<rparr>"

definition registerRpcNotification ::
  "'q msg_type \<Rightarrow> string \<Rightarrow> ('q \<Rightarrow> 'c \<Rightarrow> 's \<Rightarrow> 's \<times> (thrown + unit)) \<Rightarrow> nat \<Rightarrow> ('c, 's) rpc_registry \<Rightarrow> ('c, 's) rpc_registry" where
  "registerRpcNotification q name fn timeout reg =
     reg\<lparr>mNotifications := om_put name (wrap_notification q fn, timeout) (mNotifications reg)\<rparr>"

definition getAsyncHandler :: "('c, 's) rpc_registry \<Rightarrow> RpcMessage \<Rightarrow> ('c, 's) handler option" where
  "getAsyncHandler reg rpcMessage =
     (case om_find (rmHeader rpcMessage) ''method'' of
        None \<Rightarrow> None
      | Some method \<Rightarrow>
          (case om_find (mAsyncMethods reg) method of
             Some h \<Rightarrow> Some (fst h)
           | None \<Rightarrow> (case om_find (mMethods reg) method of Some h \<Rightarrow> Some (fst h) | None \<Rightarrow> None)))"

definition reg_handleRequest :: "('c, 's) rpc_registry \<Rightarrow> RpcMessage \<Rightarrow> 'c \<Rightarrow> 's \<Rightarrow> 's \<times> (thrown + any)" where
  "reg_handleRequest reg rpcMessage callContext s =
     (case getImplementation rpcMessage (mMethods reg) of
        Inl e \<Rightarrow> (s, Inl (ThrownErr e))
      | Inr h \<Rightarrow> fst h (rm_body rpcMessage) callContext s)"

definition reg_handleNotification :: "('c, 's) rpc_registry \<Rightarrow> RpcMessage \<Rightarrow> 'c \<Rightarrow> 's \<Rightarrow> 's \<times> (thrown + any)" where
  "reg_handleNotification reg rpcMessage callContext s =
     (case getImplementation rpcMessage (mNotifications reg) of
        Inl e \<Rightarrow> (s, Inl (ThrownErr e))
      | Inr h \<Rightarrow> fst h (rm_body rpcMessage) callContext s)"

section \<open>The server half\<close>

text \<open>
  What ends the process: \<^verbatim>\<open>Map::at\<close> of protobuf aborts on a missing key, a scope must not be given a task once it is being joined, and
  a null pointer must not be dereferenced.
\<close>

datatype fatal = KeyNotFound string | AddAfterJoin | NullDereference

record RpcResponseParams =
  rpRequest :: RpcMessage
  rpBody :: "any option"
  rpErrorType :: "RpcErrorType option"
  rpErrorClassName :: "string option"
  rpErrorCode :: "string option"
  rpErrorMessage :: "string option"

definition params_for :: "RpcMessage \<Rightarrow> RpcResponseParams" where
  "params_for request =
     \<lparr>rpRequest = request, rpBody = None, rpErrorType = None, rpErrorClassName = None, rpErrorCode = None, rpErrorMessage = None\<rparr>"

definition createResponseRpcMessage :: "RpcResponseParams \<Rightarrow> fatal + RpcMessage" where
  "createResponseRpcMessage params =
     (case om_find (rmHeader (rpRequest params)) ''method'' of
        None \<Rightarrow> Inl (KeyNotFound ''method'')
      | Some method \<Rightarrow>
          Inr \<lparr>rmHeader = om_emplace ''method'' method (om_emplace ''response'' ''response'' []), rmBody = rpBody params,
               rmRequestId = rmRequestId (rpRequest params), rmErrorType = rpErrorType params,
               rmErrorClassName = rpErrorClassName params, rmErrorCode = rpErrorCode params, rmErrorMessage = rpErrorMessage params\<rparr>)"

text \<open>The response to a throw; \<open>typeName\<close> is \<^verbatim>\<open>typeid(err).name()\<close>.\<close>

fun error_params :: "(thrown \<Rightarrow> string) \<Rightarrow> RpcMessage \<Rightarrow> thrown \<Rightarrow> RpcResponseParams" where
  "error_params typeName request (ThrownErr err) =
     (if err_code err = UNKNOWN_RPC_METHOD then (params_for request)\<lparr>rpErrorType := Some UNKNOWN_METHOD\<rparr>
      else if err_code err = RPC_TIMEOUT then (params_for request)\<lparr>rpErrorType := Some SERVER_TIMEOUT\<rparr>
      else (params_for request)\<lparr>rpErrorType := Some SERVER_ERROR, rpErrorClassName := Some (typeName (ThrownErr err)),
              rpErrorCode := Some (ErrorCode_name (err_code err)), rpErrorMessage := Some (err_what err)\<rparr>)"
| "error_params typeName request (ThrownStd cls what) =
     (params_for request)\<lparr>rpErrorType := Some SERVER_ERROR, rpErrorClassName := Some (typeName (ThrownStd cls what)),
        rpErrorCode := Some (ErrorCode_name RPC_SERVER_ERROR), rpErrorMessage := Some what\<rparr>"
| "error_params typeName request ThrownOther =
     (params_for request)\<lparr>rpErrorType := Some SERVER_ERROR, rpErrorCode := Some (ErrorCode_name RPC_SERVER_ERROR)\<rparr>"

definition unknown_method_error :: "RpcMessage \<Rightarrow> thrown" where
  "unknown_method_error rpcMessage =
     ThrownErr (UnknownRpcMethod (''RPC Method '' @
       (case om_find (rmHeader rpcMessage) ''method'' of Some m \<Rightarrow> m | None \<Rightarrow> ''<missing>'') @ '' is not provided'') None)"

definition makeResponseTask ::
  "(thrown \<Rightarrow> string) \<Rightarrow> ('c, 's) handler option \<Rightarrow> RpcMessage \<Rightarrow> 'c \<Rightarrow> 's \<Rightarrow> 's \<times> (fatal + RpcMessage)" where
  "makeResponseTask typeName handler rpcMessage callContext s =
     (case (case handler of None \<Rightarrow> (s, Inl (unknown_method_error rpcMessage)) | Some h \<Rightarrow> h (rm_body rpcMessage) callContext s) of
        (s1, Inr bytes) \<Rightarrow> (s1, createResponseRpcMessage ((params_for rpcMessage)\<lparr>rpBody := Some bytes\<rparr>))
      | (s1, Inl err) \<Rightarrow> (s1, createResponseRpcMessage (error_params typeName rpcMessage err)))"

text \<open>
  The server: the scope holds the response tasks that have not run.  They are started in order by a serial executor; a handler that
  suspends lets later ones overtake it, so that any task may be the next to finish.
\<close>

record ('c, 's) server =
  svRegistry :: "('c, 's) rpc_registry"
  svHasCallback :: bool
  svTasks :: "(('c, 's) handler option \<times> RpcMessage \<times> 'c) list"
  svDrained :: bool

definition server_new :: "('c, 's) server" where
  "server_new = \<lparr>svRegistry = registry_empty, svHasCallback = False, svTasks = [], svDrained = False\<rparr>"

definition sv_handleRequest :: "('c, 's) server \<Rightarrow> RpcMessage \<Rightarrow> 'c \<Rightarrow> ('c, 's) server" where
  "sv_handleRequest sv rpcMessage callContext =
     (if svDrained sv then sv
      else sv\<lparr>svTasks := svTasks sv @ [(getAsyncHandler (svRegistry sv) rpcMessage, rpcMessage, callContext)]\<rparr>)"

text \<open>Only standard exceptions are caught; the second component is what escapes.\<close>

definition sv_handleNotification :: "('c, 's) server \<Rightarrow> RpcMessage \<Rightarrow> 'c \<Rightarrow> 's \<Rightarrow> 's \<times> thrown option" where
  "sv_handleNotification sv rpcMessage callContext s =
     (case reg_handleNotification (svRegistry sv) rpcMessage callContext s of
        (s1, Inl ThrownOther) \<Rightarrow> (s1, Some ThrownOther)
      | (s1, _) \<Rightarrow> (s1, None))"

definition has_header :: "RpcMessage \<Rightarrow> string \<Rightarrow> bool" where
  "has_header rpcMessage key \<longleftrightarrow> om_contains (rmHeader rpcMessage) key"

definition sv_onIncomingMessage :: "('c, 's) server \<Rightarrow> RpcMessage \<Rightarrow> 'c \<Rightarrow> 's \<Rightarrow> ('c, 's) server \<times> 's \<times> thrown option" where
  "sv_onIncomingMessage sv rpcMessage callContext s =
     (if has_header rpcMessage ''request'' \<and> has_header rpcMessage ''method''
      then (if has_header rpcMessage ''notification''
            then (case sv_handleNotification sv rpcMessage callContext s of (s1, e) \<Rightarrow> (sv, s1, e))
            else (sv_handleRequest sv rpcMessage callContext, s, None))
      else (sv, s, None))"

text \<open>One response task runs to its end: what it hands to the callback (whose standard exceptions are swallowed).\<close>

definition sv_runTask ::
  "(thrown \<Rightarrow> string) \<Rightarrow> ('c, 's) server \<Rightarrow> nat \<Rightarrow> 's \<Rightarrow> fatal + (('c, 's) server \<times> 's \<times> (RpcMessage \<times> string \<times> 'c) option)" where
  "sv_runTask typeName sv j s =
     (if j < length (svTasks sv)
      then (case svTasks sv ! j of
              (handler, rpcMessage, callContext) \<Rightarrow>
                (case makeResponseTask typeName handler rpcMessage callContext s of
                   (s1, Inl f) \<Rightarrow> Inl f
                 | (s1, Inr response) \<Rightarrow>
                     Inr (sv\<lparr>svTasks := take j (svTasks sv) @ drop (Suc j) (svTasks sv)\<rparr>, s1,
                          if svHasCallback sv then Some (response, rmRequestId response, callContext) else None)))
      else Inr (sv, s, None))"

definition sv_drain :: "('c, 's) server \<Rightarrow> ('c, 's) server" where
  "sv_drain sv = sv\<lparr>svDrained := True\<rparr>"

definition sv_pendingTaskCount :: "('c, 's) server \<Rightarrow> nat" where
  "sv_pendingTaskCount sv = length (svTasks sv)"

section \<open>The client half\<close>

text \<open>
  A call: its request message, and the state of the three parties to it: the promise of the ongoing request (every settlement it
  has received, none before it is settled), the task of the scope that sends the request and waits for the promise with a timeout, and
  the caller that waits for the task.
\<close>

datatype 'm settlement = SetValue 'm | SetException RpcException

datatype 'm outcome = Returns 'm | Throws thrown

datatype 'm task = NotStarted | Queued | Sending | Awaiting | Finished "'m outcome"

record ('c, 'm) call =
  caMessage :: RpcMessage
  caContext :: 'c
  caType :: "'m msg_type"
  caTimeout :: millis
  caPromise :: "'m settlement list"
  caTask :: "'m task"
  caCaller :: "'m outcome option"

abbreviation caId :: "('c, 'm) call \<Rightarrow> string" where
  "caId c \<equiv> rmRequestId (caMessage c)"

text \<open>A notification: the task that sends it, and the caller that waits for the task.\<close>

record 'c notice =
  noMessage :: RpcMessage
  noContext :: 'c
  noTask :: "(thrown + unit) option"
  noCaller :: "(thrown + unit) option"

record ('c, 'm) client =
  clOngoing :: "(string, nat) omap"
  clCalls :: "('c, 'm) call list"
  clNotices :: "'c notice list"
  clTimeout :: millis
  clHasCallback :: bool
  clDrained :: bool
  clSent :: "(RpcMessage \<times> string \<times> 'c) list"

definition client_new :: "millis \<Rightarrow> ('c, 'm) client" where
  "client_new rpcRequestTimeout =
     \<lparr>clOngoing = [], clCalls = [], clNotices = [], clTimeout = rpcRequestTimeout, clHasCallback = False, clDrained = False, clSent = []\<rparr>"

definition createRequestRpcMessage :: "string \<Rightarrow> any \<Rightarrow> bool \<Rightarrow> string \<Rightarrow> RpcMessage" where
  "createRequestRpcMessage methodName body notification uuid =
     RpcMessage_default\<lparr>
       rmHeader := (let h = om_emplace ''method'' methodName (om_emplace ''request'' ''request'' [])
                    in if notification then om_emplace ''notification'' ''notification'' h else h),
       rmBody := Some body, rmRequestId := uuid\<rparr>"

definition set_call :: "('c, 'm) client \<Rightarrow> nat \<Rightarrow> (('c, 'm) call \<Rightarrow> ('c, 'm) call) \<Rightarrow> ('c, 'm) client" where
  "set_call cl i f = cl\<lparr>clCalls := (clCalls cl)[i := f (clCalls cl ! i)]\<rparr>"

definition erase_ongoing :: "string \<Rightarrow> ('c, 'm) client \<Rightarrow> ('c, 'm) client" where
  "erase_ongoing requestId cl = cl\<lparr>clOngoing := om_erase requestId (clOngoing cl)\<rparr>"

definition settle :: "('c, 'm) client \<Rightarrow> nat \<Rightarrow> 'm settlement \<Rightarrow> ('c, 'm) client" where
  "settle cl i r = set_call cl i (\<lambda>c. c\<lparr>caPromise := caPromise c @ [r]\<rparr>)"

text \<open>\<^verbatim>\<open>resolvePromise\<close> expects \<^verbatim>\<open>UnpackTo\<close> to throw; its return value is dropped.\<close>

definition resolvePromise :: "'m msg_type \<Rightarrow> RpcMessage \<Rightarrow> 'm settlement" where
  "resolvePromise t response = SetValue (snd (mtUnpackTo t (rm_body response)))"

definition resolveOngoingRequest :: "('c, 'm) client \<Rightarrow> RpcMessage \<Rightarrow> nat \<Rightarrow> ('c, 'm) client" where
  "resolveOngoingRequest cl response i =
     erase_ongoing (rmRequestId response) (settle cl i (resolvePromise (caType (clCalls cl ! i)) response))"

definition rejection :: "RpcMessage \<Rightarrow> fatal + RpcException" where
  "rejection response =
     (case rmErrorType response of
        Some SERVER_TIMEOUT \<Rightarrow> Inr (RpcTimeout ''Server timed out on request'' None)
      | Some UNKNOWN_METHOD \<Rightarrow>
          (case om_find (rmHeader response) ''method'' of
             None \<Rightarrow> Inl (KeyNotFound ''method'')
           | Some m \<Rightarrow> Inr (UnknownRpcMethod (''Server does not implement method '' @ m) None))
      | Some SERVER_ERROR \<Rightarrow>
          Inr (RpcServerError (case rmErrorMessage response of Some x \<Rightarrow> x | None \<Rightarrow> '''')
                 (case rmErrorClassName response of Some x \<Rightarrow> x | None \<Rightarrow> '''') (case rmErrorCode response of Some x \<Rightarrow> x | None \<Rightarrow> ''''))
      | _ \<Rightarrow> Inr (RpcRequestError ''Unknown RPC Error'' None))"

definition rejectOngoingRequest :: "('c, 'm) client \<Rightarrow> RpcMessage \<Rightarrow> nat \<Rightarrow> fatal + ('c, 'm) client" where
  "rejectOngoingRequest cl response i =
     (case rejection response of
        Inl f \<Rightarrow> Inl f
      | Inr e \<Rightarrow> Inr (erase_ongoing (rmRequestId response) (settle cl i (SetException e))))"

definition cl_onIncomingMessage :: "('c, 'm) client \<Rightarrow> RpcMessage \<Rightarrow> fatal + ('c, 'm) client" where
  "cl_onIncomingMessage cl rpcMessage =
     (if has_header rpcMessage ''response''
      then (case om_find (clOngoing cl) (rmRequestId rpcMessage) of
              Some i \<Rightarrow>
                (if rmErrorType rpcMessage \<noteq> None then rejectOngoingRequest cl rpcMessage i
                 else Inr (resolveOngoingRequest cl rpcMessage i))
            | None \<Rightarrow> Inr cl)
      else Inr cl)"

definition cl_handleClientError :: "('c, 'm) client \<Rightarrow> string \<Rightarrow> RpcException \<Rightarrow> ('c, 'm) client" where
  "cl_handleClientError cl requestId error =
     (case om_find (clOngoing cl) requestId of
        Some i \<Rightarrow> erase_ongoing requestId (settle cl i (SetException error))
      | None \<Rightarrow> cl)"

definition cl_ongoingIds :: "('c, 'm) client \<Rightarrow> ('c \<Rightarrow> bool) \<Rightarrow> string list" where
  "cl_ongoingIds cl predicate = map fst (filter (\<lambda>(k, i). predicate (caContext (clCalls cl ! i))) (clOngoing cl))"

text \<open>\<^verbatim>\<open>request\<close> checks the drain at once and returns a lazy task: the index of the call.\<close>

definition request ::
  "('c, 'm) client \<Rightarrow> string \<Rightarrow> any \<Rightarrow> 'c \<Rightarrow> 'm msg_type \<Rightarrow> millis option \<Rightarrow> string \<Rightarrow> thrown + (('c, 'm) client \<times> nat)" where
  "request cl methodName body callContext t timeout uuid =
     (if clDrained cl
      then Inl (ThrownErr (RpcClientError (''request() called on a drained RpcCommunicator: '' @ methodName) None))
      else Inr (cl\<lparr>clCalls := clCalls cl @ [\<lparr>caMessage = createRequestRpcMessage methodName body False uuid, caContext = callContext,
                     caType = t, caTimeout = (case timeout of Some ms \<Rightarrow> ms | None \<Rightarrow> clTimeout cl),
                     caPromise = [], caTask = NotStarted, caCaller = None\<rparr>]\<rparr>, length (clCalls cl)))"

text \<open>The caller awaits the lazy task, which is what adds the work to the scope.\<close>

definition request_start :: "('c, 'm) client \<Rightarrow> nat \<Rightarrow> fatal + ('c, 'm) client" where
  "request_start cl i =
     (if i < length (clCalls cl) \<and> caTask (clCalls cl ! i) = NotStarted
      then (if clDrained cl then Inl AddAfterJoin else Inr (set_call cl i (\<lambda>c. c\<lparr>caTask := Queued\<rparr>)))
      else Inr cl)"

text \<open>\<^verbatim>\<open>makeRpcRequest\<close> up to the callback, which may deliver the response before it returns, and after it.\<close>

definition makeRpcRequest_begin :: "('c, 'm) client \<Rightarrow> nat \<Rightarrow> ('c, 'm) client" where
  "makeRpcRequest_begin cl i =
     (if i < length (clCalls cl) \<and> caTask (clCalls cl ! i) = Queued
      then (let c = clCalls cl ! i; cl1 = cl\<lparr>clOngoing := om_emplace (caId c) i (clOngoing cl)\<rparr>
            in set_call (if clHasCallback cl then cl1\<lparr>clSent := clSent cl @ [(caMessage c, caId c, caContext c)]\<rparr> else cl1) i
                 (\<lambda>c. c\<lparr>caTask := Sending\<rparr>))
      else cl)"

definition callback_error :: "string \<Rightarrow> RpcException" where
  "callback_error what = RpcClientError ''Error when calling outgoing message callback from client'' (Some what)"

fun thrown_what :: "thrown \<Rightarrow> string" where
  "thrown_what (ThrownErr e) = err_what e"
| "thrown_what (ThrownStd cls w) = w"
| "thrown_what ThrownOther = ''''"

text \<open>\<open>outcome\<close> is how the callback ended; an exception that is not a standard one leaves the task.\<close>

definition makeRpcRequest_end :: "('c, 'm) client \<Rightarrow> nat \<Rightarrow> thrown option \<Rightarrow> ('c, 'm) client" where
  "makeRpcRequest_end cl i outcome =
     (if i < length (clCalls cl) \<and> caTask (clCalls cl ! i) = Sending
      then (case (if clHasCallback cl then outcome else None) of
              None \<Rightarrow> set_call cl i (\<lambda>c. c\<lparr>caTask := Awaiting\<rparr>)
            | Some ThrownOther \<Rightarrow> set_call cl i (\<lambda>c. c\<lparr>caTask := Finished (Throws ThrownOther)\<rparr>)
            | Some e \<Rightarrow>
                set_call (cl_handleClientError cl (caId (clCalls cl ! i)) (callback_error (thrown_what e))) i
                  (\<lambda>c. c\<lparr>caTask := Awaiting\<rparr>))
      else cl)"

fun settled_outcome :: "'m settlement \<Rightarrow> 'm outcome" where
  "settled_outcome (SetValue v) = Returns v"
| "settled_outcome (SetException e) = Throws (ThrownErr e)"

text \<open>The task resumes because the promise is settled, because its timer has fired, or because the scope has been cancelled.\<close>

definition request_wake :: "('c, 'm) client \<Rightarrow> nat \<Rightarrow> ('c, 'm) client" where
  "request_wake cl i =
     (if i < length (clCalls cl) \<and> caTask (clCalls cl ! i) = Awaiting \<and> caPromise (clCalls cl ! i) \<noteq> []
      then set_call cl i (\<lambda>c. c\<lparr>caTask := Finished (settled_outcome (hd (caPromise c)))\<rparr>)
      else cl)"

definition request_timer :: "('c, 'm) client \<Rightarrow> nat \<Rightarrow> millis \<Rightarrow> string \<Rightarrow> ('c, 'm) client" where
  "request_timer cl i elapsed what =
     (if i < length (clCalls cl) \<and> caTask (clCalls cl ! i) = Awaiting \<and> caTimeout (clCalls cl ! i) \<le> elapsed
      then set_call cl i (\<lambda>c. c\<lparr>caTask := Finished (Throws (ThrownStd FutureTimeout what))\<rparr>)
      else cl)"

definition request_cancelled :: "('c, 'm) client \<Rightarrow> nat \<Rightarrow> string \<Rightarrow> ('c, 'm) client" where
  "request_cancelled cl i what =
     (if i < length (clCalls cl) \<and> caTask (clCalls cl ! i) = Awaiting \<and> clDrained cl
      then set_call cl i (\<lambda>c. c\<lparr>caTask := Finished (Throws (ThrownStd OperationCancelled what))\<rparr>)
      else cl)"

definition rpc_timed_out :: thrown where
  "rpc_timed_out = ThrownErr (RpcTimeout ''request() timed out'' None)"

definition is_future_timeout :: "thrown \<Rightarrow> bool" where
  "is_future_timeout e \<longleftrightarrow> (case e of ThrownStd FutureTimeout w \<Rightarrow> True | _ \<Rightarrow> False)"

text \<open>The caller resumes with what the task has ended with, or because it is itself cancelled; every throw erases the entry.\<close>

definition request_resume :: "('c, 'm) client \<Rightarrow> nat \<Rightarrow> ('c, 'm) client" where
  "request_resume cl i =
     (if i < length (clCalls cl) \<and> caCaller (clCalls cl ! i) = None
      then (case caTask (clCalls cl ! i) of
              Finished (Returns v) \<Rightarrow> set_call cl i (\<lambda>c. c\<lparr>caCaller := Some (Returns v)\<rparr>)
            | Finished (Throws e) \<Rightarrow>
                erase_ongoing (caId (clCalls cl ! i))
                  (set_call cl i (\<lambda>c. c\<lparr>caCaller := Some (Throws (if is_future_timeout e then rpc_timed_out else e))\<rparr>))
            | _ \<Rightarrow> cl)
      else cl)"

definition request_abandon :: "('c, 'm) client \<Rightarrow> nat \<Rightarrow> string \<Rightarrow> ('c, 'm) client" where
  "request_abandon cl i what =
     (if i < length (clCalls cl) \<and> caCaller (clCalls cl ! i) = None \<and> caTask (clCalls cl ! i) \<noteq> NotStarted
      then erase_ongoing (caId (clCalls cl ! i))
             (set_call cl i (\<lambda>c. c\<lparr>caCaller := Some (Throws (ThrownStd OperationCancelled what))\<rparr>))
      else cl)"

text \<open>\<^verbatim>\<open>notify\<close>, its task and its caller.  A callback that has not been set throws \<^verbatim>\<open>std::bad_function_call\<close>.\<close>

definition notify :: "('c, 'm) client \<Rightarrow> string \<Rightarrow> any \<Rightarrow> 'c \<Rightarrow> string \<Rightarrow> thrown + (('c, 'm) client \<times> nat)" where
  "notify cl notificationName body callContext uuid =
     (if clDrained cl
      then Inl (ThrownErr (RpcClientError (''notify() called on a drained RpcCommunicator: '' @ notificationName) None))
      else Inr (cl\<lparr>clNotices := clNotices cl @ [\<lparr>noMessage = createRequestRpcMessage notificationName body True uuid,
                     noContext = callContext, noTask = None, noCaller = None\<rparr>]\<rparr>, length (clNotices cl)))"

definition notify_error :: "string \<Rightarrow> RpcException" where
  "notify_error what = RpcClientError ''Error when calling outgoing message callback from client for sending notification'' (Some what)"

definition set_notice :: "('c, 'm) client \<Rightarrow> nat \<Rightarrow> ('c notice \<Rightarrow> 'c notice) \<Rightarrow> ('c, 'm) client" where
  "set_notice cl j f = cl\<lparr>clNotices := (clNotices cl)[j := f (clNotices cl ! j)]\<rparr>"

definition notify_run :: "('c, 'm) client \<Rightarrow> nat \<Rightarrow> thrown option \<Rightarrow> string \<Rightarrow> ('c, 'm) client" where
  "notify_run cl j outcome bad_call =
     (if j < length (clNotices cl) \<and> noTask (clNotices cl ! j) = None
      then (let n = clNotices cl ! j;
                cl1 = (if clHasCallback cl then cl\<lparr>clSent := clSent cl @ [(noMessage n, rmRequestId (noMessage n), noContext n)]\<rparr> else cl);
                result = (if \<not> clHasCallback cl then Inl (ThrownErr (notify_error bad_call))
                          else case outcome of
                                 None \<Rightarrow> Inr ()
                               | Some ThrownOther \<Rightarrow> Inl (ThrownStd (OtherStd ''BrokenPromise'') '''')
                               | Some e \<Rightarrow> Inl (ThrownErr (notify_error (thrown_what e))))
            in set_notice cl1 j (\<lambda>n. n\<lparr>noTask := Some result\<rparr>))
      else cl)"

definition notify_resume :: "('c, 'm) client \<Rightarrow> nat \<Rightarrow> bool \<Rightarrow> ('c, 'm) client" where
  "notify_resume cl j timerFired =
     (if j < length (clNotices cl) \<and> noCaller (clNotices cl ! j) = None
      then (if timerFired then set_notice cl j (\<lambda>n. n\<lparr>noCaller := Some (Inl (ThrownErr (RpcTimeout ''notify() timed out'' None)))\<rparr>)
            else case noTask (clNotices cl ! j) of
                   None \<Rightarrow> cl
                 | Some r \<Rightarrow> set_notice cl j (\<lambda>n. n\<lparr>noCaller := Some r\<rparr>))
      else cl)"

definition cl_drain :: "('c, 'm) client \<Rightarrow> ('c, 'm) client" where
  "cl_drain cl = cl\<lparr>clDrained := True\<rparr>"

definition task_pending :: "'m task \<Rightarrow> bool" where
  "task_pending t \<longleftrightarrow> (case t of Queued \<Rightarrow> True | Sending \<Rightarrow> True | Awaiting \<Rightarrow> True | _ \<Rightarrow> False)"

definition cl_pendingTaskCount :: "('c, 'm) client \<Rightarrow> nat" where
  "cl_pendingTaskCount cl =
     length (filter (\<lambda>c. task_pending (caTask c)) (clCalls cl)) + length (filter (\<lambda>n. noTask n = None) (clNotices cl))"

section \<open>The communicator\<close>

record ('c, 's, 'm) communicator =
  coClient :: "('c, 'm) client"
  coServer :: "('c, 's) server"

definition defaultRpcRequestTimeout :: millis where
  "defaultRpcRequestTimeout = 5000"

definition communicator_new :: "millis option \<Rightarrow> ('c, 's, 'm) communicator" where
  "communicator_new rpcRequestTimeout =
     \<lparr>coClient = client_new (case rpcRequestTimeout of Some t \<Rightarrow> t | None \<Rightarrow> defaultRpcRequestTimeout), coServer = server_new\<rparr>"

definition co_setOutgoingMessageCallback :: "('c, 's, 'm) communicator \<Rightarrow> ('c, 's, 'm) communicator" where
  "co_setOutgoingMessageCallback co =
     co\<lparr>coClient := (coClient co)\<lparr>clHasCallback := True\<rparr>, coServer := (coServer co)\<lparr>svHasCallback := True\<rparr>\<rparr>"

definition co_onIncomingMessage ::
  "('c, 's, 'm) communicator \<Rightarrow> RpcMessage \<Rightarrow> 'c \<Rightarrow> 's \<Rightarrow> fatal + (('c, 's, 'm) communicator \<times> 's \<times> thrown option)" where
  "co_onIncomingMessage co rpcMessage callContext s =
     (if has_header rpcMessage ''response''
      then (case cl_onIncomingMessage (coClient co) rpcMessage of
              Inl f \<Rightarrow> Inl f
            | Inr cl \<Rightarrow> Inr (co\<lparr>coClient := cl\<rparr>, s, None))
      else if has_header rpcMessage ''request'' \<and> has_header rpcMessage ''method''
      then (case sv_onIncomingMessage (coServer co) rpcMessage callContext s of
              (sv, s1, e) \<Rightarrow> Inr (co\<lparr>coServer := sv\<rparr>, s1, e))
      else Inr (co, s, None))"

definition co_drainAsyncTasks :: "('c, 's, 'm) communicator \<Rightarrow> ('c, 's, 'm) communicator" where
  "co_drainAsyncTasks co = co\<lparr>coClient := cl_drain (coClient co), coServer := sv_drain (coServer co)\<rparr>"

definition co_pendingAsyncTaskCount :: "('c, 's, 'm) communicator \<Rightarrow> nat" where
  "co_pendingAsyncTaskCount co = cl_pendingTaskCount (coClient co) + sv_pendingTaskCount (coServer co)"

section \<open>Runs of the client\<close>

datatype ('c, 'm) rpc_event =
    Request string any 'c "'m msg_type" "millis option" string
  | Start nat
  | SendBegin nat
  | SendEnd nat "thrown option"
  | Incoming RpcMessage
  | ClientError string RpcException
  | Wake nat
  | Timer nat millis string
  | ScopeCancelled nat string
  | Resume nat
  | Abandon nat string
  | Notify string any 'c string
  | NotifyRun nat "thrown option" string
  | NotifyResume nat bool
  | Drain

fun cl_step :: "('c, 'm) client \<Rightarrow> ('c, 'm) rpc_event \<Rightarrow> fatal + ('c, 'm) client" where
  "cl_step cl (Request name body ctx t timeout uuid) = (case request cl name body ctx t timeout uuid of Inl _ \<Rightarrow> Inr cl | Inr (cl1, _) \<Rightarrow> Inr cl1)"
| "cl_step cl (Start i) = request_start cl i"
| "cl_step cl (SendBegin i) = Inr (makeRpcRequest_begin cl i)"
| "cl_step cl (SendEnd i e) = Inr (makeRpcRequest_end cl i e)"
| "cl_step cl (Incoming msg) = cl_onIncomingMessage cl msg"
| "cl_step cl (ClientError rid e) = Inr (cl_handleClientError cl rid e)"
| "cl_step cl (Wake i) = Inr (request_wake cl i)"
| "cl_step cl (Timer i ms w) = Inr (request_timer cl i ms w)"
| "cl_step cl (ScopeCancelled i w) = Inr (request_cancelled cl i w)"
| "cl_step cl (Resume i) = Inr (request_resume cl i)"
| "cl_step cl (Abandon i w) = Inr (request_abandon cl i w)"
| "cl_step cl (Notify name body ctx uuid) = (case notify cl name body ctx uuid of Inl _ \<Rightarrow> Inr cl | Inr (cl1, _) \<Rightarrow> Inr cl1)"
| "cl_step cl (NotifyRun j e w) = Inr (notify_run cl j e w)"
| "cl_step cl (NotifyResume j b) = Inr (notify_resume cl j b)"
| "cl_step cl Drain = Inr (cl_drain cl)"

text \<open>\<^verbatim>\<open>Uuid::v4\<close> is taken not to repeat an identifier.\<close>

fun fresh_id :: "('c, 'm) client \<Rightarrow> ('c, 'm) rpc_event \<Rightarrow> bool" where
  "fresh_id cl (Request name body ctx t timeout uuid) \<longleftrightarrow> uuid \<notin> set (map caId (clCalls cl))"
| "fresh_id cl _ \<longleftrightarrow> True"

inductive cl_reach :: "millis \<Rightarrow> bool \<Rightarrow> ('c, 'm) client \<Rightarrow> bool" for ms hasCallback where
  reach_new: "cl_reach ms hasCallback ((client_new ms)\<lparr>clHasCallback := hasCallback\<rparr>)"
| reach_step: "cl_reach ms hasCallback cl \<Longrightarrow> fresh_id cl e \<Longrightarrow> cl_step cl e = Inr cl1 \<Longrightarrow> cl_reach ms hasCallback cl1"

fun cl_run :: "('c, 'm) client \<Rightarrow> ('c, 'm) rpc_event list \<Rightarrow> fatal + ('c, 'm) client" where
  "cl_run cl [] = Inr cl"
| "cl_run cl (e # es) = (case cl_step cl e of Inl f \<Rightarrow> Inl f | Inr cl1 \<Rightarrow> cl_run cl1 es)"

end
