(* ===== verification/Rpc_Communicator_Correct.thy ===== *)
theory Rpc_Communicator_Correct
  imports Rpc_Communicator
begin

text \<open>
  Correctness of the RPC communicator: the invariant of the client half over every interleaving of its coroutines (a promise is
  settled at most once, and only by the answer to its own request), the end of every call, and the way a request takes through the
  server and back.
\<close>

section \<open>The invariant of the client\<close>

text \<open>What a call may look like, given whether the table of ongoing requests has an entry for it.\<close>

definition call_ok :: "('c, 'm) call \<Rightarrow> bool \<Rightarrow> bool" where
  "call_ok c entry \<longleftrightarrow>
     length (caPromise c) \<le> 1 \<and>
     (entry \<longrightarrow> caPromise c = [] \<and> caTask c \<notin> {NotStarted, Queued}) \<and>
     (caTask c \<in> {NotStarted, Queued} \<longrightarrow> caPromise c = []) \<and>
     (caTask c \<in> {Sending, Awaiting} \<and> caCaller c = None \<and> caPromise c = [] \<longrightarrow> entry) \<and>
     (\<forall>v. caTask c = Finished (Returns v) \<longrightarrow> caPromise c = [SetValue v]) \<and>
     (\<forall>e. caTask c = Finished (Throws (ThrownErr e)) \<longrightarrow> caPromise c = [SetException e]) \<and>
     (\<forall>out. caCaller c = Some out \<longrightarrow>
        (\<exists>w. out = Throws (ThrownStd OperationCancelled w)) \<or>
        \<not> entry \<and> (\<exists>o1. caTask c = Finished o1 \<and>
           (out = o1 \<or> (\<exists>w. o1 = Throws (ThrownStd FutureTimeout w)) \<and> out = Throws rpc_timed_out)))"

definition cl_inv :: "('c, 'm) client \<Rightarrow> bool" where
  "cl_inv cl \<longleftrightarrow>
     om_ok (clOngoing cl) \<and> distinct (map caId (clCalls cl)) \<and>
     (\<forall>k i. om_find (clOngoing cl) k = Some i \<longrightarrow> i < length (clCalls cl) \<and> k = caId (clCalls cl ! i)) \<and>
     (\<forall>i < length (clCalls cl). call_ok (clCalls cl ! i) (om_find (clOngoing cl) (caId (clCalls cl ! i)) \<noteq> None))"

lemma id_inj: "cl_inv cl \<Longrightarrow> i < length (clCalls cl) \<Longrightarrow> j < length (clCalls cl) \<Longrightarrow> caId (clCalls cl ! i) = caId (clCalls cl ! j) \<longleftrightarrow> i = j"
  by (auto simp: cl_inv_def distinct_conv_nth)

text \<open>One call changes, and the table only at its identifier.\<close>

lemma cl_inv_update:
  assumes inv: "cl_inv cl" and i: "i < length (clCalls cl)"
    and calls: "clCalls cl1 = (clCalls cl)[i := c]" and id: "caMessage c = caMessage (clCalls cl ! i)"
    and table: "om_ok (clOngoing cl1)" "\<And>k. k \<noteq> caId c \<Longrightarrow> om_find (clOngoing cl1) k = om_find (clOngoing cl) k"
    and entry: "om_find (clOngoing cl1) (caId c) \<in> {None, Some i}"
    and ok: "call_ok c (om_find (clOngoing cl1) (caId c) \<noteq> None)"
  shows "cl_inv cl1"
proof -
  have ids: "caId (clCalls cl1 ! j) = caId (clCalls cl ! j)" if "j < length (clCalls cl)" for j
    using that by (cases "j = i") (simp_all add: calls id)
  have "map caId (clCalls cl1) = map caId (clCalls cl)" using ids by (intro nth_equalityI) (simp_all add: calls)
  moreover have "j < length (clCalls cl1) \<and> k = caId (clCalls cl1 ! j)" if "om_find (clOngoing cl1) k = Some j" for k j
  proof (cases "k = caId c")
    case True
    then show ?thesis using that entry i by (simp add: calls id)
  next
    case False
    then have "om_find (clOngoing cl) k = Some j" using that table(2) by simp
    then show ?thesis using inv ids by (simp add: cl_inv_def calls)
  qed
  moreover have "call_ok (clCalls cl1 ! j) (om_find (clOngoing cl1) (caId (clCalls cl1 ! j)) \<noteq> None)" if "j < length (clCalls cl1)" for j
  proof (cases "j = i")
    case True
    then show ?thesis using ok i by (simp add: calls)
  next
    case False
    then have "caId (clCalls cl ! j) \<noteq> caId c" using id_inj [OF inv, of j i] that i by (simp add: calls id)
    then show ?thesis using False inv that table(2) by (simp add: cl_inv_def calls)
  qed
  ultimately show ?thesis using inv table(1) by (simp add: cl_inv_def)
qed

lemma cl_inv_call: "cl_inv cl \<Longrightarrow> i < length (clCalls cl) \<Longrightarrow> call_ok (clCalls cl ! i) (om_find (clOngoing cl) (caId (clCalls cl ! i)) \<noteq> None)"
  by (simp add: cl_inv_def)

lemma cl_inv_entry: "cl_inv cl \<Longrightarrow> om_find (clOngoing cl) k = Some i \<Longrightarrow> i < length (clCalls cl) \<and> k = caId (clCalls cl ! i)"
  by (simp add: cl_inv_def)

lemma cl_inv_find: "cl_inv cl \<Longrightarrow> i < length (clCalls cl) \<Longrightarrow> om_find (clOngoing cl) (caId (clCalls cl ! i)) \<in> {None, Some i}"
  using cl_inv_entry [of cl "caId (clCalls cl ! i)"] id_inj [of cl i] by (cases "om_find (clOngoing cl) (caId (clCalls cl ! i))") auto

text \<open>The two shapes of change: the call alone, or the call and the removal of its entry.\<close>

lemma cl_inv_set_call:
  assumes inv: "cl_inv cl" and i: "i < length (clCalls cl)" and id: "caMessage (f (clCalls cl ! i)) = caMessage (clCalls cl ! i)"
    and ok: "\<And>b. call_ok (clCalls cl ! i) b \<Longrightarrow> call_ok (f (clCalls cl ! i)) b"
  shows "cl_inv (set_call cl i f)"
  by (rule cl_inv_update [OF inv i, where c = "f (clCalls cl ! i)"])
    (use inv i id cl_inv_find [OF inv i] ok cl_inv_call [OF inv i] in \<open>auto simp: set_call_def cl_inv_def\<close>)

lemma cl_inv_erase_call:
  assumes inv: "cl_inv cl" and i: "i < length (clCalls cl)" and id: "caMessage (f (clCalls cl ! i)) = caMessage (clCalls cl ! i)"
    and ok: "\<And>b. call_ok (clCalls cl ! i) b \<Longrightarrow> call_ok (f (clCalls cl ! i)) False"
  shows "cl_inv (erase_ongoing (caId (clCalls cl ! i)) (set_call cl i f))"
proof (rule cl_inv_update [OF inv i, where c = "f (clCalls cl ! i)"])
  show "clCalls (erase_ongoing (caId (clCalls cl ! i)) (set_call cl i f)) = (clCalls cl)[i := f (clCalls cl ! i)]"
    by (simp add: set_call_def erase_ongoing_def)
  show "om_ok (clOngoing (erase_ongoing (caId (clCalls cl ! i)) (set_call cl i f)))"
    using inv by (simp add: set_call_def erase_ongoing_def cl_inv_def)
  show "call_ok (f (clCalls cl ! i)) (om_find (clOngoing (erase_ongoing (caId (clCalls cl ! i)) (set_call cl i f))) (caId (f (clCalls cl ! i))) \<noteq> None)"
    using ok [OF cl_inv_call [OF inv i]] by (simp add: set_call_def erase_ongoing_def id)
qed (simp_all add: set_call_def erase_ongoing_def id)

lemma call_ok_settle: "call_ok c True \<Longrightarrow> call_ok (c\<lparr>caPromise := caPromise c @ [r]\<rparr>) False"
  by (clarsimp simp: call_ok_def)

lemma cl_inv_settle:
  assumes "cl_inv cl" "om_find (clOngoing cl) k = Some i"
  shows "cl_inv (erase_ongoing k (settle cl i r))"
proof -
  have i: "i < length (clCalls cl)" "k = caId (clCalls cl ! i)" using cl_inv_entry assms by auto
  have entry: "call_ok (clCalls cl ! i) True" using cl_inv_call [OF assms(1) i(1)] assms(2) i(2) by simp
  show ?thesis unfolding settle_def i(2)
    by (rule cl_inv_erase_call [OF assms(1) i(1)]) (simp_all add: call_ok_settle [OF entry])
qed

lemma cl_inv_handleClientError: "cl_inv cl \<Longrightarrow> cl_inv (cl_handleClientError cl k e)"
  by (auto simp: cl_handleClientError_def cl_inv_settle split: option.splits)

lemma cl_inv_incoming: "cl_inv cl \<Longrightarrow> cl_onIncomingMessage cl msg = Inr cl1 \<Longrightarrow> cl_inv cl1"
  by (auto simp: cl_onIncomingMessage_def rejectOngoingRequest_def resolveOngoingRequest_def cl_inv_settle split: if_splits option.splits sum.splits)

lemma cl_inv_request: "cl_inv cl \<Longrightarrow> uuid \<notin> set (map caId (clCalls cl)) \<Longrightarrow> request cl name body ctx t timeout uuid = Inr (cl1, i) \<Longrightarrow> cl_inv cl1"
proof -
  assume inv: "cl_inv cl" and fresh: "uuid \<notin> set (map caId (clCalls cl))" and req: "request cl name body ctx t timeout uuid = Inr (cl1, i)"
  have none: "om_find (clOngoing cl) uuid = None"
  proof (cases "om_find (clOngoing cl) uuid")
    case (Some j)
    then show ?thesis using fresh cl_inv_entry [OF inv] by fastforce
  qed
  obtain c where c: "cl1 = cl\<lparr>clCalls := clCalls cl @ [c]\<rparr>" "caId c = uuid" "caPromise c = []" "caTask c = NotStarted" "caCaller c = None"
    using req by (auto simp: request_def createRequestRpcMessage_def RpcMessage_default_def split: if_splits)
  have "call_ok c False" using c by (simp add: call_ok_def)
  then show ?thesis using inv fresh none c by (auto simp: cl_inv_def nth_append less_Suc_eq)
qed

lemma cl_inv_start: "cl_inv cl \<Longrightarrow> request_start cl i = Inr cl1 \<Longrightarrow> cl_inv cl1"
  by (auto simp: request_start_def split: if_splits intro!: cl_inv_set_call) (auto simp: call_ok_def)

lemma cl_inv_begin: "cl_inv cl \<Longrightarrow> cl_inv (makeRpcRequest_begin cl i)"
proof (cases "i < length (clCalls cl) \<and> caTask (clCalls cl ! i) = Queued")
  case True
  assume inv: "cl_inv cl"
  let ?c = "(clCalls cl ! i)\<lparr>caTask := Sending\<rparr>"
  have ok: "call_ok (clCalls cl ! i) (om_find (clOngoing cl) (caId (clCalls cl ! i)) \<noteq> None)"
    using cl_inv_call [OF inv] True by blast
  then have "om_find (clOngoing cl) (caId (clCalls cl ! i)) = None" using True by (auto simp: call_ok_def)
  moreover have "call_ok ?c True" using ok True by (auto simp: call_ok_def)
  ultimately show ?thesis
    by (intro cl_inv_update [OF inv, of i _ ?c])
      (use True inv in \<open>auto simp: makeRpcRequest_begin_def set_call_def Let_def cl_inv_def\<close>)
qed (auto simp: makeRpcRequest_begin_def)

lemma call_ok_task:
  "call_ok c b \<Longrightarrow> caTask c = Sending \<Longrightarrow> call_ok (c\<lparr>caTask := Awaiting\<rparr>) b"
  "call_ok c b \<Longrightarrow> caTask c = Sending \<Longrightarrow> call_ok (c\<lparr>caTask := Finished (Throws ThrownOther)\<rparr>) b"
  "call_ok c b \<Longrightarrow> caTask c = Awaiting \<Longrightarrow> call_ok (c\<lparr>caTask := Finished (Throws (ThrownStd cls w))\<rparr>) b"
  by (auto simp: call_ok_def)

lemma call_ok_wake:
  assumes ok: "call_ok c b" and "caTask c = Awaiting" "caPromise c \<noteq> []"
  shows "call_ok (c\<lparr>caTask := Finished (settled_outcome (hd (caPromise c)))\<rparr>) b"
proof -
  obtain r where "caPromise c = [r]" using assms by (cases "caPromise c") (auto simp: call_ok_def)
  then show ?thesis using assms by (cases r) (auto simp: call_ok_def)
qed

lemma handleClientError_task:
  "length (clCalls (cl_handleClientError cl k e)) = length (clCalls cl) \<and>
   (\<forall>i. i < length (clCalls cl) \<longrightarrow> caTask (clCalls (cl_handleClientError cl k e) ! i) = caTask (clCalls cl ! i) \<and>
      caMessage (clCalls (cl_handleClientError cl k e) ! i) = caMessage (clCalls cl ! i) \<and>
      caCaller (clCalls (cl_handleClientError cl k e) ! i) = caCaller (clCalls cl ! i))"
  by (auto simp: cl_handleClientError_def erase_ongoing_def settle_def set_call_def nth_update_if split: option.splits)

lemma cl_inv_end: "cl_inv cl \<Longrightarrow> cl_inv (makeRpcRequest_end cl i out)"
proof (cases "i < length (clCalls cl) \<and> caTask (clCalls cl ! i) = Sending")
  case True
  assume inv: "cl_inv cl"
  have "cl_inv (set_call (cl_handleClientError cl k e) i (\<lambda>c. c\<lparr>caTask := Awaiting\<rparr>))" for k e
    by (rule cl_inv_set_call) (use True inv cl_inv_handleClientError handleClientError_task [of cl k e] in \<open>auto intro: call_ok_task\<close>)
  moreover have "cl_inv (set_call cl i (\<lambda>c. c\<lparr>caTask := Awaiting\<rparr>))" "cl_inv (set_call cl i (\<lambda>c. c\<lparr>caTask := Finished (Throws ThrownOther)\<rparr>))"
    using True inv by (auto intro!: cl_inv_set_call call_ok_task)
  ultimately show ?thesis using True by (simp add: makeRpcRequest_end_def split: option.splits thrown.splits)
qed (auto simp: makeRpcRequest_end_def)

lemma cl_inv_wake: "cl_inv cl \<Longrightarrow> cl_inv (request_wake cl i)"
  by (auto simp: request_wake_def intro!: cl_inv_set_call call_ok_wake)

lemma cl_inv_timer: "cl_inv cl \<Longrightarrow> cl_inv (request_timer cl i ms w)" "cl_inv cl \<Longrightarrow> cl_inv (request_cancelled cl i w)"
  by (auto simp: request_timer_def request_cancelled_def intro!: cl_inv_set_call call_ok_task)

lemma call_ok_return:
  "call_ok c b \<Longrightarrow> caTask c = Finished (Returns v) \<Longrightarrow> call_ok (c\<lparr>caCaller := Some (Returns v)\<rparr>) b"
  by (auto simp: call_ok_def)

lemma call_ok_abandon: "call_ok c b \<Longrightarrow> call_ok (c\<lparr>caCaller := Some (Throws (ThrownStd OperationCancelled w))\<rparr>) False"
  by (cases b) (clarsimp simp: call_ok_def)+

lemma call_ok_erase: "call_ok c b \<Longrightarrow> caTask c = Finished out \<Longrightarrow> call_ok c False"
  by (auto simp: call_ok_def)

lemma call_ok_throw:
  assumes ok: "call_ok c b" and c: "caTask c = Finished (Throws e)"
  shows "call_ok (c\<lparr>caCaller := Some (Throws (if is_future_timeout e then rpc_timed_out else e))\<rparr>) False"
proof -
  have "(\<exists>w. e = ThrownStd FutureTimeout w) \<or> \<not> is_future_timeout e"
    by (simp add: is_future_timeout_def split: thrown.splits std_class.splits)
  then show ?thesis
  proof
    assume "\<exists>w. e = ThrownStd FutureTimeout w"
    then show ?thesis using call_ok_erase [OF ok c] c by (auto simp: call_ok_def is_future_timeout_def)
  next
    assume "\<not> is_future_timeout e"
    then show ?thesis using call_ok_erase [OF ok c] c by (simp add: call_ok_def)
  qed
qed

lemma cl_inv_resume: "cl_inv cl \<Longrightarrow> cl_inv (request_resume cl i)"
proof (cases "i < length (clCalls cl) \<and> caCaller (clCalls cl ! i) = None")
  case True
  assume inv: "cl_inv cl"
  show ?thesis
  proof (cases "caTask (clCalls cl ! i)")
    case (Finished out)
    show ?thesis
    proof (cases out)
      case (Returns v)
      have "cl_inv (set_call cl i (\<lambda>c. c\<lparr>caCaller := Some (Returns v)\<rparr>))"
        by (rule cl_inv_set_call [OF inv]) (use True Finished Returns call_ok_return in auto)
      then show ?thesis using True Finished Returns by (simp add: request_resume_def)
    next
      case (Throws e)
      have "cl_inv (erase_ongoing (caId (clCalls cl ! i))
          (set_call cl i (\<lambda>c. c\<lparr>caCaller := Some (Throws (if is_future_timeout e then rpc_timed_out else e))\<rparr>)))"
        by (rule cl_inv_erase_call [OF inv]) (use True Finished Throws call_ok_throw [of "clCalls cl ! i" _ e] in simp_all)
      then show ?thesis using True Finished Throws by (simp add: request_resume_def)
    qed
  qed (use inv True in \<open>simp_all add: request_resume_def\<close>)
qed (auto simp: request_resume_def)

lemma cl_inv_abandon: "cl_inv cl \<Longrightarrow> cl_inv (request_abandon cl i w)"
  by (auto simp: request_abandon_def intro!: cl_inv_erase_call call_ok_abandon)

lemma cl_inv_frame: "cl_inv cl \<Longrightarrow> clOngoing cl1 = clOngoing cl \<Longrightarrow> clCalls cl1 = clCalls cl \<Longrightarrow> cl_inv cl1"
  by (simp add: cl_inv_def)

lemma cl_inv_notify:
  "cl_inv cl \<Longrightarrow> notify cl name body ctx uuid = Inr (cl1, j) \<Longrightarrow> cl_inv cl1"
  "cl_inv cl \<Longrightarrow> cl_inv (notify_run cl j out w)"
  "cl_inv cl \<Longrightarrow> cl_inv (notify_resume cl j b)"
  "cl_inv cl \<Longrightarrow> cl_inv (cl_drain cl)"
  by (auto simp: notify_def notify_run_def notify_resume_def cl_drain_def set_notice_def Let_def split: if_splits option.splits
      intro: cl_inv_frame)

lemmas cl_inv_steps = cl_inv_begin cl_inv_end cl_inv_handleClientError cl_inv_wake cl_inv_timer cl_inv_resume cl_inv_abandon
  cl_inv_notify(2-4)

lemma cl_inv_step:
  assumes inv: "cl_inv cl" and fresh: "fresh_id cl e" and step: "cl_step cl e = Inr cl1"
  shows "cl_inv cl1"
proof (cases e)
  case (Request name body ctx t timeout uuid)
  then show ?thesis using assms cl_inv_request [OF inv] by (auto split: sum.splits)
next
  case (Start i)
  then show ?thesis using cl_inv_start [OF inv] step by simp
next
  case (Incoming msg)
  then show ?thesis using cl_inv_incoming [OF inv] step by simp
next
  case (Notify name body ctx uuid)
  then show ?thesis using assms cl_inv_notify(1) [OF inv] by (auto split: sum.splits)
qed (use step inv cl_inv_steps in auto)

lemma cl_reach_inv: "cl_reach ms cb cl \<Longrightarrow> cl_inv cl"
proof (induction rule: cl_reach.induct)
  case reach_new
  show ?case by (simp add: cl_inv_def client_new_def om_find_def)
next
  case (reach_step cl e cl1)
  then show ?case by (blast intro: cl_inv_step)
qed

section \<open>Every call ends\<close>

text \<open>The steps that are a call's own: whatever else happens or does not happen, they take it to its end.\<close>

definition own_steps :: "nat \<Rightarrow> millis \<Rightarrow> ('c, 'm) rpc_event list" where
  "own_steps i ms = [SendBegin i, SendEnd i None, Timer i ms ''Timed out'', Resume i]"

definition answered_steps :: "nat \<Rightarrow> ('c, 'm) rpc_event list" where
  "answered_steps i = [SendEnd i None, Wake i, Resume i]"

lemma nth_set_call [simp]: "i < length (clCalls cl) \<Longrightarrow> clCalls (set_call cl i f) ! i = f (clCalls cl ! i)"
  by (simp add: set_call_def)

lemma length_set_call [simp]: "length (clCalls (set_call cl i f)) = length (clCalls cl)"
  by (simp add: set_call_def)

lemma calls_erase_ongoing [simp]: "clCalls (erase_ongoing k cl) = clCalls cl" "clOngoing (erase_ongoing k cl) = om_erase k (clOngoing cl)"
  by (simp_all add: erase_ongoing_def)

lemma begin_call:
  "i < length (clCalls cl) \<Longrightarrow> length (clCalls (makeRpcRequest_begin cl i)) = length (clCalls cl) \<and>
     clCalls (makeRpcRequest_begin cl i) ! i =
       (if caTask (clCalls cl ! i) = Queued then (clCalls cl ! i)\<lparr>caTask := Sending\<rparr> else clCalls cl ! i)"
  by (simp add: makeRpcRequest_begin_def Let_def set_call_def)

lemma end_call:
  "i < length (clCalls cl) \<Longrightarrow> length (clCalls (makeRpcRequest_end cl i None)) = length (clCalls cl) \<and>
     clCalls (makeRpcRequest_end cl i None) ! i =
       (if caTask (clCalls cl ! i) = Sending then (clCalls cl ! i)\<lparr>caTask := Awaiting\<rparr> else clCalls cl ! i)"
  by (simp add: makeRpcRequest_end_def)

lemma timer_call:
  "i < length (clCalls cl) \<Longrightarrow> length (clCalls (request_timer cl i ms w)) = length (clCalls cl) \<and>
     clCalls (request_timer cl i ms w) ! i =
       (if caTask (clCalls cl ! i) = Awaiting \<and> caTimeout (clCalls cl ! i) \<le> ms
        then (clCalls cl ! i)\<lparr>caTask := Finished (Throws (ThrownStd FutureTimeout w))\<rparr> else clCalls cl ! i)"
  by (simp add: request_timer_def)

lemma wake_call:
  "i < length (clCalls cl) \<Longrightarrow> length (clCalls (request_wake cl i)) = length (clCalls cl) \<and>
     clCalls (request_wake cl i) ! i =
       (if caTask (clCalls cl ! i) = Awaiting \<and> caPromise (clCalls cl ! i) \<noteq> []
        then (clCalls cl ! i)\<lparr>caTask := Finished (settled_outcome (hd (caPromise (clCalls cl ! i))))\<rparr> else clCalls cl ! i)"
  by (simp add: request_wake_def)

definition caller_view :: "'m outcome \<Rightarrow> 'm outcome" where
  "caller_view out = (case out of Returns v \<Rightarrow> Returns v | Throws e \<Rightarrow> Throws (if is_future_timeout e then rpc_timed_out else e))"

lemma resume_call:
  "i < length (clCalls cl) \<Longrightarrow> caTask (clCalls cl ! i) = Finished out \<Longrightarrow>
     caCaller (clCalls (request_resume cl i) ! i) =
       (case caCaller (clCalls cl ! i) of None \<Rightarrow> Some (caller_view out) | Some old \<Rightarrow> Some old)"
  by (auto simp: request_resume_def caller_view_def split: option.splits outcome.splits)

lemmas own_calls = begin_call end_call timer_call wake_call

section \<open>Properties of the client\<close>

text \<open>
  C7. In every interleaving of the coroutines a promise is settled at most once, and the table of ongoing requests tells which are open: while the
  call is under way and its caller still waits, its promise is open exactly when the table has the entry of its identifier, which is the entry of
  this call; a promise whose entry is there is never settled yet. The caller gets exactly what the promise was settled with, the timeout, or a
  cancellation, and when it has returned otherwise than by a cancellation no entry is left.
\<close>

theorem rpc_settled_once:
  assumes "cl_reach ms cb cl" "i < length (clCalls cl)"
  shows "length (caPromise (clCalls cl ! i)) \<le> 1 \<and>
    (caTask (clCalls cl ! i) \<in> {Sending, Awaiting} \<and> caCaller (clCalls cl ! i) = None \<longrightarrow>
       (caPromise (clCalls cl ! i) = [] \<longleftrightarrow> om_find (clOngoing cl) (caId (clCalls cl ! i)) = Some i)) \<and>
    (om_find (clOngoing cl) (caId (clCalls cl ! i)) = Some j \<longrightarrow>
       j = i \<and> caPromise (clCalls cl ! i) = [] \<and> caTask (clCalls cl ! i) \<notin> {NotStarted, Queued}) \<and>
    (caCaller (clCalls cl ! i) = Some (Returns v) \<longrightarrow> caPromise (clCalls cl ! i) = [SetValue v]) \<and>
    (caCaller (clCalls cl ! i) = Some (Throws (ThrownErr e)) \<longrightarrow>
       caPromise (clCalls cl ! i) = [SetException e] \<or> ThrownErr e = rpc_timed_out) \<and>
    (caCaller (clCalls cl ! i) = Some out \<and> (\<forall>w. out \<noteq> Throws (ThrownStd OperationCancelled w)) \<longrightarrow>
       om_find (clOngoing cl) (caId (clCalls cl ! i)) = None)"
proof -
  have inv: "cl_inv cl" by (rule cl_reach_inv [OF assms(1)])
  let ?b = "om_find (clOngoing cl) (caId (clCalls cl ! i)) \<noteq> None"
  have ok: "call_ok (clCalls cl ! i) ?b" by (rule cl_inv_call [OF inv assms(2)])
  have caller: "(\<exists>w. out = Throws (ThrownStd OperationCancelled w)) \<or>
      \<not> ?b \<and> (\<exists>o1. caTask (clCalls cl ! i) = Finished o1 \<and>
        (out = o1 \<or> (\<exists>w. o1 = Throws (ThrownStd FutureTimeout w)) \<and> out = Throws rpc_timed_out))"
    if "caCaller (clCalls cl ! i) = Some out" for out
    using that ok unfolding call_ok_def by blast
  have task: "caTask (clCalls cl ! i) = Finished (Returns v) \<longrightarrow> caPromise (clCalls cl ! i) = [SetValue v]"
    "caTask (clCalls cl ! i) = Finished (Throws (ThrownErr e)) \<longrightarrow> caPromise (clCalls cl ! i) = [SetException e]"
    using ok unfolding call_ok_def by blast+
  have "caPromise (clCalls cl ! i) = [SetValue v]" if "caCaller (clCalls cl ! i) = Some (Returns v)"
    using caller [OF that] task(1) by auto
  moreover have "caPromise (clCalls cl ! i) = [SetException e] \<or> ThrownErr e = rpc_timed_out"
    if "caCaller (clCalls cl ! i) = Some (Throws (ThrownErr e))"
    using caller [OF that] task(2) by auto
  moreover have "\<not> ?b" if "caCaller (clCalls cl ! i) = Some out" "\<forall>w. out \<noteq> Throws (ThrownStd OperationCancelled w)"
    using caller [OF that(1)] that(2) by blast
  moreover have "length (caPromise (clCalls cl ! i)) \<le> 1"
      "?b \<longrightarrow> caPromise (clCalls cl ! i) = [] \<and> caTask (clCalls cl ! i) \<notin> {NotStarted, Queued}"
      "caTask (clCalls cl ! i) \<in> {Sending, Awaiting} \<and> caCaller (clCalls cl ! i) = None \<and> caPromise (clCalls cl ! i) = [] \<longrightarrow> ?b"
    using ok unfolding call_ok_def by blast+
  moreover have "\<forall>k. om_find (clOngoing cl) (caId (clCalls cl ! i)) = Some k \<longrightarrow> k = i"
    using cl_inv_find [OF inv assms(2)] by auto
  ultimately show ?thesis by auto
qed

text \<open>
  C15. No call waits forever: once started, its own steps with a timer that fires take it to its end, whatever state it is in; the caller
  gets the answer if there is one by then, and otherwise the timeout.
\<close>

theorem rpc_call_ends:
  assumes "i < length (clCalls cl)" "caTask (clCalls cl ! i) \<noteq> NotStarted" "caTimeout (clCalls cl ! i) \<le> ms"
  shows "(\<exists>cl1 out. cl_run cl (own_steps i ms) = Inr cl1 \<and> caCaller (clCalls cl1 ! i) = Some out \<and>
      (caCaller (clCalls cl ! i) = None \<and> task_pending (caTask (clCalls cl ! i)) \<longrightarrow> out = Throws rpc_timed_out)) \<and>
    (caTask (clCalls cl ! i) \<in> {Sending, Awaiting} \<and> caPromise (clCalls cl ! i) = [r] \<and> caCaller (clCalls cl ! i) = None \<longrightarrow>
      (\<exists>cl1. cl_run cl (answered_steps i) = Inr cl1 \<and> caCaller (clCalls cl1 ! i) = Some (settled_outcome r)))"
proof -
  let ?a = "makeRpcRequest_begin cl i" let ?b = "makeRpcRequest_end ?a i None" let ?c = "request_timer ?b i ms ''Timed out''"
  have "\<exists>out. caCaller (clCalls (request_resume ?c i) ! i) = Some out \<and>
      (caCaller (clCalls cl ! i) = None \<and> task_pending (caTask (clCalls cl ! i)) \<longrightarrow> out = Throws rpc_timed_out)"
    using assms own_calls [of i cl] own_calls [of i ?a] own_calls [of i ?b] resume_call [of i ?c]
    by (cases "caTask (clCalls cl ! i)") (auto simp: task_pending_def caller_view_def is_future_timeout_def split: option.splits)
  moreover have "caCaller (clCalls (request_resume (request_wake (makeRpcRequest_end cl i None) i) i) ! i) = Some (settled_outcome r)"
    if "caTask (clCalls cl ! i) \<in> {Sending, Awaiting}" "caPromise (clCalls cl ! i) = [r]" "caCaller (clCalls cl ! i) = None"
    using that assms own_calls [of i cl] own_calls [of i "makeRpcRequest_end cl i None"]
      resume_call [of i "request_wake (makeRpcRequest_end cl i None) i"]
    by (cases r) (auto simp: caller_view_def is_future_timeout_def)
  ultimately show ?thesis by (auto simp: own_steps_def answered_steps_def)
qed

section \<open>A request through the server and back\<close>

text \<open>What the caller of a method gets, stated on the handlers themselves.\<close>

definition served_result :: "(thrown \<Rightarrow> string) \<Rightarrow> string \<Rightarrow> 'm msg_type \<Rightarrow> ('c, 's) handler option \<Rightarrow> any \<Rightarrow> 'c \<Rightarrow> 's \<Rightarrow> 'm settlement" where
  "served_result typeName name t handler body ctx s =
     (case handler of
        None \<Rightarrow> SetException (UnknownRpcMethod (''Server does not implement method '' @ name) None)
      | Some h \<Rightarrow>
          (case snd (h body ctx s) of
             Inr answer \<Rightarrow> SetValue (snd (mtUnpackTo t answer))
           | Inl (ThrownErr e) \<Rightarrow>
               (case e of
                  UnknownRpcMethod _ _ \<Rightarrow> SetException (UnknownRpcMethod (''Server does not implement method '' @ name) None)
                | RpcTimeout _ _ \<Rightarrow> SetException (RpcTimeout ''Server timed out on request'' None)
                | _ \<Rightarrow> SetException (RpcServerError (err_what e) (typeName (ThrownErr e)) (ErrorCode_name (err_code e))))
           | Inl (ThrownStd c w) \<Rightarrow> SetException (RpcServerError w (typeName (ThrownStd c w)) ''RPC_SERVER_ERROR'')
           | Inl ThrownOther \<Rightarrow> SetException (RpcServerError '''' '''' ''RPC_SERVER_ERROR'')))"

lemma om_find_Nil: "om_find [] k = None"
  by (simp add: om_find_def)

lemma request_header:
  "om_find (rmHeader (createRequestRpcMessage name body n uuid)) ''method'' = Some name"
  "has_header (createRequestRpcMessage name body n uuid) ''request''"
  "\<not> has_header (createRequestRpcMessage name body n uuid) ''response''"
  "has_header (createRequestRpcMessage name body n uuid) ''notification'' \<longleftrightarrow> n"
  "has_header (createRequestRpcMessage name body n uuid) ''method''"
  "rm_body (createRequestRpcMessage name body n uuid) = body"
  "rmRequestId (createRequestRpcMessage name body n uuid) = uuid"
  by (simp_all add: createRequestRpcMessage_def RpcMessage_default_def has_header_def om_contains_find Let_def om_find_Nil)

lemma response_header:
  assumes "createResponseRpcMessage p = Inr resp"
  shows "has_header resp ''response'' \<and> om_find (rmHeader resp) ''method'' = om_find (rmHeader (rpRequest p)) ''method''"
  using assms by (auto simp: createResponseRpcMessage_def has_header_def om_contains_find om_find_Nil split: option.splits)

lemma makeResponseTask_served:
  assumes req: "req = createRequestRpcMessage name body False uuid"
    and cl: "om_find (clOngoing cl) uuid = Some i"
  shows "\<exists>resp. makeResponseTask typeName handler req ctx s =
      ((case handler of None \<Rightarrow> s | Some h \<Rightarrow> fst (h body ctx s)), Inr resp) \<and> rmRequestId resp = uuid \<and>
    cl_onIncomingMessage cl resp =
      Inr (erase_ongoing uuid (settle cl i (served_result typeName name (caType (clCalls cl ! i)) handler body ctx s)))"
proof -
  let ?p = "\<lambda>p. createResponseRpcMessage p"
  have resp: "\<exists>resp. ?p p = Inr resp \<and> rmRequestId resp = uuid \<and> rmErrorType resp = rpErrorType p \<and> rmBody resp = rpBody p \<and>
      rmErrorClassName resp = rpErrorClassName p \<and> rmErrorCode resp = rpErrorCode p \<and> rmErrorMessage resp = rpErrorMessage p \<and>
      has_header resp ''response'' \<and> om_find (rmHeader resp) ''method'' = Some name" if "rpRequest p = req" for p
    using that req response_header [of p] by (auto simp: createResponseRpcMessage_def request_header)
  have params: "rpRequest (error_params typeName req e) = req" "rpErrorType (error_params typeName req e) \<noteq> None" for e
    by (cases e; simp add: params_for_def)+
  have ok: "\<exists>resp. ?p ((params_for req)\<lparr>rpBody := Some answer\<rparr>) = Inr resp \<and> rmRequestId resp = uuid \<and>
      cl_onIncomingMessage cl resp = Inr (erase_ongoing uuid (settle cl i (SetValue (snd (mtUnpackTo (caType (clCalls cl ! i)) answer)))))" for answer
    using resp [of "(params_for req)\<lparr>rpBody := Some answer\<rparr>"] cl
    by (auto simp: params_for_def cl_onIncomingMessage_def resolveOngoingRequest_def resolvePromise_def)
  have err: "\<exists>resp. ?p (error_params typeName req e) = Inr resp \<and> rmRequestId resp = uuid \<and>
      cl_onIncomingMessage cl resp = Inr (erase_ongoing uuid (settle cl i (SetException x)))"
    if "\<And>r. om_find (rmHeader r) ''method'' = Some name \<Longrightarrow> rmErrorType r = rpErrorType (error_params typeName req e) \<Longrightarrow>
      rmErrorClassName r = rpErrorClassName (error_params typeName req e) \<Longrightarrow> rmErrorCode r = rpErrorCode (error_params typeName req e) \<Longrightarrow>
      rmErrorMessage r = rpErrorMessage (error_params typeName req e) \<Longrightarrow> rejection r = Inr x" for e x
    using resp [OF params(1) [of e]] params(2) [of e] cl that by (fastforce simp: cl_onIncomingMessage_def rejectOngoingRequest_def)
  have none: "error_params typeName req (unknown_method_error req) = (params_for req)\<lparr>rpErrorType := Some UNKNOWN_METHOD\<rparr>"
    by (simp add: unknown_method_error_def)
  show ?thesis
  proof (cases handler)
    case None
    then show ?thesis
      using err [of "unknown_method_error req"]
      by (auto simp: makeResponseTask_def served_result_def none params_for_def rejection_def)
  next
    case (Some h)
    obtain s1 out where h: "h body ctx s = (s1, out)" by force
    show ?thesis
    proof (cases out)
      case (Inr answer)
      then show ?thesis using ok Some h by (auto simp: makeResponseTask_def served_result_def req request_header)
    next
      case (Inl e)
      have "\<exists>resp. ?p (error_params typeName req e) = Inr resp \<and> rmRequestId resp = uuid \<and>
          cl_onIncomingMessage cl resp =
            Inr (erase_ongoing uuid (settle cl i (served_result typeName name (caType (clCalls cl ! i)) handler body ctx s)))"
      proof (cases e)
        case (ThrownErr x)
        then show ?thesis using err [of e] Some h Inl by (cases x) (simp_all add: served_result_def params_for_def rejection_def)
      next
        case (ThrownStd c w)
        then show ?thesis using err [of e] Some h Inl by (simp add: served_result_def params_for_def rejection_def)
      next
        case ThrownOther
        then show ?thesis using err [of e] Some h Inl by (simp add: served_result_def params_for_def rejection_def)
      qed
      then show ?thesis using Some h Inl by (auto simp: makeResponseTask_def req request_header)
    qed
  qed
qed

definition method_handler :: "('c, 's) rpc_registry \<Rightarrow> string \<Rightarrow> ('c, 's) handler option" where
  "method_handler reg name =
     (case om_find (mAsyncMethods reg) name of Some h \<Rightarrow> Some (fst h) | None \<Rightarrow> map_option fst (om_find (mMethods reg) name))"

lemma getAsyncHandler_request: "getAsyncHandler reg (createRequestRpcMessage name body n uuid) = method_handler reg name"
  by (simp add: getAsyncHandler_def request_header method_handler_def split: option.splits)

lemma served_method:
  assumes "mtUnpackTo q (mtPackFrom q x) = (True, x)" "mtUnpackTo t (mtPackFrom t y) = (True, y)" "snd (fn x ctx s) = Inr y"
  shows "served_result typeName name t (Some (wrap_method q t fn)) (mtPackFrom q x) ctx s = SetValue y"
  using assms by (cases "fn x ctx s") (simp add: served_result_def wrap_method_def wrappedParseAny_def)

section \<open>Properties of the communicator\<close>

text \<open>
  C8. A request that reaches a serving communicator is answered by exactly one message, which settles the promise of that request and of
  no other with the outcome of the handler: its answer, or an error that tells a missing method, a timeout and any other exception
  apart.  In particular a method that returns \<open>y\<close> for \<open>x\<close> makes a call with \<open>x\<close> return \<open>y\<close>.
\<close>

theorem rpc_roundtrip:
  assumes call: "cl_inv (coClient co)" "om_find (clOngoing (coClient co)) uuid = Some i"
    "caMessage (clCalls (coClient co) ! i) = createRequestRpcMessage name body False uuid"
    and server: "\<not> svDrained (coServer srv)" "svHasCallback (coServer srv)"
    and t: "caType (clCalls (coClient co) ! i) = t"
    and handler: "handler = method_handler (svRegistry (coServer srv)) name"
    and s1: "s1 = (case handler of None \<Rightarrow> s | Some h \<Rightarrow> fst (h body ctx s))"
  shows "(\<exists>srv1 resp co1.
      co_onIncomingMessage srv (caMessage (clCalls (coClient co) ! i)) ctx s = Inr (srv1, s, None) \<and>
      sv_runTask typeName (coServer srv1) (length (svTasks (coServer srv))) s = Inr (coServer srv, s1, Some (resp, uuid, ctx)) \<and>
      co_onIncomingMessage co resp ctx1 s2 = Inr (co1, s2, None) \<and>
      om_find (clOngoing (coClient co1)) uuid = None \<and>
      (\<forall>j < length (clCalls (coClient co)). caPromise (clCalls (coClient co1) ! j) =
         (if j = i then [served_result typeName name t handler body ctx s] else caPromise (clCalls (coClient co) ! j)))) \<and>
    (handler = Some (wrap_method q t fn) \<and> body = mtPackFrom q x \<and> mtUnpackTo q (mtPackFrom q x) = (True, x) \<and>
      mtUnpackTo t (mtPackFrom t y) = (True, y) \<and> snd (fn x ctx s) = Inr y \<longrightarrow>
      served_result typeName name t handler body ctx s = SetValue y)"
proof -
  let ?cl = "coClient co" let ?msg = "createRequestRpcMessage name body False uuid"
  let ?r = "served_result typeName name t handler body ctx s"
  have i: "i < length (clCalls ?cl)" "uuid = caId (clCalls ?cl ! i)" using cl_inv_entry [OF call(1,2)] by auto
  have "call_ok (clCalls ?cl ! i) True" using cl_inv_call [OF call(1) i(1)] call(2) i(2) by simp
  then have open_promise: "caPromise (clCalls ?cl ! i) = []" by (simp add: call_ok_def)
  obtain resp where resp: "makeResponseTask typeName handler ?msg ctx s = (s1, Inr resp)" "rmRequestId resp = uuid"
      "cl_onIncomingMessage ?cl resp = Inr (erase_ongoing uuid (settle ?cl i ?r))"
    using makeResponseTask_served [OF refl call(2), of typeName handler name body ctx s] t s1 by auto
  let ?srv1 = "srv\<lparr>coServer := (coServer srv)\<lparr>svTasks := svTasks (coServer srv) @ [(handler, ?msg, ctx)]\<rparr>\<rparr>"
  let ?co1 = "co\<lparr>coClient := erase_ongoing uuid (settle ?cl i ?r)\<rparr>"
  have "co_onIncomingMessage srv ?msg ctx s = Inr (?srv1, s, None)"
    using server(1) by (simp add: co_onIncomingMessage_def sv_onIncomingMessage_def sv_handleRequest_def request_header
        getAsyncHandler_request handler)
  moreover have "sv_runTask typeName (coServer ?srv1) (length (svTasks (coServer srv))) s = Inr (coServer srv, s1, Some (resp, uuid, ctx))"
    using resp(1,2) server(2) by (simp add: sv_runTask_def)
  moreover have "has_header resp ''response''"
    using resp(1) by (auto simp: makeResponseTask_def split: prod.splits sum.splits dest: response_header)
  then have "co_onIncomingMessage co resp ctx1 s2 = Inr (?co1, s2, None)" using resp(3) by (simp add: co_onIncomingMessage_def)
  moreover have "om_find (clOngoing (coClient ?co1)) uuid = None" by simp
  moreover have "caPromise (clCalls (coClient ?co1) ! j) = (if j = i then [?r] else caPromise (clCalls ?cl ! j))"
    if "j < length (clCalls ?cl)" for j
    using that open_promise by (simp add: settle_def set_call_def nth_list_update)
  moreover have "handler = Some (wrap_method q t fn) \<and> body = mtPackFrom q x \<and> mtUnpackTo q (mtPackFrom q x) = (True, x) \<and>
      mtUnpackTo t (mtPackFrom t y) = (True, y) \<and> snd (fn x ctx s) = Inr y \<longrightarrow> ?r = SetValue y"
    by (auto simp: served_method)
  ultimately show ?thesis unfolding call(3) by blast
qed

text \<open>
  A single response can end the process of the peer that waits for it: exactly when it answers an ongoing request with the error
  type for an unknown method and leaves out the header that names the method.
\<close>

theorem response_aborts_client:
  "cl_onIncomingMessage cl msg = Inl f \<longleftrightarrow>
     has_header msg ''response'' \<and> om_find (clOngoing cl) (rmRequestId msg) \<noteq> None \<and>
     rmErrorType msg = Some UNKNOWN_METHOD \<and> \<not> has_header msg ''method'' \<and> f = KeyNotFound ''method''"
  by (auto simp: cl_onIncomingMessage_def rejectOngoingRequest_def rejection_def has_header_def om_contains_find
      split: option.splits sum.splits RpcErrorType.splits)

lemma rejection_parsed: "rejection msg \<noteq> Inr (FailedToParse m info)"
  by (simp add: rejection_def split: option.splits RpcErrorType.splits)

lemma incoming_settles:
  assumes "cl_onIncomingMessage cl msg = Inr cl1"
  shows "cl1 = cl \<or> (\<exists>i r. cl1 = erase_ongoing (rmRequestId msg) (settle cl i r) \<and> (\<forall>m info. r \<noteq> SetException (FailedToParse m info)))"
  using assms rejection_parsed [of msg]
  by (fastforce simp: cl_onIncomingMessage_def resolveOngoingRequest_def rejectOngoingRequest_def resolvePromise_def
      split: if_splits option.splits sum.splits)

text \<open>
  A response whose body is not of the expected type is taken for a success: the call returns whatever the failed unpacking has left in
  the message, and no response ever makes a call fail with \<^verbatim>\<open>FailedToParse\<close>.
\<close>

theorem unparsable_response_succeeds:
  assumes inv: "cl_inv cl" and entry: "om_find (clOngoing cl) (rmRequestId msg) = Some i"
    and msg: "has_header msg ''response''" "rmErrorType msg = None"
    and fails: "mtUnpackTo (caType (clCalls cl ! i)) (rm_body msg) = (False, leftover)"
  shows "(\<exists>cl1. cl_onIncomingMessage cl msg = Inr cl1 \<and> caPromise (clCalls cl1 ! i) = [SetValue leftover]) \<and>
    (cl_onIncomingMessage cl any_msg = Inr cl2 \<and> j < length (clCalls cl) \<and>
      SetException (FailedToParse m info) \<in> set (caPromise (clCalls cl2 ! j)) \<longrightarrow>
      SetException (FailedToParse m info) \<in> set (caPromise (clCalls cl ! j)))"
proof
  show "cl_onIncomingMessage cl any_msg = Inr cl2 \<and> j < length (clCalls cl) \<and>
      SetException (FailedToParse m info) \<in> set (caPromise (clCalls cl2 ! j)) \<longrightarrow>
      SetException (FailedToParse m info) \<in> set (caPromise (clCalls cl ! j))"
    using incoming_settles [of cl any_msg cl2] by (auto simp: settle_def set_call_def nth_update_if split: if_splits)
next
  have i: "i < length (clCalls cl)" "rmRequestId msg = caId (clCalls cl ! i)" using cl_inv_entry [OF inv entry] by auto
  then have "call_ok (clCalls cl ! i) True" using cl_inv_call [OF inv i(1)] entry by simp
  then have "caPromise (clCalls cl ! i) = []" by (simp add: call_ok_def)
  then show "\<exists>cl1. cl_onIncomingMessage cl msg = Inr cl1 \<and> caPromise (clCalls cl1 ! i) = [SetValue leftover]"
    using assms i by (simp add: cl_onIncomingMessage_def resolveOngoingRequest_def resolvePromise_def settle_def)
qed

text \<open>The drain is checked when the lazy task of a request is made, not when it is started.\<close>

lemma late_start_aborts:
  assumes "\<not> clDrained cl"
  shows "\<exists>cl1. request cl name body ctx t timeout uuid = Inr (cl1, length (clCalls cl)) \<and>
    request_start (cl_drain cl1) (length (clCalls cl)) = Inl AddAfterJoin"
  using assms by (simp add: request_def request_start_def cl_drain_def)

text \<open>A caller that is cancelled before the task of its request has run leaves an entry that no timeout removes.\<close>

lemma abandoned_entry_stays:
  assumes "caTask (clCalls cl ! i) = Queued" "i < length (clCalls cl)" "caCaller (clCalls cl ! i) = None" "caTimeout (clCalls cl ! i) \<le> ms"
  shows "\<exists>cl1. cl_run cl (Abandon i w # own_steps i ms) = Inr cl1 \<and> caTask (clCalls cl1 ! i) = Finished (Throws (ThrownStd FutureTimeout ''Timed out'')) \<and>
    om_find (clOngoing cl1) (caId (clCalls cl ! i)) \<noteq> None"
  using assms by (simp add: own_steps_def request_abandon_def makeRpcRequest_begin_def makeRpcRequest_end_def request_timer_def request_resume_def
      Let_def) (simp add: set_call_def erase_ongoing_def)

section \<open>Witnesses\<close>

text \<open>A message class whose messages are strings, and a client that has sent one request.\<close>

definition text_type :: "string \<Rightarrow> string msg_type" where
  "text_type name =
     \<lparr>mtPackFrom = (\<lambda>m. \<lparr>anyTypeUrl = name, anyValue = map (\<lambda>c. word_of_nat (of_char c)) m\<rparr>),
      mtUnpackTo = (\<lambda>a. if anyTypeUrl a = name then (True, map (\<lambda>b. char_of (unat b)) (anyValue a)) else (False, []))\<rparr>"

lemma char_of_byte: "char_of (unat (word_of_nat (of_char c) :: byte)) = c"
  by (simp add: unat_of_nat)

lemma text_type_law: "mtUnpackTo (text_type n) (mtPackFrom (text_type n) m) = (True, m)"
  by (simp add: text_type_def comp_def char_of_byte)

definition demo_request :: RpcMessage where
  "demo_request = createRequestRpcMessage ''greet'' (mtPackFrom (text_type ''Q'') ''Bob'') False ''id1''"

definition rpc_demo_client :: "(unit, string) client" where
  "rpc_demo_client =
     \<lparr>clOngoing = [(''id1'', 0)],
      clCalls = [\<lparr>caMessage = demo_request, caContext = (), caType = text_type ''R'', caTimeout = 5000, caPromise = [], caTask = Sending, caCaller = None\<rparr>],
      clNotices = [], clTimeout = 5000, clHasCallback = True, clDrained = False, clSent = [(demo_request, ''id1'', ())]\<rparr>"

definition demo_greet :: "string \<Rightarrow> unit \<Rightarrow> string list \<Rightarrow> string list \<times> (thrown + string)" where
  "demo_greet name ctx s = (s @ [name], Inr (''Hello, '' @ name))"

definition demo_server :: "(unit, string list, string) communicator" where
  "demo_server = co_setOutgoingMessageCallback
     ((communicator_new None)\<lparr>coServer := server_new\<lparr>svRegistry :=
        registerRpcMethod (text_type ''Q'') (text_type ''R'') ''greet'' demo_greet 0 registry_empty\<rparr>\<rparr>)"

lemma demo_client_run:
  "cl_run ((client_new 5000)\<lparr>clHasCallback := True\<rparr>)
     [Request ''greet'' (mtPackFrom (text_type ''Q'') ''Bob'') () (text_type ''R'') None ''id1'', Start 0, SendBegin 0] = Inr rpc_demo_client"
  by (simp add: client_new_def request_def request_start_def makeRpcRequest_begin_def rpc_demo_client_def demo_request_def set_call_def Let_def
      om_emplace_def om_contains_def request_header)

lemma reach_run:
  assumes "cl_reach ms cb cl" "cl_run cl es = Inr cl1" "list_all (\<lambda>e. \<exists>i. e = Start i \<or> e = SendBegin i) es"
  shows "cl_reach ms cb cl1"
  using assms
proof (induction es arbitrary: cl)
  case (Cons e es)
  then have "fresh_id cl e" by auto
  then show ?case using Cons.IH Cons.prems by (auto split: sum.splits intro: reach_step)
qed simp

lemma demo_reach: "cl_reach 5000 True rpc_demo_client"
proof -
  let ?cl = "(client_new 5000)\<lparr>clHasCallback := True\<rparr> :: (unit, string) client"
  let ?e = "Request ''greet'' (mtPackFrom (text_type ''Q'') ''Bob'') () (text_type ''R'') None ''id1''"
  obtain cl where cl: "cl_step ?cl ?e = Inr cl" by (simp add: request_def client_new_def)
  have "cl_reach 5000 True cl" by (rule reach_step [OF reach_new _ cl]) (simp add: client_new_def)
  moreover have "cl_run cl [Start 0, SendBegin 0] = Inr rpc_demo_client"
    using demo_client_run unfolding cl_run.simps(2) [of ?cl] cl by simp
  ultimately show ?thesis by (rule reach_run) simp
qed

theorem rpc_settled_once_witness:
  "caTask (clCalls rpc_demo_client ! 0) = Sending \<and> caPromise (clCalls rpc_demo_client ! 0) = [] \<and>
     om_find (clOngoing rpc_demo_client) (caId (clCalls rpc_demo_client ! 0)) = Some 0"
  using rpc_settled_once [OF demo_reach, of 0 0] by (simp add: rpc_demo_client_def demo_request_def request_header om_find_def)

theorem rpc_call_ends_witness:
  "\<exists>cl1. cl_run rpc_demo_client (own_steps 0 5000) = Inr cl1 \<and> caCaller (clCalls cl1 ! 0) = Some (Throws rpc_timed_out)"
  using rpc_call_ends [of 0 rpc_demo_client 5000] by (simp add: rpc_demo_client_def task_pending_def)

theorem rpc_roundtrip_witness:
  "\<exists>srv1 resp co1.
     co_onIncomingMessage demo_server demo_request () [] = Inr (srv1, [], None) \<and>
     sv_runTask (\<lambda>e. []) (coServer srv1) 0 [] = Inr (coServer demo_server, [''Bob''], Some (resp, ''id1'', ())) \<and>
     co_onIncomingMessage (demo_server\<lparr>coClient := rpc_demo_client\<rparr>) resp () [] = Inr (co1, [], None) \<and>
     caPromise (clCalls (coClient co1) ! 0) = [SetValue ''Hello, Bob'']"
proof -
  let ?q = "text_type ''Q''" let ?t = "text_type ''R''"
  let ?h = "Some (wrap_method ?q ?t demo_greet)"
  let ?co = "demo_server\<lparr>coClient := rpc_demo_client\<rparr>"
  have c: "caMessage (clCalls rpc_demo_client ! 0) = demo_request" "caType (clCalls rpc_demo_client ! 0) = ?t" "length (clCalls rpc_demo_client) = 1"
    "om_find (clOngoing rpc_demo_client) ''id1'' = Some 0"
    by (simp_all add: rpc_demo_client_def om_find_def)
  have s: "\<not> svDrained (coServer demo_server)" "svHasCallback (coServer demo_server)" "svTasks (coServer demo_server) = []"
    "?h = method_handler (svRegistry (coServer demo_server)) ''greet''"
    by (simp_all add: demo_server_def co_setOutgoingMessageCallback_def server_new_def registerRpcMethod_def registry_empty_def
        method_handler_def om_find_def)
  have h: "[''Bob''] = (case ?h of None \<Rightarrow> [] | Some h \<Rightarrow> fst (h (mtPackFrom ?q ''Bob'') () []))"
    using text_type_law [of "''Q''" "''Bob''"] by (simp add: wrap_method_def wrappedParseAny_def demo_greet_def)
  have inv: "cl_inv (coClient ?co)" using cl_reach_inv [OF demo_reach] by simp
  have m: "caMessage (clCalls (coClient ?co) ! 0) = createRequestRpcMessage ''greet'' (mtPackFrom ?q ''Bob'') False ''id1''"
    using c(1) by (simp add: demo_request_def)
  show ?thesis
    using rpc_roundtrip [OF inv _ m s(1,2) _ s(4) h, of ?t "\<lambda>e. []" "()" "[]" ?q demo_greet "''Bob''" "''Hello, Bob''"]
      c s(3) m text_type_law [of "''Q''" "''Bob''"] text_type_law [of "''R''" "''Hello, Bob''"]
    by (auto simp: demo_greet_def)
qed

theorem unparsable_response_succeeds_witness:
  "\<exists>cl1. cl_onIncomingMessage rpc_demo_client
       (RpcMessage_default\<lparr>rmHeader := [(''response'', ''response'')], rmRequestId := ''id1'', rmBody := Some \<lparr>anyTypeUrl = ''Other'', anyValue = []\<rparr>\<rparr>) = Inr cl1 \<and>
     caPromise (clCalls cl1 ! 0) = [SetValue []]"
  using unparsable_response_succeeds [OF cl_reach_inv [OF demo_reach],
      of "RpcMessage_default\<lparr>rmHeader := [(''response'', ''response'')], rmRequestId := ''id1'', rmBody := Some \<lparr>anyTypeUrl = ''Other'', anyValue = []\<rparr>\<rparr>" 0 "[]"]
  by (simp add: RpcMessage_default_def has_header_def om_contains_def om_find_def text_type_def rpc_demo_client_def)

end
