(* ===== verification/Routed_Hello.thy ===== *)
theory Routed_Hello
  imports Rpc_Communicator_Correct
begin

text \<open>
  The example program \<^verbatim>\<open>routedhello.cpp\<close>: two servers and two clients in one process, joined by callbacks that route a request by
  the \<^verbatim>\<open>targetServerId\<close> of its context and the response by the \<^verbatim>\<open>sourceId\<close> of the server's context.  The message classes are
  parameters, as is the text of the exception that \<^verbatim>\<open>std::map::at\<close> throws.  A server answers on another thread; both orders in which that
  thread and the end of the client's callback can run are modelled.  At the end, the smaller example \<^verbatim>\<open>hello.cpp\<close>: one server and one
  client that hand each other their messages.
\<close>

section \<open>The program\<close>

type_synonym ProtoCallContext = "(string, string) omap"

type_synonym hello_communicator = "(ProtoCallContext, string list, string) communicator"

definition map_at :: "string \<Rightarrow> ProtoCallContext \<Rightarrow> string \<Rightarrow> thrown + string" where
  "map_at what context key = (case om_find context key of None \<Rightarrow> Inl (ThrownStd (OtherStd ''std::out_of_range'') what) | Some v \<Rightarrow> Inr v)"

text \<open>The service; the state of the application is what has been written to the standard output.\<close>

definition sayHello :: "string \<Rightarrow> string \<Rightarrow> string \<Rightarrow> ProtoCallContext \<Rightarrow> string list \<Rightarrow> string list \<times> (thrown + string)" where
  "sayHello what mServiceId myname callContext out =
     (case map_at what callContext ''sourceId'' of
        Inl e \<Rightarrow> (out, Inl e)
      | Inr sourceId \<Rightarrow>
          (out @ [''sayHello() called on server '' @ mServiceId @ '' with context parameter sourceId '' @ sourceId],
           Inr (''Hello, '' @ myname @ ''!'')))"

record hello_world =
  hwServer1 :: hello_communicator
  hwServer2 :: hello_communicator
  hwClients :: "(string, hello_communicator) omap"
  hwOut :: "string list"

definition hello_server :: "string \<Rightarrow> string msg_type \<Rightarrow> string msg_type \<Rightarrow> string \<Rightarrow> hello_communicator" where
  "hello_server what q r serviceId =
     co_setOutgoingMessageCallback
       ((communicator_new None)\<lparr>coServer := server_new\<lparr>svRegistry := registerRpcMethod q r ''sayHello'' (sayHello what serviceId) 0 registry_empty\<rparr>\<rparr>)"

definition hello_setup :: "string \<Rightarrow> string msg_type \<Rightarrow> string msg_type \<Rightarrow> hello_world" where
  "hello_setup what q r =
     \<lparr>hwServer1 = hello_server what q r ''1'', hwServer2 = hello_server what q r ''2'',
      hwClients = om_put ''2'' (co_setOutgoingMessageCallback (communicator_new None))
        (om_put ''1'' (co_setOutgoingMessageCallback (communicator_new None)) []),
      hwOut = []\<rparr>"

text \<open>The callback of a server; \<^verbatim>\<open>operator[]\<close> makes a null pointer for a client that is not there.\<close>

definition server_callback :: "string \<Rightarrow> hello_world \<Rightarrow> RpcMessage \<Rightarrow> ProtoCallContext \<Rightarrow> fatal + (hello_world \<times> thrown option)" where
  "server_callback what w message context =
     (case map_at what context ''sourceId'' of
        Inl e \<Rightarrow> Inr (w, Some e)
      | Inr sourceId \<Rightarrow>
          (case om_find (hwClients w) sourceId of
             None \<Rightarrow> Inl NullDereference
           | Some co \<Rightarrow>
               (case co_onIncomingMessage co message context (hwOut w) of
                  Inl f \<Rightarrow> Inl f
                | Inr (co1, out, e) \<Rightarrow> Inr (w\<lparr>hwClients := om_put sourceId co1 (hwClients w), hwOut := out\<rparr>, e))))"

text \<open>The callback of the client \<open>sourceId\<close>.\<close>

definition client_callback ::
  "string \<Rightarrow> string \<Rightarrow> hello_world \<Rightarrow> RpcMessage \<Rightarrow> ProtoCallContext \<Rightarrow> fatal + (hello_world \<times> thrown option)" where
  "client_callback what sourceId w message context =
     (case map_at what context ''targetServerId'' of
        Inl e \<Rightarrow> Inr (w, Some e)
      | Inr targetServerId \<Rightarrow>
          (if targetServerId = ''2''
           then (case co_onIncomingMessage (hwServer2 w) message (om_put ''sourceId'' sourceId []) (hwOut w) of
                   Inl f \<Rightarrow> Inl f | Inr (srv, out, e) \<Rightarrow> Inr (w\<lparr>hwServer2 := srv, hwOut := out\<rparr>, e))
           else (case co_onIncomingMessage (hwServer1 w) message (om_put ''sourceId'' sourceId []) (hwOut w) of
                   Inl f \<Rightarrow> Inl f | Inr (srv, out, e) \<Rightarrow> Inr (w\<lparr>hwServer1 := srv, hwOut := out\<rparr>, e))))"

text \<open>The worker thread: both servers run the responses they have queued.\<close>

definition run_server :: "string \<Rightarrow> (thrown \<Rightarrow> string) \<Rightarrow> bool \<Rightarrow> hello_world \<Rightarrow> fatal + hello_world" where
  "run_server what typeName second w =
     (let srv = (if second then hwServer2 w else hwServer1 w)
      in case sv_runTask typeName (coServer srv) 0 (hwOut w) of
           Inl f \<Rightarrow> Inl f
         | Inr (sv, out, sent) \<Rightarrow>
             (let w1 = (if second then w\<lparr>hwServer2 := srv\<lparr>coServer := sv\<rparr>, hwOut := out\<rparr> else w\<lparr>hwServer1 := srv\<lparr>coServer := sv\<rparr>, hwOut := out\<rparr>)
              in case sent of
                   None \<Rightarrow> Inr w1
                 | Some (message, requestId, context) \<Rightarrow>
                     (case server_callback what w1 message context of Inl f \<Rightarrow> Inl f | Inr (w2, _) \<Rightarrow> Inr w2)))"

definition run_servers :: "string \<Rightarrow> (thrown \<Rightarrow> string) \<Rightarrow> hello_world \<Rightarrow> fatal + hello_world" where
  "run_servers what typeName w = (case run_server what typeName False w of Inl f \<Rightarrow> Inl f | Inr w1 \<Rightarrow> run_server what typeName True w1)"

definition with_client :: "(hello_communicator \<Rightarrow> fatal + hello_communicator) \<Rightarrow> string \<Rightarrow> hello_world \<Rightarrow> fatal + hello_world" where
  "with_client f clientId w =
     (case om_find (hwClients w) clientId of
        None \<Rightarrow> Inl NullDereference
      | Some co \<Rightarrow> (case f co of Inl x \<Rightarrow> Inl x | Inr co1 \<Rightarrow> Inr (w\<lparr>hwClients := om_put clientId co1 (hwClients w)\<rparr>)))"

abbreviation client_events :: "(ProtoCallContext, string) rpc_event list \<Rightarrow> hello_communicator \<Rightarrow> fatal + hello_communicator" where
  "client_events es co \<equiv> (case cl_run (coClient co) es of Inl f \<Rightarrow> Inl f | Inr cl \<Rightarrow> Inr (co\<lparr>coClient := cl\<rparr>))"

definition then_do :: "'e + 'a \<Rightarrow> ('a \<Rightarrow> 'e + 'b) \<Rightarrow> 'e + 'b" where
  "then_do m f = (case m of Inl e \<Rightarrow> Inl e | Inr x \<Rightarrow> f x)"

text \<open>
  \<^verbatim>\<open>blockingWait(helloClient.sayHello(request, context))\<close>, the first call of a client: \<open>early\<close> says whether the server has answered
  before the callback that carried the request returns.
\<close>

definition hello_call ::
  "string \<Rightarrow> (thrown \<Rightarrow> string) \<Rightarrow> string msg_type \<Rightarrow> string msg_type \<Rightarrow> bool \<Rightarrow> string \<Rightarrow> string \<Rightarrow> string \<Rightarrow> ProtoCallContext \<Rightarrow> hello_world \<Rightarrow>
     fatal + (hello_world \<times> string outcome option)" where
  "hello_call what typeName q r early uuid clientId myname context w =
     then_do (with_client (client_events [Request ''sayHello'' (mtPackFrom q myname) context r None uuid, Start 0, SendBegin 0]) clientId w)
       (\<lambda>w1. then_do (client_callback what clientId w1 (createRequestRpcMessage ''sayHello'' (mtPackFrom q myname) False uuid) context)
          (\<lambda>(w2, e). then_do (if early then run_servers what typeName w2 else Inr w2)
             (\<lambda>w3. then_do (with_client (client_events [SendEnd 0 e]) clientId w3)
                (\<lambda>w4. then_do (if early then Inr w4 else run_servers what typeName w4)
                   (\<lambda>w5. then_do (with_client (client_events [Wake 0, Resume 0]) clientId w5)
                      (\<lambda>w6. Inr (w6, case om_find (hwClients w6) clientId of
                                        None \<Rightarrow> None | Some co \<Rightarrow> caCaller (clCalls (coClient co) ! 0))))))))"

text \<open>The program: what it has printed, and the exception that leaves \<^verbatim>\<open>main\<close>, if one does.\<close>

definition hello_main ::
  "string \<Rightarrow> (thrown \<Rightarrow> string) \<Rightarrow> string msg_type \<Rightarrow> string msg_type \<Rightarrow> bool \<Rightarrow> bool \<Rightarrow> string \<Rightarrow> string \<Rightarrow> fatal + (string list \<times> thrown option)" where
  "hello_main what typeName q r early1 early2 uuid1 uuid2 =
     then_do (hello_call what typeName q r early1 uuid1 ''1'' ''Alice'' (om_put ''targetServerId'' ''2'' []) (hello_setup what q r))
       (\<lambda>(w, response). case response of
          Some (Returns greeting) \<Rightarrow>
            then_do (hello_call what typeName q r early2 uuid2 ''2'' ''Bob'' (om_put ''targetServerId'' ''1'' [])
                       (w\<lparr>hwOut := hwOut w @ [''Client 1 (Alice) got message from server: '' @ greeting]\<rparr>))
              (\<lambda>(w2, response2). case response2 of
                 Some (Returns greeting2) \<Rightarrow> Inr (hwOut w2 @ [''Client 2 (Bob) got message from server: '' @ greeting2], None)
               | Some (Throws e) \<Rightarrow> Inr (hwOut w2, Some e)
               | None \<Rightarrow> Inr (hwOut w2, None))
        | Some (Throws e) \<Rightarrow> Inr (hwOut w, Some e)
        | None \<Rightarrow> Inr (hwOut w, None))"

section \<open>One call\<close>

lemmas hello_defs = then_do_def with_client_def client_callback_def server_callback_def run_servers_def run_server_def map_at_def

abbreviation fresh_client :: hello_communicator where
  "fresh_client \<equiv> co_setOutgoingMessageCallback (communicator_new None)"

definition sent_client :: "string \<Rightarrow> RpcMessage \<Rightarrow> ProtoCallContext \<Rightarrow> string msg_type \<Rightarrow> string settlement list \<Rightarrow> string task \<Rightarrow> hello_communicator" where
  "sent_client uuid msg context r promise task =
     fresh_client\<lparr>coClient := (coClient fresh_client)\<lparr>
       clOngoing := (if promise = [] then [(uuid, 0)] else []),
       clCalls := [\<lparr>caMessage = msg, caContext = context, caType = r, caTimeout = 5000, caPromise = promise, caTask = task, caCaller = None\<rparr>],
       clSent := [(msg, uuid, context)]\<rparr>\<rparr>"

lemmas client_defs = communicator_new_def co_setOutgoingMessageCallback_def client_new_def defaultRpcRequestTimeout_def

lemma call_begin:
  assumes "msg = createRequestRpcMessage ''sayHello'' (mtPackFrom q myname) False uuid"
  shows "client_events [Request ''sayHello'' (mtPackFrom q myname) context r None uuid, Start 0, SendBegin 0] fresh_client =
    Inr (sent_client uuid msg context r [] Sending)"
  using assms by (simp add: client_defs request_def request_start_def makeRpcRequest_begin_def set_call_def Let_def sent_client_def
      om_emplace_def om_contains_def request_header)

lemma call_end: "client_events [SendEnd 0 None] (sent_client uuid msg context r promise Sending) = Inr (sent_client uuid msg context r promise Awaiting)"
  by (simp add: makeRpcRequest_end_def set_call_def sent_client_def)

lemma call_return:
  "\<exists>co. client_events [Wake 0, Resume 0] (sent_client uuid msg context r [SetValue v] Awaiting) = Inr co \<and>
     caCaller (clCalls (coClient co) ! 0) = Some (Returns v)"
  by (simp add: request_wake_def request_resume_def set_call_def sent_client_def)

text \<open>What a server does with the request, and what the client does with the response.\<close>

definition serving :: "string \<Rightarrow> string msg_type \<Rightarrow> string msg_type \<Rightarrow> string \<Rightarrow> RpcMessage \<Rightarrow> string \<Rightarrow> hello_communicator" where
  "serving what q r serviceId msg sourceId =
     (hello_server what q r serviceId)\<lparr>coServer := (coServer (hello_server what q r serviceId))\<lparr>
        svTasks := [(Some (wrap_method q r (sayHello what serviceId)), msg, [(''sourceId'', sourceId)])]\<rparr>\<rparr>"

lemma server_receives:
  assumes "msg = createRequestRpcMessage ''sayHello'' (mtPackFrom q myname) False uuid"
  shows "co_onIncomingMessage (hello_server what q r serviceId) msg [(''sourceId'', sourceId)] out =
    Inr (serving what q r serviceId msg sourceId, out, None)"
  using assms by (simp add: co_onIncomingMessage_def sv_onIncomingMessage_def sv_handleRequest_def request_header getAsyncHandler_request
      serving_def hello_server_def client_defs server_new_def registerRpcMethod_def registry_empty_def method_handler_def om_find_def)

lemma server_idle: "sv_runTask typeName (coServer (hello_server what q r serviceId)) 0 out = Inr (coServer (hello_server what q r serviceId), out, None)"
  by (simp add: sv_runTask_def hello_server_def client_defs server_new_def)

text \<open>A server that runs one task, for any handler, and the client that gets its response.\<close>

lemma method_answers:
  assumes msg: "msg = createRequestRpcMessage ''sayHello'' (mtPackFrom q myname) False uuid"
    and law: "\<And>m. mtUnpackTo q (mtPackFrom q m) = (True, m)" "\<And>m. mtUnpackTo r (mtPackFrom r m) = (True, m)"
    and f: "f myname ctx out = (out', Inr v)" and sv: "svTasks sv = [(Some (wrap_method q r f), msg, ctx)]" "svHasCallback sv"
  shows "\<exists>resp. sv_runTask typeName sv 0 out = Inr (sv\<lparr>svTasks := []\<rparr>, out', Some (resp, uuid, ctx)) \<and>
    (\<forall>task out1 context ctx1. co_onIncomingMessage (sent_client uuid msg context r [] task) resp ctx1 out1 =
       Inr (sent_client uuid msg context r [SetValue v] task, out1, None))"
proof -
  have h: "wrap_method q r f (mtPackFrom q myname) ctx out = (out', Inr (mtPackFrom r v))"
    by (simp add: wrap_method_def wrappedParseAny_def law(1) f)
  define resp where "resp = \<lparr>rmHeader = om_emplace ''method'' ''sayHello'' (om_emplace ''response'' ''response'' []),
    rmBody = Some (mtPackFrom r v), rmRequestId = uuid, rmErrorType = None, rmErrorClassName = None, rmErrorCode = None, rmErrorMessage = None\<rparr>"
  have "makeResponseTask typeName (Some (wrap_method q r f)) msg ctx out = (out', Inr resp)"
    by (simp add: makeResponseTask_def msg request_header h createResponseRpcMessage_def params_for_def resp_def)
  then have "sv_runTask typeName sv 0 out = Inr (sv\<lparr>svTasks := []\<rparr>, out', Some (resp, uuid, ctx))"
    by (simp add: sv_runTask_def sv) (simp add: resp_def)
  moreover have "co_onIncomingMessage (sent_client uuid msg context r [] task) resp ctx1 out1 =
      Inr (sent_client uuid msg context r [SetValue v] task, out1, None)" for task out1 "context" ctx1
    using law(2) [of v]
    by (simp add: co_onIncomingMessage_def cl_onIncomingMessage_def resolveOngoingRequest_def resolvePromise_def settle_def set_call_def
        erase_ongoing_def resp_def has_header_def om_contains_find om_find_Nil sent_client_def client_defs om_erase_def)
      (simp add: om_find_def resolveOngoingRequest_def resolvePromise_def settle_def set_call_def erase_ongoing_def om_erase_def)
  ultimately show ?thesis by blast
qed

lemma server_answers:
  assumes msg: "msg = createRequestRpcMessage ''sayHello'' (mtPackFrom q myname) False uuid"
    and law: "\<And>m. mtUnpackTo q (mtPackFrom q m) = (True, m)" "\<And>m. mtUnpackTo r (mtPackFrom r m) = (True, m)"
  shows "\<exists>resp. sv_runTask typeName (coServer (serving what q r serviceId msg sourceId)) 0 out =
      Inr (coServer (hello_server what q r serviceId),
           out @ [''sayHello() called on server '' @ serviceId @ '' with context parameter sourceId '' @ sourceId],
           Some (resp, uuid, [(''sourceId'', sourceId)])) \<and>
    (\<forall>task out1. co_onIncomingMessage (sent_client uuid msg context r [] task) resp [(''sourceId'', sourceId)] out1 =
       Inr (sent_client uuid msg context r [SetValue (''Hello, '' @ myname @ ''!'')] task, out1, None))"
proof -
  let ?sv = "coServer (serving what q r serviceId msg sourceId)"
  have hello: "sayHello what serviceId myname [(''sourceId'', sourceId)] out =
      (out @ [''sayHello() called on server '' @ serviceId @ '' with context parameter sourceId '' @ sourceId], Inr (''Hello, '' @ myname @ ''!''))"
    by (simp add: sayHello_def map_at_def om_find_def)
  have sv: "svTasks ?sv = [(Some (wrap_method q r (sayHello what serviceId)), msg, [(''sourceId'', sourceId)])]" "svHasCallback ?sv"
      "?sv\<lparr>svTasks := []\<rparr> = coServer (hello_server what q r serviceId)"
    by (simp_all add: serving_def hello_server_def client_defs server_new_def)
  show ?thesis using method_answers [where f = "sayHello what serviceId", OF msg law hello sv(1,2), of typeName] unfolding sv(3) by blast
qed

definition hello_ready :: "string \<Rightarrow> string msg_type \<Rightarrow> string msg_type \<Rightarrow> string \<Rightarrow> hello_world \<Rightarrow> bool" where
  "hello_ready what q r clientId w \<longleftrightarrow>
     hwServer1 w = hello_server what q r ''1'' \<and> hwServer2 w = hello_server what q r ''2'' \<and> om_find (hwClients w) clientId = Some fresh_client"

lemma run_servers_answer:
  assumes servers: "hwServer1 w = (if second then hello_server what q r ''1'' else serving what q r ''1'' msg clientId)"
      "hwServer2 w = (if second then serving what q r ''2'' msg clientId else hello_server what q r ''2'')"
    and client: "om_find (hwClients w) clientId = Some (sent_client uuid msg context r [] task)"
    and msg: "msg = createRequestRpcMessage ''sayHello'' (mtPackFrom q myname) False uuid"
    and law: "\<And>m. mtUnpackTo q (mtPackFrom q m) = (True, m)" "\<And>m. mtUnpackTo r (mtPackFrom r m) = (True, m)"
  shows "run_servers what typeName w = Inr (w\<lparr>
      hwServer1 := hello_server what q r ''1'', hwServer2 := hello_server what q r ''2'',
      hwClients := om_put clientId (sent_client uuid msg context r [SetValue (''Hello, '' @ myname @ ''!'')] task) (hwClients w),
      hwOut := hwOut w @ [''sayHello() called on server '' @ (if second then ''2'' else ''1'') @ '' with context parameter sourceId '' @ clientId]\<rparr>)"
proof -
  let ?id = "if second then ''2'' else ''1''"
  let ?line = "''sayHello() called on server '' @ ?id @ '' with context parameter sourceId '' @ clientId"
  obtain resp where resp: "sv_runTask typeName (coServer (serving what q r ?id msg clientId)) 0 (hwOut w) =
      Inr (coServer (hello_server what q r ?id), hwOut w @ [?line], Some (resp, uuid, [(''sourceId'', clientId)]))"
      "\<And>task out1. co_onIncomingMessage (sent_client uuid msg context r [] task) resp [(''sourceId'', clientId)] out1 =
       Inr (sent_client uuid msg context r [SetValue (''Hello, '' @ myname @ ''!'')] task, out1, None)"
    using server_answers [OF msg law, of typeName what ?id clientId "hwOut w" "context"] by blast
  have same: "(serving what q r i msg clientId)\<lparr>coServer := coServer (hello_server what q r i)\<rparr> = hello_server what q r i"
    "(hello_server what q r i)\<lparr>coServer := coServer (hello_server what q r i)\<rparr> = hello_server what q r i" for i
    by (simp_all add: serving_def)
  have at: "map_at what [(''sourceId'', clientId)] ''sourceId'' = Inr clientId" by (simp add: map_at_def om_find_def)
  show ?thesis
  proof (cases second)
    case True
    have w1: "run_server what typeName False w = Inr w"
      using servers True by (simp add: run_server_def server_idle same)
    show ?thesis
      using True servers resp w1 by (simp add: run_servers_def run_server_def server_callback_def at client same)
  next
    case False
    then show ?thesis
      using servers resp by (simp add: run_servers_def run_server_def server_callback_def at client server_idle same)
  qed
qed

lemma then_do_Inr: "then_do (Inr x) f = f x"
  by (simp add: then_do_def)

lemma hello_call_served:
  assumes ready: "hello_ready what q r clientId w"
    and law: "\<And>m. mtUnpackTo q (mtPackFrom q m) = (True, m)" "\<And>m. mtUnpackTo r (mtPackFrom r m) = (True, m)"
  shows "\<exists>w1. hello_call what typeName q r early uuid clientId myname [(''targetServerId'', target)] w = Inr (w1, Some (Returns (''Hello, '' @ myname @ ''!''))) \<and>
    hwOut w1 = hwOut w @ [''sayHello() called on server '' @ (if target = ''2'' then ''2'' else ''1'') @ '' with context parameter sourceId '' @ clientId] \<and>
    hwServer1 w1 = hwServer1 w \<and> hwServer2 w1 = hwServer2 w \<and> (\<forall>k. k \<noteq> clientId \<longrightarrow> om_find (hwClients w1) k = om_find (hwClients w) k)"
proof -
  let ?msg = "createRequestRpcMessage ''sayHello'' (mtPackFrom q myname) False uuid" let ?ctx = "[(''targetServerId'', target)]"
  let ?sent = "sent_client uuid ?msg ?ctx r" let ?second = "target = ''2''"
  let ?w1 = "w\<lparr>hwClients := om_put clientId (?sent [] Sending) (hwClients w)\<rparr>"
  let ?s1 = "if ?second then hello_server what q r ''1'' else serving what q r ''1'' ?msg clientId"
  let ?s2 = "if ?second then serving what q r ''2'' ?msg clientId else hello_server what q r ''2''"
  let ?w2 = "?w1\<lparr>hwServer1 := ?s1, hwServer2 := ?s2\<rparr>"
  have begins: "with_client (client_events [Request ''sayHello'' (mtPackFrom q myname) ?ctx r None uuid, Start 0, SendBegin 0]) clientId w = Inr ?w1"
    using ready call_begin [OF refl, of q myname ?ctx r uuid] unfolding with_client_def hello_ready_def by simp
  have at: "map_at what [(''targetServerId'', t)] ''targetServerId'' = Inr t" for t by (simp add: map_at_def om_find_def)
  have callback: "client_callback what clientId ?w1 ?msg ?ctx = Inr (?w2, None)"
    using ready server_receives [OF refl, of what q r _ myname uuid clientId "hwOut w"]
    by (cases w; cases ?second) (simp_all add: client_callback_def at hello_ready_def)
  have ends: "with_client (client_events [SendEnd 0 None]) clientId w3 = Inr (w3\<lparr>hwClients := om_put clientId (?sent promise Awaiting) (hwClients w3)\<rparr>)"
    if "om_find (hwClients w3) clientId = Some (?sent promise Sending)" for w3 promise
    using that call_end unfolding with_client_def by simp
  obtain co where co: "client_events [Wake 0, Resume 0] (?sent [SetValue (''Hello, '' @ myname @ ''!'')] Awaiting) = Inr co"
      "caCaller (clCalls (coClient co) ! 0) = Some (Returns (''Hello, '' @ myname @ ''!''))"
    using call_return by blast
  have returns: "with_client (client_events [Wake 0, Resume 0]) clientId w3 = Inr (w3\<lparr>hwClients := om_put clientId co (hwClients w3)\<rparr>)"
    if "om_find (hwClients w3) clientId = Some (?sent [SetValue (''Hello, '' @ myname @ ''!'')] Awaiting)" for w3
    using that co(1) unfolding with_client_def by simp
  let ?v = "SetValue (''Hello, '' @ myname @ ''!'')"
  let ?line = "''sayHello() called on server '' @ (if ?second then ''2'' else ''1'') @ '' with context parameter sourceId '' @ clientId"
  let ?done = "\<lambda>w3 task. w3\<lparr>hwServer1 := hello_server what q r ''1'', hwServer2 := hello_server what q r ''2'',
      hwClients := om_put clientId (?sent [?v] task) (hwClients w3), hwOut := hwOut w3 @ [?line]\<rparr>"
  have run: "run_servers what typeName w3 = Inr (?done w3 task)"
    if "hwServer1 w3 = ?s1" "hwServer2 w3 = ?s2" "om_find (hwClients w3) clientId = Some (?sent [] task)" for w3 task
    by (rule run_servers_answer [OF that refl law])
  have final: "?thesis" if "hello_call what typeName q r early uuid clientId myname ?ctx w =
      Inr (w5, case om_find (hwClients w5) clientId of None \<Rightarrow> None | Some co \<Rightarrow> caCaller (clCalls (coClient co) ! 0))"
      "w5 = w4\<lparr>hwClients := om_put clientId co (hwClients w4)\<rparr>" "hwOut w4 = hwOut w @ [?line]"
      "hwServer1 w4 = hello_server what q r ''1''" "hwServer2 w4 = hello_server what q r ''2''"
      "\<And>k. k \<noteq> clientId \<Longrightarrow> om_find (hwClients w4) k = om_find (hwClients w) k" for w4 w5
    using that ready co(2) by (simp add: hello_ready_def)
  show ?thesis
  proof (cases early)
    case True
    let ?w3 = "?done ?w2 Sending" let ?w4 = "?w3\<lparr>hwClients := om_put clientId (?sent [?v] Awaiting) (hwClients ?w3)\<rparr>"
    have "run_servers what typeName ?w2 = Inr ?w3" by (rule run) simp_all
    moreover have "with_client (client_events [SendEnd 0 None]) clientId ?w3 = Inr ?w4" by (rule ends) simp
    moreover have "with_client (client_events [Wake 0, Resume 0]) clientId ?w4 = Inr (?w4\<lparr>hwClients := om_put clientId co (hwClients ?w4)\<rparr>)"
      by (rule returns) simp
    ultimately show ?thesis
      by (intro final) (simp only: hello_call_def begins callback then_do_Inr True if_True split_conv, rule refl, simp_all)
  next
    case False
    let ?w3 = "?w2\<lparr>hwClients := om_put clientId (?sent [] Awaiting) (hwClients ?w2)\<rparr>" let ?w4 = "?done ?w3 Awaiting"
    have "with_client (client_events [SendEnd 0 None]) clientId ?w2 = Inr ?w3" by (rule ends) simp
    moreover have "run_servers what typeName ?w3 = Inr ?w4" by (rule run) simp_all
    moreover have "with_client (client_events [Wake 0, Resume 0]) clientId ?w4 = Inr (?w4\<lparr>hwClients := om_put clientId co (hwClients ?w4)\<rparr>)"
      by (rule returns) simp
    ultimately show ?thesis
      by (intro final) (simp only: hello_call_def begins callback then_do_Inr False if_False split_conv, rule refl, simp_all)
  qed
qed

section \<open>Properties\<close>

text \<open>
  The program prints that server 2 has served client 1 and greets Alice, and that server 1 has served client 2 and greets Bob, and ends
  without an exception, in every order of the threads.
\<close>

theorem hello_main_output:
  assumes q: "\<And>m. mtUnpackTo q (mtPackFrom q m) = (True, m)" and r: "\<And>m. mtUnpackTo r (mtPackFrom r m) = (True, m)"
  shows "hello_main what typeName q r early1 early2 uuid1 uuid2 =
    Inr ([''sayHello() called on server 2 with context parameter sourceId 1'',
          ''Client 1 (Alice) got message from server: Hello, Alice!'',
          ''sayHello() called on server 1 with context parameter sourceId 2'',
          ''Client 2 (Bob) got message from server: Hello, Bob!''], None)"
proof -
  let ?w = "hello_setup what q r"
  have ready: "hello_ready what q r ''1'' ?w" "om_find (hwClients ?w) ''2'' = Some fresh_client" "hwOut ?w = []"
    by (simp_all add: hello_ready_def hello_setup_def om_find_def)
  obtain w1 where w1: "hello_call what typeName q r early1 uuid1 ''1'' ''Alice'' [(''targetServerId'', ''2'')] ?w = Inr (w1, Some (Returns ''Hello, Alice!''))"
      "hwOut w1 = [''sayHello() called on server 2 with context parameter sourceId 1'']" "hello_ready what q r ''2'' w1"
    using hello_call_served [OF ready(1) q r, of typeName early1 uuid1 "''Alice''" "''2''"] ready by (auto simp: hello_ready_def)
  let ?w1 = "w1\<lparr>hwOut := hwOut w1 @ [''Client 1 (Alice) got message from server: Hello, Alice!'']\<rparr>"
  have "hello_ready what q r ''2'' ?w1" using w1(3) by (simp add: hello_ready_def)
  then obtain w2 where w2: "hello_call what typeName q r early2 uuid2 ''2'' ''Bob'' [(''targetServerId'', ''1'')] ?w1 = Inr (w2, Some (Returns ''Hello, Bob!''))"
      "hwOut w2 = hwOut ?w1 @ [''sayHello() called on server 1 with context parameter sourceId 2'']"
    using hello_call_served [OF _ q r, of what "''2''" ?w1 typeName early2 uuid2 "''Bob''" "''1''"] by auto
  show ?thesis using w1 w2 by (simp add: hello_main_def then_do_def)
qed

theorem hello_main_output_witness:
  "hello_main [] (\<lambda>e. []) (text_type ''Q'') (text_type ''R'') True False ''a'' ''b'' =
    Inr ([''sayHello() called on server 2 with context parameter sourceId 1'',
          ''Client 1 (Alice) got message from server: Hello, Alice!'',
          ''sayHello() called on server 1 with context parameter sourceId 2'',
          ''Client 2 (Bob) got message from server: Hello, Bob!''], None)"
  by (rule hello_main_output) (rule text_type_law)+

section \<open>The small example\<close>

text \<open>\<^verbatim>\<open>hello.cpp\<close>: the service needs no context, and the callbacks hand each message to the other communicator with an empty one.\<close>

definition simple_sayHello :: "string \<Rightarrow> ProtoCallContext \<Rightarrow> string list \<Rightarrow> string list \<times> (thrown + string)" where
  "simple_sayHello myname callContext out = (out, Inr (''Hello, '' @ myname))"

record simple_world =
  swCommunicator1 :: hello_communicator
  swCommunicator2 :: hello_communicator
  swOut :: "string list"

definition simple_setup :: "string msg_type \<Rightarrow> string msg_type \<Rightarrow> simple_world" where
  "simple_setup q r =
     \<lparr>swCommunicator1 = co_setOutgoingMessageCallback
        ((communicator_new None)\<lparr>coServer := server_new\<lparr>svRegistry := registerRpcMethod q r ''sayHello'' simple_sayHello 0 registry_empty\<rparr>\<rparr>),
      swCommunicator2 = co_setOutgoingMessageCallback (communicator_new None), swOut = []\<rparr>"

definition simple_deliver2 :: "RpcMessage \<Rightarrow> simple_world \<Rightarrow> fatal + (simple_world \<times> thrown option)" where
  "simple_deliver2 message w =
     (case co_onIncomingMessage (swCommunicator2 w) message [] (swOut w) of
        Inl f \<Rightarrow> Inl f | Inr (co, out, e) \<Rightarrow> Inr (w\<lparr>swCommunicator2 := co, swOut := out\<rparr>, e))"

definition simple_deliver1 :: "RpcMessage \<Rightarrow> simple_world \<Rightarrow> fatal + (simple_world \<times> thrown option)" where
  "simple_deliver1 message w =
     (case co_onIncomingMessage (swCommunicator1 w) message [] (swOut w) of
        Inl f \<Rightarrow> Inl f | Inr (co, out, e) \<Rightarrow> Inr (w\<lparr>swCommunicator1 := co, swOut := out\<rparr>, e))"

text \<open>The worker thread of the server.\<close>

definition simple_serve :: "(thrown \<Rightarrow> string) \<Rightarrow> simple_world \<Rightarrow> fatal + simple_world" where
  "simple_serve typeName w =
     (case sv_runTask typeName (coServer (swCommunicator1 w)) 0 (swOut w) of
        Inl f \<Rightarrow> Inl f
      | Inr (sv, out, sent) \<Rightarrow>
          (let w1 = w\<lparr>swCommunicator1 := (swCommunicator1 w)\<lparr>coServer := sv\<rparr>, swOut := out\<rparr>
           in case sent of
                None \<Rightarrow> Inr w1
              | Some (message, requestId, callContext) \<Rightarrow> then_do (simple_deliver2 message w1) (\<lambda>(w2, e). Inr w2)))"

definition simple_client :: "(ProtoCallContext, string) rpc_event list \<Rightarrow> simple_world \<Rightarrow> fatal + simple_world" where
  "simple_client es w = then_do (client_events es (swCommunicator2 w)) (\<lambda>co. Inr (w\<lparr>swCommunicator2 := co\<rparr>))"

text \<open>\<^verbatim>\<open>main\<close>: \<open>early\<close> says whether the server has answered before the callback that carried the request returns.\<close>

definition simple_main ::
  "(thrown \<Rightarrow> string) \<Rightarrow> string msg_type \<Rightarrow> string msg_type \<Rightarrow> bool \<Rightarrow> string \<Rightarrow> fatal + (string list \<times> thrown option)" where
  "simple_main typeName q r early uuid =
     then_do (simple_client [Request ''sayHello'' (mtPackFrom q ''Alice'') [] r None uuid, Start 0, SendBegin 0] (simple_setup q r))
       (\<lambda>w1. then_do (simple_deliver1 (createRequestRpcMessage ''sayHello'' (mtPackFrom q ''Alice'') False uuid) w1)
          (\<lambda>(w2, e). then_do (if early then simple_serve typeName w2 else Inr w2)
             (\<lambda>w3. then_do (simple_client [SendEnd 0 e] w3)
                (\<lambda>w4. then_do (if early then Inr w4 else simple_serve typeName w4)
                   (\<lambda>w5. then_do (simple_client [Wake 0, Resume 0] w5)
                      (\<lambda>w6. Inr (case caCaller (clCalls (coClient (swCommunicator2 w6)) ! 0) of
                                   Some (Returns greeting) \<Rightarrow> (swOut w6 @ [greeting], None)
                                 | Some (Throws t) \<Rightarrow> (swOut w6, Some t)
                                 | None \<Rightarrow> (swOut w6, None))))))))"
definition simple_server :: "string msg_type \<Rightarrow> string msg_type \<Rightarrow> RpcMessage option \<Rightarrow> hello_communicator" where
  "simple_server q r req =
     (swCommunicator1 (simple_setup q r))\<lparr>coServer := (coServer (swCommunicator1 (simple_setup q r)))\<lparr>
        svTasks := (case req of None \<Rightarrow> [] | Some msg \<Rightarrow> [(Some (wrap_method q r simple_sayHello), msg, [])])\<rparr>\<rparr>"

lemma simple_serves:
  assumes msg: "msg = createRequestRpcMessage ''sayHello'' (mtPackFrom q myname) False uuid"
    and law: "\<And>m. mtUnpackTo q (mtPackFrom q m) = (True, m)" "\<And>m. mtUnpackTo r (mtPackFrom r m) = (True, m)"
  shows "simple_serve typeName \<lparr>swCommunicator1 = simple_server q r (Some msg), swCommunicator2 = sent_client uuid msg context r [] task, swOut = out\<rparr> =
    Inr \<lparr>swCommunicator1 = simple_server q r None, swCommunicator2 = sent_client uuid msg context r [SetValue (''Hello, '' @ myname)] task, swOut = out\<rparr>"
proof -
  let ?sv = "coServer (simple_server q r (Some msg))"
  have f: "simple_sayHello myname [] out = (out, Inr (''Hello, '' @ myname))" by (simp add: simple_sayHello_def)
  have sv: "svTasks ?sv = [(Some (wrap_method q r simple_sayHello), msg, [])]" "svHasCallback ?sv"
      "(simple_server q r (Some msg))\<lparr>coServer := ?sv\<lparr>svTasks := []\<rparr>\<rparr> = simple_server q r None"
    by (simp_all add: simple_server_def simple_setup_def client_defs server_new_def)
  obtain resp where "sv_runTask typeName ?sv 0 out = Inr (?sv\<lparr>svTasks := []\<rparr>, out, Some (resp, uuid, []))"
      "\<And>task out1 context ctx1. co_onIncomingMessage (sent_client uuid msg context r [] task) resp ctx1 out1 =
         Inr (sent_client uuid msg context r [SetValue (''Hello, '' @ myname)] task, out1, None)"
    using method_answers [where f = simple_sayHello, OF msg law f sv(1,2), of typeName] by blast
  then show ?thesis by (simp add: simple_serve_def simple_deliver2_def then_do_def sv(3))
qed

text \<open>The small example greets Alice, in both orders of its threads.\<close>

theorem simple_main_output:
  assumes "\<And>m. mtUnpackTo q (mtPackFrom q m) = (True, m)" "\<And>m. mtUnpackTo r (mtPackFrom r m) = (True, m)"
  shows "simple_main typeName q r early uuid = Inr ([''Hello, Alice''], None)"
proof -
  let ?msg = "createRequestRpcMessage ''sayHello'' (mtPackFrom q ''Alice'') False uuid"
  let ?sent = "sent_client uuid ?msg [] r"
  let ?w = "\<lambda>req promise task. \<lparr>swCommunicator1 = simple_server q r req, swCommunicator2 = ?sent promise task, swOut = []\<rparr>"
  have initial: "simple_setup q r = \<lparr>swCommunicator1 = simple_server q r None, swCommunicator2 = fresh_client, swOut = []\<rparr>"
    by (simp add: simple_setup_def simple_server_def client_defs server_new_def)
  have begins: "simple_client [Request ''sayHello'' (mtPackFrom q ''Alice'') [] r None uuid, Start 0, SendBegin 0] (simple_setup q r) = Inr (?w None [] Sending)"
    unfolding simple_client_def initial using call_begin [OF refl, of q "''Alice''" "[]" r uuid] by (simp only: then_do_Inr simple_world.simps)
  have receives: "simple_deliver1 ?msg (?w None [] Sending) = Inr (?w (Some ?msg) [] Sending, None)"
    by (simp add: simple_deliver1_def co_onIncomingMessage_def sv_onIncomingMessage_def sv_handleRequest_def request_header getAsyncHandler_request
      simple_server_def simple_setup_def client_defs server_new_def registerRpcMethod_def registry_empty_def method_handler_def om_find_def)
  have serves: "simple_serve typeName (?w (Some ?msg) [] task) = Inr (?w None [SetValue ''Hello, Alice''] task)" for task
    using simple_serves [OF refl assms, of typeName "''Alice''" uuid "[]" task "[]"] by simp
  have sends: "simple_client [SendEnd 0 None] (?w req promise Sending) = Inr (?w req promise Awaiting)" for req promise
    unfolding simple_client_def using call_end [of uuid ?msg "[]" r promise] by (simp only: then_do_Inr simple_world.simps)
  obtain co where co: "client_events [Wake 0, Resume 0] (?sent [SetValue ''Hello, Alice''] Awaiting) = Inr co"
      "caCaller (clCalls (coClient co) ! 0) = Some (Returns ''Hello, Alice'')"
    using call_return by blast
  have returns: "simple_client [Wake 0, Resume 0] (?w None [SetValue ''Hello, Alice''] Awaiting) =
      Inr \<lparr>swCommunicator1 = simple_server q r None, swCommunicator2 = co, swOut = []\<rparr>"
    unfolding simple_client_def using co(1) by (simp only: then_do_Inr simple_world.simps)
  show ?thesis
    by (cases early) (simp_all only: simple_main_def begins receives serves sends returns then_do_Inr split_conv if_True if_False,
      simp_all add: co(2))
qed

theorem simple_main_output_witness: "simple_main (\<lambda>e. []) (text_type ''Q'') (text_type ''R'') True ''a'' = Inr ([''Hello, Alice''], None)"
  by (rule simple_main_output) (rule text_type_law)+

end
