(* ===== verification/Handshake.thy ===== *)
theory Handshake
  imports Node_List
begin

text \<open>
  The handshakes by which the nodes of a stream part become neighbours: the server side (\<^verbatim>\<open>HandshakeRpcLocal.cppm\<close>), the
  client side (\<^verbatim>\<open>Handshaker.cppm\<close>) and the calls between them (\<^verbatim>\<open>HandshakeRpcRemote.cppm\<close>).  Every coroutine is an
  object with a stage; what it does between two suspension points is one step, and the steps of all of them interleave with the
  incoming calls.  The network decides the answer of a remote call, \<open>None\<close> being a call that throws.  Sizes are
  \<^verbatim>\<open>size_t\<close>, so that a difference of two of them wraps around.
\<close>

section \<open>State\<close>

record StreamPartHandshakeRequest =
  hrRequestId :: string
  hrNeighborNodeIds :: "DhtAddressRaw list"
  hrConcurrentHandshakeNodeId :: "DhtAddressRaw option"
  hrInterleaveNodeId :: "DhtAddressRaw option"

record StreamPartHandshakeResponse =
  hpRequestId :: string
  hpAccepted :: bool
  hpInterleaveTarget :: "PeerDescriptor option"

text \<open>
  A running \<^verbatim>\<open>handshakeWithTarget\<close>, or a running \<^verbatim>\<open>interleaveRequest\<close> that was called by the node with the given id; the flag
  of the second stage is the answer of the first target.
\<close>

datatype hs_kind = WithTarget "DhtAddress option" | InterleaveFor DhtAddress

datatype hs_stage = AwaitTarget | AwaitInterleaveTarget PeerDescriptor bool | Ended "cpp_error + bool"

record hs_op =
  opTarget :: PeerDescriptor
  opKind :: hs_kind
  opStage :: hs_stage

text \<open>\<^verbatim>\<open>std::set<DhtAddress>\<close> as an ascending list.\<close>

type_synonym id_set = "DhtAddress list"

definition ids_insert :: "DhtAddress \<Rightarrow> id_set \<Rightarrow> id_set" where
  "ids_insert k ids = (if k \<in> set ids then ids else insort k ids)"

definition ids_erase :: "DhtAddress \<Rightarrow> id_set \<Rightarrow> id_set" where
  "ids_erase k ids = filter (\<lambda>i. i \<noteq> k) ids"

record handshaker =
  hsNeighbors :: node_list
  hsLeft :: node_list
  hsRight :: node_list
  hsNearby :: node_list
  hsRandom :: node_list
  hsMaxNeighborCount :: "64 word"
  hsOngoingHandshakes :: id_set
  hsOngoingInterleaves :: id_set
  hsInterleaveTasks :: "(DhtAddress \<times> PeerDescriptor \<times> PeerDescriptor) list"
  hsOps :: "hs_op list"
  hsNextObject :: nat
  hsEvents :: "node_list_event list"

definition hs_create :: "DhtAddress \<Rightarrow> nat \<Rightarrow> 64 word \<Rightarrow> handshaker" where
  "hs_create ownId limit maxNeighborCount =
     \<lparr>hsNeighbors = nl_create ownId limit, hsLeft = nl_create ownId limit, hsRight = nl_create ownId limit, hsNearby = nl_create ownId limit,
      hsRandom = nl_create ownId limit, hsMaxNeighborCount = maxNeighborCount, hsOngoingHandshakes = [], hsOngoingInterleaves = [],
      hsInterleaveTasks = [], hsOps = [], hsNextObject = 0, hsEvents = []\<rparr>"

abbreviation size_t :: "nat \<Rightarrow> 64 word" where
  "size_t n \<equiv> word_of_nat n"

abbreviation pdId :: "hex_codec \<Rightarrow> PeerDescriptor \<Rightarrow> DhtAddress" where
  "pdId hx pd \<equiv> getNodeIdFromPeerDescriptor hx pd"

text \<open>\<^verbatim>\<open>neighbors.add(createContentDeliveryRpcRemote(peer))\<close> and \<^verbatim>\<open>neighbors.remove(id)\<close>.\<close>

definition add_neighbor :: "hex_codec \<Rightarrow> PeerDescriptor \<Rightarrow> handshaker \<Rightarrow> handshaker" where
  "add_neighbor hx peer h =
     (case nl_add hx (hsNeighbors h) \<lparr>getPeerDescriptor = peer, remoteObject = hsNextObject h\<rparr> of
        (l, es) \<Rightarrow> h\<lparr>hsNeighbors := l, hsNextObject := Suc (hsNextObject h), hsEvents := hsEvents h @ es\<rparr>)"

definition remove_neighbor :: "DhtAddress \<Rightarrow> handshaker \<Rightarrow> handshaker" where
  "remove_neighbor nodeId h = (case nl_remove (hsNeighbors h) nodeId of (l, es) \<Rightarrow> h\<lparr>hsNeighbors := l, hsEvents := hsEvents h @ es\<rparr>)"

definition begin_handshake :: "DhtAddress \<Rightarrow> handshaker \<Rightarrow> handshaker" where
  "begin_handshake nodeId h = h\<lparr>hsOngoingHandshakes := ids_insert nodeId (hsOngoingHandshakes h)\<rparr>"

definition end_handshake :: "DhtAddress \<Rightarrow> handshaker \<Rightarrow> handshaker" where
  "end_handshake nodeId h = h\<lparr>hsOngoingHandshakes := ids_erase nodeId (hsOngoingHandshakes h)\<rparr>"

section \<open>The server side\<close>

definition hs_response :: "StreamPartHandshakeRequest \<Rightarrow> bool \<Rightarrow> PeerDescriptor option \<Rightarrow> StreamPartHandshakeResponse" where
  "hs_response request accepted target = \<lparr>hpRequestId = hrRequestId request, hpAccepted = accepted, hpInterleaveTarget = target\<rparr>"

definition acceptHandshake :: "hex_codec \<Rightarrow> handshaker \<Rightarrow> StreamPartHandshakeRequest \<Rightarrow> PeerDescriptor \<Rightarrow> handshaker \<times> StreamPartHandshakeResponse" where
  "acceptHandshake hx h request requester = (add_neighbor hx requester h, hs_response request True None)"

definition rejectHandshake :: "handshaker \<Rightarrow> StreamPartHandshakeRequest \<Rightarrow> handshaker \<times> StreamPartHandshakeResponse" where
  "rejectHandshake h request = (h, hs_response request False None)"

definition interleave_exclude :: "hex_codec \<Rightarrow> handshaker \<Rightarrow> StreamPartHandshakeRequest \<Rightarrow> PeerDescriptor \<Rightarrow> DhtAddress list" where
  "interleave_exclude hx h request requester =
     map (getDhtAddressFromRaw hx) (hrNeighborNodeIds request) @ hsOngoingInterleaves h @ [pdId hx requester] @
     (case hrInterleaveNodeId request of Some i \<Rightarrow> [getDhtAddressFromRaw hx i] | None \<Rightarrow> [])"

definition acceptHandshakeWithInterleaving ::
  "hex_codec \<Rightarrow> handshaker \<Rightarrow> StreamPartHandshakeRequest \<Rightarrow> PeerDescriptor \<Rightarrow> handshaker \<times> StreamPartHandshakeResponse" where
  "acceptHandshakeWithInterleaving hx h request requester =
     (case getLast hx (hsNeighbors h) (interleave_exclude hx h request requester) of
        None \<Rightarrow> (add_neighbor hx requester h, hs_response request True None)
      | Some lastNode \<Rightarrow>
          (let lastPeerDescriptor = getPeerDescriptor lastNode; nodeId = pdId hx lastPeerDescriptor;
               h1 = h\<lparr>hsOngoingInterleaves := ids_insert nodeId (hsOngoingInterleaves h),
                      hsInterleaveTasks := hsInterleaveTasks h @ [(nodeId, lastPeerDescriptor, requester)]\<rparr>
           in (add_neighbor hx requester h1, hs_response request True (Some lastPeerDescriptor))))"

text \<open>The task that asks the handed-over node to shake hands with the requester ends with the answer of that node.\<close>

definition interleave_ends :: "hex_codec \<Rightarrow> handshaker \<Rightarrow> nat \<Rightarrow> bool option \<Rightarrow> handshaker" where
  "interleave_ends hx h j accepted =
     (if j < length (hsInterleaveTasks h)
      then (case hsInterleaveTasks h ! j of
              (nodeId, lastDescriptor, requester) \<Rightarrow>
                (let h1 = (if accepted = Some True then remove_neighbor (pdId hx lastDescriptor) h else h)
                 in h1\<lparr>hsOngoingInterleaves := ids_erase nodeId (hsOngoingInterleaves h1),
                       hsInterleaveTasks := take j (hsInterleaveTasks h) @ drop (Suc j) (hsInterleaveTasks h)\<rparr>))
      else h)"

definition handleRequest ::
  "hex_codec \<Rightarrow> handshaker \<Rightarrow> StreamPartHandshakeRequest \<Rightarrow> PeerDescriptor option \<Rightarrow> cpp_error + (handshaker \<times> StreamPartHandshakeResponse)" where
  "handleRequest hx h request incomingSourceDescriptor =
     (case incomingSourceDescriptor of
        None \<Rightarrow> Inl BadOptionalAccess
      | Some sender \<Rightarrow>
          (let senderNodeId = pdId hx sender;
               interleaveNodeIds = (case hrInterleaveNodeId request of Some i \<Rightarrow> [getDhtAddressFromRaw hx i] | None \<Rightarrow> [])
           in if senderNodeId \<in> set (hsOngoingInterleaves h) then Inr (rejectHandshake h request)
              else if nl_has (hsNeighbors h) senderNodeId \<or> senderNodeId \<in> set (hsOngoingHandshakes h)
              then Inr (acceptHandshake hx h request sender)
              else if size_t (nl_size hx (hsNeighbors h) []) + size_t (length (hsOngoingHandshakes h)) < hsMaxNeighborCount h
              then Inr (acceptHandshake hx h request sender)
              else if 2 \<le> size_t (nl_size hx (hsNeighbors h) interleaveNodeIds) - size_t (length (hsOngoingInterleaves h)) \<and>
                      size_t (nl_size hx (hsNeighbors h) []) \<le> hsMaxNeighborCount h
              then Inr (acceptHandshakeWithInterleaving hx h request sender)
              else Inr (rejectHandshake h request)))"

section \<open>The client side\<close>

text \<open>The request of \<^verbatim>\<open>HandshakeRpcRemote::handshake\<close>; converting an id to its raw form can throw.\<close>

fun raw_ids :: "hex_codec \<Rightarrow> DhtAddress list \<Rightarrow> cpp_error + DhtAddressRaw list" where
  "raw_ids hx [] = Inr []"
| "raw_ids hx (i # is) =
     (case getRawFromDhtAddress hx i of
        Inl e \<Rightarrow> Inl e
      | Inr r \<Rightarrow> (case raw_ids hx is of Inl e \<Rightarrow> Inl e | Inr rs \<Rightarrow> Inr (r # rs)))"

definition opt_list :: "'a option \<Rightarrow> 'a list" where
  "opt_list x = (case x of None \<Rightarrow> [] | Some v \<Rightarrow> [v])"

definition handshake_request ::
  "hex_codec \<Rightarrow> string \<Rightarrow> DhtAddress list \<Rightarrow> DhtAddress option \<Rightarrow> DhtAddress option \<Rightarrow> cpp_error + StreamPartHandshakeRequest" where
  "handshake_request hx uuid neighborNodeIds concurrent interleave =
     (case raw_ids hx neighborNodeIds of
        Inl e \<Rightarrow> Inl e
      | Inr ns \<Rightarrow>
          (case raw_ids hx (opt_list concurrent) of
             Inl e \<Rightarrow> Inl e
           | Inr cs \<Rightarrow>
               (case raw_ids hx (opt_list interleave) of
                  Inl e \<Rightarrow> Inl e
                | Inr is \<Rightarrow> Inr \<lparr>hrRequestId = uuid, hrNeighborNodeIds = ns,
                    hrConcurrentHandshakeNodeId = (case cs of [] \<Rightarrow> None | c # _ \<Rightarrow> Some c),
                    hrInterleaveNodeId = (case is of [] \<Rightarrow> None | i # _ \<Rightarrow> Some i)\<rparr>)))"

definition set_op :: "nat \<Rightarrow> hs_stage \<Rightarrow> handshaker \<Rightarrow> handshaker" where
  "set_op k stage h = h\<lparr>hsOps := (hsOps h)[k := (hsOps h ! k)\<lparr>opStage := stage\<rparr>]\<rparr>"

text \<open>\<^verbatim>\<open>handshakeWithTarget\<close> up to the remote call.\<close>

definition handshakeWithTarget_begin :: "hex_codec \<Rightarrow> string \<Rightarrow> handshaker \<Rightarrow> PeerDescriptor \<Rightarrow> DhtAddress option \<Rightarrow> handshaker" where
  "handshakeWithTarget_begin hx uuid h target concurrentNodeId =
     (let h1 = begin_handshake (pdId hx target) h
      in h1\<lparr>hsOps := hsOps h1 @ [\<lparr>opTarget = target, opKind = WithTarget concurrentNodeId,
             opStage = (case handshake_request hx uuid (getIds (hsNeighbors h1)) concurrentNodeId None of
                          Inl e \<Rightarrow> Ended (Inl e) | Inr _ \<Rightarrow> AwaitTarget)\<rparr>]\<rparr>)"

text \<open>
  \<^verbatim>\<open>interleaveRequest\<close> of the server side up to the remote call of \<^verbatim>\<open>handshakeWithInterleaving\<close>; what that throws is caught and
  answered with a refusal.
\<close>

definition interleaveRequest_begin ::
  "hex_codec \<Rightarrow> string \<Rightarrow> handshaker \<Rightarrow> PeerDescriptor \<Rightarrow> PeerDescriptor option \<Rightarrow> cpp_error + handshaker" where
  "interleaveRequest_begin hx uuid h target incomingSourceDescriptor =
     (case incomingSourceDescriptor of
        None \<Rightarrow> Inl BadOptionalAccess
      | Some sender \<Rightarrow>
          (let h1 = begin_handshake (pdId hx target) h
           in Inr (h1\<lparr>hsOps := hsOps h1 @ [\<lparr>opTarget = target, opKind = InterleaveFor (pdId hx sender),
                opStage = (case handshake_request hx uuid (getIds (hsNeighbors h1)) None (Some (pdId hx sender)) of
                             Inl e \<Rightarrow> Ended (Inr False) | Inr _ \<Rightarrow> AwaitTarget)\<rparr>]\<rparr>)))"

text \<open>The remote call of an operation answers: whether it was accepted, and whom to interleave with; \<open>None\<close> when it throws.\<close>

definition add_if :: "bool \<Rightarrow> hex_codec \<Rightarrow> PeerDescriptor \<Rightarrow> handshaker \<Rightarrow> handshaker" where
  "add_if accepted hx peer h = (if accepted then add_neighbor hx peer h else h)"

definition answer_accepted :: "(bool \<times> PeerDescriptor option) option \<Rightarrow> bool" where
  "answer_accepted answer = (case answer of Some (a, _) \<Rightarrow> a | None \<Rightarrow> False)"

definition answer_target :: "(bool \<times> PeerDescriptor option) option \<Rightarrow> PeerDescriptor option" where
  "answer_target answer = (case answer of Some (_, t) \<Rightarrow> t | None \<Rightarrow> None)"

definition hs_answer :: "hex_codec \<Rightarrow> string \<Rightarrow> handshaker \<Rightarrow> nat \<Rightarrow> (bool \<times> PeerDescriptor option) option \<Rightarrow> handshaker" where
  "hs_answer hx uuid h k answer =
     (if k < length (hsOps h)
      then (let op = hsOps h ! k; targetNodeId = pdId hx (opTarget op)
            in case opStage op of
                 AwaitTarget \<Rightarrow>
                   (let h1 = add_if (answer_accepted answer) hx (opTarget op) h
                    in case opKind op of
                         InterleaveFor sender \<Rightarrow> set_op k (Ended (Inr True)) (remove_neighbor sender (end_handshake targetNodeId h1))
                       | WithTarget _ \<Rightarrow>
                           (case answer_target answer of
                              None \<Rightarrow> set_op k (Ended (Inr (answer_accepted answer))) (end_handshake targetNodeId h1)
                            | Some target \<Rightarrow>
                                (let h2 = begin_handshake (pdId hx target) h1
                                 in set_op k (case handshake_request hx uuid (getIds (hsNeighbors h2)) None (Some targetNodeId) of
                                                Inl e \<Rightarrow> Ended (Inl e)
                                              | Inr _ \<Rightarrow> AwaitInterleaveTarget target (answer_accepted answer)) h2)))
               | AwaitInterleaveTarget target accepted \<Rightarrow>
                   set_op k (Ended (Inr accepted))
                     (end_handshake targetNodeId (end_handshake (pdId hx target) (add_if (answer_accepted answer) hx target h)))
               | Ended _ \<Rightarrow> h)
      else h)"

section \<open>The choice of targets\<close>

definition parallelHandshakeCount :: nat where
  "parallelHandshakeCount = 2"

definition addTarget :: "hex_codec \<Rightarrow> RpcRemote option \<Rightarrow> (DhtAddress \<times> RpcRemote) list \<Rightarrow> (DhtAddress \<times> RpcRemote) list" where
  "addTarget hx candidate targets =
     (case candidate of
        None \<Rightarrow> targets
      | Some remote \<Rightarrow>
          (if remoteId hx remote \<in> set (map fst targets) then targets else targets @ [(remoteId hx remote, remote)]))"

text \<open>The last loop; \<open>rand n\<close> is the number drawn when \<open>n\<close> targets have been found.\<close>

lemma getRandom_included: "getRandom hx n l exclude = Some r \<Longrightarrow> remoteId hx r \<notin> set exclude \<and> r \<in> set (nl_getAll l)"
proof -
  assume r: "getRandom hx n l exclude = Some r"
  let ?vs = "getValuesOfIncludedKeys hx (nlNodes l) exclude False"
  have "?vs \<noteq> []" "r = ?vs ! (n mod length ?vs)" using r by (auto simp: getRandom_def Let_def split: if_splits)
  then have "r \<in> set ?vs" by (metis length_greater_0_conv mod_less_divisor nth_mem)
  then show ?thesis by (auto simp: getValuesOfIncludedKeys_def nl_getAll_def)
qed

function fill_random ::
  "hex_codec \<Rightarrow> (nat \<Rightarrow> nat) \<Rightarrow> node_list \<Rightarrow> DhtAddress list \<Rightarrow> (DhtAddress \<times> RpcRemote) list \<Rightarrow> (DhtAddress \<times> RpcRemote) list" where
  "fill_random hx rand view excludedIds targets =
     (if length targets < parallelHandshakeCount
      then (case getRandom hx (rand (length targets)) view (excludedIds @ map fst targets) of
              None \<Rightarrow> targets
            | Some remote \<Rightarrow> fill_random hx rand view excludedIds (addTarget hx (Some remote) targets))
      else targets)"
  by pat_completeness auto

termination
proof (relation "measure (\<lambda>(hx, rand, view, ex, targets). parallelHandshakeCount - length targets)")
  fix hx rand view ex remote and targets :: "(DhtAddress \<times> RpcRemote) list"
  assume "length targets < parallelHandshakeCount"
    and r: "getRandom hx (rand (length targets)) view (ex @ map fst targets) = Some remote"
  moreover have "remoteId hx remote \<notin> set (map fst targets)" using getRandom_included [OF r] by simp
  ultimately show "((hx, rand, view, ex, addTarget hx (Some remote) targets), hx, rand, view, ex, targets)
      \<in> measure (\<lambda>(hx, rand, view, ex, targets). parallelHandshakeCount - length targets)"
    by (simp add: addTarget_def)
qed simp

declare fill_random.simps [simp del]

definition selectParallelTargets :: "hex_codec \<Rightarrow> (nat \<Rightarrow> nat) \<Rightarrow> handshaker \<Rightarrow> DhtAddress list \<Rightarrow> (DhtAddress \<times> RpcRemote) list" where
  "selectParallelTargets hx rand h excludedIds =
     (let ex = (\<lambda>ts. excludedIds @ map fst ts);
          t1 = (if nl_size hx (hsNeighbors h) [] = 0 then addTarget hx (getFirst hx (hsNearby h) (ex []) True) [] else []);
          t2 = addTarget hx (getFirst hx (hsLeft h) (ex t1) False) t1;
          t3 = addTarget hx (getFirst hx (hsRight h) (ex t2) False) t2;
          t4 = (if length t3 < parallelHandshakeCount then addTarget hx (getFirst hx (hsNearby h) (ex t3) False) t3 else t3)
      in fill_random hx rand (hsRandom h) excludedIds t4)"

text \<open>The other node of a parallel handshake: the second target for the first, the first for all others.\<close>

definition concurrent_with :: "DhtAddress list \<Rightarrow> nat \<Rightarrow> DhtAddress option" where
  "concurrent_with ids i = (if i = 0 then (if 1 < length ids then Some (ids ! 1) else None) else Some (ids ! 0))"

fun begin_all :: "hex_codec \<Rightarrow> (nat \<Rightarrow> string) \<Rightarrow> (PeerDescriptor \<times> DhtAddress option) list \<Rightarrow> handshaker \<Rightarrow> handshaker" where
  "begin_all hx uuid [] h = h"
| "begin_all hx uuid ((target, other) # ts) h =
     begin_all hx uuid ts (handshakeWithTarget_begin hx (uuid (length (hsOps h))) h target other)"

text \<open>A round of handshakes: the list it will return, less the targets that fail, and the operations it has started.\<close>

definition selectParallelTargetsAndHandshake ::
  "hex_codec \<Rightarrow> (nat \<Rightarrow> nat) \<Rightarrow> (nat \<Rightarrow> string) \<Rightarrow> handshaker \<Rightarrow> DhtAddress list \<Rightarrow> handshaker \<times> DhtAddress list \<times> nat list" where
  "selectParallelTargetsAndHandshake hx rand uuid h excludedIds =
     (let exclude = excludedIds @ getIds (hsNeighbors h); targets = selectParallelTargets hx rand h exclude; ids = map fst targets;
          h1 = fold begin_handshake ids h; start = length (hsOps h)
      in (begin_all hx uuid (map (\<lambda>i. (getPeerDescriptor (snd (targets ! i)), concurrent_with ids i)) [0..<length targets]) h1,
          exclude, [start..<start + length targets]))"

definition first_some :: "'a option \<Rightarrow> 'a option \<Rightarrow> 'a option" where
  "first_some a b = (case a of Some x \<Rightarrow> Some x | None \<Rightarrow> b)"

definition selectNewTargetAndHandshake ::
  "hex_codec \<Rightarrow> (nat \<Rightarrow> nat) \<Rightarrow> (nat \<Rightarrow> string) \<Rightarrow> handshaker \<Rightarrow> DhtAddress list \<Rightarrow> handshaker \<times> DhtAddress list \<times> nat list" where
  "selectNewTargetAndHandshake hx rand uuid h excludedIds =
     (let exclude = excludedIds @ getIds (hsNeighbors h);
          target = first_some (getFirst hx (hsLeft h) exclude False) (first_some (getFirst hx (hsRight h) exclude False)
                     (first_some (getFirst hx (hsNearby h) exclude False) (getRandom hx (rand 0) (hsRandom h) exclude)))
      in case target of
           None \<Rightarrow> (h, excludedIds, [])
         | Some t \<Rightarrow> (handshakeWithTarget_begin hx (uuid (length (hsOps h))) h (getPeerDescriptor t) None, excludedIds, [length (hsOps h)]))"

definition attemptHandshakesOnContacts ::
  "hex_codec \<Rightarrow> (nat \<Rightarrow> nat) \<Rightarrow> (nat \<Rightarrow> string) \<Rightarrow> handshaker \<Rightarrow> DhtAddress list \<Rightarrow> handshaker \<times> DhtAddress list \<times> nat list" where
  "attemptHandshakesOnContacts hx rand uuid h excludedIds =
     (let busy = size_t (nl_size hx (hsNeighbors h) []) + size_t (length (hsOngoingHandshakes h))
      in if busy < hsMaxNeighborCount h - 2 then selectParallelTargetsAndHandshake hx rand uuid h excludedIds
         else if busy < hsMaxNeighborCount h then selectNewTargetAndHandshake hx rand uuid h excludedIds
         else (h, excludedIds, []))"

text \<open>What the round returns once its operations have ended; an exception leaves a round of one.\<close>

definition op_failed :: "hs_op \<Rightarrow> bool" where
  "op_failed op \<longleftrightarrow> opStage op \<noteq> Ended (Inr True)"

definition round_result :: "hex_codec \<Rightarrow> handshaker \<Rightarrow> DhtAddress list \<Rightarrow> nat list \<Rightarrow> DhtAddress list" where
  "round_result hx h exclude ops = exclude @ map (\<lambda>k. pdId hx (opTarget (hsOps h ! k))) (filter (\<lambda>k. op_failed (hsOps h ! k)) ops)"

section \<open>Runs\<close>

datatype view = LeftView | RightView | NearbyView | RandomView

datatype hs_event =
    IncomingHandshake StreamPartHandshakeRequest "PeerDescriptor option"
  | IncomingInterleave string PeerDescriptor "PeerDescriptor option"
  | InterleaveEnds nat "bool option"
  | Attempt "nat \<Rightarrow> nat" "nat \<Rightarrow> string" "DhtAddress list"
  | Answer string nat "(bool \<times> PeerDescriptor option) option"
  | NeighborOp nl_op
  | ViewOp view nl_op

fun view_op :: "hex_codec \<Rightarrow> view \<Rightarrow> nl_op \<Rightarrow> handshaker \<Rightarrow> handshaker" where
  "view_op hx LeftView op h = h\<lparr>hsLeft := fst (nl_exec hx (hsLeft h) op)\<rparr>"
| "view_op hx RightView op h = h\<lparr>hsRight := fst (nl_exec hx (hsRight h) op)\<rparr>"
| "view_op hx NearbyView op h = h\<lparr>hsNearby := fst (nl_exec hx (hsNearby h) op)\<rparr>"
| "view_op hx RandomView op h = h\<lparr>hsRandom := fst (nl_exec hx (hsRandom h) op)\<rparr>"

fun hs_step :: "hex_codec \<Rightarrow> handshaker \<Rightarrow> hs_event \<Rightarrow> handshaker" where
  "hs_step hx h (IncomingHandshake request sender) = (case handleRequest hx h request sender of Inl _ \<Rightarrow> h | Inr (h1, _) \<Rightarrow> h1)"
| "hs_step hx h (IncomingInterleave uuid target sender) = (case interleaveRequest_begin hx uuid h target sender of Inl _ \<Rightarrow> h | Inr h1 \<Rightarrow> h1)"
| "hs_step hx h (InterleaveEnds j accepted) = interleave_ends hx h j accepted"
| "hs_step hx h (Attempt rand uuid excluded) = fst (attemptHandshakesOnContacts hx rand uuid h excluded)"
| "hs_step hx h (Answer uuid k answer) = hs_answer hx uuid h k answer"
| "hs_step hx h (NeighborOp op) =
     (case nl_exec hx (hsNeighbors h) op of (l, es) \<Rightarrow> h\<lparr>hsNeighbors := l, hsEvents := hsEvents h @ es\<rparr>)"
| "hs_step hx h (ViewOp v op) = view_op hx v op h"

section \<open>The bookkeeping invariant\<close>

definition op_ids :: "hex_codec \<Rightarrow> hs_op \<Rightarrow> DhtAddress set" where
  "op_ids hx op =
     (case opStage op of
        AwaitTarget \<Rightarrow> {pdId hx (opTarget op)}
      | AwaitInterleaveTarget t _ \<Rightarrow> {pdId hx (opTarget op), pdId hx t}
      | Ended _ \<Rightarrow> {})"

definition active_ids :: "hex_codec \<Rightarrow> handshaker \<Rightarrow> DhtAddress set" where
  "active_ids hx h = (\<Union>op \<in> set (hsOps h). op_ids hx op)"

definition tasks_ok :: "hex_codec \<Rightarrow> handshaker \<Rightarrow> bool" where
  "tasks_ok hx h \<longleftrightarrow>
     distinct (map fst (hsInterleaveTasks h)) \<and> distinct (hsOngoingInterleaves h) \<and>
     set (hsOngoingInterleaves h) = fst ` set (hsInterleaveTasks h) \<and>
     (\<forall>(n, d, r) \<in> set (hsInterleaveTasks h). n = pdId hx d)"

definition hs_lists_ok :: "hex_codec \<Rightarrow> handshaker \<Rightarrow> bool" where
  "hs_lists_ok hx h \<longleftrightarrow>
     nl_inv hx (hsNeighbors h) \<and> nl_inv hx (hsLeft h) \<and> nl_inv hx (hsRight h) \<and> nl_inv hx (hsNearby h) \<and> nl_inv hx (hsRandom h)"

definition hs_inv :: "hex_codec \<Rightarrow> handshaker \<Rightarrow> bool" where
  "hs_inv hx h \<longleftrightarrow> hs_lists_ok hx h \<and> tasks_ok hx h \<and> distinct (hsOngoingHandshakes h) \<and> set (hsOngoingHandshakes h) \<subseteq> active_ids hx h"

lemma set_ids_insert [simp]: "set (ids_insert k ids) = insert k (set ids)"
  by (auto simp: ids_insert_def set_insort_key)

lemma distinct_ids_insert [simp]: "distinct ids \<Longrightarrow> distinct (ids_insert k ids)"
  by (simp add: ids_insert_def distinct_insort)

lemma set_ids_erase [simp]: "set (ids_erase k ids) = set ids - {k}"
  by (auto simp: ids_erase_def)

lemma distinct_ids_erase [simp]: "distinct ids \<Longrightarrow> distinct (ids_erase k ids)"
  by (simp add: ids_erase_def)

text \<open>The two operations on the neighbours leave the rest of the state alone.\<close>

lemma add_neighbor_frame [simp]:
  "hsOps (add_neighbor hx p h) = hsOps h" "hsOngoingHandshakes (add_neighbor hx p h) = hsOngoingHandshakes h"
  "hsOngoingInterleaves (add_neighbor hx p h) = hsOngoingInterleaves h" "hsInterleaveTasks (add_neighbor hx p h) = hsInterleaveTasks h"
  "hsLeft (add_neighbor hx p h) = hsLeft h" "hsRight (add_neighbor hx p h) = hsRight h" "hsNearby (add_neighbor hx p h) = hsNearby h"
  "hsRandom (add_neighbor hx p h) = hsRandom h" "hsMaxNeighborCount (add_neighbor hx p h) = hsMaxNeighborCount h"
  by (simp_all add: add_neighbor_def split: prod.splits)

lemma remove_neighbor_frame [simp]:
  "hsOps (remove_neighbor i h) = hsOps h" "hsOngoingHandshakes (remove_neighbor i h) = hsOngoingHandshakes h"
  "hsOngoingInterleaves (remove_neighbor i h) = hsOngoingInterleaves h" "hsInterleaveTasks (remove_neighbor i h) = hsInterleaveTasks h"
  "hsLeft (remove_neighbor i h) = hsLeft h" "hsRight (remove_neighbor i h) = hsRight h" "hsNearby (remove_neighbor i h) = hsNearby h"
  "hsRandom (remove_neighbor i h) = hsRandom h"
  by (simp_all add: remove_neighbor_def split: prod.splits)

lemma neighbors_add: "hsNeighbors (add_neighbor hx p h) = fst (nl_add hx (hsNeighbors h) \<lparr>getPeerDescriptor = p, remoteObject = hsNextObject h\<rparr>)"
  by (simp add: add_neighbor_def split: prod.splits)

lemma neighbors_remove: "hsNeighbors (remove_neighbor i h) = fst (nl_remove (hsNeighbors h) i)"
  by (simp add: remove_neighbor_def split: prod.splits)

lemma lists_add [simp]: "hs_lists_ok hx h \<Longrightarrow> hs_lists_ok hx (add_neighbor hx p h)"
  by (simp add: hs_lists_ok_def neighbors_add nl_inv_add)

lemma lists_remove [simp]: "hs_lists_ok hx h \<Longrightarrow> hs_lists_ok hx (remove_neighbor i h)"
  by (simp add: hs_lists_ok_def neighbors_remove nl_inv_remove)

lemma hs_inv_neighbors:
  "hs_inv hx h \<Longrightarrow> hs_inv hx (add_neighbor hx p h)" "hs_inv hx h \<Longrightarrow> hs_inv hx (remove_neighbor i h)" "hs_inv hx h \<Longrightarrow> hs_inv hx (add_if b hx p h)"
  by (auto simp: hs_inv_def tasks_ok_def active_ids_def add_if_def)

lemma hs_inv_view: "hs_inv hx h \<Longrightarrow> hs_inv hx (view_op hx v op h)"
  by (cases v) (auto simp: hs_inv_def hs_lists_ok_def tasks_ok_def active_ids_def nl_exec_step(1))

section \<open>The server side keeps it\<close>

lemma getLast_included:
  assumes "getLast hx l exclude = Some r"
  shows "remoteId hx r \<notin> set exclude \<and> r \<in> set (nl_getAll l)"
proof -
  let ?vs = "getValuesOfIncludedKeys hx (nlNodes l) exclude False"
  have "?vs \<noteq> []" "r = last ?vs" using assms by (auto simp: getLast_def Let_def split: if_splits)
  then have "r \<in> set ?vs" by simp
  then show ?thesis by (auto simp: getValuesOfIncludedKeys_def nl_getAll_def)
qed

lemma hs_inv_accept_interleaving: "hs_inv hx h \<Longrightarrow> hs_inv hx (fst (acceptHandshakeWithInterleaving hx h request requester))"
proof (cases "getLast hx (hsNeighbors h) (interleave_exclude hx h request requester)")
  case (Some r)
  assume inv: "hs_inv hx h"
  let ?n = "remoteId hx r"
  let ?h = "h\<lparr>hsOngoingInterleaves := ids_insert ?n (hsOngoingInterleaves h),
      hsInterleaveTasks := hsInterleaveTasks h @ [(?n, getPeerDescriptor r, requester)]\<rparr>"
  have "?n \<notin> set (hsOngoingInterleaves h)" using getLast_included [OF Some] by (simp add: interleave_exclude_def)
  then have "hs_inv hx ?h" using inv by (auto simp: hs_inv_def tasks_ok_def hs_lists_ok_def active_ids_def)
  then show ?thesis using Some by (simp add: acceptHandshakeWithInterleaving_def Let_def hs_inv_neighbors)
qed (simp add: acceptHandshakeWithInterleaving_def hs_inv_neighbors)

lemma hs_inv_handleRequest: "hs_inv hx h \<Longrightarrow> handleRequest hx h request sender = Inr (h1, resp) \<Longrightarrow> hs_inv hx h1"
  using hs_inv_accept_interleaving [of hx h request]
  by (auto simp: handleRequest_def Let_def acceptHandshake_def rejectHandshake_def hs_inv_neighbors split: option.splits if_splits)
    (metis fst_conv)+

lemma hs_inv_interleave_ends: "hs_inv hx h \<Longrightarrow> hs_inv hx (interleave_ends hx h j accepted)"
proof (cases "j < length (hsInterleaveTasks h)")
  case True
  assume inv: "hs_inv hx h"
  obtain n d r where t: "hsInterleaveTasks h ! j = (n, d, r)" by (metis prod_cases3)
  let ?ts = "take j (hsInterleaveTasks h) @ drop (Suc j) (hsInterleaveTasks h)"
  have split: "hsInterleaveTasks h = take j (hsInterleaveTasks h) @ (n, d, r) # drop (Suc j) (hsInterleaveTasks h)"
    using id_take_nth_drop [OF True] t by simp
  have "distinct (map fst (take j (hsInterleaveTasks h) @ (n, d, r) # drop (Suc j) (hsInterleaveTasks h)))"
    using inv split by (metis hs_inv_def tasks_ok_def)
  then have "distinct (map fst ?ts)" "n \<notin> fst ` set ?ts" by auto
  moreover have "fst ` set (hsInterleaveTasks h) = insert n (fst ` set ?ts)" "set ?ts \<subseteq> set (hsInterleaveTasks h)"
    using arg_cong [OF split, of set] by (auto dest: in_set_takeD in_set_dropD)
  ultimately have tasks: "tasks_ok hx (h1\<lparr>hsOngoingInterleaves := ids_erase n (hsOngoingInterleaves h), hsInterleaveTasks := ?ts\<rparr>)" for h1
    using inv by (auto simp: hs_inv_def tasks_ok_def)
  have "hs_inv hx (h1\<lparr>hsOngoingInterleaves := ids_erase n (hsOngoingInterleaves h), hsInterleaveTasks := ?ts\<rparr>)" if "hs_inv hx h1" for h1
    using that tasks [of h1] by (simp add: hs_inv_def hs_lists_ok_def active_ids_def)
  then show ?thesis using inv True t hs_inv_neighbors by (simp add: interleave_ends_def Let_def)
qed (simp add: interleave_ends_def)

section \<open>The client side keeps it\<close>

context hex_laws
begin

lemma raw_ids_codec: "set is \<subseteq> range (getDhtAddressFromRaw hx) \<Longrightarrow> \<exists>rs. raw_ids hx is = Inr rs"
proof (induction "is")
  case (Cons i "is")
  then obtain raw rs where "i = getDhtAddressFromRaw hx raw" "raw_ids hx is = Inr rs" by auto
  then show ?case by (simp add: raw_roundtrip)
qed simp

lemma request_never_throws:
  assumes "nl_inv hx l" "set_option c \<subseteq> range (getDhtAddressFromRaw hx)" "set_option i \<subseteq> range (getDhtAddressFromRaw hx)"
  shows "\<exists>req. handshake_request hx uuid (getIds l) c i = Inr req"
proof -
  have "set (getIds l) \<subseteq> range (getDhtAddressFromRaw hx)"
    using assms(1) by (auto simp: nl_inv_def getIds_def getNodeIdFromPeerDescriptor_def)
  moreover have "set (opt_list x) = set_option x" for x :: "DhtAddress option" by (cases x) (simp_all add: opt_list_def)
  ultimately obtain ns cs "is" where "raw_ids hx (getIds l) = Inr ns" "raw_ids hx (opt_list c) = Inr cs" "raw_ids hx (opt_list i) = Inr is"
    using raw_ids_codec assms by metis
  then show ?thesis by (simp add: handshake_request_def)
qed

lemma pdId_codec: "pdId hx p \<in> range (getDhtAddressFromRaw hx)"
  by (simp add: getNodeIdFromPeerDescriptor_def)

end

lemma hs_inv_begin:
  assumes "hs_inv hx h" "pdId hx target \<in> op_ids hx op"
  shows "hs_inv hx ((begin_handshake (pdId hx target) h)\<lparr>hsOps := hsOps h @ [op]\<rparr>)"
  using assms by (auto simp: hs_inv_def begin_handshake_def hs_lists_ok_def tasks_ok_def active_ids_def)

lemma hs_inv_interleaveRequest:
  assumes hx: "hex_laws hx" and inv: "hs_inv hx h" and h1: "interleaveRequest_begin hx uuid h target sender = Inr h1"
  shows "hs_inv hx h1"
proof -
  obtain s where s: "sender = Some s" using h1 by (cases sender) (simp_all add: interleaveRequest_begin_def)
  have "nl_inv hx (hsNeighbors h)" using inv by (simp add: hs_inv_def hs_lists_ok_def)
  then obtain req where "handshake_request hx uuid (getIds (hsNeighbors h)) None (Some (pdId hx s)) = Inr req"
    using hex_laws.request_never_throws [OF hx, of "hsNeighbors h" None "Some (pdId hx s)"] hex_laws.pdId_codec [OF hx] by auto
  then show ?thesis
    using hs_inv_begin [OF inv, of target "\<lparr>opTarget = target, opKind = InterleaveFor (pdId hx s), opStage = AwaitTarget\<rparr>"] h1 s
    by (auto simp: interleaveRequest_begin_def begin_handshake_def op_ids_def Let_def)
qed

text \<open>An operation changes its stage: the others keep their ids.\<close>

lemma active_set_op:
  assumes "k < length (hsOps h)"
  shows "active_ids hx h - op_ids hx (hsOps h ! k) \<subseteq> active_ids hx (set_op k stage h)"
    and "op_ids hx ((hsOps h ! k)\<lparr>opStage := stage\<rparr>) \<subseteq> active_ids hx (set_op k stage h)"
proof -
  have "x \<in> active_ids hx (set_op k stage h)" if x: "x \<in> op_ids hx op" "x \<notin> op_ids hx (hsOps h ! k)" and op: "op \<in> set (hsOps h)" for x op
  proof -
    obtain j where "j < length (hsOps h)" "op = hsOps h ! j" using op by (auto simp: in_set_conv_nth)
    moreover have "j \<noteq> k" using x calculation by auto
    ultimately have "op \<in> set (hsOps (set_op k stage h))"
      by (auto simp: set_op_def in_set_conv_nth intro!: exI [of _ j])
    then show ?thesis using x(1) by (auto simp: active_ids_def)
  qed
  then show "active_ids hx h - op_ids hx (hsOps h ! k) \<subseteq> active_ids hx (set_op k stage h)" by (auto simp: active_ids_def)
  have "(hsOps h ! k)\<lparr>opStage := stage\<rparr> \<in> set (hsOps (set_op k stage h))"
    using assms by (auto simp: set_op_def in_set_conv_nth intro!: exI [of _ k])
  then show "op_ids hx ((hsOps h ! k)\<lparr>opStage := stage\<rparr>) \<subseteq> active_ids hx (set_op k stage h)" by (auto simp: active_ids_def)
qed

lemma set_op_frame [simp]:
  "hsNeighbors (set_op k st h) = hsNeighbors h" "hsOngoingHandshakes (set_op k st h) = hsOngoingHandshakes h"
  "hs_lists_ok hx (set_op k st h) = hs_lists_ok hx h" "tasks_ok hx (set_op k st h) = tasks_ok hx h"
  by (simp_all add: set_op_def hs_lists_ok_def tasks_ok_def)

text \<open>An operation that ends takes its ids out of the set; one that goes on keeps them in its new stage.\<close>

lemma hs_inv_stage:
  assumes inv: "hs_inv hx h" and k: "k < length (hsOps h)"
    and h1: "hsOps h1 = hsOps h" "hs_lists_ok hx h1" "tasks_ok hx h1" "distinct (hsOngoingHandshakes h1)"
    and ids: "set (hsOngoingHandshakes h1) \<subseteq>
      (set (hsOngoingHandshakes h) - op_ids hx (hsOps h ! k)) \<union> op_ids hx ((hsOps h ! k)\<lparr>opStage := stage\<rparr>)"
  shows "hs_inv hx (set_op k stage h1)"
proof -
  have "active_ids hx h1 = active_ids hx h" using h1(1) by (simp add: active_ids_def)
  moreover have "set (hsOngoingHandshakes h) \<subseteq> active_ids hx h" using inv by (simp add: hs_inv_def)
  ultimately have "set (hsOngoingHandshakes h1) \<subseteq> active_ids hx (set_op k stage h1)"
    using active_set_op [of k h1 hx stage] k h1(1) ids unfolding h1(1) by blast
  then show ?thesis using h1 by (simp add: hs_inv_def)
qed

lemma end_handshake_frame [simp]:
  "hsOps (end_handshake i h) = hsOps h" "hsNeighbors (end_handshake i h) = hsNeighbors h"
  "hs_lists_ok hx (end_handshake i h) = hs_lists_ok hx h" "tasks_ok hx (end_handshake i h) = tasks_ok hx h"
  "hsOngoingHandshakes (end_handshake i h) = ids_erase i (hsOngoingHandshakes h)"
  by (simp_all add: end_handshake_def hs_lists_ok_def tasks_ok_def)

lemma begin_handshake_frame [simp]:
  "hsOps (begin_handshake i h) = hsOps h" "hsNeighbors (begin_handshake i h) = hsNeighbors h"
  "hs_lists_ok hx (begin_handshake i h) = hs_lists_ok hx h" "tasks_ok hx (begin_handshake i h) = tasks_ok hx h"
  "hsOngoingHandshakes (begin_handshake i h) = ids_insert i (hsOngoingHandshakes h)"
  by (simp_all add: begin_handshake_def hs_lists_ok_def tasks_ok_def)

lemma tasks_neighbors [simp]: "tasks_ok hx (add_neighbor hx p h) = tasks_ok hx h" "tasks_ok hx (remove_neighbor i h) = tasks_ok hx h"
  by (simp_all add: tasks_ok_def)

lemma add_if_frame [simp]:
  "hsOps (add_if b hx p h) = hsOps h" "hsOngoingHandshakes (add_if b hx p h) = hsOngoingHandshakes h"
  "tasks_ok hx (add_if b hx p h) = tasks_ok hx h" "hs_lists_ok hx h \<Longrightarrow> hs_lists_ok hx (add_if b hx p h)"
  by (simp_all add: add_if_def)

lemma hs_inv_answer:
  assumes hx: "hex_laws hx" and inv: "hs_inv hx h"
  shows "hs_inv hx (hs_answer hx uuid h k answer)"
proof (cases "k < length (hsOps h)")
  case k: True
  let ?op = "hsOps h ! k" let ?t = "pdId hx (opTarget ?op)" let ?a = "answer_accepted answer"
  have base: "hs_lists_ok hx h" "tasks_ok hx h" "distinct (hsOngoingHandshakes h)" using inv by (simp_all add: hs_inv_def)
  note stage = hs_inv_stage [OF inv k]
  show ?thesis
  proof (cases "opStage ?op")
    case AwaitTarget
    let ?h1 = "add_if ?a hx (opTarget ?op) h"
    have ended: "hs_inv hx (set_op k (Ended r) (end_handshake ?t ?h1))" for r
      by (rule stage) (use base AwaitTarget in \<open>auto simp: op_ids_def\<close>)
    have interleaved: "hs_inv hx (set_op k (Ended r) (remove_neighbor i (end_handshake ?t ?h1)))" for r i
      by (rule stage) (use base AwaitTarget in \<open>auto simp: op_ids_def\<close>)
    have next_target: "hs_inv hx (set_op k (AwaitInterleaveTarget t a) (begin_handshake (pdId hx t) ?h1))" for t a
      by (rule stage) (use base AwaitTarget in \<open>auto simp: op_ids_def\<close>)
    have "nl_inv hx (hsNeighbors ?h1)" using hs_inv_neighbors(3) [OF inv] by (simp add: hs_inv_def hs_lists_ok_def)
    then have "\<exists>req. handshake_request hx uuid (getIds (hsNeighbors ?h1)) None (Some ?t) = Inr req"
      using hex_laws.request_never_throws [OF hx, of _ None "Some ?t"] hex_laws.pdId_codec [OF hx] by auto
    then show ?thesis using k AwaitTarget ended interleaved next_target
      by (auto simp: hs_answer_def Let_def split: hs_kind.splits option.splits)
  next
    case (AwaitInterleaveTarget t a)
    have "hs_inv hx (set_op k (Ended (Inr a)) (end_handshake ?t (end_handshake (pdId hx t) (add_if ?a hx t h))))"
      by (rule stage) (use base AwaitInterleaveTarget in \<open>auto simp: op_ids_def\<close>)
    then show ?thesis using k AwaitInterleaveTarget by (simp add: hs_answer_def Let_def)
  qed (use inv k in \<open>simp add: hs_answer_def Let_def\<close>)
qed (simp add: hs_answer_def inv)

section \<open>The targets of a round\<close>

definition targets_ok :: "hex_codec \<Rightarrow> handshaker \<Rightarrow> DhtAddress list \<Rightarrow> (DhtAddress \<times> RpcRemote) list \<Rightarrow> bool" where
  "targets_ok hx h excluded ts \<longleftrightarrow>
     distinct (map fst ts) \<and>
     (\<forall>(i, r) \<in> set ts. i = remoteId hx r \<and> i \<notin> set excluded \<and>
        r \<in> set (nl_getAll (hsLeft h)) \<union> set (nl_getAll (hsRight h)) \<union> set (nl_getAll (hsNearby h)) \<union> set (nl_getAll (hsRandom h)))"

lemma getFirst_included: "getFirst hx l exclude ws = Some r \<Longrightarrow> remoteId hx r \<notin> set exclude \<and> r \<in> set (nl_getAll l)"
proof -
  assume r: "getFirst hx l exclude ws = Some r"
  let ?vs = "getValuesOfIncludedKeys hx (nlNodes l) exclude ws"
  have "?vs \<noteq> []" "r = ?vs ! 0" using r by (auto simp: getFirst_def Let_def split: if_splits)
  then have "r \<in> set ?vs" by simp
  then show ?thesis by (auto simp: getValuesOfIncludedKeys_def nl_getAll_def split: if_splits)
qed

lemma targets_ok_add:
  assumes ok: "targets_ok hx h excluded ts"
    and c: "\<And>r. candidate = Some r \<Longrightarrow> remoteId hx r \<notin> set (excluded @ map fst ts) \<and>
      r \<in> set (nl_getAll (hsLeft h)) \<union> set (nl_getAll (hsRight h)) \<union> set (nl_getAll (hsNearby h)) \<union> set (nl_getAll (hsRandom h))"
  shows "targets_ok hx h excluded (addTarget hx candidate ts)"
proof (cases candidate)
  case (Some r)
  then show ?thesis using ok c [OF Some] by (auto simp: targets_ok_def addTarget_def)
qed (use ok in \<open>simp add: addTarget_def\<close>)

lemma length_addTarget: "length ts \<le> length (addTarget hx c ts)" "length (addTarget hx c ts) \<le> Suc (length ts)"
  by (simp_all add: addTarget_def split: option.splits)

lemma fill_random_ok:
  assumes "targets_ok hx h excluded ts" "view = hsRandom h"
  shows "targets_ok hx h excluded (fill_random hx rand view excluded ts) \<and>
    length ts \<le> length (fill_random hx rand view excluded ts) \<and>
    length (fill_random hx rand view excluded ts) \<le> max parallelHandshakeCount (length ts) \<and>
    (length (fill_random hx rand view excluded ts) < parallelHandshakeCount \<longrightarrow>
       remoteId hx ` set (nl_getAll view) \<subseteq> set excluded \<union> set (map fst (fill_random hx rand view excluded ts)))"
  using assms
proof (induction hx rand view excluded ts rule: fill_random.induct)
  case (1 hx rand view excluded ts)
  show ?case
  proof (cases "length ts < parallelHandshakeCount")
    case short: True
    show ?thesis
    proof (cases "getRandom hx (rand (length ts)) view (excluded @ map fst ts)")
      case None
      then have "getValuesOfIncludedKeys hx (nlNodes view) (excluded @ map fst ts) False = []"
        by (auto simp: getRandom_def Let_def split: if_splits)
      then have "remoteId hx ` set (nl_getAll view) \<subseteq> set excluded \<union> set (map fst ts)"
        by (auto simp: getValuesOfIncludedKeys_def nl_getAll_def filter_empty_conv)
      moreover have "fill_random hx rand view excluded ts = ts" using None short by (simp add: fill_random.simps)
      ultimately show ?thesis using "1.prems" by simp
    next
      case (Some r)
      let ?ts = "addTarget hx (Some r) ts"
      have "targets_ok hx h excluded ?ts"
        by (rule targets_ok_add [OF "1.prems"(1)]) (use getRandom_included [OF Some] "1.prems"(2) in auto)
      moreover have "fill_random hx rand view excluded ts = fill_random hx rand view excluded ?ts"
        using Some short by (subst fill_random.simps) simp
      ultimately show ?thesis using "1.IH" [OF short Some] "1.prems"(2) short length_addTarget(1) [of ts hx "Some r"]
          length_addTarget(2) [of hx "Some r" ts] by auto
    qed
  next
    case False
    then have "fill_random hx rand view excluded ts = ts" by (simp add: fill_random.simps)
    then show ?thesis using False "1.prems" by simp
  qed
qed

lemma selectParallelTargets_facts:
  "targets_ok hx h excluded (selectParallelTargets hx rand h excluded) \<and>
   length (selectParallelTargets hx rand h excluded) \<le> (if nl_size hx (hsNeighbors h) [] = 0 then 3 else 2) \<and>
   (length (selectParallelTargets hx rand h excluded) < 2 \<longrightarrow>
      remoteId hx ` set (nl_getAll (hsRandom h)) \<subseteq> set excluded \<union> set (map fst (selectParallelTargets hx rand h excluded)))"
proof -
  let ?ex = "\<lambda>ts. excluded @ map fst ts"
  define t1 where "t1 = (if nl_size hx (hsNeighbors h) [] = 0 then addTarget hx (getFirst hx (hsNearby h) (?ex []) True) [] else [])"
  define t2 where "t2 = addTarget hx (getFirst hx (hsLeft h) (?ex t1) False) t1"
  define t3 where "t3 = addTarget hx (getFirst hx (hsRight h) (?ex t2) False) t2"
  define t4 where "t4 = (if length t3 < parallelHandshakeCount then addTarget hx (getFirst hx (hsNearby h) (?ex t3) False) t3 else t3)"
  have sel: "selectParallelTargets hx rand h excluded = fill_random hx rand (hsRandom h) excluded t4"
    by (simp add: selectParallelTargets_def Let_def t1_def t2_def t3_def t4_def)
  have ok0: "targets_ok hx h excluded []" by (simp add: targets_ok_def)
  have ok1: "targets_ok hx h excluded t1" using ok0 unfolding t1_def by (auto intro!: targets_ok_add dest: getFirst_included)
  have ok2: "targets_ok hx h excluded t2" using ok1 unfolding t2_def by (auto intro!: targets_ok_add dest: getFirst_included)
  have ok3: "targets_ok hx h excluded t3" using ok2 unfolding t3_def by (auto intro!: targets_ok_add dest: getFirst_included)
  have ok4: "targets_ok hx h excluded t4" using ok3 unfolding t4_def by (auto intro!: targets_ok_add dest: getFirst_included)
  have "length t1 \<le> (if nl_size hx (hsNeighbors h) [] = 0 then 1 else 0)"
    unfolding t1_def using length_addTarget(2) [of hx _ "[]"] by auto
  moreover have "length t2 \<le> Suc (length t1)" "length t3 \<le> Suc (length t2)" unfolding t2_def t3_def by (rule length_addTarget)+
  moreover have "length t4 \<le> max 2 (length t3)"
    unfolding t4_def parallelHandshakeCount_def using length_addTarget(2) [of hx "getFirst hx (hsNearby h) (?ex t3) False" t3] by auto
  ultimately have "length t4 \<le> (if nl_size hx (hsNeighbors h) [] = 0 then 3 else 2)" by (auto split: if_splits)
  then show ?thesis using fill_random_ok [OF ok4 refl, of rand] unfolding sel parallelHandshakeCount_def by (auto split: if_splits)
qed

section \<open>Rounds keep the invariant\<close>

text \<open>While a round starts, ids without an operation may be in the set.\<close>

definition hs_pre :: "hex_codec \<Rightarrow> DhtAddress set \<Rightarrow> handshaker \<Rightarrow> bool" where
  "hs_pre hx X h \<longleftrightarrow> hs_lists_ok hx h \<and> tasks_ok hx h \<and> distinct (hsOngoingHandshakes h) \<and>
     set (hsOngoingHandshakes h) \<subseteq> active_ids hx h \<union> X"

lemma hs_pre_empty: "hs_pre hx {} h = hs_inv hx h"
  by (simp add: hs_pre_def hs_inv_def)

lemma hs_pre_begin: "hs_pre hx X h \<Longrightarrow> hs_pre hx (insert i X) (begin_handshake i h)"
  by (auto simp: hs_pre_def active_ids_def)

lemma hs_pre_begin_list: "hs_pre hx X h \<Longrightarrow> hs_pre hx (set ids \<union> X) (fold begin_handshake ids h)"
proof (induction ids arbitrary: X h)
  case (Cons i ids)
  then have "hs_pre hx (set ids \<union> insert i X) (fold begin_handshake ids (begin_handshake i h))" by (blast intro: hs_pre_begin)
  then show ?case by simp
qed simp

lemma hs_pre_withTarget:
  assumes hx: "hex_laws hx" and pre: "hs_pre hx X h" and c: "set_option c \<subseteq> range (getDhtAddressFromRaw hx)"
  shows "hs_pre hx (X - {pdId hx target}) (handshakeWithTarget_begin hx uuid h target c)"
proof -
  have "nl_inv hx (hsNeighbors h)" using pre by (simp add: hs_pre_def hs_lists_ok_def)
  then obtain req where "handshake_request hx uuid (getIds (hsNeighbors h)) c None = Inr req"
    using hex_laws.request_never_throws [OF hx _ c, of "hsNeighbors h" None] by auto
  then show ?thesis using pre
    by (auto simp: handshakeWithTarget_begin_def Let_def hs_pre_def active_ids_def op_ids_def hs_lists_ok_def tasks_ok_def begin_handshake_def)
qed

lemma hs_pre_begin_all:
  assumes "hex_laws hx" "hs_pre hx X h" "\<forall>(t, c) \<in> set ts. set_option c \<subseteq> range (getDhtAddressFromRaw hx)"
  shows "hs_pre hx (X - (pdId hx \<circ> fst) ` set ts) (begin_all hx uuid ts h)"
  using assms
proof (induction hx uuid ts h arbitrary: X rule: begin_all.induct)
  case (2 hx uuid target other ts h)
  let ?h = "handshakeWithTarget_begin hx (uuid (length (hsOps h))) h target other"
  have "hs_pre hx (X - {pdId hx target}) ?h" by (rule hs_pre_withTarget) (use "2.prems" in auto)
  then have "hs_pre hx (X - {pdId hx target} - (pdId hx \<circ> fst) ` set ts) (begin_all hx uuid ts ?h)"
    by (intro "2.IH") (use "2.prems" in auto)
  moreover have "X - {pdId hx target} - (pdId hx \<circ> fst) ` set ts = X - (pdId hx \<circ> fst) ` set ((target, other) # ts)" by auto
  ultimately show ?case by simp
qed simp

lemma hs_inv_parallel:
  assumes hx: "hex_laws hx" and inv: "hs_inv hx h"
  shows "hs_inv hx (fst (selectParallelTargetsAndHandshake hx rand uuid h excluded))"
proof -
  let ?ts = "selectParallelTargets hx rand h (excluded @ getIds (hsNeighbors h))" let ?ids = "map fst ?ts"
  let ?all = "map (\<lambda>i. (getPeerDescriptor (snd (?ts ! i)), concurrent_with ?ids i)) [0..<length ?ts]"
  have id: "fst (?ts ! i) = remoteId hx (snd (?ts ! i))" if "i < length ?ts" for i
    using selectParallelTargets_facts nth_mem [OF that] by (fastforce simp: targets_ok_def)
  have codec: "?ids ! j \<in> range (getDhtAddressFromRaw hx)" if "j < length ?ts" for j
    using that id [OF that] hex_laws.pdId_codec [OF hx] by simp
  have "set_option (concurrent_with ?ids i) \<subseteq> range (getDhtAddressFromRaw hx)" if "i < length ?ts" for i
    using that codec [of 0] codec [of 1] by (simp add: concurrent_with_def del: nth_map) (cases "?ts = []"; simp)
  then have "hs_pre hx (set ?ids - (pdId hx \<circ> fst) ` set ?all) (begin_all hx uuid ?all (fold begin_handshake ?ids h))"
    using hs_pre_begin_list [of hx "{}" h ?ids] inv by (intro hs_pre_begin_all [OF hx]) (auto simp: hs_pre_empty)
  moreover have "set ?ids \<subseteq> (pdId hx \<circ> fst) ` set ?all" using id by (force simp: in_set_conv_nth image_iff)
  then have "set ?ids - (pdId hx \<circ> fst) ` set ?all = {}" by blast
  ultimately have "hs_pre hx {} (begin_all hx uuid ?all (fold begin_handshake ?ids h))" by (simp only:)
  then show ?thesis by (simp add: selectParallelTargetsAndHandshake_def Let_def hs_pre_empty)
qed

lemma hs_inv_attempt:
  assumes hx: "hex_laws hx" and inv: "hs_inv hx h"
  shows "hs_inv hx (fst (attemptHandshakesOnContacts hx rand uuid h excluded))"
proof -
  have "hs_inv hx (handshakeWithTarget_begin hx u h t None)" for u t
    using hs_pre_withTarget [OF hx, of "{}" h None t u] inv by (simp add: hs_pre_empty)
  then have "hs_inv hx (fst (selectNewTargetAndHandshake hx rand uuid h excluded))"
    using inv by (simp add: selectNewTargetAndHandshake_def Let_def split: option.splits)
  then show ?thesis using hs_inv_parallel [OF assms] inv by (simp add: attemptHandshakesOnContacts_def Let_def)
qed

lemma hs_inv_step: "hex_laws hx \<Longrightarrow> hs_inv hx h \<Longrightarrow> hs_inv hx (hs_step hx h e)"
proof (cases e)
  case (IncomingHandshake request sender)
  assume "hs_inv hx h"
  then show ?thesis using IncomingHandshake hs_inv_handleRequest [of hx h request sender] by (auto split: sum.splits)
next
  case (IncomingInterleave uuid target sender)
  assume "hex_laws hx" "hs_inv hx h"
  then show ?thesis using IncomingInterleave hs_inv_interleaveRequest [of hx h uuid target sender] by (auto split: sum.splits)
next
  case (NeighborOp op)
  assume "hs_inv hx h"
  then show ?thesis using NeighborOp nl_exec_step(1) [of hx "hsNeighbors h" op]
    by (auto simp: hs_inv_def hs_lists_ok_def tasks_ok_def active_ids_def split: prod.splits)
qed (simp_all add: hs_inv_interleave_ends hs_inv_attempt hs_inv_answer hs_inv_view)

interpretation hs: op_machine "hs_step hx" "\<lambda>h. hex_laws hx \<and> hs_inv hx h" "\<lambda>_. True" for hx
  by unfold_locales (simp add: hs_inv_step)

lemma hs_inv_create: "hs_inv hx (hs_create ownId limit maxCount)"
  by (simp add: hs_inv_def hs_lists_ok_def tasks_ok_def hs_create_def nl_inv_create)

text \<open>
  The other direction.  An id stays in the set while an operation of it is under way, as long as no two operations of this id are under way at a
  time, as the first of them to end takes it out (\<open>shared_target_forgotten\<close> below).
\<close>

definition alone :: "hex_codec \<Rightarrow> DhtAddress \<Rightarrow> handshaker \<Rightarrow> bool" where
  "alone hx i h \<longleftrightarrow>
     (\<forall>j < length (hsOps h). \<forall>k < length (hsOps h). i \<in> op_ids hx (hsOps h ! j) \<and> i \<in> op_ids hx (hsOps h ! k) \<longrightarrow> j = k)"

primrec alone_run :: "hex_codec \<Rightarrow> DhtAddress \<Rightarrow> handshaker \<Rightarrow> hs_event list \<Rightarrow> bool" where
  "alone_run hx i h [] = True"
| "alone_run hx i h (e # es) = (alone hx i h \<and> alone_run hx i (hs_step hx h e) es)"

definition tracked :: "hex_codec \<Rightarrow> DhtAddress \<Rightarrow> handshaker \<Rightarrow> bool" where
  "tracked hx i h \<longleftrightarrow> (i \<in> active_ids hx h \<longrightarrow> i \<in> set (hsOngoingHandshakes h))"

lemma active_cong: "hsOps h1 = hsOps h \<Longrightarrow> active_ids hx h1 = active_ids hx h"
  by (simp add: active_ids_def)

lemma tracked_cong: "hsOps h1 = hsOps h \<Longrightarrow> hsOngoingHandshakes h1 = hsOngoingHandshakes h \<Longrightarrow> tracked hx i h1 = tracked hx i h"
  by (simp add: tracked_def active_ids_def)

lemma tracked_stage:
  assumes t: "tracked hx i h" and a: "alone hx i h" and k: "k < length (hsOps h)" and ops: "hsOps h1 = hsOps h"
    and others: "i \<in> set (hsOngoingHandshakes h) \<Longrightarrow> i \<notin> op_ids hx (hsOps h ! k) \<Longrightarrow> i \<in> set (hsOngoingHandshakes h1)"
    and own: "i \<in> op_ids hx ((hsOps h ! k)\<lparr>opStage := stage\<rparr>) \<Longrightarrow> i \<in> set (hsOngoingHandshakes h) \<or> i \<notin> op_ids hx (hsOps h ! k) \<Longrightarrow>
      i \<in> set (hsOngoingHandshakes h1)"
  shows "tracked hx i (set_op k stage h1)"
  unfolding tracked_def
proof
  assume "i \<in> active_ids hx (set_op k stage h1)"
  then obtain j where j: "j < length (hsOps h)" "i \<in> op_ids hx ((hsOps h)[k := (hsOps h ! k)\<lparr>opStage := stage\<rparr>] ! j)"
    by (auto simp: active_ids_def set_op_def ops in_set_conv_nth)
  have active: "i \<in> set (hsOngoingHandshakes h)" if "l < length (hsOps h)" "i \<in> op_ids hx (hsOps h ! l)" for l
    using t that by (auto simp: tracked_def active_ids_def)
  show "i \<in> set (hsOngoingHandshakes (set_op k stage h1))"
  proof (cases "j = k")
    case True
    then show ?thesis using j k own active [OF k] by auto
  next
    case False
    then have "i \<in> op_ids hx (hsOps h ! j)" "i \<notin> op_ids hx (hsOps h ! k)" using j k a by (auto simp: alone_def)
    then show ?thesis using others active [OF j(1)] by simp
  qed
qed

lemma tracked_answer:
  assumes "tracked hx i h" "alone hx i h"
  shows "tracked hx i (hs_answer hx uuid h k answer)"
proof (cases "k < length (hsOps h)")
  case k: True
  note stage = tracked_stage [OF assms k]
  let ?op = "hsOps h ! k" let ?t = "pdId hx (opTarget ?op)" let ?a = "answer_accepted answer"
  show ?thesis
  proof (cases "opStage ?op")
    case AwaitTarget
    have "tracked hx i (set_op k (Ended r) (end_handshake ?t (add_if ?a hx (opTarget ?op) h)))"
      and "tracked hx i (set_op k (Ended r) (remove_neighbor n (end_handshake ?t (add_if ?a hx (opTarget ?op) h))))"
      and "tracked hx i (set_op k (Ended r) (begin_handshake (pdId hx t) (add_if ?a hx (opTarget ?op) h)))"
      and "tracked hx i (set_op k (AwaitInterleaveTarget t b) (begin_handshake (pdId hx t) (add_if ?a hx (opTarget ?op) h)))" for r t n b
      by (rule stage; use AwaitTarget in \<open>auto simp: op_ids_def\<close>)+
    then show ?thesis using k AwaitTarget by (auto simp: hs_answer_def Let_def split: hs_kind.splits option.splits sum.splits)
  next
    case (AwaitInterleaveTarget t a)
    have "tracked hx i (set_op k (Ended (Inr a)) (end_handshake ?t (end_handshake (pdId hx t) (add_if ?a hx t h))))"
      by (rule stage) (use AwaitInterleaveTarget in \<open>auto simp: op_ids_def\<close>)
    then show ?thesis using k AwaitInterleaveTarget by (simp add: hs_answer_def Let_def)
  qed (use assms k in \<open>simp add: hs_answer_def Let_def\<close>)
qed (simp add: hs_answer_def assms)

lemma tracked_begin:
  assumes "tracked hx i h" "op_ids hx op \<subseteq> {pdId hx target}"
  shows "tracked hx i ((begin_handshake (pdId hx target) h)\<lparr>hsOps := hsOps h @ [op]\<rparr>)"
  using assms by (auto simp: tracked_def active_ids_def begin_handshake_def)

lemma tracked_withTarget: "tracked hx i h \<Longrightarrow> tracked hx i (handshakeWithTarget_begin hx uuid h target c)"
  by (simp add: handshakeWithTarget_begin_def Let_def tracked_begin op_ids_def split: sum.split)

lemma tracked_begin_all: "tracked hx i h \<Longrightarrow> tracked hx i (begin_all hx uuid ts h)"
  by (induction hx uuid ts h rule: begin_all.induct) (simp_all add: tracked_withTarget)

lemma tracked_begin_list: "tracked hx i h \<Longrightarrow> tracked hx i (fold begin_handshake ids h)"
  by (induction ids arbitrary: h) (auto simp: tracked_def active_ids_def)

lemma tracked_attempt: "tracked hx i h \<Longrightarrow> tracked hx i (fst (attemptHandshakesOnContacts hx rand uuid h excluded))"
  by (simp add: attemptHandshakesOnContacts_def selectParallelTargetsAndHandshake_def selectNewTargetAndHandshake_def Let_def
      tracked_begin_all tracked_begin_list tracked_withTarget split: option.split)

lemma handleRequest_frame:
  "handleRequest hx h request sender = Inr (h1, resp) \<Longrightarrow> hsOps h1 = hsOps h \<and> hsOngoingHandshakes h1 = hsOngoingHandshakes h"
  by (auto simp: handleRequest_def Let_def acceptHandshake_def rejectHandshake_def acceptHandshakeWithInterleaving_def
      split: option.splits if_splits)

lemma view_op_frame: "hsOps (view_op hx v op h) = hsOps h" "hsOngoingHandshakes (view_op hx v op h) = hsOngoingHandshakes h"
  by (cases v; simp)+

lemma interleave_ends_frame:
  "hsOps (interleave_ends hx h j a) = hsOps h" "hsOngoingHandshakes (interleave_ends hx h j a) = hsOngoingHandshakes h"
  by (simp_all add: interleave_ends_def Let_def split: prod.split)

lemma tracked_step: "tracked hx i h \<Longrightarrow> alone hx i h \<Longrightarrow> tracked hx i (hs_step hx h e)"
proof (cases e)
  case (IncomingHandshake request sender)
  assume "tracked hx i h"
  then show ?thesis using IncomingHandshake handleRequest_frame [of hx h request sender]
    by (auto simp: tracked_def active_ids_def split: sum.splits)
next
  case (IncomingInterleave uuid target sender)
  assume "tracked hx i h"
  then show ?thesis using IncomingInterleave
    by (simp add: interleaveRequest_begin_def Let_def tracked_begin op_ids_def split: option.split sum.split)
next
  case (NeighborOp op)
  assume "tracked hx i h"
  then show ?thesis using NeighborOp by (simp add: tracked_def active_ids_def split: prod.split)
next
  case (InterleaveEnds j a)
  assume "tracked hx i h"
  then show ?thesis using InterleaveEnds tracked_cong [OF interleave_ends_frame] by simp
next
  case (ViewOp v op)
  assume "tracked hx i h"
  then show ?thesis using ViewOp tracked_cong [OF view_op_frame] by simp
qed (simp_all add: tracked_attempt tracked_answer)

lemma tracked_run: "tracked hx i h \<Longrightarrow> alone_run hx i h es \<Longrightarrow> tracked hx i (foldl (hs_step hx) h es)"
  by (induction es arbitrary: h) (simp_all add: tracked_step)

section \<open>Properties\<close>


lemma size_t_le: "a < 2 ^ 64 \<Longrightarrow> b < 2 ^ 64 \<Longrightarrow> size_t a \<le> size_t b \<longleftrightarrow> a \<le> b"
  by (simp add: word_le_nat_alt unat_of_nat)

lemma size_t_less: "a < 2 ^ 64 \<Longrightarrow> b < 2 ^ 64 \<Longrightarrow> size_t a < size_t b \<longleftrightarrow> a < b"
  by (simp add: word_less_nat_alt unat_of_nat)

lemma size_t_diff: "b \<le> a \<Longrightarrow> a < 2 ^ 64 \<Longrightarrow> 2 \<le> size_t a - size_t b \<longleftrightarrow> b + 2 \<le> a"
proof -
  assume "b \<le> a" "a < 2 ^ 64"
  then have "size_t a - size_t b = size_t (a - b)" by simp
  moreover have "2 \<le> size_t (a - b) \<longleftrightarrow> 2 \<le> a - b"
    using size_t_le [of 2 "a - b"] \<open>a < 2 ^ 64\<close> by simp
  ultimately show ?thesis using \<open>b \<le> a\<close> by simp linarith
qed

text \<open>A difference that wraps around passes the test for two remaining neighbours.\<close>

lemma size_t_wraps:
  assumes "a < b" "b < 2 ^ 63"
  shows "2 \<le> size_t a - size_t b"
proof -
  have "unat (size_t a - size_t b) = 2 ^ 64 + a - b"
    using assms by (simp add: unat_sub_if' unat_of_nat)
  then show ?thesis using assms by (simp add: word_le_nat_alt)
qed

lemma nl_size_le: "nl_size hx l exclude \<le> length (nlNodes l)"
  using length_filter_le by (fastforce simp: nl_size_def getValuesOfIncludedKeys_def)

lemma getIds_add_neighbor:
  assumes "nl_inv hx (hsNeighbors h)"
  shows "set (getIds (hsNeighbors h)) \<subseteq> set (getIds (hsNeighbors (add_neighbor hx p h)))"
    and "length (nlNodes (hsNeighbors (add_neighbor hx p h))) \<le> Suc (length (nlNodes (hsNeighbors h)))"
    and "length (nlNodes (hsNeighbors h)) < nlLimit (hsNeighbors h) \<Longrightarrow> pdId hx p \<noteq> nlOwnId (hsNeighbors h) \<Longrightarrow>
      pdId hx p \<in> set (getIds (hsNeighbors (add_neighbor hx p h)))"
proof -
  have ids: "getIds (hsNeighbors (add_neighbor hx p h)) =
      (if nlOwnId (hsNeighbors h) \<noteq> pdId hx p \<and> length (nlNodes (hsNeighbors h)) < nlLimit (hsNeighbors h) \<and> pdId hx p \<notin> set (getIds (hsNeighbors h))
       then getIds (hsNeighbors h) @ [pdId hx p] else getIds (hsNeighbors h))"
    unfolding neighbors_add using getIds_add [OF assms] by simp
  have len: "length (nlNodes l) = length (getIds l)" for l by (simp add: getIds_def)
  show "set (getIds (hsNeighbors h)) \<subseteq> set (getIds (hsNeighbors (add_neighbor hx p h)))" unfolding ids by auto
  show "length (nlNodes (hsNeighbors (add_neighbor hx p h))) \<le> Suc (length (nlNodes (hsNeighbors h)))" unfolding len ids by auto
  show "length (nlNodes (hsNeighbors h)) < nlLimit (hsNeighbors h) \<Longrightarrow> pdId hx p \<noteq> nlOwnId (hsNeighbors h) \<Longrightarrow>
      pdId hx p \<in> set (getIds (hsNeighbors (add_neighbor hx p h)))" unfolding ids by auto
qed

lemma accept_interleaving_effect:
  "hsNeighbors (fst (acceptHandshakeWithInterleaving hx h request sender)) = hsNeighbors (add_neighbor hx sender h) \<and>
   hpAccepted (snd (acceptHandshakeWithInterleaving hx h request sender)) \<and>
   hpRequestId (snd (acceptHandshakeWithInterleaving hx h request sender)) = hrRequestId request"
  by (simp add: acceptHandshakeWithInterleaving_def hs_response_def Let_def neighbors_add split: option.splits)

lemma interleave_exclude_set:
  "set (interleave_exclude hx h request sender) = getDhtAddressFromRaw hx ` (set (hrNeighborNodeIds request) \<union> set_option (hrInterleaveNodeId request)) \<union>
     set (hsOngoingInterleaves h) \<union> {pdId hx sender}"
  by (auto simp: interleave_exclude_def split: option.splits)

lemma add_neighbor_rest:
  "hsInterleaveTasks (add_neighbor hx p h) = hsInterleaveTasks h" "hsOngoingInterleaves (add_neighbor hx p h) = hsOngoingInterleaves h"
  by simp_all

lemma remote_in_ids: "nl_inv hx l \<Longrightarrow> r \<in> set (nl_getAll l) \<Longrightarrow> remoteId hx r \<in> set (getIds l)"
proof -
  assume inv: "nl_inv hx l" and "r \<in> set (nl_getAll l)"
  then obtain i where i: "(i, r) \<in> set (nlNodes l)" unfolding nl_getAll_def by auto
  have "i = remoteId hx r" using inv i unfolding nl_inv_def by blast
  then show ?thesis using i unfolding getIds_def by force
qed

text \<open>Which neighbour an acceptance by interleaving hands over, and what it records.\<close>

lemma accept_interleaving_target:
  assumes e: "eligible = filter (\<lambda>r. remoteId hx r \<notin> set (interleave_exclude hx h request sender)) (nl_getAll (hsNeighbors h))"
    and r: "(h1, resp) = acceptHandshakeWithInterleaving hx h request sender"
  shows "hpInterleaveTarget resp = (if eligible = [] then None else Some (getPeerDescriptor (last eligible))) \<and>
    hsInterleaveTasks h1 = hsInterleaveTasks h @ (if eligible = [] then [] else [(remoteId hx (last eligible), getPeerDescriptor (last eligible), sender)]) \<and>
    set (hsOngoingInterleaves h1) = set (hsOngoingInterleaves h) \<union> (if eligible = [] then {} else {remoteId hx (last eligible)})"
proof -
  have "getValuesOfIncludedKeys hx (nlNodes (hsNeighbors h)) (interleave_exclude hx h request sender) False = eligible"
    by (simp add: e getValuesOfIncludedKeys_def nl_getAll_def)
  then have "getLast hx (hsNeighbors h) (interleave_exclude hx h request sender) = (if eligible = [] then None else Some (last eligible))"
    by (simp add: getLast_def Let_def)
  then show ?thesis using r
    by (auto simp: acceptHandshakeWithInterleaving_def hs_response_def Let_def add_neighbor_rest split: if_splits)
qed

text \<open>
  C23. The decision on an incoming handshake, as long as no size wraps around (fewer than 2^64 neighbours and handshakes, and no more interleaves
  under way than neighbours that count; otherwise see \<open>interleave_guard_wraps\<close>).  A node that is being handed over is refused, a neighbour and a
  node that is itself asked is accepted, otherwise there must be room, or two neighbours must remain after all interleaves.  In this last case,
  and in no other, a neighbour is handed over: the last one that the requester does not know, that is not being handed over already and is neither
  the requester nor the node the requester interleaves with, if there is one; with it goes one task that will ask it to shake hands with the
  requester, and its id is marked as being handed over.  A refusal changes nothing, an acceptance makes the sender a neighbour if the list has
  room, keeps every neighbour, and adds at most one.
\<close>

theorem handshake_decision:
  assumes inv: "hs_inv hx h" and r: "handleRequest hx h request (Some sender) = Inr (h1, resp)"
    and n: "n = length (nlNodes (hsNeighbors h))" "m = nl_size hx (hsNeighbors h) (case hrInterleaveNodeId request of Some i \<Rightarrow> [getDhtAddressFromRaw hx i] | None \<Rightarrow> [])"
    and small: "n + length (hsOngoingHandshakes h) < 2 ^ 64" "length (hsOngoingInterleaves h) \<le> m" and maxi: "hsMaxNeighborCount h = size_t maxi" "maxi < 2 ^ 64"
    and room: "room \<longleftrightarrow> pdId hx sender \<in> set (getIds (hsNeighbors h)) \<union> set (hsOngoingHandshakes h) \<or> n + length (hsOngoingHandshakes h) < maxi"
    and rest: "rest \<longleftrightarrow> length (hsOngoingInterleaves h) + 2 \<le> m \<and> n \<le> maxi"
    and eligible: "eligible = filter (\<lambda>x. remoteId hx x \<notin> set (hsOngoingInterleaves h) \<and> remoteId hx x \<noteq> pdId hx sender \<and>
      remoteId hx x \<notin> getDhtAddressFromRaw hx ` (set (hrNeighborNodeIds request) \<union> set_option (hrInterleaveNodeId request))) (nl_getAll (hsNeighbors h))"
    and handed: "handed = (if pdId hx sender \<notin> set (hsOngoingInterleaves h) \<and> \<not> room \<and> rest \<and> eligible \<noteq> []
      then Some (getPeerDescriptor (last eligible)) else None)"
  shows "hpAccepted resp = (pdId hx sender \<notin> set (hsOngoingInterleaves h) \<and> (room \<or> rest)) \<and>
    hpRequestId resp = hrRequestId request \<and>
    hpInterleaveTarget resp = handed \<and>
    hsInterleaveTasks h1 = hsInterleaveTasks h @ (case handed of None \<Rightarrow> [] | Some t \<Rightarrow> [(pdId hx t, t, sender)]) \<and>
    set (hsOngoingInterleaves h1) = set (hsOngoingInterleaves h) \<union> pdId hx ` set_option handed \<and>
    (\<not> hpAccepted resp \<longrightarrow> h1 = h) \<and>
    (hpAccepted resp \<and> n < nlLimit (hsNeighbors h) \<and> pdId hx sender \<noteq> nlOwnId (hsNeighbors h) \<longrightarrow> pdId hx sender \<in> set (getIds (hsNeighbors h1))) \<and>
    set (getIds (hsNeighbors h)) \<subseteq> set (getIds (hsNeighbors h1)) \<and> length (nlNodes (hsNeighbors h1)) \<le> n + 1 \<and>
    (handed = Some t \<longrightarrow> pdId hx t \<in> set (getIds (hsNeighbors h)))"
proof -
  let ?known = "pdId hx sender \<in> set (getIds (hsNeighbors h)) \<union> set (hsOngoingHandshakes h)"
  have nl: "nl_inv hx (hsNeighbors h)" using inv by (simp add: hs_inv_def hs_lists_ok_def)
  have m: "m < 2 ^ 64" using nl_size_le [of hx "hsNeighbors h"] n small(1) by (metis add_lessD1 order_le_less_trans)
  have cond: "size_t n + size_t (length (hsOngoingHandshakes h)) < hsMaxNeighborCount h \<longleftrightarrow> n + length (hsOngoingHandshakes h) < maxi"
    using size_t_less [OF small(1) maxi(2)] maxi(1) by simp
  have guard: "2 \<le> size_t m - size_t (length (hsOngoingInterleaves h)) \<and> size_t n \<le> hsMaxNeighborCount h \<longleftrightarrow> rest"
    using size_t_diff [OF small(2) m] size_t_le [of n maxi] maxi small(1) rest by simp
  have has: "nl_has (hsNeighbors h) (pdId hx sender) \<or> pdId hx sender \<in> set (hsOngoingHandshakes h) \<longleftrightarrow> ?known" by (simp add: nl_has_iff)
  have decide: "(h1, resp) = (if pdId hx sender \<in> set (hsOngoingInterleaves h) then rejectHandshake h request
      else if room then acceptHandshake hx h request sender
      else if rest then acceptHandshakeWithInterleaving hx h request sender else rejectHandshake h request)"
    using r unfolding handleRequest_def Let_def option.case nl_size_0 n(1) [symmetric] n(2) [symmetric] cond guard has room by (auto split: if_splits)
  have el: "eligible = filter (\<lambda>r. remoteId hx r \<notin> set (interleave_exclude hx h request sender)) (nl_getAll (hsNeighbors h))"
    unfolding eligible interleave_exclude_set by (rule filter_cong) auto
  have inlist: "pdId hx t \<in> set (getIds (hsNeighbors h))" if "handed = Some t"
  proof -
    have t: "eligible \<noteq> []" "t = getPeerDescriptor (last eligible)" using that handed by (auto split: if_splits)
    have "set eligible \<subseteq> set (nl_getAll (hsNeighbors h))" unfolding el by auto
    then have "last eligible \<in> set (nl_getAll (hsNeighbors h))" using last_in_set [OF t(1)] by blast
    then show ?thesis using remote_in_ids [OF nl] t(2) by simp
  qed
  note effect = accept_interleaving_effect [of hx h request sender] accept_interleaving_target [OF el, of h1 resp]
  consider (busy) "pdId hx sender \<in> set (hsOngoingInterleaves h)" | (room) "pdId hx sender \<notin> set (hsOngoingInterleaves h)" room
    | (hand) "pdId hx sender \<notin> set (hsOngoingInterleaves h)" "\<not> room" rest | (full) "pdId hx sender \<notin> set (hsOngoingInterleaves h)" "\<not> room" "\<not> rest"
    by blast
  then show ?thesis
  proof cases
    case hand
    then have acc: "(h1, resp) = acceptHandshakeWithInterleaving hx h request sender" using decide by simp
    then have "hsNeighbors h1 = hsNeighbors (add_neighbor hx sender h)" "hpAccepted resp" "hpRequestId resp = hrRequestId request"
      using effect(1) by (metis fst_conv snd_conv)+
    then show ?thesis using effect(2) [OF acc] hand handed inlist getIds_add_neighbor [OF nl, of sender] n(1) by simp
  next
    case room
    then have "h1 = add_neighbor hx sender h" "resp = hs_response request True None" using decide by (simp_all add: acceptHandshake_def)
    moreover have "handed = None" using room handed by simp
    ultimately show ?thesis using room getIds_add_neighbor [OF nl, of sender] n(1) by (simp add: hs_response_def add_neighbor_rest)
  qed (use decide handed n(1) in \<open>simp_all add: rejectHandshake_def hs_response_def\<close>)
qed

text \<open>
  C29. The targets of a parallel round are found in a bounded number of draws: at most two, or three when there are no neighbours, all
  different, none excluded and none a neighbour, and fewer than two only if every random contact is excluded or chosen.
\<close>

theorem parallel_targets:
  assumes "ts = selectParallelTargets hx rand h (excluded @ getIds (hsNeighbors h))"
  shows "distinct (map fst ts) \<and> length ts \<le> (if nl_size hx (hsNeighbors h) [] = 0 then 3 else 2) \<and>
    (\<forall>(i, r) \<in> set ts. i = remoteId hx r \<and> i \<notin> set excluded \<and> i \<notin> set (getIds (hsNeighbors h))) \<and>
    (length ts < 2 \<longrightarrow> remoteId hx ` set (nl_getAll (hsRandom h)) \<subseteq> set excluded \<union> set (getIds (hsNeighbors h)) \<union> set (map fst ts))"
  using selectParallelTargets_facts [of hx h "excluded @ getIds (hsNeighbors h)" rand]
  unfolding assms targets_ok_def by (auto simp del: set_map)

text \<open>
  A node that is asked to interleave always answers that it accepts, and gives up the neighbour that asked, even when its handshake with
  the new node was refused or never answered; the asking node then gives it up as well, so that both lose a neighbour for nothing.
\<close>

theorem failed_interleave_accepted:
  assumes inv: "nl_inv hx (hsNeighbors h)" and k: "k < length (hsOps h)" "opStage (hsOps h ! k) = AwaitTarget" "opKind (hsOps h ! k) = InterleaveFor sender"
    and refused: "\<not> answer_accepted answer"
    and asking: "nl_inv hx (hsNeighbors a)" "j < length (hsInterleaveTasks a)" "hsInterleaveTasks a ! j = (pdId hx d, d, requester)"
  shows "opStage (hsOps (hs_answer hx uuid h k answer) ! k) = Ended (Inr True) \<and>
    getIds (hsNeighbors (hs_answer hx uuid h k answer)) = filter (\<lambda>i. i \<noteq> sender) (getIds (hsNeighbors h)) \<and>
    getIds (hsNeighbors (interleave_ends hx a j (Some True))) = filter (\<lambda>i. i \<noteq> pdId hx d) (getIds (hsNeighbors a))"
proof -
  have "hsNeighbors (hs_answer hx uuid h k answer) = fst (nl_remove (hsNeighbors h) sender)"
    using k refused by (simp add: hs_answer_def Let_def add_if_def neighbors_remove)
  moreover have "opStage (hsOps (hs_answer hx uuid h k answer) ! k) = Ended (Inr True)"
    using k by (simp add: hs_answer_def Let_def set_op_def)
  moreover have "hsNeighbors (interleave_ends hx a j (Some True)) = fst (nl_remove (hsNeighbors a) (pdId hx d))"
    using asking by (simp add: interleave_ends_def Let_def neighbors_remove)
  ultimately show ?thesis using getIds_remove [OF inv] getIds_remove [OF asking(1)] by simp
qed

text \<open>
  The guard that is to keep two neighbours through all interleaves passes when there are fewer neighbours than interleaves under way.
\<close>

theorem interleave_guard_wraps:
  assumes "pdId hx sender \<notin> set (hsOngoingInterleaves h)" "\<not> nl_has (hsNeighbors h) (pdId hx sender)" "pdId hx sender \<notin> set (hsOngoingHandshakes h)"
    and full: "\<not> size_t (nl_size hx (hsNeighbors h) []) + size_t (length (hsOngoingHandshakes h)) < hsMaxNeighborCount h"
      "size_t (nl_size hx (hsNeighbors h) []) \<le> hsMaxNeighborCount h"
    and few: "hrInterleaveNodeId request = None" "nl_size hx (hsNeighbors h) [] < length (hsOngoingInterleaves h)" "length (hsOngoingInterleaves h) < 2 ^ 63"
  shows "\<exists>h1 resp. handleRequest hx h request (Some sender) = Inr (h1, resp) \<and> hpAccepted resp"
proof -
  have "2 \<le> size_t (nl_size hx (hsNeighbors h) []) - size_t (length (hsOngoingInterleaves h))" by (rule size_t_wraps [OF few(2,3)])
  then show ?thesis using assms by (simp add: handleRequest_def Let_def acceptHandshakeWithInterleaving_def hs_response_def split: option.splits)
qed

section \<open>Witnesses\<close>

definition demo_peer :: "byte \<Rightarrow> PeerDescriptor" where
  "demo_peer b = \<lparr>nodeid = [b], region = 0, ipaddress = 0, websocket = None\<rparr>"

definition demo_hs :: handshaker where
  "demo_hs = foldl (hs_step ref_hex) (hs_create ''ff'' 20 4)
     [NeighborOp (NAdd \<lparr>getPeerDescriptor = demo_peer 1, remoteObject = 7\<rparr>), IncomingInterleave ''u'' (demo_peer 2) (Some (demo_peer 1))]"

definition demo_asking :: handshaker where
  "demo_asking = (hs_create ''fe'' 20 4)\<lparr>hsInterleaveTasks := [(pdId ref_hex (demo_peer 1), demo_peer 1, demo_peer 2)]\<rparr>"

lemma demo_hs_inv: "hs_inv ref_hex demo_hs"
  using hs.run_inv [of ref_hex "hs_create ''ff'' 20 4"
      "[NeighborOp (NAdd \<lparr>getPeerDescriptor = demo_peer 1, remoteObject = 7\<rparr>), IncomingInterleave ''u'' (demo_peer 2) (Some (demo_peer 1))]"]
    ref.hex_laws_axioms hs_inv_create by (simp add: demo_hs_def)

lemma demo_hs_alone:
  "alone_run ref_hex (pdId ref_hex (demo_peer 2)) (hs_create ''ff'' 20 4)
     [NeighborOp (NAdd \<lparr>getPeerDescriptor = demo_peer 1, remoteObject = 7\<rparr>), IncomingInterleave ''u'' (demo_peer 2) (Some (demo_peer 1))]"
proof -
  let ?h = "hs_create ''ff'' 20 4" let ?e = "NeighborOp (NAdd \<lparr>getPeerDescriptor = demo_peer 1, remoteObject = 7\<rparr>)"
  have "hsOps ?h = []" by (simp add: hs_create_def)
  moreover have "hsOps (hs_step ref_hex ?h ?e) = hsOps ?h" by (simp split: prod.split)
  ultimately show ?thesis unfolding alone_run.simps alone_def by simp
qed


text \<open>Two operations of the same target: the first to end takes the id out of the set while the second is under way.\<close>

lemma shared_target_forgotten:
  "pdId ref_hex (demo_peer 2) \<in> active_ids ref_hex
     (foldl (hs_step ref_hex) demo_hs [IncomingInterleave ''w'' (demo_peer 2) (Some (demo_peer 1)), Answer ''w'' 0 None]) \<and>
   hsOngoingHandshakes
     (foldl (hs_step ref_hex) demo_hs [IncomingInterleave ''w'' (demo_peer 2) (Some (demo_peer 1)), Answer ''w'' 0 None]) = []"
  by code_simp

theorem parallel_targets_witness: "length (selectParallelTargets ref_hex (\<lambda>_. 0) demo_hs ([] @ getIds (hsNeighbors demo_hs))) \<le> 3"
  using parallel_targets [OF refl, of ref_hex "\<lambda>_. 0" demo_hs "[]"] by (auto split: if_splits)

definition demo_hs_request :: StreamPartHandshakeRequest where
  "demo_hs_request = \<lparr>hrRequestId = ''r'', hrNeighborNodeIds = [], hrConcurrentHandshakeNodeId = None, hrInterleaveNodeId = None\<rparr>"

definition demo_full_hs :: handshaker where
  "demo_full_hs = foldl (hs_step ref_hex) (hs_create ''ff'' 20 4)
     (map (\<lambda>b. NeighborOp (NAdd \<lparr>getPeerDescriptor = demo_peer b, remoteObject = 7\<rparr>)) [1, 2, 3, 4])"

text \<open>Peer 4, the last neighbour, is handed over to peer 9, as the list is full.\<close>

theorem handshake_decision_witness:
  "\<exists>h1 resp. handleRequest ref_hex demo_full_hs demo_hs_request (Some (demo_peer 9)) = Inr (h1, resp) \<and> hpAccepted resp \<and>
     hpInterleaveTarget resp = Some (demo_peer 4) \<and> pdId ref_hex (demo_peer 9) \<in> set (getIds (hsNeighbors h1))"
proof -
  have inv: "hs_inv ref_hex demo_full_hs"
    unfolding demo_full_hs_def
    by (rule hs.run_inv [THEN conjunct2], unfold list_all_iff) (simp_all only: ref.hex_laws_axioms hs_inv_create list_all_iff simp_thms ball_triv)
  obtain h1 resp where r: "handleRequest ref_hex demo_full_hs demo_hs_request (Some (demo_peer 9)) = Inr (h1, resp)"
    by (cases "handleRequest ref_hex demo_full_hs demo_hs_request (Some (demo_peer 9))") (auto simp: handleRequest_def Let_def split: if_splits)
  have d: "length (nlNodes (hsNeighbors demo_full_hs)) = 4" "nl_size ref_hex (hsNeighbors demo_full_hs) [] = 4" "hsOngoingHandshakes demo_full_hs = []"
    "hsOngoingInterleaves demo_full_hs = []" "hsMaxNeighborCount demo_full_hs = 4" "nlLimit (hsNeighbors demo_full_hs) = 20"
    "pdId ref_hex (demo_peer 9) \<notin> set (getIds (hsNeighbors demo_full_hs))" "pdId ref_hex (demo_peer 9) \<noteq> nlOwnId (hsNeighbors demo_full_hs)"
    "map getPeerDescriptor (filter (\<lambda>x. remoteId ref_hex x \<noteq> pdId ref_hex (demo_peer 9)) (nl_getAll (hsNeighbors demo_full_hs))) = map demo_peer [1, 2, 3, 4]"
    by code_simp+
  let ?e = "filter (\<lambda>x. remoteId ref_hex x \<noteq> pdId ref_hex (demo_peer 9)) (nl_getAll (hsNeighbors demo_full_hs))"
  have last: "?e \<noteq> []" "getPeerDescriptor (last ?e) = demo_peer 4" using d(9) last_map [of ?e getPeerDescriptor] by auto
  show ?thesis
    using handshake_decision [OF inv r refl refl _ _ _ _ refl refl refl refl, of 4] r d last
    by (simp add: demo_hs_request_def)
qed

theorem failed_interleave_accepted_witness:
  "opStage (hsOps (hs_answer ref_hex ''v'' demo_hs 0 None) ! 0) = Ended (Inr True) \<and> getIds (hsNeighbors (hs_answer ref_hex ''v'' demo_hs 0 None)) = []"
proof -
  have d: "getIds (hsNeighbors demo_hs) = [pdId ref_hex (demo_peer 1)]" "length (hsOps demo_hs) = 1"
    "opKind (hsOps demo_hs ! 0) = InterleaveFor (pdId ref_hex (demo_peer 1))" "opStage (hsOps demo_hs ! 0) = AwaitTarget"
    by (code_simp)+
  have "nl_inv ref_hex (hsNeighbors demo_hs)" using demo_hs_inv by (simp add: hs_inv_def hs_lists_ok_def)
  moreover have "nl_inv ref_hex (hsNeighbors demo_asking)" by (simp add: demo_asking_def hs_create_def nl_inv_create)
  ultimately show ?thesis
    using failed_interleave_accepted [of ref_hex demo_hs 0 "pdId ref_hex (demo_peer 1)" None demo_asking 0 "demo_peer 1" "demo_peer 2" "''v''"] d
    by (simp add: answer_accepted_def demo_asking_def)
qed

end
