(* ===== verification/Neighbor_Update.thy ===== *)
theory Neighbor_Update
  imports Handshake
begin

text \<open>
  Keeping the neighbours of a stream part: the search for new ones (\<^verbatim>\<open>NeighborFinder.cppm\<close>, with the timers of
  \<^verbatim>\<open>AbortableTimers.cppm\<close>) and the periodic exchange of neighbour lists (\<^verbatim>\<open>NeighborUpdateRpcLocal.cppm\<close>,
  \<^verbatim>\<open>NeighborUpdateManager.cppm\<close>, \<^verbatim>\<open>NeighborUpdateRpcRemote.cppm\<close>).  The rounds of the search are tasks of a scope and
  timers of a scheduler; what a round of handshakes returns and the node lists it finds when it ends are arguments of its step.
\<close>

section \<open>The search for neighbours\<close>

datatype find_task = FindQueued "DhtAddress list" | FindRunning "DhtAddress list"

text \<open>A timer starts two chains of rounds (the first one) or the next round of a chain.\<close>

record finder =
  nfRunning :: bool
  nfAborted :: bool
  nfClosed :: bool
  nfTimers :: "(nat \<times> DhtAddress list) list"
  nfTasks :: "find_task list"
  nfMinCount :: nat

definition nf_create :: "nat \<Rightarrow> finder" where
  "nf_create minCount = \<lparr>nfRunning = False, nfAborted = False, nfClosed = False, nfTimers = [], nfTasks = [], nfMinCount = minCount\<rparr>"

definition setAbortableTimeout :: "nat \<Rightarrow> DhtAddress list \<Rightarrow> finder \<Rightarrow> finder" where
  "setAbortableTimeout nchains excluded f = (if nfAborted f then f else f\<lparr>nfTimers := nfTimers f @ [(nchains, excluded)]\<rparr>)"

definition nf_start :: "DhtAddress list \<Rightarrow> finder \<Rightarrow> finder" where
  "nf_start excluded f = (if nfRunning f then f else setAbortableTimeout 2 excluded (f\<lparr>nfRunning := True\<rparr>))"

definition scheduleFindNeighbors :: "DhtAddress list \<Rightarrow> finder \<Rightarrow> finder" where
  "scheduleFindNeighbors excluded f = (if nfClosed f then f else f\<lparr>nfTasks := nfTasks f @ [FindQueued excluded]\<rparr>)"

definition nf_timer :: "nat \<Rightarrow> finder \<Rightarrow> finder" where
  "nf_timer j f =
     (if j < length (nfTimers f)
      then (case nfTimers f ! j of
              (nchains, excluded) \<Rightarrow>
                (let f1 = f\<lparr>nfTimers := take j (nfTimers f) @ drop (Suc j) (nfTimers f)\<rparr>
                 in if nfAborted f then f1 else (scheduleFindNeighbors excluded ^^ nchains) f1))
      else f)"

definition drop_task :: "nat \<Rightarrow> finder \<Rightarrow> finder" where
  "drop_task j f = f\<lparr>nfTasks := take j (nfTasks f) @ drop (Suc j) (nfTasks f)\<rparr>"

text \<open>\<^verbatim>\<open>findNeighbors\<close> up to the round of handshakes, and after it.\<close>

definition findNeighbors_begin :: "nat \<Rightarrow> finder \<Rightarrow> finder" where
  "findNeighbors_begin j f =
     (if j < length (nfTasks f)
      then (case nfTasks f ! j of
              FindQueued excluded \<Rightarrow>
                (if nfRunning f then f\<lparr>nfTasks := (nfTasks f)[j := FindRunning excluded]\<rparr> else drop_task j f)
            | FindRunning _ \<Rightarrow> f)
      else f)"

definition unique_contacts :: "node_list list \<Rightarrow> nat" where
  "unique_contacts views = length (remdups (concat (map getIds views)))"

definition findNeighbors_end :: "hex_codec \<Rightarrow> node_list \<Rightarrow> node_list list \<Rightarrow> DhtAddress list \<Rightarrow> nat \<Rightarrow> finder \<Rightarrow> finder" where
  "findNeighbors_end hx neighbors views newExcludes j f =
     (if j < length (nfTasks f) \<and> (\<exists>ex. nfTasks f ! j = FindRunning ex)
      then (let f1 = drop_task j f; uniqueContactCount = unique_contacts views
            in if nl_size hx neighbors [] < nfMinCount f \<and> length newExcludes < uniqueContactCount
               then setAbortableTimeout 1 newExcludes f1
               else if nl_size hx neighbors [] = 0 \<and> 0 < uniqueContactCount then setAbortableTimeout 1 [] f1
               else f1\<lparr>nfRunning := False\<rparr>)
      else f)"

text \<open>
  \<^verbatim>\<open>stop\<close>: the abort cancels the timers, and the scope takes no more tasks; waiting for the running ones are further steps.
\<close>

definition nf_stop :: "finder \<Rightarrow> finder" where
  "nf_stop f = (if nfRunning f then f\<lparr>nfRunning := False, nfAborted := True, nfTimers := [], nfClosed := True\<rparr> else f)"

datatype nf_event =
    FStart "DhtAddress list"
  | FTimer nat
  | FBegin nat
  | FEnd node_list "node_list list" "DhtAddress list" nat
  | FStop

fun nf_step :: "hex_codec \<Rightarrow> finder \<Rightarrow> nf_event \<Rightarrow> finder" where
  "nf_step hx f (FStart ex) = nf_start ex f"
| "nf_step hx f (FTimer j) = nf_timer j f"
| "nf_step hx f (FBegin j) = findNeighbors_begin j f"
| "nf_step hx f (FEnd ns vs ex j) = findNeighbors_end hx ns vs ex j f"
| "nf_step hx f FStop = nf_stop f"

section \<open>The exchange of neighbour lists\<close>

record NeighborUpdate =
  nuNeighborDescriptors :: "PeerDescriptor list"
  nuRemoveMe :: bool

record update_node =
  unLocal :: PeerDescriptor
  unNeighbors :: node_list
  unNearby :: node_list
  unFinder :: finder
  unTargetCount :: nat
  unOngoingHandshakes :: id_set
  unNextObject :: nat
  unRtts :: "(DhtAddress \<times> int) list"

fun add_contacts :: "hex_codec \<Rightarrow> DhtAddress \<Rightarrow> DhtAddress list \<Rightarrow> PeerDescriptor list \<Rightarrow> update_node \<Rightarrow> update_node" where
  "add_contacts hx ownId knownIds [] u = u"
| "add_contacts hx ownId knownIds (pd # pds) u =
     add_contacts hx ownId knownIds pds
       (if pdId hx pd \<noteq> ownId \<and> pdId hx pd \<notin> set knownIds
        then u\<lparr>unNearby := fst (nl_add hx (unNearby u) \<lparr>getPeerDescriptor = pd, remoteObject = unNextObject u\<rparr>), unNextObject := Suc (unNextObject u)\<rparr>
        else u)"

definition updateContacts :: "hex_codec \<Rightarrow> PeerDescriptor list \<Rightarrow> update_node \<Rightarrow> update_node" where
  "updateContacts hx neighborDescriptors u = add_contacts hx (pdId hx (unLocal u)) (getIds (unNeighbors u)) neighborDescriptors u"

definition nu_createResponse :: "update_node \<Rightarrow> bool \<Rightarrow> NeighborUpdate" where
  "nu_createResponse u removeMe = \<lparr>nuNeighborDescriptors = getPeerDescriptors (unNeighbors u), nuRemoveMe = removeMe\<rparr>"

definition neighborUpdate :: "hex_codec \<Rightarrow> update_node \<Rightarrow> NeighborUpdate \<Rightarrow> PeerDescriptor option \<Rightarrow> cpp_error + (update_node \<times> NeighborUpdate)" where
  "neighborUpdate hx u message incomingSourceDescriptor =
     (case incomingSourceDescriptor of
        None \<Rightarrow> Inl BadOptionalAccess
      | Some sender \<Rightarrow>
          (let remoteNodeId = pdId hx sender; u1 = updateContacts hx (nuNeighborDescriptors message) u
           in if \<not> nl_has (unNeighbors u1) remoteNodeId \<and> remoteNodeId \<notin> set (unOngoingHandshakes u1)
              then Inr (u1, nu_createResponse u1 True)
              else (let isOverNeighborCount = unTargetCount u1 < nl_size hx (unNeighbors u1) [] \<and>
                          unTargetCount u1 < length (nuNeighborDescriptors message);
                        u2 = (if \<not> isOverNeighborCount then u1\<lparr>unFinder := nf_start [] (unFinder u1)\<rparr>
                              else u1\<lparr>unNeighbors := fst (nl_remove (unNeighbors u1) remoteNodeId)\<rparr>)
                    in Inr (u2, nu_createResponse u2 isOverNeighborCount))))"

text \<open>The request of \<^verbatim>\<open>updateNeighbors\<close>, and what it makes of the answer; a call that throws counts as a wish to be removed.\<close>

definition update_request :: "update_node \<Rightarrow> NeighborUpdate" where
  "update_request u = \<lparr>nuNeighborDescriptors = getPeerDescriptors (unNeighbors u), nuRemoveMe = False\<rparr>"

definition updateNeighbors_result :: "NeighborUpdate option \<Rightarrow> PeerDescriptor list \<times> bool" where
  "updateNeighbors_result response = (case response of Some r \<Rightarrow> (nuNeighborDescriptors r, nuRemoveMe r) | None \<Rightarrow> ([], True))"

text \<open>\<^verbatim>\<open>updateNeighbor\<close> after the call; \<open>rtt\<close> is the time it took.\<close>

definition updateNeighbor :: "hex_codec \<Rightarrow> update_node \<Rightarrow> PeerDescriptor \<Rightarrow> NeighborUpdate option \<Rightarrow> int \<Rightarrow> update_node" where
  "updateNeighbor hx u peerDescriptor response rtt =
     (let nodeId = pdId hx peerDescriptor;
          u1 = (if nl_get (unNeighbors u) nodeId \<noteq> None then u\<lparr>unRtts := (nodeId, rtt) # unRtts u\<rparr> else u)
      in if snd (updateNeighbors_result response)
         then u1\<lparr>unNeighbors := fst (nl_remove (unNeighbors u1) nodeId), unFinder := nf_start [nodeId] (unFinder u1)\<rparr>
         else u1)"

section \<open>Lemmas\<close>

text \<open>A finder that says it is running has a round or a timer ahead of it, until it is stopped.\<close>

definition nf_alive :: "finder \<Rightarrow> bool" where
  "nf_alive f \<longleftrightarrow> (nfClosed f \<longrightarrow> nfAborted f) \<and> (nfAborted f \<longrightarrow> nfTimers f = []) \<and>
     (\<forall>t \<in> set (nfTimers f). 0 < fst t) \<and> (nfRunning f \<and> \<not> nfAborted f \<longrightarrow> nfTimers f \<noteq> [] \<or> nfTasks f \<noteq> [])"

lemma schedule_iterate:
  "(scheduleFindNeighbors ex ^^ n) f = (if nfClosed f then f else f\<lparr>nfTasks := nfTasks f @ replicate n (FindQueued ex)\<rparr>)"
  by (induction n) (simp_all add: scheduleFindNeighbors_def replicate_append_same [symmetric] del: replicate_append_same)

lemma nf_alive_step: "nf_alive f \<Longrightarrow> nf_alive (nf_step hx f e)"
proof (cases e)
  case (FTimer j)
  assume alive: "nf_alive f"
  show ?thesis
  proof (cases "j < length (nfTimers f)")
    case True
    then have "nfTimers f ! j \<in> set (nfTimers f)" "\<not> nfAborted f" using alive by (auto simp: nf_alive_def)
    moreover have "set (take j (nfTimers f)) \<union> set (drop (Suc j) (nfTimers f)) \<subseteq> set (nfTimers f)" by (auto dest: in_set_takeD in_set_dropD)
    moreover obtain n ex where nth: "nfTimers f ! j = (n, ex)" by fastforce
    ultimately have "0 < n" "\<forall>t \<in> set (take j (nfTimers f) @ drop (Suc j) (nfTimers f)). 0 < fst t" "\<not> nfClosed f"
      using alive by (auto simp: nf_alive_def)
    then show ?thesis using alive True FTimer nth \<open>\<not> nfAborted f\<close>
      by (simp add: nf_timer_def Let_def schedule_iterate nf_alive_def)
  qed (use alive FTimer in \<open>simp add: nf_timer_def\<close>)
qed (auto simp: nf_alive_def nf_start_def setAbortableTimeout_def findNeighbors_begin_def drop_task_def findNeighbors_end_def
    nf_stop_def Let_def split: find_task.splits)

interpretation nf: op_machine "nf_step hx" nf_alive "\<lambda>_. True" for hx
  by unfold_locales (rule nf_alive_step)

lemma add_contacts_frame [simp]:
  "unNeighbors (add_contacts hx o1 ks pds u) = unNeighbors u" "unOngoingHandshakes (add_contacts hx o1 ks pds u) = unOngoingHandshakes u"
  "unFinder (add_contacts hx o1 ks pds u) = unFinder u" "unTargetCount (add_contacts hx o1 ks pds u) = unTargetCount u"
  by (induction pds arbitrary: u) simp_all

lemma updateContacts_frame [simp]:
  "unNeighbors (updateContacts hx pds u) = unNeighbors u" "unOngoingHandshakes (updateContacts hx pds u) = unOngoingHandshakes u"
  "unFinder (updateContacts hx pds u) = unFinder u" "unTargetCount (updateContacts hx pds u) = unTargetCount u"
  by (simp_all add: updateContacts_def)

section \<open>Properties\<close>

text \<open>The end of a round at which a search has nothing more to gain.\<close>

definition search_done :: "nat \<Rightarrow> node_list \<Rightarrow> node_list list \<Rightarrow> DhtAddress list \<Rightarrow> bool" where
  "search_done minCount neighbors views newExcludes \<longleftrightarrow>
     (minCount \<le> length (nlNodes neighbors) \<or> card (\<Union>v \<in> set views. set (getIds v)) \<le> length newExcludes) \<and>
     (nlNodes neighbors \<noteq> [] \<or> (\<forall>v \<in> set views. nlNodes v = []))"

lemma unique_contacts_card: "unique_contacts views = card (\<Union>v \<in> set views. set (getIds v))"
  by (simp add: unique_contacts_def length_remdups_card_conv)

lemma no_contacts: "unique_contacts views = 0 \<longleftrightarrow> (\<forall>v \<in> set views. nlNodes v = [])"
  by (auto simp: unique_contacts_def getIds_def)

lemma round_end:
  assumes "j < length (nfTasks f)" "nfTasks f ! j = FindRunning ex" "\<not> nfAborted f"
  shows "findNeighbors_end hx ns vs nx j f =
    (if search_done (nfMinCount f) ns vs nx then (drop_task j f)\<lparr>nfRunning := False\<rparr>
     else (drop_task j f)\<lparr>nfTimers := nfTimers f @ [(1, if length (nlNodes ns) < nfMinCount f \<and> length nx < unique_contacts vs then nx else [])]\<rparr>)"
  using assms no_contacts [of vs]
  by (auto simp: findNeighbors_end_def search_done_def Let_def setAbortableTimeout_def drop_task_def nl_size_0 unique_contacts_card [symmetric])

lemma running_step:
  assumes "\<not> nfRunning (nf_step hx f e)" "\<not> nfAborted (nf_step hx f e)"
  shows "\<not> nfAborted f \<and> (\<forall>ex. e \<noteq> FStart ex) \<and>
    (\<not> nfRunning f \<or> (\<exists>ns vs nx j ex. e = FEnd ns vs nx j \<and> j < length (nfTasks f) \<and> nfTasks f ! j = FindRunning ex \<and> search_done (nfMinCount f) ns vs nx))"
proof (cases e)
  case (FEnd ns vs nx j)
  then have na: "\<not> nfAborted f" using assms(2)
    by (auto simp: findNeighbors_end_def Let_def setAbortableTimeout_def drop_task_def split: if_splits)
  show ?thesis
  proof (cases "j < length (nfTasks f) \<and> (\<exists>ex. nfTasks f ! j = FindRunning ex)")
    case True
    then show ?thesis using round_end [of j f _ hx ns vs nx] na assms(1) FEnd by (auto simp: drop_task_def split: if_splits)
  qed (use assms(1) na FEnd in \<open>auto simp: findNeighbors_end_def\<close>)
next
  case (FTimer j)
  then show ?thesis using assms by (auto simp: nf_timer_def Let_def schedule_iterate split: if_splits prod.splits)
qed (use assms in \<open>auto simp: nf_start_def setAbortableTimeout_def findNeighbors_begin_def drop_task_def nf_stop_def split: if_splits find_task.splits\<close>)

lemma minCount_step: "nfMinCount (nf_step hx f e) = nfMinCount f"
  by (cases e) (auto simp: nf_start_def setAbortableTimeout_def nf_timer_def schedule_iterate findNeighbors_begin_def drop_task_def
      findNeighbors_end_def nf_stop_def Let_def split: find_task.split prod.split)

lemma minCount_run: "nfMinCount (foldl (nf_step hx) f es) = nfMinCount f"
  by (induction es arbitrary: f) (simp_all add: minCount_step)

lemma search_ends:
  assumes "\<not> nfRunning (foldl (nf_step hx) f es)" "\<not> nfAborted (foldl (nf_step hx) f es)" "FStart x \<in> set es"
  shows "\<exists>es1 ns vs nx j ex es2. es = es1 @ FEnd ns vs nx j # es2 \<and> (\<forall>y. FStart y \<notin> set es2) \<and>
    j < length (nfTasks (foldl (nf_step hx) f es1)) \<and> nfTasks (foldl (nf_step hx) f es1) ! j = FindRunning ex \<and> search_done (nfMinCount f) ns vs nx"
  using assms
proof (induction es rule: rev_induct)
  case (snoc e es)
  let ?f = "foldl (nf_step hx) f es"
  have step: "\<not> nfAborted ?f" "\<forall>ex. e \<noteq> FStart ex"
    "\<not> nfRunning ?f \<or> (\<exists>ns vs nx j ex. e = FEnd ns vs nx j \<and> j < length (nfTasks ?f) \<and> nfTasks ?f ! j = FindRunning ex \<and> search_done (nfMinCount f) ns vs nx)"
    using running_step [of hx ?f e] snoc.prems(1,2) by (auto simp: minCount_run)
  show ?case
  proof (cases "nfRunning ?f")
    case True
    then obtain ns vs nx j ex where "e = FEnd ns vs nx j" "j < length (nfTasks ?f)" "nfTasks ?f ! j = FindRunning ex" "search_done (nfMinCount f) ns vs nx"
      using step(3) by blast
    then show ?thesis by (intro exI [of _ es] exI [of _ ns] exI [of _ vs] exI [of _ nx] exI [of _ j] exI [of _ ex] exI [of _ "[]"]) simp
  next
    case False
    have "FStart x \<in> set es" using snoc.prems(3) step(2) by auto
    then obtain es1 ns vs nx j ex es2 where "es = es1 @ FEnd ns vs nx j # es2" "\<forall>y. FStart y \<notin> set es2"
      "j < length (nfTasks (foldl (nf_step hx) f es1))" "nfTasks (foldl (nf_step hx) f es1) ! j = FindRunning ex" "search_done (nfMinCount f) ns vs nx"
      using snoc.IH [OF False step(1)] by blast
    then show ?thesis using step(2)
      by (intro exI [of _ es1] exI [of _ ns] exI [of _ vs] exI [of _ nx] exI [of _ j] exI [of _ ex] exI [of _ "es2 @ [e]"]) auto
  qed
qed simp

text \<open>
  C28. A search goes on until it has nothing more to gain.  In every run that has not been aborted: while the finder says that it is running it
  has a round queued or running, or a timer armed that queues one; once started, it has stopped running only if, since the last start, a round has
  ended with enough neighbours, or with all distinct contacts excluded, and in either case with a neighbour or with no contact at all; and a round
  that ends otherwise arms exactly one timer for exactly one further round.
\<close>

theorem finder_keeps_searching:
  assumes f: "f = foldl (nf_step hx) (nf_create minCount) es" and live: "\<not> nfAborted f"
  shows "(nfRunning f \<longrightarrow> nfTasks f \<noteq> [] \<or> (\<exists>j < length (nfTimers f). length (nfTasks (nf_timer j f)) > length (nfTasks f))) \<and>
    (FStart x \<in> set es \<and> \<not> nfRunning f \<longrightarrow>
      (\<exists>es1 ns vs nx j ex es2. es = es1 @ FEnd ns vs nx j # es2 \<and> (\<forall>y. FStart y \<notin> set es2) \<and>
         j < length (nfTasks (foldl (nf_step hx) (nf_create minCount) es1)) \<and>
         nfTasks (foldl (nf_step hx) (nf_create minCount) es1) ! j = FindRunning ex \<and> search_done minCount ns vs nx)) \<and>
    (j < length (nfTasks f) \<and> nfTasks f ! j = FindRunning ex \<and> nfRunning f \<and> \<not> search_done minCount neighbors views newExcludes \<longrightarrow>
      (\<exists>excluded. nfRunning (findNeighbors_end hx neighbors views newExcludes j f) \<and>
         nfTimers (findNeighbors_end hx neighbors views newExcludes j f) = nfTimers f @ [(1, excluded)]))"
proof -
  have alive: "nf_alive f" unfolding f by (rule nf.run_inv) (simp_all add: nf_alive_def nf_create_def list_all_iff)
  have min: "nfMinCount f = minCount" by (simp add: f minCount_run nf_create_def)
  have "\<exists>j < length (nfTimers f). length (nfTasks (nf_timer j f)) > length (nfTasks f)" if "nfRunning f" "nfTasks f = []"
  proof -
    have "nfTimers f \<noteq> []" "\<not> nfClosed f" using alive that live by (auto simp: nf_alive_def)
    then obtain n ex ts where t: "nfTimers f = (n, ex) # ts" by (cases "nfTimers f") auto
    then have "0 < n" using alive by (auto simp: nf_alive_def)
    then have "length (nfTasks (nf_timer 0 f)) > length (nfTasks f)" using t live \<open>\<not> nfClosed f\<close>
      by (simp add: nf_timer_def Let_def schedule_iterate)
    then show ?thesis using t by auto
  qed
  moreover have "\<exists>es1 ns vs nx j ex es2. es = es1 @ FEnd ns vs nx j # es2 \<and> (\<forall>y. FStart y \<notin> set es2) \<and>
         j < length (nfTasks (foldl (nf_step hx) (nf_create minCount) es1)) \<and>
         nfTasks (foldl (nf_step hx) (nf_create minCount) es1) ! j = FindRunning ex \<and> search_done minCount ns vs nx"
    if "FStart x \<in> set es" "\<not> nfRunning f"
    using search_ends [of hx "nf_create minCount" es x] that live f by (simp add: nf_create_def)
  ultimately show ?thesis using round_end [of j f ex hx neighbors views newExcludes] live min by (auto simp: drop_task_def)
qed

text \<open>
  Stopping a finder is not enough: when one of its two chains has ended the search while the other waits for its timer, stopping does
  nothing, and the timer, which refers to the finder, stays armed.
\<close>

theorem stop_leaves_timer:
  fixes neighbors :: node_list
  assumes enough: "0 < length (nlNodes neighbors)" and contacts: "1 < unique_contacts views"
  shows "\<exists>es. let f = foldl (nf_step hx) (nf_create 1) es
    in nfTasks f = [] \<and> nfTimers (nf_stop f) \<noteq> [] \<and> \<not> nfAborted (nf_stop f) \<and> nf_stop (nf_stop f) = nf_stop f"
proof -
  let ?none = "nl_create [] 0"
  let ?es = "[FStart [], FTimer 0, FBegin 0, FBegin 1, FEnd ?none views [[]] 0, FEnd neighbors views [[]] 0]"
  have "let f = foldl (nf_step hx) (nf_create 1) ?es
    in nfTasks f = [] \<and> nfTimers (nf_stop f) \<noteq> [] \<and> \<not> nfAborted (nf_stop f) \<and> nf_stop (nf_stop f) = nf_stop f"
    using assms by (simp add: nf_create_def nf_start_def setAbortableTimeout_def nf_timer_def schedule_iterate Let_def numeral_2_eq_2
        findNeighbors_begin_def findNeighbors_end_def drop_task_def nl_size_0 nl_create_def nf_stop_def)
  then show ?thesis by (rule exI)
qed

lemma updateNeighbor_ids:
  "nl_inv hx (unNeighbors a) \<Longrightarrow> getIds (unNeighbors (updateNeighbor hx a pd response rtt)) =
     (if snd (updateNeighbors_result response) then filter (\<lambda>i. i \<noteq> pdId hx pd) (getIds (unNeighbors a)) else getIds (unNeighbors a))"
  by (simp add: updateNeighbor_def Let_def getIds_remove)

lemma neighborUpdate_outcome:
  assumes b: "nl_inv hx (unNeighbors b)" and reply: "neighborUpdate hx b message (Some sender) = Inr (b1, response)"
    and known: "known \<longleftrightarrow> pdId hx sender \<in> set (getIds (unNeighbors b)) \<union> set (unOngoingHandshakes b)"
    and over: "over \<longleftrightarrow> unTargetCount b < length (nlNodes (unNeighbors b)) \<and> unTargetCount b < length (nuNeighborDescriptors message)"
  shows "nuRemoveMe response = (known \<longrightarrow> over)"
    and "getIds (unNeighbors b1) = (if known \<and> over then filter (\<lambda>i. i \<noteq> pdId hx sender) (getIds (unNeighbors b)) else getIds (unNeighbors b))"
    and "unOngoingHandshakes b1 = unOngoingHandshakes b"
  using reply getIds_remove [OF b]
  by (auto simp: known over neighborUpdate_def Let_def nu_createResponse_def nl_has_iff nl_size_0 split: if_splits)

text \<open>
  C27. The exchange of neighbour lists makes the relation mutual.  The node that is asked wants to be given up exactly if it does not know the
  caller, neither as a neighbour nor by a handshake under way, or if both have more neighbours than its target; a neighbour it gives up in the
  second case, and otherwise its list stays as it is.  The caller then keeps it exactly if it had it and was not asked to give it up, and changes
  nothing else in its list.  So where no handshake with the caller is under way, a neighbour that was told stays one exactly if it has the caller
  in its list; while one is under way the caller can only be the one to give up.  A call that fails ends the neighbourhood.
\<close>

theorem neighbor_update_mutual:
  assumes a: "nl_inv hx (unNeighbors a)" and b: "nl_inv hx (unNeighbors b)"
    and reply: "neighborUpdate hx b (update_request a) (Some (unLocal a)) = Inr (b1, response)"
    and a1: "a1 = updateNeighbor hx a (unLocal b) (Some response) rtt"
    and known: "known \<longleftrightarrow> pdId hx (unLocal a) \<in> set (getIds (unNeighbors b)) \<union> set (unOngoingHandshakes b)"
    and over: "over \<longleftrightarrow> unTargetCount b < length (nlNodes (unNeighbors b)) \<and> unTargetCount b < length (nlNodes (unNeighbors a))"
  shows "(nuRemoveMe response \<longleftrightarrow> \<not> known \<or> over) \<and>
    getIds (unNeighbors b1) = (if known \<and> over then filter (\<lambda>i. i \<noteq> pdId hx (unLocal a)) (getIds (unNeighbors b)) else getIds (unNeighbors b)) \<and>
    getIds (unNeighbors a1) = filter (\<lambda>i. i = pdId hx (unLocal b) \<longrightarrow> known \<and> \<not> over) (getIds (unNeighbors a)) \<and>
    (pdId hx (unLocal b) \<in> set (getIds (unNeighbors a1)) \<longrightarrow>
      pdId hx (unLocal a) \<in> set (getIds (unNeighbors b1)) \<union> set (unOngoingHandshakes b1)) \<and>
    (pdId hx (unLocal b) \<in> set (getIds (unNeighbors a)) \<and> pdId hx (unLocal a) \<notin> set (unOngoingHandshakes b) \<longrightarrow>
      (pdId hx (unLocal b) \<in> set (getIds (unNeighbors a1)) \<longleftrightarrow> pdId hx (unLocal a) \<in> set (getIds (unNeighbors b1)))) \<and>
    getIds (unNeighbors (updateNeighbor hx a (unLocal b) None rtt)) = filter (\<lambda>i. i \<noteq> pdId hx (unLocal b)) (getIds (unNeighbors a))"
proof -
  have "length (nuNeighborDescriptors (update_request a)) = length (nlNodes (unNeighbors a))"
    by (simp add: update_request_def getPeerDescriptors_def)
  note out = neighborUpdate_outcome [OF b reply known, of over, unfolded this, OF over]
  have "getIds (unNeighbors a1) = filter (\<lambda>i. i = pdId hx (unLocal b) \<longrightarrow> known \<and> \<not> over) (getIds (unNeighbors a))"
    unfolding a1 updateNeighbor_ids [OF a] by (auto simp: updateNeighbors_result_def out(1) intro: filter_cong)
  then show ?thesis using out known by (auto simp: updateNeighbor_ids [OF a] updateNeighbors_result_def)
qed

section \<open>Witnesses\<close>

definition demo_list :: node_list where
  "demo_list = \<lparr>nlNodes = [(''01'', \<lparr>getPeerDescriptor = demo_peer 1, remoteObject = 0\<rparr>), (''02'', \<lparr>getPeerDescriptor = demo_peer 2, remoteObject = 1\<rparr>)],
     nlLimit = 20, nlOwnId = ''ff''\<rparr>"

theorem finder_keeps_searching_witness:
  "\<exists>excluded. nfTimers (findNeighbors_end ref_hex (nl_create [] 0) [demo_list] [] 0 (foldl (nf_step ref_hex) (nf_create 4) [FStart [], FTimer 0, FBegin 0])) =
     [(1, excluded)]"
proof -
  let ?f = "foldl (nf_step ref_hex) (nf_create 4) [FStart [], FTimer 0, FBegin 0]"
  have f: "nfRunning ?f" "\<not> nfAborted ?f" "0 < length (nfTasks ?f)" "nfTasks ?f ! 0 = FindRunning []" "nfTimers ?f = []"
    by (simp_all add: nf_create_def nf_start_def setAbortableTimeout_def nf_timer_def schedule_iterate Let_def numeral_2_eq_2
        findNeighbors_begin_def)
  have "\<not> search_done 4 (nl_create [] 0) [demo_list] []" by (simp add: search_done_def nl_create_def demo_list_def)
  then show ?thesis
    using finder_keeps_searching [OF refl f(2), of "[]" 0 "[]" "nl_create [] 0" "[demo_list]" "[]"] f by simp
qed

theorem stop_leaves_timer_witness:
  "\<exists>es. let f = foldl (nf_step ref_hex) (nf_create 1) es
    in nfTasks f = [] \<and> nfTimers (nf_stop f) \<noteq> [] \<and> \<not> nfAborted (nf_stop f) \<and> nf_stop (nf_stop f) = nf_stop f"
  by (rule stop_leaves_timer [of demo_list "[demo_list]"]) (simp_all add: demo_list_def unique_contacts_def getIds_def)

definition demo_back :: node_list where
  "demo_back = \<lparr>nlNodes = [(''01'', \<lparr>getPeerDescriptor = demo_peer 1, remoteObject = 0\<rparr>)], nlLimit = 20, nlOwnId = ''02''\<rparr>"

definition demo_update :: "byte \<Rightarrow> node_list \<Rightarrow> update_node" where
  "demo_update b ns = \<lparr>unLocal = demo_peer b, unNeighbors = ns, unNearby = nl_create ''ff'' 20, unFinder = nf_create 4, unTargetCount = 4,
     unOngoingHandshakes = [], unNextObject = 0, unRtts = []\<rparr>"

text \<open>Node 2 has node 1 in its list and keeps it, so node 1 keeps node 2.\<close>

theorem neighbor_update_mutual_witness:
  "\<exists>b1 response. neighborUpdate ref_hex (demo_update 2 demo_back) (update_request (demo_update 1 demo_list)) (Some (demo_peer 1)) = Inr (b1, response) \<and>
     \<not> nuRemoveMe response \<and>
     pdId ref_hex (demo_peer 2) \<in> set (getIds (unNeighbors (updateNeighbor ref_hex (demo_update 1 demo_list) (demo_peer 2) (Some response) 5)))"
proof -
  let ?a = "demo_update 1 demo_list" let ?b = "demo_update 2 demo_back"
  have l: "unLocal ?a = demo_peer 1" "unLocal ?b = demo_peer 2" by (simp_all add: demo_update_def)
  have a: "nl_inv ref_hex (unNeighbors ?a)" by (simp add: demo_update_def nl_inv_def demo_list_def getIds_def) code_simp
  have b: "nl_inv ref_hex (unNeighbors ?b)" by (simp add: demo_update_def nl_inv_def demo_back_def getIds_def) code_simp
  have d: "pdId ref_hex (demo_peer 1) \<in> set (getIds (unNeighbors ?b))" "pdId ref_hex (demo_peer 2) \<in> set (getIds (unNeighbors ?a))"
    "unTargetCount ?b = 4" "length (nlNodes (unNeighbors ?b)) = 1"
    by code_simp+
  obtain b1 response where r: "neighborUpdate ref_hex ?b (update_request ?a) (Some (unLocal ?a)) = Inr (b1, response)"
    by (cases "neighborUpdate ref_hex ?b (update_request ?a) (Some (unLocal ?a))") (auto simp: neighborUpdate_def Let_def split: if_splits)
  show ?thesis using neighbor_update_mutual [OF a b r refl refl refl, of 5] r l d by auto
qed

end
