(* ===== verification/Proxy_Client.thy ===== *)
theory Proxy_Client
  imports Node_List Propagation Connection_Manager_Correct Stream_Part
begin

text \<open>
  The proxy client of a stream part (\<^verbatim>\<open>ProxyClient.cppm\<close>), the RPC handlers it serves (\<^verbatim>\<open>ContentDeliveryRpcLocal.cppm\<close>), the requests it
  makes (\<^verbatim>\<open>ProxyConnectionRpcRemote.cppm\<close>, \<^verbatim>\<open>ContentDeliveryRpcRemote.cppm\<close>) and the side that answers them
  (\<^verbatim>\<open>ProxyConnectionRpcLocal.cppm\<close>).  The mutex of the client is held for short sections only: each of them is a definition, the
  operations are compositions of these, and a second machine runs the sections of several operations interleaved.
\<close>

section \<open>Data\<close>

datatype ProxyDirection = PUBLISH | SUBSCRIBE

record ProxyConnectionRequest =
  rqDirection :: "ProxyDirection option"
  rqUserId :: bytes

record ProxyDefinition =
  dfNodes :: "(DhtAddress, PeerDescriptor) omap"
  dfConnectionCount :: nat
  dfDirection :: "ProxyDirection option"
  dfUserId :: string

record ProxyConnection =
  pxPeer :: PeerDescriptor
  pxDirection :: "ProxyDirection option"

text \<open>The original exception is absent when the proxy has answered with a refusal: there is none to be current then.\<close>

record ConnectingToProxyError =
  originalException :: "cpp_error option"
  errorPeer :: PeerDescriptor

abbreviation peerId :: "hex_codec \<Rightarrow> PeerDescriptor \<Rightarrow> DhtAddress" where
  "peerId hx pd \<equiv> getNodeIdFromPeerDescriptor hx pd"

text \<open>The connection locker, which the client is given as an interface, has a state of type \<open>'l\<close>.\<close>

record 'l locker =
  lkLock :: "'l \<Rightarrow> PeerDescriptor \<Rightarrow> 'l"
  lkUnlock :: "'l \<Rightarrow> PeerDescriptor \<Rightarrow> 'l"

record 'l px_client =
  pxLocal :: PeerDescriptor
  pxStreamPartId :: string
  pxDetectors :: "(string, dmd) omap"
  pxDefinition :: "ProxyDefinition option"
  pxConnections :: "(DhtAddress, ProxyConnection) omap"
  pxStopped :: bool
  pxPropagation :: propagation
  pxNeighbors :: node_list
  pxListening :: bool
  pxLocker :: 'l
  pxLeaveNotices :: "PeerDescriptor list"
  pxEmitted :: "StreamMessage list"
  pxNextObject :: nat

text \<open>What the network does during an operation.\<close>

datatype request_answer = Answered bool | RequestThrew cpp_error

record px_net =
  netRequest :: "PeerDescriptor \<Rightarrow> ProxyConnectionRequest \<Rightarrow> request_answer"
  netSend :: "PeerDescriptor \<Rightarrow> string option"
  netJoinTime :: "DhtAddress \<Rightarrow> MessageRef \<Rightarrow> millis"
  netRandom :: "nat \<Rightarrow> nat"

text \<open>
  The constructor.  The members are initialised in the order of their declaration, in which the options come before the list of
  neighbours: the id given to that list is read from the argument when its descriptor has been moved out; \<open>movedFrom\<close> is what is left
  there.
\<close>

definition px_create :: "hex_codec \<Rightarrow> PeerDescriptor \<Rightarrow> PeerDescriptor \<Rightarrow> string \<Rightarrow> nat option \<Rightarrow> nat \<Rightarrow> 'l \<Rightarrow> 'l px_client" where
  "px_create hx movedFrom localPeerDescriptor streamPartId minPropagationTargets counter locker =
     \<lparr>pxLocal = localPeerDescriptor, pxStreamPartId = streamPartId, pxDetectors = [], pxDefinition = None, pxConnections = [],
      pxStopped = False,
      pxPropagation = pr_create (case minPropagationTargets of Some n \<Rightarrow> n | None \<Rightarrow> 2) None None counter,
      pxNeighbors = nl_create (peerId hx movedFrom) 1000, pxListening = False, pxLocker = locker, pxLeaveNotices = [], pxEmitted = [],
      pxNextObject = 0\<rparr>"

definition px_start :: "'l px_client \<Rightarrow> 'l px_client" where
  "px_start pc = pc\<lparr>pxListening := True\<rparr>"

section \<open>Calls to remote nodes\<close>

text \<open>\<^verbatim>\<open>ProxyConnectionRpcRemote::requestConnection\<close>; the address is converted inside of the awaited call, so that its failure is one of the call.\<close>

definition requestConnection ::
  "hex_codec \<Rightarrow> (ProxyConnectionRequest \<Rightarrow> request_answer) \<Rightarrow> ProxyDirection option \<Rightarrow> string \<Rightarrow> request_answer" where
  "requestConnection hx call direction userId =
     (case hexToBinaryString hx userId of
        Inl e \<Rightarrow> RequestThrew e
      | Inr userid \<Rightarrow> call \<lparr>rqDirection = direction, rqUserId = userid\<rparr>)"

text \<open>\<^verbatim>\<open>ContentDeliveryRpcRemote::sendStreamMessage\<close> catches what the call throws; \<open>None\<close> is a normal return.\<close>

definition remote_sendStreamMessage :: "string option \<Rightarrow> string option" where
  "remote_sendStreamMessage outcome = (case outcome of None \<Rightarrow> None | Some err \<Rightarrow> None)"

text \<open>\<^verbatim>\<open>leaveStreamPartNotice\<close> catches likewise; the client records that it was sent.\<close>

definition leave_notice :: "PeerDescriptor \<Rightarrow> 'l px_client \<Rightarrow> 'l px_client" where
  "leave_notice pd pc = pc\<lparr>pxLeaveNotices := pxLeaveNotices pc @ [pd]\<rparr>"

definition lock_peer :: "'l locker \<Rightarrow> PeerDescriptor \<Rightarrow> 'l px_client \<Rightarrow> 'l px_client" where
  "lock_peer lk pd pc = pc\<lparr>pxLocker := lkLock lk (pxLocker pc) pd\<rparr>"

definition unlock_peer :: "'l locker \<Rightarrow> PeerDescriptor \<Rightarrow> 'l px_client \<Rightarrow> 'l px_client" where
  "unlock_peer lk pd pc = pc\<lparr>pxLocker := lkUnlock lk (pxLocker pc) pd\<rparr>"

definition sendToNeighbor :: "px_net \<Rightarrow> 'l px_client \<Rightarrow> DhtAddress \<Rightarrow> string option" where
  "sendToNeighbor net pc neighborId =
     (case nl_get (pxNeighbors pc) neighborId of
        Some remote \<Rightarrow> remote_sendStreamMessage (netSend net (getPeerDescriptor remote))
      | None \<Rightarrow> Some ''Propagation target not found'')"

section \<open>Opening a connection\<close>

text \<open>
  The sections of \<^verbatim>\<open>attemptConnection\<close>, which is called once there is a definition: the look-up in the definition, the commit under the mutex after the connection has been locked,
  and what follows a commit.
\<close>

definition attempt_lookup :: "'l px_client \<Rightarrow> DhtAddress \<Rightarrow> PeerDescriptor option" where
  "attempt_lookup pc nodeId = (case pxDefinition pc of None \<Rightarrow> None | Some d \<Rightarrow> om_find (dfNodes d) nodeId)"

definition attempt_commit ::
  "'l locker \<Rightarrow> DhtAddress \<Rightarrow> PeerDescriptor \<Rightarrow> ProxyDirection option \<Rightarrow> 'l px_client \<Rightarrow> 'l px_client \<times> bool" where
  "attempt_commit lk nodeId peerDescriptor direction pc =
     (if pxStopped pc then (unlock_peer lk peerDescriptor pc, False)
      else (pc\<lparr>pxConnections := om_emplace nodeId \<lparr>pxPeer = peerDescriptor, pxDirection = direction\<rparr> (pxConnections pc)\<rparr>, True))"

definition attempt_join :: "hex_codec \<Rightarrow> px_net \<Rightarrow> DhtAddress \<Rightarrow> PeerDescriptor \<Rightarrow> 'l px_client \<Rightarrow> 'l px_client" where
  "attempt_join hx net nodeId peerDescriptor pc =
     pc\<lparr>pxNeighbors := fst (nl_add hx (pxNeighbors pc) \<lparr>getPeerDescriptor = peerDescriptor, remoteObject = pxNextObject pc\<rparr>),
        pxNextObject := Suc (pxNextObject pc),
        pxPropagation := onNeighborJoined (pxPropagation pc) nodeId (netJoinTime net nodeId)\<rparr>"

definition attemptConnection ::
  "hex_codec \<Rightarrow> 'l locker \<Rightarrow> px_net \<Rightarrow> DhtAddress \<Rightarrow> ProxyDirection option \<Rightarrow> string \<Rightarrow> 'l px_client \<Rightarrow>
     'l px_client \<times> ConnectingToProxyError option" where
  "attemptConnection hx lk net nodeId direction userId pc =
     (case attempt_lookup pc nodeId of
        None \<Rightarrow> (pc, None)
      | Some peerDescriptor \<Rightarrow>
          (case requestConnection hx (netRequest net peerDescriptor) direction userId of
             RequestThrew e \<Rightarrow> (pc, Some \<lparr>originalException = Some e, errorPeer = peerDescriptor\<rparr>)
           | Answered False \<Rightarrow> (pc, Some \<lparr>originalException = None, errorPeer = peerDescriptor\<rparr>)
           | Answered True \<Rightarrow>
               (case attempt_commit lk nodeId peerDescriptor direction (lock_peer lk peerDescriptor pc) of
                  (pc1, committed) \<Rightarrow> (if committed then attempt_join hx net nodeId peerDescriptor pc1 else pc1, None))))"

text \<open>The loop of \<^verbatim>\<open>openRandomConnections\<close> over the proxies it attempts, and the loop's start: the first ones in the order of the map.\<close>

fun attempt_all ::
  "hex_codec \<Rightarrow> 'l locker \<Rightarrow> px_net \<Rightarrow> ProxyDirection option \<Rightarrow> string \<Rightarrow> DhtAddress list \<Rightarrow> 'l px_client \<Rightarrow>
     'l px_client \<times> ConnectingToProxyError list \<times> PeerDescriptor list" where
  "attempt_all hx lk net direction userId [] pc = (pc, [], [])"
| "attempt_all hx lk net direction userId (i # is) pc =
     (case attemptConnection hx lk net i direction userId pc of
        (pc1, Some e) \<Rightarrow>
          (case attempt_all hx lk net direction userId is pc1 of (pc2, errors, successes) \<Rightarrow> (pc2, e # errors, successes))
      | (pc1, None) \<Rightarrow>
          (case attempt_all hx lk net direction userId is pc1 of
             (pc2, errors, successes) \<Rightarrow>
               (pc2, errors, (case om_find (pxConnections pc1) i of Some c \<Rightarrow> [pxPeer c] | None \<Rightarrow> []) @ successes)))"

definition proxiesToAttempt :: "ProxyDefinition \<Rightarrow> 'l px_client \<Rightarrow> nat \<Rightarrow> DhtAddress list" where
  "proxiesToAttempt d pc connectionCount = take connectionCount (filter (\<lambda>i. \<not> om_contains (pxConnections pc) i) (om_keys (dfNodes d)))"

definition openRandomConnections ::
  "hex_codec \<Rightarrow> 'l locker \<Rightarrow> px_net \<Rightarrow> ProxyDefinition \<Rightarrow> nat \<Rightarrow> 'l px_client \<Rightarrow>
     'l px_client \<times> ConnectingToProxyError list \<times> PeerDescriptor list" where
  "openRandomConnections hx lk net d connectionCount pc =
     attempt_all hx lk net (dfDirection d) (dfUserId d) (proxiesToAttempt d pc connectionCount) pc"

section \<open>Closing connections\<close>

definition close_erase :: "DhtAddress \<Rightarrow> 'l px_client \<Rightarrow> 'l px_client" where
  "close_erase nodeId pc = pc\<lparr>pxConnections := om_erase nodeId (pxConnections pc)\<rparr>"

definition remove_neighbor_of :: "DhtAddress \<Rightarrow> 'l px_client \<Rightarrow> 'l px_client" where
  "remove_neighbor_of nodeId pc = pc\<lparr>pxNeighbors := fst (nl_remove (pxNeighbors pc) nodeId)\<rparr>"

definition close_finish :: "'l locker \<Rightarrow> DhtAddress \<Rightarrow> PeerDescriptor \<Rightarrow> 'l px_client \<Rightarrow> 'l px_client" where
  "close_finish lk nodeId peerDescriptor pc =
     (let pc1 = (case nl_get (pxNeighbors pc) nodeId of Some server \<Rightarrow> leave_notice (getPeerDescriptor server) pc | None \<Rightarrow> pc)
      in remove_neighbor_of nodeId (unlock_peer lk peerDescriptor pc1))"

definition px_closeConnection :: "'l locker \<Rightarrow> DhtAddress \<Rightarrow> 'l px_client \<Rightarrow> 'l px_client" where
  "px_closeConnection lk nodeId pc =
     (case om_find (pxConnections pc) nodeId of
        None \<Rightarrow> pc
      | Some c \<Rightarrow> close_finish lk nodeId (pxPeer c) (close_erase nodeId pc))"

text \<open>
  \<^verbatim>\<open>std::ranges::sample\<close> on a map: one pass, in which an element is taken when a random number below the size of what is left falls below the
  number still wanted.
\<close>

fun sample :: "(nat \<Rightarrow> nat) \<Rightarrow> nat \<Rightarrow> 'a list \<Rightarrow> 'a list" where
  "sample rnd n [] = []"
| "sample rnd n (x # xs) =
     (if rnd (length xs) mod Suc (length xs) < n then x # sample rnd (n - 1) xs else sample rnd n xs)"

definition closeRandomConnections :: "'l locker \<Rightarrow> px_net \<Rightarrow> nat \<Rightarrow> 'l px_client \<Rightarrow> 'l px_client" where
  "closeRandomConnections lk net connectionCount pc =
     foldl (\<lambda>q i. px_closeConnection lk i q) pc (sample (netRandom net) connectionCount (om_keys (pxConnections pc)))"

definition getInvalidConnections :: "ProxyDefinition \<Rightarrow> 'l px_client \<Rightarrow> DhtAddress list" where
  "getInvalidConnections d pc =
     map fst (filter (\<lambda>(i, c). \<not> om_contains (dfNodes d) i \<or> dfDirection d \<noteq> pxDirection c) (pxConnections pc))"

section \<open>Setting the proxies\<close>

definition updateConnections ::
  "hex_codec \<Rightarrow> 'l locker \<Rightarrow> px_net \<Rightarrow> 'l px_client \<Rightarrow>
     cpp_error + ('l px_client \<times> ConnectingToProxyError list \<times> PeerDescriptor list)" where
  "updateConnections hx lk net pc =
     (case pxDefinition pc of
        None \<Rightarrow> Inl UndefinedBehaviour
      | Some d \<Rightarrow>
          (let pc1 = foldl (\<lambda>q i. px_closeConnection lk i q) pc (getInvalidConnections d pc);
               connectionCountDiff = int (dfConnectionCount d) - int (length (pxConnections pc1))
           in if 0 < connectionCountDiff then Inr (openRandomConnections hx lk net d (nat connectionCountDiff) pc1)
              else if connectionCountDiff < 0 then Inr (closeRandomConnections lk net (nat (- connectionCountDiff)) pc1, [], [])
              else Inr (pc1, [], [])))"

definition make_definition ::
  "hex_codec \<Rightarrow> PeerDescriptor list \<Rightarrow> ProxyDirection option \<Rightarrow> string \<Rightarrow> nat option \<Rightarrow> ProxyDefinition" where
  "make_definition hx nodes direction userId connectionCount =
     \<lparr>dfNodes = foldl (\<lambda>m node. om_put (peerId hx node) node m) [] nodes,
      dfConnectionCount = (case connectionCount of Some n \<Rightarrow> n | None \<Rightarrow> length nodes), dfDirection = direction, dfUserId = userId\<rparr>"

definition setProxies ::
  "hex_codec \<Rightarrow> 'l locker \<Rightarrow> px_net \<Rightarrow> PeerDescriptor list \<Rightarrow> ProxyDirection option \<Rightarrow> string \<Rightarrow> nat option \<Rightarrow> 'l px_client \<Rightarrow>
     cpp_error + ('l px_client \<times> ConnectingToProxyError list \<times> PeerDescriptor list)" where
  "setProxies hx lk net nodes direction userId connectionCount pc =
     (if connectionCount \<noteq> None \<and> length nodes < the connectionCount
      then Inl (RuntimeError ''Cannot set connectionCount above the size of the configured array of nodes'')
      else updateConnections hx lk net (pc\<lparr>pxDefinition := Some (make_definition hx nodes direction userId connectionCount)\<rparr>))"

section \<open>Events\<close>

definition drop_finish :: "'l locker \<Rightarrow> DhtAddress \<Rightarrow> PeerDescriptor \<Rightarrow> 'l px_client \<Rightarrow> 'l px_client" where
  "drop_finish lk nodeId peerDescriptor pc = remove_neighbor_of nodeId (unlock_peer lk peerDescriptor pc)"

definition onNodeDisconnected :: "hex_codec \<Rightarrow> 'l locker \<Rightarrow> PeerDescriptor \<Rightarrow> 'l px_client \<Rightarrow> 'l px_client" where
  "onNodeDisconnected hx lk peerDescriptor pc =
     (let nodeId = peerId hx peerDescriptor
      in if pxStopped pc \<or> \<not> om_contains (pxConnections pc) nodeId then pc
         else drop_finish lk nodeId peerDescriptor (close_erase nodeId pc))"

definition transport_disconnected :: "hex_codec \<Rightarrow> 'l locker \<Rightarrow> PeerDescriptor \<Rightarrow> 'l px_client \<Rightarrow> 'l px_client" where
  "transport_disconnected hx lk peerDescriptor pc = (if pxListening pc then onNodeDisconnected hx lk peerDescriptor pc else pc)"

definition onLeaveNotice :: "hex_codec \<Rightarrow> 'l locker \<Rightarrow> DhtAddress \<Rightarrow> 'l px_client \<Rightarrow> 'l px_client" where
  "onLeaveNotice hx lk remoteNodeId pc =
     (case nl_get (pxNeighbors pc) remoteNodeId of
        Some contact \<Rightarrow> onNodeDisconnected hx lk (getPeerDescriptor contact) pc
      | None \<Rightarrow> pc)"

text \<open>\<^verbatim>\<open>ContentDeliveryRpcLocal::leaveStreamPartNotice\<close>.\<close>

definition leaveStreamPartNotice ::
  "hex_codec \<Rightarrow> 'l locker \<Rightarrow> string \<Rightarrow> PeerDescriptor option \<Rightarrow> 'l px_client \<Rightarrow> cpp_error + 'l px_client" where
  "leaveStreamPartNotice hx lk streampartid incomingSourceDescriptor pc =
     (if streampartid = pxStreamPartId pc
      then (case incomingSourceDescriptor of None \<Rightarrow> Inl BadOptionalAccess | Some source \<Rightarrow> Inr (onLeaveNotice hx lk (peerId hx source) pc))
      else Inr pc)"

text \<open>\<^verbatim>\<open>stop\<close>: the section under the mutex, and the rest.\<close>

fun release_all :: "'l locker \<Rightarrow> RpcRemote list \<Rightarrow> 'l px_client \<Rightarrow> 'l px_client" where
  "release_all lk [] pc = pc"
| "release_all lk (remote # rest) pc =
     release_all lk rest (leave_notice (getPeerDescriptor remote) (unlock_peer lk (getPeerDescriptor remote) pc))"

definition stop_begin :: "'l px_client \<Rightarrow> 'l px_client" where
  "stop_begin pc = pc\<lparr>pxStopped := True, pxConnections := []\<rparr>"

definition stop_finish :: "hex_codec \<Rightarrow> 'l locker \<Rightarrow> 'l px_client \<Rightarrow> 'l px_client" where
  "stop_finish hx lk pc =
     (let pc1 = release_all lk (nl_getAll (pxNeighbors pc)) pc
      in pc1\<lparr>pxNeighbors := fst (nl_stop hx (pxNeighbors pc1)), pxListening := False\<rparr>)"

definition px_stop :: "hex_codec \<Rightarrow> 'l locker \<Rightarrow> 'l px_client \<Rightarrow> 'l px_client" where
  "px_stop hx lk pc = (if pxStopped pc then pc else stop_finish hx lk (stop_begin pc))"

section \<open>Messages\<close>

text \<open>One send of a broadcast, and all of them.  They run concurrently in the code; their order does not matter for the result.\<close>

definition run_send :: "px_net \<Rightarrow> 'l px_client \<Rightarrow> nat \<Rightarrow> 'l px_client" where
  "run_send net pc i =
     (let p1 = send_begin (pxPropagation pc) i
      in pc\<lparr>pxPropagation := send_end p1 i (sendToNeighbor net pc (seTo (prSends p1 ! i)) = None)\<rparr>)"

definition toDescriptors :: "'l px_client \<Rightarrow> DhtAddress list \<Rightarrow> PeerDescriptor list" where
  "toDescriptors pc ids = map getPeerDescriptor (List.map_filter (nl_get (pxNeighbors pc)) ids)"

definition broadcast_collect ::
  "px_net \<Rightarrow> StreamMessage \<Rightarrow> DhtAddress option \<Rightarrow> millis \<Rightarrow> 'l px_client \<Rightarrow>
     'l px_client \<times> (cpp_error + (PeerDescriptor list \<times> PeerDescriptor list))" where
  "broadcast_collect net msg previousNode now pc =
     (let targets = getIds (pxNeighbors pc)
      in case feedUnseenMessageAndCollect (pxPropagation pc) msg targets previousNode now of
           Inl e \<Rightarrow> (pc, Inl e)
         | Inr (p, first) \<Rightarrow>
             (let pc1 = foldl (run_send net) (pc\<lparr>pxPropagation := p\<rparr>) [first..<first + length targets]
              in case collectResults (pxPropagation pc1) first targets of
                   Some (failedIds, successfulIds) \<Rightarrow> (pc1, Inr (toDescriptors pc1 failedIds, toDescriptors pc1 successfulIds))
                 | None \<Rightarrow> (pc1, Inl UndefinedBehaviour)))"

definition broadcast_mark :: "hex_codec \<Rightarrow> stale_reads \<Rightarrow> StreamMessage \<Rightarrow> DhtAddress option \<Rightarrow> 'l px_client \<Rightarrow> (string, dmd) omap \<times> dmd_error option" where
  "broadcast_mark hx sr msg previousNode pc =
     (if previousNode = None
      then (case markAndCheckDuplicate hx sr (pxDetectors pc) (smMessageId msg) None of
              (detectors, Inl e) \<Rightarrow> (detectors, Some e)
            | (detectors, Inr _) \<Rightarrow> (detectors, None))
      else (pxDetectors pc, None))"

definition px_broadcast ::
  "hex_codec \<Rightarrow> stale_reads \<Rightarrow> px_net \<Rightarrow> StreamMessage \<Rightarrow> DhtAddress option \<Rightarrow> millis \<Rightarrow> 'l px_client \<Rightarrow>
     'l px_client \<times> ((dmd_error + cpp_error) + (PeerDescriptor list \<times> PeerDescriptor list))" where
  "px_broadcast hx sr net msg previousNode now pc =
     (let pc1 = pc\<lparr>pxDetectors := fst (broadcast_mark hx sr msg previousNode pc)\<rparr>
      in case snd (broadcast_mark hx sr msg previousNode pc) of
           Some e \<Rightarrow> (pc1, Inl (Inl e))
         | None \<Rightarrow>
             (case broadcast_collect net msg previousNode now (pc1\<lparr>pxEmitted := pxEmitted pc1 @ [msg]\<rparr>) of
                (pc2, Inl e) \<Rightarrow> (pc2, Inl (Inr e))
              | (pc2, Inr r) \<Rightarrow> (pc2, Inr r)))"

text \<open>\<^verbatim>\<open>ContentDeliveryRpcLocal::sendStreamMessage\<close>: a message that is new is passed on, and what the broadcast returns is ignored.\<close>

definition sendStreamMessage ::
  "hex_codec \<Rightarrow> stale_reads \<Rightarrow> px_net \<Rightarrow> StreamMessage \<Rightarrow> MessageRef option \<Rightarrow> PeerDescriptor option \<Rightarrow> millis \<Rightarrow> 'l px_client \<Rightarrow>
     'l px_client \<times> (dmd_error + cpp_error) option" where
  "sendStreamMessage hx sr net msg previousMessageRef incomingSourceDescriptor now pc =
     (case incomingSourceDescriptor of
        None \<Rightarrow> (pc, Some (Inr BadOptionalAccess))
      | Some source \<Rightarrow>
          (case markAndCheckDuplicate hx sr (pxDetectors pc) (smMessageId msg) previousMessageRef of
             (detectors, Inl e) \<Rightarrow> (pc\<lparr>pxDetectors := detectors\<rparr>, Some (Inl e))
           | (detectors, Inr False) \<Rightarrow> (pc\<lparr>pxDetectors := detectors\<rparr>, None)
           | (detectors, Inr True) \<Rightarrow>
               (case px_broadcast hx sr net msg (Some (peerId hx source)) now (pc\<lparr>pxDetectors := detectors\<rparr>) of
                  (pc1, Inl e) \<Rightarrow> (pc1, Some e)
                | (pc1, Inr _) \<Rightarrow> (pc1, None))))"

section \<open>Views\<close>

definition px_hasConnection :: "DhtAddress \<Rightarrow> ProxyDirection option \<Rightarrow> 'l px_client \<Rightarrow> bool" where
  "px_hasConnection nodeId direction pc \<longleftrightarrow>
     (case om_find (pxConnections pc) nodeId of None \<Rightarrow> False | Some c \<Rightarrow> direction = None \<or> pxDirection c = direction)"

definition px_getDirection :: "'l px_client \<Rightarrow> cpp_error + ProxyDirection option" where
  "px_getDirection pc = (case pxDefinition pc of None \<Rightarrow> Inl UndefinedBehaviour | Some d \<Rightarrow> Inr (dfDirection d))"

definition px_getLocalEthereumAddress :: "hex_codec \<Rightarrow> 'l px_client \<Rightarrow> string" where
  "px_getLocalEthereumAddress hx pc = peerId hx (pxLocal pc)"

section \<open>The side of the proxy\<close>

record AcceptedConnection =
  acDirection :: "ProxyDirection option"
  acUserId :: string
  acRemote :: PeerDescriptor

record proxy_server =
  psConnections :: "(DhtAddress, AcceptedConnection) omap"
  psStreamPartId :: string
  psNewConnections :: "DhtAddress list"
  psLeaveNotices :: "PeerDescriptor list"

definition serve_requestConnection ::
  "hex_codec \<Rightarrow> ProxyConnectionRequest \<Rightarrow> PeerDescriptor option \<Rightarrow> proxy_server \<Rightarrow> cpp_error + (proxy_server \<times> bool)" where
  "serve_requestConnection hx request incomingSourceDescriptor ps =
     (case incomingSourceDescriptor of
        None \<Rightarrow> Inl BadOptionalAccess
      | Some sender \<Rightarrow>
          (case toEthereumAddress (binaryStringToHex hx (rqUserId request) True) of
             Inl e \<Rightarrow> Inl e
           | Inr userId \<Rightarrow>
               (let remoteNodeId = peerId hx sender
                in Inr (ps\<lparr>psConnections := om_put remoteNodeId \<lparr>acDirection = rqDirection request, acUserId = userId, acRemote = sender\<rparr> (psConnections ps),
                           psNewConnections := psNewConnections ps @ [remoteNodeId]\<rparr>, True))))"

definition ps_getConnection :: "proxy_server \<Rightarrow> DhtAddress \<Rightarrow> AcceptedConnection option" where
  "ps_getConnection ps nodeId = om_find (psConnections ps) nodeId"

definition ps_removeConnection :: "DhtAddress \<Rightarrow> proxy_server \<Rightarrow> proxy_server" where
  "ps_removeConnection nodeId ps = ps\<lparr>psConnections := om_erase nodeId (psConnections ps)\<rparr>"

definition ps_stop :: "proxy_server \<Rightarrow> proxy_server" where
  "ps_stop ps = ps\<lparr>psLeaveNotices := psLeaveNotices ps @ map acRemote (om_values (psConnections ps)), psConnections := []\<rparr>"

definition getNodeIdsForUserId :: "proxy_server \<Rightarrow> string \<Rightarrow> DhtAddress list" where
  "getNodeIdsForUserId ps userId = map fst (filter (\<lambda>(_, c). acUserId c = userId) (psConnections ps))"

definition getSubscribers :: "proxy_server \<Rightarrow> DhtAddress list" where
  "getSubscribers ps = map fst (filter (\<lambda>(_, c). acDirection c = None \<or> acDirection c = Some SUBSCRIBE) (psConnections ps))"

text \<open>The argument is the recipient of a group key request, if the message is one.\<close>

definition ps_getPropagationTargets :: "hex_codec \<Rightarrow> bytes option \<Rightarrow> proxy_server \<Rightarrow> DhtAddress list" where
  "ps_getPropagationTargets hx groupKeyRecipient ps =
     (case groupKeyRecipient of
        Some recipientId \<Rightarrow>
          (case toEthereumAddress (binaryStringToHex hx recipientId True) of
             Inl _ \<Rightarrow> []
           | Inr userId \<Rightarrow> getNodeIdsForUserId ps userId)
      | None \<Rightarrow> getSubscribers ps)"

end
