(* ===== verification/Proxy_Client_Correct.thy ===== *)
theory Proxy_Client_Correct
  imports Proxy_Client
begin

text \<open>
  Correctness of the proxy client.  The connection locker is an interface with a contract (locale \<open>connection_locker\<close>), under which the
  connections, the neighbours and the locks of the client stay in step; the connection manager meets the contract.  The second machine, in
  which the sections of concurrent operations interleave, shows what the mutex protects and what it does not.
\<close>

section \<open>The invariant\<close>

text \<open>\<open>held\<close> reads the locks of the client from the state of the locker; \<open>good\<close> are the ids that it locks; \<open>own\<close> is the id of the list of neighbours.\<close>

definition px_core :: "hex_codec \<Rightarrow> ('l \<Rightarrow> DhtAddress set) \<Rightarrow> ('l \<Rightarrow> bool) \<Rightarrow> (DhtAddress \<Rightarrow> bool) \<Rightarrow> DhtAddress \<Rightarrow> 'l px_client \<Rightarrow> bool" where
  "px_core hx held linv good own pc \<longleftrightarrow>
     linv (pxLocker pc) \<and> nl_inv hx (pxNeighbors pc) \<and> nlLimit (pxNeighbors pc) = 1000 \<and> nlOwnId (pxNeighbors pc) = own \<and>
     om_ok (pxConnections pc) \<and> (\<forall>(i, c) \<in> set (pxConnections pc). peerId hx (pxPeer c) = i \<and> good i \<and> i \<noteq> own) \<and>
     set (getIds (pxNeighbors pc)) = fst ` set (pxConnections pc) \<and> held (pxLocker pc) = fst ` set (pxConnections pc) \<and>
     (pxStopped pc \<longrightarrow> pxConnections pc = [])"

definition px_within :: "'l px_client \<Rightarrow> bool" where
  "px_within pc \<longleftrightarrow>
     (case pxDefinition pc of
        None \<Rightarrow> pxConnections pc = []
      | Some d \<Rightarrow> length (pxConnections pc) \<le> dfConnectionCount d \<and>
          (\<forall>(i, c) \<in> set (pxConnections pc). om_contains (dfNodes d) i \<and> pxDirection c = dfDirection d))"

lemma fst_om_erase: "fst ` set (om_erase k m) = fst ` set m - {k}"
  by (force simp: om_erase_def)

lemma om_keys_emplace: "fst ` set (om_emplace k v m) = insert k (fst ` set m)"
  by (auto simp: om_emplace_def om_keys_put om_contains_iff)

lemma set_om_put: "om_ok m \<Longrightarrow> k \<notin> fst ` set m \<Longrightarrow> set (om_put k v m) = insert (k, v) (set m)"
  by (induction k v m rule: om_put.induct) (auto simp: om_ok_Cons)

lemma card_om_keys: "om_ok m \<Longrightarrow> card (fst ` set m) = length m"
  by (metis distinct_card length_map list.set_map om_ok_distinct)

lemma nl_length_ids: "nl_inv hx l \<Longrightarrow> length (nlNodes l) = card (set (getIds l))"
  by (metis distinct_card getIds_def length_map nl_inv_def)

lemma nl_frame_add [simp]: "nlLimit (fst (nl_add hx l r)) = nlLimit l" "nlOwnId (fst (nl_add hx l r)) = nlOwnId l"
  by (simp_all add: nl_add_def Let_def)

lemma nl_frame_remove [simp]: "nlLimit (fst (nl_remove l k)) = nlLimit l" "nlOwnId (fst (nl_remove l k)) = nlOwnId l"
  by (simp_all add: nl_remove_def split: option.splits)

lemma px_core_cong:
  "pxLocker q = pxLocker pc \<Longrightarrow> pxNeighbors q = pxNeighbors pc \<Longrightarrow> pxConnections q = pxConnections pc \<Longrightarrow> pxStopped q = pxStopped pc \<Longrightarrow>
     px_core hx held linv good own pc \<Longrightarrow> px_core hx held linv good own q"
  by (simp add: px_core_def)

lemmas px_section_defs = leave_notice_def lock_peer_def unlock_peer_def close_erase_def remove_neighbor_of_def close_finish_def drop_finish_def
  attempt_commit_def attempt_join_def stop_begin_def

text \<open>What closing and dropping a connection share: the connection, its lock and its neighbour go.\<close>

definition px_shed :: "'l locker \<Rightarrow> DhtAddress \<Rightarrow> PeerDescriptor \<Rightarrow> 'l px_client \<Rightarrow> 'l px_client \<Rightarrow> bool" where
  "px_shed lk i pd pc q \<longleftrightarrow>
     pxConnections q = om_erase i (pxConnections pc) \<and> pxLocker q = lkUnlock lk (pxLocker pc) pd \<and>
     pxNeighbors q = fst (nl_remove (pxNeighbors pc) i) \<and> pxDefinition q = pxDefinition pc \<and> pxStopped q = pxStopped pc"

lemma px_shed_close: "px_shed lk i pd pc (close_finish lk i pd (close_erase i pc))"
  by (simp add: px_shed_def px_section_defs Let_def split: option.splits)

lemma px_shed_drop: "px_shed lk i pd pc (drop_finish lk i pd (close_erase i pc))"
  by (simp add: px_shed_def px_section_defs)

lemma px_within_shed: "px_within pc \<Longrightarrow> px_shed lk i pd pc q \<Longrightarrow> px_within q"
  by (auto simp: px_within_def px_shed_def om_erase_def split: option.splits intro: order_trans [OF length_filter_le])

text \<open>Whether the proxy accepts.\<close>

definition accepts :: "hex_codec \<Rightarrow> px_net \<Rightarrow> ProxyDirection option \<Rightarrow> string \<Rightarrow> PeerDescriptor \<Rightarrow> bool" where
  "accepts hx net direction userId pd \<longleftrightarrow> requestConnection hx (netRequest net pd) direction userId = Answered True"

section \<open>Sampling and definitions\<close>

lemma length_sample: "length (sample rnd n xs) = min n (length xs)"
proof (induction xs arbitrary: n)
  case (Cons x xs)
  have "rnd (length xs) mod Suc (length xs) < Suc (length xs)" by simp
  then have "n \<le> length xs" if "\<not> rnd (length xs) mod Suc (length xs) < n" using that by linarith
  then show ?case using Cons by auto
qed simp

lemma set_sample: "set (sample rnd n xs) \<subseteq> set xs"
proof (induction xs arbitrary: n)
  case (Cons x xs)
  then show ?case using Cons [of n] Cons [of "n - 1"] by auto
qed simp

lemma distinct_sample: "distinct xs \<Longrightarrow> distinct (sample rnd n xs)"
proof (induction xs arbitrary: n)
  case (Cons x xs)
  then show ?case using set_sample [of rnd "n - 1" xs] by auto
qed simp

lemma length_filter_without:
  assumes "om_ok m" "set is \<subseteq> fst ` set m" "distinct is"
  shows "length (filter (\<lambda>(i, _). i \<notin> set is) m) = length m - length is"
proof -
  have "fst ` set (filter (\<lambda>(i, _). i \<notin> set is) m) = fst ` set m - set is" by force
  moreover have "om_ok (filter (\<lambda>(i, _). i \<notin> set is) m)" using assms(1) by (simp add: om_ok_def sorted_wrt_map sorted_wrt_filter)
  ultimately have "length (filter (\<lambda>(i, _). i \<notin> set is) m) = card (fst ` set m - set is)" by (metis card_om_keys)
  then show ?thesis using assms by (simp add: card_Diff_subset card_om_keys distinct_card)
qed

lemma definition_fold:
  assumes "om_ok m" "\<forall>(i, pd) \<in> set m. peerId hx pd = i"
  shows "om_ok (foldl (\<lambda>m n. om_put (peerId hx n) n m) m nodes) \<and>
    (\<forall>(i, pd) \<in> set (foldl (\<lambda>m n. om_put (peerId hx n) n m) m nodes). peerId hx pd = i) \<and>
    fst ` set (foldl (\<lambda>m n. om_put (peerId hx n) n m) m nodes) = fst ` set m \<union> peerId hx ` set nodes"
  using assms
proof (induction nodes arbitrary: m)
  case (Cons n nodes)
  have "\<forall>(i, pd) \<in> set (om_put (peerId hx n) n m). peerId hx pd = i"
  proof clarify
    fix i pd
    assume "(i, pd) \<in> set (om_put (peerId hx n) n m)"
    then have "om_find (om_put (peerId hx n) n m) i = Some pd" using om_find_set_iff [OF om_ok_put [OF Cons.prems(1)]] by blast
    then show "peerId hx pd = i" using Cons.prems by (auto simp: om_find_set_iff split: if_splits)
  qed
  then show ?case using Cons.IH [of "om_put (peerId hx n) n m"] Cons.prems by (simp add: om_keys_put)
qed simp

lemma definition_nodes:
  "om_ok (dfNodes (make_definition hx nodes dir user count))"
  "om_find (dfNodes (make_definition hx nodes dir user count)) i = Some pd \<Longrightarrow> peerId hx pd = i"
  "fst ` set (dfNodes (make_definition hx nodes dir user count)) = peerId hx ` set nodes"
  using definition_fold [of "[]" hx nodes] by (auto simp: make_definition_def om_find_in_set dest!: om_find_in_set)

definition valid_connection :: "ProxyDefinition \<Rightarrow> DhtAddress \<times> ProxyConnection \<Rightarrow> bool" where
  "valid_connection d x \<longleftrightarrow> om_contains (dfNodes d) (fst x) \<and> dfDirection d = pxDirection (snd x)"

lemma filter_invalid:
  assumes "om_ok (pxConnections pc)"
  shows "filter (\<lambda>(i, _). i \<notin> set (getInvalidConnections d pc)) (pxConnections pc) = filter (valid_connection d) (pxConnections pc)"
proof (rule filter_cong [OF refl])
  fix x
  assume x: "x \<in> set (pxConnections pc)"
  have "c = snd x" if "(fst x, c) \<in> set (pxConnections pc)" for c
    using that x assms by (metis om_find_set_iff option.inject prod.collapse)
  then show "(case x of (i, _) \<Rightarrow> i \<notin> set (getInvalidConnections d pc)) \<longleftrightarrow> valid_connection d x"
    using x by (force simp: getInvalidConnections_def valid_connection_def split_beta)
qed

text \<open>The proxies that a definition makes the client try, beside the connections it keeps.\<close>

definition proxies_to_try :: "ProxyDefinition \<Rightarrow> (DhtAddress, ProxyConnection) omap \<Rightarrow> PeerDescriptor list" where
  "proxies_to_try d kept =
     map (the \<circ> om_find (dfNodes d)) (take (dfConnectionCount d - length kept) (filter (\<lambda>i. \<not> om_contains kept i) (om_keys (dfNodes d))))"

definition new_connection :: "hex_codec \<Rightarrow> ProxyDirection option \<Rightarrow> PeerDescriptor \<Rightarrow> DhtAddress \<times> ProxyConnection" where
  "new_connection hx dir pd = (peerId hx pd, \<lparr>pxPeer = pd, pxDirection = dir\<rparr>)"

section \<open>Runs of the client\<close>

definition nodes_ok :: "hex_codec \<Rightarrow> (DhtAddress \<Rightarrow> bool) \<Rightarrow> DhtAddress \<Rightarrow> PeerDescriptor list \<Rightarrow> bool" where
  "nodes_ok hx good own nodes \<longleftrightarrow> length nodes \<le> 1000 \<and> (\<forall>n \<in> set nodes. good (peerId hx n) \<and> peerId hx n \<noteq> own)"

definition px_defined :: "hex_codec \<Rightarrow> (DhtAddress \<Rightarrow> bool) \<Rightarrow> DhtAddress \<Rightarrow> 'l px_client \<Rightarrow> bool" where
  "px_defined hx good own pc \<longleftrightarrow>
     (\<forall>d. pxDefinition pc = Some d \<longrightarrow>
        (\<exists>nodes dir user count. d = make_definition hx nodes dir user count \<and> dfConnectionCount d \<le> length nodes \<and> nodes_ok hx good own nodes))"

datatype px_op =
    PxStart
  | PxSetProxies px_net "PeerDescriptor list" "ProxyDirection option" string "nat option"
  | PxUpdate px_net
  | PxDisconnected PeerDescriptor
  | PxLeave string "PeerDescriptor option"
  | PxBroadcast px_net StreamMessage "DhtAddress option" millis
  | PxReceive px_net StreamMessage "MessageRef option" "PeerDescriptor option" millis
  | PxStop

fun px_apply :: "hex_codec \<Rightarrow> stale_reads \<Rightarrow> 'l locker \<Rightarrow> 'l px_client \<Rightarrow> px_op \<Rightarrow> 'l px_client" where
  "px_apply hx sr lk pc PxStart = px_start pc"
| "px_apply hx sr lk pc (PxSetProxies net nodes dir user count) =
     (case setProxies hx lk net nodes dir user count pc of Inl _ \<Rightarrow> pc | Inr (q, _) \<Rightarrow> q)"
| "px_apply hx sr lk pc (PxUpdate net) = (case updateConnections hx lk net pc of Inl _ \<Rightarrow> pc | Inr (q, _) \<Rightarrow> q)"
| "px_apply hx sr lk pc (PxDisconnected pd) = transport_disconnected hx lk pd pc"
| "px_apply hx sr lk pc (PxLeave spid src) = (case leaveStreamPartNotice hx lk spid src pc of Inl _ \<Rightarrow> pc | Inr q \<Rightarrow> q)"
| "px_apply hx sr lk pc (PxBroadcast net msg prev now) = fst (px_broadcast hx sr net msg prev now pc)"
| "px_apply hx sr lk pc (PxReceive net msg prevRef src now) = fst (sendStreamMessage hx sr net msg prevRef src now pc)"
| "px_apply hx sr lk pc PxStop = px_stop hx lk pc"

fun px_op_ok :: "hex_codec \<Rightarrow> (DhtAddress \<Rightarrow> bool) \<Rightarrow> DhtAddress \<Rightarrow> px_op \<Rightarrow> bool" where
  "px_op_ok hx good own (PxSetProxies net nodes dir user count) = nodes_ok hx good own nodes"
| "px_op_ok hx good own _ = True"

definition same_peers :: "'l px_client \<Rightarrow> 'l px_client \<Rightarrow> bool" where
  "same_peers pc q \<longleftrightarrow> pxLocker q = pxLocker pc \<and> pxNeighbors q = pxNeighbors pc \<and> pxConnections q = pxConnections pc \<and>
     pxStopped q = pxStopped pc \<and> pxDefinition q = pxDefinition pc"

lemma run_send_frame [simp]:
  "pxLocker (foldl (run_send net) pc is) = pxLocker pc" "pxNeighbors (foldl (run_send net) pc is) = pxNeighbors pc"
  "pxConnections (foldl (run_send net) pc is) = pxConnections pc" "pxStopped (foldl (run_send net) pc is) = pxStopped pc"
  "pxDefinition (foldl (run_send net) pc is) = pxDefinition pc" "pxEmitted (foldl (run_send net) pc is) = pxEmitted pc"
  by (induction "is" arbitrary: pc) (simp_all add: run_send_def Let_def)

lemma fst_broadcast:
  "fst (px_broadcast hx sr net msg prev now pc) =
     (let pc1 = pc\<lparr>pxDetectors := fst (broadcast_mark hx sr msg prev pc)\<rparr>
      in if snd (broadcast_mark hx sr msg prev pc) = None
         then fst (broadcast_collect net msg prev now (pc1\<lparr>pxEmitted := pxEmitted pc1 @ [msg]\<rparr>)) else pc1)"
  by (simp add: px_broadcast_def Let_def split: option.split prod.split sum.split)

lemma collect_same: "same_peers pc (fst (broadcast_collect net msg prev now pc))"
  by (simp add: broadcast_collect_def Let_def same_peers_def split: prod.split sum.split option.split)

lemma collect_emitted: "pxEmitted (fst (broadcast_collect net msg prev now pc)) = pxEmitted pc"
  by (simp add: broadcast_collect_def Let_def split: prod.split sum.split option.split)

lemma broadcast_same: "same_peers pc (fst (px_broadcast hx sr net msg prev now pc))"
  using collect_same [of "pc\<lparr>pxDetectors := ds, pxEmitted := es\<rparr>" for ds es] by (simp add: fst_broadcast Let_def same_peers_def)

lemma receive_same: "same_peers pc (fst (sendStreamMessage hx sr net msg prevRef src now pc))"
proof -
  have "same_peers pc (fst (px_broadcast hx sr net msg prev now (pc\<lparr>pxDetectors := ds\<rparr>)))" for prev ds
    using broadcast_same [of "pc\<lparr>pxDetectors := ds\<rparr>"] by (simp add: same_peers_def)
  then show ?thesis unfolding sendStreamMessage_def
    by (auto simp: same_peers_def split: prod.splits sum.splits option.splits bool.splits) (metis fst_conv)+
qed

lemma release_all_frame [simp]:
  "pxConnections (release_all lk rs pc) = pxConnections pc" "pxNeighbors (release_all lk rs pc) = pxNeighbors pc"
  "pxStopped (release_all lk rs pc) = pxStopped pc" "pxDefinition (release_all lk rs pc) = pxDefinition pc"
  by (induction rs arbitrary: pc) (simp_all add: px_section_defs)

lemma nl_stop_frame: "nl_inv hx l \<Longrightarrow> nl_inv hx (fst (nl_stop hx l))" "nlLimit (fst (nl_stop hx l)) = nlLimit l" "nlOwnId (fst (nl_stop hx l)) = nlOwnId l"
proof -
  have "nlLimit (fst (nl_remove_all l is)) = nlLimit l \<and> nlOwnId (fst (nl_remove_all l is)) = nlOwnId l" for "is"
  proof (induction "is" arbitrary: l)
    case (Cons i "is")
    then show ?case using Cons [of "fst (nl_remove l i)"] by (simp split: prod.splits) (metis fst_conv nl_frame_remove)
  qed simp
  then show "nlLimit (fst (nl_stop hx l)) = nlLimit l" "nlOwnId (fst (nl_stop hx l)) = nlOwnId l" by (simp_all add: nl_stop_def)
  show "nl_inv hx l \<Longrightarrow> nl_inv hx (fst (nl_stop hx l))" using nl_remove_all_step by (simp add: nl_stop_def)
qed

section \<open>The contract of the locker\<close>

locale connection_locker =
  fixes hx :: hex_codec
    and lk :: "'l locker"
    and held :: "'l \<Rightarrow> DhtAddress set"
    and linv :: "'l \<Rightarrow> bool"
    and good :: "DhtAddress \<Rightarrow> bool"
  assumes inv_lock: "linv l \<Longrightarrow> linv (lkLock lk l pd)"
    and inv_unlock: "linv l \<Longrightarrow> linv (lkUnlock lk l pd)"
    and held_lock: "linv l \<Longrightarrow> good (peerId hx pd) \<Longrightarrow> held (lkLock lk l pd) = insert (peerId hx pd) (held l)"
    and held_unlock: "linv l \<Longrightarrow> good (peerId hx pd) \<Longrightarrow> held (lkUnlock lk l pd) = held l - {peerId hx pd}"
begin

abbreviation core :: "DhtAddress \<Rightarrow> 'l px_client \<Rightarrow> bool" where
  "core \<equiv> px_core hx held linv good"

lemma core_shed:
  assumes core: "core own pc" and shed: "px_shed lk i pd pc q" and pd: "peerId hx pd = i" "good i"
  shows "core own q"
proof -
  have "held (pxLocker q) = held (pxLocker pc) - {i}" using core shed pd by (auto simp: px_core_def px_shed_def held_unlock)
  moreover have "set (getIds (pxNeighbors q)) = set (getIds (pxNeighbors pc)) - {i}"
  proof -
    have "nl_inv hx (pxNeighbors pc)" "pxNeighbors q = fst (nl_remove (pxNeighbors pc) i)" using core shed by (simp_all add: px_core_def px_shed_def)
    then show ?thesis by (auto simp: getIds_remove)
  qed
  moreover have "fst ` set (pxConnections q) = fst ` set (pxConnections pc) - {i}" "set (pxConnections q) \<subseteq> set (pxConnections pc)"
    using shed by (simp_all add: px_shed_def fst_om_erase) (auto simp: om_erase_def)
  moreover have "linv (pxLocker q)" "nl_inv hx (pxNeighbors q)" "om_ok (pxConnections q)" "nlLimit (pxNeighbors q) = nlLimit (pxNeighbors pc)"
    "nlOwnId (pxNeighbors q) = nlOwnId (pxNeighbors pc)" "pxStopped q = pxStopped pc"
    using core shed by (simp_all add: px_core_def px_shed_def inv_unlock nl_inv_remove)
  ultimately show ?thesis using core unfolding px_core_def by auto
qed

lemma core_close:
  assumes core: "core own pc"
  shows "core own (px_closeConnection lk i pc)" "pxConnections (px_closeConnection lk i pc) = om_erase i (pxConnections pc)"
    "pxDefinition (px_closeConnection lk i pc) = pxDefinition pc" "pxStopped (px_closeConnection lk i pc) = pxStopped pc"
proof -
  have "core own (px_closeConnection lk i pc) \<and> pxConnections (px_closeConnection lk i pc) = om_erase i (pxConnections pc) \<and>
    pxDefinition (px_closeConnection lk i pc) = pxDefinition pc \<and> pxStopped (px_closeConnection lk i pc) = pxStopped pc"
  proof (cases "om_find (pxConnections pc) i")
    case None
    then show ?thesis using core by (simp add: px_closeConnection_def om_erase_absent)
  next
    case (Some c)
    then have "peerId hx (pxPeer c) = i" "good i" using core by (auto simp: px_core_def dest: om_find_in_set)
    then show ?thesis using Some core_shed [OF core px_shed_close [of lk i "pxPeer c" pc]] px_shed_close [of lk i "pxPeer c" pc]
      by (simp add: px_closeConnection_def px_shed_def)
  qed
  then show "core own (px_closeConnection lk i pc)" "pxConnections (px_closeConnection lk i pc) = om_erase i (pxConnections pc)"
    "pxDefinition (px_closeConnection lk i pc) = pxDefinition pc" "pxStopped (px_closeConnection lk i pc) = pxStopped pc" by auto
qed

lemma core_close_all:
  assumes "core own pc"
  shows "core own (foldl (\<lambda>q i. px_closeConnection lk i q) pc is) \<and>
    pxConnections (foldl (\<lambda>q i. px_closeConnection lk i q) pc is) = filter (\<lambda>(i, _). i \<notin> set is) (pxConnections pc) \<and>
    pxDefinition (foldl (\<lambda>q i. px_closeConnection lk i q) pc is) = pxDefinition pc \<and>
    pxStopped (foldl (\<lambda>q i. px_closeConnection lk i q) pc is) = pxStopped pc"
  using assms
proof (induction "is" arbitrary: pc)
  case (Cons i "is")
  have "filter (\<lambda>(j, _). j \<notin> set is) (om_erase i (pxConnections pc)) = filter (\<lambda>(j, _). j \<notin> set (i # is)) (pxConnections pc)"
    by (auto simp: om_erase_def intro: filter_cong)
  then show ?case using Cons.IH [OF core_close(1) [OF Cons.prems]] core_close(2-4) [OF Cons.prems] by simp
qed simp

lemma core_lock_unlock:
  assumes "core own pc" "good (peerId hx pd)" "peerId hx pd \<notin> fst ` set (pxConnections pc)"
  shows "core own (unlock_peer lk pd (lock_peer lk pd pc))"
  using assms by (auto simp: px_core_def px_section_defs held_lock held_unlock inv_lock inv_unlock)

lemma core_join:
  assumes core: "core own pc" and i: "peerId hx pd = i" "good i" "i \<noteq> own" "i \<notin> fst ` set (pxConnections pc)"
    and room: "length (pxConnections pc) < 1000" and live: "\<not> pxStopped pc"
  shows "core own (attempt_join hx net i pd (fst (attempt_commit lk i pd dir (lock_peer lk pd pc))))"
proof -
  have "length (nlNodes (pxNeighbors pc)) = length (pxConnections pc)"
    using core nl_length_ids [of hx "pxNeighbors pc"] by (auto simp: px_core_def card_om_keys)
  moreover have "i \<notin> set (getIds (pxNeighbors pc))" using core i(4) by (simp add: px_core_def)
  ultimately show ?thesis using core i room live
    by (auto simp: px_core_def px_section_defs held_lock inv_lock nl_inv_add getIds_add om_keys_emplace om_emplace_def om_contains_iff set_om_put)
qed

text \<open>One attempt on a proxy of the definition that is not connected.\<close>

lemma attempt_step:
  assumes core: "core own pc" and look: "attempt_lookup pc i = Some pd" and i: "peerId hx pd = i" "good i" "i \<noteq> own" "i \<notin> fst ` set (pxConnections pc)"
    and room: "length (pxConnections pc) < 1000" and live: "\<not> pxStopped pc"
  shows "\<exists>q e. attemptConnection hx lk net i dir user pc = (q, e) \<and> core own q \<and> pxDefinition q = pxDefinition pc \<and> \<not> pxStopped q \<and>
    (if accepts hx net dir user pd
     then e = None \<and> pxConnections q = om_put i \<lparr>pxPeer = pd, pxDirection = dir\<rparr> (pxConnections pc)
     else q = pc \<and> map_option errorPeer e = Some pd)"
proof (cases "requestConnection hx (netRequest net pd) dir user")
  case (Answered b)
  have "om_emplace i v (pxConnections pc) = om_put i v (pxConnections pc)" for v
    using i(4) by (simp add: om_emplace_def om_contains_iff)
  then show ?thesis using core look live core_join [OF core i room live, of net dir] Answered
    by (cases b) (simp_all add: attemptConnection_def accepts_def px_section_defs)
qed (use core look live in \<open>simp add: attemptConnection_def accepts_def\<close>)

lemma attempt_all_live:
  assumes "core own pc" "\<not> pxStopped pc" "distinct is" "length (pxConnections pc) + length is \<le> 1000"
    and "\<And>i. i \<in> set is \<Longrightarrow> \<exists>pd. attempt_lookup pc i = Some pd \<and> peerId hx pd = i \<and> good i \<and> i \<noteq> own \<and> i \<notin> fst ` set (pxConnections pc)"
  shows "\<exists>q es ss. attempt_all hx lk net dir user is pc = (q, es, ss) \<and> core own q \<and> pxDefinition q = pxDefinition pc \<and> \<not> pxStopped q \<and>
    ss = filter (accepts hx net dir user) (map (the \<circ> attempt_lookup pc) is) \<and>
    map errorPeer es = filter (\<lambda>pd. \<not> accepts hx net dir user pd) (map (the \<circ> attempt_lookup pc) is) \<and>
    set (pxConnections q) = set (pxConnections pc) \<union> new_connection hx dir ` set ss"
  using assms
proof (induction "is" arbitrary: pc)
  case (Cons i "is")
  obtain pd where pd: "attempt_lookup pc i = Some pd" "peerId hx pd = i" "good i" "i \<noteq> own" "i \<notin> fst ` set (pxConnections pc)"
    using Cons.prems(5) [of i] by auto
  have room: "length (pxConnections pc) < 1000" using Cons.prems(4) by simp
  obtain q e where q: "attemptConnection hx lk net i dir user pc = (q, e)" "core own q" "pxDefinition q = pxDefinition pc" "\<not> pxStopped q"
    "if accepts hx net dir user pd then e = None \<and> pxConnections q = om_put i \<lparr>pxPeer = pd, pxDirection = dir\<rparr> (pxConnections pc)
     else q = pc \<and> map_option errorPeer e = Some pd"
    using attempt_step [OF Cons.prems(1) pd room Cons.prems(2)] by blast
  have look: "attempt_lookup q = attempt_lookup pc" using q(3) by (simp add: attempt_lookup_def fun_eq_iff)
  have ok: "om_ok (pxConnections pc)" using Cons.prems(1) by (simp add: px_core_def)
  have len: "length (pxConnections q) + length is \<le> 1000"
    using q(5) Cons.prems(4) om_size_put [OF ok, of i] by (auto split: if_splits)
  have keys: "fst ` set (pxConnections q) \<subseteq> insert i (fst ` set (pxConnections pc))" using q(5) by (auto simp: om_keys_put split: if_splits)
  have todo: "\<exists>pd. attempt_lookup q j = Some pd \<and> peerId hx pd = j \<and> good j \<and> j \<noteq> own \<and> j \<notin> fst ` set (pxConnections q)"
    if "j \<in> set is" for j using that Cons.prems(3) Cons.prems(5) [of j] keys look by auto
  have "distinct is" using Cons.prems(3) by simp
  note IH = Cons.IH [OF q(2) q(4) this len todo]
  show ?case
  proof (cases "accepts hx net dir user pd")
    case True
    then have "om_find (pxConnections q) i = Some \<lparr>pxPeer = pd, pxDirection = dir\<rparr>"
      "set (pxConnections q) = insert (i, \<lparr>pxPeer = pd, pxDirection = dir\<rparr>) (set (pxConnections pc))"
      using q(5) set_om_put [OF ok pd(5)] by auto
    then show ?thesis using IH True q(1,3,5) pd look by (auto simp: comp_def new_connection_def)
  next
    case False
    then obtain err where "e = Some err" "errorPeer err = pd" using q(5) by (cases e) auto
    then show ?thesis using IH False q(1,3,5) pd look by (auto simp: comp_def new_connection_def)
  qed
qed simp

lemma update_live:
  assumes core: "core own pc" and live: "\<not> pxStopped pc" and d: "pxDefinition pc = Some d" "d = make_definition hx nodes dir user count"
    and small: "dfConnectionCount d \<le> length nodes" "length nodes \<le> 1000" and nodes: "\<And>n. n \<in> set nodes \<Longrightarrow> good (peerId hx n) \<and> peerId hx n \<noteq> own"
    and kept: "kept = filter (valid_connection d) (pxConnections pc)"
  shows "\<exists>q es ss. updateConnections hx lk net pc = Inr (q, es, ss) \<and> core own q \<and> pxDefinition q = Some d \<and> \<not> pxStopped q \<and>
    ss = filter (accepts hx net dir user) (proxies_to_try d kept) \<and>
    map errorPeer es = filter (\<lambda>pd. \<not> accepts hx net dir user pd) (proxies_to_try d kept) \<and>
    (if length kept \<le> dfConnectionCount d then set (pxConnections q) = set kept \<union> new_connection hx dir ` set ss
     else set (pxConnections q) \<subseteq> set kept \<and> length (pxConnections q) = dfConnectionCount d)"
proof -
  let ?pc1 = "foldl (\<lambda>q i. px_closeConnection lk i q) pc (getInvalidConnections d pc)"
  have ok: "om_ok (pxConnections pc)" using core by (simp add: px_core_def)
  have pc1: "core own ?pc1" "pxConnections ?pc1 = kept" "pxDefinition ?pc1 = Some d" "\<not> pxStopped ?pc1"
    using core_close_all [OF core, of "getInvalidConnections d pc"] filter_invalid [OF ok, of d] kept d(1) live by simp_all
  have okk: "om_ok kept" using pc1(1,2) by (simp add: px_core_def)
  consider (grow) "length kept < dfConnectionCount d" | (same) "length kept = dfConnectionCount d" | (shrink) "dfConnectionCount d < length kept" by linarith
  then show ?thesis
  proof cases
    case grow
    let ?n = "dfConnectionCount d - length kept"
    let ?is = "proxiesToAttempt d ?pc1 ?n"
    have df: "dfDirection d = dir" "dfUserId d = user" by (simp_all add: d(2) make_definition_def)
    have tries: "?is = take ?n (filter (\<lambda>i. \<not> om_contains kept i) (om_keys (dfNodes d)))" by (simp add: proxiesToAttempt_def pc1(2))
    have "om_ok (dfNodes d)" using definition_nodes(1) by (simp add: d(2))
    then have dist: "distinct ?is" by (simp add: tries om_keys_def om_ok_distinct)
    have look: "\<exists>pd. attempt_lookup ?pc1 i = Some pd \<and> peerId hx pd = i \<and> good i \<and> i \<noteq> own \<and> i \<notin> fst ` set (pxConnections ?pc1)"
      if "i \<in> set ?is" for i
    proof -
      have "i \<in> fst ` set (dfNodes d)" "i \<notin> fst ` set kept" using in_set_takeD [OF that [unfolded tries]] by (auto simp: om_keys_def om_contains_iff)
      moreover from this(1) obtain pd where "om_find (dfNodes d) i = Some pd" by (metis om_find_None_iff not_None_eq)
      moreover from this have "peerId hx pd = i" using definition_nodes(2) by (simp add: d(2))
      moreover have "i \<in> peerId hx ` set nodes" using \<open>i \<in> fst ` set (dfNodes d)\<close> by (simp add: d(2) definition_nodes(3))
      then have "good i \<and> i \<noteq> own" using nodes by blast
      ultimately show ?thesis by (simp add: attempt_lookup_def pc1(2,3))
    qed
    have "length (pxConnections ?pc1) + length ?is \<le> 1000" using grow small by (simp add: pc1(2) tries)
    from attempt_all_live [OF pc1(1,4) dist this look, of net dir user]
    show ?thesis using grow pc1(2,3) d(1) df
      by (auto simp: updateConnections_def openRandomConnections_def nat_diff_distrib' of_nat_diff proxies_to_try_def tries attempt_lookup_def comp_def)
  next
    case same
    then show ?thesis using pc1 d(1) by (auto simp: updateConnections_def proxies_to_try_def)
  next
    case shrink
    let ?n = "length kept - dfConnectionCount d"
    let ?is = "sample (netRandom net) ?n (om_keys kept)"
    have "set ?is \<subseteq> fst ` set kept" "distinct ?is"
      using set_sample [of "netRandom net" ?n "om_keys kept"] distinct_sample [OF om_ok_distinct [OF okk]] by (auto simp: om_keys_def)
    from length_filter_without [OF okk this] have len: "length (filter (\<lambda>(i, _). i \<notin> set ?is) kept) = dfConnectionCount d"
      using shrink by (simp add: length_sample om_keys_def)
    have n: "nat (int (length kept) - int (dfConnectionCount d)) = ?n" by linarith
    show ?thesis using core_close_all [OF pc1(1), of ?is] pc1 d(1) shrink len
      by (auto simp: updateConnections_def closeRandomConnections_def proxies_to_try_def n)
  qed
qed

text \<open>A client that has been stopped opens nothing: what it locks it unlocks.\<close>

lemma attempt_all_stopped:
  assumes "core own pc" "pxStopped pc" "\<And>i pd. attempt_lookup pc i = Some pd \<Longrightarrow> good (peerId hx pd)"
  shows "core own (fst (attempt_all hx lk net dir user ids pc)) \<and> pxDefinition (fst (attempt_all hx lk net dir user ids pc)) = pxDefinition pc \<and>
    pxConnections (fst (attempt_all hx lk net dir user ids pc)) = []"
  using assms
proof (induction ids arbitrary: pc)
  case (Cons i ids)
  let ?q = "fst (attemptConnection hx lk net i dir user pc)"
  have empty: "pxConnections pc = []" using Cons.prems(1,2) by (simp add: px_core_def)
  have "core own (unlock_peer lk pd (lock_peer lk pd pc))" if "attempt_lookup pc i = Some pd" for pd
    using core_lock_unlock [OF Cons.prems(1) Cons.prems(3) [OF that]] empty by simp
  then have q: "core own ?q" "pxStopped ?q" "pxDefinition ?q = pxDefinition pc"
    using Cons.prems(1,2)
    by (auto simp: attemptConnection_def attempt_commit_def lock_peer_def unlock_peer_def split: option.splits request_answer.splits bool.splits)
  have "attempt_lookup ?q = attempt_lookup pc" by (simp add: attempt_lookup_def fun_eq_iff q(3))
  then show ?case using Cons.IH [OF q(1,2)] Cons.prems(3) q(3) by (auto split: prod.splits option.splits)
qed (simp add: px_core_def)

definition inv :: "DhtAddress \<Rightarrow> 'l px_client \<Rightarrow> bool" where
  "inv own pc \<longleftrightarrow> core own pc \<and> px_within pc \<and> px_defined hx good own pc"

lemma inv_same: "inv own pc \<Longrightarrow> same_peers pc q \<Longrightarrow> inv own q"
proof -
  assume inv: "inv own pc" and same: "same_peers pc q"
  then have "core own q" using px_core_cong [of q pc] by (simp add: inv_def same_peers_def)
  moreover have "px_within q = px_within pc" "px_defined hx good own q = px_defined hx good own pc"
    using same by (simp_all add: same_peers_def px_within_def px_defined_def cong: option.case_cong)
  ultimately show ?thesis using inv by (simp add: inv_def)
qed

lemma inv_shed:
  assumes "inv own pc" "px_shed lk (peerId hx pd) pd pc q" "good (peerId hx pd)"
  shows "inv own q"
proof -
  have "core own q" using assms(1) core_shed [OF _ assms(2) refl assms(3)] by (simp add: inv_def)
  moreover have "px_within q" using assms(1) px_within_shed [OF _ assms(2)] by (simp add: inv_def)
  moreover have "px_defined hx good own q" using assms by (simp add: inv_def px_shed_def px_defined_def)
  ultimately show ?thesis by (simp add: inv_def)
qed

lemma inv_disconnected: "inv own pc \<Longrightarrow> inv own (onNodeDisconnected hx lk pd pc)"
proof (cases "pxStopped pc \<or> \<not> om_contains (pxConnections pc) (peerId hx pd)")
  case False
  assume inv: "inv own pc"
  have "good i" if "i \<in> fst ` set (pxConnections pc)" for i using inv that unfolding inv_def px_core_def by fastforce
  then show ?thesis using inv_shed [OF inv px_shed_drop] False by (simp add: onNodeDisconnected_def Let_def om_contains_iff)
qed (simp add: onNodeDisconnected_def Let_def)

lemma within_live:
  assumes ok: "om_ok (pxConnections pc)" and q: "core own q" "pxDefinition q = Some d" "dfDirection d = dir"
    and ss: "ss = filter (accepts hx net dir user) (proxies_to_try d kept)" and kept: "kept = filter (valid_connection d) (pxConnections pc)"
    and nodes: "\<And>i pd. om_find (dfNodes d) i = Some pd \<Longrightarrow> peerId hx pd = i"
    and res: "if length kept \<le> dfConnectionCount d then set (pxConnections q) = set kept \<union> new_connection hx dir ` set ss
      else set (pxConnections q) \<subseteq> set kept \<and> length (pxConnections q) = dfConnectionCount d"
  shows "px_within q"
proof -
  have new: "om_contains (dfNodes d) (peerId hx pd)" if pd: "pd \<in> set ss" for pd
  proof -
    obtain i where i: "i \<in> set (om_keys (dfNodes d))" "pd = the (om_find (dfNodes d) i)"
      using pd unfolding ss proxies_to_try_def set_filter set_map comp_def by (fastforce dest: in_set_takeD)
    then obtain pd' where "om_find (dfNodes d) i = Some pd'" by (auto simp: set_om_keys)
    then show ?thesis using i nodes by (simp add: om_contains_find)
  qed
  have valid: "\<forall>(i, c) \<in> set (pxConnections q). om_contains (dfNodes d) i \<and> pxDirection c = dfDirection d"
    using res new q(3) by (auto simp: kept valid_connection_def new_connection_def split: if_splits)
  have "length (pxConnections q) \<le> dfConnectionCount d"
  proof (cases "length kept \<le> dfConnectionCount d")
    case True
    have "length (pxConnections q) = card (fst ` set (pxConnections q))" using q(1) by (simp add: px_core_def card_om_keys)
    also have "\<dots> \<le> card (fst ` set kept) + card (fst ` new_connection hx dir ` set ss)" using True res by (simp add: image_Un card_Un_le)
    also have "\<dots> \<le> length kept + length ss" by (intro add_mono) (metis card_image_le card_length finite_set le_trans finite_imageI)+
    also have "length ss \<le> dfConnectionCount d - length kept"
      unfolding ss proxies_to_try_def by (rule order_trans [OF length_filter_le]) simp
    finally show ?thesis using True by simp
  qed (use res in simp)
  then show ?thesis using valid by (simp add: px_within_def q(2))
qed

lemma update_inv:
  assumes core: "core own pc" and d: "pxDefinition pc = Some (make_definition hx nodes dir user count)"
    and small: "dfConnectionCount (make_definition hx nodes dir user count) \<le> length nodes" and nodes: "nodes_ok hx good own nodes"
  shows "\<exists>q es ss. updateConnections hx lk net pc = Inr (q, es, ss) \<and> inv own q"
proof (cases "pxStopped pc")
  case False
  let ?d = "make_definition hx nodes dir user count"
  have nodes': "length nodes \<le> 1000" "\<And>n. n \<in> set nodes \<Longrightarrow> good (peerId hx n) \<and> peerId hx n \<noteq> own" using nodes by (simp_all add: nodes_ok_def)
  have dir: "dfDirection ?d = dir" by (simp add: make_definition_def)
  have ok: "om_ok (pxConnections pc)" using core by (simp add: px_core_def)
  obtain q es ss where q: "updateConnections hx lk net pc = Inr (q, es, ss)" "core own q" "pxDefinition q = Some ?d"
    "ss = filter (accepts hx net dir user) (proxies_to_try ?d (filter (valid_connection ?d) (pxConnections pc)))"
    "if length (filter (valid_connection ?d) (pxConnections pc)) \<le> dfConnectionCount ?d
     then set (pxConnections q) = set (filter (valid_connection ?d) (pxConnections pc)) \<union> new_connection hx dir ` set ss
     else set (pxConnections q) \<subseteq> set (filter (valid_connection ?d) (pxConnections pc)) \<and> length (pxConnections q) = dfConnectionCount ?d"
    using update_live [OF core False d refl small nodes' refl] by blast
  have "px_within q" using within_live [OF ok q(2,3) dir q(4) refl definition_nodes(2) [of hx nodes dir user count] q(5)] by blast
  then show ?thesis using q d small nodes by (auto simp: inv_def px_defined_def)
next
  case True
  let ?d = "make_definition hx nodes dir user count"
  have empty: "pxConnections pc = []" using core True by (simp add: px_core_def)
  then have inval: "getInvalidConnections ?d pc = []" by (simp add: getInvalidConnections_def)
  have look: "good (peerId hx pd)" if "attempt_lookup pc i = Some pd" for i pd
  proof -
    have find: "om_find (dfNodes ?d) i = Some pd" using that d by (simp add: attempt_lookup_def)
    have "i \<in> fst ` set (dfNodes ?d)" using imageI [OF om_find_in_set [OF find], of fst] by simp
    then show ?thesis using nodes definition_nodes(2) [OF find] by (auto simp: nodes_ok_def definition_nodes(3))
  qed
  have fin: "px_within q \<and> px_defined hx good own q" if "pxConnections q = []" "pxDefinition q = Some ?d" for q :: "'l px_client"
    using that small nodes by (auto simp: px_within_def px_defined_def)
  obtain q es ss where q: "openRandomConnections hx lk net ?d (dfConnectionCount ?d) pc = (q, es, ss)" by (metis prod.exhaust)
  have "core own q \<and> pxDefinition q = pxDefinition pc \<and> pxConnections q = []"
    using attempt_all_stopped [OF core True] look q unfolding openRandomConnections_def by (metis fst_conv)
  then have "inv own q" "inv own pc" using fin [of q] fin [of pc] core d empty by (simp_all add: inv_def)
  then show ?thesis using q d by (simp add: updateConnections_def inval Let_def empty)
qed

lemma inv_set_proxies: "inv own pc \<Longrightarrow> nodes_ok hx good own nodes \<Longrightarrow> inv own (px_apply hx sr lk pc (PxSetProxies net nodes dir user count))"
proof -
  let ?d = "make_definition hx nodes dir user count" let ?pc = "pc\<lparr>pxDefinition := Some ?d\<rparr>"
  assume inv: "inv own pc" and nodes: "nodes_ok hx good own nodes"
  show ?thesis
  proof (cases "count \<noteq> None \<and> length nodes < the count")
    case False
    then have "dfConnectionCount ?d \<le> length nodes" by (auto simp: make_definition_def split: option.splits)
    moreover have "core own ?pc" using inv by (simp add: inv_def px_core_def)
    ultimately show ?thesis using update_inv [OF _ _ _ nodes, of ?pc dir user count net] False by (auto simp: setProxies_def)
  qed (use inv in \<open>simp add: setProxies_def\<close>)
qed

lemma release_all_held:
  assumes "linv (pxLocker pc)" "\<And>r. r \<in> set rs \<Longrightarrow> good (remoteId hx r)"
  shows "linv (pxLocker (release_all lk rs pc)) \<and> held (pxLocker (release_all lk rs pc)) = held (pxLocker pc) - remoteId hx ` set rs"
  using assms
proof (induction rs arbitrary: pc)
  case (Cons r rs)
  let ?q = "leave_notice (getPeerDescriptor r) (unlock_peer lk (getPeerDescriptor r) pc)"
  have q: "linv (pxLocker ?q)" "held (pxLocker ?q) = held (pxLocker pc) - {remoteId hx r}"
    using Cons.prems by (simp_all add: px_section_defs inv_unlock held_unlock)
  then show ?case using Cons.IH [OF q(1)] Cons.prems(2) by auto
qed simp

lemma core_stop:
  assumes core: "core own pc"
  shows "core own (stop_finish hx lk (stop_begin pc))"
proof -
  let ?b = "stop_begin pc"
  let ?q = "release_all lk (nl_getAll (pxNeighbors ?b)) ?b"
  have N: "nl_inv hx (pxNeighbors pc)" "set (getIds (pxNeighbors pc)) = fst ` set (pxConnections pc)" using core by (simp_all add: px_core_def)
  have "getIds (pxNeighbors pc) = map (remoteId hx) (nl_getAll (pxNeighbors pc))" using N(1) by (auto simp: nl_inv_def getIds_def nl_getAll_def)
  then have ids: "remoteId hx ` set (nl_getAll (pxNeighbors pc)) = set (getIds (pxNeighbors pc))" by simp
  have "good i" if "i \<in> fst ` set (pxConnections pc)" for i using core that unfolding px_core_def by fastforce
  then have "good (remoteId hx r)" if "r \<in> set (nl_getAll (pxNeighbors pc))" for r using that ids N(2) by blast
  then have "linv (pxLocker ?q)" "held (pxLocker ?q) = {}"
    using release_all_held [of ?b "nl_getAll (pxNeighbors pc)"] core ids by (simp_all add: stop_begin_def px_core_def)
  then show ?thesis using core N(1) nl_stop_frame [of hx "pxNeighbors pc"] getIds_stop [of hx "pxNeighbors pc"]
    by (simp add: px_core_def stop_finish_def Let_def stop_begin_def)
qed

lemma inv_stop:
  assumes inv: "inv own pc"
  shows "inv own (px_stop hx lk pc)"
proof (cases "pxStopped pc")
  case False
  have "core own (stop_finish hx lk (stop_begin pc))" using inv core_stop by (simp add: inv_def)
  moreover have "px_within (stop_finish hx lk (stop_begin pc))" "px_defined hx good own (stop_finish hx lk (stop_begin pc))"
    using inv by (simp_all add: px_within_def inv_def px_defined_def stop_finish_def Let_def stop_begin_def split: option.splits)
  ultimately show ?thesis using False by (simp add: inv_def px_stop_def)
qed (use inv in \<open>simp add: px_stop_def\<close>)

lemma inv_update: "inv own pc \<Longrightarrow> inv own (px_apply hx sr lk pc (PxUpdate net))"
proof (cases "pxDefinition pc")
  case (Some d)
  assume inv: "inv own pc"
  then obtain nodes dir user count where "d = make_definition hx nodes dir user count" "dfConnectionCount d \<le> length nodes" "nodes_ok hx good own nodes"
    using Some by (auto simp: inv_def px_defined_def)
  then show ?thesis using inv update_inv [of own pc nodes dir user count net] Some by (auto simp: inv_def)
qed (simp add: updateConnections_def)

lemma inv_apply: "inv own pc \<Longrightarrow> px_op_ok hx good own op \<Longrightarrow> inv own (px_apply hx sr lk pc op)"
proof (cases op)
  case (PxBroadcast net msg prev now)
  then show "inv own pc \<Longrightarrow> ?thesis" using inv_same [OF _ broadcast_same] by simp
next
  case (PxReceive net msg prevRef src now)
  then show "inv own pc \<Longrightarrow> ?thesis" using inv_same [OF _ receive_same] by simp
next
  case (PxLeave spid src)
  then show "inv own pc \<Longrightarrow> ?thesis" using inv_disconnected
    by (simp add: leaveStreamPartNotice_def onLeaveNotice_def split: option.split)
next
  case PxStart
  then show "inv own pc \<Longrightarrow> ?thesis" using inv_same [of own pc "px_start pc"] by (simp add: same_peers_def px_start_def)
next
  case (PxSetProxies net nodes dir user count)
  then show "inv own pc \<Longrightarrow> px_op_ok hx good own op \<Longrightarrow> ?thesis" using inv_set_proxies by simp
qed (use inv_update inv_disconnected inv_stop in \<open>simp_all add: transport_disconnected_def\<close>)

lemma inv_run: "inv own pc \<Longrightarrow> list_all (px_op_ok hx good own) ops \<Longrightarrow> inv own (foldl (px_apply hx sr lk) pc ops)"
  by (induction ops arbitrary: pc) (simp_all add: inv_apply)

lemma inv_create:
  "linv l \<Longrightarrow> held l = {} \<Longrightarrow> own = peerId hx movedFrom \<Longrightarrow> inv own (px_create hx movedFrom local spid minTargets counter l)"
  by (simp add: inv_def px_core_def px_within_def px_defined_def px_create_def nl_inv_create) (simp add: nl_create_def getIds_def)

end

section \<open>Neighbours and tasks\<close>

text \<open>Whatever the locker does, every operation keeps the list of neighbours and the propagation well formed.\<close>

definition lists_ok :: "hex_codec \<Rightarrow> 'l px_client \<Rightarrow> bool" where
  "lists_ok hx pc \<longleftrightarrow> nl_inv hx (pxNeighbors pc) \<and> pr_inv (pxPropagation pc)"

lemma lists_close: "lists_ok hx pc \<Longrightarrow> lists_ok hx (px_closeConnection lk i pc)"
  by (simp add: lists_ok_def px_closeConnection_def px_section_defs Let_def nl_inv_remove split: option.split)

lemma lists_close_all: "lists_ok hx pc \<Longrightarrow> lists_ok hx (foldl (\<lambda>q i. px_closeConnection lk i q) pc is)"
  by (induction "is" arbitrary: pc) (simp_all add: lists_close)

lemma lists_attempt: "lists_ok hx pc \<Longrightarrow> lists_ok hx (fst (attemptConnection hx lk net i dir user pc))"
  using pr_inv_step [of "pxPropagation pc" "Joined i (netJoinTime net i)"]
  by (simp add: lists_ok_def attemptConnection_def px_section_defs nl_inv_add pr_step_def split: option.split request_answer.split bool.split)

lemma lists_attempt_all: "lists_ok hx pc \<Longrightarrow> lists_ok hx (fst (attempt_all hx lk net dir user is pc))"
proof (induction "is" arbitrary: pc)
  case (Cons i "is")
  then show ?case using Cons.IH [OF lists_attempt [OF Cons.prems, of lk net i dir user]] by (auto split: prod.splits option.splits)
qed simp

lemma lists_update:
  assumes ok: "lists_ok hx pc" and u: "updateConnections hx lk net pc = Inr (q, r)"
  shows "lists_ok hx q"
proof -
  obtain d where d: "pxDefinition pc = Some d" using u by (cases "pxDefinition pc") (simp_all add: updateConnections_def)
  let ?pc1 = "foldl (\<lambda>q i. px_closeConnection lk i q) pc (getInvalidConnections d pc)"
  have pc1: "lists_ok hx ?pc1" by (rule lists_close_all [OF ok])
  have "lists_ok hx (closeRandomConnections lk net n ?pc1)" for n unfolding closeRandomConnections_def by (rule lists_close_all [OF pc1])
  moreover have "lists_ok hx (fst (openRandomConnections hx lk net d n ?pc1))" for n
    unfolding openRandomConnections_def by (rule lists_attempt_all [OF pc1])
  ultimately show ?thesis using u d pc1 by (auto simp: updateConnections_def Let_def split: if_splits) (metis fst_conv)
qed

lemma run_send_step:
  "pxPropagation (run_send net pc i) =
     foldl pr_step (pxPropagation pc) [Begin i, End i (sendToNeighbor net pc (seTo (prSends (send_begin (pxPropagation pc) i) ! i)) = None)]"
  by (simp add: run_send_def Let_def pr_step_def)

lemma lists_sends: "lists_ok hx pc \<Longrightarrow> lists_ok hx (foldl (run_send net) pc is)"
proof (induction "is" arbitrary: pc)
  case (Cons i "is")
  have "pr_inv (pxPropagation (run_send net pc i))" unfolding run_send_step
    using Cons.prems by (intro pr.run_inv) (simp_all add: lists_ok_def)
  then have "lists_ok hx (run_send net pc i)" using Cons.prems by (simp add: lists_ok_def run_send_def Let_def)
  then show ?case using Cons.IH by simp
qed simp

lemma lists_collect:
  assumes ok: "lists_ok hx pc"
  shows "lists_ok hx (fst (broadcast_collect net msg prev now pc))"
proof (cases "feedUnseenMessageAndCollect (pxPropagation pc) msg (getIds (pxNeighbors pc)) prev now")
  case (Inl e)
  then show ?thesis using ok by (simp add: broadcast_collect_def)
next
  case (Inr r)
  obtain p first where r: "r = (p, first)" by fastforce
  have "lists_ok hx (pc\<lparr>pxPropagation := p\<rparr>)"
    using ok pr_inv_step [of "pxPropagation pc" "FeedAndCollect msg (getIds (pxNeighbors pc)) prev now"] Inr r by (simp add: lists_ok_def pr_step_def)
  from lists_sends [OF this] show ?thesis using Inr r by (simp add: broadcast_collect_def Let_def split: option.split)
qed

lemma lists_broadcast: "lists_ok hx pc \<Longrightarrow> lists_ok hx (fst (px_broadcast hx sr net msg prev now pc))"
  using lists_collect [of hx "pc\<lparr>pxDetectors := ds, pxEmitted := es\<rparr>" for ds es] by (simp add: fst_broadcast Let_def lists_ok_def)

lemma lists_receive: "lists_ok hx pc \<Longrightarrow> lists_ok hx (fst (sendStreamMessage hx sr net msg prevRef src now pc))"
proof -
  assume ok: "lists_ok hx pc"
  have "lists_ok hx (pc\<lparr>pxDetectors := ds\<rparr>)" for ds using ok by (simp add: lists_ok_def)
  note this lists_broadcast [OF this]
  then show ?thesis using ok unfolding sendStreamMessage_def
    by (auto split: prod.splits sum.splits option.splits bool.splits) (metis fst_conv)+
qed


lemma lists_apply: "lists_ok hx pc \<Longrightarrow> lists_ok hx (px_apply hx sr lk pc op)"
proof -
  assume ok: "lists_ok hx pc"
  have dis: "lists_ok hx (onNodeDisconnected hx lk pd pc)" for pd
    using ok by (simp add: onNodeDisconnected_def Let_def px_section_defs lists_ok_def nl_inv_remove)
  have upd: "lists_ok hx (case updateConnections hx lk net q of Inl _ \<Rightarrow> pc | Inr (q, _) \<Rightarrow> q)" if "lists_ok hx q" for net q
    using ok that lists_update [OF that] by (auto split: sum.split prod.split)
  have "lists_ok hx (pc\<lparr>pxDefinition := d\<rparr>)" for d using ok by (simp add: lists_ok_def)
  note set = upd [OF this]
  have "pxPropagation (release_all lk rs q) = pxPropagation q" for rs and q :: "'a px_client"
    by (induction rs arbitrary: q) (simp_all add: px_section_defs)
  then have "lists_ok hx (px_stop hx lk pc)"
    using ok by (simp add: px_stop_def stop_finish_def Let_def lists_ok_def stop_begin_def nl_stop_frame(1))
  then show ?thesis using ok dis upd [OF ok] set lists_broadcast lists_receive
    by (cases op) (simp_all add: px_start_def setProxies_def transport_disconnected_def leaveStreamPartNotice_def onLeaveNotice_def
        split: option.split, simp_all add: lists_ok_def)
qed

lemma lists_run: "lists_ok hx pc \<Longrightarrow> lists_ok hx (foldl (px_apply hx sr lk) pc ops)"
  by (induction ops arbitrary: pc) (simp_all add: lists_apply)

lemma lists_create: "lists_ok hx (px_create hx movedFrom local spid minTargets counter l)"
  by (simp add: lists_ok_def px_create_def nl_inv_create pr_inv_create)

text \<open>A send to a neighbour that is in the list never throws, so that every send of a broadcast but the one to its source succeeds.\<close>

lemma sends_are_runs:
  assumes "\<And>i. i \<in> set is \<Longrightarrow> i < length (prSends (pxPropagation pc)) \<and> nl_has (pxNeighbors pc) (seTo (prSends (pxPropagation pc) ! i))"
  shows "pxPropagation (foldl (run_send net) pc is) = foldl pr_step (pxPropagation pc) (runs_of (\<lambda>_. True) is)"
  using assms
proof (induction "is" arbitrary: pc)
  case (Cons i "is")
  have shape: "same_shape (pxPropagation pc) (send_begin (pxPropagation pc) i)" by (rule same_shape_begin)
  then have "sendToNeighbor net pc (seTo (prSends (send_begin (pxPropagation pc) i) ! i)) = None"
    using Cons.prems [of i] by (auto simp: same_shape_def sendToNeighbor_def nl_has_def nl_get_def remote_sendStreamMessage_def split: option.splits)
  then have step: "pxPropagation (run_send net pc i) = send_end (send_begin (pxPropagation pc) i) i True" "pxNeighbors (run_send net pc i) = pxNeighbors pc"
    by (simp_all add: run_send_def Let_def)
  have "same_shape (send_begin (pxPropagation pc) i) (pxPropagation (run_send net pc i))" unfolding step(1) by (rule same_shape_end)
  then have "j < length (prSends (pxPropagation (run_send net pc i))) \<and> nl_has (pxNeighbors (run_send net pc i)) (seTo (prSends (pxPropagation (run_send net pc i)) ! j))"
    if "j \<in> set is" for j using Cons.prems [of j] that shape step(2) by (simp add: same_shape_def)
  from Cons.IH [OF this] show ?case by (simp add: step runs_of_def pr_step_def)
qed (simp add: runs_of_def)

lemma map_fst_zip_filter: "length xs = length ys \<Longrightarrow> map fst (filter (\<lambda>(x, y). P x) (zip xs ys)) = filter P xs"
  by (induction xs ys rule: list_induct2) auto

lemma broadcast_collect_result:
  assumes ok: "lists_ok hx pc"
  shows "\<exists>q. broadcast_collect net msg prev now pc =
    (q, Inr (toDescriptors pc (filter (\<lambda>i. prev = Some i) (getIds (pxNeighbors pc))), toDescriptors pc (filter (\<lambda>i. prev \<noteq> Some i) (getIds (pxNeighbors pc)))))"
proof -
  let ?ts = "getIds (pxNeighbors pc)"
  have inv: "pr_inv (pxPropagation pc)" and d: "distinct ?ts" using ok by (simp_all add: lists_ok_def nl_inv_def)
  obtain s where "ts_add (prStore (pxPropagation pc)) (new_task msg prev) now = Inr s"
    using ts_add_step [of "prStore (pxPropagation pc)" "new_task msg prev" now] inv by (auto simp: pr_inv_def)
  then obtain p first where f: "feedUnseenMessageAndCollect (pxPropagation pc) msg ?ts prev now = Inr (p, first)"
    by (auto simp: collect_extends)
  let ?is = "[first..<first + length ?ts]"
  let ?q = "foldl (run_send net) (pc\<lparr>pxPropagation := p\<rparr>) ?is"
  have b: "batch_ok first ?ts (length (prTasks (pxPropagation pc))) prev (\<lambda>_. True) p" by (rule batch_ok_start [OF inv f])
  then have len: "first + length ?ts \<le> length (prSends p)" by (simp add: batch_ok_def)
  have "i < length (prSends p) \<and> nl_has (pxNeighbors pc) (seTo (prSends p ! i))" if "i \<in> set ?is" for i
  proof -
    have "first \<le> i" "i < first + length ?ts" using that by simp_all
    then obtain j where j: "i = first + j" "j < length ?ts" using le_Suc_ex by (metis nat_add_left_cancel_less)
    then show ?thesis using b len nth_mem [OF j(2)] by (simp add: batch_ok_def nl_has_iff)
  qed
  then have run: "pxPropagation ?q = foldl pr_step p (runs_of (\<lambda>_. True) ?is)" using sends_are_runs [of ?is "pc\<lparr>pxPropagation := p\<rparr>" net] by simp
  have "send_done (prSends (pxPropagation ?q) ! i)" if "i \<in> set ?is" for i
    unfolding run using status_done_run [of i p ?is "\<lambda>_. True"] that len by simp
  then have "list_all send_done (take (length ?ts) (drop first (prSends (pxPropagation ?q))))"
    by (auto simp: list_all_iff in_set_conv_nth)
  then obtain failed successful where c: "collectResults (pxPropagation ?q) first ?ts = Some (failed, successful)"
    by (simp add: collectResults_def Let_def)
  have only: "c = True" if "End i c \<in> set (runs_of (\<lambda>_. True) ?is)" for i c using that by (auto simp: runs_of_def)
  note res = collect_batch [OF inv f d, of "runs_of (\<lambda>_. True) ?is" "\<lambda>_. True" failed successful, OF only c [unfolded run]]
  have "map fst (filter (\<lambda>(n, i). prev \<noteq> Some n \<and> True) (zip ?ts ?is)) = filter (\<lambda>n. prev \<noteq> Some n) ?ts"
    "map fst (filter (\<lambda>(n, i). \<not> (prev \<noteq> Some n \<and> True)) (zip ?ts ?is)) = filter (\<lambda>n. prev = Some n) ?ts"
    using map_fst_zip_filter [of ?ts ?is "\<lambda>n. prev \<noteq> Some n"] map_fst_zip_filter [of ?ts ?is "\<lambda>n. prev = Some n"] by simp_all
  then show ?thesis using res f c by (simp add: broadcast_collect_def Let_def toDescriptors_def)
qed

lemma toDescriptors_filter:
  assumes "nl_inv hx (pxNeighbors pc)"
  shows "toDescriptors pc (filter P (getIds (pxNeighbors pc))) = map getPeerDescriptor (filter (\<lambda>r. P (remoteId hx r)) (nl_getAll (pxNeighbors pc)))"
proof -
  have "map getPeerDescriptor (List.map_filter (map_of nodes) (filter P (map fst xs))) = map getPeerDescriptor (filter (\<lambda>r. P (remoteId hx r)) (map snd xs))"
    if "set xs \<subseteq> set nodes" "distinct (map fst nodes)" "\<forall>(i, r) \<in> set nodes. i = remoteId hx r" for xs nodes :: "(DhtAddress \<times> RpcRemote) list"
    using that by (induction xs) (auto simp: List.map_filter_simps)
  then show ?thesis using assms by (simp add: toDescriptors_def nl_inv_def getIds_def nl_getAll_def nl_get_def [abs_def] nl_find_map_of [abs_def])
qed

lemma mark_never_throws: "snd (broadcast_mark hx sr msg prev pc) = None"
proof -
  have "\<exists>b. snd (markAndCheckDuplicate hx sr ds m None) = Inr b" for ds m
    by (simp add: markAndCheckDuplicate_def markAndCheck_def Let_def) blast
  then show ?thesis by (auto simp: broadcast_mark_def split: prod.splits sum.splits) (metis Inl_Inr_False snd_conv)
qed

end
