(* ===== verification/Proxy_Client_Properties.thy ===== *)
theory Proxy_Client_Properties
  imports Proxy_Client_Correct
begin

text \<open>
  What the proxy client promises when its locker is the connection manager: the state stays consistent, setting the proxies has the expected
  outcome, a broadcast reports its result, the two sides of a proxy connection agree; and what can go wrong when operations overlap.
\<close>

section \<open>Sections that interleave\<close>

text \<open>
  The sections of concurrent operations as separate steps.  An attempt is asking, has locked the connection, or has committed it; a closing and a
  disconnect have erased the connection.
\<close>

datatype px_task =
    Asking DhtAddress PeerDescriptor "ProxyDirection option"
  | Locked DhtAddress PeerDescriptor "ProxyDirection option"
  | Committed DhtAddress PeerDescriptor
  | Closing DhtAddress PeerDescriptor
  | Dropping DhtAddress PeerDescriptor
  | Stopping

datatype px_event =
    IAttempt DhtAddress "ProxyDirection option"
  | IAnswer nat bool
  | ICommit nat
  | IJoin nat px_net
  | IClose DhtAddress
  | IDisconnected PeerDescriptor
  | IStop
  | IFinish nat

definition drop_nth :: "nat \<Rightarrow> 'a list \<Rightarrow> 'a list" where
  "drop_nth j xs = take j xs @ drop (Suc j) xs"

definition finish_task :: "hex_codec \<Rightarrow> 'l locker \<Rightarrow> px_task \<Rightarrow> 'l px_client \<Rightarrow> 'l px_client" where
  "finish_task hx lk t pc =
     (case t of Closing i pd \<Rightarrow> close_finish lk i pd pc | Dropping i pd \<Rightarrow> drop_finish lk i pd pc | Stopping \<Rightarrow> stop_finish hx lk pc | _ \<Rightarrow> pc)"

fun px_interleave :: "hex_codec \<Rightarrow> 'l locker \<Rightarrow> 'l px_client \<times> px_task list \<Rightarrow> px_event \<Rightarrow> 'l px_client \<times> px_task list" where
  "px_interleave hx lk (pc, ts) (IAttempt i dir) =
     (case attempt_lookup pc i of None \<Rightarrow> (pc, ts) | Some pd \<Rightarrow> (pc, ts @ [Asking i pd dir]))"
| "px_interleave hx lk (pc, ts) (IAnswer j answer) =
     (if j < length ts
      then (case ts ! j of
              Asking i pd dir \<Rightarrow> (if answer then (lock_peer lk pd pc, ts[j := Locked i pd dir]) else (pc, drop_nth j ts))
            | _ \<Rightarrow> (pc, ts))
      else (pc, ts))"
| "px_interleave hx lk (pc, ts) (ICommit j) =
     (if j < length ts
      then (case ts ! j of
              Locked i pd dir \<Rightarrow>
                (case attempt_commit lk i pd dir pc of
                   (pc1, committed) \<Rightarrow> (pc1, if committed then ts[j := Committed i pd] else drop_nth j ts))
            | _ \<Rightarrow> (pc, ts))
      else (pc, ts))"
| "px_interleave hx lk (pc, ts) (IJoin j net) =
     (if j < length ts
      then (case ts ! j of Committed i pd \<Rightarrow> (attempt_join hx net i pd pc, drop_nth j ts) | _ \<Rightarrow> (pc, ts))
      else (pc, ts))"
| "px_interleave hx lk (pc, ts) (IClose i) =
     (case om_find (pxConnections pc) i of None \<Rightarrow> (pc, ts) | Some c \<Rightarrow> (close_erase i pc, ts @ [Closing i (pxPeer c)]))"
| "px_interleave hx lk (pc, ts) (IDisconnected pd) =
     (if pxStopped pc \<or> \<not> om_contains (pxConnections pc) (peerId hx pd) then (pc, ts)
      else (close_erase (peerId hx pd) pc, ts @ [Dropping (peerId hx pd) pd]))"
| "px_interleave hx lk (pc, ts) IStop = (if pxStopped pc then (pc, ts) else (stop_begin pc, ts @ [Stopping]))"
| "px_interleave hx lk (pc, ts) (IFinish j) =
     (if j < length ts \<and> (case ts ! j of Closing _ _ \<Rightarrow> True | Dropping _ _ \<Rightarrow> True | Stopping \<Rightarrow> True | _ \<Rightarrow> False)
      then (finish_task hx lk (ts ! j) pc, drop_nth j ts) else (pc, ts))"

text \<open>
  A run in which the operations under way work on different nodes: a task is started only for a node that no other task works on, a proxy is asked
  only when it is not connected yet, the client is stopped while nothing else is under way, and there is room among the neighbours.
\<close>

fun task_node :: "px_task \<Rightarrow> DhtAddress option" where
  "task_node (Asking i _ _) = Some i"
| "task_node (Locked i _ _) = Some i"
| "task_node (Committed i _) = Some i"
| "task_node (Closing i _) = Some i"
| "task_node (Dropping i _) = Some i"
| "task_node Stopping = None"

fun task_peer :: "px_task \<Rightarrow> PeerDescriptor option" where
  "task_peer (Asking _ pd _) = Some pd"
| "task_peer (Locked _ pd _) = Some pd"
| "task_peer (Committed _ pd) = Some pd"
| "task_peer (Closing _ pd) = Some pd"
| "task_peer (Dropping _ pd) = Some pd"
| "task_peer Stopping = None"

fun px_apart :: "hex_codec \<Rightarrow> (DhtAddress \<Rightarrow> bool) \<Rightarrow> DhtAddress \<Rightarrow> 'l px_client \<times> px_task list \<Rightarrow> px_event \<Rightarrow> bool" where
  "px_apart hx good own (pc, ts) (IAttempt i dir) =
     (Some i \<notin> task_node ` set ts \<and> Stopping \<notin> set ts \<and> \<not> om_contains (pxConnections pc) i \<and>
      (case attempt_lookup pc i of None \<Rightarrow> True | Some pd \<Rightarrow> peerId hx pd = i \<and> good i \<and> i \<noteq> own))"
| "px_apart hx good own (pc, ts) (IClose i) = (Some i \<notin> task_node ` set ts)"
| "px_apart hx good own (pc, ts) (IDisconnected pd) = (Some (peerId hx pd) \<notin> task_node ` set ts)"
| "px_apart hx good own (pc, ts) IStop = (ts = [])"
| "px_apart hx good own (pc, ts) (IJoin j net) = (length (nlNodes (pxNeighbors pc)) < 1000)"
| "px_apart hx good own (pc, ts) (IAnswer j answer) = True"
| "px_apart hx good own (pc, ts) (ICommit j) = True"
| "px_apart hx good own (pc, ts) (IFinish j) = True"

primrec px_apart_run ::
  "hex_codec \<Rightarrow> 'l locker \<Rightarrow> (DhtAddress \<Rightarrow> bool) \<Rightarrow> DhtAddress \<Rightarrow> 'l px_client \<times> px_task list \<Rightarrow> px_event list \<Rightarrow> bool" where
  "px_apart_run hx lk good own s [] = True"
| "px_apart_run hx lk good own s (e # es) = (px_apart hx good own s e \<and> px_apart_run hx lk good own (px_interleave hx lk s e) es)"

text \<open>What a task means for the connections, the neighbours and the locks, and what they are for a node without a task.\<close>

fun task_fits :: "DhtAddress set \<Rightarrow> DhtAddress set \<Rightarrow> DhtAddress set \<Rightarrow> px_task \<Rightarrow> bool" where
  "task_fits C N L (Asking i _ _) = (i \<notin> C \<and> i \<notin> N \<and> i \<notin> L)"
| "task_fits C N L (Locked i _ _) = (i \<notin> C \<and> i \<notin> N \<and> i \<in> L)"
| "task_fits C N L (Committed i _) = (i \<in> C \<and> i \<notin> N \<and> i \<in> L)"
| "task_fits C N L (Closing i _) = (i \<notin> C \<and> i \<in> N \<and> i \<in> L)"
| "task_fits C N L (Dropping i _) = (i \<notin> C \<and> i \<in> N \<and> i \<in> L)"
| "task_fits C N L Stopping = False"

definition node_ok :: "DhtAddress set \<Rightarrow> DhtAddress set \<Rightarrow> DhtAddress set \<Rightarrow> px_task list \<Rightarrow> bool" where
  "node_ok C N L ts \<longleftrightarrow>
     distinct (map task_node ts) \<and> (\<forall>t \<in> set ts. task_fits C N L t) \<and>
     (\<forall>i. Some i \<notin> task_node ` set ts \<longrightarrow> (i \<in> C \<longleftrightarrow> i \<in> N) \<and> (i \<in> N \<longleftrightarrow> i \<in> L))"

definition agree_off :: "DhtAddress \<Rightarrow> DhtAddress set \<Rightarrow> DhtAddress set \<Rightarrow> bool" where
  "agree_off i A B \<longleftrightarrow> (\<forall>j. j \<noteq> i \<longrightarrow> (j \<in> A \<longleftrightarrow> j \<in> B))"

lemma agree_off_simps [simp]: "agree_off i A A" "agree_off i (insert i A) A" "agree_off i (A - {i}) A"
  by (auto simp: agree_off_def)

lemma fits_off:
  "task_node t \<noteq> Some i \<Longrightarrow> agree_off i C' C \<Longrightarrow> agree_off i N' N \<Longrightarrow> agree_off i L' L \<Longrightarrow> task_fits C N L t \<Longrightarrow> task_fits C' N' L' t"
  by (cases t) (auto simp: agree_off_def)

lemma node_ok_others:
  assumes ok: "node_ok C N L (xs @ t # ys)" and t: "task_node t = Some i"
  shows "distinct (map task_node (xs @ ys))" "Some i \<notin> task_node ` (set xs \<union> set ys)" "\<forall>u \<in> set xs \<union> set ys. task_fits C N L u"
    and "j \<noteq> i \<Longrightarrow> Some j \<notin> task_node ` (set xs \<union> set ys) \<Longrightarrow> (j \<in> C \<longleftrightarrow> j \<in> N) \<and> (j \<in> N \<longleftrightarrow> j \<in> L)"
proof -
  have d: "distinct (map task_node (xs @ t # ys))" and f: "\<forall>u \<in> set (xs @ t # ys). task_fits C N L u"
    and idle: "\<And>i. Some i \<notin> task_node ` set (xs @ t # ys) \<Longrightarrow> (i \<in> C \<longleftrightarrow> i \<in> N) \<and> (i \<in> N \<longleftrightarrow> i \<in> L)"
    using ok by (auto simp: node_ok_def)
  show "distinct (map task_node (xs @ ys))" "Some i \<notin> task_node ` (set xs \<union> set ys)" using d t by auto
  show "\<forall>u \<in> set xs \<union> set ys. task_fits C N L u" using f by simp
  show "(j \<in> C \<longleftrightarrow> j \<in> N) \<and> (j \<in> N \<longleftrightarrow> j \<in> L)" if "j \<noteq> i" "Some j \<notin> task_node ` (set xs \<union> set ys)"
    by (rule idle) (use that t in \<open>simp add: image_Un\<close>)
qed

lemma node_okI:
  assumes "distinct (map task_node ts)" "\<And>t. t \<in> set ts \<Longrightarrow> task_fits C N L t"
    and "\<And>i. Some i \<notin> task_node ` set ts \<Longrightarrow> (i \<in> C \<longleftrightarrow> i \<in> N) \<and> (i \<in> N \<longleftrightarrow> i \<in> L)"
  shows "node_ok C N L ts"
  using assms unfolding node_ok_def by blast

lemma fits_others:
  assumes fits: "\<forall>u \<in> T. task_fits C N L u" and i: "Some i \<notin> task_node ` T"
    and off: "agree_off i C' C" "agree_off i N' N" "agree_off i L' L" and u: "u \<in> T"
  shows "task_fits C' N' L' u"
  by (rule fits_off [OF _ off]) (use fits i u in force)+

lemma idle_off:
  assumes "agree_off i C' C" "agree_off i N' N" "agree_off i L' L" "j \<noteq> i" "(j \<in> C \<longleftrightarrow> j \<in> N) \<and> (j \<in> N \<longleftrightarrow> j \<in> L)"
  shows "(j \<in> C' \<longleftrightarrow> j \<in> N') \<and> (j \<in> N' \<longleftrightarrow> j \<in> L')"
  using assms unfolding agree_off_def by blast

lemma node_ok_replace:
  assumes ok: "node_ok C N L (xs @ t # ys)" and t: "task_node t = Some i" "task_node t' = Some i"
    and off: "agree_off i C' C" "agree_off i N' N" "agree_off i L' L" and fits: "task_fits C' N' L' t'"
  shows "node_ok C' N' L' (xs @ t' # ys)"
proof (rule node_okI)
  note o = node_ok_others [OF ok t(1)]
  show "distinct (map task_node (xs @ t' # ys))" using o(1,2) t(2) by (auto simp: image_Un)
  show "task_fits C' N' L' u" if "u \<in> set (xs @ t' # ys)" for u
    using that fits fits_others [OF o(3,2) off, of u] by auto
  fix j assume j: "Some j \<notin> task_node ` set (xs @ t' # ys)"
  then have "j \<noteq> i" "Some j \<notin> task_node ` (set xs \<union> set ys)" using t(2) by auto
  then show "(j \<in> C' \<longleftrightarrow> j \<in> N') \<and> (j \<in> N' \<longleftrightarrow> j \<in> L')" by (intro idle_off [OF off] o(4))
qed

lemma node_ok_remove:
  assumes ok: "node_ok C N L (xs @ t # ys)" and t: "task_node t = Some i"
    and off: "agree_off i C' C" "agree_off i N' N" "agree_off i L' L" and idle: "(i \<in> C' \<longleftrightarrow> i \<in> N') \<and> (i \<in> N' \<longleftrightarrow> i \<in> L')"
  shows "node_ok C' N' L' (xs @ ys)"
proof (rule node_okI)
  note o = node_ok_others [OF ok t]
  show "distinct (map task_node (xs @ ys))" by (rule o(1))
  show "task_fits C' N' L' u" if "u \<in> set (xs @ ys)" for u
    using that fits_others [OF o(3,2) off, of u] by auto
  fix j assume j: "Some j \<notin> task_node ` set (xs @ ys)"
  show "(j \<in> C' \<longleftrightarrow> j \<in> N') \<and> (j \<in> N' \<longleftrightarrow> j \<in> L')"
  proof (cases "j = i")
    case False
    then show ?thesis by (intro idle_off [OF off] o(4)) (use j in simp_all)
  qed (use idle in simp)
qed

lemma node_ok_append:
  assumes ok: "node_ok C N L ts" and t: "task_node t = Some i" "Some i \<notin> task_node ` set ts"
    and off: "agree_off i C' C" "agree_off i N' N" "agree_off i L' L" and fits: "task_fits C' N' L' t"
  shows "node_ok C' N' L' (ts @ [t])"
proof (rule node_okI)
  have o: "distinct (map task_node ts)" "\<forall>u \<in> set ts. task_fits C N L u"
    "\<And>j. Some j \<notin> task_node ` set ts \<Longrightarrow> (j \<in> C \<longleftrightarrow> j \<in> N) \<and> (j \<in> N \<longleftrightarrow> j \<in> L)"
    using ok unfolding node_ok_def by blast+
  show "distinct (map task_node (ts @ [t]))" using o(1) t by auto
  show "task_fits C' N' L' u" if "u \<in> set (ts @ [t])" for u
    using that fits fits_others [OF o(2) t(2) off, of u] by auto
  fix j assume "Some j \<notin> task_node ` set (ts @ [t])"
  then have "j \<noteq> i" "Some j \<notin> task_node ` set ts" using t(1) by auto
  then show "(j \<in> C' \<longleftrightarrow> j \<in> N') \<and> (j \<in> N' \<longleftrightarrow> j \<in> L')" by (intro idle_off [OF off] o(3))
qed

lemma split_nth: "j < length ts \<Longrightarrow> \<exists>xs ys. ts = xs @ ts ! j # ys \<and> (\<forall>t. ts[j := t] = xs @ t # ys) \<and> drop_nth j ts = xs @ ys"
  by (intro exI [of _ "take j ts"] exI [of _ "drop (Suc j) ts"]) (simp add: id_take_nth_drop [symmetric] upd_conv_take_nth_drop drop_nth_def)

context connection_locker
begin

definition sections :: "DhtAddress \<Rightarrow> 'l px_client \<Rightarrow> px_task list \<Rightarrow> bool" where
  "sections own pc ts \<longleftrightarrow>
     linv (pxLocker pc) \<and> nl_inv hx (pxNeighbors pc) \<and> nlLimit (pxNeighbors pc) = 1000 \<and> nlOwnId (pxNeighbors pc) = own \<and>
     om_ok (pxConnections pc) \<and> (\<forall>(i, c) \<in> set (pxConnections pc). peerId hx (pxPeer c) = i) \<and>
     (\<forall>i \<in> set (getIds (pxNeighbors pc)) \<union> fst ` set (pxConnections pc). good i \<and> i \<noteq> own) \<and>
     (\<forall>t \<in> set ts. \<forall>pd. task_peer t = Some pd \<longrightarrow> task_node t = Some (peerId hx pd) \<and> good (peerId hx pd) \<and> peerId hx pd \<noteq> own) \<and>
     (pxStopped pc \<longrightarrow> pxConnections pc = []) \<and>
     node_ok (fst ` set (pxConnections pc)) (set (getIds (pxNeighbors pc))) (held (pxLocker pc)) ts"

lemma node_ok_nil: "node_ok C N L [] \<longleftrightarrow> N = C \<and> L = C"
  by (auto simp: node_ok_def)

lemma sections_core: "sections own pc [] \<longleftrightarrow> core own pc"
proof
  assume s: "sections own pc []"
  then have eq: "set (getIds (pxNeighbors pc)) = fst ` set (pxConnections pc)" "held (pxLocker pc) = fst ` set (pxConnections pc)"
    unfolding sections_def node_ok_nil by blast+
  have peers: "\<forall>(i, c) \<in> set (pxConnections pc). peerId hx (pxPeer c) = i"
    and ids: "\<forall>i \<in> set (getIds (pxNeighbors pc)) \<union> fst ` set (pxConnections pc). good i \<and> i \<noteq> own"
    using s unfolding sections_def by blast+
  have "\<forall>(i, c) \<in> set (pxConnections pc). peerId hx (pxPeer c) = i \<and> good i \<and> i \<noteq> own"
  proof (clarify, intro conjI)
    fix i c assume ic: "(i, c) \<in> set (pxConnections pc)"
    show "peerId hx (pxPeer c) = i" using peers ic by auto
    have "i \<in> fst ` set (pxConnections pc)" using imageI [OF ic, of fst] by simp
    then show "good i" "i \<noteq> own" using ids by blast+
  qed
  then show "core own pc" using s eq unfolding sections_def px_core_def by (elim conjE) (intro conjI; assumption)
next
  assume c: "core own pc"
  have peers: "\<forall>(i, c) \<in> set (pxConnections pc). peerId hx (pxPeer c) = i \<and> good i \<and> i \<noteq> own" and
    eq: "set (getIds (pxNeighbors pc)) = fst ` set (pxConnections pc)" "held (pxLocker pc) = fst ` set (pxConnections pc)"
    using c unfolding px_core_def by blast+
  have "\<forall>i \<in> set (getIds (pxNeighbors pc)) \<union> fst ` set (pxConnections pc). good i \<and> i \<noteq> own" using peers unfolding eq by auto
  moreover have "\<forall>(i, c) \<in> set (pxConnections pc). peerId hx (pxPeer c) = i" using peers by auto
  ultimately show "sections own pc []" using c eq unfolding sections_def px_core_def node_ok_nil list.set ball_empty
    by (elim conjE) (intro conjI TrueI; assumption)
qed

lemma sections_no_stopping: "sections own pc ts \<Longrightarrow> Stopping \<notin> set ts"
  by (auto simp: sections_def node_ok_def)

lemma sections_attempt:
  assumes s: "sections own pc ts" and a: "px_apart hx good own (pc, ts) (IAttempt i dir)" and pd: "attempt_lookup pc i = Some pd"
  shows "sections own pc (ts @ [Asking i pd dir])"
proof -
  have i: "Some i \<notin> task_node ` set ts" "i \<notin> fst ` set (pxConnections pc)" "peerId hx pd = i" "good i" "i \<noteq> own"
    using a pd by (simp_all add: om_contains_iff)
  have ok: "node_ok (fst ` set (pxConnections pc)) (set (getIds (pxNeighbors pc))) (held (pxLocker pc)) ts" using s by (simp add: sections_def)
  then have "i \<notin> set (getIds (pxNeighbors pc))" "i \<notin> held (pxLocker pc)" using i(1,2) unfolding node_ok_def by blast+
  then have "node_ok (fst ` set (pxConnections pc)) (set (getIds (pxNeighbors pc))) (held (pxLocker pc)) (ts @ [Asking i pd dir])"
    using i(2) by (intro node_ok_append [OF ok _ i(1)]) simp_all
  then show ?thesis using s i(3-5) by (simp add: sections_def)
qed

text \<open>A closing or a disconnect takes the connection away and leaves the rest to its second section.\<close>

lemma sections_erase:
  assumes s: "sections own pc ts" and i: "Some i \<notin> task_node ` set ts" "i \<in> fst ` set (pxConnections pc)"
    and t: "t = Closing i pd \<or> t = Dropping i pd" "peerId hx pd = i"
  shows "sections own (close_erase i pc) (ts @ [t])"
proof -
  have ok: "node_ok (fst ` set (pxConnections pc)) (set (getIds (pxNeighbors pc))) (held (pxLocker pc)) ts" using s by (simp add: sections_def)
  then have "i \<in> set (getIds (pxNeighbors pc))" "i \<in> held (pxLocker pc)" using i unfolding node_ok_def by blast+
  then have "node_ok (fst ` set (pxConnections pc) - {i}) (set (getIds (pxNeighbors pc))) (held (pxLocker pc)) (ts @ [t])"
    using t by (intro node_ok_append [OF ok _ i(1)]) auto
  moreover have "good i \<and> i \<noteq> own" using s i(2) by (simp add: sections_def)
  moreover have "set (om_erase i (pxConnections pc)) \<subseteq> set (pxConnections pc)" by (auto simp: om_erase_def)
  ultimately show ?thesis using s t unfolding sections_def close_erase_def by (auto simp: fst_om_erase)
qed

text \<open>A section that changes only the locks.\<close>

lemma sections_locks:
  assumes s: "sections own pc ts" and q: "q = pc\<lparr>pxLocker := l\<rparr>" "linv l"
    and ts: "\<And>u. u \<in> set us \<Longrightarrow> u \<in> set ts \<or> (\<exists>t \<in> set ts. task_peer u = task_peer t \<and> task_node u = task_node t)"
    and ok: "node_ok (fst ` set (pxConnections pc)) (set (getIds (pxNeighbors pc))) (held l) us"
  shows "sections own q us"
proof -
  have "task_node u = Some (peerId hx pd) \<and> good (peerId hx pd) \<and> peerId hx pd \<noteq> own" if "u \<in> set us" "task_peer u = Some pd" for u pd
    using ts [OF that(1)] s that(2) unfolding sections_def by metis
  then show ?thesis using s ok q by (simp add: sections_def)
qed

lemma sections_task:
  assumes s: "sections own pc (xs @ t # ys)" and t: "task_node t = Some i" "task_peer t = Some pd"
  shows "peerId hx pd = i" "good i" "i \<noteq> own"
    "node_ok (fst ` set (pxConnections pc)) (set (getIds (pxNeighbors pc))) (held (pxLocker pc)) (xs @ t # ys)"
    "task_fits (fst ` set (pxConnections pc)) (set (getIds (pxNeighbors pc))) (held (pxLocker pc)) t"
  using s t by (auto simp: sections_def node_ok_def)

lemma sections_answer:
  assumes s: "sections own pc (xs @ Asking i pd dir # ys)"
  shows "sections own (lock_peer lk pd pc) (xs @ Locked i pd dir # ys)" "sections own pc (xs @ ys)"
proof -
  note t = sections_task [OF s, of i pd, simplified]
  have l: "linv (lkLock lk (pxLocker pc) pd)" "held (lkLock lk (pxLocker pc) pd) = insert i (held (pxLocker pc))"
    using s t(1,2) by (auto simp: sections_def inv_lock held_lock)
  have "node_ok (fst ` set (pxConnections pc)) (set (getIds (pxNeighbors pc))) (held (lkLock lk (pxLocker pc) pd)) (xs @ Locked i pd dir # ys)"
    using t(5) by (intro node_ok_replace [OF t(4), of i]) (simp_all add: l)
  then show "sections own (lock_peer lk pd pc) (xs @ Locked i pd dir # ys)"
    by (intro sections_locks [OF s lock_peer_def l(1)]) auto
  have "node_ok (fst ` set (pxConnections pc)) (set (getIds (pxNeighbors pc))) (held (pxLocker pc)) (xs @ ys)"
    using t(5) by (intro node_ok_remove [OF t(4), of i]) simp_all
  then show "sections own pc (xs @ ys)" using s by (simp add: sections_def)
qed

lemma sections_commit:
  assumes s: "sections own pc (xs @ Locked i pd dir # ys)"
  shows "(case attempt_commit lk i pd dir pc of (q, committed) \<Rightarrow> sections own q (if committed then xs @ Committed i pd # ys else xs @ ys))"
proof (cases "pxStopped pc")
  case True
  note t = sections_task [OF s, of i pd, simplified]
  have l: "linv (lkUnlock lk (pxLocker pc) pd)" "held (lkUnlock lk (pxLocker pc) pd) = held (pxLocker pc) - {i}"
    using s t(1,2) by (auto simp: sections_def inv_unlock held_unlock)
  have "node_ok (fst ` set (pxConnections pc)) (set (getIds (pxNeighbors pc))) (held (lkUnlock lk (pxLocker pc) pd)) (xs @ ys)"
    using t(5) by (intro node_ok_remove [OF t(4), of i]) (simp_all add: l)
  then have "sections own (unlock_peer lk pd pc) (xs @ ys)"
    by (intro sections_locks [OF s unlock_peer_def l(1)]) auto
  then show ?thesis using True by (simp add: attempt_commit_def)
next
  case False
  note t = sections_task [OF s, of i pd, simplified]
  let ?c = "\<lparr>pxPeer = pd, pxDirection = dir\<rparr>"
  have new: "i \<notin> fst ` set (pxConnections pc)" and om: "om_ok (pxConnections pc)" using t(5) s by (simp_all add: sections_def)
  have e: "om_emplace i ?c (pxConnections pc) = om_put i ?c (pxConnections pc)" using new by (simp add: om_emplace_def om_contains_iff)
  have set: "set (om_put i ?c (pxConnections pc)) = insert (i, ?c) (set (pxConnections pc))" using set_om_put [OF om new] .
  have "node_ok (insert i (fst ` set (pxConnections pc))) (set (getIds (pxNeighbors pc))) (held (pxLocker pc)) (xs @ Committed i pd # ys)"
    using t(5) by (intro node_ok_replace [OF t(4), of i]) simp_all
  then show ?thesis using False s t(1-3) unfolding sections_def attempt_commit_def by (simp add: e set om_ok_put)
qed

lemma sections_join:
  assumes s: "sections own pc (xs @ Committed i pd # ys)" and room: "length (nlNodes (pxNeighbors pc)) < 1000"
  shows "sections own (attempt_join hx net i pd pc) (xs @ ys)"
proof -
  note t = sections_task [OF s, of i pd, simplified]
  let ?l = "fst (nl_add hx (pxNeighbors pc) \<lparr>getPeerDescriptor = pd, remoteObject = pxNextObject pc\<rparr>)"
  have N: "nl_inv hx (pxNeighbors pc)" "nlLimit (pxNeighbors pc) = 1000" "nlOwnId (pxNeighbors pc) = own" using s by (simp_all add: sections_def)
  have ids: "set (getIds ?l) = insert i (set (getIds (pxNeighbors pc)))"
    using getIds_add [OF N(1), of "\<lparr>getPeerDescriptor = pd, remoteObject = pxNextObject pc\<rparr>"] t(1,3,5) N room by simp
  have "node_ok (fst ` set (pxConnections pc)) (set (getIds ?l)) (held (pxLocker pc)) (xs @ ys)"
    using t(5) by (intro node_ok_remove [OF t(4), of i]) (simp_all add: ids)
  then show ?thesis using s t(1-3) ids N unfolding sections_def attempt_join_def by (simp add: nl_inv_add)
qed

lemma sections_finish:
  assumes s: "sections own pc (xs @ t # ys)" and t: "t = Closing i pd \<or> t = Dropping i pd"
  shows "sections own (finish_task hx lk t pc) (xs @ ys)"
proof -
  have p: "task_node t = Some i" "task_peer t = Some pd" using t by auto
  note t' = sections_task [OF s p]
  have fin: "pxConnections (finish_task hx lk t pc) = pxConnections pc" "pxStopped (finish_task hx lk t pc) = pxStopped pc"
    "pxLocker (finish_task hx lk t pc) = lkUnlock lk (pxLocker pc) pd" "pxNeighbors (finish_task hx lk t pc) = fst (nl_remove (pxNeighbors pc) i)"
    using t by (auto simp: finish_task_def px_section_defs Let_def split: option.splits)
  have N: "nl_inv hx (pxNeighbors pc)" using s by (simp add: sections_def)
  have l: "linv (lkUnlock lk (pxLocker pc) pd)" "held (lkUnlock lk (pxLocker pc) pd) = held (pxLocker pc) - {i}"
    using s t'(1,2) by (auto simp: sections_def inv_unlock held_unlock)
  have ids: "set (getIds (fst (nl_remove (pxNeighbors pc) i))) = set (getIds (pxNeighbors pc)) - {i}" by (auto simp: getIds_remove [OF N])
  have "node_ok (fst ` set (pxConnections pc)) (set (getIds (pxNeighbors pc)) - {i}) (held (pxLocker pc) - {i}) (xs @ ys)"
    using t t'(5) by (intro node_ok_remove [OF t'(4) p(1)]) (elim disjE; simp)+
  moreover have "\<forall>k \<in> (set (getIds (pxNeighbors pc)) - {i}) \<union> fst ` set (pxConnections pc). good k \<and> k \<noteq> own"
    using s unfolding sections_def by blast
  ultimately show ?thesis using s l ids unfolding sections_def fin by (simp add: nl_inv_remove)
qed

definition sections_inv :: "DhtAddress \<Rightarrow> 'l px_client \<times> px_task list \<Rightarrow> bool" where
  "sections_inv own s \<longleftrightarrow> sections own (fst s) (snd s) \<or> (\<exists>pc. core own pc \<and> s = (stop_begin pc, [Stopping]))"

lemma stopping_step:
  assumes core: "core own pc" and a: "px_apart hx good own (stop_begin pc, [Stopping]) e"
  shows "sections_inv own (px_interleave hx lk (stop_begin pc, [Stopping]) e)"
proof (cases e)
  case (IFinish j)
  have "sections own (stop_finish hx lk (stop_begin pc)) []" unfolding sections_core by (rule core_stop [OF core])
  then show ?thesis using IFinish core by (auto simp: sections_inv_def finish_task_def drop_nth_def)
qed (use core a in \<open>auto simp: sections_inv_def stop_begin_def om_find_def om_contains_def\<close>)

lemma sections_step:
  assumes inv: "sections_inv own s" and a: "px_apart hx good own s e"
  shows "sections_inv own (px_interleave hx lk s e)"
proof (cases "sections own (fst s) (snd s)")
  case True
  obtain pc ts where st: "s = (pc, ts)" by fastforce
  have s: "sections own pc ts" using True st by simp
  have keep: "sections_inv own (pc, ts)" using s by (simp add: sections_inv_def)
  show ?thesis
  proof (cases e)
    case (IAttempt i dir)
    then show ?thesis using keep sections_attempt [OF s, of i dir] a st by (auto simp: sections_inv_def split: option.split)
  next
    case (IClose i)
    have "sections own (close_erase i pc) (ts @ [Closing i (pxPeer c)])" if "om_find (pxConnections pc) i = Some c" for c
    proof (rule sections_erase [OF s])
      have c: "(i, c) \<in> set (pxConnections pc)" using that by (rule om_find_in_set)
      then show "i \<in> fst ` set (pxConnections pc)" by force
      show "peerId hx (pxPeer c) = i" using s c by (auto simp: sections_def)
    qed (use a st IClose in auto)
    then show ?thesis using keep IClose st by (simp add: sections_inv_def split: option.split)
  next
    case (IDisconnected pd)
    then show ?thesis using keep sections_erase [OF s, of "peerId hx pd" "Dropping (peerId hx pd) pd" pd] a st
      by (simp add: sections_inv_def om_contains_iff)
  next
    case IStop
    then have "ts = []" using a st by simp
    then show ?thesis using s IStop st by (auto simp: sections_inv_def sections_core)
  next
    case (IAnswer j answer)
    show ?thesis
    proof (cases "j < length ts")
      case True
      then obtain xs ys where t: "ts = xs @ ts ! j # ys" "\<forall>t. ts[j := t] = xs @ t # ys" "drop_nth j ts = xs @ ys" using split_nth by blast
      show ?thesis
      proof (cases "ts ! j")
        case (Asking i pd dir)
        then have "sections own pc (xs @ Asking i pd dir # ys)" using s t(1) by metis
        then show ?thesis using sections_answer Asking IAnswer True st t(2,3) by (simp add: sections_inv_def)
      qed (use keep IAnswer True st in simp_all)
    qed (use keep IAnswer st in simp)
  next
    case (ICommit j)
    show ?thesis
    proof (cases "j < length ts")
      case True
      then obtain xs ys where t: "ts = xs @ ts ! j # ys" "\<forall>t. ts[j := t] = xs @ t # ys" "drop_nth j ts = xs @ ys" using split_nth by blast
      show ?thesis
      proof (cases "ts ! j")
        case (Locked i pd dir)
        then have "sections own pc (xs @ Locked i pd dir # ys)" using s t(1) by metis
        then show ?thesis using sections_commit [of own pc xs i pd dir ys] Locked ICommit True st t(2,3)
          by (simp add: sections_inv_def split: prod.splits if_splits)
      qed (use keep ICommit True st in simp_all)
    qed (use keep ICommit st in simp)
  next
    case (IJoin j net)
    show ?thesis
    proof (cases "j < length ts")
      case True
      then obtain xs ys where t: "ts = xs @ ts ! j # ys" "drop_nth j ts = xs @ ys" using split_nth by blast
      show ?thesis
      proof (cases "ts ! j")
        case (Committed i pd)
        then have "sections own pc (xs @ Committed i pd # ys)" using s t(1) by metis
        then show ?thesis using sections_join Committed IJoin True st t(2) a by (simp add: sections_inv_def)
      qed (use keep IJoin True st in simp_all)
    qed (use keep IJoin st in simp)
  next
    case (IFinish j)
    show ?thesis
    proof (cases "j < length ts")
      case True
      then obtain xs ys where t: "ts = xs @ ts ! j # ys" "drop_nth j ts = xs @ ys" using split_nth by blast
      have sj: "sections own pc (xs @ ts ! j # ys)" using s t(1) by metis
      have "ts ! j \<noteq> Stopping" using sections_no_stopping [OF s] True by (metis nth_mem)
      then show ?thesis using keep sections_finish [OF sj] IFinish True st t(2)
        by (cases "ts ! j") (simp_all add: sections_inv_def)
    qed (use keep IFinish st in simp)
  qed
next
  case False
  then obtain pc where "core own pc" "s = (stop_begin pc, [Stopping])" using inv unfolding sections_inv_def by blast
  then show ?thesis using stopping_step a by blast
qed

lemma sections_run: "sections_inv own s \<Longrightarrow> px_apart_run hx lk good own s es \<Longrightarrow> sections_inv own (foldl (px_interleave hx lk) s es)"
  by (induction es arbitrary: s) (simp_all add: sections_step)

text \<open>When no task is under way, the connections, the neighbours and the locks are the same nodes again.\<close>

lemma apart_run:
  assumes core: "core own pc" and apart: "px_apart_run hx lk good own (pc, []) es" and q: "(q, ts) = foldl (px_interleave hx lk) (pc, []) es"
  shows "ts = [] \<Longrightarrow> core own q"
    and "Stopping \<notin> set ts \<Longrightarrow> node_ok (fst ` set (pxConnections q)) (set (getIds (pxNeighbors q))) (held (pxLocker q)) ts"
proof -
  have "sections_inv own (pc, [])" using core by (simp add: sections_inv_def sections_core)
  then have inv: "sections_inv own (q, ts)" unfolding q using apart by (rule sections_run)
  then show "ts = [] \<Longrightarrow> core own q" by (auto simp: sections_inv_def sections_core)
  show "Stopping \<notin> set ts \<Longrightarrow> node_ok (fst ` set (pxConnections q)) (set (getIds (pxNeighbors q))) (held (pxLocker q)) ts"
    using inv by (auto simp: sections_inv_def sections_def)
qed

end

section \<open>The connection manager as the locker\<close>

definition SERVICE_ID :: LockID where
  "SERVICE_ID = ''system/proxy-client''"

definition cm_locker :: "cm_env \<Rightarrow> conn_manager locker" where
  "cm_locker env = \<lparr>lkLock = \<lambda>cm pd. fst (lockConnection env cm pd SERVICE_ID), lkUnlock = \<lambda>cm pd. fst (unlockConnection env cm pd SERVICE_ID)\<rparr>"

definition cm_held :: "conn_manager \<Rightarrow> DhtAddress set" where
  "cm_held cm = {i. isLocalLocked (cmLocks cm) i (Some SERVICE_ID)}"

definition cm_open :: "cm_env \<Rightarrow> conn_manager \<Rightarrow> bool" where
  "cm_open env cm \<longleftrightarrow> cm_inv env cm \<and> cmStatus cm \<noteq> STOPPED"

definition cm_foreign :: "cm_env \<Rightarrow> DhtAddress \<Rightarrow> bool" where
  "cm_foreign env i \<longleftrightarrow> i \<noteq> nodeIdOf env (envLocalPeerDescriptor env)"

lemma cm_held_locks: "cm_held cm = {i. (i, SERVICE_ID) \<in> held_locks (localLocks (cmLocks cm))}"
  by (auto simp: cm_held_def isLocalLocked_def table_locked_def held_locks_def split: option.splits)

lemma cm_foreign_peer: "cm_foreign env (nodeIdOf env pd) \<Longrightarrow> \<not> areEqualPeerDescriptors pd (envLocalPeerDescriptor env)"
  by (auto simp: cm_foreign_def areEqualPeerDescriptors_def getNodeIdFromPeerDescriptor_def)

interpretation px: connection_locker "envHex env" "cm_locker env" cm_held "cm_open env" "cm_foreign env" for env
proof unfold_locales
  fix cm pd
  assume op: "cm_open env cm"
  then show "cm_open env (lkLock (cm_locker env) cm pd)" "cm_open env (lkUnlock (cm_locker env) cm pd)"
    using lock_ops_inv(1,2) [of env cm pd SERVICE_ID] by (auto simp: cm_open_def cm_locker_def lockConnection_def unlockConnection_def Let_def)
  have t: "table_inv (localLocks (cmLocks cm))" using op by (simp add: cm_open_def cm_inv_def ls_inv_def)
  assume f: "cm_foreign env (nodeIdOf env pd)"
  show "cm_held (lkLock (cm_locker env) cm pd) = insert (nodeIdOf env pd) (cm_held cm)"
    using op cm_foreign_peer [OF f] locks.held_add [OF t] by (auto simp: cm_open_def cm_locker_def lockConnection_def cm_held_locks addLocalLocked_def)
  show "cm_held (lkUnlock (cm_locker env) cm pd) = cm_held cm - {nodeIdOf env pd}"
    using op cm_foreign_peer [OF f] locks.held_remove [OF t]
    by (auto simp: cm_open_def cm_locker_def unlockConnection_def Let_def cm_held_locks removeLocalLocked_def)
qed

text \<open>A run of a client on a manager that holds no lock of it.\<close>

definition px_run ::
  "cm_env \<Rightarrow> stale_reads \<Rightarrow> PeerDescriptor \<Rightarrow> string \<Rightarrow> nat option \<Rightarrow> nat \<Rightarrow> conn_manager \<Rightarrow> px_op list \<Rightarrow> conn_manager px_client" where
  "px_run env sr movedFrom spid minTargets counter cm ops =
     foldl (px_apply (envHex env) sr (cm_locker env))
       (px_create (envHex env) movedFrom (envLocalPeerDescriptor env) spid minTargets counter cm) ops"

abbreviation run_ok :: "cm_env \<Rightarrow> PeerDescriptor \<Rightarrow> conn_manager \<Rightarrow> px_op list \<Rightarrow> bool" where
  "run_ok env movedFrom cm ops \<equiv>
     cm_open env cm \<and> cm_held cm = {} \<and> list_all (px_op_ok (envHex env) (cm_foreign env) (nodeIdOf env movedFrom)) ops"

lemma px_run_inv: "run_ok env movedFrom cm ops \<Longrightarrow> px.inv env (nodeIdOf env movedFrom) (px_run env sr movedFrom spid minTargets counter cm ops)"
  unfolding px_run_def by (rule px.inv_run [OF px.inv_create]) simp_all

lemma px_run_lists: "lists_ok (envHex env) (px_run env sr movedFrom spid minTargets counter cm ops)"
  unfolding px_run_def by (rule lists_run [OF lists_create])

section \<open>User ids\<close>

lemma user_address:
  assumes "hex_laws hx"
  shows "toEthereumAddress (binaryStringToHex hx b True) =
    (if length b = 20 then Inr (''0x'' @ hex_lower hx b) else Inl (RuntimeError (''not a valid Ethereum address: '' @ ''0x'' @ hex_lower hx b)))"
proof -
  have "is_hex c" if "c \<in> set ''0123456789abcdef''" for c using that by (auto simp: is_hex_def is_digit_def)
  then have "list_all is_hex (hex_lower hx b)" using hex_laws.hex_digits [OF assms, of b] by (auto simp: list_all_iff)
  then show ?thesis using hex_laws.length_hex [OF assms, of b] by (auto simp: toEthereumAddress_def binaryStringToHex_def Let_def)
qed

lemma subscriber_iff:
  assumes "om_ok (psConnections ps)"
  shows "i \<in> set (getSubscribers (ps\<lparr>psConnections := om_put i c (psConnections ps), psNewConnections := ns\<rparr>)) \<longleftrightarrow>
    acDirection c = None \<or> acDirection c = Some SUBSCRIBE"
proof -
  have "(i, c') \<in> set (om_put i c (psConnections ps)) \<longleftrightarrow> c' = c" for c'
    using om_find_set_iff [OF om_ok_put [OF assms, of i c], of i c'] by auto
  then show ?thesis by (force simp: getSubscribers_def)
qed

section \<open>Properties\<close>


text \<open>
  C6. Setting the proxies of a running client: the connections that the new definition still covers are kept; the missing ones are tried on
  the first proxies of the definition, in the order of their ids, that are not connected; exactly those that accept are reported as connected and
  are connections afterwards, and exactly the others are reported with an error; when there are too many, exactly as many as asked for stay.
\<close>

theorem set_proxies_outcome:
  assumes ok: "run_ok env movedFrom cm ops" and pc: "pc = px_run env sr movedFrom spid minTargets counter cm ops" and live: "\<not> pxStopped pc"
    and nodes: "nodes_ok (envHex env) (cm_foreign env) (nodeIdOf env movedFrom) nodes" and count: "\<And>n. connectionCount = Some n \<Longrightarrow> n \<le> length nodes"
    and d: "d = make_definition (envHex env) nodes direction userId connectionCount" and kept: "kept = filter (valid_connection d) (pxConnections pc)"
  shows "\<exists>q errors connected. setProxies (envHex env) (cm_locker env) net nodes direction userId connectionCount pc = Inr (q, errors, connected) \<and>
    connected = filter (accepts (envHex env) net direction userId) (proxies_to_try d kept) \<and>
    map errorPeer errors = filter (\<lambda>pd. \<not> accepts (envHex env) net direction userId pd) (proxies_to_try d kept) \<and>
    (if length kept \<le> dfConnectionCount d then set (pxConnections q) = set kept \<union> new_connection (envHex env) direction ` set connected
     else set (pxConnections q) \<subseteq> set kept \<and> length (pxConnections q) = dfConnectionCount d)"
proof -
  let ?pc = "pc\<lparr>pxDefinition := Some d\<rparr>"
  have "px.inv env (nodeIdOf env movedFrom) pc" unfolding pc by (rule px_run_inv [OF ok])
  then have core: "px_core (envHex env) cm_held (cm_open env) (cm_foreign env) (nodeIdOf env movedFrom) ?pc"
    by (simp add: px.inv_def px_core_def)
  have small: "dfConnectionCount d \<le> length nodes" "length nodes \<le> 1000"
    using count nodes by (auto simp: d make_definition_def nodes_ok_def split: option.splits)
  have good: "cm_foreign env (nodeIdOf env n) \<and> nodeIdOf env n \<noteq> nodeIdOf env movedFrom" if "n \<in> set nodes" for n
    using nodes that by (simp add: nodes_ok_def)
  have "setProxies (envHex env) (cm_locker env) net nodes direction userId connectionCount pc = updateConnections (envHex env) (cm_locker env) net ?pc"
    using count by (cases connectionCount) (auto simp: setProxies_def d)
  then show ?thesis using px.update_live [OF core _ _ d small good, of kept net] live kept by auto
qed

text \<open>
  C25. A broadcast of a client in any state returns, emits the message once, and reports every neighbour but the node the message came from as
  reached, whatever the network did: the errors of the calls never arrive at the result.
\<close>

theorem broadcast_reports_success:
  assumes pc: "pc = px_run env sr movedFrom spid minTargets counter cm ops"
  shows "\<exists>q. px_broadcast (envHex env) sr net msg previousNode now pc =
      (q, Inr (map getPeerDescriptor (filter (\<lambda>r. previousNode = Some (remoteId (envHex env) r)) (nl_getAll (pxNeighbors pc))),
               map getPeerDescriptor (filter (\<lambda>r. previousNode \<noteq> Some (remoteId (envHex env) r)) (nl_getAll (pxNeighbors pc))))) \<and>
    pxEmitted q = pxEmitted pc @ [msg] \<and> pxNeighbors q = pxNeighbors pc \<and> pxConnections q = pxConnections pc"
proof -
  let ?pc = "pc\<lparr>pxDetectors := fst (broadcast_mark (envHex env) sr msg previousNode pc), pxEmitted := pxEmitted pc @ [msg]\<rparr>"
  have ok: "lists_ok (envHex env) ?pc" "nl_inv (envHex env) (pxNeighbors ?pc)"
    using px_run_lists [of env sr movedFrom spid minTargets counter cm ops] by (simp_all add: lists_ok_def pc)
  note res = broadcast_collect_result [OF ok(1), of net msg previousNode now, unfolded toDescriptors_filter [OF ok(2)]]
  then show ?thesis using broadcast_same [of pc "envHex env" sr net msg previousNode now] mark_never_throws [of "envHex env" sr msg previousNode pc]
      collect_emitted [of net msg previousNode now ?pc]
    by (auto simp: px_broadcast_def same_peers_def)
qed

text \<open>
  C26. The two sides of a proxy connection agree: a request with a user id of 20 bytes is accepted by a proxy, after which the client has the
  connection, and the proxy has the client with the same direction and user and passes messages on to it unless it only publishes; any other user
  id makes the proxy refuse, and the client is left as it was with an error for that proxy.
\<close>

theorem proxy_connection_agreed:
  assumes hx: "hex_laws hx" and user: "hexToBinaryString hx userId = Inr b" and look: "attempt_lookup pc i = Some pd"
    and live: "\<not> pxStopped pc" "\<not> om_contains (pxConnections pc) i" and ps: "om_ok (psConnections ps)"
    and net: "netRequest net pd =
      (\<lambda>request. case serve_requestConnection hx request (Some (pxLocal pc)) ps of Inl e \<Rightarrow> RequestThrew e | Inr (_, answer) \<Rightarrow> Answered answer)"
  shows "case attemptConnection hx lk net i direction userId pc of
      (q, None) \<Rightarrow> length b = 20 \<and> px_hasConnection i direction q \<and>
        (\<exists>ps'. serve_requestConnection hx \<lparr>rqDirection = direction, rqUserId = b\<rparr> (Some (pxLocal pc)) ps = Inr (ps', True) \<and>
           ps_getConnection ps' (peerId hx (pxLocal pc)) = Some \<lparr>acDirection = direction, acUserId = ''0x'' @ hex_lower hx b, acRemote = pxLocal pc\<rparr> \<and>
           (peerId hx (pxLocal pc) \<in> set (ps_getPropagationTargets hx None ps') \<longleftrightarrow> direction \<noteq> Some PUBLISH))
    | (q, Some err) \<Rightarrow> length b \<noteq> 20 \<and> q = pc \<and> errorPeer err = pd"
proof (cases "length b = 20")
  case True
  let ?request = "\<lparr>rqDirection = direction, rqUserId = b\<rparr>" and ?id = "peerId hx (pxLocal pc)"
  let ?entry = "\<lparr>acDirection = direction, acUserId = ''0x'' @ hex_lower hx b, acRemote = pxLocal pc\<rparr>"
  let ?ps = "ps\<lparr>psConnections := om_put ?id ?entry (psConnections ps), psNewConnections := psNewConnections ps @ [?id]\<rparr>"
  have serve: "serve_requestConnection hx ?request (Some (pxLocal pc)) ps = Inr (?ps, True)"
    using True by (simp add: serve_requestConnection_def user_address [OF hx] Let_def)
  have "om_emplace i v (pxConnections pc) = om_put i v (pxConnections pc)" for v using live(2) by (simp add: om_emplace_def)
  moreover have "(?id \<in> set (getSubscribers ?ps)) \<longleftrightarrow> direction \<noteq> Some PUBLISH"
    using subscriber_iff [OF ps, where i = ?id and c = ?entry] by (cases direction) (simp_all, metis ProxyDirection.exhaust ProxyDirection.distinct(1))
  ultimately show ?thesis using True look live user serve
    by (simp add: attemptConnection_def requestConnection_def net px_section_defs px_hasConnection_def ps_getConnection_def ps_getPropagationTargets_def)
next
  case False
  then show ?thesis using look user
    by (simp add: attemptConnection_def requestConnection_def net serve_requestConnection_def user_address [OF hx])
qed

section \<open>Overlapping operations\<close>

lemma interleave_stopped:
  "(pxStopped (fst s) \<longrightarrow> pxConnections (fst s) = []) \<Longrightarrow>
     (pxStopped (fst (px_interleave hx lk s e)) \<longrightarrow> pxConnections (fst (px_interleave hx lk s e)) = [])"
  by (cases "(hx, lk, s, e)" rule: px_interleave.cases)
    (auto simp: px_section_defs finish_task_def stop_finish_def om_erase_def Let_def split: option.splits px_task.splits)

lemma interleave_stop_mono: "pxStopped (fst s) \<Longrightarrow> pxStopped (fst (px_interleave hx lk s e))"
  by (cases "(hx, lk, s, e)" rule: px_interleave.cases)
    (auto simp: px_section_defs finish_task_def stop_finish_def Let_def split: option.splits px_task.splits)

text \<open>
  C24. However the sections of connection attempts, closings, disconnects and the stop interleave, a client that has been stopped has no
  connection, and none appears later, even when a proxy accepts after the stop.
\<close>

theorem stopped_client_stays_empty:
  assumes "s = foldl (px_interleave hx lk) (px_create hx movedFrom local spid minTargets counter l, []) es1" and "pxStopped (fst s)"
  shows "pxConnections (fst (foldl (px_interleave hx lk) s es2)) = [] \<and> pxStopped (fst (foldl (px_interleave hx lk) s es2)) \<and>
    \<not> px_hasConnection i dir (fst (foldl (px_interleave hx lk) s es2))"
proof -
  have empty: "pxStopped (fst (foldl (px_interleave hx lk) s0 es)) \<longrightarrow> pxConnections (fst (foldl (px_interleave hx lk) s0 es)) = []"
    if "pxStopped (fst s0) \<longrightarrow> pxConnections (fst s0) = []" for s0 es
    using that by (induction es arbitrary: s0) (simp_all add: interleave_stopped)
  have stays: "pxStopped (fst (foldl (px_interleave hx lk) s0 es))" if "pxStopped (fst s0)" for s0 es
    using that by (induction es arbitrary: s0) (simp_all add: interleave_stop_mono)
  have "pxConnections (fst s) = []" using empty [of "(px_create hx movedFrom local spid minTargets counter l, [])" es1] assms by (simp add: px_create_def)
  then have "pxConnections (fst (foldl (px_interleave hx lk) s es2)) = []" using empty [of s es2] stays [OF assms(2), of es2] by simp
  then show ?thesis using stays [OF assms(2), of es2] by (simp add: px_hasConnection_def om_find_def)
qed

text \<open>
  The lock of a connection leaks: when a client without neighbours is stopped between the commit of an attempt and the step that adds the
  neighbour, the attempt still ends with the node among the neighbours, its lock in the connection manager is never released, and stopping
  again changes nothing.
\<close>

theorem stop_leaks_lock:
  assumes pc: "pxDefinition pc = Some d" "om_find (dfNodes d) i = Some pd" "nodeIdOf env pd = i" "\<not> pxStopped pc" "nlNodes (pxNeighbors pc) = []"
      "nlOwnId (pxNeighbors pc) \<noteq> i" "0 < nlLimit (pxNeighbors pc)"
    and cm: "cm_open env (pxLocker pc)" "cm_foreign env i"
    and run: "(q, ts) = foldl (px_interleave (envHex env) (cm_locker env)) (pc, [])
      [IAttempt i dir, IAnswer 0 True, ICommit 0, IStop, IFinish 1, IJoin 0 net]"
  shows "ts = [] \<and> pxStopped q \<and> pxConnections q = [] \<and> getIds (pxNeighbors q) = [i] \<and>
    isLocalLocked (cmLocks (pxLocker q)) i (Some SERVICE_ID) \<and> px_stop (envHex env) (cm_locker env) q = q"
proof -
  have held: "isLocalLocked (cmLocks (lkLock (cm_locker env) (pxLocker pc) pd)) i (Some SERVICE_ID)"
    using px.held_lock [OF cm(1), of pd] cm(2) pc(3) by (auto simp: cm_held_def)
  show ?thesis using run pc held
    by (simp add: attempt_lookup_def px_section_defs drop_nth_def finish_task_def stop_finish_def Let_def nl_getAll_def nl_stop_def px_stop_def
        nl_add_def nl_find_def getIds_def)
qed

text \<open>A disconnect between the commit and the join leaves a neighbour that no connection stands for, and later disconnects do not remove it.\<close>

theorem disconnect_leaves_neighbor:
  assumes pc: "pxDefinition pc = Some d" "om_find (dfNodes d) i = Some pd" "peerId hx pd = i" "\<not> pxStopped pc" "pxConnections pc = []"
      "nlNodes (pxNeighbors pc) = []" "nlOwnId (pxNeighbors pc) \<noteq> i" "0 < nlLimit (pxNeighbors pc)"
    and run: "(q, ts) = foldl (px_interleave hx lk) (pc, []) [IAttempt i dir, IAnswer 0 True, ICommit 0, IDisconnected pd, IFinish 1, IJoin 0 net]"
  shows "ts = [] \<and> pxConnections q = [] \<and> getIds (pxNeighbors q) = [i] \<and> onNodeDisconnected hx lk pd q = q \<and> px_closeConnection lk i q = q"
  using run pc
  by (simp add: attempt_lookup_def px_section_defs drop_nth_def finish_task_def Let_def om_emplace_def om_contains_def om_erase_def
      nl_add_def nl_remove_def nl_find_def getIds_def onNodeDisconnected_def px_closeConnection_def om_find_def)


section \<open>Witnesses\<close>

definition px_peer :: "byte \<Rightarrow> PeerDescriptor" where
  "px_peer b = \<lparr>nodeid = [b], region = 0, ipaddress = 0, websocket = None\<rparr>"

definition px_default :: PeerDescriptor where
  "px_default = \<lparr>nodeid = [], region = 0, ipaddress = 0, websocket = None\<rparr>"

definition px_env :: cm_env where
  "px_env = \<lparr>envHex = ref_hex, envMd5 = \<lambda>_. [], envSerialize = \<lambda>_. [], envParse = \<lambda>_. None, envLocalPeerDescriptor = px_peer 255,
     envCreateConnection = \<lambda>pd. \<lparr>pendingId = 0, pendingPeer = pd\<rparr>\<rparr>"

text \<open>A network on which the second node refuses and every send fails.\<close>

definition px_demo_net :: px_net where
  "px_demo_net = \<lparr>netRequest = \<lambda>pd _. Answered (nodeid pd \<noteq> [2]), netSend = \<lambda>_. Some ''unreachable'', netJoinTime = \<lambda>_ _. 0, netRandom = \<lambda>_. 0\<rparr>"

definition px_demo_ops :: "px_op list" where
  "px_demo_ops = [PxStart, PxSetProxies px_demo_net [px_peer 1, px_peer 2, px_peer 3] None ''00'' None, PxDisconnected (px_peer 1)]"

definition px_demo :: "px_op list \<Rightarrow> conn_manager px_client" where
  "px_demo = px_run px_env reads_bound px_default ''s#0'' None 0 (cm_create False)"

lemma px_demo_ids:
  "nodeIdOf px_env (px_peer 1) = ''01''" "nodeIdOf px_env (px_peer 2) = ''02''" "nodeIdOf px_env (px_peer 3) = ''03''"
  "nodeIdOf px_env (px_peer 255) = ''ff''" "nodeIdOf px_env px_default = []"
  by (simp_all add: px_env_def px_peer_def px_default_def getNodeIdFromPeerDescriptor_def getDhtAddressFromRaw_def binaryStringToHex_def ref_hex_def hex_digit_def)

lemma px_demo_held: "cm_open env (cm_create b)" "cm_held (cm_create b) = {}"
  by (simp_all add: cm_open_def cm_inv_create) (simp_all add: cm_create_def cm_held_locks ls_create_def held_locks_def om_find_def)

lemma px_demo_user: "hexToBinaryString (envHex px_env) ''00'' = Inr [0]"
  by code_simp

lemma px_demo_ok: "run_ok px_env px_default (cm_create False) px_demo_ops"
  using px_demo_ids px_demo_held by (simp add: px_demo_ops_def nodes_ok_def cm_foreign_def) (simp add: px_env_def)

lemma px_demo_nodes: "nodes_ok (envHex px_env) (cm_foreign px_env) (nodeIdOf px_env px_default) [px_peer 1, px_peer 2, px_peer 3]"
  using px_demo_ok by (simp add: px_demo_ops_def)

lemma px_demo_empty: "\<not> pxStopped (px_demo [])" "pxConnections (px_demo []) = []"
  by (simp_all add: px_demo_def px_run_def px_create_def)

text \<open>The attempts on nodes 1 and 3 interleave, and node 1 refuses in the end.\<close>

definition px_apart_ops :: "px_op list" where
  "px_apart_ops = [PxSetProxies px_demo_net [px_peer 1, px_peer 3] None ''00'' (Some 0)]"

definition px_apart_events :: "px_event list" where
  "px_apart_events = [IAttempt ''01'' None, IAttempt ''03'' None, IAnswer 1 True, ICommit 1, IAnswer 0 False, IJoin 0 px_demo_net]"

lemma px_apart_demo:
  "px_apart_run (envHex px_env) (cm_locker px_env) (cm_foreign px_env) (nodeIdOf px_env px_default) (px_demo px_apart_ops, []) px_apart_events"
  by code_simp

lemma px_apart_end: "snd (foldl (px_interleave (envHex px_env) (cm_locker px_env)) (px_demo px_apart_ops, []) px_apart_events) = []"
  by code_simp

lemma px_apart_connected:
  "om_keys (pxConnections (fst (foldl (px_interleave (envHex px_env) (cm_locker px_env)) (px_demo px_apart_ops, []) px_apart_events))) = [''03'']"
  by code_simp

lemma px_apart_ok: "run_ok px_env px_default (cm_create False) px_apart_ops"
  using px_demo_ids px_demo_held by (simp add: px_apart_ops_def nodes_ok_def cm_foreign_def) (simp add: px_env_def)


theorem set_proxies_outcome_witness:
  "\<exists>q errors connected. setProxies (envHex px_env) (cm_locker px_env) px_demo_net [px_peer 1, px_peer 2, px_peer 3] None ''00'' (Some 2) (px_demo []) =
       Inr (q, errors, connected) \<and> connected = [px_peer 1] \<and> map errorPeer errors = [px_peer 2]"
proof -
  let ?d = "make_definition (envHex px_env) [px_peer 1, px_peer 2, px_peer 3] None ''00'' (Some 2)"
  have ok: "run_ok px_env px_default (cm_create False) []" using px_demo_held by simp
  have c: "n \<le> length [px_peer 1, px_peer 2, px_peer 3]" if "Some 2 = Some n" for n using that by simp
  have d: "dfNodes ?d = [(''01'', px_peer 1), (''02'', px_peer 2), (''03'', px_peer 3)]" "dfConnectionCount ?d = 2"
    by (simp_all add: make_definition_def px_demo_ids)
  then have t: "proxies_to_try ?d [] = [px_peer 1, px_peer 2]" by (simp add: proxies_to_try_def om_keys_def om_contains_def om_find_def numeral_2_eq_2)
  have "accepts (envHex px_env) px_demo_net None ''00'' (px_peer 1)" "\<not> accepts (envHex px_env) px_demo_net None ''00'' (px_peer 2)"
    by (simp_all add: accepts_def requestConnection_def px_demo_user px_demo_net_def px_peer_def)
  then have a: "filter (accepts (envHex px_env) px_demo_net None ''00'') [px_peer 1, px_peer 2] = [px_peer 1]"
    "filter (\<lambda>pd. \<not> accepts (envHex px_env) px_demo_net None ''00'' pd) [px_peer 1, px_peer 2] = [px_peer 2]" by simp_all
  have "\<exists>q errors connected. setProxies (envHex px_env) (cm_locker px_env) px_demo_net [px_peer 1, px_peer 2, px_peer 3] None ''00'' (Some 2) (px_demo []) =
       Inr (q, errors, connected) \<and>
     connected = filter (accepts (envHex px_env) px_demo_net None ''00'') (proxies_to_try ?d (filter (valid_connection ?d) (pxConnections (px_demo [])))) \<and>
     map errorPeer errors = filter (\<lambda>pd. \<not> accepts (envHex px_env) px_demo_net None ''00'' pd) (proxies_to_try ?d (filter (valid_connection ?d) (pxConnections (px_demo []))))"
    using set_proxies_outcome [OF ok refl px_demo_empty(1) [unfolded px_demo_def] px_demo_nodes c refl refl, where direction = None and userId = "''00''" and net = px_demo_net]
    unfolding px_demo_def by blast
  then show ?thesis unfolding px_demo_empty(2) filter.simps(1) t a .
qed

theorem broadcast_reports_success_witness:
  "\<exists>q failed sent. px_broadcast (envHex px_env) reads_bound px_demo_net (demo_message ''c'') None 0 (px_demo px_demo_ops) = (q, Inr (failed, sent)) \<and>
     failed = [] \<and> pxEmitted q = pxEmitted (px_demo px_demo_ops) @ [demo_message ''c'']"
  using broadcast_reports_success [OF refl, where env = px_env and sr = reads_bound and movedFrom = px_default and spid = "''s#0''" and minTargets = None
      and counter = 0 and cm = "cm_create False" and ops = px_demo_ops and net = px_demo_net and msg = "demo_message ''c''" and previousNode = None and now = 0]
  unfolding px_demo_def by auto

definition px_defined_client :: "conn_manager px_client" where
  "px_defined_client = (px_demo [])\<lparr>pxDefinition := Some (make_definition (envHex px_env) [px_peer 1] None ''00'' None)\<rparr>"

definition px_server :: proxy_server where
  "px_server = \<lparr>psConnections = [], psStreamPartId = ''s#0'', psNewConnections = [], psLeaveNotices = []\<rparr>"

definition px_server_net :: px_net where
  "px_server_net = px_demo_net\<lparr>netRequest := \<lambda>pd request.
     case serve_requestConnection (envHex px_env) request (Some (px_peer 255)) px_server of Inl e \<Rightarrow> RequestThrew e | Inr (_, answer) \<Rightarrow> Answered answer\<rparr>"

lemma px_defined_facts:
  "pxDefinition px_defined_client = Some (make_definition (envHex px_env) [px_peer 1] None ''00'' None)"
  "attempt_lookup px_defined_client ''01'' = Some (px_peer 1)" "\<not> pxStopped px_defined_client" "pxConnections px_defined_client = []"
  "pxLocal px_defined_client = px_peer 255" "nlNodes (pxNeighbors px_defined_client) = []" "nlOwnId (pxNeighbors px_defined_client) = []"
  "nlLimit (pxNeighbors px_defined_client) = 1000" "pxLocker px_defined_client = cm_create False"
  by (simp_all add: px_defined_client_def px_demo_def px_run_def px_create_def attempt_lookup_def make_definition_def px_demo_ids om_find_def nl_create_def)
    (simp add: px_env_def)

theorem proxy_connection_agreed_witness:
  "\<exists>q err. attemptConnection (envHex px_env) (cm_locker px_env) px_server_net ''01'' None ''00'' px_defined_client = (q, Some err) \<and> q = px_defined_client"
proof -
  have hx: "hex_laws (envHex px_env)" using ref.hex_laws_axioms by (simp add: px_env_def)
  have "case attemptConnection (envHex px_env) (cm_locker px_env) px_server_net ''01'' None ''00'' px_defined_client of
      (q, None) \<Rightarrow> False | (q, Some err) \<Rightarrow> q = px_defined_client"
    using proxy_connection_agreed [OF hx px_demo_user px_defined_facts(2,3), where ps = px_server and net = px_server_net and lk = "cm_locker px_env" and direction = None] px_defined_facts(4,5)
    by (simp add: px_server_def px_server_net_def om_contains_def split: option.splits prod.splits)
  then show ?thesis by (auto split: prod.splits option.splits)
qed

theorem stopped_client_stays_empty_witness:
  "pxConnections (fst (foldl (px_interleave ref_hex (cm_locker px_env))
     (foldl (px_interleave ref_hex (cm_locker px_env)) (px_create ref_hex px_default (px_peer 255) ''s#0'' None 0 (cm_create False), []) [IStop]) [IFinish 0])) = []"
proof -
  have "pxStopped (fst (foldl (px_interleave ref_hex (cm_locker px_env)) (px_create ref_hex px_default (px_peer 255) ''s#0'' None 0 (cm_create False), []) [IStop]))"
    by (simp add: px_create_def stop_begin_def)
  from stopped_client_stays_empty [OF refl this] show ?thesis by blast
qed

theorem stop_leaks_lock_witness:
  "\<exists>q ts. (q, ts) = foldl (px_interleave (envHex px_env) (cm_locker px_env)) (px_defined_client, [])
      [IAttempt ''01'' None, IAnswer 0 True, ICommit 0, IStop, IFinish 1, IJoin 0 px_demo_net] \<and>
     pxStopped q \<and> isLocalLocked (cmLocks (pxLocker q)) ''01'' (Some SERVICE_ID)"
proof -
  obtain q ts where run: "(q, ts) = foldl (px_interleave (envHex px_env) (cm_locker px_env)) (px_defined_client, [])
      [IAttempt ''01'' None, IAnswer 0 True, ICommit 0, IStop, IFinish 1, IJoin 0 px_demo_net]" by (metis prod.exhaust)
  have "om_find (dfNodes (make_definition (envHex px_env) [px_peer 1] None ''00'' None)) ''01'' = Some (px_peer 1)"
    using px_defined_facts(1,2) by (simp add: attempt_lookup_def)
  moreover have "cm_foreign px_env ''01''" using px_demo_ids by (simp add: cm_foreign_def) (simp add: px_env_def)
  ultimately show ?thesis
    using stop_leaks_lock [OF px_defined_facts(1) _ px_demo_ids(1) px_defined_facts(3,6) _ _ _ _ run] px_defined_facts(7,8,9) px_demo_held(1) run by auto
qed

end
