(* ===== verification/Publisher_Examples.thy ===== *)
theory Publisher_Examples
  imports Cpp_Wrappers_Correct
begin

text \<open>
  The two publisher programs that are built against the library, as whole programs: \<^verbatim>\<open>examples/unix-c/publisherexample.c\<close> over the C API and
  \<^verbatim>\<open>examples/unix-cpp/publisherexample.cpp\<close> over the C++ wrapper.  The flag \<open>asserts\<close> says whether they are compiled with assertions (without
  \<^verbatim>\<open>NDEBUG\<close>); what the network does is a parameter, as it is of the C API.
\<close>

section \<open>Ends of a program\<close>

datatype program_end = Exits int | AssertionFailed | Terminated cpp_error | TerminatedBy wrapper_exn

text \<open>What a program has written to the standard output and the standard error, how it ended, the library it left and all effects of the library.\<close>

record program =
  prOut :: "string list"
  prErr :: "string list"
  prEnd :: program_end
  prLibrary :: library
  prTrace :: "api_effect list"

definition ends :: "string list \<Rightarrow> string list \<Rightarrow> program_end \<Rightarrow> library \<Rightarrow> program" where
  "ends out err e g = \<lparr>prOut = out, prErr = err, prEnd = e, prLibrary = g, prTrace = apiLog (getProxyClientApi g)\<rparr>"

section \<open>The constants of the programs\<close>

definition ownEthereumAddress :: string where
  "ownEthereumAddress = ''0xa5374e3c19f15e1847881979dd0c6c9ffe846bd5''"

definition ethereumPrivateKey :: string where
  "ethereumPrivateKey = ''23bead9b499af21c4c16e4511b3b6b08c3e22e76e0591f5ab5ba8d4c3a5b1820''"

definition proxyUrl :: string where
  "proxyUrl = ''ws://95.216.15.80:44211''"

definition proxyServerEthereumAddress :: string where
  "proxyServerEthereumAddress = ''0xd0d14b38d1f6b59d3772a63d84ece0a79e6e1c1f''"

definition streamPartId :: string where
  "streamPartId = ''0xd2078dc2d780029473a39ce873fc182587be69db/low-level-client#0''"

definition c_message :: string where
  "c_message = ''Hello from libstreamrproxyclient!''"

definition cpp_message :: string where
  "cpp_message = ''Hello from libstreamrproxyclient C++!''"

definition published_line :: "string \<Rightarrow> string \<Rightarrow> string" where
  "published_line message count =
     ownEthereumAddress @ '' published message '' @ [CHR 0x22] @ message @ [CHR 0x22] @ '' to '' @ count @ '' proxies'' @ [CHR 0x0A]"

section \<open>The program in C\<close>

text \<open>The step after each call: the assertion that there are no errors, and the deletion of the result.\<close>

definition assert_no_errors ::
  "bool \<Rightarrow> string list \<Rightarrow> library \<Rightarrow> cpp_error + (library \<times> nat \<times> 'v) \<Rightarrow> (library \<Rightarrow> 'v \<Rightarrow> program) \<Rightarrow> program" where
  "assert_no_errors asserts out g x k =
     (case x of
        Inl e \<Rightarrow> ends out [] (Terminated e) (Some (getProxyClientApi g))
      | Inr (g1, r, v) \<Rightarrow>
          (case lib_result g1 r of
             None \<Rightarrow> ends out [] (Terminated UndefinedBehaviour) g1
           | Some R \<Rightarrow>
               (if asserts \<and> r_numErrors (proxyResult R) \<noteq> 0 then ends out [] AssertionFailed g1
                else k (c_proxyClientResultDelete g1 r) v)))"

text \<open>The end of the program, from the deletion of the client on; the publishing; the program.\<close>

definition publisher_c_end :: "bool \<Rightarrow> api_env \<Rightarrow> 64 word \<Rightarrow> string list \<Rightarrow> library \<Rightarrow> program" where
  "publisher_c_end asserts env clientHandle out g =
     assert_no_errors asserts out g (c_proxyClientDelete env clientHandle g)
       (\<lambda>g1 _. case proxyClientCleanupLibrary g1 of
          (g2, es) \<Rightarrow> \<lparr>prOut = out, prErr = [], prEnd = Exits 0, prLibrary = g2, prTrace = apiLog (getProxyClientApi g1) @ es\<rparr>)"

definition publisher_c_publish ::
  "bool \<Rightarrow> api_env \<Rightarrow> int \<Rightarrow> (ApiMessage \<Rightarrow> cpp_error + (PeerDescriptor list \<times> PeerDescriptor list)) \<Rightarrow> 64 word \<Rightarrow> library \<Rightarrow> program" where
  "publisher_c_publish asserts env now broadcast clientHandle g =
     (let out = [''Publishing message'' @ [CHR 0x0A]]
      in assert_no_errors asserts out g (c_proxyClientPublish env now broadcast clientHandle c_message (Some ethereumPrivateKey) g)
           (\<lambda>g1 numProxiesPublishedTo.
              publisher_c_end asserts env clientHandle
                (out @ [published_line c_message (nat_to_string (unat numProxiesPublishedTo))]) g1))"

definition publisher_c ::
  "bool \<Rightarrow> api_env \<Rightarrow> 64 word \<Rightarrow> (PeerDescriptor list \<Rightarrow> cpp_error + connect_outcome) \<Rightarrow> int \<Rightarrow>
     (ApiMessage \<Rightarrow> cpp_error + (PeerDescriptor list \<times> PeerDescriptor list)) \<Rightarrow> library \<Rightarrow> program" where
  "publisher_c asserts env rnd net now broadcast g =
     (let g0 = proxyClientInitLibrary g
      in assert_no_errors asserts [] g0 (c_proxyClientNew env rnd ownEthereumAddress streamPartId g0)
          (\<lambda>g1 clientHandle.
             assert_no_errors asserts [] g1 (c_proxyClientConnect env net clientHandle [(proxyServerEthereumAddress, proxyUrl)] g1)
               (\<lambda>g2 _. publisher_c_publish asserts env now broadcast clientHandle g2)))"

section \<open>The program in C++\<close>

text \<open>
  The \<^verbatim>\<open>try\<close> block: its client is destroyed when the block is left, by the end of the block or by an exception that \<^verbatim>\<open>main\<close> catches.  An
  exception that nothing catches terminates the program; a failed assertion aborts it.
\<close>

definition client_gone :: "api_env \<Rightarrow> StreamrProxyClient \<Rightarrow> string list \<Rightarrow> string list \<Rightarrow> int \<Rightarrow> library \<Rightarrow> program" where
  "client_gone env client out err status g =
     (case StreamrProxyClient_destroy env client g of
        (g1, Inl e) \<Rightarrow> ends out err (TerminatedBy e) g1
      | (g1, Inr _) \<Rightarrow> ends out err (Exits status) g1)"

definition error_line :: "StreamrProxyError \<Rightarrow> string" where
  "error_line e = ''Error: '' @ spe_message e @ [CHR 0x0A]"

text \<open>A call of the client in the block.\<close>

definition in_block ::
  "bool \<Rightarrow> api_env \<Rightarrow> StreamrProxyClient \<Rightarrow> StreamrProxyResult outcome \<Rightarrow> (library \<Rightarrow> StreamrProxyResult \<Rightarrow> program) \<Rightarrow> program" where
  "in_block asserts env client x k =
     (case x of
        (g, Inl (ProxyExn e)) \<Rightarrow> client_gone env client [] [error_line e] 1 g
      | (g, Inl e) \<Rightarrow> ends [] [] (TerminatedBy e) g
      | (g, Inr res) \<Rightarrow> (if asserts \<and> spr_errors res \<noteq> [] then ends [] [] AssertionFailed g else k g res))"

definition publisher_cpp ::
  "bool \<Rightarrow> api_env \<Rightarrow> 64 word \<Rightarrow> (PeerDescriptor list \<Rightarrow> cpp_error + connect_outcome) \<Rightarrow> int \<Rightarrow>
     (ApiMessage \<Rightarrow> cpp_error + (PeerDescriptor list \<times> PeerDescriptor list)) \<Rightarrow> library \<Rightarrow> program" where
  "publisher_cpp asserts env rnd net now broadcast g =
     (case StreamrProxyClient_new env rnd ownEthereumAddress ethereumPrivateKey streamPartId g of
        (g1, Inl (ProxyExn e)) \<Rightarrow> ends [] [error_line e] (Exits 1) g1
      | (g1, Inl e) \<Rightarrow> ends [] [] (TerminatedBy e) g1
      | (g1, Inr client) \<Rightarrow>
          in_block asserts env client
            (spc_connect env net client [\<lparr>spa_websocketUrl = proxyUrl, spa_ethereumAddress = proxyServerEthereumAddress\<rparr>] g1)
            (\<lambda>g2 connectResult.
               in_block asserts env client (spc_publish env now broadcast client cpp_message g2)
                 (\<lambda>g3 publishResult.
                    client_gone env client [published_line cpp_message (nat_to_string (length (spr_successful publishResult)))] [] 0 g3)))"

section \<open>What each call makes of the library\<close>

text \<open>A library with one client, whose results are all freed.\<close>

definition one_client :: "64 word \<Rightarrow> PeerDescriptor \<Rightarrow> 32 word \<Rightarrow> api" where
  "one_client h pd sq =
     \<lparr>apiClients = [(h, \<lparr>pcLocalPeer = pd, pcStreamPartId = streamPartId, pcSequenceNumber = sq\<rparr>)], apiResults = [], apiNodes = [],
      apiLog = [ClientStart h]\<rparr>"

definition client_stopped :: "64 word \<Rightarrow> api" where
  "client_stopped h = \<lparr>apiClients = [], apiResults = [], apiNodes = [], apiLog = [ClientStart h, ClientStop h]\<rparr>"

text \<open>The descriptor of the client of the programs, and that of its proxy.\<close>

definition publisher_peer :: "api_env \<Rightarrow> PeerDescriptor \<Rightarrow> bool" where
  "publisher_peer env pd \<longleftrightarrow>
     createLocalPeerDescriptor env ownEthereumAddress = Inr pd \<and> hex_lower (envHex env) (nodeid pd) = drop 2 ownEthereumAddress"

lemma constants_parse:
  "toEthereumAddress ownEthereumAddress = Inr ownEthereumAddress" "toEthereumAddress proxyServerEthereumAddress = Inr proxyServerEthereumAddress"
  "map to_lower (drop 2 ownEthereumAddress) = drop 2 ownEthereumAddress"
  "take 2 (drop 2 ownEthereumAddress) \<noteq> ''0x''" "''0x'' @ drop 2 ownEthereumAddress = ownEthereumAddress"
  "list_all is_hex ethereumPrivateKey" "length ethereumPrivateKey = 64" "take 2 ethereumPrivateKey \<noteq> ''0x''"
  by code_simp+

lemma stream_owner: "toEthereumAddressOrENSName ''0xd2078dc2d780029473a39ce873fc182587be69db'' = Inr ''0xd2078dc2d780029473a39ce873fc182587be69db''"
  by code_simp

lemma part_parses:
  "sp_parse streamPartId = Inr streamPartId"
  "parseRawElements streamPartId = Inr (''0xd2078dc2d780029473a39ce873fc182587be69db/low-level-client'', Some 0)"
  by (simp_all add: sp_eval streamPartId_def stream_owner ensureValidStreamPartitionIndex_def)

lemma constants_c_str:
  "c_str ownEthereumAddress = ownEthereumAddress" "c_str ethereumPrivateKey = ethereumPrivateKey" "c_str proxyUrl = proxyUrl"
  "c_str proxyServerEthereumAddress = proxyServerEthereumAddress" "c_str streamPartId = streamPartId"
  by code_simp+

lemma publisher_peer_exists: "hex_contract env \<Longrightarrow> \<exists>pd. publisher_peer env pd"
  using local_descriptor [OF _ constants_parse(1)] constants_parse(3) by (auto simp: publisher_peer_def)

lemma proxy_parses:
  assumes "hex_contract env" "url_contract env" "envUrl env proxyUrl = Some url"
  shows "\<exists>pd. parse_peers env c [(proxyServerEthereumAddress, proxyUrl)] = Inr [pd]"
proof -
  obtain bs where "hexToBinaryString (envHex env) proxyServerEthereumAddress = Inr bs"
    using address_bytes(2) [OF assms(1) constants_parse(2)] by blast
  moreover have "has_port url \<Longrightarrow> \<exists>n. stoul (get_port url) = Inr n" using assms(2,3) unfolding url_contract_def by blast
  ultimately show ?thesis using assms(3) by (auto simp: createProxyPeerDescriptor_def constants_parse(2) Let_def split: if_splits)
qed

lemma message_builds:
  assumes "hex_contract env" "publisher_peer env pd"
  shows "\<exists>m. createStreamMessage env now \<lparr>pcLocalPeer = pd, pcStreamPartId = streamPartId, pcSequenceNumber = sq\<rparr> d (Some ethereumPrivateKey) =
    (\<lparr>pcLocalPeer = pd, pcStreamPartId = streamPartId, pcSequenceNumber = sq + 1\<rparr>, Inr m)"
proof -
  have loc: "getLocalEthereumAddress env \<lparr>pcLocalPeer = pd, pcStreamPartId = streamPartId, pcSequenceNumber = sq\<rparr> = drop 2 ownEthereumAddress"
    using assms(2) by (simp add: publisher_peer_def getLocalEthereumAddress_def getNodeIdFromPeerDescriptor_def getDhtAddressFromRaw_def binaryStringToHex_def)
  obtain pub where pub: "hexToBinaryString (envHex env) ownEthereumAddress = Inr pub"
    using address_bytes(2) [OF assms(1) constants_parse(1)] by blast
  obtain key where key: "hexToBinaryString (envHex env) ethereumPrivateKey = Inr key"
  proof -
    obtain bs where "unhex (envHex env) ethereumPrivateKey = Some bs" "length ethereumPrivateKey = length bs * 2"
      using assms(1) constants_parse(6,7) unfolding hex_contract_def by (metis even_numeral)
    then show ?thesis using that constants_parse(8) by (simp add: hexToBinaryString_def Let_def)
  qed
  have "\<exists>m. buildStreamMessage env now (drop 2 ownEthereumAddress) streamPartId sq d (Some ethereumPrivateKey) = Inr m"
    by (rule build_returns [OF _ part_parses(2) key, of _ pub]) (use constants_parse(4,5) pub in simp)
  then show ?thesis by (auto simp: createStreamMessage_def loc)
qed

text \<open>Each call as one step of the library: the result holds the errors \<open>es\<close>; when it is deleted the library is \<open>b\<close> again.\<close>

definition results_in :: "api_env \<Rightarrow> cpp_error + (library \<times> nat \<times> 'v) \<Rightarrow> api \<Rightarrow> ErrorCpp list \<Rightarrow> ProxyCpp list \<Rightarrow> 'v \<Rightarrow> bool" where
  "results_in env x b es ps v \<longleftrightarrow> apiResults b = [] \<and> (\<exists>a' r. addResult env b es ps = (a', r) \<and> x = Inr (Some a', r, v))"

lemma new_step:
  assumes "publisher_peer env pd"
  shows "results_in env (c_proxyClientNew env rnd ownEthereumAddress streamPartId (Some api_new)) (one_client rnd pd 1) [] [] rnd"
  using assms by (auto simp: results_in_def c_proxyClientNew_def c_call_def proxyClientNew_def constants_parse part_parses publisher_peer_def succeed_with_def
      put_client_def log_effect_def api_new_def om_contains_def one_client_def Let_def split: prod.splits)

lemma connect_step:
  assumes "parse_peers env ERROR_INVALID_PROXY_URL ps = Inr pds" "ps \<noteq> []" "net pds = Inr (errs, oks)"
  shows "results_in env (c_proxyClientConnect env net h ps (Some (one_client h pd sq))) (one_client h pd sq)
    (map (connection_error env) errs) (map (reported_proxy env) oks) (of_nat (length oks))"
  using assms by (auto simp: results_in_def c_proxyClientConnect_def c_call_def proxyClientConnect_def one_client_def om_find_def split: prod.splits)

lemma publish_step:
  assumes "hex_contract env" "publisher_peer env pd"
  shows "results_in env (c_proxyClientPublish env now (\<lambda>_. Inr (failed, sent)) h d (Some ethereumPrivateKey) (Some (one_client h pd sq))) (one_client h pd (sq + 1))
    (map (broadcast_error env) failed) (map (reported_proxy env) sent) (of_nat (length sent))"
proof -
  obtain m where "createStreamMessage env now \<lparr>pcLocalPeer = pd, pcStreamPartId = streamPartId, pcSequenceNumber = sq\<rparr> d (Some ethereumPrivateKey) =
      (\<lparr>pcLocalPeer = pd, pcStreamPartId = streamPartId, pcSequenceNumber = sq + 1\<rparr>, Inr m)"
    using message_builds [OF assms(1,2)] by blast
  then show ?thesis 
    by (auto simp: results_in_def c_proxyClientPublish_def c_call_def proxyClientPublish_def one_client_def om_find_def split: prod.splits)
qed

lemma delete_step:
  "results_in env (c_proxyClientDelete env h (Some (one_client h pd sq))) (client_stopped h) [] [] ()"
  by (auto simp: results_in_def c_proxyClientDelete_def c_call_def proxyClientDelete_def one_client_def om_contains_def log_effect_def om_erase_def
      client_stopped_def succeed_with_def Let_def split: prod.splits)

lemma results_freed:
  assumes "results_in env (Inr (g, r, v)) b es ps w"
  shows "g \<noteq> None" "v = w" "lib_result g r = Some (ProxyResultCpp_new [r] es ps)" "streamrResultDelete g r = Some b"
  using assms
  by (auto simp: results_in_def addResult_def lib_result_def om_find_def streamrResultDelete_def proxyClientResultDelete_def om_erase_put om_erase_def Let_def)

lemma results_in_Inr: "results_in env x b es ps v \<Longrightarrow> \<exists>g r. x = Inr (g, r, v)"
  by (auto simp: results_in_def)

definition aborted :: "string list \<Rightarrow> api_effect list \<Rightarrow> program \<Rightarrow> bool" where
  "aborted out es p \<longleftrightarrow> prEnd p = AssertionFailed \<and> prOut p = out \<and> prErr p = [] \<and> prTrace p = es"

lemma assert_step:
  assumes "results_in env x b es ps v"
  shows "if asserts \<and> es \<noteq> [] then aborted out (apiLog b) (assert_no_errors asserts out g x k)
    else assert_no_errors asserts out g x k = k (Some b) v"
proof -
  obtain g' r where x: "x = Inr (g', r, v)" using results_in_Inr [OF assms] by blast
  note freed = results_freed [OF assms [unfolded x]]
  have "apiLog (getProxyClientApi g') = apiLog b" using assms x by (auto simp: results_in_def addResult_def Let_def)
  then show ?thesis using freed
    by (auto simp: assert_no_errors_def x c_proxyClientResultDelete_def result_parts(3) aborted_def ends_def)
qed

lemma publisher_c_ends:
  "publisher_c_end asserts env h out (Some (one_client h pd sq)) =
    \<lparr>prOut = out, prErr = [], prEnd = Exits 0, prLibrary = None, prTrace = [ClientStart h, ClientStop h]\<rparr>"
  using assert_step [OF delete_step [of env h pd sq], of asserts out "Some (one_client h pd sq)"]
  by (simp add: publisher_c_end_def proxyClientCleanupLibrary_def streamrCleanupLibrary_def client_stopped_def om_keys_def)

lemma publisher_c_publishes:
  assumes "hex_contract env" "publisher_peer env pd"
  shows "if asserts \<and> failed \<noteq> []
    then aborted [''Publishing message'' @ [CHR 0x0A]] [ClientStart h] (publisher_c_publish asserts env now (\<lambda>_. Inr (failed, sent)) h (Some (one_client h pd sq)))
    else publisher_c_publish asserts env now (\<lambda>_. Inr (failed, sent)) h (Some (one_client h pd sq)) =
      \<lparr>prOut = [''Publishing message'' @ [CHR 0x0A], published_line c_message (nat_to_string (unat (of_nat (length sent) :: 64 word)))],
       prErr = [], prEnd = Exits 0, prLibrary = None, prTrace = [ClientStart h, ClientStop h]\<rparr>"
proof -
  have log: "apiLog (one_client h pd (sq + 1)) = [ClientStart h]" by (simp add: one_client_def)
  show ?thesis unfolding publisher_c_publish_def Let_def
    using assert_step [OF publish_step [OF assms, of now failed sent h c_message sq], of asserts "[''Publishing message'' @ [CHR 0x0A]]" "Some (one_client h pd sq)"
        "\<lambda>g1 n. publisher_c_end asserts env h ([''Publishing message'' @ [CHR 0x0A]] @ [published_line c_message (nat_to_string (unat n))]) g1"]
    by (auto simp: log publisher_c_ends split: if_splits)
qed

text \<open>
  C20. The program in C publishes one message.  With assertions it runs to its end exactly when the proxy accepts the connection and the message; it
  then reports the number of proxies reached, and its client has been started and stopped, and the library cleaned up.  Without assertions it
  does the same whatever the network answers, and reports success of the failed publish.
\<close>

theorem publisher_c_outcome:
  assumes "hex_contract env" "url_contract env" "envUrl env proxyUrl \<noteq> None" "g = None \<or> g = Some api_new"
  shows "if asserts \<and> errs \<noteq> [] then aborted [] [ClientStart rnd] (publisher_c asserts env rnd (\<lambda>_. Inr (errs, oks)) now (\<lambda>_. Inr (failed, sent)) g)
    else if asserts \<and> failed \<noteq> []
    then aborted [''Publishing message'' @ [CHR 0x0A]] [ClientStart rnd] (publisher_c asserts env rnd (\<lambda>_. Inr (errs, oks)) now (\<lambda>_. Inr (failed, sent)) g)
    else publisher_c asserts env rnd (\<lambda>_. Inr (errs, oks)) now (\<lambda>_. Inr (failed, sent)) g =
      \<lparr>prOut = [''Publishing message'' @ [CHR 0x0A], published_line c_message (nat_to_string (unat (of_nat (length sent) :: 64 word)))],
       prErr = [], prEnd = Exits 0, prLibrary = None, prTrace = [ClientStart rnd, ClientStop rnd]\<rparr>"
proof -
  obtain pd where pd: "publisher_peer env pd" using publisher_peer_exists [OF assms(1)] by blast
  obtain url where "envUrl env proxyUrl = Some url" using assms(3) by blast
  then obtain ppd where ppd: "parse_peers env ERROR_INVALID_PROXY_URL [(proxyServerEthereumAddress, proxyUrl)] = Inr [ppd]"
    using proxy_parses [OF assms(1,2)] by blast
  have g: "proxyClientInitLibrary g = Some api_new" using assms(4) by (auto simp: proxyClientInitLibrary_def streamrInitLibrary_def)
  let ?tail = "\<lambda>h g2 (_ :: 64 word). publisher_c_publish asserts env now (\<lambda>_. Inr (failed, sent)) h g2"
  have "publisher_c asserts env rnd (\<lambda>_. Inr (errs, oks)) now (\<lambda>_. Inr (failed, sent)) g = assert_no_errors asserts [] (Some (one_client rnd pd 1))
      (c_proxyClientConnect env (\<lambda>_. Inr (errs, oks)) rnd [(proxyServerEthereumAddress, proxyUrl)] (Some (one_client rnd pd 1))) (?tail rnd)"
    unfolding publisher_c_def g Let_def using assert_step [OF new_step [OF pd, of rnd], of asserts "[]" "Some api_new"] by simp
  moreover have "apiLog (one_client rnd pd 1) = [ClientStart rnd]" by (simp add: one_client_def)
  moreover note assert_step [OF connect_step [OF ppd, of "\<lambda>_. Inr (errs, oks)" errs oks rnd pd 1], of asserts "[]" "Some (one_client rnd pd 1)" "?tail rnd"]
    publisher_c_publishes [OF assms(1) pd, of asserts failed rnd now sent 1]
  ultimately show ?thesis by (auto split: if_splits)
qed

section \<open>The C++ wrapper in the programs\<close>

lemma results_handed: "results_in env (Inr (g, r, v)) b es ps w \<Longrightarrow> hands_out (Some b) g r es ps"
  by (auto simp: results_in_def hands_out_def registry_def addResult_def Let_def om_find_def)

lemma wrapper_takes:
  assumes "results_in env x b es ps v"
  shows "take_result g x = (Some b, Inr \<lparr>spr_successful = map (fromCProxy \<circ> proxy_value) ps, spr_errors = map (StreamrProxyError_of \<circ> error_value_of) es\<rparr>)"
proof -
  obtain g' r where x: "x = Inr (g', r, v)" using results_in_Inr [OF assms] by blast
  show ?thesis using hands_out_reads(1) [OF results_handed [OF assms [unfolded x]]] results_freed(4) [OF assms [unfolded x]]
    by (simp add: take_result_def x)
qed

lemma wrapper_new:
  assumes "publisher_peer env pd" "getProxyClientApi g = api_new"
  shows "StreamrProxyClient_new env rnd ownEthereumAddress ethereumPrivateKey streamPartId g =
    (Some (one_client rnd pd 1), Inr \<lparr>proxyClientHandle = rnd, spcEthereumPrivateKey = ethereumPrivateKey\<rparr>)"
proof -
  have same: "c_proxyClientNew env rnd ownEthereumAddress streamPartId g = c_proxyClientNew env rnd ownEthereumAddress streamPartId (Some api_new)"
    using assms(2) by (simp add: c_proxyClientNew_def c_call_def)
  obtain g' r where x: "c_proxyClientNew env rnd ownEthereumAddress streamPartId (Some api_new) = Inr (g', r, rnd)"
    using results_in_Inr [OF new_step [OF assms(1)]] by blast
  note step = new_step [OF assms(1), of rnd, unfolded x]
  show ?thesis using hands_out_reads(2) [OF results_handed [OF step]] results_freed(4) [OF step]
    by (simp add: StreamrProxyClient_new_def constants_c_str same x)
qed

lemma wrapper_destroyed:
  "StreamrProxyClient_destroy env \<lparr>proxyClientHandle = h, spcEthereumPrivateKey = k\<rparr> (Some (one_client h pd sq)) =
    (Some (if h = 0 then one_client h pd sq else client_stopped h), Inr ())"
proof -
  obtain g' r where x: "c_proxyClientDelete env h (Some (one_client h pd sq)) = Inr (g', r, ())"
    using results_in_Inr [OF delete_step] by blast
  show ?thesis using results_freed(4) [OF delete_step [of env h pd sq, unfolded x]] by (simp add: StreamrProxyClient_destroy_def x)
qed

text \<open>
  The program in C++ does the same: with assertions it ends well exactly when the proxy accepts the connection and the message.  Its client is
  stopped, unless the random handle is zero; the library is never cleaned up, because the static object that would do so is declared and nowhere
  defined.
\<close>

theorem publisher_cpp_outcome:
  assumes "hex_contract env" "url_contract env" "envUrl env proxyUrl \<noteq> None" "g = None \<or> g = Some api_new"
    and p: "p = publisher_cpp asserts env rnd (\<lambda>_. Inr (errs, oks)) now (\<lambda>_. Inr (failed, sent)) g"
  shows "if asserts \<and> (errs \<noteq> [] \<or> failed \<noteq> []) then aborted [] [ClientStart rnd] p
    else prOut p = [published_line cpp_message (nat_to_string (length sent))] \<and> prErr p = [] \<and> prEnd p = Exits 0 \<and> prLibrary p \<noteq> None \<and>
      prTrace p = (if rnd = 0 then [ClientStart rnd] else [ClientStart rnd, ClientStop rnd])"
proof -
  obtain pd where pd: "publisher_peer env pd" using publisher_peer_exists [OF assms(1)] by blast
  obtain url where "envUrl env proxyUrl = Some url" using assms(3) by blast
  then obtain ppd where ppd: "parse_peers env ERROR_INVALID_PROXY_URL [(proxyServerEthereumAddress, proxyUrl)] = Inr [ppd]"
    using proxy_parses [OF assms(1,2)] by blast
  have g: "getProxyClientApi g = api_new" using assms(4) by (auto simp: getProxyClientApi_def streamrInitLibrary_def)
  let ?client = "\<lparr>proxyClientHandle = rnd, spcEthereumPrivateKey = ethereumPrivateKey\<rparr>"
  have conn: "spc_connect env (\<lambda>_. Inr (errs, oks)) ?client [\<lparr>spa_websocketUrl = proxyUrl, spa_ethereumAddress = proxyServerEthereumAddress\<rparr>] (Some (one_client rnd pd 1)) =
      (Some (one_client rnd pd 1), Inr \<lparr>spr_successful = map (fromCProxy \<circ> proxy_value) (map (reported_proxy env) oks),
         spr_errors = map (StreamrProxyError_of \<circ> error_value_of) (map (connection_error env) errs)\<rparr>)"
    using wrapper_takes [OF connect_step [OF ppd, of "\<lambda>_. Inr (errs, oks)" errs oks rnd pd 1]] by (simp add: spc_connect_def toCProxy_def constants_c_str)
  have pub: "spc_publish env now (\<lambda>_. Inr (failed, sent)) ?client cpp_message (Some (one_client rnd pd 1)) =
      (Some (one_client rnd pd (1 + 1)), Inr \<lparr>spr_successful = map (fromCProxy \<circ> proxy_value) (map (reported_proxy env) sent),
         spr_errors = map (StreamrProxyError_of \<circ> error_value_of) (map (broadcast_error env) failed)\<rparr>)"
    using wrapper_takes [OF publish_step [OF assms(1) pd, of now failed sent rnd cpp_message 1]] by (simp add: spc_publish_def constants_c_str)
  have logs: "apiLog (one_client h pd sq) = [ClientStart h]" "apiLog (client_stopped h) = [ClientStart h, ClientStop h]" for h sq
    by (simp_all add: one_client_def client_stopped_def)
  show ?thesis
    using wrapper_new [OF pd g, of rnd] wrapper_destroyed [of env rnd ethereumPrivateKey pd "1 + 1"]
    by (auto simp: p publisher_cpp_def in_block_def conn pub client_gone_def ends_def aborted_def logs)
qed

section \<open>Witnesses\<close>

text \<open>The reference environment, with a parser that knows the URL of the programs.\<close>

lemma ref_publisher: "hex_contract ref_env" "url_contract ref_env" "envUrl ref_env proxyUrl \<noteq> None"
  by (rule ref_hex_contract, rule ref_url) (simp add: ref_env_def ref_url_def proxyUrl_def)

theorem publisher_c_outcome_witness:
  "publisher_c True ref_env 7 (\<lambda>_. Inr ([], [demo_pd])) 0 (\<lambda>_. Inr ([], [demo_pd])) None =
     \<lparr>prOut = [''Publishing message'' @ [CHR 0x0A], published_line c_message (nat_to_string 1)],
      prErr = [], prEnd = Exits 0, prLibrary = None, prTrace = [ClientStart 7, ClientStop 7]\<rparr>"
  using publisher_c_outcome [OF ref_publisher, where g = None and asserts = True and errs = "[]" and failed = "[]" and rnd = 7 and oks = "[demo_pd]"
      and now = 0 and sent = "[demo_pd]"] by simp

theorem publisher_cpp_outcome_witness:
  "aborted [] [ClientStart 7] (publisher_cpp True ref_env 7 (\<lambda>_. Inr ([(demo_pd, None)], [])) 0 (\<lambda>_. Inr ([], [])) None)"
  using publisher_cpp_outcome [OF ref_publisher _ refl, where g = None and asserts = True and errs = "[(demo_pd, None)]" and failed = "[]" and rnd = 7
      and oks = "[]" and now = 0 and sent = "[]"] by simp

end
