(* ===== verification/Location_Share.thy ===== *)
theory Location_Share
  imports Prelude
begin

text \<open>
  The native part of the Android example, \<^verbatim>\<open>ProxyClient.cpp\<close> of \<^verbatim>\<open>examples/android/LocationShare\<close>.  It is written against an older API
  (errors through \<^verbatim>\<open>Error**\<close> and a count), whose implementation is not in the repository: the library is a parameter, which is given the
  pointers of a call and the memory they point into.  Java strings are their modified UTF-8 bytes, which hold no NUL; \<open>None\<close> is a null
  reference.  The buffers that \<^verbatim>\<open>GetStringUTFChars\<close> makes live until they are released; their addresses are chosen by a parameter, and
  making one is taken not to fail.
\<close>

section \<open>The memory of the native code\<close>

record native =
  naBuffers :: "(nat \<times> string) list"
  naErrors :: "nat list"
  naLog :: "string list"

definition read_chars :: "native \<Rightarrow> nat \<Rightarrow> string option" where
  "read_chars m p = map_of (naBuffers m) p"

definition getStringUTFChars :: "(nat list \<Rightarrow> nat) \<Rightarrow> string option \<Rightarrow> native \<Rightarrow> cpp_error + (nat \<times> native)" where
  "getStringUTFChars alloc js m =
     (case js of
        None \<Rightarrow> Inl UndefinedBehaviour
      | Some s \<Rightarrow> (let p = alloc (map fst (naBuffers m)) in Inr (p, m\<lparr>naBuffers := (p, s) # naBuffers m\<rparr>)))"

definition releaseStringUTFChars :: "nat \<Rightarrow> native \<Rightarrow> native" where
  "releaseStringUTFChars p m = m\<lparr>naBuffers := filter (\<lambda>(q, _). q \<noteq> p) (naBuffers m)\<rparr>"

text \<open>The library: every call returns the number of errors it has put into an array that the caller must free.\<close>

record 'l proxy_library =
  plNew :: "(nat \<Rightarrow> string option) \<Rightarrow> nat \<Rightarrow> nat \<Rightarrow> 'l \<Rightarrow> 'l \<times> nat \<times> 64 word"
  plDelete :: "64 word \<Rightarrow> 'l \<Rightarrow> 'l \<times> nat"
  plConnect :: "(nat \<Rightarrow> string option) \<Rightarrow> 64 word \<Rightarrow> (nat \<times> nat) list \<Rightarrow> 'l \<Rightarrow> 'l \<times> nat \<times> 64 word"
  plPublish :: "(nat \<Rightarrow> string option) \<Rightarrow> 64 word \<Rightarrow> nat \<Rightarrow> nat \<Rightarrow> nat \<Rightarrow> 'l \<Rightarrow> 'l \<times> nat \<times> 64 word"

definition take_errors :: "nat \<Rightarrow> native \<Rightarrow> native" where
  "take_errors numErrors m = (if numErrors > 0 then m\<lparr>naErrors := naErrors m @ [numErrors]\<rparr> else m)"

definition log_info :: "string \<Rightarrow> native \<Rightarrow> native" where
  "log_info s m = m\<lparr>naLog := naLog m @ [s]\<rparr>"

section \<open>The native methods\<close>

definition ls_proxyClientNew ::
  "(nat list \<Rightarrow> nat) \<Rightarrow> 'l proxy_library \<Rightarrow> string option \<Rightarrow> string option \<Rightarrow> native \<Rightarrow> 'l \<Rightarrow> cpp_error + (native \<times> 'l \<times> 64 word)" where
  "ls_proxyClientNew alloc lib jOwnEthereumAddress jStreamPartId m l =
     (case getStringUTFChars alloc jOwnEthereumAddress m of
        Inl e \<Rightarrow> Inl e
      | Inr (ownEthereumAddress, m1) \<Rightarrow>
          (case getStringUTFChars alloc jStreamPartId m1 of
             Inl e \<Rightarrow> Inl e
           | Inr (streamPartId, m2) \<Rightarrow>
               (case plNew lib (read_chars m2) ownEthereumAddress streamPartId l of
                  (l1, numErrors, clientHandle) \<Rightarrow>
                    Inr (releaseStringUTFChars streamPartId (releaseStringUTFChars ownEthereumAddress (take_errors numErrors m2)), l1,
                         if numErrors > 0 then 0 else clientHandle))))"

definition ls_proxyClientDelete :: "'l proxy_library \<Rightarrow> 64 word \<Rightarrow> native \<Rightarrow> 'l \<Rightarrow> native \<times> 'l" where
  "ls_proxyClientDelete lib clientHandle m l = (case plDelete lib clientHandle l of (l1, numErrors) \<Rightarrow> (take_errors numErrors m, l1))"

text \<open>The loop over the Java array; an element is its two strings.\<close>

fun ls_proxies ::
  "(nat list \<Rightarrow> nat) \<Rightarrow> (string option \<times> string option) option list \<Rightarrow> native \<Rightarrow> cpp_error + ((nat \<times> nat) list \<times> native)" where
  "ls_proxies alloc [] m = Inr ([], m)"
| "ls_proxies alloc (None # jProxies) m = Inl UndefinedBehaviour"
| "ls_proxies alloc (Some (jWebsocketUrl, jEthereumAddress) # jProxies) m =
     (case getStringUTFChars alloc jWebsocketUrl m of
        Inl e \<Rightarrow> Inl e
      | Inr (websocketUrl, m1) \<Rightarrow>
          (case getStringUTFChars alloc jEthereumAddress m1 of
             Inl e \<Rightarrow> Inl e
           | Inr (ethereumAddress, m2) \<Rightarrow>
               (case ls_proxies alloc jProxies (releaseStringUTFChars ethereumAddress (releaseStringUTFChars websocketUrl m2)) of
                  Inl e \<Rightarrow> Inl e
                | Inr (proxies, m3) \<Rightarrow> Inr ((websocketUrl, ethereumAddress) # proxies, m3))))"

definition ls_proxyClientConnect ::
  "(nat list \<Rightarrow> nat) \<Rightarrow> 'l proxy_library \<Rightarrow> 64 word \<Rightarrow> (string option \<times> string option) option list \<Rightarrow> native \<Rightarrow> 'l \<Rightarrow>
     cpp_error + (native \<times> 'l \<times> 64 word)" where
  "ls_proxyClientConnect alloc lib clientHandle jProxies m l =
     (case ls_proxies alloc jProxies m of
        Inl e \<Rightarrow> Inl e
      | Inr (proxies, m1) \<Rightarrow>
          (case plConnect lib (read_chars m1) clientHandle proxies l of
             (l1, numErrors, result) \<Rightarrow> Inr (take_errors numErrors m1, l1, if numErrors > 0 then 0 else result)))"

text \<open>\<open>fmt\<close> is the text that \<^verbatim>\<open>%d\<close> makes of the handle.\<close>

definition ls_proxyClientPublish ::
  "(nat list \<Rightarrow> nat) \<Rightarrow> (64 word \<Rightarrow> string) \<Rightarrow> 'l proxy_library \<Rightarrow> 64 word \<Rightarrow> string option \<Rightarrow> string option \<Rightarrow> native \<Rightarrow> 'l \<Rightarrow>
     cpp_error + (native \<times> 'l)" where
  "ls_proxyClientPublish alloc fmt lib clientHandle jContent jEthereumPrivateKey m l =
     (case getStringUTFChars alloc jContent m of
        Inl e \<Rightarrow> Inl e
      | Inr (contentChars, m1) \<Rightarrow>
          (case getStringUTFChars alloc jEthereumPrivateKey m1 of
             Inl e \<Rightarrow> Inl e
           | Inr (ethereumPrivateKey, m2) \<Rightarrow>
               (case (read_chars m2 contentChars, read_chars m2 ethereumPrivateKey) of
                  (Some contentString, Some keyString) \<Rightarrow>
                    (let m3 = log_info (''proxyClientPublish ethereumPrivateKey: '' @ keyString)
                           (log_info (''proxyClientPublish content: '' @ contentString)
                              (log_info (''proxyClientPublish clientHandle: '' @ fmt clientHandle) m2))
                     in case plPublish lib (read_chars m3) clientHandle contentChars (length contentString) ethereumPrivateKey l of
                          (l1, numErrors, _) \<Rightarrow>
                            (let m4 = releaseStringUTFChars contentChars (take_errors numErrors m3)
                             in Inr (log_info (if numErrors > 0 then ''proxyClientPublish error'' else ''proxyClientPublish no error'') m4, l1)))
                | _ \<Rightarrow> Inl UndefinedBehaviour)))"

section \<open>Properties\<close>

text \<open>The allocator does not hand out an address that is in use.\<close>

definition fresh_alloc :: "(nat list \<Rightarrow> nat) \<Rightarrow> bool" where
  "fresh_alloc alloc \<longleftrightarrow> (\<forall>live. alloc live \<notin> set live)"

lemma chars_live:
  assumes "fresh_alloc alloc" "getStringUTFChars alloc js m = Inr (p, m1)"
  shows "read_chars m p = None" "\<exists>s. js = Some s \<and> m1 = m\<lparr>naBuffers := (p, s) # naBuffers m\<rparr>" "p \<notin> fst ` set (naBuffers m)"
proof -
  have "p = alloc (map fst (naBuffers m))" using assms(2) by (auto simp: getStringUTFChars_def Let_def split: option.splits)
  then have p: "p \<notin> set (map fst (naBuffers m))" using assms(1) unfolding fresh_alloc_def by blast
  then show "p \<notin> fst ` set (naBuffers m)" by simp
  show "read_chars m p = None" using p by (simp add: read_chars_def map_of_eq_None_iff)
  show "\<exists>s. js = Some s \<and> m1 = m\<lparr>naBuffers := (p, s) # naBuffers m\<rparr>"
    using assms(2) by (auto simp: getStringUTFChars_def Let_def split: option.splits)
qed

lemma release_absent: "p \<notin> fst ` set bs \<Longrightarrow> filter (\<lambda>(x, _). x \<noteq> p) bs = bs"
  by (auto simp: filter_id_conv image_iff)

lemma naBuffers_frame [simp]:
  "naBuffers (take_errors n m) = naBuffers m" "naBuffers (log_info s m) = naBuffers m"
  "naBuffers (releaseStringUTFChars p m) = filter (\<lambda>(q, _). q \<noteq> p) (naBuffers m)" "naLog (take_errors n m) = naLog m"
  "naLog (log_info s m) = naLog m @ [s]" "naLog (releaseStringUTFChars p m) = naLog m"
  by (simp_all add: take_errors_def log_info_def releaseStringUTFChars_def)

lemma chars_pair:
  assumes "fresh_alloc alloc" "getStringUTFChars alloc js m = Inr (p, m1)" "getStringUTFChars alloc jt m1 = Inr (q, m2)"
  shows "\<exists>s t. js = Some s \<and> jt = Some t \<and> m2 = m\<lparr>naBuffers := (q, t) # (p, s) # naBuffers m\<rparr> \<and>
    read_chars m2 p = Some s \<and> read_chars m2 q = Some t \<and> read_chars m p = None \<and> read_chars m q = None \<and>
    releaseStringUTFChars q (releaseStringUTFChars p m2) = m \<and> releaseStringUTFChars p m2 = m\<lparr>naBuffers := (q, t) # naBuffers m\<rparr>"
proof -
  obtain s where s: "js = Some s" "m1 = m\<lparr>naBuffers := (p, s) # naBuffers m\<rparr>" "p \<notin> fst ` set (naBuffers m)" "read_chars m p = None"
    using chars_live [OF assms(1,2)] by blast
  obtain t where t: "jt = Some t" "m2 = m1\<lparr>naBuffers := (q, t) # naBuffers m1\<rparr>" "q \<notin> insert p (fst ` set (naBuffers m))" "read_chars m1 q = None"
    using chars_live [OF assms(1,3)] s(2) by auto
  have p: "releaseStringUTFChars p m2 = m\<lparr>naBuffers := (q, t) # naBuffers m\<rparr>"
    using s t release_absent [OF s(3)] by (simp add: releaseStringUTFChars_def)
  have "q \<notin> fst ` set (naBuffers m)" using t(3) by blast
  then have q: "releaseStringUTFChars q (releaseStringUTFChars p m2) = m"
    unfolding p using release_absent [of q "naBuffers m"] by (simp add: releaseStringUTFChars_def)
  show ?thesis using s t p q by (auto simp: read_chars_def split: if_splits)
qed

lemma proxies_dangle:
  assumes "fresh_alloc alloc" "ls_proxies alloc jProxies m = Inr (proxies, m1)"
  shows "m1 = m \<and> length proxies = length jProxies \<and> (\<forall>(u, a) \<in> set proxies. read_chars m u = None \<and> read_chars m a = None)"
  using assms
proof (induction alloc jProxies m arbitrary: proxies rule: ls_proxies.induct)
  case (3 alloc ju ja js m)
  obtain p m1' q m2 where c: "getStringUTFChars alloc ju m = Inr (p, m1')" "getStringUTFChars alloc ja m1' = Inr (q, m2)"
    using 3(3) by (auto split: sum.splits)
  note pair = chars_pair [OF 3(2) c]
  then obtain ps where ps: "ls_proxies alloc js m = Inr (ps, m1)" "proxies = (p, q) # ps"
    using 3(3) c by (auto split: sum.splits)
  have "m1 = m \<and> length ps = length js \<and> (\<forall>(u, a) \<in> set ps. read_chars m u = None \<and> read_chars m a = None)"
    using 3(1) [OF c(1) refl c(2) refl 3(2)] ps(1) pair by auto
  then show ?case using ps(2) pair by auto
qed simp_all

text \<open>
  The example hands its library released memory: at the call of \<^verbatim>\<open>proxyClientConnect\<close> no pointer of the array of proxies can be read, whatever the Java
  array holds.  The strings of \<^verbatim>\<open>proxyClientNew\<close> are read as they were given and all released.
\<close>

theorem connect_passes_dangling_pointers:
  assumes "fresh_alloc alloc" "ls_proxyClientConnect alloc lib h jProxies m l = Inr (m', l', result)"
  shows "\<exists>proxies. length proxies = length jProxies \<and> (\<forall>(u, a) \<in> set proxies. read_chars m u = None \<and> read_chars m a = None) \<and>
    (\<exists>n r. plConnect lib (read_chars m) h proxies l = (l', n, r) \<and> m' = take_errors n m \<and> result = (if n > 0 then 0 else r))"
proof -
  obtain proxies m1 where ps: "ls_proxies alloc jProxies m = Inr (proxies, m1)"
    using assms(2) by (auto simp: ls_proxyClientConnect_def split: sum.splits)
  note dangle = proxies_dangle [OF assms(1) ps]
  obtain l1 n r where call: "plConnect lib (read_chars m) h proxies l = (l1, n, r)" by (cases "plConnect lib (read_chars m) h proxies l")
  have "l1 = l'" "m' = take_errors n m" "result = (if n > 0 then 0 else r)"
    using assms(2) dangle ps call by (auto simp: ls_proxyClientConnect_def)
  then show ?thesis using dangle call by blast
qed

text \<open>The strings of \<^verbatim>\<open>proxyClientNew\<close> reach the library as they were given, and are released.\<close>

theorem new_releases_strings:
  assumes "fresh_alloc alloc" "ls_proxyClientNew alloc lib jOwn jPart m l = Inr (m', l', h)"
  shows "\<exists>own part p q mem n r. jOwn = Some own \<and> jPart = Some part \<and> mem p = Some own \<and> mem q = Some part \<and>
    plNew lib mem p q l = (l', n, r) \<and> h = (if n > 0 then 0 else r) \<and> m' = take_errors n m"
proof -
  obtain p m1 q m2 where c: "getStringUTFChars alloc jOwn m = Inr (p, m1)" "getStringUTFChars alloc jPart m1 = Inr (q, m2)"
    using assms(2) by (auto simp: ls_proxyClientNew_def split: sum.splits)
  note pair = chars_pair [OF assms(1) c]
  obtain l1 n r where call: "plNew lib (read_chars m2) p q l = (l1, n, r)" by (cases "plNew lib (read_chars m2) p q l")
  have "releaseStringUTFChars q (releaseStringUTFChars p (take_errors n m2)) = take_errors n (releaseStringUTFChars q (releaseStringUTFChars p m2))"
    by (simp add: releaseStringUTFChars_def take_errors_def)
  then have "m' = take_errors n m" "l1 = l'" "h = (if n > 0 then 0 else r)"
    using assms(2) c call pair by (auto simp: ls_proxyClientNew_def)
  then show ?thesis using pair call by blast
qed

text \<open>
  Every publish writes the private key to the log of the device, and keeps its copy of the key for ever.
\<close>

theorem publish_leaks_key:
  assumes "fresh_alloc alloc" "ls_proxyClientPublish alloc fmt lib h (Some text) (Some key) m l = Inr (m', l')"
  shows "''proxyClientPublish ethereumPrivateKey: '' @ key \<in> set (naLog m') \<and> (\<exists>q. naBuffers m' = (q, key) # naBuffers m)"
proof -
  obtain p m1 q m2 where c: "getStringUTFChars alloc (Some text) m = Inr (p, m1)" "getStringUTFChars alloc (Some key) m1 = Inr (q, m2)"
    by (simp add: getStringUTFChars_def Let_def)
  note pair = chars_pair [OF assms(1) c]
  have rel: "releaseStringUTFChars p m2 = m\<lparr>naBuffers := (q, key) # naBuffers m\<rparr>" using pair by blast
  have "naBuffers (releaseStringUTFChars p m2) = (q, key) # naBuffers m" unfolding rel by simp
  then have r: "read_chars m2 p = Some text" "read_chars m2 q = Some key" "filter (\<lambda>(x, _). x \<noteq> p) (naBuffers m2) = (q, key) # naBuffers m"
    using pair by auto
  show ?thesis using assms(2) by (auto simp: ls_proxyClientPublish_def c r Let_def split: prod.splits)
qed

definition demo_library :: "unit proxy_library" where
  "demo_library =
     \<lparr>plNew = (\<lambda>mem p q l. (l, 0, 1)), plDelete = (\<lambda>h l. (l, 0)),
      plConnect = (\<lambda>mem h ps l. (l, length (filter (\<lambda>(u, a). mem u = None) ps), of_nat (length ps))),
      plPublish = (\<lambda>mem h c n k l. (l, 0, 0))\<rparr>"

definition demo_alloc :: "nat list \<Rightarrow> nat" where
  "demo_alloc live = Suc (sum_list live)"

definition demo_native :: native where
  "demo_native = \<lparr>naBuffers = [], naErrors = [], naLog = []\<rparr>"

lemma demo_fresh: "fresh_alloc demo_alloc"
proof -
  have "demo_alloc live \<notin> set live" for live
  proof
    assume "demo_alloc live \<in> set live"
    then have "demo_alloc live \<le> sum_list live" by (rule member_le_sum_list) simp
    then show False by (simp add: demo_alloc_def)
  qed
  then show ?thesis by (simp add: fresh_alloc_def)
qed

theorem connect_passes_dangling_witness:
  "ls_proxyClientConnect demo_alloc demo_library 5 [Some (Some ''ws://h'', Some ''0x1'')] demo_native () = Inr (demo_native\<lparr>naErrors := [1]\<rparr>, (), 0) \<and>
     (\<exists>proxies :: (nat \<times> nat) list. length proxies = 1 \<and> fst ` set proxies \<inter> dom (read_chars demo_native) = {})"
proof -
  have run: "ls_proxyClientConnect demo_alloc demo_library 5 [Some (Some ''ws://h'', Some ''0x1'')] demo_native () =
      Inr (demo_native\<lparr>naErrors := [1]\<rparr>, (), 0)"
    by (simp add: ls_proxyClientConnect_def getStringUTFChars_def demo_alloc_def demo_native_def releaseStringUTFChars_def demo_library_def
        read_chars_def take_errors_def)
  obtain proxies where "length proxies = 1" "\<forall>(u, a) \<in> set proxies. read_chars demo_native u = None \<and> read_chars demo_native a = None"
    using connect_passes_dangling_pointers [OF demo_fresh run] by auto
  then have "length proxies = 1 \<and> fst ` set proxies \<inter> dom (read_chars demo_native) = {}" by (auto simp: dom_def)
  then have "\<exists>proxies :: (nat \<times> nat) list. length proxies = 1 \<and> fst ` set proxies \<inter> dom (read_chars demo_native) = {}" by (rule exI)
  with run show ?thesis by (rule conjI)
qed

theorem new_releases_strings_witness:
  "\<exists>own part p q mem n r. Some ''a'' = Some own \<and> Some ''b'' = Some part \<and> mem p = Some own \<and> mem q = Some part \<and>
     plNew demo_library mem p q () = ((), n, r) \<and> (1 :: 64 word) = (if n > (0 :: nat) then 0 else r) \<and> demo_native = take_errors n demo_native"
proof -
  have "ls_proxyClientNew demo_alloc demo_library (Some ''a'') (Some ''b'') demo_native () = Inr (demo_native, (), 1)"
    by (simp add: ls_proxyClientNew_def getStringUTFChars_def demo_alloc_def demo_native_def releaseStringUTFChars_def demo_library_def take_errors_def)
  from new_releases_strings [OF demo_fresh this] show ?thesis .
qed

theorem publish_leaks_key_witness:
  "\<exists>m'. ls_proxyClientPublish demo_alloc (\<lambda>_. ''5'') demo_library 5 (Some ''hi'') (Some ''k'') demo_native () = Inr (m', ()) \<and>
     ''proxyClientPublish ethereumPrivateKey: k'' \<in> set (naLog m')"
proof -
  obtain m' where m': "ls_proxyClientPublish demo_alloc (\<lambda>_. ''5'') demo_library 5 (Some ''hi'') (Some ''k'') demo_native () = Inr (m', ())"
    by (simp add: ls_proxyClientPublish_def getStringUTFChars_def demo_alloc_def demo_native_def demo_library_def read_chars_def log_info_def Let_def)
  have "''proxyClientPublish ethereumPrivateKey: '' @ ''k'' \<in> set (naLog m')" using publish_leaks_key [OF demo_fresh m'] by blast
  then have "''proxyClientPublish ethereumPrivateKey: k'' \<in> set (naLog m')" by simp
  with m' show ?thesis by (intro exI [of _ m'] conjI)
qed

end
