(* ===== verification/Routing_Tables.thy ===== *)
theory Routing_Tables
  imports Sorted_Contact_List
begin

text \<open>
  The cache of routing tables (\<^verbatim>\<open>RoutingTablesCache.cppm\<close>): a least-recently-used cache whose entries expire, and on top of it the tables per
  target and previous peer.  The C++ cache keeps a list of entries, the most recently used first, and an index from keys to places in the list; the
  model looks a key up in the list.  Time is a parameter of the operations that read the clock.
\<close>

section \<open>The cache\<close>

record 'v lru_entry =
  leKey :: string
  leValue :: 'v
  leInsertedAt :: int

record 'v lru_cache =
  lcMaxSize :: nat
  lcMaxAge :: int
  lcEntries :: "'v lru_entry list"

definition lru_create :: "nat \<Rightarrow> int \<Rightarrow> 'v lru_cache" where
  "lru_create maxCount age = \<lparr>lcMaxSize = maxCount, lcMaxAge = age, lcEntries = []\<rparr>"

definition lru_expired :: "'v lru_cache \<Rightarrow> 'v lru_entry \<Rightarrow> int \<Rightarrow> bool" where
  "lru_expired c e now \<longleftrightarrow> now - leInsertedAt e > lcMaxAge c"

definition lru_lookup :: "'v lru_entry list \<Rightarrow> string \<Rightarrow> 'v lru_entry option" where
  "lru_lookup es key = find (\<lambda>e. leKey e = key) es"

definition lru_erase :: "string \<Rightarrow> 'v lru_entry list \<Rightarrow> 'v lru_entry list" where
  "lru_erase key es = filter (\<lambda>e. leKey e \<noteq> key) es"

definition lru_get :: "'v lru_cache \<Rightarrow> string \<Rightarrow> int \<Rightarrow> 'v lru_cache \<times> 'v option" where
  "lru_get c key now =
     (case lru_lookup (lcEntries c) key of
        None \<Rightarrow> (c, None)
      | Some e \<Rightarrow>
          (if lru_expired c e now then (c\<lparr>lcEntries := lru_erase key (lcEntries c)\<rparr>, None)
           else (c\<lparr>lcEntries := e # lru_erase key (lcEntries c)\<rparr>, Some (leValue e))))"

definition lru_has :: "'v lru_cache \<Rightarrow> string \<Rightarrow> int \<Rightarrow> 'v lru_cache \<times> bool" where
  "lru_has c key now =
     (case lru_lookup (lcEntries c) key of
        None \<Rightarrow> (c, False)
      | Some e \<Rightarrow> (if lru_expired c e now then (c\<lparr>lcEntries := lru_erase key (lcEntries c)\<rparr>, False) else (c, True)))"

definition lru_set :: "'v lru_cache \<Rightarrow> string \<Rightarrow> 'v \<Rightarrow> int \<Rightarrow> 'v lru_cache" where
  "lru_set c key value now =
     (case lru_lookup (lcEntries c) key of
        Some e \<Rightarrow> c\<lparr>lcEntries := e\<lparr>leValue := value, leInsertedAt := now\<rparr> # lru_erase key (lcEntries c)\<rparr>
      | None \<Rightarrow>
          (let es = \<lparr>leKey = key, leValue = value, leInsertedAt = now\<rparr> # lcEntries c
           in c\<lparr>lcEntries := (if length es > lcMaxSize c then butlast es else es)\<rparr>))"

text \<open>\<^verbatim>\<open>forEach\<close> with a function that changes the value behind the pointer.\<close>

definition lru_forEach :: "('v \<Rightarrow> 'v) \<Rightarrow> 'v lru_cache \<Rightarrow> 'v lru_cache" where
  "lru_forEach f c = c\<lparr>lcEntries := map (\<lambda>e. e\<lparr>leValue := f (leValue e)\<rparr>) (lcEntries c)\<rparr>"

definition lru_clear :: "'v lru_cache \<Rightarrow> 'v lru_cache" where
  "lru_clear c = c\<lparr>lcEntries := []\<rparr>"

section \<open>The cache is correct\<close>

abbreviation lru_keys :: "'v lru_cache \<Rightarrow> string list" where
  "lru_keys c \<equiv> map leKey (lcEntries c)"

definition lru_inv :: "'v lru_cache \<Rightarrow> bool" where
  "lru_inv c \<longleftrightarrow> distinct (lru_keys c) \<and> length (lcEntries c) \<le> lcMaxSize c"

lemma lookup_None: "lru_lookup es key = None \<longleftrightarrow> key \<notin> leKey ` set es"
  by (auto simp: lru_lookup_def find_None_iff)

lemma lookup_Some: "distinct (map leKey es) \<Longrightarrow> lru_lookup es key = Some e \<longleftrightarrow> e \<in> set es \<and> leKey e = key"
  unfolding lru_lookup_def by (induction es) auto

lemma keys_erase: "map leKey (lru_erase key es) = filter (\<lambda>k. k \<noteq> key) (map leKey es)"
  by (induction es) (auto simp: lru_erase_def)

lemma lookup_erase: "lru_lookup (lru_erase key es) k = (if k = key then None else lru_lookup es k)"
  unfolding lru_lookup_def lru_erase_def by (induction es) auto

lemma erase_shorter: "key \<in> leKey ` set es \<Longrightarrow> length (lru_erase key es) < length es"
  unfolding lru_erase_def by (auto intro: length_filter_less)

lemma lookup_Cons: "lru_lookup (e # es) k = (if leKey e = k then Some e else lru_lookup es k)"
  by (simp add: lru_lookup_def)

lemma lookup_key: "lru_lookup es key = Some e \<Longrightarrow> leKey e = key \<and> e \<in> set es"
  unfolding lru_lookup_def by (induction es) (auto split: if_splits)

lemma lru_inv_ops:
  assumes "lru_inv c"
  shows "lru_inv (fst (lru_get c key now))" "lru_inv (fst (lru_has c key now))" "lru_inv (lru_set c key v now)" "lru_inv (lru_forEach f c)"
    "lru_inv (lru_clear c)" "lru_inv (lru_create n age)"
proof -
  have short: "length (lru_erase key (lcEntries c)) < length (lcEntries c)" if "lru_lookup (lcEntries c) key = Some e" for e
    using lookup_key [OF that] by (intro erase_shorter) auto
  have erased: "distinct (map leKey (lru_erase key (lcEntries c)))" "key \<notin> leKey ` set (lru_erase key (lcEntries c))"
    using assms unfolding keys_erase lru_inv_def by (simp, auto simp: lru_erase_def)
  show "lru_inv (fst (lru_get c key now))"
    using assms short erased lookup_key [of "lcEntries c" key] by (fastforce simp: lru_get_def lru_inv_def split: option.splits)
  show "lru_inv (fst (lru_has c key now))"
    using assms short erased by (fastforce simp: lru_has_def lru_inv_def split: option.splits)
  have keys: "map leKey (butlast es) = butlast (map leKey es)" for es :: "'a lru_entry list" by (simp add: map_butlast)
  show "lru_inv (lru_set c key v now)"
  proof (cases "lru_lookup (lcEntries c) key")
    case None
    let ?es = "\<lparr>leKey = key, leValue = v, leInsertedAt = now\<rparr> # lcEntries c"
    have "distinct (map leKey ?es)" using assms None by (auto simp: lru_inv_def lookup_None)
    then have "distinct (map leKey ?es)" "distinct (map leKey (butlast ?es))" by (simp, simp only: keys distinct_butlast)
    then show ?thesis using assms None unfolding lru_set_def lru_inv_def Let_def by auto
  next
    case (Some e)
    then show ?thesis using assms short erased lookup_key [OF Some] by (fastforce simp: lru_set_def lru_inv_def)
  qed
qed (use assms in \<open>simp_all add: lru_forEach_def lru_inv_def lru_clear_def lru_create_def comp_def\<close>)

section \<open>What the cache remembers\<close>

datatype 'v lru_op = LruGet string int | LruHas string int | LruSet string 'v int

fun lru_step :: "'v lru_cache \<Rightarrow> 'v lru_op \<Rightarrow> 'v lru_cache" where
  "lru_step c (LruGet k now) = fst (lru_get c k now)"
| "lru_step c (LruHas k now) = fst (lru_has c k now)"
| "lru_step c (LruSet k v now) = lru_set c k v now"

fun lru_op_key :: "'v lru_op \<Rightarrow> string" where
  "lru_op_key (LruGet k now) = k"
| "lru_op_key (LruHas k now) = k"
| "lru_op_key (LruSet k v now) = k"

interpretation lru: op_machine lru_step lru_inv "\<lambda>_. True"
proof
  fix s :: "'a lru_cache" and op
  assume "lru_inv s"
  then show "lru_inv (lru_step s op)" by (cases op) (simp_all add: lru_inv_ops)
qed

text \<open>The entry of \<open>key\<close> is \<open>e\<close>, and only entries with keys in \<open>U\<close> were used more recently.\<close>

definition lru_holds :: "string \<Rightarrow> 'v lru_entry \<Rightarrow> string set \<Rightarrow> 'v lru_cache \<Rightarrow> bool" where
  "lru_holds key e U c \<longleftrightarrow> leKey e = key \<and> (\<exists>xs ys. lcEntries c = xs @ e # ys \<and> leKey ` set xs \<subseteq> U - {key})"

lemma holds_lookup: "lru_holds key e U c \<Longrightarrow> lru_lookup (lcEntries c) key = Some e"
proof -
  assume "lru_holds key e U c"
  then obtain xs ys where es: "lcEntries c = xs @ e # ys" "leKey ` set xs \<subseteq> U - {key}" "leKey e = key" by (auto simp: lru_holds_def)
  then have "\<forall>x \<in> set xs. leKey x \<noteq> key" by auto
  then have "find (\<lambda>x. leKey x = key) (xs @ e # ys) = Some e" using es(3) by (induction xs) auto
  then show ?thesis by (simp add: lru_lookup_def es(1))
qed

lemma holds_front:
  assumes "lru_holds key e U c" "k \<noteq> key" "leKey x = k"
  shows "lru_holds key e (insert k U) (c\<lparr>lcEntries := x # lru_erase k (lcEntries c)\<rparr>)" "lru_holds key e U (c\<lparr>lcEntries := lru_erase k (lcEntries c)\<rparr>)"
    "lru_holds key e (insert k U) (c\<lparr>lcEntries := x # lcEntries c\<rparr>)"
proof -
  obtain xs ys where es: "lcEntries c = xs @ e # ys" "leKey ` set xs \<subseteq> U - {key}" "leKey e = key" using assms(1) by (auto simp: lru_holds_def)
  have er: "lru_erase k (lcEntries c) = lru_erase k xs @ e # lru_erase k ys" using es assms(2) by (simp add: lru_erase_def)
  have sub: "leKey ` set (lru_erase k xs) \<subseteq> U - {key}" using es(2) by (auto simp: lru_erase_def)
  have holds: "lru_holds key e V (c\<lparr>lcEntries := as @ e # bs\<rparr>)" if "leKey ` set as \<subseteq> V - {key}" for V as bs
    unfolding lru_holds_def using es(3) that by (intro conjI exI [of _ as] exI [of _ bs]) simp_all
  show "lru_holds key e U (c\<lparr>lcEntries := lru_erase k (lcEntries c)\<rparr>)" unfolding er using sub by (rule holds)
  have front: "leKey ` set (x # zs) \<subseteq> insert k U - {key}" if "leKey ` set zs \<subseteq> U - {key}" for zs using that assms(2,3) by auto
  show "lru_holds key e (insert k U) (c\<lparr>lcEntries := x # lru_erase k (lcEntries c)\<rparr>)" unfolding er using holds [OF front [OF sub]] by simp
  show "lru_holds key e (insert k U) (c\<lparr>lcEntries := x # lcEntries c\<rparr>)" unfolding es(1) using holds [OF front [OF es(2)]] by simp
qed

lemma holds_mono: "lru_holds key e U c \<Longrightarrow> U \<subseteq> V \<Longrightarrow> lru_holds key e V c"
  unfolding lru_holds_def by blast

lemma holds_step:
  assumes "lru_inv c" "lru_holds key e U c" "lru_op_key op \<noteq> key" "finite U" "card (insert (lru_op_key op) U - {key}) < lcMaxSize c"
  shows "lru_holds key e (insert (lru_op_key op) U) (lru_step c op)"
proof (cases op)
  case (LruSet k v now)
  let ?x = "\<lparr>leKey = k, leValue = v, leInsertedAt = now\<rparr>"
  show ?thesis
  proof (cases "lru_lookup (lcEntries c) k")
    case None
    have front: "lru_holds key e (insert k U) (c\<lparr>lcEntries := ?x # lcEntries c\<rparr>)" using holds_front(3) [OF assms(2)] assms(3) LruSet by simp
    then obtain xs ys where es: "?x # lcEntries c = xs @ e # ys" "leKey ` set xs \<subseteq> insert k U - {key}" "leKey e = key"
      by (auto simp: lru_holds_def)
    have "distinct (map leKey (?x # lcEntries c))" using assms(1) None by (auto simp: lru_inv_def lookup_None)
    then have "distinct (map leKey xs)" using es(1) by simp
    then have "length xs = card (leKey ` set xs)" using distinct_card by fastforce
    also have "\<dots> \<le> card (insert k U - {key})" using es(2) assms(4) by (intro card_mono) auto
    finally have "length xs < lcMaxSize c" using assms(5) LruSet by simp
    then have "ys \<noteq> []" if "length (?x # lcEntries c) > lcMaxSize c" using that unfolding es(1) by auto
    then have "butlast (?x # lcEntries c) = xs @ e # butlast ys" if "length (?x # lcEntries c) > lcMaxSize c"
      using that unfolding es(1) by (simp add: butlast_append)
    then show ?thesis using front es LruSet None by (auto simp: lru_set_def lru_holds_def Let_def)
  next
    case (Some y)
    then show ?thesis using holds_front(1) [OF assms(2), of k "y\<lparr>leValue := v, leInsertedAt := now\<rparr>"] assms(3) LruSet lookup_key [OF Some]
      by (simp add: lru_set_def)
  qed
next
  case (LruGet k now)
  then show ?thesis
    using holds_front(1,2) [OF assms(2), of k] assms(3) lookup_key [of "lcEntries c" k] holds_mono [OF assms(2), of "insert k U"]
      holds_mono [OF holds_front(2) [OF assms(2), of k], of _ "insert k U"]
    by (auto simp: lru_get_def split: option.splits)
next
  case (LruHas k now)
  then show ?thesis
    using assms(3) lookup_key [of "lcEntries c" k] holds_mono [OF assms(2), of "insert k U"]
      holds_mono [OF holds_front(2) [OF assms(2), of k], of _ "insert k U"]
    by (auto simp: lru_has_def split: option.splits)
qed

lemma lru_size_step: "lcMaxSize (lru_step c op) = lcMaxSize c" "lcMaxAge (lru_step c op) = lcMaxAge c"
  by (cases op; auto simp: lru_get_def lru_has_def lru_set_def Let_def split: option.splits)+

lemma holds_run:
  assumes "lru_inv c" "lru_holds key e U c" "key \<notin> lru_op_key ` set ops" "finite U" "card ((lru_op_key ` set ops \<union> U) - {key}) < lcMaxSize c"
  shows "lru_holds key e (lru_op_key ` set ops \<union> U) (foldl lru_step c ops)"
  using assms
proof (induction ops arbitrary: c U)
  case (Cons op ops)
  have sub: "insert (lru_op_key op) U - {key} \<subseteq> (lru_op_key ` set (op # ops) \<union> U) - {key}" by auto
  have "card (insert (lru_op_key op) U - {key}) \<le> card ((lru_op_key ` set (op # ops) \<union> U) - {key})"
    using Cons.prems(4) by (intro card_mono [OF _ sub]) auto
  then have step: "lru_holds key e (insert (lru_op_key op) U) (lru_step c op)" using Cons.prems by (intro holds_step) auto
  have eq: "lru_op_key ` set ops \<union> insert (lru_op_key op) U = lru_op_key ` set (op # ops) \<union> U" by auto
  have "lru_holds key e (lru_op_key ` set ops \<union> insert (lru_op_key op) U) (foldl lru_step (lru_step c op) ops)"
    using Cons.prems step by (intro Cons.IH) (auto simp: lru_size_step lru.step_inv eq)
  then show ?case by (simp add: eq)
qed simp

text \<open>
  The cache keeps a value that was put into it until it is too old or as many other keys have been used as it has room for: any operations
  on fewer other keys later, \<^verbatim>\<open>get\<close> returns the value exactly when its age is at most the bound.
\<close>

theorem lru_remembers:
  assumes "lru_inv c" "key \<notin> lru_op_key ` set ops" "card (lru_op_key ` set ops) < lcMaxSize c"
  shows "snd (lru_get (foldl lru_step (lru_set c key v t) ops) key now) = (if now - t > lcMaxAge c then None else Some v)"
proof -
  let ?c = "lru_set c key v t"
  have max: "0 < lcMaxSize c" using assms(3) by linarith
  obtain e rest where e: "lcEntries ?c = e # rest" "leKey e = key" "leValue e = v" "leInsertedAt e = t"
  proof (cases "lru_lookup (lcEntries c) key")
    case None
    then have "lcEntries ?c = \<lparr>leKey = key, leValue = v, leInsertedAt = t\<rparr> # (if length (lcEntries c) < lcMaxSize c then lcEntries c else butlast (lcEntries c))"
      using max by (auto simp: lru_set_def Let_def)
    then show thesis by (rule that) simp_all
  next
    case (Some y)
    then have "lcEntries (lru_set c key v t) = y\<lparr>leValue := v, leInsertedAt := t\<rparr> # lru_erase key (lcEntries c)" by (simp add: lru_set_def)
    then show thesis by (rule that) (simp_all add: lookup_key [OF Some])
  qed
  have holds: "lru_holds key e {} ?c" unfolding lru_holds_def using e(1,2) by (intro conjI exI [of _ "[]"] exI [of _ rest]) auto
  have c: "lcMaxSize ?c = lcMaxSize c" "lcMaxAge ?c = lcMaxAge c" using lru_size_step [of c "LruSet key v t"] by simp_all
  have age: "lcMaxAge (foldl lru_step c' ops) = lcMaxAge c'" for c' :: "'a lru_cache" and ops
    by (induction ops arbitrary: c') (simp_all add: lru_size_step)
  have "card ((lru_op_key ` set ops \<union> {}) - {key}) \<le> card (lru_op_key ` set ops)" by (intro card_mono) auto
  then have "lru_holds key e (lru_op_key ` set ops \<union> {}) (foldl lru_step ?c ops)"
    using assms c by (intro holds_run [OF _ holds]) (auto simp: lru_inv_ops)
  from holds_lookup [OF this] show ?thesis using e(3,4) by (simp add: lru_get_def lru_expired_def age c)
qed

theorem lru_remembers_witness:
  "snd (lru_get (foldl lru_step (lru_set (lru_create 2 15000) ''a'' (7 :: nat) 0) [LruSet ''b'' 8 10, LruGet ''b'' 20]) ''a'' 15000) = Some 7"
  using lru_remembers [of "lru_create 2 15000" "''a''" "[LruSet ''b'' 8 10, LruGet ''b'' 20]" "7 :: nat" 0 15000] lru_inv_ops(6)
  by (simp add: lru_create_def lru_inv_def)

section \<open>Routing tables\<close>

text \<open>
  A table is a sorted contact list.  Several entries never share one: each is set with a table of its own.
\<close>

type_synonym routing_table = "PeerDescriptor scl"

type_synonym routing_cache = "routing_table lru_cache"

definition tables_create :: routing_cache where
  "tables_create = lru_create 1000 15000"

definition createRoutingTableId :: "DhtAddress \<Rightarrow> DhtAddress option \<Rightarrow> string" where
  "createRoutingTableId targetId previousId = targetId @ (case previousId of Some p \<Rightarrow> p | None \<Rightarrow> [])"

definition tables_get :: "routing_cache \<Rightarrow> DhtAddress \<Rightarrow> DhtAddress option \<Rightarrow> int \<Rightarrow> routing_cache \<times> routing_table option" where
  "tables_get c targetId previousId now = lru_get c (createRoutingTableId targetId previousId) now"

definition tables_set :: "routing_cache \<Rightarrow> DhtAddress \<Rightarrow> routing_table \<Rightarrow> DhtAddress option \<Rightarrow> int \<Rightarrow> routing_cache" where
  "tables_set c targetId table previousId now = lru_set c (createRoutingTableId targetId previousId) table now"

definition tables_has :: "routing_cache \<Rightarrow> DhtAddress \<Rightarrow> DhtAddress option \<Rightarrow> int \<Rightarrow> routing_cache \<times> bool" where
  "tables_has c targetId previousId now = lru_has c (createRoutingTableId targetId previousId) now"

definition tables_onNodeDisconnected :: "DhtAddress \<Rightarrow> routing_cache \<Rightarrow> routing_cache" where
  "tables_onNodeDisconnected nodeId c = lru_forEach (\<lambda>t. fst (scl_removeContact t nodeId)) c"

text \<open>The ids of contacts are those of descriptors, for which adding does not fail.\<close>

definition tables_onNodeConnected :: "hex_codec \<Rightarrow> PeerDescriptor \<Rightarrow> routing_cache \<Rightarrow> routing_cache" where
  "tables_onNodeConnected hx remote c = lru_forEach (\<lambda>t. fst (scl_addContact hx (getNodeIdFromPeerDescriptor hx) t remote)) c"

definition tables_reset :: "routing_cache \<Rightarrow> routing_cache" where
  "tables_reset c = lru_clear (lru_forEach scl_clear c)"

text \<open>The options of the table of a target and a previous peer.\<close>

definition table_options :: "DhtAddress \<Rightarrow> DhtAddress option \<Rightarrow> SortedContactListOptions" where
  "table_options targetId previousId =
     \<lparr>referenceId = targetId, allowToContainReferenceId = True, maxSize = Some 5, nodeIdDistanceLimit = previousId, excludedNodeIds = None\<rparr>"

end
