(* ===== verification/Routing_Session.thy ===== *)
theory Routing_Session
  imports Routing_Tables Connection_Manager
begin

text \<open>
  One routing session (\<^verbatim>\<open>RoutingSession.cppm\<close>) drives one routed message: it sends the message to the closest peers of the routing table, a few
  at a time, until enough of them have taken it or too many have failed.  A send is a task on the routing executor: it starts, and later it
  ends with an acknowledgement, a refusal or an exception; the tasks of a session interleave freely.  \<open>now\<close> is the clock of the cache,
  \<open>connections\<close> what \<^verbatim>\<open>getConnections\<close> returns.
\<close>

section \<open>Messages\<close>

datatype RouteMessageError = NO_TARGETS | DUPLICATE | STOPPED

record RouteMessageWrapper =
  rwRequestId :: string
  rwSourcePeer :: PeerDescriptor
  rwTarget :: bytes
  rwMessage :: Message
  rwReachableThrough :: "PeerDescriptor list"
  rwRoutingPath :: "PeerDescriptor list"
  rwParallelRootNodeIds :: "string list"

record RouteMessageAck =
  ackRequestId :: string
  ackError :: "RouteMessageError option"

definition getPreviousPeer :: "RouteMessageWrapper \<Rightarrow> PeerDescriptor option" where
  "getPreviousPeer m = (if rwRoutingPath m = [] then None else Some (last (rwRoutingPath m)))"

section \<open>The session\<close>

datatype RoutingMode = ROUTE | FORWARD | RECURSIVE

text \<open>The event \<^verbatim>\<open>Stopped\<close> finds the session removed from the router already, and is left out.\<close>

datatype session_event = RoutingSucceeded | PartialSuccess | RoutingFailed

text \<open>
  The state, and the tasks that have been dispatched and have not ended: each with its contact and, once it has started, the message it
  has sent.
\<close>

record routing_session =
  rsLocalPeer :: PeerDescriptor
  rsMessage :: RouteMessageWrapper
  rsParallelism :: nat
  rsMode :: RoutingMode
  rsExcluded :: "DhtAddress list"
  rsOngoing :: "DhtAddress list"
  rsContacted :: "DhtAddress list"
  rsFailedHops :: nat
  rsSuccessfulHops :: nat
  rsStopped :: bool
  rsTasks :: "(PeerDescriptor \<times> RouteMessageWrapper option) list"

definition maxFailedHops :: nat where
  "maxFailedHops = 2"

text \<open>\<^verbatim>\<open>std::set\<close> of ids as a list without repetition.\<close>

abbreviation id_insert :: "DhtAddress \<Rightarrow> DhtAddress list \<Rightarrow> DhtAddress list" where
  "id_insert i is \<equiv> List.insert i is"

abbreviation id_erase :: "DhtAddress \<Rightarrow> DhtAddress list \<Rightarrow> DhtAddress list" where
  "id_erase i is \<equiv> filter (\<lambda>j. j \<noteq> i) is"

abbreviation peer_id :: "hex_codec \<Rightarrow> PeerDescriptor \<Rightarrow> DhtAddress" where
  "peer_id hx \<equiv> getNodeIdFromPeerDescriptor hx"

definition emitFailure :: "routing_session \<Rightarrow> session_event" where
  "emitFailure s = (if rsSuccessfulHops s \<ge> 1 then PartialSuccess else RoutingFailed)"

definition is_recursive_source :: "routing_session \<Rightarrow> bool" where
  "is_recursive_source s \<longleftrightarrow> rsMode s = RECURSIVE \<and> areEqualPeerDescriptors (rsLocalPeer s) (rwSourcePeer (rsMessage s))"

definition addParallelRootIfSource :: "DhtAddress \<Rightarrow> routing_session \<Rightarrow> routing_session" where
  "addParallelRootIfSource nodeId s =
     (if is_recursive_source s
      then s\<lparr>rsMessage := (rsMessage s)\<lparr>rwParallelRootNodeIds := rwParallelRootNodeIds (rsMessage s) @ [nodeId]\<rparr>\<rparr> else s)"

definition deleteParallelRootIfSource :: "DhtAddress \<Rightarrow> routing_session \<Rightarrow> routing_session" where
  "deleteParallelRootIfSource nodeId s =
     (if is_recursive_source s
      then s\<lparr>rsMessage := (rsMessage s)\<lparr>rwParallelRootNodeIds := id_erase nodeId (rwParallelRootNodeIds (rsMessage s))\<rparr>\<rparr> else s)"

text \<open>
  The peers the message can be sent to.  A table that is missing, too old or empty is built from the connections and put into the cache; its
  contacts come in the order of their distance to the target, and those contacted before or excluded are left out.
\<close>

definition session_target :: "hex_codec \<Rightarrow> routing_session \<Rightarrow> DhtAddress" where
  "session_target hx s = getDhtAddressFromRaw hx (rwTarget (rsMessage s))"

definition session_previous :: "hex_codec \<Rightarrow> routing_session \<Rightarrow> DhtAddress option" where
  "session_previous hx s = map_option (peer_id hx) (getPreviousPeer (rsMessage s))"

definition build_table :: "hex_codec \<Rightarrow> DhtAddress \<Rightarrow> DhtAddress option \<Rightarrow> PeerDescriptor list \<Rightarrow> cpp_error + routing_table" where
  "build_table hx targetId previousId connections =
     (case scl_create hx (table_options targetId previousId) of
        Inl e \<Rightarrow> Inl e
      | Inr t \<Rightarrow> (case scl_addContacts hx (peer_id hx) t connections of (_, _, Some e) \<Rightarrow> Inl e | (t', _, None) \<Rightarrow> Inr t'))"

definition routing_table_for ::
  "hex_codec \<Rightarrow> PeerDescriptor list \<Rightarrow> int \<Rightarrow> DhtAddress \<Rightarrow> DhtAddress option \<Rightarrow> routing_cache \<Rightarrow> cpp_error + (routing_cache \<times> routing_table)" where
  "routing_table_for hx connections now targetId previousId c =
     (case tables_get c targetId previousId now of
        (c1, cached) \<Rightarrow>
          (case (if cached = None \<or> scl_getSize (the cached) None = 0 then None else cached) of
             Some t \<Rightarrow> Inr (c1, t)
           | None \<Rightarrow>
               (case build_table hx targetId previousId connections of
                  Inl e \<Rightarrow> Inl e
                | Inr t \<Rightarrow> Inr (tables_set c1 targetId t previousId now, t))))"

definition updateAndGetRoutablePeers ::
  "hex_codec \<Rightarrow> PeerDescriptor list \<Rightarrow> int \<Rightarrow> routing_session \<Rightarrow> routing_cache \<Rightarrow> cpp_error + (routing_cache \<times> PeerDescriptor list)" where
  "updateAndGetRoutablePeers hx connections now s c =
     (case routing_table_for hx connections now (session_target hx s) (session_previous hx s) c of
        Inl e \<Rightarrow> Inl e
      | Inr (c1, t) \<Rightarrow>
          (case getClosestContacts t None of
             Inl e \<Rightarrow> Inl e
           | Inr contacts \<Rightarrow>
               Inr (c1, filter (\<lambda>p. peer_id hx p \<notin> set (rsContacted s) \<and> peer_id hx p \<notin> set (rsExcluded s)) contacts)))"

text \<open>The loop of \<^verbatim>\<open>sendMoreRequests\<close> with \<^verbatim>\<open>dispatchSend\<close>.\<close>

definition contact_peer :: "hex_codec \<Rightarrow> PeerDescriptor \<Rightarrow> routing_session \<Rightarrow> routing_session" where
  "contact_peer hx p s =
     (let s1 = addParallelRootIfSource (peer_id hx p)
            (s\<lparr>rsContacted := id_insert (peer_id hx p) (rsContacted s), rsOngoing := id_insert (peer_id hx p) (rsOngoing s)\<rparr>)
      in s1\<lparr>rsTasks := rsTasks s1 @ [(p, None)]\<rparr>)"

fun send_loop :: "hex_codec \<Rightarrow> PeerDescriptor list \<Rightarrow> routing_session \<Rightarrow> routing_session" where
  "send_loop hx [] s = s"
| "send_loop hx (p # uncontacted) s =
     (if length (rsOngoing s) < rsParallelism s \<and> \<not> rsStopped s then send_loop hx uncontacted (contact_peer hx p s) else s)"

definition sendMoreRequests :: "hex_codec \<Rightarrow> PeerDescriptor list \<Rightarrow> routing_session \<Rightarrow> routing_session \<times> session_event option" where
  "sendMoreRequests hx uncontacted s =
     (if rsStopped s then (s, None)
      else if uncontacted = [] then (s, Some (emitFailure s))
      else (send_loop hx uncontacted s, None))"

text \<open>The start of a task: \<^verbatim>\<open>sendRouteMessageRequest\<close> up to the call; a stopped session does not send.\<close>

definition outgoing :: "routing_session \<Rightarrow> RouteMessageWrapper" where
  "outgoing s = (rsMessage s)\<lparr>rwRoutingPath := rwRoutingPath (rsMessage s) @ [rsLocalPeer s]\<rparr>"

definition task_start :: "nat \<Rightarrow> routing_session \<Rightarrow> routing_session" where
  "task_start k s =
     (if k < length (rsTasks s) \<and> snd (rsTasks s ! k) = None \<and> \<not> rsStopped s
      then s\<lparr>rsTasks := (rsTasks s)[k := (fst (rsTasks s ! k), Some (outgoing s))]\<rparr> else s)"

definition drop_send :: "nat \<Rightarrow> routing_session \<Rightarrow> routing_session" where
  "drop_send k s = s\<lparr>rsTasks := take k (rsTasks s) @ drop (Suc k) (rsTasks s)\<rparr>"

text \<open>\<^verbatim>\<open>onRequestFailed\<close> and \<^verbatim>\<open>onRequestSucceeded\<close>.\<close>

definition onRequestFailed ::
  "hex_codec \<Rightarrow> PeerDescriptor list \<Rightarrow> int \<Rightarrow> DhtAddress \<Rightarrow> routing_session \<Rightarrow> routing_cache \<Rightarrow>
     cpp_error + (routing_session \<times> routing_cache \<times> session_event option)" where
  "onRequestFailed hx connections now nodeId s c =
     (if rsStopped s then Inr (s, c, None)
      else (let s1 = deleteParallelRootIfSource nodeId (s\<lparr>rsOngoing := id_erase nodeId (rsOngoing s)\<rparr>);
                s2 = s1\<lparr>rsFailedHops := rsFailedHops s1 + 1\<rparr>
            in if rsFailedHops s2 \<ge> maxFailedHops then Inr (s2, c, Some (emitFailure s2))
               else (case updateAndGetRoutablePeers hx connections now s2 c of
                       Inl e \<Rightarrow> Inl e
                     | Inr (c1, contacts) \<Rightarrow>
                         (if contacts = [] \<and> rsOngoing s2 = [] then Inr (s2, c1, Some (emitFailure s2))
                          else (case sendMoreRequests hx contacts s2 of (s3, ev) \<Rightarrow> Inr (s3, c1, ev))))))"

definition onRequestSucceeded ::
  "hex_codec \<Rightarrow> PeerDescriptor list \<Rightarrow> int \<Rightarrow> routing_session \<Rightarrow> routing_cache \<Rightarrow>
     cpp_error + (routing_session \<times> routing_cache \<times> session_event option)" where
  "onRequestSucceeded hx connections now s c =
     (if rsStopped s then Inr (s, c, None)
      else (let s1 = s\<lparr>rsSuccessfulHops := rsSuccessfulHops s + 1\<rparr>
            in if rsSuccessfulHops s1 \<ge> rsParallelism s1 then Inr (s1, c, Some RoutingSucceeded)
               else (case updateAndGetRoutablePeers hx connections now s1 c of
                       Inl e \<Rightarrow> Inl e
                     | Inr (c1, contacts) \<Rightarrow>
                         (if contacts = [] then Inr (s1, c1, Some RoutingSucceeded)
                          else if rsOngoing s1 = [] then (case sendMoreRequests hx contacts s1 of (s2, ev) \<Rightarrow> Inr (s2, c1, ev))
                          else Inr (s1, c1, None)))))"

text \<open>
  The end of a task.  A task that finds the session stopped when it starts ends as a refusal; one whose call throws (a remote call turns
  exceptions into refusals, so this is a cancellation or an error before the call) tells the session nothing.
\<close>

datatype send_result = Acknowledged | Refused | Threw

definition task_end ::
  "hex_codec \<Rightarrow> PeerDescriptor list \<Rightarrow> int \<Rightarrow> nat \<Rightarrow> send_result \<Rightarrow> routing_session \<Rightarrow> routing_cache \<Rightarrow>
     cpp_error + (routing_session \<times> routing_cache \<times> session_event option)" where
  "task_end hx connections now k result s c =
     (if k < length (rsTasks s) \<and> (snd (rsTasks s ! k) \<noteq> None \<or> rsStopped s)
      then (let p = fst (rsTasks s ! k); s1 = drop_send k s
            in case result of
                 Acknowledged \<Rightarrow> onRequestSucceeded hx connections now s1 c
               | Refused \<Rightarrow> onRequestFailed hx connections now (peer_id hx p) s1 c
               | Threw \<Rightarrow> Inr (s1, c, None))
      else Inr (s, c, None))"

definition session_stop :: "routing_session \<Rightarrow> routing_session" where
  "session_stop s = s\<lparr>rsStopped := True\<rparr>"

section \<open>The remote side of a send\<close>

text \<open>\<^verbatim>\<open>RouterRpcRemote\<close> after the call (before it, an empty request id is replaced in the message that goes out): what the answer of the peer makes of the send; \<open>None\<close> is an exception of the call.\<close>

definition remote_routeMessage :: "PeerDescriptor \<Rightarrow> RouteMessageWrapper \<Rightarrow> RouteMessageAck option \<Rightarrow> send_result" where
  "remote_routeMessage peer params answer =
     (case answer of
        None \<Rightarrow> Refused
      | Some ack \<Rightarrow>
          (if ackError ack = Some DUPLICATE \<and> rwTarget params = nodeid peer then Acknowledged
           else if ackError ack \<noteq> None then Refused else Acknowledged))"

definition remote_forwardMessage :: "RouteMessageAck option \<Rightarrow> send_result" where
  "remote_forwardMessage answer =
     (case answer of None \<Rightarrow> Refused | Some ack \<Rightarrow> (if ackError ack \<noteq> None then Refused else Acknowledged))"

end
