(* ===== verification/Router.thy ===== *)
theory Router
  imports Routing_Session
begin

text \<open>
  The router of a node (\<^verbatim>\<open>Router.cppm\<close>) and its RPC methods (\<^verbatim>\<open>RouterRpcLocal.cppm\<close>).  All its work runs on one serial executor, so that an
  operation is one step; the tasks of its sessions, the timers and the tasks that timers post are steps of their own, in any order.
  \<^verbatim>\<open>Uuid::v4\<close> is a parameter of the operations that draw an id.  The listeners of a session's events remove it from the map and stop it; a
  stopped session ignores what its tasks report, so that the model drops it with its tasks.
\<close>

section \<open>State\<close>

text \<open>The timer of an entry is the one that \<^verbatim>\<open>timeoutAbort\<close> cancels.\<close>

record forwarding_entry =
  fePeers :: "PeerDescriptor list"
  feTimer :: nat

text \<open>
  \<open>roTimers\<close> are the armed timers of the forwarding table, \<open>roErases\<close> the tasks that fired timers have posted on the executor.  What the router
  has done: the messages handed to \<^verbatim>\<open>handleMessage\<close> and those sent to other peers, with the session, the
  peer and the mode, which says by which of its RPC methods the peer is called (\<^verbatim>\<open>routeMessage\<close>, \<^verbatim>\<open>forwardMessage\<close> or \<^verbatim>\<open>routeRequest\<close>).
\<close>

record router =
  roLocal :: PeerDescriptor
  roForwarding :: "(DhtAddress, forwarding_entry) omap"
  roTables :: routing_cache
  roSessions :: "(string, routing_session) omap"
  roDetector :: duplicate_detector
  roStopped :: bool
  roTimers :: "(nat \<times> DhtAddress) list"
  roErases :: "DhtAddress list"
  roNextTimer :: nat
  roDelivered :: "Message list"
  roSent :: "(string \<times> PeerDescriptor \<times> RoutingMode \<times> RouteMessageWrapper) list"

definition router_create :: "PeerDescriptor \<Rightarrow> router" where
  "router_create me =
     \<lparr>roLocal = me, roForwarding = [], roTables = tables_create, roSessions = [], roDetector = dd_create 10000, roStopped = False,
      roTimers = [], roErases = [], roNextTimer = 0, roDelivered = [], roSent = []\<rparr>"

definition createRouteMessageAck :: "RouteMessageWrapper \<Rightarrow> RouteMessageError option \<Rightarrow> RouteMessageAck" where
  "createRouteMessageAck m err = \<lparr>ackRequestId = rwRequestId m, ackError = err\<rparr>"

definition cleanupSession :: "string \<Rightarrow> router \<Rightarrow> router" where
  "cleanupSession sid r = r\<lparr>roSessions := om_erase sid (roSessions r)\<rparr>"

text \<open>A session after one of its steps: an event ends it.\<close>

definition keep_session :: "string \<Rightarrow> routing_session \<Rightarrow> session_event option \<Rightarrow> router \<Rightarrow> router" where
  "keep_session sid s ev r = (if ev = None then r\<lparr>roSessions := om_put sid s (roSessions r)\<rparr> else cleanupSession sid r)"

section \<open>Routing\<close>

definition createRoutingSession :: "hex_codec \<Rightarrow> RouteMessageWrapper \<Rightarrow> RoutingMode \<Rightarrow> DhtAddress option \<Rightarrow> router \<Rightarrow> routing_session" where
  "createRoutingSession hx routedMessage mode excludedNode r =
     \<lparr>rsLocalPeer = roLocal r, rsMessage = routedMessage,
      rsParallelism = (if areEqualPeerDescriptors (roLocal r) (rwSourcePeer routedMessage) then 2 else 1), rsMode = mode,
      rsExcluded = map (peer_id hx) (rwRoutingPath routedMessage) @ (case excludedNode of Some i \<Rightarrow> [i] | None \<Rightarrow> []) @ rwParallelRootNodeIds routedMessage,
      rsOngoing = [], rsContacted = [], rsFailedHops = 0, rsSuccessfulHops = 0, rsStopped = False, rsTasks = []\<rparr>"

definition doRouteMessage ::
  "hex_codec \<Rightarrow> PeerDescriptor list \<Rightarrow> int \<Rightarrow> string \<Rightarrow> RouteMessageWrapper \<Rightarrow> RoutingMode \<Rightarrow> DhtAddress option \<Rightarrow> router \<Rightarrow>
     cpp_error + (router \<times> RouteMessageAck)" where
  "doRouteMessage hx connections now sid routedMessage mode excludedPeer r =
     (if roStopped r then Inr (r, createRouteMessageAck routedMessage (Some STOPPED))
      else (let session = createRoutingSession hx routedMessage mode excludedPeer r
            in case updateAndGetRoutablePeers hx connections now session (roTables r) of
                 Inl e \<Rightarrow> Inl e
               | Inr (tables, contacts) \<Rightarrow>
                   (let r1 = r\<lparr>roTables := tables\<rparr>
                    in if contacts = [] then Inr (r1, createRouteMessageAck routedMessage (Some NO_TARGETS))
                       else (case sendMoreRequests hx contacts session of
                               (s, ev) \<Rightarrow> Inr (keep_session sid s ev r1, createRouteMessageAck routedMessage None)))))"

text \<open>\<^verbatim>\<open>setForwardingEntries\<close>: an older entry of the source is replaced and its timer cancelled.\<close>

definition cancel_timer :: "nat \<Rightarrow> router \<Rightarrow> router" where
  "cancel_timer i r = r\<lparr>roTimers := filter (\<lambda>(j, _). j \<noteq> i) (roTimers r)\<rparr>"

definition setForwardingEntries :: "hex_codec \<Rightarrow> RouteMessageWrapper \<Rightarrow> router \<Rightarrow> router" where
  "setForwardingEntries hx routedMessage r =
     (let reachable = filter (\<lambda>p. \<not> areEqualPeerDescriptors p (roLocal r)) (rwReachableThrough routedMessage);
          source = peer_id hx (rwSourcePeer routedMessage)
      in if reachable = [] then r
         else (let r1 = (case om_find (roForwarding r) source of
                           None \<Rightarrow> r
                         | Some entry \<Rightarrow> cancel_timer (feTimer entry) (r\<lparr>roForwarding := om_erase source (roForwarding r)\<rparr>))
               in r1\<lparr>roTimers := roTimers r1 @ [(roNextTimer r1, source)], roNextTimer := roNextTimer r1 + 1,
                     roForwarding := om_emplace source \<lparr>fePeers = reachable, feTimer = roNextTimer r1\<rparr> (roForwarding r1)\<rparr>))"

definition ro_handleMessage :: "Message \<Rightarrow> router \<Rightarrow> router" where
  "ro_handleMessage m r = r\<lparr>roDelivered := roDelivered r @ [m]\<rparr>"

section \<open>The RPC methods\<close>

definition rpc_routeMessage ::
  "hex_codec \<Rightarrow> PeerDescriptor list \<Rightarrow> int \<Rightarrow> string \<Rightarrow> RouteMessageWrapper \<Rightarrow> router \<Rightarrow> cpp_error + (router \<times> RouteMessageAck)" where
  "rpc_routeMessage hx connections now sid routedMessage r =
     (if roStopped r then Inr (r, createRouteMessageAck routedMessage (Some STOPPED))
      else if isMostLikelyDuplicate (roDetector r) (rwRequestId routedMessage)
      then Inr (r, createRouteMessageAck routedMessage (Some DUPLICATE))
      else (let r1 = r\<lparr>roDetector := dd_add (roDetector r) (rwRequestId routedMessage)\<rparr>
            in if nodeid (roLocal r) = rwTarget routedMessage
               then Inr (ro_handleMessage (rwMessage routedMessage) (setForwardingEntries hx routedMessage r1), createRouteMessageAck routedMessage None)
               else doRouteMessage hx connections now sid routedMessage ROUTE None r1))"

definition forwardToDestination ::
  "hex_codec \<Rightarrow> PeerDescriptor list \<Rightarrow> int \<Rightarrow> string \<Rightarrow> string \<Rightarrow> RouteMessageWrapper \<Rightarrow> router \<Rightarrow> cpp_error + (router \<times> RouteMessageAck)" where
  "forwardToDestination hx connections now sid uuid routedMessage r =
     (let forwardedMessage = rwMessage routedMessage
      in if areEqualPeerDescriptors (roLocal r) (targetDescriptor forwardedMessage)
         then Inr (ro_handleMessage forwardedMessage r, createRouteMessageAck routedMessage None)
         else doRouteMessage hx connections now sid
                (routedMessage\<lparr>rwRequestId := uuid, rwTarget := nodeid (targetDescriptor forwardedMessage)\<rparr>) ROUTE None r)"

definition rpc_forwardMessage ::
  "hex_codec \<Rightarrow> PeerDescriptor list \<Rightarrow> int \<Rightarrow> string \<Rightarrow> string \<Rightarrow> RouteMessageWrapper \<Rightarrow> router \<Rightarrow> cpp_error + (router \<times> RouteMessageAck)" where
  "rpc_forwardMessage hx connections now sid uuid message r =
     (if roStopped r then Inr (r, createRouteMessageAck message (Some STOPPED))
      else if isMostLikelyDuplicate (roDetector r) (rwRequestId message)
      then Inr (r, createRouteMessageAck message (Some DUPLICATE))
      else (let r1 = r\<lparr>roDetector := dd_add (roDetector r) (rwRequestId message)\<rparr>
            in if nodeid (roLocal r) = rwTarget message then forwardToDestination hx connections now sid uuid message r1
               else doRouteMessage hx connections now sid message FORWARD None r1))"

section \<open>The operations of the node\<close>

definition sent_wrapper :: "Message \<Rightarrow> PeerDescriptor list \<Rightarrow> string \<Rightarrow> router \<Rightarrow> bytes \<Rightarrow> RouteMessageWrapper" where
  "sent_wrapper message reachableThrough uuid r target =
     \<lparr>rwRequestId = uuid, rwSourcePeer = roLocal r, rwTarget = target, rwMessage = message, rwReachableThrough = reachableThrough,
      rwRoutingPath = [], rwParallelRootNodeIds = []\<rparr>"

definition router_send ::
  "hex_codec \<Rightarrow> PeerDescriptor list \<Rightarrow> int \<Rightarrow> string \<Rightarrow> string \<Rightarrow> Message \<Rightarrow> PeerDescriptor list \<Rightarrow> router \<Rightarrow> cpp_error + (router \<times> RouteMessageAck)" where
  "router_send hx connections now sid uuid msg reachableThrough r =
     (let message = msg\<lparr>sourceDescriptor := Some (roLocal r)\<rparr>;
          direct = doRouteMessage hx connections now sid (sent_wrapper message reachableThrough uuid r (nodeid (targetDescriptor message))) ROUTE None r
      in case om_find (roForwarding r) (peer_id hx (targetDescriptor message)) of
           None \<Rightarrow> direct
         | Some entry \<Rightarrow>
             (case fePeers entry of
                [] \<Rightarrow> direct
              | p # _ \<Rightarrow> doRouteMessage hx connections now sid (sent_wrapper message reachableThrough uuid r (nodeid p)) FORWARD None r))"

definition ro_onNodeConnected :: "hex_codec \<Rightarrow> PeerDescriptor \<Rightarrow> router \<Rightarrow> router" where
  "ro_onNodeConnected hx peerDescriptor r = r\<lparr>roTables := tables_onNodeConnected hx peerDescriptor (roTables r)\<rparr>"

definition ro_onNodeDisconnected :: "hex_codec \<Rightarrow> PeerDescriptor \<Rightarrow> router \<Rightarrow> router" where
  "ro_onNodeDisconnected hx peerDescriptor r = r\<lparr>roTables := tables_onNodeDisconnected (peer_id hx peerDescriptor) (roTables r)\<rparr>"

definition ro_resetCache :: "router \<Rightarrow> router" where
  "ro_resetCache r = r\<lparr>roTables := tables_reset (roTables r)\<rparr>"

definition ro_addToDuplicateDetector :: "string \<Rightarrow> router \<Rightarrow> router" where
  "ro_addToDuplicateDetector requestId r = r\<lparr>roDetector := dd_add (roDetector r) requestId\<rparr>"

definition router_stop :: "router \<Rightarrow> router" where
  "router_stop r =
     r\<lparr>roStopped := True, roSessions := [],
       roTimers := filter (\<lambda>(j, _). j \<notin> feTimer ` snd ` set (roForwarding r)) (roTimers r), roForwarding := [],
       roDetector := dd_clear (roDetector r), roTables := tables_reset (roTables r)\<rparr>"

section \<open>Tasks and timers\<close>

definition ro_taskStart :: "string \<Rightarrow> nat \<Rightarrow> router \<Rightarrow> router" where
  "ro_taskStart sid k r =
     (case om_find (roSessions r) sid of
        None \<Rightarrow> r
      | Some s \<Rightarrow>
          (if k < length (rsTasks s) \<and> snd (rsTasks s ! k) = None \<and> \<not> rsStopped s
           then r\<lparr>roSessions := om_put sid (task_start k s) (roSessions r), roSent := roSent r @ [(sid, fst (rsTasks s ! k), rsMode s, outgoing s)]\<rparr>
           else r))"

definition ro_taskEnd :: "hex_codec \<Rightarrow> PeerDescriptor list \<Rightarrow> int \<Rightarrow> string \<Rightarrow> nat \<Rightarrow> send_result \<Rightarrow> router \<Rightarrow> cpp_error + router" where
  "ro_taskEnd hx connections now sid k result r =
     (case om_find (roSessions r) sid of
        None \<Rightarrow> Inr r
      | Some s \<Rightarrow>
          (case task_end hx connections now k result s (roTables r) of
             Inl e \<Rightarrow> Inl e
           | Inr (s1, tables, ev) \<Rightarrow> Inr (keep_session sid s1 ev (r\<lparr>roTables := tables\<rparr>))))"

text \<open>A timer of the forwarding table fires: it posts a task, which erases the entry of the node, whichever it is by then.\<close>

definition ro_timer :: "nat \<Rightarrow> router \<Rightarrow> router" where
  "ro_timer i r =
     (case map_of (roTimers r) i of
        None \<Rightarrow> r
      | Some nodeId \<Rightarrow> (cancel_timer i r)\<lparr>roErases := roErases r @ [nodeId]\<rparr>)"

definition ro_erase :: "router \<Rightarrow> router" where
  "ro_erase r =
     (case roErases r of [] \<Rightarrow> r | nodeId # rest \<Rightarrow> r\<lparr>roErases := rest, roForwarding := om_erase nodeId (roForwarding r)\<rparr>)"

section \<open>Runs\<close>

datatype router_event =
    RouteRpc "PeerDescriptor list" int string RouteMessageWrapper
  | ForwardRpc "PeerDescriptor list" int string string RouteMessageWrapper
  | RouterSend "PeerDescriptor list" int string string Message "PeerDescriptor list"
  | TaskStart string nat
  | TaskEnd "PeerDescriptor list" int string nat send_result
  | SessionTimeout string
  | ForwardTimer nat
  | ForwardErase
  | NodeConnected PeerDescriptor
  | NodeDisconnected PeerDescriptor
  | ResetCache
  | AddRequestId string
  | StopRouter

text \<open>An exception of a step leaves the router as it was; there is none on well-formed descriptors.\<close>

definition or_same :: "router \<Rightarrow> cpp_error + router \<Rightarrow> router" where
  "or_same r x = (case x of Inl e \<Rightarrow> r | Inr r1 \<Rightarrow> r1)"

fun router_step :: "hex_codec \<Rightarrow> router \<Rightarrow> router_event \<Rightarrow> router" where
  "router_step hx r (RouteRpc connections now sid m) = or_same r (map_sum id fst (rpc_routeMessage hx connections now sid m r))"
| "router_step hx r (ForwardRpc connections now sid uuid m) = or_same r (map_sum id fst (rpc_forwardMessage hx connections now sid uuid m r))"
| "router_step hx r (RouterSend connections now sid uuid m through) = or_same r (map_sum id fst (router_send hx connections now sid uuid m through r))"
| "router_step hx r (TaskStart sid k) = ro_taskStart sid k r"
| "router_step hx r (TaskEnd connections now sid k result) = or_same r (ro_taskEnd hx connections now sid k result r)"
| "router_step hx r (SessionTimeout sid) = cleanupSession sid r"
| "router_step hx r (ForwardTimer i) = ro_timer i r"
| "router_step hx r ForwardErase = ro_erase r"
| "router_step hx r (NodeConnected p) = ro_onNodeConnected hx p r"
| "router_step hx r (NodeDisconnected p) = ro_onNodeDisconnected hx p r"
| "router_step hx r ResetCache = ro_resetCache r"
| "router_step hx r (AddRequestId requestId) = ro_addToDuplicateDetector requestId r"
| "router_step hx r StopRouter = router_stop r"

end
