(* ===== verification/Router_Tables.thy ===== *)
theory Router_Tables
  imports Router
begin

text \<open>
  The routing tables stay well formed: every table of the cache is the one of its target and previous peer, and what a session takes from it is
  a list of peers that the message may go to.  The identifiers of peers and targets are 20 bytes long, as Kademlia's are; the keys of the
  cache are unambiguous only for those.
\<close>

section \<open>Peers the message may go to\<close>

definition id_ok :: "bytes \<Rightarrow> bool" where
  "id_ok raw \<longleftrightarrow> length raw = kademliaIdLengthInBytes"

text \<open>A peer other than the local one, with an identifier.\<close>

definition peer_ok :: "PeerDescriptor \<Rightarrow> PeerDescriptor \<Rightarrow> bool" where
  "peer_ok me p \<longleftrightarrow> id_ok (nodeid p) \<and> nodeid p \<noteq> nodeid me"

text \<open>No further from the target than the previous peer of the message.\<close>

definition not_further :: "RouteMessageWrapper \<Rightarrow> PeerDescriptor \<Rightarrow> bool" where
  "not_further m p \<longleftrightarrow>
     (case getPreviousPeer m of
        None \<Rightarrow> True
      | Some q \<Rightarrow> getPeerDistance (rwTarget m) (nodeid p) \<le> getPeerDistance (rwTarget m) (nodeid q))"

section \<open>The cache of tables\<close>

definition table_ok :: "hex_codec \<Rightarrow> PeerDescriptor \<Rightarrow> bytes \<Rightarrow> bytes option \<Rightarrow> routing_table \<Rightarrow> bool" where
  "table_ok hx me target previous t \<longleftrightarrow>
     scl_inv hx (peer_id hx) t \<and> referenceIdRaw t = target \<and>
     options t = table_options (getDhtAddressFromRaw hx target) (map_option (getDhtAddressFromRaw hx) previous) \<and>
     (\<forall>i p. scl_getContact t i = Some p \<longrightarrow> peer_ok me p)"

definition table_key :: "hex_codec \<Rightarrow> bytes \<Rightarrow> bytes option \<Rightarrow> string" where
  "table_key hx target previous = createRoutingTableId (getDhtAddressFromRaw hx target) (map_option (getDhtAddressFromRaw hx) previous)"

definition entry_ok :: "hex_codec \<Rightarrow> PeerDescriptor \<Rightarrow> routing_table lru_entry \<Rightarrow> bool" where
  "entry_ok hx me e \<longleftrightarrow>
     (\<exists>target previous. id_ok target \<and> pred_option id_ok previous \<and> leKey e = table_key hx target previous \<and> table_ok hx me target previous (leValue e))"

definition tables_ok :: "hex_codec \<Rightarrow> PeerDescriptor \<Rightarrow> routing_cache \<Rightarrow> bool" where
  "tables_ok hx me c \<longleftrightarrow> (\<forall>e \<in> set (lcEntries c). entry_ok hx me e)"

lemma tables_ok_create: "tables_ok hx me tables_create"
  by (simp add: tables_ok_def tables_create_def lru_create_def)

lemma tables_ok_reset: "tables_ok hx me (tables_reset c)"
  by (simp add: tables_ok_def tables_reset_def lru_clear_def)

lemma tables_ok_get: "tables_ok hx me c \<Longrightarrow> tables_ok hx me (fst (tables_get c target previous now))"
  by (auto simp: tables_ok_def tables_get_def lru_get_def lru_erase_def dest: lookup_key split: option.splits)

lemma tables_get_entry:
  assumes "tables_get c target previous now = (c1, Some t)"
  obtains e where "e \<in> set (lcEntries c)" "leKey e = createRoutingTableId target previous" "leValue e = t"
  using assms by (auto simp: tables_get_def lru_get_def dest: lookup_key split: option.splits if_splits)

lemma tables_ok_set:
  assumes "tables_ok hx me c" "id_ok target" "pred_option id_ok previous" "table_ok hx me target previous t"
  shows "tables_ok hx me (tables_set c (getDhtAddressFromRaw hx target) t (map_option (getDhtAddressFromRaw hx) previous) now)"
proof -
  have new: "entry_ok hx me e" if "leKey e = table_key hx target previous" "leValue e = t" for e
    using that assms unfolding entry_ok_def by blast
  show ?thesis
    using assms(1) new unfolding tables_ok_def tables_set_def lru_set_def table_key_def
    by (auto simp: lru_erase_def Let_def dest: lookup_key in_set_butlastD split: option.splits if_splits)
qed

context hex_laws
begin

lemma peer_id_inj: "peer_id hx p = peer_id hx q \<longleftrightarrow> nodeid p = nodeid q"
  by (simp add: node_id_iff areEqualPeerDescriptors_def)

lemma peer_scl_ok: "scl_ok hx (peer_id hx) p"
  by (simp add: scl_ok_def getNodeIdFromPeerDescriptor_def raw_roundtrip)

lemma length_address: "length (getDhtAddressFromRaw hx raw) = 2 * length raw"
  by (simp add: getDhtAddressFromRaw_def binaryStringToHex_def length_hex)

lemma table_key_inject:
  assumes "id_ok t" "id_ok t'" "pred_option id_ok p" "pred_option id_ok p'" "table_key hx t p = table_key hx t' p'"
  shows "t = t' \<and> p = p'"
proof -
  have len: "length (getDhtAddressFromRaw hx x) = 40" if "id_ok x" for x
    using that by (simp add: length_address id_ok_def kademliaIdLengthInBytes_def)
  have "getDhtAddressFromRaw hx t = getDhtAddressFromRaw hx t' \<and>
      (case map_option (getDhtAddressFromRaw hx) p of Some x \<Rightarrow> x | None \<Rightarrow> []) = (case map_option (getDhtAddressFromRaw hx) p' of Some x \<Rightarrow> x | None \<Rightarrow> [])"
    using assms(5) len assms(1,2) by (simp add: table_key_def createRoutingTableId_def)
  moreover have "getDhtAddressFromRaw hx x \<noteq> []" "[] \<noteq> getDhtAddressFromRaw hx x" if "id_ok x" for x using len [OF that] by auto
  ultimately show ?thesis using assms(3,4) by (cases p; cases p') (auto simp: address_inject)
qed

text \<open>The table the cache returns is the one of the target and the previous peer asked for.\<close>

lemma tables_get_ok:
  assumes "tables_ok hx me c" "id_ok target" "pred_option id_ok previous"
    "tables_get c (getDhtAddressFromRaw hx target) (map_option (getDhtAddressFromRaw hx) previous) now = (c1, Some t)"
  shows "table_ok hx me target previous t"
proof -
  obtain e where e: "e \<in> set (lcEntries c)" "leKey e = table_key hx target previous" "leValue e = t"
    using tables_get_entry [OF assms(4)] by (auto simp: table_key_def)
  then have "entry_ok hx me e" using assms(1) by (auto simp: tables_ok_def)
  then obtain target' previous' where key: "id_ok target'" "pred_option id_ok previous'" "leKey e = table_key hx target' previous'"
      "table_ok hx me target' previous' (leValue e)"
    by (auto simp: entry_ok_def)
  then have "target = target' \<and> previous = previous'" using e(2) assms(2,3) by (intro table_key_inject) auto
  then show ?thesis using key(4) e(3) by simp
qed

lemma entry_map:
  assumes "entry_ok hx me e" "\<And>target previous. table_ok hx me target previous (leValue e) \<Longrightarrow> table_ok hx me target previous (f (leValue e))"
  shows "entry_ok hx me (e\<lparr>leValue := f (leValue e)\<rparr>)"
  using assms unfolding entry_ok_def by auto

lemma tables_ok_connected:
  assumes "tables_ok hx me c" "peer_ok me p"
  shows "tables_ok hx me (tables_onNodeConnected hx p c)"
proof -
  have "table_ok hx me target previous (fst (scl_addContact hx (peer_id hx) t p))" if t: "table_ok hx me target previous t" for target previous t
  proof -
    have inv: "scl_inv hx (peer_id hx) t" using t by (simp add: table_ok_def)
    have "peer_ok me q" if "scl_getContact (fst (scl_addContact hx (peer_id hx) t p)) i = Some q" for i q
      using t assms(2) that scl.lookup_add [OF inv peer_scl_ok that] by (auto simp: table_ok_def)
    then show ?thesis using t scl_inv_add [OF inv peer_scl_ok] scl_addContact_options [OF inv peer_scl_ok] by (simp add: table_ok_def)
  qed
  then show ?thesis using assms(1)
    by (auto simp: tables_ok_def tables_onNodeConnected_def lru_forEach_def intro!: entry_map [of _ _ "\<lambda>t. fst (scl_addContact hx (peer_id hx) t p)"])
qed

lemma tables_ok_disconnected:
  assumes "tables_ok hx me c"
  shows "tables_ok hx me (tables_onNodeDisconnected i c)"
proof -
  have "table_ok hx me target previous (fst (scl_removeContact t i))" if t: "table_ok hx me target previous t" for target previous t
  proof -
    have inv: "scl_inv hx (peer_id hx) t" using t by (simp add: table_ok_def)
    show ?thesis using t scl_inv_remove [OF inv, of i]
      by (auto simp: table_ok_def scl_removeContact_state [OF inv] scl_getContact_def split: if_splits)
  qed
  then show ?thesis using assms
    by (auto simp: tables_ok_def tables_onNodeDisconnected_def lru_forEach_def intro!: entry_map [of _ _ "\<lambda>t. fst (scl_removeContact t i)"])
qed

lemma table_built:
  assumes "\<forall>p \<in> set connections. peer_ok me p"
  shows "\<exists>t. build_table hx (getDhtAddressFromRaw hx target) (map_option (getDhtAddressFromRaw hx) previous) connections = Inr t \<and>
             table_ok hx me target previous t"
proof -
  let ?opts = "table_options (getDhtAddressFromRaw hx target) (map_option (getDhtAddressFromRaw hx) previous)"
  define s where "s = \<lparr>options = ?opts, referenceIdRaw = target, contactsById = [] :: (DhtAddress, PeerDescriptor) omap, contactIds = []\<rparr>"
  have create: "scl_create hx ?opts = Inr s" by (simp add: scl_create_def table_options_def raw_roundtrip s_def)
  have opts: "scl_options_ok hx ?opts" by (auto simp: scl_options_ok_def table_options_def raw_roundtrip split: option.splits)
  have s: "scl_inv hx (peer_id hx) s" "scl_best hx s {}"
    using scl_inv_create [OF create opts] scl_best_empty [of s] by (simp_all add: s_def)
  obtain t evs where t: "scl_addContacts hx (peer_id hx) s connections = (t, evs, None)" "scl_inv hx (peer_id hx) t" "options t = options s"
      "referenceIdRaw t = referenceIdRaw s" "\<forall>i d. scl_getContact t i = Some d \<longrightarrow> scl_getContact s i = Some d \<or> d \<in> set connections"
    using scl_adds_best [OF s(1) peer_scl_ok s(2), of connections] by blast
  have "table_ok hx me target previous t"
    using t(2-5) assms by (auto simp: table_ok_def s_def scl_getContact_def om_find_def)
  then show ?thesis using create t(1) by (simp add: build_table_def)
qed

lemma routing_table_for_ok:
  assumes "tables_ok hx me c" "\<forall>p \<in> set connections. peer_ok me p" "id_ok target" "pred_option id_ok previous"
  shows "\<exists>c1 t. routing_table_for hx connections now (getDhtAddressFromRaw hx target) (map_option (getDhtAddressFromRaw hx) previous) c = Inr (c1, t) \<and>
             tables_ok hx me c1 \<and> table_ok hx me target previous t"
proof -
  let ?t = "getDhtAddressFromRaw hx target" and ?p = "map_option (getDhtAddressFromRaw hx) previous"
  obtain c1 cached where get: "tables_get c ?t ?p now = (c1, cached)" by (cases "tables_get c ?t ?p now")
  have c1: "tables_ok hx me c1" using tables_ok_get [OF assms(1), of ?t ?p now] get by simp
  show ?thesis
  proof (cases "cached = None \<or> scl_getSize (the cached) None = 0")
    case True
    obtain t where t: "build_table hx ?t ?p connections = Inr t" "table_ok hx me target previous t"
      using table_built [OF assms(2)] by blast
    then show ?thesis using True get tables_ok_set [OF c1 assms(3,4) t(2), of now] by (simp add: routing_table_for_def)
  next
    case False
    then obtain t where "cached = Some t" by auto
    then show ?thesis using False get c1 tables_get_ok [OF assms(1,3,4), of now c1 t] by (simp add: routing_table_for_def)
  qed
qed

text \<open>The contacts of a table, closest first.\<close>

lemma table_contacts:
  assumes "table_ok hx me target previous t"
  shows "\<exists>ps. getClosestContacts t None = Inr ps \<and> distinct (map (peer_id hx) ps) \<and> sorted (map (\<lambda>p. getPeerDistance target (nodeid p)) ps) \<and>
           (\<forall>p \<in> set ps. peer_ok me p \<and>
              (case previous of None \<Rightarrow> True | Some q \<Rightarrow> getPeerDistance target (nodeid p) \<le> getPeerDistance target q))"
proof -
  have inv: "scl_inv hx (peer_id hx) t" and ref: "referenceIdRaw t = target" and
      opt: "options t = table_options (getDhtAddressFromRaw hx target) (map_option (getDhtAddressFromRaw hx) previous)"
    using assms by (simp_all add: table_ok_def)
  define ps where "ps = map (\<lambda>i. the (scl_getContact t i)) (contactIds t)"
  have run: "getClosestContacts t None = Inr ps" using scl_closest_contacts [OF inv, of None] by (simp add: limit_count_def ps_def)
  have ids: "map (peer_id hx) ps = contactIds t" unfolding ps_def by (rule scl_contacts_ids [OF inv])
  have dist: "distanceToReferenceId hx t (getDhtAddressFromRaw hx raw) = getPeerDistance target raw" for raw
    by (simp add: distanceToReferenceId_def scl_raw_def raw_roundtrip ref)
  have "map (\<lambda>p. getPeerDistance target (nodeid p)) ps = map (distanceToReferenceId hx t) (contactIds t)"
    unfolding ids [symmetric] by (simp add: dist getNodeIdFromPeerDescriptor_def)
  then have sorted: "sorted (map (\<lambda>p. getPeerDistance target (nodeid p)) ps)" using inv by (simp add: scl_inv_def)
  have "peer_ok me p \<and> (case previous of None \<Rightarrow> True | Some q \<Rightarrow> getPeerDistance target (nodeid p) \<le> getPeerDistance target q)" if p: "p \<in> set ps" for p
  proof -
    obtain i where i: "i \<in> set (contactIds t)" "p = the (scl_getContact t i)" using p by (auto simp: ps_def)
    then have get: "scl_getContact t i = Some p" using scl.lookup_ids [OF inv, of i] by auto
    then have "\<not> scl_rejects hx t (peer_id hx p)" using inv by (auto simp: scl_inv_def scl_getContact_def)
    then show ?thesis using get assms
      by (auto simp: table_ok_def scl_rejects_def opt table_options_def dist getNodeIdFromPeerDescriptor_def split: option.splits)
  qed
  then show ?thesis using run ids sorted inv by (auto simp: scl_inv_def)
qed

text \<open>What a session can send to.\<close>

lemma routable_peers:
  assumes "tables_ok hx me c" "\<forall>p \<in> set connections. peer_ok me p" "id_ok (rwTarget (rsMessage s))"
    "pred_option (\<lambda>p. id_ok (nodeid p)) (getPreviousPeer (rsMessage s))"
  shows "\<exists>c1 ps. updateAndGetRoutablePeers hx connections now s c = Inr (c1, ps) \<and> tables_ok hx me c1 \<and> distinct (map (peer_id hx) ps) \<and>
           sorted (map (\<lambda>p. getPeerDistance (rwTarget (rsMessage s)) (nodeid p)) ps) \<and>
           (\<forall>p \<in> set ps. peer_ok me p \<and> not_further (rsMessage s) p \<and> peer_id hx p \<notin> set (rsContacted s) \<and> peer_id hx p \<notin> set (rsExcluded s))"
proof -
  let ?previous = "map_option nodeid (getPreviousPeer (rsMessage s))"
  let ?keep = "\<lambda>p. peer_id hx p \<notin> set (rsContacted s) \<and> peer_id hx p \<notin> set (rsExcluded s)"
  have prev: "session_previous hx s = map_option (getDhtAddressFromRaw hx) ?previous"
    by (cases "getPreviousPeer (rsMessage s)") (simp_all add: session_previous_def getNodeIdFromPeerDescriptor_def)
  have ok: "pred_option id_ok ?previous" using assms(4) by (cases "getPreviousPeer (rsMessage s)") simp_all
  obtain c1 t where t: "routing_table_for hx connections now (session_target hx s) (session_previous hx s) c = Inr (c1, t)" "tables_ok hx me c1"
      "table_ok hx me (rwTarget (rsMessage s)) ?previous t"
    using routing_table_for_ok [OF assms(1-3) ok] unfolding prev session_target_def by blast
  obtain ps where ps: "getClosestContacts t None = Inr ps" "distinct (map (peer_id hx) ps)"
      "sorted (map (\<lambda>p. getPeerDistance (rwTarget (rsMessage s)) (nodeid p)) ps)"
      "\<forall>p \<in> set ps. peer_ok me p \<and> (case ?previous of None \<Rightarrow> True
         | Some q \<Rightarrow> getPeerDistance (rwTarget (rsMessage s)) (nodeid p) \<le> getPeerDistance (rwTarget (rsMessage s)) q)"
    using table_contacts [OF t(3)] by blast
  have "updateAndGetRoutablePeers hx connections now s c = Inr (c1, filter ?keep ps)" by (simp add: updateAndGetRoutablePeers_def t(1) ps(1))
  moreover have "distinct (map (peer_id hx) (filter ?keep ps))" by (rule distinct_map_filter [OF ps(2)])
  moreover have "sorted (map (\<lambda>p. getPeerDistance (rwTarget (rsMessage s)) (nodeid p)) (filter ?keep ps))" by (rule sorted_filter [OF ps(3)])
  ultimately show ?thesis using t(2) ps(4) by (auto simp: not_further_def split: option.splits)
qed

end

end
