(* ===== verification/Router_Correct.thy ===== *)
theory Router_Correct
  imports Router_Tables
begin

text \<open>
  The router never sends a message back: the invariant of a session and of the router, which every step keeps, and what it says of the
  messages that have been sent.
\<close>

section \<open>The invariant of a session\<close>

definition hop_ok :: "PeerDescriptor \<Rightarrow> RouteMessageWrapper \<Rightarrow> PeerDescriptor \<Rightarrow> bool" where
  "hop_ok me m p \<longleftrightarrow> peer_ok me p \<and> not_further m p \<and> nodeid p \<notin> nodeid ` set (rwRoutingPath m)"

definition task_ids :: "hex_codec \<Rightarrow> routing_session \<Rightarrow> DhtAddress list" where
  "task_ids hx s = map (\<lambda>(p, _). peer_id hx p) (rsTasks s)"

definition unstarted_ids :: "hex_codec \<Rightarrow> routing_session \<Rightarrow> DhtAddress set" where
  "unstarted_ids hx s = {peer_id hx p | p. (p, None) \<in> set (rsTasks s)}"

text \<open>Everything but the bounds on the hops that have failed and succeeded, which a step may reach.\<close>

definition session_base :: "hex_codec \<Rightarrow> PeerDescriptor \<Rightarrow> routing_session \<Rightarrow> bool" where
  "session_base hx me s \<longleftrightarrow>
     rsLocalPeer s = me \<and> \<not> rsStopped s \<and> id_ok (rwTarget (rsMessage s)) \<and>
     pred_option (\<lambda>p. id_ok (nodeid p)) (getPreviousPeer (rsMessage s)) \<and>
     peer_id hx ` set (rwRoutingPath (rsMessage s)) \<subseteq> set (rsExcluded s) \<and>
     (\<forall>t \<in> set (rsTasks s). hop_ok me (rsMessage s) (fst t)) \<and>
     distinct (task_ids hx s) \<and> set (task_ids hx s) \<subseteq> set (rsOngoing s) \<and> set (rsOngoing s) \<subseteq> set (rsContacted s) \<and>
     distinct (rsOngoing s) \<and> distinct (rsContacted s) \<and>
     length (rsOngoing s) \<le> rsParallelism s \<and> rsParallelism s \<le> 2 \<and>
     length (rsContacted s) = length (rsOngoing s) + rsFailedHops s"

definition session_ok :: "hex_codec \<Rightarrow> PeerDescriptor \<Rightarrow> routing_session \<Rightarrow> bool" where
  "session_ok hx me s \<longleftrightarrow> session_base hx me s \<and> rsFailedHops s < maxFailedHops"

text \<open>A peer that a step adds to those still to be sent to has not been contacted before.\<close>

definition session_grows :: "hex_codec \<Rightarrow> routing_session \<Rightarrow> routing_session \<Rightarrow> bool" where
  "session_grows hx s t \<longleftrightarrow>
     set (rsContacted s) \<subseteq> set (rsContacted t) \<and> unstarted_ids hx t \<subseteq> unstarted_ids hx s \<union> - set (rsContacted s)"

lemma grows_refl: "session_grows hx s s"
  by (simp add: session_grows_def)

lemma grows_trans: "session_grows hx s t \<Longrightarrow> session_grows hx t u \<Longrightarrow> session_grows hx s u"
  unfolding session_grows_def by blast

lemma hop_ok_roots [simp]:
  "hop_ok me (m\<lparr>rwParallelRootNodeIds := roots\<rparr>) p = hop_ok me m p" "getPreviousPeer (m\<lparr>rwParallelRootNodeIds := roots\<rparr>) = getPreviousPeer m"
  by (simp_all add: hop_ok_def not_further_def getPreviousPeer_def)

lemma base_delete_root [simp]: "session_base hx me (deleteParallelRootIfSource i s) = session_base hx me s"
  by (simp add: deleteParallelRootIfSource_def session_base_def task_ids_def)

lemma delete_root_frame [simp]:
  "rsStopped (deleteParallelRootIfSource i s) = rsStopped s" "rsOngoing (deleteParallelRootIfSource i s) = rsOngoing s"
  "rsContacted (deleteParallelRootIfSource i s) = rsContacted s" "rsTasks (deleteParallelRootIfSource i s) = rsTasks s"
  "rsFailedHops (deleteParallelRootIfSource i s) = rsFailedHops s"
  by (simp_all add: deleteParallelRootIfSource_def)

text \<open>Peers a session can be given: not contacted, and good next hops.\<close>

definition fresh_peers :: "hex_codec \<Rightarrow> PeerDescriptor \<Rightarrow> routing_session \<Rightarrow> PeerDescriptor list \<Rightarrow> bool" where
  "fresh_peers hx me s ps \<longleftrightarrow>
     distinct (map (peer_id hx) ps) \<and> (\<forall>p \<in> set ps. hop_ok me (rsMessage s) p \<and> peer_id hx p \<notin> set (rsContacted s))"

lemma contact_peer_frame:
  "rsFailedHops (contact_peer hx p s) = rsFailedHops s" "rsStopped (contact_peer hx p s) = rsStopped s"
  "rsParallelism (contact_peer hx p s) = rsParallelism s" "rsLocalPeer (contact_peer hx p s) = rsLocalPeer s"
  "rsContacted (contact_peer hx p s) = List.insert (peer_id hx p) (rsContacted s)"
  "rsOngoing (contact_peer hx p s) = List.insert (peer_id hx p) (rsOngoing s)"
  "rsTasks (contact_peer hx p s) = rsTasks s @ [(p, None)]" "rsExcluded (contact_peer hx p s) = rsExcluded s"
  "rwTarget (rsMessage (contact_peer hx p s)) = rwTarget (rsMessage s)"
  "rwRoutingPath (rsMessage (contact_peer hx p s)) = rwRoutingPath (rsMessage s)"
  "hop_ok me (rsMessage (contact_peer hx p s)) = hop_ok me (rsMessage s)"
  "getPreviousPeer (rsMessage (contact_peer hx p s)) = getPreviousPeer (rsMessage s)"
  by (auto simp: contact_peer_def addParallelRootIfSource_def Let_def)

lemma contact_peer_ok:
  assumes "session_base hx me s" "fresh_peers hx me s (p # ps)" "length (rsOngoing s) < rsParallelism s"
  shows "session_base hx me (contact_peer hx p s)" "fresh_peers hx me (contact_peer hx p s) ps" "session_grows hx s (contact_peer hx p s)"
proof -
  have new: "peer_id hx p \<notin> set (rsContacted s)" "peer_id hx p \<notin> set (rsOngoing s)" "peer_id hx p \<notin> set (task_ids hx s)"
    using assms(1,2) by (auto simp: session_base_def fresh_peers_def)
  show "session_base hx me (contact_peer hx p s)"
    using assms new by (auto simp: session_base_def contact_peer_frame fresh_peers_def task_ids_def)
  show "fresh_peers hx me (contact_peer hx p s) ps"
    using assms(2) by (auto simp: fresh_peers_def contact_peer_frame image_iff)
  show "session_grows hx s (contact_peer hx p s)"
    using new by (auto simp: session_grows_def contact_peer_frame unstarted_ids_def)
qed

lemma send_loop_ok:
  assumes "session_base hx me s" "fresh_peers hx me s ps"
  shows "session_base hx me (send_loop hx ps s) \<and> session_grows hx s (send_loop hx ps s) \<and> rsFailedHops (send_loop hx ps s) = rsFailedHops s"
  using assms
proof (induction hx ps s rule: send_loop.induct)
  case (2 hx p ps s)
  show ?case
  proof (cases "length (rsOngoing s) < rsParallelism s \<and> \<not> rsStopped s")
    case True
    note step = contact_peer_ok [OF "2.prems" conjunct1 [OF True]]
    show ?thesis using 2(1) [OF True step(1,2)] True grows_trans [OF step(3)] by (simp add: contact_peer_frame)
  next
    case False
    then show ?thesis using 2(2) grows_refl by auto
  qed
qed (simp add: grows_refl)

lemma sendMoreRequests_ok:
  assumes "session_ok hx me s" "fresh_peers hx me s ps" "sendMoreRequests hx ps s = (t, None)"
  shows "session_ok hx me t \<and> session_grows hx s t"
  using assms send_loop_ok [of hx me s ps] grows_refl [of hx s] by (auto simp: session_ok_def sendMoreRequests_def split: if_splits)

section \<open>The steps of a session\<close>

context hex_laws
begin

lemma updated_peers:
  assumes "tables_ok hx me c" "\<forall>p \<in> set connections. peer_ok me p" "session_base hx me s"
  shows "\<exists>c1 ps. updateAndGetRoutablePeers hx connections now s c = Inr (c1, ps) \<and> tables_ok hx me c1 \<and> fresh_peers hx me s ps"
proof -
  have s: "id_ok (rwTarget (rsMessage s))" "pred_option (\<lambda>p. id_ok (nodeid p)) (getPreviousPeer (rsMessage s))"
      "peer_id hx ` set (rwRoutingPath (rsMessage s)) \<subseteq> set (rsExcluded s)"
    using assms(3) by (simp_all add: session_base_def)
  obtain c1 ps where ps: "updateAndGetRoutablePeers hx connections now s c = Inr (c1, ps)" "tables_ok hx me c1" "distinct (map (peer_id hx) ps)"
      "\<forall>p \<in> set ps. peer_ok me p \<and> not_further (rsMessage s) p \<and> peer_id hx p \<notin> set (rsContacted s) \<and> peer_id hx p \<notin> set (rsExcluded s)"
    using routable_peers [OF assms(1,2) s(1,2)] by blast
  have "nodeid p \<notin> nodeid ` set (rwRoutingPath (rsMessage s))" if p: "p \<in> set ps" for p
  proof
    assume "nodeid p \<in> nodeid ` set (rwRoutingPath (rsMessage s))"
    then obtain q where "q \<in> set (rwRoutingPath (rsMessage s))" "nodeid p = nodeid q" by (rule imageE)
    then have "peer_id hx p \<in> set (rsExcluded s)" using s(3) by (auto simp: peer_id_inj [of p q, THEN iffD2])
    then show False using ps(4) p by simp
  qed
  then show ?thesis using ps by (auto simp: fresh_peers_def hop_ok_def)
qed

lemma base_drop:
  assumes "session_base hx me s" "k < length (rsTasks s)"
  shows "session_base hx me (drop_send k s) \<and> peer_id hx (fst (rsTasks s ! k)) \<notin> set (task_ids hx (drop_send k s)) \<and>
    session_grows hx s (drop_send k s) \<and> peer_id hx (fst (rsTasks s ! k)) \<in> set (rsOngoing s)"
proof -
  have split: "rsTasks s = take k (rsTasks s) @ rsTasks s ! k # drop (Suc k) (rsTasks s)" using assms(2) by (rule id_take_nth_drop)
  define xs ys t where "xs = take k (rsTasks s)" "ys = drop (Suc k) (rsTasks s)" "t = rsTasks s ! k"
  have tasks: "rsTasks s = xs @ t # ys" using split by (simp add: xs_ys_t_def)
  have dropped: "rsTasks (drop_send k s) = xs @ ys" by (simp add: drop_send_def xs_ys_t_def)
  have frame: "drop_send k s = s\<lparr>rsTasks := xs @ ys\<rparr>" by (simp add: drop_send_def xs_ys_t_def)
  show ?thesis unfolding xs_ys_t_def(3) [symmetric]
    using assms(1) unfolding frame
    by (auto simp: session_base_def task_ids_def tasks session_grows_def unstarted_ids_def case_prod_beta)
qed

lemma length_id_erase: "distinct is \<Longrightarrow> i \<in> set is \<Longrightarrow> Suc (length (id_erase i is)) = length is"
proof (induction "is")
  case (Cons j js)
  have "id_erase i js = js" if "i \<notin> set js" using that by (intro filter_True) auto
  then show ?case using Cons by auto
qed simp

lemma onRequestSucceeded_ok:
  assumes "tables_ok hx me c" "\<forall>p \<in> set connections. peer_ok me p" "session_ok hx me s"
  shows "\<exists>t c1 ev. onRequestSucceeded hx connections now s c = Inr (t, c1, ev) \<and> tables_ok hx me c1 \<and>
    (ev = None \<longrightarrow> session_ok hx me t \<and> session_grows hx s t)"
proof -
  define s1 where "s1 = s\<lparr>rsSuccessfulHops := rsSuccessfulHops s + 1\<rparr>"
  have s1: "session_ok hx me s1" "session_grows hx s s1" "\<not> rsStopped s"
    using assms(3) by (simp_all add: s1_def session_ok_def session_base_def task_ids_def session_grows_def unstarted_ids_def)
  obtain c1 ps where ps: "updateAndGetRoutablePeers hx connections now s1 c = Inr (c1, ps)" "tables_ok hx me c1" "fresh_peers hx me s1 ps"
    using updated_peers [OF assms(1,2), of s1] s1(1) unfolding session_ok_def by blast
  obtain t ev where t: "sendMoreRequests hx ps s1 = (t, ev)" by (cases "sendMoreRequests hx ps s1")
  have "ev = None \<longrightarrow> session_ok hx me t \<and> session_grows hx s t"
    using sendMoreRequests_ok [OF s1(1) ps(3), of t] t grows_trans [OF s1(2)] by auto
  then show ?thesis using s1 ps t assms(1) unfolding onRequestSucceeded_def Let_def s1_def [symmetric] by simp
qed

lemma onRequestFailed_ok:
  assumes "tables_ok hx me c" "\<forall>p \<in> set connections. peer_ok me p" "session_ok hx me s" "i \<in> set (rsOngoing s)" "i \<notin> set (task_ids hx s)"
  shows "\<exists>t c1 ev. onRequestFailed hx connections now i s c = Inr (t, c1, ev) \<and> tables_ok hx me c1 \<and>
    (ev = None \<longrightarrow> session_ok hx me t \<and> session_grows hx s t)"
proof -
  define s1 where "s1 = deleteParallelRootIfSource i (s\<lparr>rsOngoing := id_erase i (rsOngoing s)\<rparr>)"
  define s2 where "s2 = s1\<lparr>rsFailedHops := rsFailedHops s1 + 1\<rparr>"
  have base: "session_base hx me s" "rsFailedHops s < maxFailedHops" using assms(3) by (simp_all add: session_ok_def)
  have "Suc (length (id_erase i (rsOngoing s))) = length (rsOngoing s)"
    using base(1) assms(4) by (intro length_id_erase) (simp_all add: session_base_def)
  then have "session_base hx me (s\<lparr>rsOngoing := id_erase i (rsOngoing s), rsFailedHops := rsFailedHops s + 1\<rparr>)"
    using base(1) assms(5) by (auto simp: session_base_def task_ids_def)
  moreover have "s2 = deleteParallelRootIfSource i (s\<lparr>rsOngoing := id_erase i (rsOngoing s), rsFailedHops := rsFailedHops s + 1\<rparr>)"
    by (simp add: s2_def s1_def deleteParallelRootIfSource_def is_recursive_source_def)
  ultimately have s2: "session_base hx me s2" by simp
  have grows: "session_grows hx s s2" by (simp add: session_grows_def unstarted_ids_def s2_def s1_def)
  have run: "\<not> rsStopped s" using base(1) by (simp add: session_base_def)
  obtain c1 ps where ps: "updateAndGetRoutablePeers hx connections now s2 c = Inr (c1, ps)" "tables_ok hx me c1" "fresh_peers hx me s2 ps"
    using updated_peers [OF assms(1,2) s2] by blast
  obtain t ev where t: "sendMoreRequests hx ps s2 = (t, ev)" by (cases "sendMoreRequests hx ps s2")
  have "ev = None \<longrightarrow> session_ok hx me t \<and> session_grows hx s t" if "rsFailedHops s2 < maxFailedHops"
    using sendMoreRequests_ok [OF _ ps(3), of t] s2 that t grows_trans [OF grows] by (auto simp: session_ok_def)
  then show ?thesis using run ps t assms(1) unfolding onRequestFailed_def Let_def s1_def [symmetric] s2_def [symmetric] by simp
qed

lemma task_end_ok:
  assumes "tables_ok hx me c" "\<forall>p \<in> set connections. peer_ok me p" "session_ok hx me s"
  shows "\<exists>t c1 ev. task_end hx connections now k result s c = Inr (t, c1, ev) \<and> tables_ok hx me c1 \<and>
    (ev = None \<longrightarrow> session_ok hx me t \<and> session_grows hx s t)"
proof (cases "k < length (rsTasks s) \<and> (snd (rsTasks s ! k) \<noteq> None \<or> rsStopped s)")
  case True
  define s1 i where "s1 = drop_send k s" "i = peer_id hx (fst (rsTasks s ! k))"
  have d: "session_base hx me s1" "i \<notin> set (task_ids hx s1)" "session_grows hx s s1" "i \<in> set (rsOngoing s1)"
    using base_drop [of me s k] assms(3) True by (simp_all add: s1_i_def session_ok_def) (simp add: drop_send_def)
  have s1: "session_ok hx me s1" using d(1) assms(3) by (simp add: session_ok_def s1_i_def drop_send_def)
  have "\<exists>t c1 ev. (case result of Acknowledged \<Rightarrow> onRequestSucceeded hx connections now s1 c
             | Refused \<Rightarrow> onRequestFailed hx connections now i s1 c | Threw \<Rightarrow> Inr (s1, c, None)) = Inr (t, c1, ev) \<and> tables_ok hx me c1 \<and>
           (ev = None \<longrightarrow> session_ok hx me t \<and> session_grows hx s1 t)"
    using onRequestSucceeded_ok [OF assms(1,2) s1] onRequestFailed_ok [OF assms(1,2) s1 d(4,2)] assms(1) s1 grows_refl
    by (cases result) simp_all
  then show ?thesis using True grows_trans [OF d(3)] unfolding task_end_def Let_def s1_i_def [symmetric] by auto
next
  case False
  then show ?thesis using assms grows_refl by (auto simp: task_end_def)
qed

end

section \<open>The invariant of the router\<close>

definition sent_ids :: "hex_codec \<Rightarrow> string \<Rightarrow> router \<Rightarrow> DhtAddress list" where
  "sent_ids hx sid r = map (\<lambda>(_, p, _). peer_id hx p) (filter (\<lambda>(i, _). i = sid) (roSent r))"

text \<open>A message that has been sent: the local peer is the last of its path, and its receiver a good next hop.\<close>

definition sent_ok :: "PeerDescriptor \<Rightarrow> string \<times> PeerDescriptor \<times> RoutingMode \<times> RouteMessageWrapper \<Rightarrow> bool" where
  "sent_ok me x \<longleftrightarrow>
     (case x of (sid, p, mode, w) \<Rightarrow> \<exists>path. rwRoutingPath w = path @ [me] \<and> hop_ok me (w\<lparr>rwRoutingPath := path\<rparr>) p)"

definition forwarding_ok :: "router \<Rightarrow> bool" where
  "forwarding_ok r \<longleftrightarrow> (\<forall>i e. om_find (roForwarding r) i = Some e \<longrightarrow> (\<forall>p \<in> set (fePeers e). id_ok (nodeid p)))"

definition live_ok :: "hex_codec \<Rightarrow> PeerDescriptor \<Rightarrow> string \<Rightarrow> routing_session \<Rightarrow> router \<Rightarrow> bool" where
  "live_ok hx me sid s r \<longleftrightarrow>
     session_ok hx me s \<and> set (sent_ids hx sid r) \<subseteq> set (rsContacted s) \<and> set (sent_ids hx sid r) \<inter> unstarted_ids hx s = {}"

text \<open>\<open>used\<close> are the identifiers of sessions that have been drawn.\<close>

definition router_ok :: "hex_codec \<Rightarrow> PeerDescriptor \<Rightarrow> string set \<Rightarrow> router \<Rightarrow> bool" where
  "router_ok hx me used r \<longleftrightarrow>
     roLocal r = me \<and> tables_ok hx me (roTables r) \<and> forwarding_ok r \<and>
     (\<forall>sid s. om_find (roSessions r) sid = Some s \<longrightarrow> sid \<in> used \<and> live_ok hx me sid s r) \<and>
     (\<forall>sid. distinct (sent_ids hx sid r) \<and> length (sent_ids hx sid r) \<le> 3 \<and> (sid \<notin> used \<longrightarrow> sent_ids hx sid r = [])) \<and>
     (\<forall>x \<in> set (roSent r). sent_ok me x)"

lemma router_ok_create: "router_ok hx me {} (router_create me)"
  by (simp add: router_ok_def router_create_def tables_ok_create forwarding_ok_def sent_ids_def om_find_def)

lemma sent_ids_frame: "roSent r = roSent t \<Longrightarrow> sent_ids hx sid r = sent_ids hx sid t"
  by (simp add: sent_ids_def)

lemma live_ok_frame: "roSent r = roSent t \<Longrightarrow> live_ok hx me sid s r = live_ok hx me sid s t"
  by (simp add: live_ok_def sent_ids_frame [of r t])

text \<open>Changes that leave what has been sent, and add no session.\<close>

lemma router_ok_frame:
  assumes "router_ok hx me used r" "roLocal t = roLocal r" "roSent t = roSent r" "tables_ok hx me (roTables t)" "forwarding_ok t"
    "\<And>sid s. om_find (roSessions t) sid = Some s \<Longrightarrow> om_find (roSessions r) sid = Some s"
  shows "router_ok hx me used t"
  using assms unfolding router_ok_def live_ok_frame [OF assms(3)] sent_ids_frame [OF assms(3)] assms(2,3) by blast

lemma router_ok_mono: "router_ok hx me used r \<Longrightarrow> used \<subseteq> U \<Longrightarrow> router_ok hx me U r"
  unfolding router_ok_def by (meson subsetD)

text \<open>A session that has ended, or has grown.\<close>

lemma router_ok_cleanup: "router_ok hx me used r \<Longrightarrow> router_ok hx me used (cleanupSession sid r)"
  by (rule router_ok_frame) (auto simp: cleanupSession_def router_ok_def forwarding_ok_def split: if_splits)

lemma router_ok_keep:
  assumes "router_ok hx me used r" "sid \<in> used" "ev = None \<longrightarrow> live_ok hx me sid s r"
  shows "router_ok hx me used (keep_session sid s ev r)"
proof (cases "ev = None")
  case True
  let ?t = "r\<lparr>roSessions := om_put sid s (roSessions r)\<rparr>"
  have sent: "roSent ?t = roSent r" by simp
  have "forwarding_ok ?t" using assms(1) by (simp add: router_ok_def forwarding_ok_def)
  then have "router_ok hx me used ?t"
    using assms True unfolding router_ok_def live_ok_frame [OF sent] sent_ids_frame [OF sent] by auto
  then show ?thesis using True by (simp add: keep_session_def)
next
  case False
  then show ?thesis using router_ok_cleanup [OF assms(1)] by (auto simp: keep_session_def)
qed

lemma live_grows: "live_ok hx me sid s r \<Longrightarrow> session_ok hx me t \<Longrightarrow> session_grows hx s t \<Longrightarrow> live_ok hx me sid t r"
  unfolding live_ok_def session_grows_def by blast

section \<open>The steps of the router\<close>

definition wrapper_ok :: "RouteMessageWrapper \<Rightarrow> bool" where
  "wrapper_ok m \<longleftrightarrow>
     id_ok (rwTarget m) \<and> (\<forall>p \<in> set (rwRoutingPath m) \<union> set (rwReachableThrough m). id_ok (nodeid p)) \<and>
     id_ok (nodeid (targetDescriptor (rwMessage m)))"

definition connections_ok :: "PeerDescriptor \<Rightarrow> PeerDescriptor list \<Rightarrow> bool" where
  "connections_ok me ps \<longleftrightarrow> (\<forall>p \<in> set ps. peer_ok me p)"

fun event_ok :: "PeerDescriptor \<Rightarrow> router_event \<Rightarrow> bool" where
  "event_ok me (RouteRpc connections now sid m) = (connections_ok me connections \<and> wrapper_ok m)"
| "event_ok me (ForwardRpc connections now sid uuid m) = (connections_ok me connections \<and> wrapper_ok m)"
| "event_ok me (RouterSend connections now sid uuid m through) =
     (connections_ok me connections \<and> id_ok (nodeid (targetDescriptor m)) \<and> (\<forall>p \<in> set through. id_ok (nodeid p)))"
| "event_ok me (TaskEnd connections now sid k result) = connections_ok me connections"
| "event_ok me (NodeConnected p) = peer_ok me p"
| "event_ok me _ = True"

text \<open>The identifiers that the event draws for a session.\<close>

fun event_sids :: "router_event \<Rightarrow> string list" where
  "event_sids (RouteRpc connections now sid m) = [sid]"
| "event_sids (ForwardRpc connections now sid uuid m) = [sid]"
| "event_sids (RouterSend connections now sid uuid m through) = [sid]"
| "event_sids _ = []"

lemma wrapper_previous: "wrapper_ok m \<Longrightarrow> pred_option (\<lambda>p. id_ok (nodeid p)) (getPreviousPeer m)"
  by (auto simp: wrapper_ok_def getPreviousPeer_def)

lemma session_start:
  assumes "wrapper_ok m" "roLocal r = me"
  shows "session_ok hx me (createRoutingSession hx m mode excluded r)"
  using assms wrapper_previous [OF assms(1)]
  by (auto simp: session_ok_def session_base_def createRoutingSession_def task_ids_def maxFailedHops_def wrapper_ok_def)

lemma forwarding_set:
  assumes "forwarding_ok r" "wrapper_ok m"
  shows "forwarding_ok (setForwardingEntries hx m r)"
  using assms
  by (auto simp: forwarding_ok_def setForwardingEntries_def Let_def om_emplace_def cancel_timer_def wrapper_ok_def split: option.splits if_splits)

lemma setForwardingEntries_frame:
  "roLocal (setForwardingEntries hx m r) = roLocal r" "roSent (setForwardingEntries hx m r) = roSent r"
  "roTables (setForwardingEntries hx m r) = roTables r" "roSessions (setForwardingEntries hx m r) = roSessions r"
  by (auto simp: setForwardingEntries_def Let_def cancel_timer_def split: option.splits)

context hex_laws
begin

lemma doRouteMessage_ok:
  assumes "router_ok hx me used r" "connections_ok me connections" "wrapper_ok m" "sid \<notin> used"
  shows "\<exists>t ack. doRouteMessage hx connections now sid m mode excluded r = Inr (t, ack) \<and> router_ok hx me (insert sid used) t"
proof -
  define s where "s = createRoutingSession hx m mode excluded r"
  have me: "roLocal r = me" "tables_ok hx me (roTables r)" "forwarding_ok r" using assms(1) by (simp_all add: router_ok_def)
  have s: "session_ok hx me s" unfolding s_def using assms(3) me(1) by (rule session_start)
  obtain c ps where ps: "updateAndGetRoutablePeers hx connections now s (roTables r) = Inr (c, ps)" "tables_ok hx me c" "fresh_peers hx me s ps"
    using updated_peers [OF me(2), of connections s now] assms(2) s by (auto simp: connections_ok_def session_ok_def)
  obtain t ev where t: "sendMoreRequests hx ps s = (t, ev)" by (cases "sendMoreRequests hx ps s")
  have r: "router_ok hx me (insert sid used) r" using router_ok_mono [OF assms(1)] by blast
  have r1: "router_ok hx me (insert sid used) (r\<lparr>roTables := c\<rparr>)"
    by (rule router_ok_frame [OF r]) (use ps(2) me(3) in \<open>simp_all add: forwarding_ok_def\<close>)
  have none: "sent_ids hx sid (r\<lparr>roTables := c\<rparr>) = []" using assms(1,4) by (simp add: router_ok_def sent_ids_def)
  have "ev = None \<longrightarrow> live_ok hx me sid t (r\<lparr>roTables := c\<rparr>)"
    using sendMoreRequests_ok [OF s ps(3), of t] t none by (simp add: live_ok_def)
  then have "router_ok hx me (insert sid used) (keep_session sid t ev (r\<lparr>roTables := c\<rparr>))" by (intro router_ok_keep [OF r1]) simp_all
  then show ?thesis using r r1 ps(1) t by (auto simp: doRouteMessage_def s_def [symmetric] Let_def)
qed

lemma router_ok_detector: "router_ok hx me used r \<Longrightarrow> router_ok hx me used (r\<lparr>roDetector := d\<rparr>)"
  by (rule router_ok_frame) (simp_all add: router_ok_def forwarding_ok_def)

lemma router_ok_handle: "router_ok hx me used r \<Longrightarrow> router_ok hx me used (ro_handleMessage m r)"
  by (rule router_ok_frame) (simp_all add: router_ok_def forwarding_ok_def ro_handleMessage_def)

lemma router_ok_forwarding: "router_ok hx me used r \<Longrightarrow> wrapper_ok m \<Longrightarrow> router_ok hx me used (setForwardingEntries hx m r)"
  by (rule router_ok_frame) (simp_all add: router_ok_def forwarding_set setForwardingEntries_frame)

lemma rpc_routeMessage_ok:
  assumes "router_ok hx me used r" "connections_ok me connections" "wrapper_ok m" "sid \<notin> used"
  shows "\<exists>t ack. rpc_routeMessage hx connections now sid m r = Inr (t, ack) \<and> router_ok hx me (insert sid used) t"
  using doRouteMessage_ok [OF router_ok_detector [OF assms(1)] assms(2-4)] router_ok_mono [of hx me used _ "insert sid used"]
    router_ok_handle [OF router_ok_forwarding [OF router_ok_detector [OF assms(1)] assms(3)]] assms(1)
  unfolding rpc_routeMessage_def Let_def by (auto simp: subset_insertI)

lemma rpc_forwardMessage_ok:
  assumes "router_ok hx me used r" "connections_ok me connections" "wrapper_ok m" "sid \<notin> used"
  shows "\<exists>t ack. rpc_forwardMessage hx connections now sid uuid m r = Inr (t, ack) \<and> router_ok hx me (insert sid used) t"
proof -
  have m: "wrapper_ok (m\<lparr>rwRequestId := uuid, rwTarget := nodeid (targetDescriptor (rwMessage m))\<rparr>)" using assms(3) by (simp add: wrapper_ok_def)
  note r = router_ok_detector [OF assms(1)]
  show ?thesis
    using doRouteMessage_ok [OF r assms(2,3,4)] doRouteMessage_ok [OF r assms(2) m assms(4)] router_ok_mono [of hx me used _ "insert sid used"]
      router_ok_handle [OF r] assms(1)
    unfolding rpc_forwardMessage_def forwardToDestination_def Let_def by (auto simp: subset_insertI)
qed

lemma router_send_ok:
  assumes "router_ok hx me used r" "connections_ok me connections" "id_ok (nodeid (targetDescriptor m))" "\<forall>p \<in> set through. id_ok (nodeid p)" "sid \<notin> used"
  shows "\<exists>t ack. router_send hx connections now sid uuid m through r = Inr (t, ack) \<and> router_ok hx me (insert sid used) t"
proof -
  let ?m = "m\<lparr>sourceDescriptor := Some (roLocal r)\<rparr>"
  have wrap: "wrapper_ok (sent_wrapper ?m through uuid r target)" if "id_ok target" for target
    using that assms(3,4) by (simp add: wrapper_ok_def sent_wrapper_def)
  have direct: "\<exists>t ack. doRouteMessage hx connections now sid (sent_wrapper ?m through uuid r target) mode None r = Inr (t, ack) \<and>
      router_ok hx me (insert sid used) t" if "id_ok target" for target mode
    using doRouteMessage_ok [OF assms(1,2) wrap [OF that] assms(5)] by blast
  have "id_ok (nodeid p)" if "om_find (roForwarding r) i = Some e" "fePeers e = p # ps" for i e p ps
    using assms(1) that by (fastforce simp: router_ok_def forwarding_ok_def)
  then show ?thesis using direct assms(3) by (simp add: router_send_def Let_def split: option.split list.split)
qed

lemma task_start_ok:
  assumes "session_ok hx me s" "k < length (rsTasks s)" "snd (rsTasks s ! k) = None" "\<not> rsStopped s"
  shows "session_ok hx me (task_start k s)" "rsContacted (task_start k s) = rsContacted s" "sent_ok me (sid, fst (rsTasks s ! k), rsMode s, outgoing s)"
    "unstarted_ids hx (task_start k s) \<subseteq> unstarted_ids hx s - {peer_id hx (fst (rsTasks s ! k))}"
    "peer_id hx (fst (rsTasks s ! k)) \<in> unstarted_ids hx s" "peer_id hx (fst (rsTasks s ! k)) \<in> set (rsContacted s)"
proof -
  let ?p = "fst (rsTasks s ! k)"
  have start: "task_start k s = s\<lparr>rsTasks := (rsTasks s)[k := (?p, Some (outgoing s))]\<rparr>" using assms(2-4) by (simp add: task_start_def)
  have pk: "rsTasks s ! k = (?p, None)" using assms(3) by (metis prod.collapse)
  have mem: "(?p, None) \<in> set (rsTasks s)" using assms(2) pk by (metis nth_mem)
  have base: "session_base hx me s" using assms(1) by (simp add: session_ok_def)
  have "map (\<lambda>(p, _). peer_id hx p) ((rsTasks s)[k := (?p, Some (outgoing s))]) = map (\<lambda>(p, _). peer_id hx p) (rsTasks s)"
    using assms(2) pk by (intro nth_equalityI) (auto simp: nth_list_update split: prod.splits)
  then have ids: "task_ids hx (task_start k s) = task_ids hx s" by (simp add: task_ids_def start)
  have hops: "\<forall>t \<in> set ((rsTasks s)[k := (?p, Some (outgoing s))]). hop_ok me (rsMessage s) (fst t)"
    using base mem by (auto simp: session_base_def dest!: set_update_subset_insert [THEN subsetD])
  show "session_ok hx me (task_start k s)"
    using assms(1) hops ids unfolding session_ok_def session_base_def start by simp
  show "rsContacted (task_start k s) = rsContacted s" by (simp add: start)
  have me: "rsLocalPeer s = me" "hop_ok me (rsMessage s) ?p" using base mem by (force simp: session_base_def)+
  then show "sent_ok me (sid, ?p, rsMode s, outgoing s)" by (simp add: sent_ok_def outgoing_def)
  show "peer_id hx ?p \<in> unstarted_ids hx s" using mem by (auto simp: unstarted_ids_def)
  show "peer_id hx ?p \<in> set (rsContacted s)" using base mem by (force simp: session_base_def task_ids_def)
  show "unstarted_ids hx (task_start k s) \<subseteq> unstarted_ids hx s - {peer_id hx ?p}"
  proof
    fix i assume "i \<in> unstarted_ids hx (task_start k s)"
    then obtain q where q: "i = peer_id hx q" "(q, None) \<in> set ((rsTasks s)[k := (?p, Some (outgoing s))])" by (auto simp: unstarted_ids_def start)
    then obtain j where j: "j < length (rsTasks s)" "(rsTasks s)[k := (?p, Some (outgoing s))] ! j = (q, None)" by (auto simp: in_set_conv_nth)
    then have jk: "j \<noteq> k" "rsTasks s ! j = (q, None)" using assms(2) by (auto simp: nth_list_update split: if_splits)
    have "task_ids hx s ! j \<noteq> task_ids hx s ! k" using base j(1) assms(2) jk(1) nth_eq_iff_index_eq [of "task_ids hx s" j k] by (simp add: session_base_def task_ids_def)
    then have "i \<noteq> peer_id hx ?p" using j(1) jk(2) assms(2) q(1) by (simp add: task_ids_def case_prod_beta)
    then show "i \<in> unstarted_ids hx s - {peer_id hx ?p}" using q(1) j(1) jk(2) by (auto simp: unstarted_ids_def in_set_conv_nth)
  qed
qed

lemma ro_taskStart_ok:
  assumes "router_ok hx me used r"
  shows "router_ok hx me used (ro_taskStart sid k r)"
proof (cases "om_find (roSessions r) sid")
  case (Some s)
  show ?thesis
  proof (cases "k < length (rsTasks s) \<and> snd (rsTasks s ! k) = None \<and> \<not> rsStopped s")
    case True
    let ?p = "fst (rsTasks s ! k)"
    define t where "t = r\<lparr>roSessions := om_put sid (task_start k s) (roSessions r), roSent := roSent r @ [(sid, ?p, rsMode s, outgoing s)]\<rparr>"
    have live: "live_ok hx me sid s r" "sid \<in> used" using assms Some by (simp_all add: router_ok_def)
    have sok: "session_ok hx me s" using live(1) by (simp add: live_ok_def)
    note start = task_start_ok [OF sok, of k] True
    have ids: "sent_ids hx i t = sent_ids hx i r @ (if i = sid then [peer_id hx ?p] else [])" for i by (simp add: sent_ids_def t_def)
    have sub: "insert (peer_id hx ?p) (set (sent_ids hx sid r)) \<subseteq> set (rsContacted s)" and new: "peer_id hx ?p \<notin> set (sent_ids hx sid r)"
      using start live(1) by (auto simp: live_ok_def)
    have dist: "distinct (sent_ids hx i r)" "length (sent_ids hx i r) \<le> 3" for i using assms by (simp_all add: router_ok_def)
    have "Suc (length (sent_ids hx sid r)) = card (insert (peer_id hx ?p) (set (sent_ids hx sid r)))" using new dist(1) by (simp add: distinct_card)
    also have "\<dots> \<le> card (set (rsContacted s))" using sub by (intro card_mono) auto
    also have "\<dots> \<le> 3" using sok distinct_card [of "rsContacted s"] by (simp add: session_ok_def session_base_def maxFailedHops_def)
    finally have len: "Suc (length (sent_ids hx sid r)) \<le> 3" .
    have "live_ok hx me sid (task_start k s) t"
      using start sub live(1) by (auto simp: live_ok_def ids)
    moreover have "live_ok hx me i u t" if "om_find (roSessions r) i = Some u" "i \<noteq> sid" for i u
      using assms that by (simp add: router_ok_def live_ok_def ids)
    moreover have "roLocal t = roLocal r" "roTables t = roTables r" "forwarding_ok t = forwarding_ok r" "roSessions t = om_put sid (task_start k s) (roSessions r)"
      "roSent t = roSent r @ [(sid, ?p, rsMode s, outgoing s)]" by (simp_all add: t_def forwarding_ok_def)
    ultimately have "router_ok hx me used t"
      using assms live(2) len new start by (auto simp: router_ok_def ids)
    then show ?thesis using Some True by (simp add: ro_taskStart_def t_def)
  qed (use assms Some in \<open>auto simp: ro_taskStart_def\<close>)
qed (use assms in \<open>simp add: ro_taskStart_def\<close>)

lemma ro_taskEnd_ok:
  assumes "router_ok hx me used r" "connections_ok me connections"
  shows "\<exists>t. ro_taskEnd hx connections now sid k result r = Inr t \<and> router_ok hx me used t"
proof (cases "om_find (roSessions r) sid")
  case (Some s)
  have live: "live_ok hx me sid s r" "sid \<in> used" and tab: "tables_ok hx me (roTables r)" and fwd: "forwarding_ok r"
    using assms(1) Some by (simp_all add: router_ok_def)
  obtain t c ev where t: "task_end hx connections now k result s (roTables r) = Inr (t, c, ev)" "tables_ok hx me c"
      "ev = None \<longrightarrow> session_ok hx me t \<and> session_grows hx s t"
    using task_end_ok [OF tab, of connections s now k result] assms(2) live(1) by (auto simp: connections_ok_def live_ok_def)
  have r1: "router_ok hx me used (r\<lparr>roTables := c\<rparr>)"
    by (rule router_ok_frame [OF assms(1)]) (use t(2) fwd in \<open>simp_all add: forwarding_ok_def\<close>)
  have "ev = None \<longrightarrow> live_ok hx me sid t (r\<lparr>roTables := c\<rparr>)"
    using live_grows [OF live(1)] t(3) live_ok_frame [of "r\<lparr>roTables := c\<rparr>" r] by simp
  then have "router_ok hx me used (keep_session sid t ev (r\<lparr>roTables := c\<rparr>))" by (rule router_ok_keep [OF r1 live(2)])
  then show ?thesis using Some t(1) by (simp add: ro_taskEnd_def)
qed (use assms in \<open>simp add: ro_taskEnd_def\<close>)

lemma router_step_ok:
  assumes "router_ok hx me used r" "event_ok me e" "set (event_sids e) \<inter> used = {}"
  shows "router_ok hx me (set (event_sids e) \<union> used) (router_step hx r e)"
proof -
  have me: "tables_ok hx me (roTables r)" "forwarding_ok r" using assms(1) by (simp_all add: router_ok_def)
  show ?thesis
  proof (cases e)
    case (RouteRpc connections now sid m)
    then show ?thesis using rpc_routeMessage_ok [OF assms(1), of connections m sid now] assms(2,3) by (auto simp: or_same_def)
  next
    case (ForwardRpc connections now sid uuid m)
    then show ?thesis using rpc_forwardMessage_ok [OF assms(1), of connections m sid now uuid] assms(2,3) by (auto simp: or_same_def)
  next
    case (RouterSend connections now sid uuid m through)
    then show ?thesis using router_send_ok [OF assms(1), of connections m through sid now uuid] assms(2,3) by (auto simp: or_same_def)
  next
    case (TaskStart sid k)
    then show ?thesis using ro_taskStart_ok [OF assms(1)] by simp
  next
    case (TaskEnd connections now sid k result)
    then show ?thesis using ro_taskEnd_ok [OF assms(1), of connections now sid k result] assms(2) by (auto simp: or_same_def)
  next
    case (SessionTimeout sid)
    then show ?thesis using router_ok_cleanup [OF assms(1)] by simp
  next
    case (ForwardTimer i)
    have "router_ok hx me used (ro_timer i r)"
      by (rule router_ok_frame [OF assms(1)]) (use me in \<open>auto simp: ro_timer_def cancel_timer_def forwarding_ok_def split: option.splits\<close>)
    then show ?thesis using ForwardTimer by simp
  next
    case ForwardErase
    have "router_ok hx me used (ro_erase r)"
      by (rule router_ok_frame [OF assms(1)]) (use me in \<open>auto simp: ro_erase_def forwarding_ok_def split: list.splits if_splits\<close>)
    then show ?thesis using ForwardErase by simp
  next
    case (NodeConnected p)
    have "router_ok hx me used (ro_onNodeConnected hx p r)"
      by (rule router_ok_frame [OF assms(1)])
        (use me tables_ok_connected [OF me(1), of p] assms(2) NodeConnected in \<open>auto simp: ro_onNodeConnected_def forwarding_ok_def\<close>)
    then show ?thesis using NodeConnected by simp
  next
    case (NodeDisconnected p)
    have "router_ok hx me used (ro_onNodeDisconnected hx p r)"
      by (rule router_ok_frame [OF assms(1)]) (use me tables_ok_disconnected [OF me(1)] in \<open>auto simp: ro_onNodeDisconnected_def forwarding_ok_def\<close>)
    then show ?thesis using NodeDisconnected by simp
  next
    case ResetCache
    have "router_ok hx me used (ro_resetCache r)"
      by (rule router_ok_frame [OF assms(1)]) (use me tables_ok_reset in \<open>auto simp: ro_resetCache_def forwarding_ok_def\<close>)
    then show ?thesis using ResetCache by simp
  next
    case (AddRequestId requestId)
    then show ?thesis using router_ok_detector [OF assms(1)] by (simp add: ro_addToDuplicateDetector_def)
  next
    case StopRouter
    have "router_ok hx me used (router_stop r)"
      by (rule router_ok_frame [OF assms(1)]) (use me tables_ok_reset in \<open>auto simp: router_stop_def forwarding_ok_def om_find_def\<close>)
    then show ?thesis using StopRouter by simp
  qed
qed

lemma router_run_ok:
  assumes "router_ok hx me used r" "list_all (event_ok me) es" "distinct (concat (map event_sids es))" "set (concat (map event_sids es)) \<inter> used = {}"
  shows "\<exists>U. router_ok hx me U (foldl (router_step hx) r es)"
  using assms
proof (induction es arbitrary: used r)
  case (Cons e es)
  have "router_ok hx me (set (event_sids e) \<union> used) (router_step hx r e)" using Cons.prems by (intro router_step_ok) auto
  moreover have "set (concat (map event_sids es)) \<inter> (set (event_sids e) \<union> used) = {}" using Cons.prems(3,4) by auto
  ultimately show ?case using Cons.prems by (auto intro!: Cons.IH [of "set (event_sids e) \<union> used"] simp del: set_concat)
qed auto

end

end
