(* ===== verification/Router_Properties.thy ===== *)
theory Router_Properties
  imports Router_Correct
begin

text \<open>
  What the router promises, from its creation on, over every run of requests, tasks, timers and changes of connections; and where it does
  less than its comments say.
\<close>

section \<open>A message moves on\<close>


text \<open>
  C19. The work for a routed message is bounded, and no peer is asked twice: in every run, the peers that a session has sent its message to
  are different, and there are at most three of them.
\<close>

theorem session_effort_bounded:
  assumes "hex_laws hx" "list_all (event_ok me) es" "distinct (concat (map event_sids es))"
  shows "distinct (sent_ids hx sid (foldl (router_step hx) (router_create me) es)) \<and>
    length (sent_ids hx sid (foldl (router_step hx) (router_create me) es)) \<le> 3"
proof -
  obtain U where "router_ok hx me U (foldl (router_step hx) (router_create me) es)"
    using hex_laws.router_run_ok [OF assms(1) router_ok_create assms(2,3)] by auto
  then show ?thesis by (simp add: router_ok_def)
qed

section \<open>A concrete run\<close>

text \<open>A node with two connections sends to a third peer; the first connection refuses, the second takes the message.\<close>

definition route_peer :: "byte \<Rightarrow> PeerDescriptor" where
  "route_peer b = \<lparr>nodeid = replicate 19 0 @ [b], region = 0, ipaddress = 0, websocket = None\<rparr>"

definition route_message :: Message where
  "route_message =
     \<lparr>messageId = ''m'', serviceId = ''s'', hasRpcMessage = False, msgBody = [], sourceDescriptor = None, targetDescriptor = route_peer 7\<rparr>"

definition route_run :: "router_event list" where
  "route_run =
     [RouterSend [route_peer 4, route_peer 2] 0 ''s1'' ''u1'' route_message [], TaskStart ''s1'' 0, TaskStart ''s1'' 1,
      TaskEnd [route_peer 4, route_peer 2] 10 ''s1'' 0 Refused]"

definition route_start :: router where
  "route_start = foldl (router_step ref_hex) (router_create (route_peer 1)) (take 3 route_run)"

lemma route_run_ok: "list_all (event_ok (route_peer 1)) route_run" "distinct (concat (map event_sids route_run))"
  "list_all (event_ok (route_peer 1)) (take 3 route_run)" "distinct (concat (map event_sids (take 3 route_run)))"
  by code_simp+

lemma route_start_sent: "length (roSent route_start) = 2" "sent_ids ref_hex ''s1'' route_start = map (peer_id ref_hex) [route_peer 4, route_peer 2]"
  by code_simp+


theorem session_effort_witness:
  "distinct (sent_ids ref_hex ''s1'' route_start) \<and> sent_ids ref_hex ''s1'' route_start = map (peer_id ref_hex) [route_peer 4, route_peer 2]"
  using session_effort_bounded [OF ref.hex_laws_axioms route_run_ok(3,4), of "''s1''"] route_start_sent(2) by (simp add: route_start_def)

section \<open>A stopped router\<close>

interpretation ro_stopped: op_machine "router_step hx"
  "\<lambda>r. roStopped r \<and> roSessions r = [] \<and> roForwarding r = [] \<and> roSent r = sent \<and> roDelivered r = delivered" "\<lambda>_. True" for hx sent delivered
proof
  fix r :: router and e
  assume "roStopped r \<and> roSessions r = [] \<and> roForwarding r = [] \<and> roSent r = sent \<and> roDelivered r = delivered"
  then show "roStopped (router_step hx r e) \<and> roSessions (router_step hx r e) = [] \<and> roForwarding (router_step hx r e) = [] \<and>
      roSent (router_step hx r e) = sent \<and> roDelivered (router_step hx r e) = delivered"
    by (cases e)
      (auto simp: or_same_def rpc_routeMessage_def rpc_forwardMessage_def router_send_def doRouteMessage_def ro_taskStart_def ro_taskEnd_def om_find_def
        cleanupSession_def om_erase_def ro_timer_def cancel_timer_def ro_erase_def ro_onNodeConnected_def ro_onNodeDisconnected_def ro_resetCache_def
        ro_addToDuplicateDetector_def router_stop_def Let_def split: option.splits list.splits)
qed

text \<open>
  C38. A stopped router stays silent: whatever happens after \<^verbatim>\<open>stop\<close>, answers and timers of the past included, nothing more is sent or delivered, no
  session or forwarding entry is made, and every request is answered with \<^verbatim>\<open>STOPPED\<close>.
\<close>

theorem stopped_router_silent:
  assumes "t = foldl (router_step hx) (router_stop r) es"
  shows "roSent t = roSent r \<and> roDelivered t = roDelivered r \<and> roSessions t = [] \<and> roForwarding t = [] \<and>
    rpc_routeMessage hx connections now sid m t = Inr (t, createRouteMessageAck m (Some STOPPED)) \<and>
    rpc_forwardMessage hx connections now sid uuid m t = Inr (t, createRouteMessageAck m (Some STOPPED))"
proof -
  have "roStopped t \<and> roSessions t = [] \<and> roForwarding t = [] \<and> roSent t = roSent r \<and> roDelivered t = roDelivered r"
    unfolding assms by (rule ro_stopped.run_inv) (auto simp: router_stop_def list_all_iff)
  then show ?thesis by (simp add: rpc_routeMessage_def rpc_forwardMessage_def)
qed

theorem stopped_router_witness:
  "roSent (foldl (router_step ref_hex) (router_stop route_start) route_run) = roSent route_start"
  using stopped_router_silent [OF refl, of ref_hex route_start route_run] by blast

section \<open>Requests are handled once\<close>

lemma doRouteMessage_detector:
  "doRouteMessage hx connections now sid m mode excluded r = Inr (t, ack) \<Longrightarrow> roDetector t = roDetector r \<and> roStopped t = roStopped r"
  by (auto simp: doRouteMessage_def Let_def keep_session_def cleanupSession_def split: if_splits sum.splits prod.splits)

text \<open>
  A request is taken once: when the router has taken a routed message, with any outcome, it answers the same message again, routed or forwarded,
  with \<^verbatim>\<open>DUPLICATE\<close>, and does nothing else.
\<close>

theorem routed_request_taken_once:
  assumes "rpc_routeMessage hx connections now sid m r = Inr (t, ack)" "ackError ack \<noteq> Some DUPLICATE" "\<not> roStopped r"
    and "dd_inv (roDetector r)" "0 < dd_maxItemCount (roDetector r)" "rwRequestId m' = rwRequestId m"
  shows "rpc_routeMessage hx connections' now' sid' m' t = Inr (t, createRouteMessageAck m' (Some DUPLICATE)) \<and>
    rpc_forwardMessage hx connections' now' sid' uuid m' t = Inr (t, createRouteMessageAck m' (Some DUPLICATE))"
proof -
  have new: "\<not> isMostLikelyDuplicate (roDetector r) (rwRequestId m)"
    using assms(1-3) by (auto simp: rpc_routeMessage_def createRouteMessageAck_def split: if_splits)
  have t: "roDetector t = dd_add (roDetector r) (rwRequestId m)" "\<not> roStopped t"
    using assms(1,3) new doRouteMessage_detector
    by (auto simp: rpc_routeMessage_def Let_def ro_handleMessage_def setForwardingEntries_def cancel_timer_def split: if_splits option.splits
        dest!: doRouteMessage_detector)
  have "isMostLikelyDuplicate (roDetector t) (rwRequestId m)"
    using assms(4,5) new by (cases "dd_queue (roDetector r)") (auto simp: t(1) dd_add_def isMostLikelyDuplicate_def Let_def dd_inv_def)
  then show ?thesis using t(2) assms(6) by (simp add: rpc_routeMessage_def rpc_forwardMessage_def)
qed

theorem routed_request_witness:
  "\<exists>t. rpc_routeMessage ref_hex [route_peer 4] 0 ''s'' (sent_wrapper route_message [] ''u'' (router_create (route_peer 3)) (nodeid (route_peer 1))) (router_create (route_peer 1)) =
        Inr (t, \<lparr>ackRequestId = ''u'', ackError = None\<rparr>) \<and> roDelivered t = [route_message] \<and>
     rpc_routeMessage ref_hex [route_peer 4] 5 ''s2'' (sent_wrapper route_message [] ''u'' (router_create (route_peer 3)) (nodeid (route_peer 1))) t =
        Inr (t, \<lparr>ackRequestId = ''u'', ackError = Some DUPLICATE\<rparr>)"
proof -
  let ?m = "sent_wrapper route_message [] ''u'' (router_create (route_peer 3)) (nodeid (route_peer 1))" and ?r = "router_create (route_peer 1)"
  have m: "rwRequestId ?m = ''u''" "rwReachableThrough ?m = []" "rwTarget ?m = nodeid (roLocal ?r)" "rwMessage ?m = route_message"
    by (simp_all add: sent_wrapper_def router_create_def)
  obtain t where run: "rpc_routeMessage ref_hex [route_peer 4] 0 ''s'' ?m ?r = Inr (t, createRouteMessageAck ?m None)" "roDelivered t = [route_message]"
    by (auto simp: rpc_routeMessage_def router_create_def dd_create_def isMostLikelyDuplicate_def setForwardingEntries_def m ro_handleMessage_def Let_def
        sent_wrapper_def)
  have r: "\<not> roStopped ?r" "dd_inv (roDetector ?r)" "0 < dd_maxItemCount (roDetector ?r)"
    by (simp_all add: router_create_def dd_inv_create) (simp add: dd_create_def)
  show ?thesis
    using run routed_request_taken_once [OF run(1) _ r refl, of "[route_peer 4]" 5 "''s2''"] m(1) by (auto simp: createRouteMessageAck_def)
qed

section \<open>A refusal can end a session that still waits\<close>

lemma update_cong:
  assumes "session_target hx s = session_target hx t" "session_previous hx s = session_previous hx t" "rsContacted s = rsContacted t"
    "rsExcluded s = rsExcluded t"
  shows "updateAndGetRoutablePeers hx connections now s c = updateAndGetRoutablePeers hx connections now t c"
  unfolding updateAndGetRoutablePeers_def assms by (rule refl)

lemma update_frame:
  "updateAndGetRoutablePeers hx connections now
     ((deleteParallelRootIfSource i (s\<lparr>rsOngoing := xs\<rparr>))\<lparr>rsFailedHops := n\<rparr>) c = updateAndGetRoutablePeers hx connections now s c"
  by (rule update_cong) (simp_all add: session_target_def session_previous_def deleteParallelRootIfSource_def getPreviousPeer_def)

text \<open>
  C37. The first refusal ends a session that has no further peers to ask, although another peer that it has sent the message to has not answered:
  the session reports that routing failed and is dropped, and the answer of that peer, an acknowledgement too, changes nothing.
\<close>

theorem refusal_drops_pending_answer:
  assumes "om_find (roSessions r) sid = Some s" "\<not> rsStopped s" "rsFailedHops s = 0" "rsSuccessfulHops s = 0"
    and "k < length (rsTasks s)" "snd (rsTasks s ! k) \<noteq> None"
    and "updateAndGetRoutablePeers hx connections now (drop_send k s) (roTables r) = Inr (c, [])"
  shows "(\<exists>s1. task_end hx connections now k Refused s (roTables r) = Inr (s1, c, Some RoutingFailed)) \<and>
    (\<exists>t. ro_taskEnd hx connections now sid k Refused r = Inr t \<and> om_find (roSessions t) sid = None \<and>
       ro_taskEnd hx connections' now' sid j Acknowledged t = Inr t)"
proof -
  have "\<exists>s1. onRequestFailed hx connections now i (drop_send k s) (roTables r) = Inr (s1, c, Some RoutingFailed)" for i
  proof -
    define d where "d = drop_send k s"
    have d: "\<not> rsStopped d" "rsFailedHops d = 0" "rsSuccessfulHops d = 0" "updateAndGetRoutablePeers hx connections now d (roTables r) = Inr (c, [])"
      using assms(2-4,7) by (simp_all add: d_def) (simp_all add: drop_send_def)
    have hops: "rsSuccessfulHops (deleteParallelRootIfSource i (d\<lparr>rsOngoing := xs\<rparr>)) = 0" for xs
      using d(3) by (simp add: deleteParallelRootIfSource_def)
    show ?thesis unfolding d_def [symmetric]
      using d hops by (simp add: onRequestFailed_def Let_def update_frame maxFailedHops_def sendMoreRequests_def emitFailure_def)
  qed
  then obtain s1 where end_k: "task_end hx connections now k Refused s (roTables r) = Inr (s1, c, Some RoutingFailed)"
    using assms(5,6) by (fastforce simp: task_end_def Let_def)
  then have "ro_taskEnd hx connections now sid k Refused r = Inr (cleanupSession sid (r\<lparr>roTables := c\<rparr>))"
    using assms(1) by (simp add: ro_taskEnd_def keep_session_def)
  then show ?thesis using end_k by (simp add: ro_taskEnd_def cleanupSession_def)
qed

text \<open>In the run above, the second peer has the message when the first refuses.\<close>

lemma route_start_session:
  "\<exists>s c. om_find (roSessions route_start) ''s1'' = Some s \<and> \<not> rsStopped s \<and> rsFailedHops s = 0 \<and> rsSuccessfulHops s = 0 \<and> length (rsTasks s) = 2 \<and>
     snd (rsTasks s ! 0) \<noteq> None \<and> snd (rsTasks s ! 1) \<noteq> None \<and>
     updateAndGetRoutablePeers ref_hex [route_peer 4, route_peer 2] 10 (drop_send 0 s) (roTables route_start) = Inr (c, [])"
proof -
  have "case om_find (roSessions route_start) ''s1'' of None \<Rightarrow> False
     | Some s \<Rightarrow> \<not> rsStopped s \<and> rsFailedHops s = 0 \<and> rsSuccessfulHops s = 0 \<and> length (rsTasks s) = 2 \<and>
         \<not> Option.is_none (snd (rsTasks s ! 0)) \<and> \<not> Option.is_none (snd (rsTasks s ! 1)) \<and>
         (case updateAndGetRoutablePeers ref_hex [route_peer 4, route_peer 2] 10 (drop_send 0 s) (roTables route_start) of
            Inl _ \<Rightarrow> False | Inr (_, ps) \<Rightarrow> length ps = 0)" by code_simp
  then show ?thesis by (auto simp: Option.is_none_def split: option.splits sum.splits)
qed

theorem refusal_drops_witness:
  "\<exists>s. om_find (roSessions route_start) ''s1'' = Some s \<and> snd (rsTasks s ! 1) \<noteq> None \<and>
     (\<exists>t. ro_taskEnd ref_hex [route_peer 4, route_peer 2] 10 ''s1'' 0 Refused route_start = Inr t \<and> om_find (roSessions t) ''s1'' = None \<and>
        ro_taskEnd ref_hex [route_peer 4, route_peer 2] 20 ''s1'' 1 Acknowledged t = Inr t)"
proof -
  obtain s c where s: "om_find (roSessions route_start) ''s1'' = Some s" "\<not> rsStopped s" "rsFailedHops s = 0" "rsSuccessfulHops s = 0"
      "length (rsTasks s) = 2" "snd (rsTasks s ! 0) \<noteq> None" "snd (rsTasks s ! 1) \<noteq> None"
      "updateAndGetRoutablePeers ref_hex [route_peer 4, route_peer 2] 10 (drop_send 0 s) (roTables route_start) = Inr (c, [])"
    using route_start_session by blast
  have k: "0 < length (rsTasks s)" using s(5) by simp
  show ?thesis using s(1,7) refusal_drops_pending_answer [OF s(1-4) k s(6,8)] by blast
qed

section \<open>A renewed forwarding entry can be lost\<close>

text \<open>
  A forwarding entry that is renewed after its timer has fired is lost: the erasing task that the timer has posted removes the new entry,
  which should have stayed for ten seconds, and the timer of the new entry stays armed.
\<close>

theorem renewed_entry_lost:
  assumes "map_of (roTimers r) i = Some (peer_id hx (rwSourcePeer m))" "roErases r = []"
    and "p \<in> set (rwReachableThrough m)" "\<not> areEqualPeerDescriptors p (roLocal r)"
    and "t = setForwardingEntries hx m (ro_timer i r)"
  shows "(\<exists>entry. om_find (roForwarding t) (peer_id hx (rwSourcePeer m)) = Some entry \<and> (feTimer entry, peer_id hx (rwSourcePeer m)) \<in> set (roTimers (ro_erase t))) \<and>
    om_find (roForwarding (ro_erase t)) (peer_id hx (rwSourcePeer m)) = None"
proof -
  have through: "filter (\<lambda>p. \<not> areEqualPeerDescriptors p (roLocal r)) (rwReachableThrough m) \<noteq> []" using assms(3,4) by (auto simp: filter_empty_conv)
  show ?thesis
    using assms(1,2) through unfolding assms(5)
    by (auto simp: setForwardingEntries_def ro_timer_def ro_erase_def cancel_timer_def Let_def om_emplace_def om_contains_find split: option.splits)
qed

text \<open>A peer that is reachable through another, twice.\<close>

definition reachable_message :: "string \<Rightarrow> RouteMessageWrapper" where
  "reachable_message uuid = sent_wrapper route_message [route_peer 4] uuid (router_create (route_peer 3)) (nodeid (route_peer 1))"

definition renewed_router :: router where
  "renewed_router = router_step ref_hex (router_create (route_peer 1)) (RouteRpc [] 0 ''s'' (reachable_message ''u''))"

theorem renewed_entry_witness:
  "om_find (roForwarding (ro_erase (setForwardingEntries ref_hex (reachable_message ''v'') (ro_timer 0 renewed_router))))
     (peer_id ref_hex (route_peer 3)) = None"
proof -
  have src: "rwSourcePeer (reachable_message uuid) = route_peer 3" "rwReachableThrough (reachable_message uuid) = [route_peer 4]" for uuid
    by (simp_all add: reachable_message_def sent_wrapper_def router_create_def)
  have r: "map_of (roTimers renewed_router) 0 = Some (peer_id ref_hex (route_peer 3))" "roErases renewed_router = []"
      "areEqualPeerDescriptors (route_peer 4) (roLocal renewed_router) = False"
    by code_simp+
  show ?thesis
    using renewed_entry_lost [of renewed_router 0 ref_hex "reachable_message ''v''" "route_peer 4", OF _ r(2) _ _ refl] r src by simp
qed

end
