(* ===== verification/Recursive_Operation.thy ===== *)
theory Recursive_Operation
  imports Router Local_Data_Store
begin

text \<open>
  Recursive operations of the DHT (\<^verbatim>\<open>RecursiveOperationSession.cppm\<close>, \<^verbatim>\<open>RecursiveOperationManager.cppm\<close> and their RPC classes): a request is
  routed towards a key, every node on the way answers to the session of the node that asked, and the session collects the closest nodes and
  the data, until enough answers have come or a timer ends it.  Every operation of a session is one section under its mutex.
\<close>

section \<open>Messages\<close>

datatype RecursiveOperation = FIND_CLOSEST_NODES | FETCH_DATA | DELETE_DATA

record RecursiveOperationRequest =
  roqSessionId :: string
  roqOperation :: RecursiveOperation

record RecursiveOperationResponse =
  rrClosestConnectedNodes :: "PeerDescriptor list"
  rrDataEntries :: "DataEntry list"
  rrNoCloserNodesFound :: bool
  rrRoutingPath :: "PeerDescriptor list"

section \<open>The session\<close>

text \<open>
  The state, \<^verbatim>\<open>std::set\<close>s of ids as lists without repetition.  \<open>rcTimer\<close> says that the fallback timer is armed, \<open>rcFired\<close> that it has fired and
  its function has yet to run; \<open>rcCompletions\<close> counts the events \<^verbatim>\<open>Completed\<close> that have been emitted.
\<close>

record rec_session =
  rcTargetId :: DhtAddress
  rcLocalPeer :: PeerDescriptor
  rcWaited :: nat
  rcOperation :: RecursiveOperation
  rcResults :: "PeerDescriptor scl"
  rcFoundData :: "(DhtAddress, DataEntry) omap"
  rcAllKnownHops :: "DhtAddress list"
  rcReportedHops :: "DhtAddress list"
  rcNoCloserFrom :: "DhtAddress list"
  rcNoCloserCounter :: nat
  rcAborted :: bool
  rcCompletionEmitted :: bool
  rcTimeoutScheduled :: bool
  rcTimer :: bool
  rcFired :: bool
  rcCompletions :: nat

definition rc_options :: "DhtAddress \<Rightarrow> SortedContactListOptions" where
  "rc_options targetId =
     \<lparr>referenceId = targetId, allowToContainReferenceId = True, maxSize = Some 10, nodeIdDistanceLimit = None, excludedNodeIds = None\<rparr>"

definition rc_create ::
  "hex_codec \<Rightarrow> DhtAddress \<Rightarrow> PeerDescriptor \<Rightarrow> nat \<Rightarrow> RecursiveOperation \<Rightarrow> cpp_error + rec_session" where
  "rc_create hx targetId localPeer waited operation =
     (case scl_create hx (rc_options targetId) of
        Inl e \<Rightarrow> Inl e
      | Inr results \<Rightarrow>
          Inr \<lparr>rcTargetId = targetId, rcLocalPeer = localPeer, rcWaited = waited, rcOperation = operation, rcResults = results, rcFoundData = [],
            rcAllKnownHops = [], rcReportedHops = [], rcNoCloserFrom = [], rcNoCloserCounter = 0, rcAborted = False, rcCompletionEmitted = False,
            rcTimeoutScheduled = False, rcTimer = False, rcFired = False, rcCompletions = 0\<rparr>)"

definition hasNonStaleData :: "rec_session \<Rightarrow> bool" where
  "hasNonStaleData s \<longleftrightarrow> list_ex (\<lambda>(_, e). \<not> deStale e) (rcFoundData s)"

definition unreportedHops :: "rec_session \<Rightarrow> DhtAddress list" where
  "unreportedHops s = filter (\<lambda>i. i \<notin> set (rcReportedHops s)) (rcAllKnownHops s)"

definition isCompleted :: "rec_session \<Rightarrow> bool" where
  "isCompleted s \<longleftrightarrow>
     (if rcNoCloserCounter s \<ge> 1 \<and> unreportedHops s = []
      then (if rcOperation s = FETCH_DATA \<and> (hasNonStaleData s \<or> rcNoCloserCounter s \<ge> rcWaited s) then True
            else if rcOperation s = FETCH_DATA then False
            else True)
      else False)"

fun addKnownHops :: "hex_codec \<Rightarrow> PeerDescriptor list \<Rightarrow> rec_session \<Rightarrow> rec_session" where
  "addKnownHops hx [] s = s"
| "addKnownHops hx (p # routingPath) s =
     addKnownHops hx routingPath
       (if peer_id hx (rcLocalPeer s) \<noteq> peer_id hx p then s\<lparr>rcAllKnownHops := id_insert (peer_id hx p) (rcAllKnownHops s)\<rparr> else s)"

definition emitCompleted :: "rec_session \<Rightarrow> rec_session" where
  "emitCompleted s = s\<lparr>rcAborted := True, rcTimer := False, rcCompletionEmitted := True, rcCompletions := rcCompletions s + 1\<rparr>"

definition setHopAsReported :: "hex_codec \<Rightarrow> PeerDescriptor \<Rightarrow> rec_session \<Rightarrow> rec_session" where
  "setHopAsReported hx p s =
     (let s1 = (if peer_id hx (rcLocalPeer s) \<noteq> peer_id hx p then s\<lparr>rcReportedHops := id_insert (peer_id hx p) (rcReportedHops s)\<rparr> else s)
      in if \<not> rcCompletionEmitted s1 \<and> isCompleted s1 then emitCompleted s1 else s1)"

definition isNewerTimestamp :: "DataEntry \<Rightarrow> DataEntry \<Rightarrow> bool" where
  "isNewerTimestamp candidate existing \<longleftrightarrow>
     (if deCreatedSeconds candidate \<noteq> deCreatedSeconds existing then deCreatedSeconds candidate > deCreatedSeconds existing
      else deCreatedNanos candidate > deCreatedNanos existing)"

definition process_entry :: "hex_codec \<Rightarrow> DataEntry \<Rightarrow> (DhtAddress, DataEntry) omap \<Rightarrow> (DhtAddress, DataEntry) omap" where
  "process_entry hx entry found =
     (let creatorNodeId = getDhtAddressFromRaw hx (deCreator entry)
      in case om_find found creatorNodeId of
           None \<Rightarrow> om_put creatorNodeId entry found
         | Some existing \<Rightarrow>
             (if isNewerTimestamp entry existing \<or> (\<not> isNewerTimestamp existing entry \<and> deDeleted entry)
              then om_put creatorNodeId entry found else found))"

definition processFoundData :: "hex_codec \<Rightarrow> DataEntry list \<Rightarrow> rec_session \<Rightarrow> rec_session" where
  "processFoundData hx dataEntries s = s\<lparr>rcFoundData := fold (process_entry hx) dataEntries (rcFoundData s)\<rparr>"

text \<open>A timer that is set on an aborted signal is not armed.\<close>

definition onNoCloserPeersFound :: "DhtAddress \<Rightarrow> rec_session \<Rightarrow> rec_session" where
  "onNoCloserPeersFound remoteNodeId s =
     (let s1 = s\<lparr>rcNoCloserCounter := rcNoCloserCounter s + 1, rcNoCloserFrom := id_insert remoteNodeId (rcNoCloserFrom s)\<rparr>
      in if isCompleted s1 then emitCompleted s1
         else if \<not> rcTimeoutScheduled s1 \<and> \<not> rcCompletionEmitted s1 then s1\<lparr>rcTimeoutScheduled := True, rcTimer := \<not> rcAborted s1\<rparr>
         else s1)"

text \<open>The ids of contacts are those of descriptors, for which adding does not fail.\<close>

definition add_results :: "hex_codec \<Rightarrow> PeerDescriptor list \<Rightarrow> rec_session \<Rightarrow> rec_session" where
  "add_results hx nodes s = s\<lparr>rcResults := fst (scl_addContacts hx (peer_id hx) (rcResults s) nodes)\<rparr>"

definition onResponseReceived ::
  "hex_codec \<Rightarrow> DhtAddress \<Rightarrow> PeerDescriptor list \<Rightarrow> PeerDescriptor list \<Rightarrow> DataEntry list \<Rightarrow> bool \<Rightarrow> rec_session \<Rightarrow> rec_session" where
  "onResponseReceived hx remoteNodeId routingPath closestConnectedNodes dataEntries noCloserNodesFound s =
     (let s1 = addKnownHops hx routingPath s;
          s2 = (if routingPath \<noteq> [] then setHopAsReported hx (last routingPath) s1 else s1);
          s3 = processFoundData hx dataEntries (add_results hx closestConnectedNodes s2)
      in if noCloserNodesFound \<or> remoteNodeId \<in> set (rcNoCloserFrom s3) then onNoCloserPeersFound remoteNodeId s3 else s3)"

definition rc_timerFires :: "rec_session \<Rightarrow> rec_session" where
  "rc_timerFires s = (if rcTimer s then s\<lparr>rcTimer := False, rcFired := True\<rparr> else s)"

definition rc_timerRuns :: "rec_session \<Rightarrow> rec_session" where
  "rc_timerRuns s =
     (if rcFired s then (let s1 = s\<lparr>rcFired := False\<rparr> in if \<not> rcCompletionEmitted s1 then emitCompleted s1 else s1) else s)"

text \<open>\<^verbatim>\<open>stop\<close> has two sections; between them it waits for the handlers that are running.\<close>

definition rc_stop_begin :: "rec_session \<Rightarrow> rec_session" where
  "rc_stop_begin s = s\<lparr>rcAborted := True, rcTimer := False\<rparr>"

definition rc_stop_end :: "rec_session \<Rightarrow> rec_session" where
  "rc_stop_end s = (if \<not> rcCompletionEmitted s then s\<lparr>rcCompletionEmitted := True, rcCompletions := rcCompletions s + 1\<rparr> else s)"

definition rc_getResults :: "rec_session \<Rightarrow> cpp_error + (PeerDescriptor list \<times> DataEntry list)" where
  "rc_getResults s =
     (case getClosestContacts (rcResults s) None of Inl e \<Rightarrow> Inl e | Inr nodes \<Rightarrow> Inr (nodes, om_values (rcFoundData s)))"

text \<open>The message that \<^verbatim>\<open>start\<close> hands to the router; \<open>encode\<close> puts the request into its body.\<close>

definition wrapRequest ::
  "hex_codec \<Rightarrow> (RecursiveOperationRequest \<Rightarrow> bytes) \<Rightarrow> string \<Rightarrow> string \<Rightarrow> string \<Rightarrow> string \<Rightarrow> rec_session \<Rightarrow> cpp_error + RouteMessageWrapper" where
  "wrapRequest hx encode sessionId service uuid1 uuid2 s =
     (case getRawFromDhtAddress hx (rcTargetId s) of
        Inl e \<Rightarrow> Inl e
      | Inr raw \<Rightarrow>
          Inr \<lparr>rwRequestId = uuid2, rwSourcePeer = rcLocalPeer s, rwTarget = raw,
            rwMessage = \<lparr>messageId = uuid1, serviceId = service, hasRpcMessage = False,
              msgBody = encode \<lparr>roqSessionId = sessionId, roqOperation = rcOperation s\<rparr>, sourceDescriptor = None,
              targetDescriptor = \<lparr>nodeid = [], region = 0, ipaddress = 0, websocket = None\<rparr>\<rparr>,
            rwReachableThrough = [], rwRoutingPath = [], rwParallelRootNodeIds = []\<rparr>)"

text \<open>\<^verbatim>\<open>RecursiveOperationSessionRpcLocal\<close>; a call without a source descriptor throws.\<close>

definition rc_sendResponse :: "hex_codec \<Rightarrow> PeerDescriptor option \<Rightarrow> RecursiveOperationResponse \<Rightarrow> rec_session \<Rightarrow> cpp_error + rec_session" where
  "rc_sendResponse hx source report s =
     (case source of
        None \<Rightarrow> Inl BadOptionalAccess
      | Some p \<Rightarrow>
          Inr (onResponseReceived hx (peer_id hx p) (rrRoutingPath report) (rrClosestConnectedNodes report) (rrDataEntries report)
                 (rrNoCloserNodesFound report) s))"

datatype rc_event =
    RcResponse DhtAddress "PeerDescriptor list" "PeerDescriptor list" "DataEntry list" bool
  | RcTimerFires
  | RcTimerRuns
  | RcStopBegin
  | RcStopEnd

fun rc_step :: "hex_codec \<Rightarrow> rec_session \<Rightarrow> rc_event \<Rightarrow> rec_session" where
  "rc_step hx s (RcResponse remote path nodes entries noCloser) = onResponseReceived hx remote path nodes entries noCloser s"
| "rc_step hx s RcTimerFires = rc_timerFires s"
| "rc_step hx s RcTimerRuns = rc_timerRuns s"
| "rc_step hx s RcStopBegin = rc_stop_begin s"
| "rc_step hx s RcStopEnd = rc_stop_end s"

section \<open>The manager\<close>

text \<open>
  What the manager shares with the node: its router and its data store.  A response is sent to the node that asked, for its session; whether it
  is handed over locally or as a message is left to the receiver.
\<close>

record rec_manager =
  rmLocalPeer :: PeerDescriptor
  rmStopped :: bool
  rmStore :: data_store
  rmRouter :: router

record session_response =
  sresTarget :: PeerDescriptor
  sresSession :: string
  sresReport :: RecursiveOperationResponse

definition getClosestConnectedNodes :: "hex_codec \<Rightarrow> PeerDescriptor list \<Rightarrow> DhtAddress \<Rightarrow> nat \<Rightarrow> cpp_error + PeerDescriptor list" where
  "getClosestConnectedNodes hx connections reference limit =
     (case scl_create hx \<lparr>referenceId = reference, allowToContainReferenceId = True, maxSize = Some limit, nodeIdDistanceLimit = None,
             excludedNodeIds = None\<rparr> of
        Inl e \<Rightarrow> Inl e
      | Inr s \<Rightarrow>
          (case scl_addContacts hx (peer_id hx) s connections of
             (_, _, Some e) \<Rightarrow> Inl e
           | (s1, _, None) \<Rightarrow> getClosestContacts s1 (Some (int limit))))"

definition isPeerCloserToIdThanSelf :: "PeerDescriptor \<Rightarrow> PeerDescriptor \<Rightarrow> bytes \<Rightarrow> bool" where
  "isPeerCloserToIdThanSelf me peer raw \<longleftrightarrow> getPeerDistance (nodeid peer) raw < getPeerDistance (nodeid me) raw"

definition sendResponse ::
  "PeerDescriptor list \<Rightarrow> PeerDescriptor \<Rightarrow> string \<Rightarrow> PeerDescriptor list \<Rightarrow> DataEntry list \<Rightarrow> bool \<Rightarrow> session_response" where
  "sendResponse routingPath target session closest dataEntries noCloser =
     \<lparr>sresTarget = target, sresSession = session,
      sresReport = \<lparr>rrClosestConnectedNodes = closest, rrDataEntries = dataEntries, rrNoCloserNodesFound = noCloser, rrRoutingPath = routingPath\<rparr>\<rparr>"

text \<open>
  The store of a request: what is read for a fetch, and what a delete marks.  \<open>t1\<close> and \<open>t2\<close> are readings of the clock.
\<close>

definition request_store ::
  "hex_codec \<Rightarrow> RecursiveOperation \<Rightarrow> DhtAddress \<Rightarrow> DhtAddress \<Rightarrow> millis \<Rightarrow> millis \<Rightarrow> data_store \<Rightarrow> cpp_error + (data_store \<times> DataEntry list)" where
  "request_store hx operation targetId sourceId t1 t2 store =
     (let (store1, dataEntries) = (if operation = FETCH_DATA then ds_values store (Some targetId) (\<lambda>_. t1) else (store, []))
      in if operation = DELETE_DATA
         then (case markAsDeleted store1 targetId sourceId t1 t2 of
                 (store2, Inl e) \<Rightarrow> Inl e
               | (store2, Inr _) \<Rightarrow> Inr (store2, dataEntries))
         else Inr (store1, dataEntries))"

definition noCloserContacts :: "PeerDescriptor \<Rightarrow> RouteMessageWrapper \<Rightarrow> PeerDescriptor list \<Rightarrow> RouteMessageAck \<Rightarrow> bool" where
  "noCloserContacts me m closest ack \<longleftrightarrow>
     ackError ack = Some NO_TARGETS \<or>
     (closest \<noteq> [] \<and> getPreviousPeer m \<noteq> None \<and> \<not> isPeerCloserToIdThanSelf me (hd closest) (rwTarget m))"

definition doRouteRequest ::
  "hex_codec \<Rightarrow> (bytes \<Rightarrow> RecursiveOperationRequest option) \<Rightarrow> PeerDescriptor list \<Rightarrow> int \<Rightarrow> millis \<Rightarrow> millis \<Rightarrow> string \<Rightarrow> RouteMessageWrapper \<Rightarrow>
     DhtAddress option \<Rightarrow> rec_manager \<Rightarrow> cpp_error + (rec_manager \<times> RouteMessageAck \<times> session_response list)" where
  "doRouteRequest hx decode connections now t1 t2 sid m excludedPeer mg =
     (if rmStopped mg then Inr (mg, createRouteMessageAck m (Some STOPPED), [])
      else (case decode (msgBody (rwMessage m)) of
              None \<Rightarrow> Inl (RuntimeError ''routeRequest payload is not a RecursiveOperationRequest'')
            | Some req \<Rightarrow>
                (case getClosestConnectedNodes hx connections (getDhtAddressFromRaw hx (rwTarget m)) 5 of
                   Inl e \<Rightarrow> Inl e
                 | Inr closest \<Rightarrow>
                     (case request_store hx (roqOperation req) (getDhtAddressFromRaw hx (rwTarget m)) (peer_id hx (rwSourcePeer m)) t1 t2 (rmStore mg) of
                        Inl e \<Rightarrow> Inl e
                      | Inr (store, dataEntries) \<Rightarrow>
                          (let mg1 = mg\<lparr>rmStore := store\<rparr>;
                               respond = sendResponse (rwRoutingPath m) (rwSourcePeer m) (roqSessionId req) closest dataEntries
                           in if nodeid (rmLocalPeer mg) = rwTarget m then Inr (mg1, createRouteMessageAck m None, [respond True])
                              else (case doRouteMessage hx connections now sid m RECURSIVE excludedPeer (rmRouter mg) of
                                      Inl e \<Rightarrow> Inl e
                                    | Inr (router, ack) \<Rightarrow>
                                        Inr (mg1\<lparr>rmRouter := router\<rparr>, ack,
                                          if ackError ack = None \<or> ackError ack = Some NO_TARGETS
                                          then [respond (noCloserContacts (rmLocalPeer mg) m closest ack)] else [])))))))"

text \<open>The RPC method, with the answer of a stopped manager.\<close>

definition rpc_routeRequest ::
  "hex_codec \<Rightarrow> (bytes \<Rightarrow> RecursiveOperationRequest option) \<Rightarrow> PeerDescriptor list \<Rightarrow> int \<Rightarrow> millis \<Rightarrow> millis \<Rightarrow> string \<Rightarrow> RouteMessageWrapper \<Rightarrow>
     rec_manager \<Rightarrow> cpp_error + (rec_manager \<times> RouteMessageAck \<times> session_response list)" where
  "rpc_routeRequest hx decode connections now t1 t2 sid m mg =
     (if rmStopped mg then Inr (mg, createRouteMessageAck m (Some STOPPED), [])
      else if isMostLikelyDuplicate (roDetector (rmRouter mg)) (rwRequestId m) then Inr (mg, createRouteMessageAck m (Some DUPLICATE), [])
      else doRouteRequest hx decode connections now t1 t2 sid m None
             (mg\<lparr>rmRouter := ro_addToDuplicateDetector (rwRequestId m) (rmRouter mg)\<rparr>))"

text \<open>\<^verbatim>\<open>RecursiveOperationRpcRemote\<close> after the call; \<open>None\<close> is an exception.\<close>

definition remote_routeRequest :: "RouteMessageAck option \<Rightarrow> send_result" where
  "remote_routeRequest answer = (case answer of None \<Rightarrow> Refused | Some ack \<Rightarrow> (if ackError ack \<noteq> None then Refused else Acknowledged))"

end
