(* ===== verification/Recursive_Correct.thy ===== *)
theory Recursive_Correct
  imports Recursive_Operation
begin

text \<open>
  What a session of a recursive operation returns, in every run of answers, timer and stop: the closest of all nodes that were reported, for
  each creator the newest of all entries that were reported, and an end.
\<close>

section \<open>What has been reported\<close>

fun reported_nodes :: "rc_event \<Rightarrow> PeerDescriptor list" where
  "reported_nodes (RcResponse remote path nodes entries noCloser) = nodes"
| "reported_nodes _ = []"

fun reported_entries :: "rc_event \<Rightarrow> DataEntry list" where
  "reported_entries (RcResponse remote path nodes entries noCloser) = entries"
| "reported_entries _ = []"

lemma knownHops_frame:
  "rcResults (addKnownHops hx ps s) = rcResults s" "rcFoundData (addKnownHops hx ps s) = rcFoundData s"
  "rcCompletionEmitted (addKnownHops hx ps s) = rcCompletionEmitted s" "rcTimer (addKnownHops hx ps s) = rcTimer s"
  "rcFired (addKnownHops hx ps s) = rcFired s" "rcAborted (addKnownHops hx ps s) = rcAborted s"
  "rcNoCloserCounter (addKnownHops hx ps s) = rcNoCloserCounter s" "rcTimeoutScheduled (addKnownHops hx ps s) = rcTimeoutScheduled s"
  "rcNoCloserFrom (addKnownHops hx ps s) = rcNoCloserFrom s" "rcCompletions (addKnownHops hx ps s) = rcCompletions s"
  "rcOperation (addKnownHops hx ps s) = rcOperation s"
  by (induction hx ps s rule: addKnownHops.induct) simp_all

lemma session_frame:
  "rcResults (setHopAsReported hx p s) = rcResults s" "rcFoundData (setHopAsReported hx p s) = rcFoundData s"
  "rcResults (onNoCloserPeersFound i s) = rcResults s" "rcFoundData (onNoCloserPeersFound i s) = rcFoundData s"
  "rcResults (add_results hx nodes s) = fst (scl_addContacts hx (peer_id hx) (rcResults s) nodes)" "rcFoundData (add_results hx nodes s) = rcFoundData s"
  "rcResults (processFoundData hx entries s) = rcResults s"
  "rcFoundData (processFoundData hx entries s) = fold (process_entry hx) entries (rcFoundData s)"
  by (simp_all add: setHopAsReported_def onNoCloserPeersFound_def add_results_def processFoundData_def emitCompleted_def Let_def)

lemmas timer_defs = rc_timerFires_def rc_timerRuns_def rc_stop_begin_def rc_stop_end_def emitCompleted_def Let_def

lemma step_results: "rcResults (rc_step hx s e) = fst (scl_addContacts hx (peer_id hx) (rcResults s) (reported_nodes e))"
  by (cases e) (simp_all add: onResponseReceived_def timer_defs session_frame knownHops_frame)

lemma step_found: "rcFoundData (rc_step hx s e) = fold (process_entry hx) (reported_entries e) (rcFoundData s)"
  by (cases e) (simp_all add: onResponseReceived_def timer_defs session_frame knownHops_frame)

section \<open>The closest nodes\<close>

text \<open>The results are the closest of the nodes \<open>offered\<close>.\<close>

definition results_ok :: "hex_codec \<Rightarrow> bytes \<Rightarrow> nat \<Rightarrow> PeerDescriptor set \<Rightarrow> PeerDescriptor scl \<Rightarrow> bool" where
  "results_ok hx target m offered t \<longleftrightarrow>
     scl_inv hx (peer_id hx) t \<and> referenceIdRaw t = target \<and> maxSize (options t) = Some m \<and> (\<forall>i. \<not> scl_rejects hx t i) \<and>
     scl_best hx t (peer_id hx ` offered) \<and> (\<forall>i p. scl_getContact t i = Some p \<longrightarrow> p \<in> offered)"

context hex_laws
begin

lemma results_add:
  assumes "results_ok hx target m offered t"
  shows "results_ok hx target m (offered \<union> set nodes) (fst (scl_addContacts hx (peer_id hx) t nodes))"
proof -
  have ok: "scl_ok hx (peer_id hx) p" for p by (simp add: scl_ok_def getNodeIdFromPeerDescriptor_def raw_roundtrip)
  have t: "scl_inv hx (peer_id hx) t" "scl_best hx t (peer_id hx ` offered)" using assms by (simp_all add: results_ok_def)
  obtain t' evs where t': "scl_addContacts hx (peer_id hx) t nodes = (t', evs, None)" "scl_inv hx (peer_id hx) t'" "options t' = options t"
      "referenceIdRaw t' = referenceIdRaw t" "scl_best hx t' (peer_id hx ` offered \<union> {i \<in> peer_id hx ` set nodes. \<not> scl_rejects hx t i})"
      "\<forall>i d. scl_getContact t' i = Some d \<longrightarrow> scl_getContact t i = Some d \<or> d \<in> set nodes"
    using scl_adds_best [OF t(1) ok t(2), of nodes] by blast
  have rej: "scl_rejects hx t' = scl_rejects hx t" using t'(3,4) by (rule scl_rejects_cong)
  have "peer_id hx ` offered \<union> {i \<in> peer_id hx ` set nodes. \<not> scl_rejects hx t i} = peer_id hx ` (offered \<union> set nodes)"
    using assms by (auto simp: results_ok_def)
  moreover have "p \<in> offered \<union> set nodes" if "scl_getContact t' i = Some p" for i p
    using assms t'(6) that by (fastforce simp: results_ok_def)
  ultimately show ?thesis using assms t' rej by (simp add: results_ok_def)
qed

lemma results_create:
  assumes "scl_create hx \<lparr>referenceId = reference, allowToContainReferenceId = True, maxSize = Some m, nodeIdDistanceLimit = None,
      excludedNodeIds = None\<rparr> = Inr t" "getRawFromDhtAddress hx reference = Inr target" "0 < m"
  shows "results_ok hx target m {} t"
proof -
  have t: "referenceIdRaw t = target" "contactIds t = []" "contactsById t = []" "options t = \<lparr>referenceId = reference,
      allowToContainReferenceId = True, maxSize = Some m, nodeIdDistanceLimit = None, excludedNodeIds = None\<rparr>"
    using assms(1,2) by (auto simp: scl_create_def)
  have "scl_inv hx (peer_id hx) t" using scl_inv_create [OF assms(1)] assms(3) by (simp add: scl_options_ok_def)
  then show ?thesis using t scl_best_empty [OF t(2)] by (simp add: results_ok_def scl_rejects_def scl_getContact_def om_find_def)
qed

lemma results_run:
  "results_ok hx target m offered (rcResults s) \<Longrightarrow>
     results_ok hx target m (offered \<union> set (concat (map reported_nodes es))) (rcResults (foldl (rc_step hx) s es))"
proof (induction es arbitrary: s offered)
  case (Cons e es)
  have "results_ok hx target m (offered \<union> set (reported_nodes e)) (rcResults (rc_step hx s e))"
    unfolding step_results using Cons.prems by (rule results_add)
  from Cons.IH [OF this] show ?case by (simp add: Un_assoc)
qed simp

lemma results_closest:
  assumes "results_ok hx target m (set offered) t"
  shows "\<exists>res. getClosestContacts t None = Inr res \<and> set res \<subseteq> set offered \<and> distinct (map nodeid res) \<and>
    sorted (map (\<lambda>p. getPeerDistance target (nodeid p)) res) \<and> length res \<le> m \<and>
    (\<forall>p \<in> set offered. nodeid p \<in> nodeid ` set res \<or>
       (length res = m \<and> (\<forall>r \<in> set res. getPeerDistance target (nodeid r) \<le> getPeerDistance target (nodeid p))))"
proof -
  let ?dist = "\<lambda>p. getPeerDistance target (nodeid p)"
  have t: "scl_inv hx (peer_id hx) t" "scl_best hx t (peer_id hx ` set offered)" "maxSize (options t) = Some m" "\<And>i. \<not> scl_rejects hx t i"
      "\<And>i p. scl_getContact t i = Some p \<Longrightarrow> p \<in> set offered"
    using assms by (simp_all add: results_ok_def)
  have dist: "distanceToReferenceId hx t (peer_id hx p) = ?dist p" for p
    using assms by (simp add: results_ok_def distanceToReferenceId_def scl_raw_def getNodeIdFromPeerDescriptor_def raw_roundtrip)
  have "\<exists>res. getClosestContacts t None = Inr res \<and> map (peer_id hx) res = contactIds t \<and>
      set res \<subseteq> set offered \<and> sorted (map ?dist res) \<and> distinct (map (peer_id hx) res) \<and>
      (peer_id hx ` set res = peer_id hx ` set offered \<or> maxSize (options t) = Some (length res)) \<and>
      (\<forall>m. maxSize (options t) = Some m \<longrightarrow> length res \<le> m) \<and>
      (\<forall>p \<in> set offered. peer_id hx p \<notin> peer_id hx ` set res \<longrightarrow> (\<forall>r \<in> set res. ?dist r \<le> ?dist p))"
    by (rule scl_best_contacts [where P = "\<lambda>_. False" and U = "set offered", OF t(1,2) dist]) (simp_all add: t(5))
  then obtain res where res: "getClosestContacts t None = Inr res" "set res \<subseteq> set offered" "sorted (map ?dist res)" "distinct (map (peer_id hx) res)"
      "peer_id hx ` set res = peer_id hx ` set offered \<or> maxSize (options t) = Some (length res)" "\<forall>m. maxSize (options t) = Some m \<longrightarrow> length res \<le> m"
      "\<forall>p \<in> set offered. peer_id hx p \<notin> peer_id hx ` set res \<longrightarrow> (\<forall>r \<in> set res. ?dist r \<le> ?dist p)"
    by blast
  have inj: "peer_id hx p = peer_id hx q \<longleftrightarrow> nodeid p = nodeid q" for p q by (simp add: node_id_iff areEqualPeerDescriptors_def)
  have ids: "peer_id hx p \<in> peer_id hx ` set res \<longleftrightarrow> nodeid p \<in> nodeid ` set res" for p by (auto simp: image_iff inj)
  have "distinct (map nodeid res)" using res(4) by (auto simp: distinct_map inj_on_def inj)
  moreover have "nodeid p \<in> nodeid ` set res \<or> (length res = m \<and> (\<forall>r \<in> set res. ?dist r \<le> ?dist p))" if "p \<in> set offered" for p
    using that res(5,7) t(3) ids [of p] by auto
  ultimately show ?thesis using res(1-3,6) t(3) by auto
qed

end

text \<open>
  C33. A recursive operation returns the closest nodes: in every run of a session, its results are nodes that were reported, each once, sorted by
  their distance to the target, at most ten; and a reported node that is missing is not closer than any of ten that are there.
\<close>

theorem recursive_results_closest:
  assumes "hex_laws hx" "rc_create hx targetId me n operation = Inr s" "getRawFromDhtAddress hx targetId = Inr target"
    and "t = foldl (rc_step hx) s es" "offered = concat (map reported_nodes es)"
  shows "\<exists>nodes. rc_getResults t = Inr (nodes, om_values (rcFoundData t)) \<and> set nodes \<subseteq> set offered \<and> distinct (map nodeid nodes) \<and>
    sorted (map (\<lambda>p. getPeerDistance target (nodeid p)) nodes) \<and> length nodes \<le> 10 \<and>
    (\<forall>p \<in> set offered. nodeid p \<in> nodeid ` set nodes \<or>
       (length nodes = 10 \<and> (\<forall>r \<in> set nodes. getPeerDistance target (nodeid r) \<le> getPeerDistance target (nodeid p))))"
proof -
  have s: "scl_create hx (rc_options targetId) = Inr (rcResults s)" using assms(2) by (auto simp: rc_create_def split: sum.splits)
  have "results_ok hx target 10 (set offered) (rcResults t)"
    using hex_laws.results_run [OF assms(1) hex_laws.results_create [OF assms(1) s [unfolded rc_options_def] assms(3)], of es]
    by (simp add: assms(4,5))
  from hex_laws.results_closest [OF assms(1) this] show ?thesis by (auto simp: rc_getResults_def)
qed

section \<open>The newest data\<close>

text \<open>The order in which entries of one creator replace each other.\<close>

definition entry_rank :: "DataEntry \<Rightarrow> int \<times> int \<times> bool" where
  "entry_rank e = (deCreatedSeconds e, deCreatedNanos e, deDeleted e)"

definition rank_le :: "int \<times> int \<times> bool \<Rightarrow> int \<times> int \<times> bool \<Rightarrow> bool" where
  "rank_le a b \<longleftrightarrow>
     fst a < fst b \<or> (fst a = fst b \<and> (fst (snd a) < fst (snd b) \<or> (fst (snd a) = fst (snd b) \<and> (snd (snd a) \<longrightarrow> snd (snd b)))))"

lemma rank_trans: "rank_le a b \<Longrightarrow> rank_le b c \<Longrightarrow> rank_le a c"
  by (auto simp: rank_le_def)

lemma rank_refl: "rank_le a a"
  by (simp add: rank_le_def)

lemma entry_replaces:
  "isNewerTimestamp entry existing \<or> (\<not> isNewerTimestamp existing entry \<and> deDeleted entry) \<Longrightarrow> rank_le (entry_rank existing) (entry_rank entry)"
  "\<not> (isNewerTimestamp entry existing \<or> (\<not> isNewerTimestamp existing entry \<and> deDeleted entry)) \<Longrightarrow> rank_le (entry_rank entry) (entry_rank existing)"
  by (auto simp: isNewerTimestamp_def rank_le_def entry_rank_def split: if_splits)

text \<open>What is held for the creator \<open>i\<close> when the entries \<open>E\<close> have been reported.\<close>

definition held_ok :: "hex_codec \<Rightarrow> DataEntry set \<Rightarrow> DhtAddress \<Rightarrow> DataEntry option \<Rightarrow> bool" where
  "held_ok hx E i held \<longleftrightarrow>
     (case held of
        None \<Rightarrow> \<forall>e \<in> E. getDhtAddressFromRaw hx (deCreator e) \<noteq> i
      | Some x \<Rightarrow> x \<in> E \<and> getDhtAddressFromRaw hx (deCreator x) = i \<and>
                  (\<forall>e \<in> E. getDhtAddressFromRaw hx (deCreator e) = i \<longrightarrow> rank_le (entry_rank e) (entry_rank x)))"

definition found_ok :: "hex_codec \<Rightarrow> DataEntry set \<Rightarrow> (DhtAddress, DataEntry) omap \<Rightarrow> bool" where
  "found_ok hx E found \<longleftrightarrow> (\<forall>i. held_ok hx E i (om_find found i))"

lemma held_other: "getDhtAddressFromRaw hx (deCreator entry) \<noteq> i \<Longrightarrow> held_ok hx E i held \<Longrightarrow> held_ok hx (insert entry E) i held"
  by (cases held) (simp_all add: held_ok_def)

lemma held_process:
  assumes "held_ok hx E (getDhtAddressFromRaw hx (deCreator entry)) held"
  shows "held_ok hx (insert entry E) (getDhtAddressFromRaw hx (deCreator entry))
    (case held of None \<Rightarrow> Some entry
     | Some x \<Rightarrow> if isNewerTimestamp entry x \<or> (\<not> isNewerTimestamp x entry \<and> deDeleted entry) then Some entry else Some x)"
proof (cases held)
  case None
  then show ?thesis using assms by (auto simp: held_ok_def rank_refl)
next
  case (Some x)
  have x: "x \<in> E" "getDhtAddressFromRaw hx (deCreator x) = getDhtAddressFromRaw hx (deCreator entry)"
      "\<forall>e \<in> E. getDhtAddressFromRaw hx (deCreator e) = getDhtAddressFromRaw hx (deCreator entry) \<longrightarrow> rank_le (entry_rank e) (entry_rank x)"
    using assms Some by (simp_all add: held_ok_def)
  show ?thesis
  proof (cases "isNewerTimestamp entry x \<or> (\<not> isNewerTimestamp x entry \<and> deDeleted entry)")
    case True
    have "\<forall>e \<in> E. getDhtAddressFromRaw hx (deCreator e) = getDhtAddressFromRaw hx (deCreator entry) \<longrightarrow> rank_le (entry_rank e) (entry_rank entry)"
      using x(3) rank_trans [OF _ entry_replaces(1) [OF True]] by blast
    then show ?thesis using True Some by (simp add: held_ok_def rank_refl)
  next
    case False
    then show ?thesis using Some x entry_replaces(2) [OF False] by (auto simp: held_ok_def)
  qed
qed

lemma found_process:
  assumes "found_ok hx E found"
  shows "found_ok hx (insert entry E) (process_entry hx entry found)"
proof -
  let ?i = "getDhtAddressFromRaw hx (deCreator entry)"
  have own: "om_find (process_entry hx entry found) ?i =
      (case om_find found ?i of None \<Rightarrow> Some entry
       | Some x \<Rightarrow> if isNewerTimestamp entry x \<or> (\<not> isNewerTimestamp x entry \<and> deDeleted entry) then Some entry else Some x)"
    by (simp add: process_entry_def Let_def split: option.split)
  have other: "om_find (process_entry hx entry found) j = om_find found j" if "j \<noteq> ?i" for j
    using that by (simp add: process_entry_def Let_def split: option.split)
  have "held_ok hx (insert entry E) j (om_find (process_entry hx entry found) j)" for j
  proof (cases "j = ?i")
    case True
    then show ?thesis using held_process [of hx E entry "om_find found ?i"] assms unfolding True own by (simp add: found_ok_def)
  next
    case False
    then show ?thesis using held_other [of hx entry j E] assms other [OF False] by (auto simp: found_ok_def)
  qed
  then show ?thesis by (simp add: found_ok_def)
qed

lemma found_fold: "found_ok hx E found \<Longrightarrow> found_ok hx (set entries \<union> E) (fold (process_entry hx) entries found)"
proof (induction entries arbitrary: E found)
  case (Cons e entries)
  show ?case using Cons.IH [OF found_process [OF Cons.prems, of e]] by simp
qed simp

lemma found_run:
  "found_ok hx E (rcFoundData s) \<Longrightarrow> found_ok hx (set (concat (map reported_entries es)) \<union> E) (rcFoundData (foldl (rc_step hx) s es))"
proof (induction es arbitrary: s E)
  case (Cons e es)
  have "found_ok hx (set (reported_entries e) \<union> E) (rcFoundData (rc_step hx s e))" unfolding step_found by (rule found_fold [OF Cons.prems])
  from Cons.IH [OF this] show ?case by (simp add: Un_ac)
qed simp

text \<open>
  C34. A recursive operation keeps the newest data: in every run of a session, whatever the order of the answers, what it holds for a creator is
  an entry that this very creator made and that was reported, and of all reported entries of the creator none is newer, where at the same time a
  deletion counts as newer. It holds nothing for a creator exactly when no entry of this creator was reported.
\<close>

theorem recursive_data_newest:
  assumes "hex_laws hx" "rc_create hx targetId me n operation = Inr s" "t = foldl (rc_step hx) s es"
    and "entries = concat (map reported_entries es)"
  shows "case om_find (rcFoundData t) (getDhtAddressFromRaw hx creator) of
      None \<Rightarrow> \<forall>e \<in> set entries. deCreator e \<noteq> creator
    | Some x \<Rightarrow> x \<in> set entries \<and> deCreator x = creator \<and>
        (\<forall>e \<in> set entries. deCreator e = creator \<longrightarrow> rank_le (entry_rank e) (entry_rank x))"
proof -
  have "found_ok hx {} (rcFoundData s)" using assms(2) by (auto simp: rc_create_def found_ok_def held_ok_def om_find_def split: sum.splits)
  then have "found_ok hx (set entries) (rcFoundData t)" using found_run [of hx "{}" s es] by (simp add: assms(3,4))
  then have "held_ok hx (set entries) (getDhtAddressFromRaw hx creator) (om_find (rcFoundData t) (getDhtAddressFromRaw hx creator))"
    by (simp add: found_ok_def)
  then show ?thesis by (cases "om_find (rcFoundData t) (getDhtAddressFromRaw hx creator)")
      (simp_all add: held_ok_def hex_laws.address_inject [OF assms(1)])
qed

section \<open>The end\<close>

definition rc_alive :: "rec_session \<Rightarrow> bool" where
  "rc_alive s \<longleftrightarrow>
     (rcAborted s \<longrightarrow> rcCompletionEmitted s) \<and>
     (0 < rcNoCloserCounter s \<longrightarrow> rcCompletionEmitted s \<or> rcTimer s \<or> rcFired s) \<and>
     (rcTimeoutScheduled s \<longrightarrow> rcCompletionEmitted s \<or> rcTimer s \<or> rcFired s) \<and>
     (rcCompletionEmitted s \<longleftrightarrow> 0 < rcCompletions s)"

lemma alive_response: "rc_alive s \<Longrightarrow> rc_alive (onResponseReceived hx remote path nodes entries noCloser s)"
proof -
  assume s: "rc_alive s"
  have known: "rc_alive (addKnownHops hx ps u) = rc_alive u" for ps u by (simp add: rc_alive_def knownHops_frame)
  have hop: "rc_alive (setHopAsReported hx p u)" if "rc_alive u" for p u
    using that by (auto simp: rc_alive_def setHopAsReported_def emitCompleted_def Let_def)
  have data: "rc_alive (processFoundData hx entries (add_results hx nodes u)) = rc_alive u" for u
    by (simp add: rc_alive_def processFoundData_def add_results_def)
  have none: "rc_alive (onNoCloserPeersFound i u)" if "rc_alive u" for i u
    using that by (auto simp: rc_alive_def onNoCloserPeersFound_def emitCompleted_def Let_def)
  show ?thesis using s by (simp add: onResponseReceived_def Let_def known data hop none)
qed

interpretation rc: op_machine "rc_step hx" rc_alive "\<lambda>e. e \<noteq> RcStopBegin" for hx
proof
  fix s e
  assume "rc_alive s" "e \<noteq> RcStopBegin"
  then show "rc_alive (rc_step hx s e)"
  proof (cases e)
    case (RcResponse remote path nodes entries noCloser)
    then show ?thesis using \<open>rc_alive s\<close> by (simp add: alive_response)
  qed (auto simp: rc_alive_def timer_defs)
qed

text \<open>
  C35. A session ends: in every run in which it is not stopped, once one answer has said that there are no closer nodes, the session has completed
  or its timer completes it, whatever the other nodes do.
\<close>

theorem recursive_session_ends:
  assumes "rc_create hx targetId me n operation = Inr s" "RcStopBegin \<notin> set es" "t = foldl (rc_step hx) s es" "0 < rcNoCloserCounter t"
  shows "rcCompletionEmitted (rc_timerRuns (rc_timerFires t))"
proof -
  have "rc_alive s" using assms(1) by (auto simp: rc_create_def rc_alive_def split: sum.splits)
  then have "rc_alive t" unfolding assms(3) using assms(2) by (intro rc.run_inv) (auto simp: list_all_iff)
  then show ?thesis using assms(4) by (auto simp: rc_alive_def rc_timerRuns_def rc_timerFires_def emitCompleted_def Let_def)
qed

text \<open>
  A session that has completed emits \<^verbatim>\<open>Completed\<close> again with every further answer that has no closer nodes and leaves no hop to report.
\<close>

theorem completes_again:
  assumes "isCompleted s" "rcOperation s \<noteq> FETCH_DATA"
  shows "rcCompletions (onResponseReceived hx remote [] nodes entries True s) = Suc (rcCompletions s)"
proof -
  define u where "u = (processFoundData hx entries (add_results hx nodes s))\<lparr>rcNoCloserCounter := rcNoCloserCounter s + 1,
     rcNoCloserFrom := id_insert remote (rcNoCloserFrom s)\<rparr>"
  have "isCompleted u" using assms by (simp add: u_def isCompleted_def unreportedHops_def processFoundData_def add_results_def split: if_splits)
  then show ?thesis
    by (simp add: onResponseReceived_def onNoCloserPeersFound_def Let_def emitCompleted_def u_def processFoundData_def add_results_def)
qed

section \<open>What a node answers\<close>

text \<open>The closest of the connections.\<close>

definition closest_of :: "bytes \<Rightarrow> nat \<Rightarrow> PeerDescriptor list \<Rightarrow> PeerDescriptor list \<Rightarrow> bool" where
  "closest_of target m offered res \<longleftrightarrow>
     set res \<subseteq> set offered \<and> distinct (map nodeid res) \<and> sorted (map (\<lambda>p. getPeerDistance target (nodeid p)) res) \<and> length res \<le> m \<and>
     (\<forall>p \<in> set offered. nodeid p \<in> nodeid ` set res \<or>
        (length res = m \<and> (\<forall>r \<in> set res. getPeerDistance target (nodeid r) \<le> getPeerDistance target (nodeid p))))"

lemma closest_connected:
  assumes "hex_laws hx" "0 < m"
  shows "\<exists>res. getClosestConnectedNodes hx connections (getDhtAddressFromRaw hx target) m = Inr res \<and> closest_of target m connections res"
proof -
  let ?o = "\<lparr>referenceId = getDhtAddressFromRaw hx target, allowToContainReferenceId = True, maxSize = Some m, nodeIdDistanceLimit = None,
      excludedNodeIds = None\<rparr>"
  have raw: "getRawFromDhtAddress hx (getDhtAddressFromRaw hx target) = Inr target" using assms(1) by (rule hex_laws.raw_roundtrip)
  obtain s where s: "scl_create hx ?o = Inr (s :: PeerDescriptor scl)" by (simp add: scl_create_def raw)
  have ok: "results_ok hx target m {} s" using hex_laws.results_create [OF assms(1) s raw assms(2)] .
  have added: "results_ok hx target m (set connections) (fst (scl_addContacts hx (peer_id hx) s connections))"
    using hex_laws.results_add [OF assms(1) ok, of connections] by simp
  have "snd (snd (scl_addContacts hx (peer_id hx) s connections)) = None"
  proof -
    have c: "scl_ok hx (peer_id hx) p" for p by (simp add: scl_ok_def getNodeIdFromPeerDescriptor_def hex_laws.raw_roundtrip [OF assms(1)])
    have inv: "scl_inv hx (peer_id hx) s" "scl_best hx s (peer_id hx ` {})" using ok by (simp_all add: results_ok_def)
    show ?thesis using scl_adds_best [OF inv(1) c inv(2), of connections] by auto
  qed
  then obtain t evs where t: "scl_addContacts hx (peer_id hx) s connections = (t, evs, None)" by (metis prod.collapse)
  have t_ok: "results_ok hx target m (set connections) t" using added t by simp
  obtain res where res: "getClosestContacts t None = Inr res" "closest_of target m connections res"
    using hex_laws.results_closest [OF assms(1) t_ok] by (auto simp: closest_of_def)
  have inv: "scl_inv hx (peer_id hx) t" "length (contactIds t) \<le> m" using t_ok by (auto simp: results_ok_def scl_inv_def)
  then have "getClosestContacts t (Some (int m)) = getClosestContacts t None" by (simp add: getClosestContacts_def limit_count_def)
  then show ?thesis using res t s by (auto simp: getClosestConnectedNodes_def)
qed

lemma closest_hd:
  assumes "closest_of target m offered res" "0 < m" "p \<in> set offered"
  shows "res \<noteq> [] \<and> getPeerDistance target (nodeid (hd res)) \<le> getPeerDistance target (nodeid p)"
proof -
  have ne: "res \<noteq> []" using assms by (auto simp: closest_of_def)
  then obtain r rest where r: "res = r # rest" by (cases res) auto
  show ?thesis
  proof (cases "nodeid p \<in> nodeid ` set res")
    case True
    then obtain q where q: "q \<in> set res" "nodeid p = nodeid q" by (rule imageE)
    then show ?thesis using assms(1) ne r by (auto simp: closest_of_def)
  next
    case False
    then show ?thesis using assms(1,3) ne r by (auto simp: closest_of_def)
  qed
qed

text \<open>
  C36. A node that takes a recursive request answers it once: the session of the node that asked gets one response, with the path so far and the five
  connections closest to the target, exactly when the request has been routed on or could not be for want of targets.  When the node
  answers that there are no closer nodes, it is the target, or the router has no targets, or none of its connections is closer than it is.
\<close>

theorem recursive_request_answered:
  assumes "hex_laws hx" "doRouteRequest hx decode connections now t1 t2 sid m excluded mg = Inr (mg1, ack, responses)"
  shows "length responses = (if ackError ack = None \<or> ackError ack = Some NO_TARGETS then 1 else 0) \<and>
    (\<forall>r \<in> set responses. sresTarget r = rwSourcePeer m \<and> rrRoutingPath (sresReport r) = rwRoutingPath m \<and>
       closest_of (rwTarget m) 5 connections (rrClosestConnectedNodes (sresReport r)) \<and>
       (\<not> rrNoCloserNodesFound (sresReport r) \<or> nodeid (rmLocalPeer mg) = rwTarget m \<or> ackError ack = Some NO_TARGETS \<or>
        (\<forall>p \<in> set connections. \<not> isPeerCloserToIdThanSelf (rmLocalPeer mg) p (rwTarget m))))"
proof (cases "rmStopped mg")
  case True
  then show ?thesis using assms(2) by (auto simp: doRouteRequest_def createRouteMessageAck_def)
next
  case False
  obtain closest where closest: "getClosestConnectedNodes hx connections (getDhtAddressFromRaw hx (rwTarget m)) 5 = Inr closest"
      "closest_of (rwTarget m) 5 connections closest"
    using closest_connected [OF assms(1), of 5 connections "rwTarget m"] by auto
  have far: "\<not> isPeerCloserToIdThanSelf (rmLocalPeer mg) p (rwTarget m)"
    if "noCloserContacts (rmLocalPeer mg) m closest ack" "ackError ack \<noteq> Some NO_TARGETS" "p \<in> set connections" for p
    using that closest_hd [OF closest(2) _ that(3)]
    by (auto simp: noCloserContacts_def isPeerCloserToIdThanSelf_def getPeerDistance_commute [of _ "rwTarget m"])
  show ?thesis
    using assms(2) False closest far
    by (auto simp: doRouteRequest_def Let_def createRouteMessageAck_def sendResponse_def split: option.splits sum.splits prod.splits if_splits)
qed

section \<open>A concrete session\<close>

definition rec_peer :: "byte \<Rightarrow> PeerDescriptor" where
  "rec_peer b = \<lparr>nodeid = [b], region = 0, ipaddress = 0, websocket = None\<rparr>"

definition rec_entry :: "int \<Rightarrow> bool \<Rightarrow> DataEntry" where
  "rec_entry t deleted =
     \<lparr>deKey = [1], deData = [], deCreator = [9], deCreatedSeconds = t, deCreatedNanos = 0, deTtl = 0, deStale = False, deDeleted = deleted\<rparr>"

definition rec_events :: "rc_event list" where
  "rec_events =
     [RcResponse ''02'' [rec_peer 2] [rec_peer 3, rec_peer 1] [rec_entry 5 True, rec_entry 4 False] False,
      RcResponse ''03'' [rec_peer 2, rec_peer 3] [rec_peer 7] [rec_entry 5 False] True]"

lemma rec_created: "\<exists>s. rc_create ref_hex ''00'' (rec_peer 8) 2 FETCH_DATA = Inr s"
  and rec_target: "getRawFromDhtAddress ref_hex ''00'' = Inr [0]"
proof -
  show raw: "getRawFromDhtAddress ref_hex ''00'' = Inr [0]" by code_simp
  show "\<exists>s. rc_create ref_hex ''00'' (rec_peer 8) 2 FETCH_DATA = Inr s" by (simp add: rc_create_def scl_create_def rc_options_def raw)
qed

lemma counter_response: "0 < rcNoCloserCounter (onResponseReceived hx i path nodes entries True s)"
  by (simp add: onResponseReceived_def onNoCloserPeersFound_def emitCompleted_def Let_def)

theorem recursive_results_witness:
  "\<exists>s nodes. rc_create ref_hex ''00'' (rec_peer 8) 2 FETCH_DATA = Inr s \<and>
     rc_getResults (foldl (rc_step ref_hex) s rec_events) = Inr (nodes, om_values (rcFoundData (foldl (rc_step ref_hex) s rec_events))) \<and>
     rec_peer 7 \<in> set (concat (map reported_nodes rec_events)) \<and> (nodeid (rec_peer 7) \<in> nodeid ` set nodes \<or> length nodes = 10)"
proof -
  obtain s where s: "rc_create ref_hex ''00'' (rec_peer 8) 2 FETCH_DATA = Inr s" using rec_created by blast
  have offered: "rec_peer 7 \<in> set (concat (map reported_nodes rec_events))" by (simp add: rec_events_def)
  from recursive_results_closest [OF ref.hex_laws_axioms s rec_target refl refl, of rec_events] offered s show ?thesis by blast
qed

theorem recursive_data_witness:
  "\<exists>s x. rc_create ref_hex ''00'' (rec_peer 8) 2 FETCH_DATA = Inr s \<and>
     om_find (rcFoundData (foldl (rc_step ref_hex) s rec_events)) (getDhtAddressFromRaw ref_hex [9]) = Some x \<and> deDeleted x"
proof -
  obtain s where s: "rc_create ref_hex ''00'' (rec_peer 8) 2 FETCH_DATA = Inr s" using rec_created by blast
  let ?held = "om_find (rcFoundData (foldl (rc_step ref_hex) s rec_events)) (getDhtAddressFromRaw ref_hex [9])"
  have set: "set (concat (map reported_entries rec_events)) = {rec_entry 5 True, rec_entry 4 False, rec_entry 5 False}"
    by (auto simp: rec_events_def)
  have c: "deCreator (rec_entry t d) = [9]" for t d by (simp add: rec_entry_def)
  have "case ?held of None \<Rightarrow> False | Some x \<Rightarrow> rank_le (entry_rank (rec_entry 5 True)) (entry_rank x) \<and>
      x \<in> {rec_entry 5 True, rec_entry 4 False, rec_entry 5 False}"
    using recursive_data_newest [OF ref.hex_laws_axioms s refl refl, of rec_events "[9]"] unfolding set by (auto simp: c split: option.splits)
  then obtain x where "?held = Some x" "deDeleted x" by (auto simp: rank_le_def entry_rank_def rec_entry_def split: option.splits)
  then show ?thesis using s by blast
qed

theorem recursive_ends_witness:
  "\<exists>s. rc_create ref_hex ''00'' (rec_peer 8) 2 FETCH_DATA = Inr s \<and>
     rcCompletionEmitted (rc_timerRuns (rc_timerFires (foldl (rc_step ref_hex) s rec_events)))"
proof -
  obtain s where s: "rc_create ref_hex ''00'' (rec_peer 8) 2 FETCH_DATA = Inr s" using rec_created by blast
  have "RcStopBegin \<notin> set rec_events" by (simp add: rec_events_def)
  moreover have "0 < rcNoCloserCounter (foldl (rc_step ref_hex) s rec_events)"
    by (simp add: rec_events_def counter_response)
  ultimately show ?thesis using recursive_session_ends [OF s _ refl, of rec_events] s by blast
qed

text \<open>A request for the identifier of the node itself.\<close>

definition rec_request :: RouteMessageWrapper where
  "rec_request =
     \<lparr>rwRequestId = ''u'', rwSourcePeer = rec_peer 3, rwTarget = [8],
      rwMessage = \<lparr>messageId = ''m'', serviceId = ''s'', hasRpcMessage = False, msgBody = [1], sourceDescriptor = None, targetDescriptor = rec_peer 8\<rparr>,
      rwReachableThrough = [], rwRoutingPath = [rec_peer 3], rwParallelRootNodeIds = []\<rparr>"

definition rec_node :: rec_manager where
  "rec_node = \<lparr>rmLocalPeer = rec_peer 8, rmStopped = False, rmStore = ds_create 0, rmRouter = router_create (rec_peer 8)\<rparr>"

definition rec_decode :: "bytes \<Rightarrow> RecursiveOperationRequest option" where
  "rec_decode b = (if b = [1] then Some \<lparr>roqSessionId = ''q'', roqOperation = FIND_CLOSEST_NODES\<rparr> else None)"

theorem recursive_request_witness:
  "\<exists>mg responses r. doRouteRequest ref_hex rec_decode [rec_peer 2] 0 0 0 ''s'' rec_request None rec_node =
       Inr (mg, \<lparr>ackRequestId = ''u'', ackError = None\<rparr>, responses) \<and> responses = [r] \<and>
     sresTarget r = rec_peer 3 \<and> closest_of [8] 5 [rec_peer 2] (rrClosestConnectedNodes (sresReport r))"
proof -
  have req: "rwTarget rec_request = [8]" "rwSourcePeer rec_request = rec_peer 3" "msgBody (rwMessage rec_request) = [1]" "rwRequestId rec_request = ''u''"
    by (simp_all add: rec_request_def)
  have node: "nodeid (rmLocalPeer rec_node) = [8]" "rmStopped rec_node = False" by (simp_all add: rec_node_def rec_peer_def)
  obtain closest where closest: "getClosestConnectedNodes ref_hex [rec_peer 2] (getDhtAddressFromRaw ref_hex [8]) 5 = Inr closest"
    using closest_connected [OF ref.hex_laws_axioms, of 5 "[rec_peer 2]" "[8]"] by auto
  obtain mg responses where run: "doRouteRequest ref_hex rec_decode [rec_peer 2] 0 0 0 ''s'' rec_request None rec_node =
       Inr (mg, \<lparr>ackRequestId = ''u'', ackError = None\<rparr>, responses)"
    by (simp add: doRouteRequest_def req node closest rec_decode_def request_store_def createRouteMessageAck_def Let_def)
  from recursive_request_answered [OF ref.hex_laws_axioms run] show ?thesis
    using run by (auto simp: req length_Suc_conv)
qed

end
