(* ===== verification/Spec2Isabelle.thy ===== *)
theory Spec2Isabelle
  imports
    K_Bucket
    Sorted_Contact_List
    Connection_Manager_Correct
    Pending_Connection
    Local_Data_Store
    Propagation
    Node_List
    Lib_Api_Behaviour
    Cpp_Wrappers_Correct
    Jni
    Plugin_Generator
    Routed_Hello
    Neighbor_Update
    Proxy_Client_Properties
    Publisher_Examples
    Location_Share
    Router_Properties
    Recursive_Correct
begin

text \<open>
  A verification development for the Streamr native SDK, under \<^verbatim>\<open>src/packages\<close>.

  \<^bold>\<open>The program.\<close>  The SDK is a peer-to-peer publish/subscribe network.  \<^verbatim>\<open>streamr-dht\<close> keeps a Kademlia routing
  table and the connections to other peers; \<^verbatim>\<open>streamr-trackerless-network\<close> delivers the messages of a stream part
  over them; \<^verbatim>\<open>streamr-libstreamrproxyclient\<close> is the shared library around both, with a C API, C++ wrappers and a
  JNI layer for Android; \<^verbatim>\<open>streamr-proto-rpc\<close> has the RPC communicator all of them talk through and a protoc plugin that
  generates its stubs; \<^verbatim>\<open>streamr-utils\<close> has the identifiers.  A publish of the library goes through the proxy client, which
  broadcasts over the propagation; the propagation sends through the RPC communicator to the neighbours, which the
  handshakes or the proxy connections have made; each of these connections is locked in the connection manager.

  \<^bold>\<open>Theories and the code they model.\<close>

  \<^item> \<open>Prelude\<close>: the errors of C++ as values, \<^verbatim>\<open>std::map\<close> as a sorted association list, lemmas on lists and runs.
  \<^item> \<open>Peer_Distance\<close>, \<open>K_Bucket\<close>: \<^verbatim>\<open>getPeerDistance.cppm\<close> with its rounding, \<^verbatim>\<open>KBucket.cppm\<close>.  The tree keeps its invariant,
    lookups find what was added, \<^verbatim>\<open>closest\<close> is the sorted prefix of all contacts.
  \<^item> \<open>Identifiers\<close>, \<open>Contact_List\<close>, \<open>Sorted_Contact_List\<close>: \<^verbatim>\<open>Identifiers.cppm\<close>, \<^verbatim>\<open>BinaryUtils.cppm\<close>, the contact lists and
    \<^verbatim>\<open>getClosestNodes.cppm\<close>.  The lists keep the closest of all contacts they were offered.
  \<^item> \<open>Duplicate_Message_Detector\<close>, \<open>Duplicate_Detector\<close>: the gap list per publisher refines the set of unseen message numbers; the
    bounded memory of message ids handles a value at most once per window.
  \<^item> \<open>Connection_Locks\<close>, \<open>Endpoint\<close>, \<open>Pending_Connection\<close>, \<open>Connection_Manager\<close>, \<open>Connection_Manager_Correct\<close>: the state machines behind a
    connection (\<^verbatim>\<open>modules/connection\<close>).  Data stays in order, a peer has at most one live endpoint, simultaneous
    connects converge under every interleaving, incoming messages are filtered.
  \<^item> \<open>Map_With_Ttl\<close>, \<open>Local_Data_Store\<close>, \<open>Fifo_Map\<close>, \<open>Propagation\<close>, \<open>Node_List\<close>: expiring maps, the DHT store, and the propagation of
    messages to neighbours with its concurrent sends.
  \<^item> \<open>Routing_Tables\<close>, \<open>Routing_Session\<close>, \<open>Router\<close>: \<^verbatim>\<open>RoutingTablesCache.cppm\<close>, \<^verbatim>\<open>RoutingSession.cppm\<close>, \<^verbatim>\<open>Router.cppm\<close>, \<^verbatim>\<open>RouterRpcLocal.cppm\<close>,
    \<^verbatim>\<open>RouterRpcRemote.cppm\<close>.  The work of a router runs on one executor, so an operation is one step; the sends of its sessions, its timers
    and the tasks that timers post are steps of their own.  \<open>Router_Tables\<close>, \<open>Router_Correct\<close>, \<open>Router_Properties\<close>: over all runs a message
    never goes back, a session asks at most three peers, and a stopped router is silent.
  \<^item> \<open>Recursive_Operation\<close>, \<open>Recursive_Correct\<close>: \<^verbatim>\<open>RecursiveOperationSession.cppm\<close>, \<^verbatim>\<open>RecursiveOperationManager.cppm\<close> and their RPC classes.  A
    session collects answers until it completes or its timer ends it; it returns the closest nodes and the newest data that were
    reported.  Of the manager the requests it serves are modelled, over the router and the data store.
  \<^item> \<open>Rpc_Communicator\<close>, \<open>Rpc_Communicator_Correct\<close>: \<^verbatim>\<open>Errors.cppm\<close>, \<^verbatim>\<open>ServerRegistry.cppm\<close>, \<^verbatim>\<open>RpcCommunicatorServerApi.cppm\<close>,
    \<^verbatim>\<open>RpcCommunicatorClientApi.cppm\<close>, \<^verbatim>\<open>RpcCommunicator.cppm\<close>.  A coroutine is a task with a stage; the events of a run (start of
    a task, timer, response, cancellation, drain) come in any order.  A promise is settled at most once, a started call ends, a
    request and its response are a round trip.
  \<^item> \<open>Routed_Hello\<close>: the examples \<^verbatim>\<open>routedhello.cpp\<close> and \<^verbatim>\<open>hello.cpp\<close> as a whole, over the model of the communicator.
  \<^item> \<open>Handshake\<close>: \<^verbatim>\<open>HandshakeRpcLocal.cppm\<close>, \<^verbatim>\<open>HandshakeRpcRemote.cppm\<close>, \<^verbatim>\<open>Handshaker.cppm\<close>.  An operation that awaits an answer is an
    entry of a list, and answers come in any order; the sets of ongoing handshakes and interleaves stay those of the list.
  \<^item> \<open>Neighbor_Update\<close>: \<^verbatim>\<open>NeighborFinder.cppm\<close> with its two chains of timers, \<^verbatim>\<open>NeighborUpdateRpcLocal.cppm\<close>,
    \<^verbatim>\<open>NeighborUpdateRpcRemote.cppm\<close>, \<^verbatim>\<open>NeighborUpdateManager.cppm\<close>.
  \<^item> \<open>Proxy_Client\<close>, \<open>Proxy_Client_Correct\<close>, \<open>Proxy_Client_Properties\<close>: \<^verbatim>\<open>ProxyClient.cppm\<close>, \<^verbatim>\<open>ProxyConnectionRpcLocal.cppm\<close>,
    \<^verbatim>\<open>ProxyConnectionRpcRemote.cppm\<close>, \<^verbatim>\<open>ContentDeliveryRpcLocal.cppm\<close>, \<^verbatim>\<open>ContentDeliveryRpcRemote.cppm\<close>.  The operations as functions of the client
    and its connection locker, and, for the races, their locked sections as separate steps (\<open>px_interleave\<close>).
  \<^item> \<open>Stream_Part\<close>: stream part ids, stream ids, Ethereum addresses and ENS names with every exception of their parsers.
  \<^item> \<open>Api_Values\<close>: the C structs of \<^verbatim>\<open>streamrcommon.h\<close> and the objects \<^verbatim>\<open>ProxyCpp\<close>, \<^verbatim>\<open>ErrorCpp\<close>, \<^verbatim>\<open>ProxyResultCpp\<close> that own the strings
    behind their pointers.  Pointers are addresses; every copy, move and assignment points into itself.
  \<^item> \<open>Lib_Api\<close>: the class \<^verbatim>\<open>LibProxyClientApi\<close> of \<^verbatim>\<open>streamrproxyclient.cpp\<close> and the exported C functions.  The state is a record of the
    registry of results, the clients and the nodes, with the log of what was done to the components behind them.
  \<^item> \<open>Lib_Api_Correct\<close>: every call ends in one result; the trace of each network node is start, use, stop in every run.
  \<^item> \<open>Lib_Api_Behaviour\<close>: guards, returning and escaping exceptions, publishing and subscribing, signatures, URLs, handles, clean-up.
  \<^item> \<open>Cpp_Wrappers\<close>, \<open>Cpp_Wrappers_Correct\<close>: \<^verbatim>\<open>StreamrProxyClient.hpp\<close> and \<^verbatim>\<open>StreamrNode.hpp\<close> over the C API.
  \<^item> \<open>Jni\<close>: \<^verbatim>\<open>ProxyClient.cpp\<close> of the Android library module over the C API.
  \<^item> \<open>Publisher_Examples\<close>: the programs of \<^verbatim>\<open>examples/unix-c\<close> and \<^verbatim>\<open>examples/unix-cpp\<close> as a whole, over the C API and the wrapper.
  \<^item> \<open>Location_Share\<close>: the native methods of \<^verbatim>\<open>examples/android/LocationShare\<close> with the life of the string buffers they take from Java; the
    library they are written against is older than the repository and a parameter.
  \<^item> \<open>Plugin_Generator\<close>: \<^verbatim>\<open>StreamPrinter.hpp\<close> and \<^verbatim>\<open>PluginCodeGenerator.hpp\<close>; the loops of the generator equal a declarative description
    of the generated modules.

  \<^bold>\<open>Conventions.\<close>  Exceptions are values of \<open>cpp_error\<close> on the left of a sum.  What an operation does to its surroundings is a list in its result.
  A locked section is one step; where the code releases a lock between two sections, they are two steps that
  interleave.  Machine integers are words where they can wrap.  Code outside of the repository is a parameter: the hexadecimal codec
  (\<open>hex_codec\<close>, with the contract \<open>hex_laws\<close>), the URL parser, the allocator and the cryptographic primitives (\<open>api_env\<close>, with the
  contracts \<open>alloc_contract\<close>, \<open>url_contract\<close>, \<open>hex_contract\<close>), the values of clocks and of \<^verbatim>\<open>rand()\<close>, the answers of the network, and the
  zero-copy stream of protobuf.  Reference instances of the codec, the environment and the stream show that the contracts can
  be met.  Reads that C++ leaves undefined are parameters or the value \<open>UndefinedBehaviour\<close>.

  \<^bold>\<open>Loops.\<close>  All loops are total recursions except the one of the stream printer, which may run forever on a failing stream: it is a
  partial function into \<open>option\<close>, proved to return on every stream that keeps offering buffers.  The insertion of the k-bucket
  splits at most as often as an identifier has bits; its recursion is over that number, and it is shown to return.  The loop that
  draws random targets of a handshake ends because every draw removes a candidate (\<open>fill_random\<close>).

  \<^bold>\<open>Interfaces.\<close>  The locales \<open>hex_laws\<close>, the contact containers, the window of recent values, \<open>lock_store\<close>, \<open>expiring_cache\<close>,
  \<open>fresh_results\<close> and \<open>connection_locker\<close> (what the proxy client calls of the connection manager) state what one component relies on of another; each is interpreted on the definitions of the model.

  \<^bold>\<open>Not modelled.\<close>  Calls of the C API are atomic: the concurrency of two threads inside one call is out of scope.  The DHT
  node with its discovery and store RPC, the operation \<^verbatim>\<open>execute\<close> that waits for a recursive session, the content delivery manager and the content delivery layer node (which own the components
  modelled here), the websocket and WebRTC bindings, logging, JSON, generated protobuf code, the outdated \<^verbatim>\<open>examples/cpp\<close>, the tests and the compiler
  identification files of CMake.  The JNI model works on Java values and does not track local references.
\<close>

end
